(* ===== verification/Prelude.thy ===== *)
theory Prelude
  imports Main "HOL-Library.Char_ord" "HOL-Library.List_Lexorder" "HOL-Library.Product_Lexorder"
    "HOL-Library.Multiset"
begin

text \<open>
  What every component shares: sequencing of calls that may throw, database tables as lists
  of rows with an auto-increment counter, the lookups, updates and deletes that repository
  calls perform on them, and the string and list operations of the language the services use.
  A call that may throw returns a sum, \<open>Inl\<close> with the exception or \<open>Inr\<close> with the value.
\<close>

named_theorems result_iffs \<open>when a sequence of throwing calls returns a given value\<close>
named_theorems table_simps \<open>rows of a table after an operation\<close>

section \<open>Sequencing of calls that may throw\<close>

definition and_then :: "'e + 'a \<Rightarrow> ('a \<Rightarrow> 'e + 'b) \<Rightarrow> 'e + 'b" where
  "and_then m f = (case m of Inl e \<Rightarrow> Inl e | Inr x \<Rightarrow> f x)"

text \<open>\<open>guard c e\<close> is the statement \<open>if (!c) throw e\<close>.\<close>

definition guard :: "bool \<Rightarrow> 'e \<Rightarrow> 'e + unit" where
  "guard c e = (if c then Inr () else Inl e)"

text \<open>\<open>need x e\<close> throws \<open>e\<close> for an absent value and narrows a present one.\<close>

definition need :: "'a option \<Rightarrow> 'e \<Rightarrow> 'e + 'a" where
  "need x e = (case x of None \<Rightarrow> Inl e | Some y \<Rightarrow> Inr y)"

text \<open>A loop over a list whose body may throw, and a map whose function may throw.\<close>

fun for_each :: "('a \<Rightarrow> 'e + unit) \<Rightarrow> 'a list \<Rightarrow> 'e + unit" where
  "for_each f [] = Inr ()"
| "for_each f (x # xs) = and_then (f x) (\<lambda>_. for_each f xs)"

fun map_throw :: "('a \<Rightarrow> 'e + 'b) \<Rightarrow> 'a list \<Rightarrow> 'e + 'b list" where
  "map_throw f [] = Inr []"
| "map_throw f (x # xs) = and_then (f x) (\<lambda>y. and_then (map_throw f xs) (\<lambda>ys. Inr (y # ys)))"

lemma and_then_simps [simp]:
  "and_then (Inl e) f = Inl e"
  "and_then (Inr x) f = f x"
  by (simp_all add: and_then_def)

lemma and_then_eq_Inr [result_iffs]:
  "and_then m f = Inr y \<longleftrightarrow> (\<exists>x. m = Inr x \<and> f x = Inr y)"
  by (cases m) auto

lemma and_then_eq_Inl:
  "and_then m f = Inl e \<longleftrightarrow> m = Inl e \<or> (\<exists>x. m = Inr x \<and> f x = Inl e)"
  by (cases m) auto

lemma and_thenE:
  assumes "and_then m f = Inr y"
  obtains x where "m = Inr x" and "f x = Inr y"
  using assms by (auto simp: and_then_eq_Inr)

lemma and_then_assoc: "and_then (and_then m f) g = and_then m (\<lambda>x. and_then (f x) g)"
  by (cases m) auto

lemma and_then_cong [fundef_cong]:
  "m = m' \<Longrightarrow> (\<And>x. m' = Inr x \<Longrightarrow> f x = f' x) \<Longrightarrow> and_then m f = and_then m' f'"
  by (cases m') auto

lemma guard_simps [simp]:
  "guard True e = Inr ()"
  "guard False e = Inl e"
  by (simp_all add: guard_def)

lemma guard_eq_Inr [result_iffs]: "guard c e = Inr u \<longleftrightarrow> c"
  by (simp add: guard_def)

lemma guard_eq_Inl [result_iffs]: "guard c e = Inl e' \<longleftrightarrow> \<not> c \<and> e' = e"
  by (auto simp: guard_def)

lemma need_simps [simp]:
  "need None e = Inl e"
  "need (Some y) e = Inr y"
  by (simp_all add: need_def)

lemma need_eq_Inr [result_iffs]: "need x e = Inr y \<longleftrightarrow> x = Some y"
  by (cases x) auto

lemma need_eq_Inl: "need x e = Inl e' \<longleftrightarrow> x = None \<and> e' = e"
  by (cases x) auto

lemma for_each_eq_Inr [result_iffs]:
  "for_each f xs = Inr u \<longleftrightarrow> (\<forall>x \<in> set xs. f x = Inr ())"
  by (induction xs) (auto simp: and_then_eq_Inr)

lemma map_throw_eq_Inr:
  "map_throw f xs = Inr ys \<longleftrightarrow> list_all2 (\<lambda>x y. f x = Inr y) xs ys"
  by (induction xs arbitrary: ys) (auto simp: and_then_eq_Inr list_all2_Cons1)

lemma map_throw_cong [fundef_cong]:
  "xs = ys \<Longrightarrow> (\<And>x. x \<in> set ys \<Longrightarrow> f x = g x) \<Longrightarrow> map_throw f xs = map_throw g ys"
  by (induction ys arbitrary: xs) auto

lemma map_throw_total:
  "(\<And>x. x \<in> set xs \<Longrightarrow> f x = Inr (g x)) \<Longrightarrow> map_throw f xs = Inr (map g xs)"
  by (induction xs) auto

section \<open>Tables\<close>

record 'r table =
  rows :: "'r list"
  next_id :: nat

text \<open>An insert into a table with an auto-increment key: the row is built from its id.\<close>

definition insert_auto :: "(nat \<Rightarrow> 'r) \<Rightarrow> 'r table \<Rightarrow> 'r table" where
  "insert_auto mk t = t\<lparr>rows := rows t @ [mk (next_id t)], next_id := Suc (next_id t)\<rparr>"

definition find_row :: "('r \<Rightarrow> bool) \<Rightarrow> 'r list \<Rightarrow> 'r option" where
  "find_row p rs = List.find p rs"

definition update_rows :: "('r \<Rightarrow> bool) \<Rightarrow> ('r \<Rightarrow> 'r) \<Rightarrow> 'r list \<Rightarrow> 'r list" where
  "update_rows p f rs = map (\<lambda>r. if p r then f r else r) rs"

definition delete_rows :: "('r \<Rightarrow> bool) \<Rightarrow> 'r list \<Rightarrow> 'r list" where
  "delete_rows p rs = filter (\<lambda>r. \<not> p r) rs"

definition table_ok :: "('r \<Rightarrow> nat) \<Rightarrow> 'r table \<Rightarrow> bool" where
  "table_ok key t \<longleftrightarrow> distinct (map key (rows t)) \<and> (\<forall>r \<in> set (rows t). key r < next_id t)"

lemma insert_auto_simps [table_simps, simp]:
  "rows (insert_auto mk t) = rows t @ [mk (next_id t)]"
  "next_id (insert_auto mk t) = Suc (next_id t)"
  by (simp_all add: insert_auto_def)

lemma find_row_Some:
  "find_row p rs = Some r \<Longrightarrow> r \<in> set rs \<and> p r"
  by (auto simp: find_row_def find_Some_iff)

lemma find_row_None: "find_row p rs = None \<longleftrightarrow> (\<forall>r \<in> set rs. \<not> p r)"
  by (auto simp: find_row_def find_None_iff)

lemma find_row_simps [simp]:
  "find_row p [] = None"
  "find_row p (r # rs) = (if p r then Some r else find_row p rs)"
  by (simp_all add: find_row_def)

lemma find_row_append:
  "find_row p (xs @ ys) = (case find_row p xs of None \<Rightarrow> find_row p ys | Some r \<Rightarrow> Some r)"
  by (induction xs) auto

lemma find_row_key:
  assumes "distinct (map key rs)" and "r \<in> set rs"
  shows "find_row (\<lambda>x. key x = key r) rs = Some r"
  using assms by (induction rs) auto

lemma find_row_cong:
  "(\<And>r. r \<in> set rs \<Longrightarrow> p r = q r) \<Longrightarrow> find_row p rs = find_row q rs"
  by (induction rs) auto

lemma find_row_update_key:
  assumes "\<And>r. key (f r) = key r"
  shows "find_row (\<lambda>r. key r = k) (update_rows p f rs) =
    map_option (\<lambda>r. if p r then f r else r) (find_row (\<lambda>r. key r = k) rs)"
  using assms by (induction rs) (auto simp: update_rows_def)

lemma find_row_delete_key:
  "find_row (\<lambda>r. key r = k) (delete_rows (\<lambda>r. key r = k') rs) =
    (if k = k' then None else find_row (\<lambda>r. key r = k) rs)"
  by (induction rs) (auto simp: delete_rows_def)

lemma set_update_rows: "set (update_rows p f rs) = (\<lambda>r. if p r then f r else r) ` set rs"
  by (simp add: update_rows_def)

lemma set_delete_rows [simp]: "set (delete_rows p rs) = {r \<in> set rs. \<not> p r}"
  by (auto simp: delete_rows_def)

lemma map_key_update_rows:
  "(\<And>r. key (f r) = key r) \<Longrightarrow> map key (update_rows p f rs) = map key rs"
  by (simp add: update_rows_def comp_def)

lemma length_update_rows [simp]: "length (update_rows p f rs) = length rs"
  by (simp add: update_rows_def)

lemma distinct_key_delete_rows:
  "distinct (map key rs) \<Longrightarrow> distinct (map key (delete_rows p rs))"
  by (simp add: delete_rows_def distinct_map_filter)

lemma distinct_key_eq:
  "distinct (map key rs) \<Longrightarrow> r \<in> set rs \<Longrightarrow> r' \<in> set rs \<Longrightarrow> key r = key r' \<Longrightarrow> r = r'"
  by (induction rs) (auto simp: image_iff)

lemma table_ok_insert_auto:
  assumes "table_ok key t" and "key (mk (next_id t)) = next_id t"
  shows "table_ok key (insert_auto mk t)"
  using assms by (force simp: table_ok_def less_Suc_eq)

lemma table_ok_update:
  assumes "table_ok key t" and "\<And>r. key (f r) = key r"
  shows "table_ok key (t\<lparr>rows := update_rows p f (rows t)\<rparr>)"
  using assms by (auto simp: table_ok_def map_key_update_rows set_update_rows)

lemma table_ok_delete:
  "table_ok key t \<Longrightarrow> table_ok key (t\<lparr>rows := delete_rows p (rows t)\<rparr>)"
  by (auto simp: table_ok_def distinct_key_delete_rows)

section \<open>Strings and lists of the language\<close>

text \<open>
  \<open>String.prototype.trim\<close> and \<open>toLowerCase\<close> on the characters of \<^typ>\<open>char\<close>, the code
  points up to 255.
\<close>

definition is_space :: "char \<Rightarrow> bool" where
  "is_space c \<longleftrightarrow> (of_char c :: nat) \<in> {9, 10, 11, 12, 13, 32, 160}"

definition trim :: "string \<Rightarrow> string" where
  "trim s = rev (dropWhile is_space (rev (dropWhile is_space s)))"

definition lower_char :: "char \<Rightarrow> char" where
  "lower_char c = (let n = (of_char c :: nat) in
     if (65 \<le> n \<and> n \<le> 90) \<or> (192 \<le> n \<and> n \<le> 222 \<and> n \<noteq> 215) then char_of (n + 32) else c)"

definition to_lower :: "string \<Rightarrow> string" where
  "to_lower s = map lower_char s"

text \<open>The elements of a list without repetitions, first occurrences kept: \<open>[...new Set(xs)]\<close>.\<close>

fun dedup :: "'a list \<Rightarrow> 'a list" where
  "dedup [] = []"
| "dedup (x # xs) = x # filter (\<lambda>y. y \<noteq> x) (dedup xs)"

lemma set_dedup [simp]: "set (dedup xs) = set xs"
  by (induction xs) auto

lemma distinct_dedup [simp]: "distinct (dedup xs)"
  by (induction xs) auto

text \<open>The first element of a destructured array, \<open>const [x] = xs\<close>.\<close>

fun head_opt :: "'a list \<Rightarrow> 'a option" where
  "head_opt [] = None"
| "head_opt (x # xs) = Some x"

lemma head_opt_Some: "head_opt xs = Some x \<Longrightarrow> x \<in> set xs"
  by (cases xs) auto

lemma head_opt_eq_None [simp]: "head_opt xs = None \<longleftrightarrow> xs = []"
  by (cases xs) auto

end
