(* ===== verification/Errors.thy ===== *)
theory Errors
  imports Prelude
begin

text \<open>
  The exceptions of the program and how they leave it: the error codes and messages
  (\<open>shared/error-messages.ts\<close>), \<open>ApiException\<close>, \<open>RetryAfterException\<close>, the errors a database
  driver reports (\<open>shared/utils/database-errors.ts\<close>) and the global exception filter
  (\<open>shared/http-exception.filter.ts\<close>).
\<close>

section \<open>Error codes\<close>

datatype error_code =
    INVALID_CREDENTIALS | EMAIL_NOT_VERIFIED | EMAIL_ALREADY_VERIFIED | FORBIDDEN_WALLET
  | FORBIDDEN_CATEGORY | CATEGORY_IS_SYSTEM | CATEGORY_ARCHIVED | CATEGORY_TYPE_MISMATCH
  | WALLET_DELETED | FORBIDDEN_LIMIT | LIMIT_EXISTS | LIMIT_NAME_REQUIRED | INVALID_REORDER
  | EMAIL_ALREADY_EXISTS | NOT_FOUND | TOO_MANY_ATTEMPTS | CONFIRMATION_EMAIL_RATE_LIMITED
  | PASSWORD_RESET_CODE_INVALID | PASSWORD_RESET_CODE_UNUSABLE | PASSWORD_RESET_RATE_LIMITED
  | PASSWORD_RESET_AUTHORIZATION_INVALID | FORBIDDEN_SPACE | SPACE_PERSONAL_NO_INVITES
  | SPACE_INVITE_LIMIT_REACHED | SPACE_MEMBER_LIMIT_REACHED | SPACE_LAST_REMAINING
  | SPACE_INVITE_UNUSABLE | SPACE_INVITE_EMAIL_MISMATCH | SPACE_ALREADY_MEMBER
  | SPACE_INVITE_RATE_LIMITED | TRANSACTION_NOT_FOUND | TRANSACTION_NOT_IN_FEED
  | TRANSACTION_IS_SYSTEM | TRANSACTION_VERSION_CONFLICT | TRANSACTION_VERSION_REQUIRED
  | TRANSACTION_OPERATION_EXISTS | TRANSACTION_OPERATION_NOT_FOUND | IDEMPOTENCY_KEY_REUSED

text \<open>HTTP statuses are their numbers, named as \<open>HttpStatus\<close> names the ones the code uses.\<close>

abbreviation BAD_REQUEST :: nat where "BAD_REQUEST \<equiv> 400"
abbreviation UNAUTHORIZED :: nat where "UNAUTHORIZED \<equiv> 401"
abbreviation FORBIDDEN :: nat where "FORBIDDEN \<equiv> 403"
abbreviation STATUS_NOT_FOUND :: nat where "STATUS_NOT_FOUND \<equiv> 404"
abbreviation CONFLICT :: nat where "CONFLICT \<equiv> 409"
abbreviation PRECONDITION_REQUIRED :: nat where "PRECONDITION_REQUIRED \<equiv> 428"
abbreviation TOO_MANY_REQUESTS :: nat where "TOO_MANY_REQUESTS \<equiv> 429"
abbreviation INTERNAL_SERVER_ERROR :: nat where "INTERNAL_SERVER_ERROR \<equiv> 500"

section \<open>Exceptions\<close>

record field_error =
  fe_field :: string
  fe_error :: string

text \<open>
  \<open>ApiException\<close> carries its code, its status and the extra body fields; \<open>QueryFailedError\<close>
  the driver's code and message; \<open>JsError\<close> stands for the \<open>TypeError\<close>, \<open>RangeError\<close> and plain
  \<open>Error\<close> objects the code throws, with the class name and the message.
\<close>

datatype exception =
    ApiException error_code nat "(string \<times> nat) list"
  | RetryAfterException error_code int
  | BadRequestException "field_error list"
  | UnauthorizedException
  | QueryFailedError string string
  | LockSetChanged
  | EntityNotFoundError
  | JsError string string

abbreviation api_error :: "error_code \<Rightarrow> nat \<Rightarrow> exception" where
  "api_error c st \<equiv> ApiException c st []"

abbreviation bad_field :: "string \<Rightarrow> string \<Rightarrow> exception" where
  "bad_field f e \<equiv> BadRequestException [\<lparr>fe_field = f, fe_error = e\<rparr>]"

section \<open>Driver errors\<close>

text \<open>\<open>haystack.includes(needle)\<close>.\<close>

fun contains_text :: "string \<Rightarrow> string \<Rightarrow> bool" where
  "contains_text [] needle = (needle = [])"
| "contains_text (c # s) needle = (take (length needle) (c # s) = needle \<or> contains_text s needle)"

lemma contains_text_refl [simp]: "contains_text s s"
  by (cases s) auto

fun isDuplicateKey :: "exception \<Rightarrow> string \<Rightarrow> bool" where
  "isDuplicateKey (QueryFailedError code sqlMessage) constraint =
     (code = ''ER_DUP_ENTRY'' \<and> contains_text sqlMessage constraint)"
| "isDuplicateKey _ _ = False"

fun isDeadlock :: "exception \<Rightarrow> bool" where
  "isDeadlock (QueryFailedError code _) = (code = ''ER_LOCK_DEADLOCK'')"
| "isDeadlock _ = False"

text \<open>The driver's error for a row that violates a unique key, and for a restricted delete.\<close>

definition duplicate_entry :: "string \<Rightarrow> exception" where
  "duplicate_entry constraint = QueryFailedError ''ER_DUP_ENTRY'' constraint"

definition row_is_referenced :: exception where
  "row_is_referenced = QueryFailedError ''ER_ROW_IS_REFERENCED_2'' []"

lemma isDuplicateKey_duplicate_entry [simp]: "isDuplicateKey (duplicate_entry c) c"
  by (simp add: duplicate_entry_def)

section \<open>Shared assertions\<close>

text \<open>\<open>assertFound\<close> and \<open>assertBelongsToSpace\<close> return the narrowed value.\<close>

definition assertFound :: "'a option \<Rightarrow> error_code \<Rightarrow> exception + 'a" where
  "assertFound resource code = need resource (api_error code STATUS_NOT_FOUND)"

definition assertBelongsToSpace ::
  "('a \<Rightarrow> nat) \<Rightarrow> 'a option \<Rightarrow> nat \<Rightarrow> error_code \<Rightarrow> exception + 'a" where
  "assertBelongsToSpace space_id resource spaceId code =
     (case resource of
        None \<Rightarrow> Inl (api_error code FORBIDDEN)
      | Some r \<Rightarrow> if space_id r \<noteq> spaceId then Inl (api_error code FORBIDDEN) else Inr r)"

lemma assertFound_simps [simp]:
  "assertFound None c = Inl (api_error c STATUS_NOT_FOUND)"
  "assertFound (Some r) c = Inr r"
  by (simp_all add: assertFound_def)

lemma assertFound_eq_Inr [result_iffs]: "assertFound x c = Inr r \<longleftrightarrow> x = Some r"
  by (simp add: assertFound_def need_eq_Inr)

lemma assertBelongsToSpace_eq_Inr [result_iffs]:
  "assertBelongsToSpace f x s c = Inr r \<longleftrightarrow> x = Some r \<and> f r = s"
  by (auto simp: assertBelongsToSpace_def split: option.splits if_splits)

lemma assertBelongsToSpace_eq_Inl:
  "assertBelongsToSpace f x s c = Inl e \<longleftrightarrow>
    (case x of None \<Rightarrow> True | Some r \<Rightarrow> f r \<noteq> s) \<and> e = api_error c FORBIDDEN"
  by (auto simp: assertBelongsToSpace_def split: option.splits)

section \<open>The exception filter\<close>

text \<open>
  The part of a response the filter decides: its status, the \<open>code\<close> of the body and the
  \<open>Retry-After\<close> header. Codes are the source's names as strings where they are status names.
\<close>

datatype body_code = Coded error_code | Named string

record response =
  r_status :: nat
  r_code :: body_code
  r_retry_after :: "int option"

fun isHttpException :: "exception \<Rightarrow> bool" where
  "isHttpException (ApiException _ _ _) = True"
| "isHttpException (RetryAfterException _ _) = True"
| "isHttpException (BadRequestException _) = True"
| "isHttpException UnauthorizedException = True"
| "isHttpException _ = False"

fun catch_exception :: "exception \<Rightarrow> response" where
  "catch_exception (ApiException c st _) =
     \<lparr>r_status = st, r_code = Coded c, r_retry_after = None\<rparr>"
| "catch_exception (RetryAfterException c seconds) =
     \<lparr>r_status = TOO_MANY_REQUESTS, r_code = Coded c, r_retry_after = Some seconds\<rparr>"
| "catch_exception (BadRequestException _) =
     \<lparr>r_status = BAD_REQUEST, r_code = Named ''VALIDATION_FAILED'', r_retry_after = None\<rparr>"
| "catch_exception UnauthorizedException =
     \<lparr>r_status = UNAUTHORIZED, r_code = Named ''UNAUTHORIZED'', r_retry_after = None\<rparr>"
| "catch_exception _ =
     \<lparr>r_status = INTERNAL_SERVER_ERROR, r_code = Named ''INTERNAL_SERVER_ERROR'',
      r_retry_after = None\<rparr>"

end
