(* ===== verification/Money.thy ===== *)
theory Money
  imports Errors Complex_Main
begin

text \<open>
  \<open>src/shared/utils/money.ts\<close>: amounts are decimal strings outside and \<open>bigint\<close> cents
  inside, here \<^typ>\<open>int\<close>. The regular expressions are written as the deterministic scans
  they describe. A percentage with one decimal place is held as its number of tenths.
\<close>

section \<open>Decimal digits\<close>

definition is_digit :: "char \<Rightarrow> bool" where
  "is_digit c \<longleftrightarrow> 48 \<le> (of_char c :: nat) \<and> (of_char c :: nat) \<le> 57"

definition digit_val :: "char \<Rightarrow> nat" where
  "digit_val c = of_char c - 48"

definition digit_char :: "nat \<Rightarrow> char" where
  "digit_char d = char_of (48 + d)"

text \<open>\<open>BigInt(s)\<close> for a string of digits, and \<open>n.toString()\<close>.\<close>

definition digits_val :: "string \<Rightarrow> nat" where
  "digits_val s = foldl (\<lambda>n c. 10 * n + digit_val c) 0 s"

fun show_nat :: "nat \<Rightarrow> string" where
  "show_nat n = (if n < 10 then [digit_char n] else show_nat (n div 10) @ [digit_char (n mod 10)])"

declare show_nat.simps [simp del]

definition pad_end :: "nat \<Rightarrow> char \<Rightarrow> string \<Rightarrow> string" where
  "pad_end n c s = s @ replicate (n - length s) c"

definition pad_start :: "nat \<Rightarrow> char \<Rightarrow> string \<Rightarrow> string" where
  "pad_start n c s = replicate (n - length s) c @ s"

lemma digit_char_facts [simp]:
  assumes "d < 10"
  shows "is_digit (digit_char d)" and "digit_val (digit_char d) = d"
  using assms by (auto simp: is_digit_def digit_val_def digit_char_def of_char_of)

lemma digits_val_snoc: "digits_val (s @ [c]) = 10 * digits_val s + digit_val c"
  by (simp add: digits_val_def)

lemma digits_val_Nil [simp]: "digits_val [] = 0"
  by (simp add: digits_val_def)

lemma digits_val_show_nat [simp]: "digits_val (show_nat n) = n"
proof (induction n rule: show_nat.induct)
  case (1 n)
  then show ?case
    by (cases "n < 10") (simp_all add: show_nat.simps [of n] digits_val_snoc digits_val_def [of "[_]"])
qed

lemma show_nat_digits: "list_all is_digit (show_nat n)"
proof (induction n rule: show_nat.induct)
  case (1 n)
  then show ?case by (cases "n < 10") (simp_all add: show_nat.simps [of n])
qed

lemma show_nat_nonempty [simp]: "show_nat n \<noteq> []"
  by (subst show_nat.simps) simp

lemma digits_val_zeros: "digits_val (replicate k (CHR ''0'') @ s) = digits_val s"
proof (induction s rule: rev_induct)
  case Nil
  have "digits_val (replicate k (CHR ''0'')) = 0"
  proof (induction k)
    case (Suc k)
    have "replicate (Suc k) (CHR ''0'') = replicate k (CHR ''0'') @ [CHR ''0'']"
      by (simp add: replicate_append_same)
    with Suc show ?case by (simp only: digits_val_snoc) (simp add: digit_val_def)
  qed simp
  then show ?case by simp
next
  case (snoc c s)
  then show ?case by (simp add: digits_val_snoc flip: append_assoc)
qed

lemma is_digit_zero [simp]: "is_digit (CHR ''0'')"
  by (simp add: is_digit_def)

lemma not_is_digit [simp]: "\<not> is_digit (CHR ''.'')" "\<not> is_digit (CHR ''-'')"
  by (simp_all add: is_digit_def)

lemma digits_val_bound: "list_all is_digit s \<Longrightarrow> digits_val s < 10 ^ length s"
proof (induction s rule: rev_induct)
  case Nil
  then show ?case by simp
next
  case (snoc c s)
  then have "digits_val s < 10 ^ length s" and "digit_val c < 10"
    by (auto simp: is_digit_def digit_val_def)
  then show ?case by (simp add: digits_val_snoc)
qed

section \<open>Parsing\<close>

definition MAX_MONEY_INPUT_CENTS :: int where
  "MAX_MONEY_INPUT_CENTS = 9999999999"

definition toCents :: "string \<Rightarrow> string \<Rightarrow> int" where
  "toCents integer fraction = int (digits_val (integer @ pad_end 2 (CHR ''0'') fraction))"

text \<open>The two capture groups of \<open>MONEY_INPUT\<close>: digits, then a point and one or two digits.\<close>

definition MONEY_INPUT :: "string \<Rightarrow> (string \<times> string option) option" where
  "MONEY_INPUT s = (let i = takeWhile is_digit s; r = dropWhile is_digit s in
     if i = [] then None
     else case r of [] \<Rightarrow> Some (i, None)
       | c # f \<Rightarrow> if c = CHR ''.'' \<and> f \<noteq> [] \<and> length f \<le> 2 \<and> list_all is_digit f
                  then Some (i, Some f) else None)"

text \<open>\<open>MONEY_VALUE\<close> is the same with an optional leading minus sign.\<close>

definition MONEY_VALUE :: "string \<Rightarrow> (bool \<times> string \<times> string option) option" where
  "MONEY_VALUE s = (case s of c # s' \<Rightarrow>
       if c = CHR ''-'' then map_option (\<lambda>m. (True, m)) (MONEY_INPUT s')
       else map_option (\<lambda>m. (False, m)) (MONEY_INPUT s)
     | [] \<Rightarrow> None)"

definition group_or_empty :: "string option \<Rightarrow> string" where
  "group_or_empty g = (case g of None \<Rightarrow> [] | Some f \<Rightarrow> f)"

definition isMoneyInputFormat :: "string \<Rightarrow> bool" where
  "isMoneyInputFormat s \<longleftrightarrow> MONEY_INPUT s \<noteq> None"

definition parseMoneyInput :: "string \<Rightarrow> int option" where
  "parseMoneyInput s = (case MONEY_INPUT s of None \<Rightarrow> None
     | Some (i, f) \<Rightarrow> let cents = toCents i (group_or_empty f) in
         if cents \<le> MAX_MONEY_INPUT_CENTS then Some cents else None)"

definition matchMoney :: "string \<Rightarrow> int option" where
  "matchMoney s = (case MONEY_VALUE s of None \<Rightarrow> None
     | Some (neg, i, f) \<Rightarrow> let cents = toCents i (group_or_empty f) in
         Some (if neg then - cents else cents))"

text \<open>\<open>parseMoney\<close> throws a \<open>TypeError\<close> where \<open>matchMoney\<close> finds no match.\<close>

definition parseMoney :: "string \<Rightarrow> exception + int" where
  "parseMoney s = need (matchMoney s) (JsError ''TypeError'' s)"

definition formatMoney :: "int \<Rightarrow> string" where
  "formatMoney cents = (let sign = (if cents < 0 then ''-'' else []);
       digits = pad_start 3 (CHR ''0'') (show_nat (nat (if cents < 0 then - cents else cents)))
     in sign @ take (length digits - 2) digits @ ''.'' @ drop (length digits - 2) digits)"

text \<open>
  \<open>Number\<close> and \<open>JSON.stringify\<close> on IEEE doubles are parameters: \<open>number_of\<close> reads a decimal
  string as the double nearest to it, given as the rational it stands for, and \<open>json_of\<close> prints
  a double in its shortest form.
\<close>

definition moneyToNumber :: "(string \<Rightarrow> rat) \<Rightarrow> (rat \<Rightarrow> string) \<Rightarrow> int \<Rightarrow> exception + rat" where
  "moneyToNumber number_of json_of cents = (let value = number_of (formatMoney cents) in
     if matchMoney (json_of value) \<noteq> Some cents then Inl (JsError ''RangeError'' (formatMoney cents))
     else Inr value)"

section \<open>Percentages\<close>

text \<open>\<open>bigint\<close> division truncates towards zero; the remainder has the dividend's sign.\<close>

definition big_div :: "int \<Rightarrow> int \<Rightarrow> int" where
  "big_div a b = sgn a * sgn b * (\<bar>a\<bar> div \<bar>b\<bar>)"

definition big_rem :: "int \<Rightarrow> int \<Rightarrow> int" where
  "big_rem a b = a - b * big_div a b"

definition floorDiv :: "int \<Rightarrow> int \<Rightarrow> int" where
  "floorDiv dividend divisor = (let quotient = big_div dividend divisor in
     if big_rem dividend divisor \<noteq> 0 \<and> (dividend < 0) \<noteq> (divisor < 0) then quotient - 1
     else quotient)"

definition floorPercent :: "int \<Rightarrow> int \<Rightarrow> int" where
  "floorPercent part whole = (if whole = 0 then 0 else floorDiv (part * 100) whole)"

definition roundPercentToTenth :: "int \<Rightarrow> int \<Rightarrow> int" where
  "roundPercentToTenth part whole =
     (if whole = 0 then 0 else floorDiv (part * 2000 + whole) (whole * 2))"

section \<open>Facts about parsing and printing\<close>

lemma takeWhile_digits:
  "list_all is_digit i \<Longrightarrow> \<not> is_digit c \<Longrightarrow>
    takeWhile is_digit (i @ c # f) = i \<and> dropWhile is_digit (i @ c # f) = c # f"
  by (induction i) auto

lemma MONEY_INPUT_point:
  assumes "list_all is_digit i" and "i \<noteq> []" and "list_all is_digit f" and "length f = 2"
  shows "MONEY_INPUT (i @ ''.'' @ f) = Some (i, Some f)"
proof -
  have "f \<noteq> []" using assms(4) by auto
  with assms show ?thesis
    by (simp add: MONEY_INPUT_def takeWhile_digits [of i "CHR ''.''" f])
qed

lemma MONEY_INPUT_Some:
  assumes "MONEY_INPUT s = Some (i, f)"
  shows "list_all is_digit i \<and> i \<noteq> [] \<and>
    (case f of None \<Rightarrow> s = i
     | Some g \<Rightarrow> s = i @ ''.'' @ g \<and> g \<noteq> [] \<and> length g \<le> 2 \<and> list_all is_digit g)"
proof -
  have digits: "list_all is_digit (takeWhile is_digit s)"
    by (auto simp: list_all_iff dest: set_takeWhileD)
  show ?thesis
  proof (cases "dropWhile is_digit s")
    case Nil
    then have "takeWhile is_digit s = s" by (metis append_Nil2 takeWhile_dropWhile_id)
    with assms digits Nil show ?thesis by (auto simp: MONEY_INPUT_def Let_def split: if_splits)
  next
    case (Cons c g)
    then have "s = takeWhile is_digit s @ c # g" by (metis takeWhile_dropWhile_id)
    with assms digits Cons show ?thesis by (auto simp: MONEY_INPUT_def Let_def split: if_splits)
  qed
qed

lemma toCents_two: "length f = 2 \<Longrightarrow> toCents i f = int (digits_val (i @ f))"
  by (simp add: toCents_def pad_end_def)

lemma toCents_nonneg: "0 \<le> toCents i f"
  by (simp add: toCents_def)

text \<open>What is printed: a sign, the digits before the point, the point, and two digits.\<close>

lemma formatMoney_parts:
  obtains i f where "formatMoney cents = (if cents < 0 then ''-'' else []) @ i @ ''.'' @ f"
    and "MONEY_INPUT (i @ ''.'' @ f) = Some (i, Some f)" and "length f = 2"
    and "digits_val (i @ f) = nat \<bar>cents\<bar>" and "i \<noteq> []" and "hd i \<noteq> CHR ''-''"
proof -
  define n where "n = nat \<bar>cents\<bar>"
  define d where "d = pad_start 3 (CHR ''0'') (show_nat n)"
  define i where "i = take (length d - 2) d"
  define f where "f = drop (length d - 2) d"
  have len: "3 \<le> length d"
    by (simp add: d_def pad_start_def)
  have dig: "list_all is_digit d"
    using show_nat_digits [of n] by (auto simp: d_def pad_start_def list_all_iff)
  have "d = i @ f" by (simp add: i_def f_def)
  with dig have i: "list_all is_digit i" and f: "list_all is_digit f" by auto
  have i0: "i \<noteq> []" and f2: "length f = 2"
    using len by (auto simp: i_def f_def)
  have "digits_val (i @ f) = n"
    by (simp add: d_def pad_start_def digits_val_zeros flip: \<open>d = i @ f\<close>)
  moreover have "formatMoney cents = (if cents < 0 then ''-'' else []) @ i @ ''.'' @ f"
    by (simp add: formatMoney_def Let_def i_def f_def d_def n_def abs_if)
  moreover have "MONEY_INPUT (i @ ''.'' @ f) = Some (i, Some f)"
    using i i0 f f2 by (rule MONEY_INPUT_point)
  moreover have "hd i \<noteq> CHR ''-''"
    using i i0 by (cases i) auto
  ultimately show thesis using that i0 f2 by (simp add: n_def)
qed

lemma matchMoney_formatMoney: "matchMoney (formatMoney cents) = Some cents"
proof -
  obtain i f where fmt: "formatMoney cents = (if cents < 0 then ''-'' else []) @ i @ ''.'' @ f"
    and m: "MONEY_INPUT (i @ ''.'' @ f) = Some (i, Some f)" "length f = 2"
    and val: "digits_val (i @ f) = nat \<bar>cents\<bar>" and i: "i \<noteq> []" "hd i \<noteq> CHR ''-''"
    by (rule formatMoney_parts)
  obtain c i' where ci: "i = c # i'" using i(1) by (cases i) auto
  show ?thesis
  proof (cases "cents < 0")
    case True
    then show ?thesis using m val
      by (simp add: matchMoney_def MONEY_VALUE_def fmt group_or_empty_def toCents_two)
  next
    case False
    with i ci m val show ?thesis
      by (simp add: matchMoney_def MONEY_VALUE_def fmt group_or_empty_def toCents_two)
  qed
qed

lemma parseMoneyInput_formatMoney:
  "0 \<le> cents \<Longrightarrow> cents \<le> MAX_MONEY_INPUT_CENTS \<Longrightarrow> parseMoneyInput (formatMoney cents) = Some cents"
  by (rule formatMoney_parts [of cents]) (simp add: parseMoneyInput_def group_or_empty_def toCents_two)

lemma parseMoney_formatMoney [simp]: "parseMoney (formatMoney cents) = Inr cents"
  by (simp add: parseMoney_def matchMoney_formatMoney)

lemma formatMoney_inject: "formatMoney a = formatMoney b \<longleftrightarrow> a = b"
  by (metis matchMoney_formatMoney option.inject)

lemma MONEY_INPUT_no_sign: "MONEY_INPUT s = Some m \<Longrightarrow> MONEY_VALUE s = Some (False, m)"
  by (cases s; cases m) (auto simp: MONEY_VALUE_def MONEY_INPUT_def)

lemma matchMoney_of_input:
  "parseMoneyInput s = Some c \<Longrightarrow> matchMoney s = Some c"
  by (auto simp: parseMoneyInput_def matchMoney_def MONEY_INPUT_no_sign Let_def
      split: option.splits if_splits)

lemma parseMoneyInput_range:
  "parseMoneyInput s = Some c \<Longrightarrow> 0 \<le> c \<and> c \<le> MAX_MONEY_INPUT_CENTS"
  by (auto simp: parseMoneyInput_def Let_def toCents_nonneg split: option.splits if_splits)

section \<open>Facts about division\<close>

lemma floorDiv_div:
  assumes "b \<noteq> 0"
  shows "floorDiv a b = a div b"
proof -
  consider "0 \<le> a" "0 < b" | "0 \<le> a" "b < 0" | "a < 0" "0 < b" | "a < 0" "b < 0"
    using assms by linarith
  then show ?thesis
  proof cases
    case 1
    then show ?thesis
      by (cases "a = 0") (simp_all add: floorDiv_def big_div_def Let_def)
  next
    case 2
    define q where "q = a div (- b)"
    define r where "r = a mod (- b)"
    have a: "a = - b * q + r"
      by (simp only: q_def r_def mult_div_mod_eq)
    have r: "0 \<le> r" "r < - b"
      using 2 by (simp_all add: r_def)
    have bd: "big_div a b = - q"
      using 2 by (cases "a = 0") (simp_all add: big_div_def q_def abs_if)
    have rem: "big_rem a b = r"
      by (subst big_rem_def, subst bd) (use a in simp)
    have "a div b = (if r = 0 then - q else - q - 1)"
    proof (cases "r = 0")
      case True
      with a have "a = b * (- q)" by simp
      then have "a div b = - q" using 2 by (simp only: nonzero_mult_div_cancel_left)
      with True show ?thesis by simp
    next
      case False
      with a have "a = b * (- q - 1) + (r + b)" by (simp add: algebra_simps)
      moreover have "r + b < 0" "b < r + b" using r False by auto
      ultimately show ?thesis
        using False by (simp add: int_div_neg_eq)
    qed
    with 2 rem bd show ?thesis
      using a by (auto simp: floorDiv_def Let_def)
  next
    case 3
    define q where "q = (- a) div b"
    define r where "r = (- a) mod b"
    have a: "a = - (b * q + r)"
      by (simp only: q_def r_def mult_div_mod_eq minus_minus)
    have r: "0 \<le> r" "r < b"
      using 3 by (simp_all add: r_def)
    have bd: "big_div a b = - q"
      using 3 by (simp add: big_div_def q_def abs_if)
    have rem: "big_rem a b = - r"
      by (subst big_rem_def, subst bd) (use a in simp)
    have "a div b = (if r = 0 then - q else - q - 1)"
    proof (cases "r = 0")
      case True
      with a have "a = b * (- q)" by simp
      then have "a div b = - q" using 3 by (simp only: nonzero_mult_div_cancel_left)
      with True show ?thesis by simp
    next
      case False
      with a have "a = b * (- q - 1) + (b - r)" by (simp add: algebra_simps)
      moreover have "0 \<le> b - r" "b - r < b" using r False by auto
      ultimately show ?thesis
        using False by (simp add: int_div_pos_eq)
    qed
    with 3 rem bd show ?thesis by (auto simp: floorDiv_def Let_def)
  next
    case 4
    then show ?thesis
      by (simp add: floorDiv_def big_div_def Let_def abs_if)
  qed
qed

lemma floorDiv_floor:
  assumes "b \<noteq> 0"
  shows "floorDiv a b = \<lfloor>real_of_int a / real_of_int b\<rfloor>"
  using assms by (simp add: floorDiv_div floor_divide_of_int_eq)

end
