(* ===== verification/Entities.thy ===== *)
theory Entities
  imports Money
begin

text \<open>
  The enumerations of \<open>shared/enums.ts\<close>, the entities of \<open>src/entities\<close> as records, and the
  database as the record of their tables. An instant is an \<^typ>\<open>int\<close>, milliseconds since
  1970-01-01T00:00Z, as \<open>Date.getTime()\<close> gives it. A \<open>DECIMAL(10,2)\<close> column holds \<^typ>\<open>int\<close> cents
  and is read as the string \<^const>\<open>formatMoney\<close> prints. A \<open>tinyint\<close> flag, only ever 0 or 1, is a
  \<^typ>\<open>bool\<close>. The rows of \<open>limit_categories\<close> are kept with their limit, as its list of
  category ids.
\<close>

section \<open>Enumerations\<close>

datatype TransactionType = INCOME | EXPENSE

datatype AppColor = SLATE | AMBER | EVERGREEN | INDIGO | CLAY | PLUM

datatype CategoryIcon =
    GROCERY | RESTAURANT | CAFE | HOUSING | UTILITIES | INTERNET | TRANSPORT | FUEL | CAR | TAXI
  | HEALTH | PHARMACY | FITNESS | BEAUTY | CLOTHES | ELECTRONICS | HOME_GOODS | EDUCATION | KIDS
  | PETS | TRAVEL | ENTERTAINMENT | SUBSCRIPTIONS | GIFTS | CHARITY | FEES | TAXES | SAVINGS
  | SALARY | BONUS | FREELANCE | INVESTMENTS | DIVIDENDS | REFUND | OTHER

datatype ConfirmationType = EMAIL

datatype ConfirmationCodeSendStatus = PENDING | SENT | FAILED

datatype SpaceInviteEmailStatus =
  EMAIL_NOT_SENT | EMAIL_QUEUED | EMAIL_SENDING | EMAIL_SENT | EMAIL_FAILED

datatype LimitType = CATEGORY | OTHERS

datatype SpaceType = PERSONAL | GROUP

datatype SpaceRole = OWNER | MEMBER

datatype StatisticsPeriodType = WEEK | MONTH | YEAR | CUSTOM

datatype TransactionKind = REGULAR | INITIAL_BALANCE

datatype TransactionOperationStatus = APPLIED | DELETED

section \<open>JSON values\<close>

text \<open>
  The values a request payload or a stored response is made of; \<open>JUndefined\<close> is an object entry
  that is present with the value \<open>undefined\<close>, \<open>JDate\<close> a \<open>Date\<close> object.
\<close>

datatype js =
    JUndefined | JNull | JBool bool | JNumber rat | JString string | JDate int
  | JArray "js list" | JObject "(string \<times> js) list"

section \<open>Entities\<close>

record user =
  u_id :: nat
  u_email :: string
  u_name :: string
  u_password :: string
  u_email_verified :: bool
  u_auth_version :: nat
  u_created_at :: int
  u_updated_at :: int

record currency =
  cur_id :: nat
  cur_code :: string
  cur_name :: string

record space =
  sp_id :: nat
  sp_name :: string
  sp_type :: SpaceType
  sp_currency_id :: nat
  sp_created_at :: int
  sp_updated_at :: int

record space_member =
  m_id :: nat
  m_space_id :: nat
  m_user_id :: nat
  m_role :: SpaceRole
  m_created_at :: int

record wallet =
  w_id :: nat
  w_space_id :: nat
  w_wallet_name :: string
  w_design :: AppColor
  w_is_deleted :: bool
  w_deleted_at :: "int option"
  w_created_at :: int
  w_updated_at :: int

record category =
  cat_id :: nat
  cat_space_id :: nat
  cat_name :: string
  cat_transaction_type :: TransactionType
  cat_icon :: CategoryIcon
  cat_color :: AppColor
  cat_is_active :: bool
  cat_archived_at :: "int option"
  cat_sort :: nat
  cat_is_system :: bool
  cat_created_at :: int
  cat_updated_at :: int

record limit =
  l_id :: nat
  l_space_id :: nat
  l_name :: "string option"
  l_limit_type :: LimitType
  l_amount :: int
  l_categories :: "nat list"
  l_created_at :: int
  l_updated_at :: int

record transaction =
  t_id :: string
  t_wallet_id :: nat
  t_category_id :: nat
  t_transaction_type :: TransactionType
  t_amount :: int
  t_timestamp :: int
  t_description :: "string option"
  t_version :: nat

record transaction_operation =
  op_id :: nat
  op_space_id :: nat
  op_operation_id :: string
  op_transaction_id :: string
  op_created_at :: int
  op_deleted_at :: "int option"

record idempotency_key =
  k_id :: nat
  k_user_id :: nat
  k_space_id :: nat
  k_operation :: string
  k_idempotency_key :: string
  k_request_hash :: string
  k_response_body :: "js option"
  k_created_at :: int
  k_expires_at :: int

record space_invite =
  i_id :: nat
  i_space_id :: nat
  i_email :: string
  i_code :: string
  i_role :: SpaceRole
  i_expires_at :: int
  i_accepted_at :: "int option"
  i_accepted_by_user_id :: "nat option"
  i_revoked_at :: "int option"
  i_token_nonce :: "string option"
  i_email_status :: SpaceInviteEmailStatus
  i_email_attempts :: nat
  i_email_attempt_id :: nat
  i_email_next_attempt_at :: "int option"
  i_email_lease_expires_at :: "int option"
  i_email_last_sent_at :: "int option"
  i_created_at :: int

record space_invite_email =
  e_id :: nat
  e_invite_id :: nat
  e_space_id :: nat
  e_email :: string
  e_sender_user_id :: nat
  e_scheduled_at :: int

record confirmation_code =
  cc_id :: nat
  cc_user_id :: nat
  cc_confirmation_code :: string
  cc_attempts :: nat
  cc_confirmation_type :: ConfirmationType
  cc_created_at :: int
  cc_expired_at :: int
  cc_last_sent_at :: "int option"
  cc_last_attempted_at :: "int option"
  cc_send_status :: ConfirmationCodeSendStatus
  cc_send_attempt_id :: nat

record password_reset_challenge =
  ch_id :: nat
  ch_email_hash :: string
  ch_user_id :: "nat option"
  ch_code_hash :: "string option"
  ch_attempts :: nat
  ch_started_at :: int
  ch_expires_at :: int
  ch_last_requested_at :: int
  ch_verified_at :: "int option"
  ch_reset_token_hash :: "string option"
  ch_reset_token_expires_at :: "int option"
  ch_completed_at :: "int option"
  ch_send_attempt_id :: nat
  ch_send_status :: "ConfirmationCodeSendStatus option"
  ch_last_sent_at :: "int option"
  ch_window_started_at :: int
  ch_window_requests :: nat
  ch_window_failed_attempts :: nat

section \<open>The database\<close>

record db =
  users :: "user table"
  currencies :: "currency table"
  spaces :: "space table"
  members :: "space_member table"
  wallets :: "wallet table"
  categories :: "category table"
  limits :: "limit table"
  transactions :: "transaction list"
  operations :: "transaction_operation table"
  idempotency_keys :: "idempotency_key table"
  invites :: "space_invite table"
  invite_emails :: "space_invite_email table"
  confirmation_codes :: "confirmation_code table"
  challenges :: "password_reset_challenge table"

definition empty_table :: "'r table" where
  "empty_table = \<lparr>rows = [], next_id = 1\<rparr>"

definition empty_db :: db where
  "empty_db = \<lparr>users = empty_table, currencies = empty_table, spaces = empty_table,
     members = empty_table, wallets = empty_table, categories = empty_table,
     limits = empty_table, transactions = [], operations = empty_table,
     idempotency_keys = empty_table, invites = empty_table, invite_emails = empty_table,
     confirmation_codes = empty_table, challenges = empty_table\<rparr>"

section \<open>Reads and row locks\<close>

text \<open>\<open>findOne({ where: { id } })\<close> on the tables other components read.\<close>

definition find_wallet :: "nat \<Rightarrow> db \<Rightarrow> wallet option" where
  "find_wallet i s = find_row (\<lambda>w. w_id w = i) (rows (wallets s))"

definition find_category :: "nat \<Rightarrow> db \<Rightarrow> category option" where
  "find_category i s = find_row (\<lambda>c. cat_id c = i) (rows (categories s))"

definition find_transaction :: "string \<Rightarrow> db \<Rightarrow> transaction option" where
  "find_transaction i s = find_row (\<lambda>t. t_id t = i) (transactions s)"

definition find_space :: "nat \<Rightarrow> db \<Rightarrow> space option" where
  "find_space i s = find_row (\<lambda>p. sp_id p = i) (rows (spaces s))"

text \<open>
  \<open>lockRows\<close>: the locked rows of the given ids, without repetitions, in ascending id order.
\<close>

definition lockRows :: "('r \<Rightarrow> 'k::linorder) \<Rightarrow> 'k list \<Rightarrow> 'r list \<Rightarrow> 'r list" where
  "lockRows key ids rs =
     (if ids = [] then [] else sort_key key (filter (\<lambda>r. key r \<in> set (sort (dedup ids))) rs))"

text \<open>
  Row-level well-formedness of the whole database: keys are unique and below the counter of
  their table.
\<close>

definition keys_ok :: "db \<Rightarrow> bool" where
  "keys_ok s \<longleftrightarrow> table_ok u_id (users s) \<and> table_ok sp_id (spaces s) \<and> table_ok m_id (members s) \<and>
     table_ok w_id (wallets s) \<and> table_ok cat_id (categories s) \<and> table_ok l_id (limits s) \<and>
     distinct (map t_id (transactions s)) \<and> table_ok op_id (operations s)"

lemma set_lockRows: "set (lockRows key ids rs) = {r \<in> set rs. key r \<in> set ids}"
  by (auto simp: lockRows_def)

lemma sorted_lockRows: "sorted (map key (lockRows key ids rs))"
  by (simp add: lockRows_def)

lemma lockRows_one:
  assumes "distinct (map key rs)"
  shows "head_opt (lockRows key [k] rs) = find_row (\<lambda>r. key r = k) rs"
proof -
  have filter_eq: "filter (\<lambda>r. key r = k) rs =
      (case find_row (\<lambda>r. key r = k) rs of None \<Rightarrow> [] | Some r \<Rightarrow> [r])"
    using assms
  proof (induction rs)
    case (Cons r rs)
    show ?case
    proof (cases "key r = k")
      case True
      moreover from Cons.prems have "key r \<notin> key ` set rs" by simp
      ultimately have "\<forall>x \<in> set rs. key x \<noteq> k" by (metis image_eqI)
      then have "filter (\<lambda>r. key r = k) rs = []" by (simp add: filter_empty_conv)
      with True show ?thesis by simp
    next
      case False
      with Cons show ?thesis by simp
    qed
  qed simp
  show ?thesis
    by (simp add: lockRows_def filter_eq split: option.split)
qed

end
