(* ===== verification/WriteTransaction.thy ===== *)
theory WriteTransaction
  imports Entities
begin

text \<open>
  \<open>shared/utils/write-transaction.ts\<close>: a unit of work in a database transaction, run again
  after a deadlock or a changed lock set, each a bounded number of times. A transaction either
  commits the state its work returns or leaves the state as it was. Between two attempts other
  transactions may commit: \<open>env n\<close> is what they did to the state before attempt \<open>n\<close>, and
  \<open>work n\<close> what the unit does in attempt \<open>n\<close>, aborted by the database or not.
\<close>

definition MAX_ATTEMPTS :: nat where
  "MAX_ATTEMPTS = 3"

text \<open>\<open>dataSource.transaction\<close>: commit, or roll back and rethrow.\<close>

definition transact :: "('s \<Rightarrow> exception + 'a \<times> 's) \<Rightarrow> 's \<Rightarrow> (exception + 'a) \<times> 's" where
  "transact work s = (case work s of Inl e \<Rightarrow> (Inl e, s) | Inr (x, s') \<Rightarrow> (Inr x, s'))"

function write_loop ::
  "(nat \<Rightarrow> 's \<Rightarrow> 's) \<Rightarrow> (nat \<Rightarrow> 's \<Rightarrow> exception + 'a \<times> 's) \<Rightarrow> nat \<Rightarrow> nat \<Rightarrow> nat \<Rightarrow> 's \<Rightarrow>
   (exception + 'a) \<times> 's" where
  "write_loop env work n deadlocks lockSetChanges s =
     (case transact (work n) (env n s) of
        (Inr x, s') \<Rightarrow> (Inr x, s')
      | (Inl error, s') \<Rightarrow>
          if isDeadlock error then
            (if deadlocks + 1 < MAX_ATTEMPTS
             then write_loop env work (n + 1) (deadlocks + 1) lockSetChanges s'
             else (Inl error, s'))
          else if error = LockSetChanged \<and> lockSetChanges + 1 < MAX_ATTEMPTS
            then write_loop env work (n + 1) deadlocks (lockSetChanges + 1) s'
            else (Inl error, s'))"
  by pat_completeness auto
termination
  by (relation "measure (\<lambda>(env, work, n, d, l, s). (MAX_ATTEMPTS - d) + (MAX_ATTEMPTS - l))") auto

declare write_loop.simps [simp del]

definition runWriteTransaction ::
  "(nat \<Rightarrow> 's \<Rightarrow> 's) \<Rightarrow> (nat \<Rightarrow> 's \<Rightarrow> exception + 'a \<times> 's) \<Rightarrow> 's \<Rightarrow> (exception + 'a) \<times> 's" where
  "runWriteTransaction env work s = write_loop env work 0 0 0 s"

section \<open>What the loop returns\<close>

text \<open>The state attempt \<open>n\<close> starts in when no earlier attempt committed.\<close>

fun committed_by_others :: "(nat \<Rightarrow> 's \<Rightarrow> 's) \<Rightarrow> nat \<Rightarrow> nat \<Rightarrow> 's \<Rightarrow> 's" where
  "committed_by_others env n 0 s = env n s"
| "committed_by_others env n (Suc k) s = committed_by_others env (Suc n) k (env n s)"

definition retriable :: "exception \<Rightarrow> bool" where
  "retriable e \<longleftrightarrow> isDeadlock e \<or> e = LockSetChanged"

definition fails_with ::
  "(nat \<Rightarrow> 's \<Rightarrow> exception + 'a \<times> 's) \<Rightarrow> nat \<Rightarrow> 's \<Rightarrow> (exception \<Rightarrow> bool) \<Rightarrow> bool" where
  "fails_with work n s p \<longleftrightarrow> (\<exists>e. work n s = Inl e \<and> p e)"

lemma transact_simps [simp]:
  "work s = Inl e \<Longrightarrow> transact work s = (Inl e, s)"
  "work s = Inr (x, s') \<Longrightarrow> transact work s = (Inr x, s')"
  by (simp_all add: transact_def)

lemma isDeadlock_LockSetChanged [simp]: "\<not> isDeadlock LockSetChanged"
  by simp

text \<open>
  The loop ended at its \<open>k\<close>-th attempt from \<open>n\<close>: all attempts before it failed with an error that
  is retried and left no trace, and the result is that attempt's commit or rollback.
\<close>

definition ended_at ::
  "(nat \<Rightarrow> 's \<Rightarrow> 's) \<Rightarrow> (nat \<Rightarrow> 's \<Rightarrow> exception + 'a \<times> 's) \<Rightarrow> nat \<Rightarrow> nat \<Rightarrow> 's \<Rightarrow>
   (exception + 'a) \<times> 's \<Rightarrow> bool" where
  "ended_at env work n k s result \<longleftrightarrow>
     (\<forall>j < k. fails_with work (n + j) (committed_by_others env n j s) retriable) \<and>
     result = transact (work (n + k)) (committed_by_others env n k s)"

lemma ended_at_0: "ended_at env work n 0 s (transact (work n) (env n s))"
  by (simp add: ended_at_def)

lemma ended_at_Suc:
  assumes "work n (env n s) = Inl e" and "retriable e"
    and "ended_at env work (Suc n) k (env n s) result"
  shows "ended_at env work n (Suc k) s result"
  unfolding ended_at_def
proof (intro conjI allI impI)
  fix j assume "j < Suc k"
  then show "fails_with work (n + j) (committed_by_others env n j s) retriable"
    using assms by (cases j) (auto simp: ended_at_def fails_with_def)
qed (use assms(3) in \<open>simp add: ended_at_def\<close>)

lemma write_loop_fail:
  assumes "work n (env n s) = Inl e"
  shows "write_loop env work n d l s =
    (if isDeadlock e \<and> d + 1 < MAX_ATTEMPTS
       then write_loop env work (Suc n) (d + 1) l (env n s)
     else if e = LockSetChanged \<and> l + 1 < MAX_ATTEMPTS
       then write_loop env work (Suc n) d (l + 1) (env n s)
     else (Inl e, env n s))"
  using assms by (subst write_loop.simps) auto

lemma write_loop_ok:
  "work n (env n s) = Inr r \<Longrightarrow> write_loop env work n d l s = transact (work n) (env n s)"
  by (subst write_loop.simps) (auto simp: transact_def split: prod.splits)

text \<open>How many failures of a kind a loop has seen, at least, when it ended with that failure.\<close>

definition seen_enough :: "nat \<Rightarrow> nat \<Rightarrow> nat \<Rightarrow> (exception + 'a) \<Rightarrow> bool" where
  "seen_enough d l k r \<longleftrightarrow>
     (\<forall>e. r = Inl e \<longrightarrow> (isDeadlock e \<longrightarrow> MAX_ATTEMPTS \<le> d + k + 1) \<and>
                       (e = LockSetChanged \<longrightarrow> MAX_ATTEMPTS \<le> l + k + 1))"

lemma seen_enough_Suc:
  "seen_enough (d + 1) l k r \<or> seen_enough d (l + 1) k r \<Longrightarrow> seen_enough d l (Suc k) r"
  by (auto simp: seen_enough_def)

lemma write_loop_ends:
  "\<exists>k. k \<le> (MAX_ATTEMPTS - 1 - d) + (MAX_ATTEMPTS - 1 - l) \<and>
     ended_at env work n k s (write_loop env work n d l s) \<and>
     seen_enough d l k (fst (write_loop env work n d l s))"
proof (induction "(MAX_ATTEMPTS - d) + (MAX_ATTEMPTS - l)" arbitrary: n d l s rule: less_induct)
  case less
  show ?case
  proof (cases "work n (env n s)")
    case (Inr r)
    then have "fst (transact (work n) (env n s)) = Inr (fst r)"
      by (cases r) (simp add: transact_def)
    with Inr show ?thesis
      by (intro exI [of _ 0]) (simp add: write_loop_ok ended_at_0 seen_enough_def)
  next
    case (Inl e)
    consider (deadlock) "isDeadlock e" "d + 1 < MAX_ATTEMPTS"
      | (changed) "\<not> isDeadlock e" "e = LockSetChanged" "l + 1 < MAX_ATTEMPTS"
      | (stop) "\<not> (isDeadlock e \<and> d + 1 < MAX_ATTEMPTS)"
          "\<not> (e = LockSetChanged \<and> l + 1 < MAX_ATTEMPTS)"
      by fastforce
    then show ?thesis
    proof cases
      case deadlock
      then have eq: "write_loop env work n d l s = write_loop env work (Suc n) (d + 1) l (env n s)"
        using Inl by (simp add: write_loop_fail)
      have dec: "(MAX_ATTEMPTS - (d + 1)) + (MAX_ATTEMPTS - (l)) < (MAX_ATTEMPTS - d) + (MAX_ATTEMPTS - l)"
        using deadlock(2) by arith
      obtain k where "k \<le> (MAX_ATTEMPTS - 1 - (d + 1)) + (MAX_ATTEMPTS - 1 - l)"
        and "ended_at env work (Suc n) k (env n s) (write_loop env work n d l s)"
        and "seen_enough (d + 1) l k (fst (write_loop env work n d l s))"
        using less [OF dec, of "Suc n" "env n s"] unfolding eq [symmetric] by blast
      with deadlock Inl show ?thesis
        by (intro exI [of _ "Suc k"]) (auto simp: retriable_def seen_enough_Suc intro: ended_at_Suc)
    next
      case changed
      then have eq: "write_loop env work n d l s = write_loop env work (Suc n) d (l + 1) (env n s)"
        using Inl by (simp add: write_loop_fail)
      have dec: "(MAX_ATTEMPTS - (d)) + (MAX_ATTEMPTS - (l + 1)) < (MAX_ATTEMPTS - d) + (MAX_ATTEMPTS - l)"
        using changed(3) by arith
      obtain k where "k \<le> (MAX_ATTEMPTS - 1 - d) + (MAX_ATTEMPTS - 1 - (l + 1))"
        and "ended_at env work (Suc n) k (env n s) (write_loop env work n d l s)"
        and "seen_enough d (l + 1) k (fst (write_loop env work n d l s))"
        using less [OF dec, of "Suc n" "env n s"] unfolding eq [symmetric] by blast
      with changed Inl show ?thesis
        by (intro exI [of _ "Suc k"]) (auto simp: retriable_def seen_enough_Suc intro: ended_at_Suc)
    next
      case stop
      then have eq: "write_loop env work n d l s = transact (work n) (env n s)"
        using write_loop_fail [of work n env s e d l] by (simp only: if_not_P if_False transact_simps Inl)
      with stop Inl show ?thesis
        by (intro exI [of _ 0]) (auto simp: ended_at_def seen_enough_def)
    qed
  qed
qed

end
