(* ===== verification/Idempotency.thy ===== *)
theory Idempotency
  imports WriteTransaction
begin

text \<open>
  \<open>modules/idempotency\<close>: the \<open>Idempotency-Key\<close> of a write, claimed inside the write's own
  transaction and answered with the stored body on a repeat; the hash that decides whether two
  requests are the same; and the background purge of expired keys.

  Under READ COMMITTED each statement of the claim loop sees what others committed before it:
  \<open>env k\<close> is what happened to the table before the loop's \<open>k\<close>-th statement.
\<close>

definition IDEMPOTENCY_KEY_TTL_MS :: int where
  "IDEMPOTENCY_KEY_TTL_MS = 1000 * 60 * 60 * 24"

definition IDEMPOTENCY_KEY_SCOPE :: string where
  "IDEMPOTENCY_KEY_SCOPE = ''UQ_idempotency_keys_scope''"

definition NO_SPACE_ID :: nat where
  "NO_SPACE_ID = 0"

definition MAX_CLAIM_ATTEMPTS :: nat where
  "MAX_CLAIM_ATTEMPTS = 3"

section \<open>What makes two requests the same\<close>

lemma size_entry: "(k, v) \<in> set kvs \<Longrightarrow> size v < Suc (size_list (size_prod (\<lambda>x. 0) size) kvs)"
  by (induction kvs) auto

text \<open>
  \<open>canonical\<close>: object entries that are \<open>undefined\<close> are dropped, the others sorted by key, all
  the way down; arrays keep their order; every other value is itself.
\<close>

function (sequential) canonical :: "js \<Rightarrow> js" where
  "canonical (JArray vs) = JArray (map canonical vs)"
| "canonical (JObject kvs) =
     JObject (map (\<lambda>(k, v). (k, canonical v))
       (sort_key fst (filter (\<lambda>(k, v). v \<noteq> JUndefined) kvs)))"
| "canonical v = v"
  by pat_completeness auto
termination
  by (relation "measure size") (auto simp: less_Suc_eq_le size_list_estimation' dest: size_entry)

text \<open>
  \<open>JSON.stringify\<close> followed by SHA-256 in hexadecimal is the parameter \<open>digest\<close>; a payload that
  is \<open>undefined\<close> has no JSON text and is hashed as \<open>'null'\<close>.
\<close>

definition hashPayload :: "(js \<Rightarrow> string) \<Rightarrow> js \<Rightarrow> string" where
  "hashPayload digest payload =
     (let c = canonical payload in digest (if c = JUndefined then JNull else c))"

section \<open>Claiming a key\<close>

record key_scope =
  sc_user_id :: nat
  sc_space_id :: nat
  sc_operation :: string
  sc_idempotency_key :: string

definition in_scope :: "key_scope \<Rightarrow> idempotency_key \<Rightarrow> bool" where
  "in_scope sc k \<longleftrightarrow> k_user_id k = sc_user_id sc \<and> k_space_id k = sc_space_id sc \<and>
     k_operation k = sc_operation sc \<and> k_idempotency_key k = sc_idempotency_key sc"

definition fresh_key :: "key_scope \<Rightarrow> string \<Rightarrow> int \<Rightarrow> nat \<Rightarrow> idempotency_key" where
  "fresh_key sc requestHash now i =
     \<lparr>k_id = i, k_user_id = sc_user_id sc, k_space_id = sc_space_id sc,
      k_operation = sc_operation sc, k_idempotency_key = sc_idempotency_key sc,
      k_request_hash = requestHash, k_response_body = None, k_created_at = now,
      k_expires_at = now + IDEMPOTENCY_KEY_TTL_MS\<rparr>"

definition insert_key ::
  "key_scope \<Rightarrow> string \<Rightarrow> int \<Rightarrow> idempotency_key table \<Rightarrow> exception + idempotency_key table" where
  "insert_key sc requestHash now t =
     (if find_row (in_scope sc) (rows t) \<noteq> None then Inl (duplicate_entry IDEMPOTENCY_KEY_SCOPE)
      else Inr (insert_auto (fresh_key sc requestHash now) t))"

text \<open>The conditional update that revives an expired key; the second part is \<open>affected\<close>.\<close>

definition revive_key ::
  "nat \<Rightarrow> string \<Rightarrow> int \<Rightarrow> idempotency_key table \<Rightarrow> idempotency_key table \<times> nat" where
  "revive_key i requestHash now t =
     (let p = (\<lambda>k. k_id k = i \<and> k_expires_at k \<le> now) in
      (t\<lparr>rows := update_rows p (\<lambda>k. k\<lparr>k_request_hash := requestHash, k_response_body := None,
           k_created_at := now, k_expires_at := now + IDEMPOTENCY_KEY_TTL_MS\<rparr>) (rows t)\<rparr>,
       length (filter p (rows t))))"

fun claim_loop ::
  "(nat \<Rightarrow> idempotency_key table \<Rightarrow> idempotency_key table) \<Rightarrow> key_scope \<Rightarrow> string \<Rightarrow> int \<Rightarrow>
   nat \<Rightarrow> nat \<Rightarrow> idempotency_key table \<Rightarrow> exception + js option option \<times> idempotency_key table" where
  "claim_loop env sc requestHash now stmt 0 t = Inl (JsError ''Error'' ''Could not claim idempotency key'')"
| "claim_loop env sc requestHash now stmt (Suc attempts) t =
     (let t1 = env stmt t in
      case insert_key sc requestHash now t1 of
        Inr t2 \<Rightarrow> Inr (None, t2)
      | Inl error \<Rightarrow>
          if \<not> isDuplicateKey error IDEMPOTENCY_KEY_SCOPE then Inl error
          else (let t2 = env (stmt + 1) t1 in
            case find_row (in_scope sc) (rows t2) of
              None \<Rightarrow> claim_loop env sc requestHash now (stmt + 2) attempts t2
            | Some stored \<Rightarrow>
                if k_expires_at stored \<le> now then
                  (let t3 = env (stmt + 2) t2; (t4, affected) = revive_key (k_id stored) requestHash now t3 in
                   if affected \<noteq> 0 then Inr (None, t4)
                   else claim_loop env sc requestHash now (stmt + 3) attempts t4)
                else if k_request_hash stored \<noteq> requestHash
                  then Inl (api_error IDEMPOTENCY_KEY_REUSED CONFLICT)
                else Inr (Some (k_response_body stored), t2)))"

definition claim ::
  "(nat \<Rightarrow> idempotency_key table \<Rightarrow> idempotency_key table) \<Rightarrow> key_scope \<Rightarrow> string \<Rightarrow> int \<Rightarrow>
   idempotency_key table \<Rightarrow> exception + js option option \<times> idempotency_key table" where
  "claim env sc requestHash now t = claim_loop env sc requestHash now 0 MAX_CLAIM_ATTEMPTS t"

section \<open>Running a write under its key\<close>

text \<open>
  The caller gets the result of its work, or the stored body of an earlier request; on the wire
  both are the body \<open>sent_body\<close> gives. \<open>to_json\<close>, the JSON form of a result, is a parameter.
\<close>

datatype 'r reply = Fresh 'r | Replayed "js option"

fun sent_body :: "('r \<Rightarrow> js) \<Rightarrow> 'r reply \<Rightarrow> js option" where
  "sent_body to_json (Fresh r) = Some (to_json r)"
| "sent_body to_json (Replayed b) = b"

definition run_idempotent ::
  "(nat \<Rightarrow> idempotency_key table \<Rightarrow> idempotency_key table) \<Rightarrow> ('r \<Rightarrow> js) \<Rightarrow> key_scope \<Rightarrow> string \<Rightarrow>
   int \<Rightarrow> (db \<Rightarrow> exception + 'r \<times> db) \<Rightarrow> db \<Rightarrow> exception + 'r reply \<times> db" where
  "run_idempotent env to_json sc requestHash now work s =
     and_then (claim env sc requestHash now (idempotency_keys s)) (\<lambda>(stored, t).
       case stored of
         Some body \<Rightarrow> Inr (Replayed body, s\<lparr>idempotency_keys := t\<rparr>)
       | None \<Rightarrow> and_then (work (s\<lparr>idempotency_keys := t\<rparr>)) (\<lambda>(result, s').
           Inr (Fresh result, s'\<lparr>idempotency_keys := (idempotency_keys s')
             \<lparr>rows := update_rows (in_scope sc) (\<lambda>k. k\<lparr>k_response_body := Some (to_json result)\<rparr>)
                (rows (idempotency_keys s'))\<rparr>\<rparr>)))"

section \<open>The purge of expired keys\<close>

definition PURGE_BATCH :: nat where
  "PURGE_BATCH = 1000"

text \<open>
  One purge: of the expired keys no request holds a lock on (\<open>locked\<close>), the first thousand by
  expiry. A run that finds another one running in its process does nothing. The result is the
  number of keys deleted.
\<close>

definition purge :: "bool \<Rightarrow> (nat \<Rightarrow> bool) \<Rightarrow> int \<Rightarrow> idempotency_key table \<Rightarrow> nat \<times> idempotency_key table" where
  "purge running locked now t =
     (if running then (0, t)
      else let ids = map k_id (take PURGE_BATCH (sort_key k_expires_at
                 (filter (\<lambda>k. k_expires_at k \<le> now \<and> \<not> locked (k_id k)) (rows t)))) in
        (length ids, if ids = [] then t
           else t\<lparr>rows := delete_rows (\<lambda>k. k_id k \<in> set ids) (rows t)\<rparr>))"

section \<open>Facts about the hash\<close>

definition defined_entries :: "(string \<times> js) list \<Rightarrow> (string \<times> js) list" where
  "defined_entries kvs = filter (\<lambda>(k, v). v \<noteq> JUndefined) kvs"

text \<open>Payloads that differ only in entry order and in \<open>undefined\<close> entries, at any depth.\<close>

inductive same_payload :: "js \<Rightarrow> js \<Rightarrow> bool" where
  same: "same_payload v v"
| arrays: "list_all2 same_payload vs ws \<Longrightarrow> same_payload (JArray vs) (JArray ws)"
| objects: "\<lbrakk>distinct (map fst (defined_entries kvs)); mset (defined_entries kvs) = mset kvs';
     list_all2 (rel_prod (=) same_payload) kvs' (defined_entries lvs)\<rbrakk>
   \<Longrightarrow> same_payload (JObject kvs) (JObject lvs)"

lemma sort_key_map_snd:
  "sort_key fst (map (\<lambda>(k, v). (k, f v)) kvs) = map (\<lambda>(k, v). (k, f v)) (sort_key fst kvs)"
proof (induction kvs)
  case (Cons kv kvs)
  have "insort_key fst ((\<lambda>(k, v). (k, f v)) kv) (map (\<lambda>(k, v). (k, f v)) xs) =
      map (\<lambda>(k, v). (k, f v)) (insort_key fst kv xs)" for xs
    by (induction xs) (auto split: prod.splits)
  with Cons show ?case by simp
qed simp

lemma sort_key_mset_distinct:
  assumes "mset xs = mset ys" and "distinct (map fst xs)"
  shows "sort_key fst xs = sort_key fst ys"
  by (rule sort_key_eq_sort_key) (use assms in \<open>auto simp: distinct_map\<close>)

lemma canonical_object:
  "canonical (JObject kvs) = JObject (sort_key fst (map (\<lambda>(k, v). (k, canonical v)) (defined_entries kvs)))"
  by (simp add: sort_key_map_snd defined_entries_def)

lemma canonical_same_payload: "same_payload v w \<Longrightarrow> canonical v = canonical w"
proof (induction rule: same_payload.induct)
  case (arrays vs ws)
  then have "map canonical vs = map canonical ws"
    by (simp add: list.rel_map list_all2_conv_all_nth list_eq_iff_nth_eq)
  then show ?case by simp
next
  case (objects kvs kvs' lvs)
  let ?c = "\<lambda>(k, v). (k, canonical v)"
  have "map ?c kvs' = map ?c (defined_entries lvs)"
    using objects(3) by (auto simp: list_all2_conv_all_nth list_eq_iff_nth_eq rel_prod_sel split: prod.splits)
  moreover have "sort_key fst (map ?c (defined_entries kvs)) = sort_key fst (map ?c kvs')"
  proof (rule sort_key_mset_distinct)
    show "mset (map ?c (defined_entries kvs)) = mset (map ?c kvs')"
      using objects(2) by (metis mset_map)
    show "distinct (map fst (map ?c (defined_entries kvs)))"
      using objects(1) by (simp add: comp_def case_prod_beta)
  qed
  ultimately show ?case by (simp only: canonical_object)
qed simp

section \<open>Facts about claims\<close>

lemma find_row_update_same:
  "(\<And>r. p r \<Longrightarrow> p (f r)) \<Longrightarrow> find_row p (update_rows p f rs) = map_option f (find_row p rs)"
  by (induction rs) (auto simp: update_rows_def)

lemma find_row_update_other:
  "(\<And>r. q r \<Longrightarrow> p (f r) = p r) \<Longrightarrow>
    find_row p (update_rows q f rs) = map_option (\<lambda>r. if q r then f r else r) (find_row p rs)"
  by (induction rs) (auto simp: update_rows_def)

lemma in_scope_fresh_key [simp]: "in_scope sc (fresh_key sc h now i)"
  by (simp add: in_scope_def fresh_key_def)

lemma in_scope_body [simp]: "in_scope sc (k\<lparr>k_response_body := b\<rparr>) = in_scope sc k"
  by (simp add: in_scope_def)

text \<open>A claim this transaction holds: the row of the key carries its hash, its time and no body.\<close>

definition holds_key :: "key_scope \<Rightarrow> string \<Rightarrow> int \<Rightarrow> idempotency_key table \<Rightarrow> bool" where
  "holds_key sc h now t \<longleftrightarrow> (\<exists>k. find_row (in_scope sc) (rows t) = Some k \<and> k_request_hash k = h \<and>
     k_response_body k = None \<and> k_created_at k = now \<and> k_expires_at k = now + IDEMPOTENCY_KEY_TTL_MS)"

lemma insert_key_holds:
  "insert_key sc h now t = Inr t' \<Longrightarrow> holds_key sc h now t'"
  by (auto simp: insert_key_def holds_key_def find_row_append split: if_splits)
    (auto simp: fresh_key_def)

text \<open>
  Without anything happening between its statements a claim is decided by the stored key: none or
  an expired one is taken over, a live one answers the same request and refuses another.
\<close>

lemma claim_quiet:
  "claim (\<lambda>_ t. t) sc h now t =
    (case find_row (in_scope sc) (rows t) of
       None \<Rightarrow> Inr (None, insert_auto (fresh_key sc h now) t)
     | Some k \<Rightarrow>
         if k_expires_at k \<le> now then Inr (None, fst (revive_key (k_id k) h now t))
         else if k_request_hash k \<noteq> h then Inl (api_error IDEMPOTENCY_KEY_REUSED CONFLICT)
         else Inr (Some (k_response_body k), t))"
proof (cases "find_row (in_scope sc) (rows t)")
  case None
  then show ?thesis by (simp add: claim_def MAX_CLAIM_ATTEMPTS_def numeral_3_eq_3 insert_key_def)
next
  case (Some k)
  then have "k \<in> set (rows t)" by (auto dest: find_row_Some)
  then have "k_expires_at k \<le> now \<Longrightarrow> snd (revive_key (k_id k) h now t) \<noteq> 0"
    by (auto simp: revive_key_def Let_def filter_empty_conv)
  with Some show ?thesis
    by (auto simp: claim_def MAX_CLAIM_ATTEMPTS_def numeral_3_eq_3 insert_key_def split: prod.splits)
qed

text \<open>
  With any interference whatever, a claim that answers nothing holds the key if the revived row
  is still the one that was read, and an answer is the body of an unexpired key of the same
  request that was in the table.
\<close>

lemma revive_key_holds:
  assumes "find_row (in_scope sc) (rows t) = Some k" and "k_expires_at k \<le> now"
  shows "holds_key sc h now (fst (revive_key (k_id k) h now t))"
  using assms
  by (auto simp: holds_key_def revive_key_def Let_def find_row_update_other in_scope_def)

lemma claim_loop_answer:
  "claim_loop env sc h now stmt n t = Inr (Some body, t') \<Longrightarrow>
    \<exists>k. find_row (in_scope sc) (rows t') = Some k \<and> k_response_body k = body \<and>
        k_request_hash k = h \<and> now < k_expires_at k"
proof (induction n arbitrary: stmt t)
  case (Suc n)
  from Suc.prems show ?case
    by (auto simp: Let_def dest: Suc.IH split: sum.splits if_splits option.splits prod.splits)
qed simp

lemma claim_loop_error:
  "claim_loop env sc h now stmt n t = Inl e \<Longrightarrow>
    e = api_error IDEMPOTENCY_KEY_REUSED CONFLICT \<or>
    e = JsError ''Error'' ''Could not claim idempotency key''"
proof (induction n arbitrary: stmt t)
  case (Suc n)
  from Suc.prems show ?case
    by (auto simp: Let_def insert_key_def dest: Suc.IH split: sum.splits if_splits option.splits prod.splits)
qed simp

section \<open>Facts about keyed writes\<close>

text \<open>The row a finished request leaves behind, and what it means for a later one.\<close>

definition answered_by :: "key_scope \<Rightarrow> string \<Rightarrow> js \<Rightarrow> int \<Rightarrow> db \<Rightarrow> bool" where
  "answered_by sc h body expires s \<longleftrightarrow>
     (\<exists>k. find_row (in_scope sc) (rows (idempotency_keys s)) = Some k \<and> k_request_hash k = h \<and>
          k_response_body k = Some body \<and> k_expires_at k = expires)"

lemma run_replays:
  assumes "answered_by sc h body expires s" and "now < expires"
  shows "run_idempotent (\<lambda>_ t. t) to_json sc h now work s = Inr (Replayed (Some body), s)"
  using assms by (auto simp: run_idempotent_def claim_quiet answered_by_def)

lemma run_refuses_other_request:
  assumes "answered_by sc h body expires s" and "now < expires" and "h' \<noteq> h"
  shows "run_idempotent (\<lambda>_ t. t) to_json sc h' now work s = Inl (api_error IDEMPOTENCY_KEY_REUSED CONFLICT)"
  using assms by (auto simp: run_idempotent_def claim_quiet answered_by_def)

lemma claim_quiet_holds:
  "claim (\<lambda>_ t. t) sc h now t = Inr (None, t') \<Longrightarrow> holds_key sc h now t'"
proof (cases "find_row (in_scope sc) (rows t)")
  case None
  moreover assume "claim (\<lambda>_ t. t) sc h now t = Inr (None, t')"
  ultimately have "insert_key sc h now t = Inr t'" by (simp add: claim_quiet insert_key_def)
  then show ?thesis by (rule insert_key_holds)
next
  case (Some k)
  moreover assume "claim (\<lambda>_ t. t) sc h now t = Inr (None, t')"
  ultimately show ?thesis
    using revive_key_holds [OF Some, of now h] by (auto simp: claim_quiet split: if_splits)
qed

text \<open>
  A keyed write is one whose work leaves the table of keys alone; the contract a client of \<open>run\<close>
  has to meet.
\<close>

locale keyed_work =
  fixes work :: "'req \<Rightarrow> db \<Rightarrow> exception + 'r \<times> db"
  assumes keeps_keys: "work req s = Inr (r, s') \<Longrightarrow> idempotency_keys s' = idempotency_keys s"
begin

lemma first_run_stores:
  assumes "run_idempotent (\<lambda>_ t. t) to_json sc h now (work req) s = Inr (Fresh r, s')"
  shows "answered_by sc h (to_json r) (now + IDEMPOTENCY_KEY_TTL_MS) s'"
proof -
  from assms obtain t s1 where claimed: "claim (\<lambda>_ t. t) sc h now (idempotency_keys s) = Inr (None, t)"
    and worked: "work req (s\<lparr>idempotency_keys := t\<rparr>) = Inr (r, s1)"
    and s': "s' = s1\<lparr>idempotency_keys := (idempotency_keys s1)
             \<lparr>rows := update_rows (in_scope sc) (\<lambda>k. k\<lparr>k_response_body := Some (to_json r)\<rparr>)
                (rows (idempotency_keys s1))\<rparr>\<rparr>"
    by (auto simp: run_idempotent_def and_then_eq_Inr split: option.splits)
  from keeps_keys [OF worked] have "idempotency_keys s1 = t" by simp
  with claim_quiet_holds [OF claimed] show ?thesis
    by (auto simp: s' answered_by_def holds_key_def find_row_update_same)
qed

lemma repeat_is_answered:
  assumes "run_idempotent (\<lambda>_ t. t) to_json sc h now (work req) s = Inr (Fresh r, s')"
    and "find_row (in_scope sc) (rows (idempotency_keys s2)) = find_row (in_scope sc) (rows (idempotency_keys s'))"
    and "later < now + IDEMPOTENCY_KEY_TTL_MS"
  shows "run_idempotent (\<lambda>_ t. t) to_json sc h later (work req') s2 = Inr (Replayed (Some (to_json r)), s2)"
    and "h' \<noteq> h \<Longrightarrow> run_idempotent (\<lambda>_ t. t) to_json sc h' later (work req') s2 =
      Inl (api_error IDEMPOTENCY_KEY_REUSED CONFLICT)"
proof -
  have "answered_by sc h (to_json r) (now + IDEMPOTENCY_KEY_TTL_MS) s2"
    using first_run_stores [OF assms(1)] assms(2) by (simp add: answered_by_def)
  then show "run_idempotent (\<lambda>_ t. t) to_json sc h later (work req') s2 = Inr (Replayed (Some (to_json r)), s2)"
    and "h' \<noteq> h \<Longrightarrow> run_idempotent (\<lambda>_ t. t) to_json sc h' later (work req') s2 =
      Inl (api_error IDEMPOTENCY_KEY_REUSED CONFLICT)"
    using assms(3) by (blast intro: run_replays run_refuses_other_request)+
qed

end

lemma transact_failed:
  "run_idempotent env to_json sc h now work s = Inl e \<Longrightarrow>
    transact (run_idempotent env to_json sc h now work) s = (Inl e, s)"
  by simp

text \<open>A write under its key either answers with a stored body or does its work.\<close>

lemma run_idempotent_cases [consumes 1]:
  assumes "run_idempotent env to_json sc h now work s = Inr (reply, s')"
  obtains (replayed) body t where "reply = Replayed body" and "s' = s\<lparr>idempotency_keys := t\<rparr>"
  | (fresh) r s1 t t' where "reply = Fresh r" and "work (s\<lparr>idempotency_keys := t\<rparr>) = Inr (r, s1)"
      and "s' = s1\<lparr>idempotency_keys := t'\<rparr>"
proof -
  from assms obtain stored t where "claim env sc h now (idempotency_keys s) = Inr (stored, t)"
    and rest: "(case stored of
         Some body \<Rightarrow> Inr (Replayed body, s\<lparr>idempotency_keys := t\<rparr>)
       | None \<Rightarrow> and_then (work (s\<lparr>idempotency_keys := t\<rparr>)) (\<lambda>(result, s').
           Inr (Fresh result, s'\<lparr>idempotency_keys := (idempotency_keys s')
             \<lparr>rows := update_rows (in_scope sc) (\<lambda>k. k\<lparr>k_response_body := Some (to_json result)\<rparr>)
                (rows (idempotency_keys s'))\<rparr>\<rparr>))) = Inr (reply, s')"
    by (auto simp: run_idempotent_def and_then_eq_Inr)
  show thesis
  proof (cases stored)
    case (Some body)
    with rest replayed show thesis by auto
  next
    case None
    with rest fresh show thesis by (auto simp: and_then_eq_Inr)
  qed
qed

section \<open>Facts about the purge\<close>

definition purged_ids :: "(nat \<Rightarrow> bool) \<Rightarrow> int \<Rightarrow> idempotency_key table \<Rightarrow> nat list" where
  "purged_ids locked now t = map k_id (take PURGE_BATCH (sort_key k_expires_at
     (filter (\<lambda>k. k_expires_at k \<le> now \<and> \<not> locked (k_id k)) (rows t))))"

lemma purged_ids_due:
  "i \<in> set (purged_ids locked now t) \<Longrightarrow>
    \<exists>k \<in> set (rows t). k_id k = i \<and> k_expires_at k \<le> now \<and> \<not> locked i"
  by (auto simp: purged_ids_def dest!: in_set_takeD)

lemma length_purged_ids: "length (purged_ids locked now t) \<le> PURGE_BATCH"
  by (simp add: purged_ids_def)

lemma purge_eq:
  "purge running locked now t = (if running then (0, t) else
     (length (purged_ids locked now t),
      t\<lparr>rows := delete_rows (\<lambda>k. k_id k \<in> set (purged_ids locked now t)) (rows t)\<rparr>))"
  by (auto simp: purge_def purged_ids_def [symmetric] Let_def delete_rows_def)

lemma purge_keeps:
  assumes "table_ok k_id t" and "k \<in> set (rows t)" and "now < k_expires_at k \<or> locked (k_id k)"
  shows "k \<in> set (rows (snd (purge running locked now t)))"
proof -
  have "k_id k \<notin> set (purged_ids locked now t)"
  proof
    assume "k_id k \<in> set (purged_ids locked now t)"
    then obtain k' where k': "k' \<in> set (rows t)" "k_id k' = k_id k" "k_expires_at k' \<le> now"
        "\<not> locked (k_id k)"
      using purged_ids_due by blast
    then have "k' = k" using assms(1,2) by (auto simp: table_ok_def dest: distinct_key_eq)
    with k' assms(3) show False by simp
  qed
  with assms(2) show ?thesis by (simp add: purge_eq)
qed

lemma purge_removes_all:
  assumes "length (filter (\<lambda>k. k_expires_at k \<le> now) (rows t)) \<le> PURGE_BATCH"
    and "k \<in> set (rows (snd (purge False (\<lambda>_. False) now t)))"
  shows "now < k_expires_at k"
proof (rule ccontr)
  assume "\<not> now < k_expires_at k"
  moreover from assms(2) have "k \<in> set (rows t)" "k_id k \<notin> set (purged_ids (\<lambda>_. False) now t)"
    by (simp_all add: purge_eq)
  moreover from assms(1) have "set (purged_ids (\<lambda>_. False) now t) =
      k_id ` set (filter (\<lambda>k. k_expires_at k \<le> now) (rows t))"
    by (simp add: purged_ids_def)
  ultimately show False by simp
qed

end
