(* ===== verification/SpaceAccess.thy ===== *)
theory SpaceAccess
  imports WriteTransaction
begin

text \<open>
  \<open>modules/space-access/space-access.service.ts\<close>: membership checks and the locks that every
  space-scoped write takes first. A unit that holds its locks sees one state, so a lock reads
  the state and changes nothing; \<open>lockMembers\<close> reads its lock set twice, before and after the
  wait for the locks, and gives up when it changed in between.
\<close>

definition find_member :: "nat \<Rightarrow> nat \<Rightarrow> db \<Rightarrow> space_member option" where
  "find_member spaceId userId s =
     find_row (\<lambda>m. m_space_id m = spaceId \<and> m_user_id m = userId) (rows (members s))"

definition assertMembership ::
  "nat \<Rightarrow> nat \<Rightarrow> SpaceRole option \<Rightarrow> db \<Rightarrow> exception + space_member" where
  "assertMembership spaceId userId minRole s =
     (case find_member spaceId userId s of
        None \<Rightarrow> Inl (api_error FORBIDDEN_SPACE FORBIDDEN)
      | Some member \<Rightarrow>
          if minRole = Some OWNER \<and> m_role member \<noteq> OWNER
          then Inl (api_error FORBIDDEN_SPACE FORBIDDEN) else Inr member)"

definition lockMembership :: "nat \<Rightarrow> nat \<Rightarrow> db \<Rightarrow> exception + space_member" where
  "lockMembership spaceId userId s =
     need (find_member spaceId userId s) (api_error FORBIDDEN_SPACE FORBIDDEN)"

text \<open>The space row is locked, if it exists; nothing is returned.\<close>

definition lockSpace :: "nat \<Rightarrow> db \<Rightarrow> exception + unit" where
  "lockSpace spaceId s = Inr ()"

record locked_members =
  lm_actor :: space_member
  lm_members :: "space_member list"
  lm_actorSpaces :: nat

definition memberIds :: "nat \<Rightarrow> nat \<Rightarrow> db \<Rightarrow> nat list" where
  "memberIds spaceId userId s =
     sort (map m_id (filter (\<lambda>m. m_space_id m = spaceId \<or> m_user_id m = userId) (rows (members s))))"

text \<open>
  \<open>s0\<close> is the state the member ids were first read in, \<open>s1\<close> the one their rows were locked in,
  \<open>s\<close> the one after the space was locked. A locked row does not change between \<open>s1\<close> and \<open>s\<close>.
\<close>

definition lockMembers :: "nat \<Rightarrow> nat \<Rightarrow> db \<Rightarrow> db \<Rightarrow> db \<Rightarrow> exception + locked_members" where
  "lockMembers spaceId userId s0 s1 s =
     (let locked = lockRows m_id (memberIds spaceId userId s0) (rows (members s1)) in
      and_then (lockSpace spaceId s) (\<lambda>_.
      let current = memberIds spaceId userId s in
      if length current \<noteq> length locked \<or>
         (\<exists>index < length current. current ! index \<noteq> m_id (locked ! index))
      then Inl LockSetChanged
      else and_then (need (find_row (\<lambda>m. m_space_id m = spaceId \<and> m_user_id m = userId) locked)
                       (api_error FORBIDDEN_SPACE FORBIDDEN)) (\<lambda>actor.
        Inr \<lparr>lm_actor = actor,
             lm_members = filter (\<lambda>m. m_space_id m = spaceId) locked,
             lm_actorSpaces = length (filter (\<lambda>m. m_user_id m = userId) locked)\<rparr>)))"

section \<open>Facts\<close>

definition is_member :: "nat \<Rightarrow> nat \<Rightarrow> db \<Rightarrow> bool" where
  "is_member spaceId userId s \<longleftrightarrow>
     (\<exists>m \<in> set (rows (members s)). m_space_id m = spaceId \<and> m_user_id m = userId)"

lemma find_member_None: "find_member spaceId userId s = None \<longleftrightarrow> \<not> is_member spaceId userId s"
  by (auto simp: find_member_def find_row_None is_member_def)

lemma find_member_Some:
  "find_member spaceId userId s = Some m \<Longrightarrow>
    m \<in> set (rows (members s)) \<and> m_space_id m = spaceId \<and> m_user_id m = userId"
  unfolding find_member_def by (drule find_row_Some) simp

lemma assertMembership_eq_Inr [result_iffs]:
  "assertMembership spaceId userId minRole s = Inr m \<longleftrightarrow>
    find_member spaceId userId s = Some m \<and> (minRole = Some OWNER \<longrightarrow> m_role m = OWNER)"
  by (auto simp: assertMembership_def split: option.splits if_splits)

lemma lockMembership_eq_Inr [result_iffs]:
  "lockMembership spaceId userId s = Inr m \<longleftrightarrow> find_member spaceId userId s = Some m"
  by (simp add: lockMembership_def need_eq_Inr)

lemma lockMembership_Inl:
  "lockMembership spaceId userId s = Inl e \<longleftrightarrow>
    \<not> is_member spaceId userId s \<and> e = api_error FORBIDDEN_SPACE FORBIDDEN"
  by (auto simp: lockMembership_def need_eq_Inl find_member_None)

lemma lockMembership_refused:
  "\<not> is_member spaceId userId s \<Longrightarrow>
    lockMembership spaceId userId s = Inl (api_error FORBIDDEN_SPACE FORBIDDEN)"
  by (simp add: lockMembership_Inl)

lemma assertMembership_refused:
  "\<not> is_member spaceId userId s \<Longrightarrow>
    assertMembership spaceId userId minRole s = Inl (api_error FORBIDDEN_SPACE FORBIDDEN)"
  by (auto simp: assertMembership_def find_member_None [symmetric])

lemma lockSpace_simp [simp]: "lockSpace spaceId s = Inr ()"
  by (simp add: lockSpace_def)

section \<open>The contract of a space-scoped write\<close>

text \<open>
  What the write operations of wallets, transactions, categories and limits share: they run on
  behalf of a user in a space, refuse a caller that is not a member with \<open>FORBIDDEN_SPACE\<close>, and
  leave the members alone.
\<close>

locale space_write =
  fixes run :: "nat \<Rightarrow> nat \<Rightarrow> 'req \<Rightarrow> db \<Rightarrow> exception + 'res \<times> db"
  assumes refuses_strangers:
      "\<not> is_member spaceId userId s \<Longrightarrow>
        run userId spaceId req s = Inl (api_error FORBIDDEN_SPACE FORBIDDEN)"
    and keeps_members: "run userId spaceId req s = Inr (res, s') \<Longrightarrow> members s' = members s"
begin

lemma success_means_member:
  "run userId spaceId req s = Inr (res, s') \<Longrightarrow> is_member spaceId userId s"
  using refuses_strangers by fastforce

lemma stranger_changes_nothing:
  "\<not> is_member spaceId userId s \<Longrightarrow> snd (transact (run userId spaceId req) s) = s"
  by (simp add: refuses_strangers)

lemma member_stays:
  "run userId spaceId req s = Inr (res, s') \<Longrightarrow> is_member sp u s' \<longleftrightarrow> is_member sp u s"
  by (simp add: is_member_def keeps_members)

end

end
