(* ===== verification/Runtime.thy ===== *)
theory Runtime
  imports Idempotency SpaceAccess
begin

text \<open>
  What the services take from their runtime, as one record of functions, and the code next to it:
  dates (\<open>shared/utils/dates.ts\<close>), the request decorators (\<open>shared/decorators\<close>), the header pipes
  (\<open>shared/pipes\<close>) and the rules for a new transaction (\<open>modules/transactions/transaction-rules.ts\<close>).
\<close>

section \<open>The runtime\<close>

text \<open>
  \<open>rt_number\<close> is \<open>Number(s)\<close> and \<open>rt_json\<close> \<open>JSON.stringify(n)\<close> on doubles; \<open>rt_isISO8601\<close> and
  \<open>rt_isUUID\<close> are validators of class-validator; \<open>rt_local_date y m d\<close> is \<open>new Date(y, m - 1, d)\<close> in
  the server's zone and \<open>rt_Date s\<close> is \<open>new Date(s)\<close>, absent for an invalid date; \<open>rt_digest\<close> is the
  hexadecimal SHA-256 of the JSON text of a value; \<open>rt_claims\<close> is what other transactions do to the
  idempotency keys between the statements of a claim.
\<close>

record runtime =
  rt_number :: "string \<Rightarrow> rat"
  rt_json :: "rat \<Rightarrow> string"
  rt_isISO8601 :: "string \<Rightarrow> bool"
  rt_isUUID :: "string \<Rightarrow> bool"
  rt_local_date :: "nat \<Rightarrow> nat \<Rightarrow> nat \<Rightarrow> int"
  rt_Date :: "string \<Rightarrow> int option"
  rt_digest :: "js \<Rightarrow> string"
  rt_claims :: "nat \<Rightarrow> idempotency_key table \<Rightarrow> idempotency_key table"

abbreviation toNumber :: "runtime \<Rightarrow> int \<Rightarrow> exception + rat" where
  "toNumber rt \<equiv> moneyToNumber (rt_number rt) (rt_json rt)"

section \<open>Dates\<close>

text \<open>A shape is a pattern in which \<open>d\<close> stands for a digit and anything else for itself.\<close>

fun has_shape :: "string \<Rightarrow> string \<Rightarrow> bool" where
  "has_shape [] s = (s = [])"
| "has_shape (p # ps) [] = False"
| "has_shape (p # ps) (c # s) = ((if p = CHR ''d'' then is_digit c else p = c) \<and> has_shape ps s)"

text \<open>\<open>(Z|[+-]\d{2}:?\d{2})\<close>\<close>

definition is_zone :: "string \<Rightarrow> bool" where
  "is_zone s \<longleftrightarrow> s = ''Z'' \<or> has_shape ''+dd:dd'' s \<or> has_shape ''-dd:dd'' s \<or>
     has_shape ''+dddd'' s \<or> has_shape ''-dddd'' s"

text \<open>\<open>(:\d{2}(\.\d+)?)?(Z|[+-]\d{2}:?\d{2})?$\<close>\<close>

definition is_time_rest :: "string \<Rightarrow> bool" where
  "is_time_rest s =
     (let after_seconds = (if has_shape '':dd'' (take 3 s) then
            (let r = drop 3 s in
             if take 1 r = ''.'' \<and> takeWhile is_digit (drop 1 r) \<noteq> [] then dropWhile is_digit (drop 1 r) else r)
          else s)
      in after_seconds = [] \<or> is_zone after_seconds)"

definition DATE_ONLY :: "string \<Rightarrow> (nat \<times> nat \<times> nat) option" where
  "DATE_ONLY s = (if has_shape ''dddd-dd-dd'' s
     then Some (digits_val (take 4 s), digits_val (take 2 (drop 5 s)), digits_val (drop 8 s)) else None)"

definition DATE_TIME :: "string \<Rightarrow> bool" where
  "DATE_TIME s \<longleftrightarrow> (has_shape ''dddd-dd-ddTdd:dd'' (take 16 s) \<or> has_shape ''dddd-dd-dd dd:dd'' (take 16 s)) \<and>
     is_time_rest (drop 16 s)"

definition parseIsoDate :: "runtime \<Rightarrow> string \<Rightarrow> int option" where
  "parseIsoDate rt value =
     (if \<not> rt_isISO8601 rt value then None
      else case DATE_ONLY value of
        Some (y, m, d) \<Rightarrow> Some (rt_local_date rt y m d)
      | None \<Rightarrow> if \<not> DATE_TIME value then None else rt_Date rt value)"

definition toDate :: "runtime \<Rightarrow> string \<Rightarrow> exception + int" where
  "toDate rt value = need (parseIsoDate rt value) (JsError ''TypeError'' value)"

lemma toDate_eq_Inr [result_iffs]: "toDate rt v = Inr d \<longleftrightarrow> parseIsoDate rt v = Some d"
  by (simp add: toDate_def need_eq_Inr)

section \<open>Request decorators\<close>

definition TIMESTAMP_MIN :: int where "TIMESTAMP_MIN = 1000"
definition TIMESTAMP_MAX :: int where "TIMESTAMP_MAX = 2147483647000"
definition STORED_TIMESTAMP_MAX :: int where "STORED_TIMESTAMP_MAX = 2147483647999"

definition isIsoDate :: "runtime \<Rightarrow> string \<Rightarrow> bool" where
  "isIsoDate rt value \<longleftrightarrow> parseIsoDate rt value \<noteq> None"

definition isInTimestampRange :: "runtime \<Rightarrow> string \<Rightarrow> bool" where
  "isInTimestampRange rt value = (case parseIsoDate rt value of None \<Rightarrow> True
     | Some d \<Rightarrow> TIMESTAMP_MIN \<le> d \<and> d \<le> TIMESTAMP_MAX)"

text \<open>\<open>EXPLICIT_OFFSET\<close>: a \<open>T\<close> or a space, later a zone at the end, no line break in between.\<close>

definition ends_with_zone :: "string \<Rightarrow> bool" where
  "ends_with_zone s \<longleftrightarrow> list_ex (\<lambda>k. k \<le> length s \<and> is_zone (drop (length s - k) s) \<and>
     list_all (\<lambda>c. (of_char c :: nat) \<notin> {10, 13}) (take (length s - k) s)) [1, 5, 6]"

fun EXPLICIT_OFFSET :: "string \<Rightarrow> bool" where
  "EXPLICIT_OFFSET [] = False"
| "EXPLICIT_OFFSET (c # s) =
     ((c = CHR ''T'' \<or> c = CHR '' '') \<and> ends_with_zone s \<or> EXPLICIT_OFFSET s)"

definition isIsoInstant :: "runtime \<Rightarrow> string \<Rightarrow> bool" where
  "isIsoInstant rt value \<longleftrightarrow> EXPLICIT_OFFSET value \<and> parseIsoDate rt value \<noteq> None"

definition isMoneyAmount :: "string \<Rightarrow> bool" where
  "isMoneyAmount value \<longleftrightarrow> parseMoneyInput value \<noteq> None"

text \<open>\<open>@IsOptionalNonNull()\<close>: only an absent field skips its checks.\<close>

definition isOptionalNonNull :: "('a \<Rightarrow> bool) \<Rightarrow> 'a option \<Rightarrow> bool" where
  "isOptionalNonNull check value = (case value of None \<Rightarrow> True | Some v \<Rightarrow> check v)"

definition isId :: "nat \<Rightarrow> bool" where
  "isId i \<longleftrightarrow> 1 \<le> i \<and> i \<le> 2147483647"

section \<open>Rules for a new transaction\<close>

definition MAX_DESCRIPTION_LENGTH :: nat where "MAX_DESCRIPTION_LENGTH = 140"
definition MAX_SEARCH_LENGTH :: nat where "MAX_SEARCH_LENGTH = 255"
definition CLOCK_SKEW_MS :: int where "CLOCK_SKEW_MS = 60000"

definition AMOUNT_NOT_POSITIVE :: string where
  "AMOUNT_NOT_POSITIVE = ''amount must be greater than 0''"

definition TIMESTAMP_IN_FUTURE :: string where
  "TIMESTAMP_IN_FUTURE = ''timestamp must not be in the future''"

definition isPositiveAmount :: "string \<Rightarrow> bool" where
  "isPositiveAmount amount \<longleftrightarrow> (case parseMoneyInput amount of None \<Rightarrow> 0 | Some c \<Rightarrow> c) > 0"

definition isNotInFuture :: "int \<Rightarrow> int \<Rightarrow> bool" where
  "isNotInFuture timestamp now \<longleftrightarrow> timestamp \<le> now + CLOCK_SKEW_MS"

text \<open>\<open>value?.trim() || null\<close>\<close>

definition normalizeDescription :: "string option \<Rightarrow> string option" where
  "normalizeDescription value = (case value of None \<Rightarrow> None
     | Some d \<Rightarrow> if trim d = [] then None else Some (trim d))"

definition normalizeSearch :: "string \<Rightarrow> string option" where
  "normalizeSearch value = (if trim value = [] then None else Some (trim value))"

definition isSearchWithinLimit :: "string \<Rightarrow> bool" where
  "isSearchWithinLimit value \<longleftrightarrow> length value \<le> MAX_SEARCH_LENGTH"

text \<open>The validators of \<open>dto/transaction-field.decorators.ts\<close>, on a string.\<close>

definition IsPositiveAmount :: "string \<Rightarrow> bool" where
  "IsPositiveAmount value \<longleftrightarrow> parseMoneyInput value = None \<or> isPositiveAmount value"

definition IsNotInFuture :: "runtime \<Rightarrow> int \<Rightarrow> string \<Rightarrow> bool" where
  "IsNotInFuture rt now value = (case parseIsoDate rt value of None \<Rightarrow> True | Some d \<Rightarrow> isNotInFuture d now)"

definition IsDescription :: "string option \<Rightarrow> bool" where
  "IsDescription value = (case normalizeDescription value of None \<Rightarrow> True
     | Some d \<Rightarrow> length d \<le> MAX_DESCRIPTION_LENGTH)"

section \<open>Header pipes\<close>

text \<open>\<open>ParseIdempotencyKeyPipe\<close>: one to 255 printable ASCII characters without spaces.\<close>

definition parse_idempotency_key :: "string option \<Rightarrow> exception + string option" where
  "parse_idempotency_key value = (case value of None \<Rightarrow> Inr None
     | Some key \<Rightarrow> if 1 \<le> length key \<and> length key \<le> 255 \<and>
           list_all (\<lambda>c. 33 \<le> (of_char c :: nat) \<and> (of_char c :: nat) \<le> 126) key
         then Inr (Some key)
         else Inl (bad_field ''Idempotency-Key'' ''Idempotency-Key must be 1-255 printable ASCII characters''))"

definition MAX_VERSION :: nat where "MAX_VERSION = 4294967295"

text \<open>\<open>[1-9]\d{0,9}\<close>\<close>

definition is_version_digits :: "string \<Rightarrow> bool" where
  "is_version_digits s \<longleftrightarrow> (case s of [] \<Rightarrow> False
     | c # r \<Rightarrow> is_digit c \<and> c \<noteq> CHR ''0'' \<and> length r \<le> 9 \<and> list_all is_digit r)"

definition VERSION_TAG :: "string \<Rightarrow> string option" where
  "VERSION_TAG s = (if is_version_digits s then Some s
     else if 2 \<le> length s \<and> hd s = CHR 34 \<and> last s = CHR 34 \<and> is_version_digits (butlast (tl s))
       then Some (butlast (tl s))
     else None)"

definition IF_MATCH_ERROR :: string where
  "IF_MATCH_ERROR = ''If-Match must be a record version, e.g. '' @ [CHR 34] @ ''3'' @ [CHR 34]"

definition parse_if_match_version :: "string option \<Rightarrow> exception + nat option" where
  "parse_if_match_version value = (case value of None \<Rightarrow> Inr None
     | Some v \<Rightarrow> (case VERSION_TAG (trim v) of
         None \<Rightarrow> Inl (bad_field ''If-Match'' IF_MATCH_ERROR)
       | Some d \<Rightarrow> if digits_val d \<le> MAX_VERSION then Inr (Some (digits_val d))
           else Inl (bad_field ''If-Match'' IF_MATCH_ERROR)))"

section \<open>Facts\<close>

lemma trim_not_space:
  "trim s = c # r \<Longrightarrow> \<not> is_space c"
proof -
  assume t: "trim s = c # r"
  have "trim s = rev (dropWhile is_space (rev (dropWhile is_space s)))" by (simp add: trim_def)
  moreover define u where "u = dropWhile is_space s"
  moreover have "\<exists>v. u = rev (dropWhile is_space (rev u)) @ v"
    by (metis rev_append rev_rev_ident takeWhile_dropWhile_id)
  ultimately have "\<exists>v. u = (c # r) @ v" using t by simp
  then obtain v where "dropWhile is_space s = c # r @ v" by (auto simp: u_def)
  then have "dropWhile is_space s \<noteq> []" and "hd (dropWhile is_space s) = c" by simp_all
  then show ?thesis using hd_dropWhile [of is_space s] by (auto simp: dropWhile_eq_Nil_conv)
qed

lemma dropWhile_id: "(s \<noteq> [] \<Longrightarrow> \<not> p (hd s)) \<Longrightarrow> dropWhile p s = s"
  by (cases s) auto

lemma trim_idem [simp]: "trim (trim s) = trim s"
proof -
  have front: "dropWhile is_space (trim s) = trim s"
    by (rule dropWhile_id) (metis list.exhaust_sel trim_not_space)
  have "dropWhile is_space (rev (trim s)) = rev (trim s)"
    unfolding trim_def rev_rev_ident by (rule dropWhile_id) (metis hd_dropWhile)
  with front show ?thesis by (simp add: trim_def [of "trim s"])
qed

lemma normalizeDescription_idem [simp]:
  "normalizeDescription (normalizeDescription d) = normalizeDescription d"
  by (simp add: normalizeDescription_def split: option.split)

lemma normalizeDescription_nonempty: "normalizeDescription d \<noteq> Some []"
  by (auto simp: normalizeDescription_def split: option.splits if_splits)

text \<open>An accepted amount is between one cent and \<open>99999999.99\<close>.\<close>

lemma accepted_amount_range:
  assumes "isMoneyAmount a" and "IsPositiveAmount a"
  shows "\<exists>c. parseMoneyInput a = Some c \<and> 0 < c \<and> c \<le> MAX_MONEY_INPUT_CENTS"
  using assms parseMoneyInput_range [of a]
  by (auto simp: isMoneyAmount_def IsPositiveAmount_def isPositiveAmount_def)

end
