(* ===== verification/TransactionQueries.thy ===== *)
theory TransactionQueries
  imports Runtime
begin

text \<open>
  \<open>modules/transaction-queries/transaction-queries.service.ts\<close>: every read of the transactions
  table that other components share. A query is a function of the database state: its joins,
  conditions, grouping and order are written out over the rows. A \<open>SUM\<close> of a \<open>DECIMAL\<close> column
  reaches the code as text and is parsed to cents at once, so it is an \<^typ>\<open>int\<close> here. The
  comparison of searched text with a pattern is the parameter \<open>like\<close>; \<^term>\<open>sql_like\<close> below says
  what the database does with it.
\<close>

section \<open>Selections\<close>

record TransactionFilters =
  tf_transactionType :: "TransactionType option"
  tf_kind :: "TransactionKind option"
  tf_categoryId :: "nat option"
  tf_walletId :: "nat option"
  tf_search :: "string option"

record TransactionSelection =
  ts_spaceId :: nat
  ts_from :: int
  ts_to :: int
  ts_filters :: TransactionFilters

text \<open>A place in the history order: the timestamp, then the id.\<close>

type_synonym FeedPosition = "int \<times> string"

record FeedPageRequest =
  fp_limit :: nat
  fp_after :: "FeedPosition option"
  fp_before :: "FeedPosition option"

text \<open>A transaction with its wallet and its category loaded.\<close>

record LoadedTransaction =
  lt_transaction :: transaction
  lt_wallet :: wallet
  lt_category :: category

record FeedPage =
  pg_items :: "LoadedTransaction list"
  pg_hasMore :: bool

record FeedSummary =
  fs_count :: nat
  fs_income :: int
  fs_expense :: int

definition no_filters :: TransactionFilters where
  "no_filters = \<lparr>tf_transactionType = None, tf_kind = None, tf_categoryId = None,
     tf_walletId = None, tf_search = None\<rparr>"

definition clampToStored :: "int \<Rightarrow> int" where
  "clampToStored d = min (max d TIMESTAMP_MIN) STORED_TIMESTAMP_MAX"

section \<open>Searched text\<close>

text \<open>\<open>toSearchPattern\<close> escapes the escape character and the two wildcards with \<open>!\<close>.\<close>

definition escape_char :: "char \<Rightarrow> string" where
  "escape_char c = (if c \<in> {CHR ''!'', CHR ''%'', CHR ''_''} then [CHR ''!'', c] else [c])"

definition toSearchPattern :: "string \<Rightarrow> string" where
  "toSearchPattern search = ''%'' @ concat (map escape_char search) @ ''%''"

text \<open>
  \<open>LIKE ... ESCAPE '!'\<close>: a percent sign matches any text, an underscore any one character, an
  escaped character itself, up to the collation's equality of characters \<open>eq\<close>.
\<close>

fun sql_like :: "(char \<Rightarrow> char \<Rightarrow> bool) \<Rightarrow> string \<Rightarrow> string \<Rightarrow> bool" where
  "sql_like eq [] s = (s = [])"
| "sql_like eq (p # ps) s =
     (if p = CHR ''%'' then (\<exists>i \<in> set [0..<Suc (length s)]. sql_like eq ps (drop i s))
      else if p = CHR ''!'' \<and> ps \<noteq> []
        then (s \<noteq> [] \<and> eq (hd ps) (hd s) \<and> sql_like eq (tl ps) (tl s))
      else if p = CHR ''_'' then (s \<noteq> [] \<and> sql_like eq ps (tl s))
      else (s \<noteq> [] \<and> eq p (hd s) \<and> sql_like eq ps (tl s)))"

section \<open>Joined rows\<close>

definition load :: "db \<Rightarrow> transaction \<Rightarrow> LoadedTransaction option" where
  "load s t = (case (find_wallet (t_wallet_id t) s, find_category (t_category_id t) s) of
     (Some w, Some c) \<Rightarrow> Some \<lparr>lt_transaction = t, lt_wallet = w, lt_category = c\<rparr>
   | _ \<Rightarrow> None)"

text \<open>\<open>FROM transaction INNER JOIN wallet INNER JOIN category\<close>.\<close>

definition joined :: "db \<Rightarrow> LoadedTransaction list" where
  "joined s = List.map_filter (load s) (transactions s)"

abbreviation lt_id :: "LoadedTransaction \<Rightarrow> string" where
  "lt_id l \<equiv> t_id (lt_transaction l)"

definition positionOf :: "LoadedTransaction \<Rightarrow> FeedPosition" where
  "positionOf l = (t_timestamp (lt_transaction l), t_id (lt_transaction l))"

text \<open>\<open>GROUP BY key\<close> with one aggregate: a row per key that occurs, in no particular order.\<close>

definition group_by :: "('r \<Rightarrow> 'k) \<Rightarrow> ('r list \<Rightarrow> 'a) \<Rightarrow> 'r list \<Rightarrow> ('k \<times> 'a) list" where
  "group_by key agg rs = map (\<lambda>k. (k, agg (filter (\<lambda>r. key r = k) rs))) (dedup (map key rs))"

text \<open>The signed amount of a transaction: income adds to a balance, anything else subtracts.\<close>

definition signed_amount :: "transaction \<Rightarrow> int" where
  "signed_amount t = (if t_transaction_type t = INCOME then t_amount t else - t_amount t)"

definition amount_of_type :: "TransactionType \<Rightarrow> transaction \<Rightarrow> int" where
  "amount_of_type ty t = (if t_transaction_type t = ty then t_amount t else 0)"

section \<open>Balances and totals\<close>

definition getBalances :: "nat list \<Rightarrow> db \<Rightarrow> nat \<Rightarrow> int option" where
  "getBalances walletIds s =
     (let balances = map_of (map (\<lambda>i. (i, 0)) walletIds) in
      if walletIds = [] then balances
      else balances ++ map_of (group_by t_wallet_id (\<lambda>rs. sum_list (map signed_amount rs))
             (filter (\<lambda>t. t_wallet_id t \<in> set walletIds) (transactions s))))"

definition getOneInSpace :: "nat \<Rightarrow> string \<Rightarrow> db \<Rightarrow> LoadedTransaction option" where
  "getOneInSpace spaceId transactionId s =
     find_row (\<lambda>l. lt_id l = transactionId \<and> w_space_id (lt_wallet l) = spaceId) (joined s)"

record WalletPeriodTotals =
  pt_income :: int
  pt_spend :: int

definition period_totals_of :: "transaction list \<Rightarrow> WalletPeriodTotals" where
  "period_totals_of rs = \<lparr>pt_income = sum_list (map (amount_of_type INCOME) rs),
     pt_spend = sum_list (map (amount_of_type EXPENSE) rs)\<rparr>"

definition getPeriodTotals :: "nat list \<Rightarrow> int \<Rightarrow> int \<Rightarrow> db \<Rightarrow> nat \<Rightarrow> WalletPeriodTotals option" where
  "getPeriodTotals walletIds from to s =
     (let totals = map_of (map (\<lambda>i. (i, \<lparr>pt_income = 0, pt_spend = 0\<rparr>)) walletIds) in
      if walletIds = [] then totals
      else totals ++ map_of (group_by t_wallet_id period_totals_of
             (filter (\<lambda>t. (case find_category (t_category_id t) s of None \<Rightarrow> False
                             | Some c \<Rightarrow> t_wallet_id t \<in> set walletIds \<and> \<not> cat_is_system c \<and>
                                 from \<le> t_timestamp t \<and> t_timestamp t \<le> to)) (transactions s))))"

definition getExpensesByCategory :: "nat \<Rightarrow> int \<Rightarrow> int \<Rightarrow> db \<Rightarrow> (nat \<times> int) list" where
  "getExpensesByCategory spaceId from to s =
     group_by t_category_id (\<lambda>rs. sum_list (map t_amount rs))
       (filter (\<lambda>t. (case find_wallet (t_wallet_id t) s of None \<Rightarrow> False
                       | Some w \<Rightarrow> w_space_id w = spaceId \<and> t_transaction_type t = EXPENSE \<and>
                           from \<le> t_timestamp t \<and> t_timestamp t \<le> to)) (transactions s))"

section \<open>The selection of the feed\<close>

definition selectionWallets :: "TransactionSelection \<Rightarrow> db \<Rightarrow> nat list" where
  "selectionWallets selection s =
     (let ids = sort (map w_id (filter (\<lambda>w. w_space_id w = ts_spaceId selection) (rows (wallets s))))
      in case tf_walletId (ts_filters selection) of
           None \<Rightarrow> ids
         | Some walletId \<Rightarrow> filter (\<lambda>i. i = walletId) ids)"

definition in_period :: "TransactionSelection \<Rightarrow> int \<Rightarrow> bool" where
  "in_period sel timestamp \<longleftrightarrow>
     (if ts_to sel < TIMESTAMP_MIN \<or> STORED_TIMESTAMP_MAX < ts_from sel then False
      else clampToStored (ts_from sel) \<le> timestamp \<and> timestamp \<le> clampToStored (ts_to sel))"

definition matches_search ::
  "(string \<Rightarrow> string \<Rightarrow> bool) \<Rightarrow> string option \<Rightarrow> LoadedTransaction \<Rightarrow> bool" where
  "matches_search like q l = (case map_option trim q of
       None \<Rightarrow> True
     | Some search \<Rightarrow> search = [] \<or>
         (let matches = like (toSearchPattern search) in
          (case t_description (lt_transaction l) of None \<Rightarrow> False | Some d \<Rightarrow> matches d) \<or>
          matches (cat_name (lt_category l)) \<or> matches (w_wallet_name (lt_wallet l))))"

definition selectionScope ::
  "(string \<Rightarrow> string \<Rightarrow> bool) \<Rightarrow> TransactionSelection \<Rightarrow> nat list \<Rightarrow> db \<Rightarrow> LoadedTransaction list" where
  "selectionScope like sel walletIds s =
     filter (\<lambda>l. let t = lt_transaction l; filters = ts_filters sel in
       t_wallet_id t \<in> set walletIds \<and>
       in_period sel (t_timestamp t) \<and>
       (case tf_transactionType filters of None \<Rightarrow> True | Some ty \<Rightarrow> t_transaction_type t = ty) \<and>
       (case tf_kind filters of None \<Rightarrow> True
          | Some kind \<Rightarrow> cat_is_system (lt_category l) = (kind = INITIAL_BALANCE)) \<and>
       (case tf_categoryId filters of None \<Rightarrow> True | Some i \<Rightarrow> i = 0 \<or> t_category_id t = i) \<and>
       matches_search like (tf_search filters) l) (joined s)"

definition countForAllWallets ::
  "(string \<Rightarrow> string \<Rightarrow> bool) \<Rightarrow> TransactionSelection \<Rightarrow> db \<Rightarrow> nat" where
  "countForAllWallets like selection s =
     (let walletIds = selectionWallets selection s in
      if walletIds = [] then 0 else length (selectionScope like selection walletIds s))"

section \<open>Pages\<close>

text \<open>\<open>ORDER BY timestamp, id\<close> in the direction that is read.\<close>

definition in_direction :: "bool \<Rightarrow> LoadedTransaction list \<Rightarrow> LoadedTransaction list" where
  "in_direction newer rs = (if newer then sort_key positionOf rs else rev (sort_key positionOf rs))"

definition beyond :: "bool \<Rightarrow> FeedPosition option \<Rightarrow> LoadedTransaction \<Rightarrow> bool" where
  "beyond newer position l = (case position of None \<Rightarrow> True
     | Some (timestamp, i) \<Rightarrow>
         let t = lt_transaction l in
         if newer then timestamp \<le> t_timestamp t \<and> (timestamp < t_timestamp t \<or> i < t_id t)
         else t_timestamp t \<le> timestamp \<and> (t_timestamp t < timestamp \<or> t_id t < i))"

definition feed_branch ::
  "(string \<Rightarrow> string \<Rightarrow> bool) \<Rightarrow> TransactionSelection \<Rightarrow> bool \<Rightarrow> FeedPosition option \<Rightarrow> nat \<Rightarrow> db \<Rightarrow> nat \<Rightarrow>
   LoadedTransaction list" where
  "feed_branch like selection newer position limit s walletId =
     take (limit + 1) (in_direction newer
       (filter (beyond newer position) (selectionScope like selection [walletId] s)))"

text \<open>The rows of the given ids; they come from the same snapshot, so each is there.\<close>

definition loadInOrder :: "string list \<Rightarrow> db \<Rightarrow> LoadedTransaction list" where
  "loadInOrder ids s =
     (if ids = [] then []
      else map (\<lambda>i. the (find_row (\<lambda>l. lt_id l = i) (filter (\<lambda>l. lt_id l \<in> set ids) (joined s)))) ids)"

definition getFeedPage ::
  "(string \<Rightarrow> string \<Rightarrow> bool) \<Rightarrow> TransactionSelection \<Rightarrow> FeedPageRequest \<Rightarrow> db \<Rightarrow> FeedPage" where
  "getFeedPage like selection page s =
     (let walletIds = selectionWallets selection s in
      if walletIds = [] then \<lparr>pg_items = [], pg_hasMore = False\<rparr>
      else let newer = (fp_before page \<noteq> None);
               position = (case fp_before page of None \<Rightarrow> fp_after page | Some p \<Rightarrow> Some p);
               branches = map (feed_branch like selection newer position (fp_limit page) s) walletIds;
               rws = take (fp_limit page + 1) (in_direction newer (concat branches));
               ids = map lt_id (take (fp_limit page) rws);
               items = loadInOrder ids s
           in \<lparr>pg_items = (if newer then rev items else items),
               pg_hasMore = (fp_limit page < length rws)\<rparr>)"

definition getFeedSummary ::
  "(string \<Rightarrow> string \<Rightarrow> bool) \<Rightarrow> TransactionSelection \<Rightarrow> db \<Rightarrow> FeedSummary" where
  "getFeedSummary like selection s =
     (let walletIds = selectionWallets selection s in
      if walletIds = [] then \<lparr>fs_count = 0, fs_income = 0, fs_expense = 0\<rparr>
      else let rws = selectionScope like selection walletIds s;
               total = (\<lambda>ty. sum_list (map (\<lambda>l. if \<not> cat_is_system (lt_category l) \<and>
                   t_transaction_type (lt_transaction l) = ty then t_amount (lt_transaction l) else 0) rws))
           in \<lparr>fs_count = length rws, fs_income = total INCOME, fs_expense = total EXPENSE\<rparr>)"

text \<open>The first interval of a list that holds a timestamp, as \<open>CASE WHEN ... THEN i\<close> picks it.\<close>

fun interval_index :: "(int \<times> int) list \<Rightarrow> int \<Rightarrow> nat option" where
  "interval_index [] timestamp = None"
| "interval_index ((from, to) # is) timestamp =
     (if clampToStored from \<le> timestamp \<and> timestamp \<le> clampToStored to then Some 0
      else map_option Suc (interval_index is timestamp))"

definition net_amount :: "LoadedTransaction \<Rightarrow> int" where
  "net_amount l = (if cat_is_system (lt_category l) then 0 else signed_amount (lt_transaction l))"

definition getFeedIntervalNets ::
  "(string \<Rightarrow> string \<Rightarrow> bool) \<Rightarrow> TransactionSelection \<Rightarrow> (int \<times> int) list \<Rightarrow> db \<Rightarrow> int list" where
  "getFeedIntervalNets like selection intervals s =
     (let nets = map (\<lambda>_. 0) intervals;
          walletIds = (if intervals = [] then [] else selectionWallets selection s) in
      if walletIds = [] then nets
      else let rws = filter (\<lambda>l. interval_index intervals (t_timestamp (lt_transaction l)) \<noteq> None)
                 (selectionScope like selection walletIds s);
               grouped = group_by (\<lambda>l. the (interval_index intervals (t_timestamp (lt_transaction l))))
                 (\<lambda>ls. sum_list (map net_amount ls)) rws
           in fold (\<lambda>(i, net) nets. nets[i := net]) grouped nets)"

definition findFeedPosition ::
  "(string \<Rightarrow> string \<Rightarrow> bool) \<Rightarrow> TransactionSelection \<Rightarrow> string \<Rightarrow> db \<Rightarrow> FeedPosition option" where
  "findFeedPosition like selection transactionId s =
     (let walletIds = selectionWallets selection s in
      if walletIds = [] then None
      else map_option positionOf
        (find_row (\<lambda>l. lt_id l = transactionId) (selectionScope like selection walletIds s)))"

definition getLatest :: "nat \<Rightarrow> db \<Rightarrow> LoadedTransaction option" where
  "getLatest spaceId s =
     head_opt (in_direction False (filter (\<lambda>l. w_space_id (lt_wallet l) = spaceId) (joined s)))"

section \<open>Facts about grouped sums\<close>

lemma map_of_pairs: "map_of (map (\<lambda>k. (k, f k)) ks) k = (if k \<in> set ks then Some (f k) else None)"
  by (induction ks) auto

lemma map_of_group_by:
  "map_of (group_by key agg rs) k =
    (if k \<in> key ` set rs then Some (agg (filter (\<lambda>r. key r = k) rs)) else None)"
  unfolding group_by_def by (subst map_of_pairs) simp

lemma distinct_group_by: "distinct (map fst (group_by key agg rs))"
  by (simp add: group_by_def comp_def)

lemma sum_list_filter_split:
  fixes f :: "'a \<Rightarrow> int"
  shows "sum_list (map f xs) = sum_list (map f (filter p xs)) + sum_list (map f (filter (\<lambda>x. \<not> p x) xs))"
  by (induction xs) auto

lemma sum_list_by_key:
  fixes f :: "'r \<Rightarrow> int"
  assumes "distinct ks" and "key ` set rs \<subseteq> set ks"
  shows "(\<Sum>k\<leftarrow>ks. sum_list (map f (filter (\<lambda>r. key r = k) rs))) = sum_list (map f rs)"
  using assms
proof (induction ks arbitrary: rs)
  case (Cons k ks)
  let ?rest = "filter (\<lambda>r. key r \<noteq> k) rs"
  have "filter (\<lambda>r. key r = k') ?rest = filter (\<lambda>r. key r = k') rs" if "k' \<in> set ks" for k'
    using Cons.prems(1) that by (auto simp: filter_filter intro!: filter_cong)
  then have "(\<Sum>k'\<leftarrow>ks. sum_list (map f (filter (\<lambda>r. key r = k') rs))) =
      (\<Sum>k'\<leftarrow>ks. sum_list (map f (filter (\<lambda>r. key r = k') ?rest)))"
    by (intro arg_cong [where f = sum_list] map_cong) auto
  also have "\<dots> = sum_list (map f ?rest)"
    using Cons.prems by (intro Cons.IH) auto
  finally show ?case
    using sum_list_filter_split [of f rs "\<lambda>r. key r = k"] by simp
qed simp

lemma sum_group_by:
  fixes f :: "'r \<Rightarrow> int"
  shows "sum_list (map snd (group_by key (\<lambda>rs. sum_list (map f rs)) rs)) = sum_list (map f rs)"
  by (simp add: group_by_def comp_def sum_list_by_key)

section \<open>Facts about balances\<close>

definition wallet_balance :: "nat \<Rightarrow> db \<Rightarrow> int" where
  "wallet_balance w s =
     sum_list (map signed_amount (filter (\<lambda>t. t_wallet_id t = w) (transactions s)))"

lemma sum_list_no_rows: "w \<notin> key ` set rs \<Longrightarrow> filter (\<lambda>r. key r = w) rs = []"
  by (auto simp: filter_empty_conv)

lemma getBalances_eq:
  "getBalances walletIds s w = (if w \<in> set walletIds then Some (wallet_balance w s) else None)"
proof -
  let ?rs = "filter (\<lambda>t. t_wallet_id t \<in> set walletIds) (transactions s)"
  have rows: "w \<in> set walletIds \<Longrightarrow>
      filter (\<lambda>t. t_wallet_id t = w) ?rs = filter (\<lambda>t. t_wallet_id t = w) (transactions s)"
    by (auto simp: filter_filter intro!: filter_cong)
  have none: "w \<notin> t_wallet_id ` set ?rs \<Longrightarrow> w \<in> set walletIds \<Longrightarrow> wallet_balance w s = 0"
    using sum_list_no_rows [of w t_wallet_id ?rs] rows by (simp add: wallet_balance_def)
  show ?thesis
    using rows none by (auto simp: getBalances_def Let_def map_add_def map_of_group_by
        map_of_pairs wallet_balance_def split: option.split)
qed

lemma getPeriodTotals_eq:
  "getPeriodTotals walletIds from to s w = (if w \<in> set walletIds then
     Some (period_totals_of (filter (\<lambda>t. t_wallet_id t = w \<and> from \<le> t_timestamp t \<and> t_timestamp t \<le> to \<and>
       (\<exists>c. find_category (t_category_id t) s = Some c \<and> \<not> cat_is_system c)) (transactions s))) else None)"
proof -
  let ?rs = "filter (\<lambda>t. (case find_category (t_category_id t) s of None \<Rightarrow> False
      | Some c \<Rightarrow> t_wallet_id t \<in> set walletIds \<and> \<not> cat_is_system c \<and>
          from \<le> t_timestamp t \<and> t_timestamp t \<le> to)) (transactions s)"
  let ?own = "filter (\<lambda>t. t_wallet_id t = w \<and> from \<le> t_timestamp t \<and> t_timestamp t \<le> to \<and>
       (\<exists>c. find_category (t_category_id t) s = Some c \<and> \<not> cat_is_system c)) (transactions s)"
  have rows: "w \<in> set walletIds \<Longrightarrow> filter (\<lambda>t. t_wallet_id t = w) ?rs = ?own"
    by (auto simp: filter_filter intro!: filter_cong split: option.splits)
  have none: "w \<notin> t_wallet_id ` set ?rs \<Longrightarrow> w \<in> set walletIds \<Longrightarrow> ?own = []"
    using sum_list_no_rows [of w t_wallet_id ?rs] rows by simp
  show ?thesis
  proof (cases "w \<in> set walletIds")
    case True
    then have nonempty: "walletIds \<noteq> []" by auto
    show ?thesis
    proof (cases "w \<in> t_wallet_id ` set ?rs")
      case True
      with nonempty rows \<open>w \<in> set walletIds\<close> show ?thesis
        by (simp add: getPeriodTotals_def Let_def map_add_def map_of_group_by)
    next
      case False
      with nonempty none \<open>w \<in> set walletIds\<close> show ?thesis
        by (simp add: getPeriodTotals_def Let_def map_add_def map_of_group_by map_of_pairs
            period_totals_of_def)
    qed
  next
    case False
    then have "w \<notin> t_wallet_id ` set ?rs" by (auto split: option.splits)
    with False show ?thesis
      by (simp add: getPeriodTotals_def Let_def map_add_def map_of_group_by map_of_pairs)
  qed
qed

lemma getExpensesByCategory_total:
  "sum_list (map snd (getExpensesByCategory spaceId from to s)) =
    sum_list (map t_amount (filter (\<lambda>t. t_transaction_type t = EXPENSE \<and> from \<le> t_timestamp t \<and>
      t_timestamp t \<le> to \<and> (\<exists>w. find_wallet (t_wallet_id t) s = Some w \<and> w_space_id w = spaceId))
      (transactions s)))"
  unfolding getExpensesByCategory_def sum_group_by
  by (intro arg_cong [where f = sum_list] arg_cong [where f = "map t_amount"] filter_cong)
    (auto split: option.splits)

section \<open>Facts about searched text\<close>

lemma sql_like_escaped:
  "sql_like eq (concat (map escape_char q) @ p) s \<longleftrightarrow>
    length q \<le> length s \<and> list_all2 eq q (take (length q) s) \<and> sql_like eq p (drop (length q) s)"
proof (induction q arbitrary: s)
  case (Cons c q)
  then show ?case by (cases s) (auto simp: escape_char_def)
qed simp

lemma sql_like_any: "sql_like eq (CHR ''%'' # p) s \<longleftrightarrow> (\<exists>i \<le> length s. sql_like eq p (drop i s))"
  by (auto simp: less_Suc_eq_le simp del: upt_Suc)

lemma sql_like_percent: "sql_like eq ''%'' s"
  unfolding sql_like_any by (intro exI [of _ "length s"]) simp

text \<open>A pattern built from a search matches exactly the texts that contain it.\<close>

lemma sql_like_toSearchPattern:
  "sql_like eq (toSearchPattern search) s \<longleftrightarrow>
    (\<exists>us vs ws. s = us @ vs @ ws \<and> list_all2 eq search vs)"
proof -
  have "sql_like eq (toSearchPattern search) s \<longleftrightarrow>
      (\<exists>i \<le> length s. length search \<le> length (drop i s) \<and>
         list_all2 eq search (take (length search) (drop i s)))"
    unfolding toSearchPattern_def append.simps sql_like_any [of eq "concat (map escape_char search) @ ''%''"]
      sql_like_escaped
    by (simp only: sql_like_percent simp_thms)
  also have "\<dots> \<longleftrightarrow> (\<exists>us vs ws. s = us @ vs @ ws \<and> list_all2 eq search vs)"
  proof (intro iffI; elim exE conjE)
    fix i assume "i \<le> length s" "list_all2 eq search (take (length search) (drop i s))"
    moreover have "s = take i s @ take (length search) (drop i s) @ drop (length search) (drop i s)"
      by (metis append_take_drop_id)
    ultimately show "\<exists>us vs ws. s = us @ vs @ ws \<and> list_all2 eq search vs" by blast
  next
    fix us vs ws assume s: "s = us @ vs @ ws" and eq: "list_all2 eq search vs"
    then have "length search = length vs" by (simp add: list_all2_lengthD)
    with s eq show "\<exists>i \<le> length s. length search \<le> length (drop i s) \<and>
         list_all2 eq search (take (length search) (drop i s))"
      by (intro exI [of _ "length us"]) simp
  qed
  finally show ?thesis .
qed

section \<open>Facts about day totals\<close>

lemma interval_index_bound: "interval_index is x = Some i \<Longrightarrow> i < length is"
  by (induction "is" arbitrary: i) (auto split: if_splits)

lemma fold_list_update:
  assumes "distinct (map fst ps)" and "\<forall>(i, x) \<in> set ps. i < length ns" and "j < length ns"
  shows "fold (\<lambda>(i, x) ns. ns[i := x]) ps ns ! j = (case map_of ps j of None \<Rightarrow> ns ! j | Some x \<Rightarrow> x)"
  using assms
proof (induction ps arbitrary: ns)
  case (Cons p ps)
  obtain i x where p: "p = (i, x)" by (cases p)
  with Cons have "fold (\<lambda>(i, x) ns. ns[i := x]) ps (ns[i := x]) ! j =
      (case map_of ps j of None \<Rightarrow> ns[i := x] ! j | Some x \<Rightarrow> x)"
    by (intro Cons.IH) auto
  moreover have "map_of ps i = None"
    using Cons.prems(1) p by (simp add: map_of_eq_None_iff)
  ultimately show ?case
    using Cons.prems(3) p by (cases "i = j") (simp_all split: option.split)
qed simp

lemma length_fold_list_update:
  "length (fold (\<lambda>(i, x) ns. ns[i := x]) ps ns) = length ns"
  by (induction ps arbitrary: ns) auto

lemma getFeedIntervalNets_nth:
  assumes "i < length intervals"
  shows "getFeedIntervalNets like selection intervals s ! i =
    sum_list (map net_amount (filter (\<lambda>l. interval_index intervals (t_timestamp (lt_transaction l)) = Some i)
      (selectionScope like selection (selectionWallets selection s) s)))"
proof (cases "selectionWallets selection s = []")
  case True
  with assms show ?thesis
    by (simp add: getFeedIntervalNets_def selectionScope_def Let_def)
next
  case False
  let ?idx = "\<lambda>l. interval_index intervals (t_timestamp (lt_transaction l))"
  let ?scope = "selectionScope like selection (selectionWallets selection s) s"
  let ?rws = "filter (\<lambda>l. ?idx l \<noteq> None) ?scope"
  let ?g = "group_by (\<lambda>l. the (?idx l)) (\<lambda>ls. sum_list (map net_amount ls)) ?rws"
  have nets: "getFeedIntervalNets like selection intervals s =
      fold (\<lambda>(i, net) nets. nets[i := net]) ?g (map (\<lambda>_. 0) intervals)"
    using assms False by (auto simp: getFeedIntervalNets_def Let_def)
  have own: "filter (\<lambda>l. the (?idx l) = i) ?rws = filter (\<lambda>l. ?idx l = Some i) ?scope"
    by (auto simp: filter_filter intro!: filter_cong)
  have bound: "\<forall>(j, x) \<in> set ?g. j < length (map (\<lambda>_. 0 :: int) intervals)"
    by (auto simp: group_by_def dest: interval_index_bound)
  have "getFeedIntervalNets like selection intervals s ! i =
      (case map_of ?g i of None \<Rightarrow> map (\<lambda>_. 0) intervals ! i | Some x \<Rightarrow> x)"
    unfolding nets using assms bound by (intro fold_list_update distinct_group_by) auto
  also have "\<dots> = sum_list (map net_amount (filter (\<lambda>l. the (?idx l) = i) ?rws))"
    using assms sum_list_no_rows [of i "\<lambda>l. the (?idx l)" ?rws]
    by (auto simp: map_of_group_by)
  finally show ?thesis by (simp only: own)
qed

end
