(* ===== verification/FeedPages.thy ===== *)
theory FeedPages
  imports TransactionQueries
begin

text \<open>
  Why a page of the feed is right: the heads of the per-wallet branches, sorted together, are the
  head of the whole selection in history order, in both directions; and following the cursor from
  page to page reads every record of an unchanged selection exactly once.
\<close>

section \<open>The interface of an order to page in\<close>

text \<open>
  A strict total order \<open>before\<close> of keys and a function that arranges items in it. Sorting by
  position, ascending or descending, are its two instances.
\<close>

locale history_order =
  fixes pos :: "'a \<Rightarrow> 'k" and before :: "'k \<Rightarrow> 'k \<Rightarrow> bool" and arrange :: "'a list \<Rightarrow> 'a list"
  assumes irrefl: "\<not> before k k"
    and trans: "before k l \<Longrightarrow> before l m \<Longrightarrow> before k m"
    and total: "k \<noteq> l \<Longrightarrow> before k l \<or> before l k"
    and mset_arrange: "mset (arrange xs) = mset xs"
    and arranged: "distinct (map pos xs) \<Longrightarrow> sorted_wrt (\<lambda>x y. before (pos x) (pos y)) (arrange xs)"
begin

abbreviation earlier :: "'a \<Rightarrow> 'a \<Rightarrow> bool" where
  "earlier x y \<equiv> before (pos x) (pos y)"

lemma set_arrange: "set (arrange xs) = set xs"
  using mset_arrange by (metis set_mset_mset)

lemma length_arrange: "length (arrange xs) = length xs"
  using mset_arrange by (metis size_mset)

lemma distinct_arrange: "distinct (map pos (arrange xs)) = distinct (map pos xs)"
proof -
  have "mset (map pos (arrange xs)) = mset (map pos xs)"
    by (simp only: mset_map mset_arrange)
  then show ?thesis by (metis mset_eq_imp_distinct_iff)
qed

lemma arranged_unique:
  assumes "sorted_wrt earlier xs" and "sorted_wrt earlier ys" and "set xs = set ys"
  shows "xs = ys"
  using assms
proof (induction xs arbitrary: ys)
  case (Cons x xs)
  then obtain y ys' where ys: "ys = y # ys'" by (cases ys) auto
  have "x = y"
  proof (rule ccontr)
    assume "x \<noteq> y"
    with Cons.prems ys have "y \<in> set xs" and "x \<in> set ys'" by auto
    with Cons.prems(1,2) ys have "earlier x y" and "earlier y x" by auto
    then show False using trans irrefl by blast
  qed
  moreover have "x \<notin> set xs" and "y \<notin> set ys'"
    using Cons.prems(1,2) ys irrefl by auto
  ultimately have "set xs = set ys'" using Cons.prems(3) ys by auto
  with Cons.IH [of ys'] Cons.prems(1,2) ys \<open>x = y\<close> show ?case by simp
qed simp

definition rank :: "'a set \<Rightarrow> 'a \<Rightarrow> nat" where
  "rank X x = card {y \<in> X. earlier y x}"

lemma rank_mono: "finite Y \<Longrightarrow> X \<subseteq> Y \<Longrightarrow> rank X x \<le> rank Y x"
  unfolding rank_def by (rule card_mono) auto

lemma rank_nth:
  assumes "sorted_wrt earlier ys" and "i < length ys"
  shows "rank (set ys) (ys ! i) = i"
proof -
  have "{y \<in> set ys. earlier y (ys ! i)} = set (take i ys)"
  proof (intro set_eqI iffI)
    fix y assume "y \<in> {y \<in> set ys. earlier y (ys ! i)}"
    then obtain j where j: "j < length ys" "y = ys ! j" "earlier (ys ! j) (ys ! i)"
      by (auto simp: in_set_conv_nth)
    have "j < i"
    proof (rule ccontr)
      assume "\<not> j < i"
      then have "j = i \<or> earlier (ys ! i) (ys ! j)"
        using assms(1) j(1) by (cases "j = i") (auto simp: sorted_wrt_iff_nth_less)
      with j(3) show False using irrefl trans by metis
    qed
    with j assms(2) show "y \<in> set (take i ys)" by (auto simp: in_set_conv_nth)
  next
    fix y assume "y \<in> set (take i ys)"
    then obtain j where "j < i" "y = ys ! j" by (auto simp: in_set_conv_nth)
    with assms show "y \<in> {y \<in> set ys. earlier y (ys ! i)}"
      by (auto simp: sorted_wrt_iff_nth_less)
  qed
  moreover have "distinct ys"
    using assms(1) irrefl by (auto simp: sorted_wrt_iff_nth_less distinct_conv_nth) (metis nat_neq_iff)
  ultimately show ?thesis
    using assms(2) by (simp add: rank_def distinct_card)
qed

lemma set_take_arrange:
  assumes "distinct (map pos xs)"
  shows "set (take m (arrange xs)) = {x \<in> set xs. rank (set xs) x < m}"
proof -
  let ?ys = "arrange xs"
  have sorted: "sorted_wrt earlier ?ys" by (rule arranged [OF assms])
  have "x \<in> set (take m ?ys) \<longleftrightarrow> (\<exists>i < length ?ys. i < m \<and> x = ?ys ! i)" for x
    by (auto simp: in_set_conv_nth)
  also have "\<dots>x \<longleftrightarrow> x \<in> set xs \<and> rank (set xs) x < m" for x
    using rank_nth [OF sorted] by (metis in_set_conv_nth set_arrange)
  finally show ?thesis by auto
qed

lemma rank_later: "earlier x y \<Longrightarrow> finite X \<Longrightarrow> rank X x \<le> rank X y"
  unfolding rank_def by (rule card_mono) (auto intro: trans)

lemma distinct_concat_parts:
  assumes "distinct gs" and "\<And>k. distinct (f k)" and "\<And>k x. x \<in> set (f k) \<Longrightarrow> g x = k"
  shows "distinct (concat (map f gs))"
  using assms(1) by (induction gs) (auto simp: assms(2) dest: assms(3))

text \<open>What a part leaves out of its head has at least \<open>m\<close> items of that head before it.\<close>

lemma head_before:
  assumes "distinct (map pos xs)" and "y \<in> set xs" and "m \<le> rank (set xs) y"
  shows "card (set (take m (arrange xs))) = m" and "z \<in> set (take m (arrange xs)) \<Longrightarrow> earlier z y"
proof -
  have "rank (set xs) y \<le> card (set xs)"
    unfolding rank_def by (rule card_mono) auto
  then have "m \<le> length xs" using assms(3) card_length [of xs] by simp
  moreover have "distinct (arrange xs)"
    using assms(1) distinct_arrange [of xs] by (auto simp: distinct_map)
  ultimately show "card (set (take m (arrange xs))) = m"
    by (simp add: distinct_card length_arrange)
  assume "z \<in> set (take m (arrange xs))"
  then have z: "z \<in> set xs" "rank (set xs) z < m"
    using set_take_arrange [OF assms(1)] by auto
  then have "z \<noteq> y" and "\<not> earlier y z"
    using assms(3) rank_later [of y z "set xs"] by auto
  moreover have "pos z = pos y \<Longrightarrow> z = y"
    using assms(1,2) z(1) by (auto dest: distinct_key_eq)
  ultimately show "earlier z y" using total by metis
qed

text \<open>The head of each of several parts, arranged together, has the head of the whole as its head.\<close>

lemma merge_heads:
  assumes distinct: "distinct (map pos xs)" and "distinct gs" and "g ` set xs \<subseteq> set gs"
  shows "take m (arrange (concat (map (\<lambda>k. take m (arrange (filter (\<lambda>x. g x = k) xs))) gs))) =
    take m (arrange xs)"
proof (rule arranged_unique)
  let ?part = "\<lambda>k. filter (\<lambda>x. g x = k) xs"
  let ?heads = "concat (map (\<lambda>k. take m (arrange (?part k))) gs)"
  have part: "distinct (map pos (?part k))" for k
    using distinct by (simp add: distinct_map_filter)
  have head: "x \<in> set ?heads \<longleftrightarrow> x \<in> set xs \<and> rank (set (?part (g x))) x < m" for x
    using assms(3) by (auto simp: set_take_arrange [OF part])
  have "set ?heads \<subseteq> set xs" using head by blast
  then have inj: "inj_on pos (set ?heads)"
    using distinct by (meson distinct_map inj_on_subset)
  have "distinct ?heads"
  proof (rule distinct_concat_parts [OF assms(2), where g = g])
    show "distinct (take m (arrange (?part k)))" for k
      using part distinct_arrange by (metis distinct_map distinct_take)
    show "x \<in> set (take m (arrange (?part k))) \<Longrightarrow> g x = k" for k x
      by (auto simp: set_take_arrange [OF part])
  qed
  then have distinct_heads: "distinct (map pos ?heads)"
    using inj by (simp add: distinct_map)
  show "sorted_wrt earlier (take m (arrange ?heads))"
    by (rule sorted_wrt_take) (rule arranged [OF distinct_heads])
  show "sorted_wrt earlier (take m (arrange xs))"
    by (rule sorted_wrt_take) (rule arranged [OF distinct])
  have later: "m \<le> rank (set ?heads) x" if x: "x \<in> set xs" "m \<le> rank (set xs) x" for x
  proof (cases "{y \<in> set xs. earlier y x} \<subseteq> set ?heads")
    case True
    then have "rank (set xs) x \<le> rank (set ?heads) x"
      unfolding rank_def by (intro card_mono) auto
    with x(2) show ?thesis by simp
  next
    case False
    then obtain y where y: "y \<in> set xs" "earlier y x" "y \<notin> set ?heads" by blast
    with head [of y] have in_part: "y \<in> set (?part (g y))" "m \<le> rank (set (?part (g y))) y" by auto
    let ?h = "set (take m (arrange (?part (g y))))"
    have "?h \<subseteq> {z \<in> set ?heads. earlier z x}"
    proof
      fix z assume z: "z \<in> ?h"
      with y(1) assms(3) have "z \<in> set ?heads" by auto
      moreover have "earlier z x"
        using head_before(2) [OF part in_part z] y(2) trans by blast
      ultimately show "z \<in> {z \<in> set ?heads. earlier z x}" by simp
    qed
    then have "card ?h \<le> rank (set ?heads) x"
      unfolding rank_def by (intro card_mono) auto
    then show ?thesis using head_before(1) [OF part in_part] by simp
  qed
  show "set (take m (arrange ?heads)) = set (take m (arrange xs))"
  proof (intro set_eqI iffI)
    fix x assume "x \<in> set (take m (arrange ?heads))"
    then have "x \<in> set xs" "rank (set ?heads) x < m"
      using set_take_arrange [OF distinct_heads] \<open>set ?heads \<subseteq> set xs\<close> by auto
    then show "x \<in> set (take m (arrange xs))"
      using later [of x] by (auto simp: set_take_arrange [OF distinct] not_le [symmetric])
  next
    fix x assume "x \<in> set (take m (arrange xs))"
    then have x: "x \<in> set xs" "rank (set xs) x < m"
      using set_take_arrange [OF distinct] by auto
    then have "rank (set (?part (g x))) x < m"
      using rank_mono [of "set xs" "set (?part (g x))" x] by auto
    with x(1) have "x \<in> set ?heads" by (simp only: head)
    moreover have "rank (set ?heads) x < m"
      using rank_mono [OF _ \<open>set ?heads \<subseteq> set xs\<close>, of x] x(2) by simp
    ultimately show "x \<in> set (take m (arrange ?heads))"
      by (simp only: set_take_arrange [OF distinct_heads]) simp
  qed
qed

end

section \<open>The two directions of the feed\<close>

lemma sort_key_strict:
  fixes f :: "'a \<Rightarrow> 'k::linorder"
  assumes "distinct (map f xs)"
  shows "sorted_wrt (\<lambda>x y. f x < f y) (sort_key f xs)"
proof -
  have "mset (map f (sort_key f xs)) = mset (map f xs)" by simp
  then have "distinct (map f (sort_key f xs))"
    using assms by (metis mset_eq_imp_distinct_iff)
  then have "sorted_wrt (<) (map f (sort_key f xs))"
    by (simp add: strict_sorted_iff)
  then show ?thesis by (simp add: sorted_wrt_map)
qed

interpretation newer_first: history_order positionOf "\<lambda>k l. l < k" "in_direction False"
proof
  fix xs :: "LoadedTransaction list"
  show "mset (in_direction False xs) = mset xs" by (simp add: in_direction_def)
  assume "distinct (map positionOf xs)"
  then show "sorted_wrt (\<lambda>x y. positionOf y < positionOf x) (in_direction False xs)"
    by (simp add: in_direction_def sorted_wrt_rev sort_key_strict)
qed auto

interpretation older_first: history_order positionOf "\<lambda>k l. k < l" "in_direction True"
  by unfold_locales (auto simp: in_direction_def sort_key_strict)

lemma merge_heads_in_direction:
  assumes "distinct (map positionOf xs)" and "distinct gs" and "g ` set xs \<subseteq> set gs"
  shows "take m (in_direction newer (concat (map (\<lambda>k. take m (in_direction newer
      (filter (\<lambda>x. g x = k) xs))) gs))) = take m (in_direction newer xs)"
  using newer_first.merge_heads [OF assms] older_first.merge_heads [OF assms] by (cases newer) auto

lemma set_in_direction [simp]: "set (in_direction newer xs) = set xs"
  by (simp add: in_direction_def)

lemma length_in_direction [simp]: "length (in_direction newer xs) = length xs"
  by (simp add: in_direction_def)

lemma in_direction_Nil [simp]: "in_direction newer [] = []"
  by (simp add: in_direction_def)

lemma rev_in_direction: "rev (in_direction newer xs) = in_direction (\<not> newer) xs"
  by (simp add: in_direction_def)

lemma filter_in_direction: "filter p (in_direction newer xs) = in_direction newer (filter p xs)"
  by (auto simp: in_direction_def filter_sort simp flip: rev_filter)

lemma beyond_position:
  "beyond newer None l"
  "beyond True (Some p) l \<longleftrightarrow> p < positionOf l"
  "beyond False (Some p) l \<longleftrightarrow> positionOf l < p"
  by (cases p; auto simp: beyond_def positionOf_def Let_def less_prod_def)+

section \<open>Rows of the feed\<close>

text \<open>The ids of the history are unique, as are the ids of wallets.\<close>

definition history_ok :: "db \<Rightarrow> bool" where
  "history_ok s \<longleftrightarrow> distinct (map t_id (transactions s)) \<and> distinct (map w_id (rows (wallets s)))"

lemma load_transaction: "load s t = Some l \<Longrightarrow> lt_transaction l = t"
  by (auto simp: load_def split: option.splits)

lemma map_joined: "map lt_transaction (joined s) = filter (\<lambda>t. load s t \<noteq> None) (transactions s)"
proof -
  have "map lt_transaction (List.map_filter (load s) ts) = filter (\<lambda>t. load s t \<noteq> None) ts" for ts
    by (induction ts) (auto simp: List.map_filter_simps dest: load_transaction)
  then show ?thesis by (simp add: joined_def)
qed

lemma distinct_joined: "history_ok s \<Longrightarrow> distinct (map lt_id (joined s))"
proof -
  assume "history_ok s"
  then have "distinct (map t_id (map lt_transaction (joined s)))"
    by (simp only: map_joined history_ok_def distinct_map_filter)
  then show ?thesis by (simp add: comp_def)
qed

lemma distinct_scope_ids: "history_ok s \<Longrightarrow> distinct (map lt_id (selectionScope like sel ws s))"
  unfolding selectionScope_def by (rule distinct_map_filter) (rule distinct_joined)

lemma distinct_scope_positions:
  "history_ok s \<Longrightarrow> distinct (map positionOf (selectionScope like sel ws s))"
proof -
  assume "history_ok s"
  then have "distinct (map (snd \<circ> positionOf) (selectionScope like sel ws s))"
    using distinct_scope_ids by (simp add: comp_def positionOf_def)
  then show ?thesis by (metis distinct_map map_map)
qed

lemma distinct_selectionWallets: "history_ok s \<Longrightarrow> distinct (selectionWallets sel s)"
  by (simp add: selectionWallets_def history_ok_def Let_def distinct_map_filter split: option.split)

lemma set_scope:
  "set (selectionScope like sel ws s) \<subseteq> {l \<in> set (joined s). t_wallet_id (lt_transaction l) \<in> set ws}"
  by (auto simp: selectionScope_def Let_def)

lemma scope_branch:
  "w \<in> set ws \<Longrightarrow> selectionScope like sel [w] s =
    filter (\<lambda>l. t_wallet_id (lt_transaction l) = w) (selectionScope like sel ws s)"
  by (auto simp: selectionScope_def Let_def filter_filter intro!: filter_cong)

lemma selectionScope_Nil [simp]: "selectionScope like sel [] s = []"
  by (simp add: selectionScope_def Let_def)

lemma loadInOrder_rows:
  assumes "history_ok s" and "set ls \<subseteq> set (joined s)"
  shows "loadInOrder (map lt_id ls) s = ls"
proof -
  have "find_row (\<lambda>l'. lt_id l' = lt_id l) (filter (\<lambda>l. lt_id l \<in> set (map lt_id ls)) (joined s)) = Some l"
    if "l \<in> set ls" for l
    using that assms
    by (intro find_row_key [where key = lt_id]) (auto intro: distinct_map_filter distinct_joined)
  then show ?thesis by (simp add: loadInOrder_def map_idI)
qed

section \<open>Pages of the whole selection\<close>

text \<open>
  What a page is, without wallets and branches: the selection in history order, and a page of it
  next to a position.
\<close>

definition feed_scope ::
  "(string \<Rightarrow> string \<Rightarrow> bool) \<Rightarrow> TransactionSelection \<Rightarrow> db \<Rightarrow> LoadedTransaction list" where
  "feed_scope like sel s = selectionScope like sel (selectionWallets sel s) s"

definition feed_of ::
  "(string \<Rightarrow> string \<Rightarrow> bool) \<Rightarrow> TransactionSelection \<Rightarrow> db \<Rightarrow> LoadedTransaction list" where
  "feed_of like sel s = in_direction False (feed_scope like sel s)"

definition older_page :: "nat \<Rightarrow> FeedPosition option \<Rightarrow> LoadedTransaction list \<Rightarrow> FeedPage" where
  "older_page n p feed = (let rest = filter (\<lambda>l. \<forall>q \<in> set_option p. positionOf l < q) feed in
     \<lparr>pg_items = take n rest, pg_hasMore = (n < length rest)\<rparr>)"

definition newer_page :: "nat \<Rightarrow> FeedPosition \<Rightarrow> LoadedTransaction list \<Rightarrow> FeedPage" where
  "newer_page n p feed = (let rest = filter (\<lambda>l. p < positionOf l) feed in
     \<lparr>pg_items = drop (length rest - n) rest, pg_hasMore = (n < length rest)\<rparr>)"

lemma getFeedPage_scope:
  fixes page :: FeedPageRequest and like sel s
  assumes "history_ok s"
  defines "newer \<equiv> fp_before page \<noteq> None"
    and "position \<equiv> (case fp_before page of None \<Rightarrow> fp_after page | Some p \<Rightarrow> Some p)"
  defines "rest \<equiv> in_direction newer (filter (beyond newer position) (feed_scope like sel s))"
  shows "getFeedPage like sel page s =
    \<lparr>pg_items = (if newer then rev else id) (take (fp_limit page) rest),
     pg_hasMore = (fp_limit page < length rest)\<rparr>"
proof (cases "selectionWallets sel s = []")
  case True
  then show ?thesis by (simp add: getFeedPage_def rest_def feed_scope_def)
next
  case False
  let ?ws = "selectionWallets sel s"
  let ?xs = "filter (beyond newer position) (feed_scope like sel s)"
  let ?w = "\<lambda>l. t_wallet_id (lt_transaction l)"
  have "map (feed_branch like sel newer position (fp_limit page) s) ?ws =
      map (\<lambda>w. take (fp_limit page + 1) (in_direction newer (filter (\<lambda>l. ?w l = w) ?xs))) ?ws"
    by (auto simp: feed_branch_def feed_scope_def scope_branch [of _ ?ws] filter_filter conj_commute
        intro!: arg_cong [where f = "in_direction newer"] arg_cong [where f = "take _"] filter_cong)
  then have heads: "take (fp_limit page + 1) (in_direction newer (concat
      (map (feed_branch like sel newer position (fp_limit page) s) ?ws))) = take (fp_limit page + 1) rest"
    unfolding rest_def using set_scope
    by (simp only:) (rule merge_heads_in_direction; use assms(1) in
      \<open>fastforce simp: feed_scope_def intro: distinct_map_filter distinct_scope_positions distinct_selectionWallets\<close>)
  have rows: "set (take (fp_limit page) rest) \<subseteq> set (joined s)"
    using set_scope by (fastforce simp: rest_def feed_scope_def dest: in_set_takeD)
  have "getFeedPage like sel page s =
      (let rws = take (fp_limit page + 1) (in_direction newer (concat
           (map (feed_branch like sel newer position (fp_limit page) s) ?ws)));
         items = loadInOrder (map lt_id (take (fp_limit page) rws)) s
       in \<lparr>pg_items = (if newer then rev items else items), pg_hasMore = (fp_limit page < length rws)\<rparr>)"
    using False by (simp only: getFeedPage_def Let_def if_False newer_def position_def)
  also have "\<dots> = \<lparr>pg_items = (if newer then rev else id) (take (fp_limit page) rest),
      pg_hasMore = (fp_limit page < length rest)\<rparr>"
    unfolding heads by (simp add: Let_def loadInOrder_rows [OF assms(1) rows] min_def)
  finally show ?thesis .
qed

lemma getFeedPage_older:
  assumes "history_ok s" and "fp_before page = None"
  shows "getFeedPage like sel page s = older_page (fp_limit page) (fp_after page) (feed_of like sel s)"
proof -
  have eq: "in_direction False (filter (beyond False (fp_after page)) (feed_scope like sel s)) =
      filter (\<lambda>l. \<forall>q \<in> set_option (fp_after page). positionOf l < q) (feed_of like sel s)"
    unfolding feed_of_def filter_in_direction
    by (rule arg_cong [where f = "in_direction False"], rule filter_cong)
      (cases "fp_after page"; simp add: beyond_position)+
  show ?thesis
    unfolding getFeedPage_scope [OF assms(1)] older_page_def
    by (simp only: assms(2) option.simps simp_thms if_False eq id_apply Let_def)
qed

lemma getFeedPage_newer:
  assumes "history_ok s" and "fp_before page = Some p"
  shows "getFeedPage like sel page s = newer_page (fp_limit page) p (feed_of like sel s)"
proof -
  let ?rest = "filter (\<lambda>l. p < positionOf l) (feed_of like sel s)"
  have "in_direction True (filter (beyond True (Some p)) (feed_scope like sel s)) =
      in_direction True (filter (\<lambda>l. p < positionOf l) (feed_scope like sel s))"
    by (rule arg_cong [where f = "in_direction True"], rule filter_cong) (simp_all add: beyond_position)
  also have "\<dots> = rev ?rest"
    by (simp add: feed_of_def filter_in_direction rev_in_direction)
  finally show ?thesis
    unfolding getFeedPage_scope [OF assms(1)] newer_page_def
    by (simp only: assms(2) option.simps simp_thms if_True Let_def length_rev take_rev rev_rev_ident)
qed

section \<open>Reading on from page to page\<close>

lemma feed_sorted:
  "history_ok s \<Longrightarrow> sorted_wrt (\<lambda>x y. positionOf y < positionOf x) (feed_of like sel s)"
  unfolding feed_of_def
  by (rule newer_first.arranged) (simp add: feed_scope_def distinct_scope_positions)

lemma feed_at:
  assumes "sorted_wrt (\<lambda>x y. positionOf y < positionOf x) (xs @ l # ys)"
  shows "filter (\<lambda>l'. positionOf l' < positionOf l) (xs @ l # ys) = ys"
    and "filter (\<lambda>l'. positionOf l < positionOf l') (xs @ l # ys) = xs"
proof -
  have "\<forall>x \<in> set xs. positionOf l < positionOf x" and "\<forall>y \<in> set ys. positionOf y < positionOf l"
    using assms by (auto simp: sorted_wrt_append)
  then show "filter (\<lambda>l'. positionOf l' < positionOf l) (xs @ l # ys) = ys"
    and "filter (\<lambda>l'. positionOf l < positionOf l') (xs @ l # ys) = xs"
    by (auto simp: filter_empty_conv filter_id_conv dest: less_asym)
qed

lemma older_page_at:
  assumes "sorted_wrt (\<lambda>x y. positionOf y < positionOf x) (xs @ l # ys)"
  shows "older_page n (Some (positionOf l)) (xs @ l # ys) =
    \<lparr>pg_items = take n ys, pg_hasMore = (n < length ys)\<rparr>"
  using feed_at(1) [OF assms] by (simp add: older_page_def)

lemma newer_page_at:
  assumes "sorted_wrt (\<lambda>x y. positionOf y < positionOf x) (xs @ l # ys)"
  shows "newer_page n (positionOf l) (xs @ l # ys) =
    \<lparr>pg_items = drop (length xs - n) xs, pg_hasMore = (n < length xs)\<rparr>"
  using feed_at(2) [OF assms] by (simp add: newer_page_def)

lemma split_page:
  assumes "0 < n" and "n < length ys"
  obtains xs l where "take n ys = xs @ [l]" and "ys = xs @ l # drop n ys"
proof
  show "take n ys = take (n - 1) ys @ [ys ! (n - 1)]"
    using assms take_Suc_conv_app_nth [of "n - 1" ys] by simp
  then show "ys = take (n - 1) ys @ ys ! (n - 1) # drop n ys"
    by (metis append_Cons append_Nil append_assoc append_take_drop_id)
qed

end
