(* ===== verification/Transactions.thy ===== *)
theory Transactions
  imports FeedPages
begin

text \<open>
  \<open>modules/transactions\<close>: the checks a write applies, the view a client gets, and the service's
  operations on single transactions (\<open>transactions.service.ts\<close>, \<open>transaction-checks.ts\<close>,
  \<open>transaction-view.ts\<close>). A write is the unit of work that \<^const>\<open>runWriteTransaction\<close> runs, as
  a function of the state it holds its locks in; the feed is modelled in its own theory.
\<close>

section \<open>Checks\<close>

definition assertWalletInSpace :: "wallet option \<Rightarrow> nat \<Rightarrow> exception + wallet" where
  "assertWalletInSpace wallet spaceId = assertBelongsToSpace w_space_id wallet spaceId FORBIDDEN_WALLET"

definition assertWalletActive :: "wallet \<Rightarrow> exception + unit" where
  "assertWalletActive wallet = (if w_is_deleted wallet then Inl (api_error WALLET_DELETED BAD_REQUEST) else Inr ())"

definition assertUserCategory :: "category option \<Rightarrow> nat \<Rightarrow> exception + category" where
  "assertUserCategory category spaceId =
     and_then (assertBelongsToSpace cat_space_id category spaceId FORBIDDEN_CATEGORY) (\<lambda>c.
       if cat_is_system c then Inl (api_error FORBIDDEN_CATEGORY FORBIDDEN) else Inr c)"

definition assertCategoryActive :: "category \<Rightarrow> exception + unit" where
  "assertCategoryActive category =
     (if \<not> cat_is_active category then Inl (api_error CATEGORY_ARCHIVED BAD_REQUEST) else Inr ())"

definition assertCategoryType :: "category \<Rightarrow> TransactionType \<Rightarrow> exception + unit" where
  "assertCategoryType category transactionType =
     (if cat_transaction_type category \<noteq> transactionType
      then Inl (api_error CATEGORY_TYPE_MISMATCH BAD_REQUEST) else Inr ())"

definition assertVersion :: "transaction \<Rightarrow> nat option \<Rightarrow> exception + unit" where
  "assertVersion transaction expectedVersion = (case expectedVersion of None \<Rightarrow> Inr ()
     | Some v \<Rightarrow> if t_version transaction \<noteq> v then Inl (api_error TRANSACTION_VERSION_CONFLICT CONFLICT)
         else Inr ())"

definition assertNotSystem :: "LoadedTransaction \<Rightarrow> exception + unit" where
  "assertNotSystem l =
     (if cat_is_system (lt_category l) then Inl (api_error TRANSACTION_IS_SYSTEM BAD_REQUEST) else Inr ())"

section \<open>Views\<close>

record TransactionWallet =
  tw_id :: nat
  tw_wallet_name :: string
  tw_design :: AppColor
  tw_created_at :: int
  tw_updated_at :: int

record TransactionCategory =
  tc_id :: nat
  tc_name :: string
  tc_transaction_type :: TransactionType
  tc_icon :: CategoryIcon
  tc_color :: AppColor
  tc_is_active :: bool
  tc_is_archived :: bool
  tc_created_at :: int
  tc_updated_at :: int

record TransactionView =
  v_id :: string
  v_kind :: TransactionKind
  v_transaction_type :: TransactionType
  v_amount :: string
  v_timestamp :: int
  v_description :: "string option"
  v_version :: nat
  v_wallet :: "TransactionWallet option"
  v_category :: TransactionCategory

definition toWallet :: "wallet \<Rightarrow> TransactionWallet" where
  "toWallet w = \<lparr>tw_id = w_id w, tw_wallet_name = w_wallet_name w, tw_design = w_design w,
     tw_created_at = w_created_at w, tw_updated_at = w_updated_at w\<rparr>"

definition toCategory :: "category \<Rightarrow> TransactionCategory" where
  "toCategory c = \<lparr>tc_id = cat_id c, tc_name = cat_name c, tc_transaction_type = cat_transaction_type c,
     tc_icon = cat_icon c, tc_color = cat_color c, tc_is_active = cat_is_active c,
     tc_is_archived = (\<not> cat_is_active c), tc_created_at = cat_created_at c, tc_updated_at = cat_updated_at c\<rparr>"

definition toTransactionView :: "LoadedTransaction \<Rightarrow> TransactionView" where
  "toTransactionView l = (let t = lt_transaction l in
     \<lparr>v_id = t_id t,
      v_kind = (if cat_is_system (lt_category l) then INITIAL_BALANCE else REGULAR),
      v_transaction_type = t_transaction_type t,
      v_amount = formatMoney (t_amount t),
      v_timestamp = t_timestamp t,
      v_description = (case t_description t of None \<Rightarrow> None
         | Some d \<Rightarrow> if trim d = [] then None else Some d),
      v_version = t_version t,
      v_wallet = (if w_is_deleted (lt_wallet l) then None else Some (toWallet (lt_wallet l))),
      v_category = toCategory (lt_category l)\<rparr>)"

section \<open>Requests\<close>

text \<open>
  A description that is absent is \<open>None\<close>, one that is \<open>null\<close> is \<open>Some None\<close>. The other optional
  fields of an update are absent or have a value; the decorators refuse \<open>null\<close> for them.
\<close>

record CreateTransactionDto =
  cd_wallet_id :: nat
  cd_category_id :: nat
  cd_transaction_type :: TransactionType
  cd_amount :: string
  cd_timestamp :: string
  cd_description :: "string option option"
  cd_client_operation_id :: "string option"

record UpdateTransactionDto =
  ud_wallet_id :: "nat option"
  ud_category_id :: "nat option"
  ud_transaction_type :: "TransactionType option"
  ud_amount :: "string option"
  ud_timestamp :: "string option"
  ud_description :: "string option option"

record WriteOptions =
  wo_idempotencyKey :: "string option"
  wo_expectedVersion :: "nat option"

definition no_options :: WriteOptions where
  "no_options = \<lparr>wo_idempotencyKey = None, wo_expectedVersion = None\<rparr>"

text \<open>\<open>value ?? null\<close> for an absent or null description.\<close>

definition or_null :: "'a option option \<Rightarrow> 'a option" where
  "or_null v = (case v of None \<Rightarrow> None | Some w \<Rightarrow> w)"

text \<open>What the decorators of \<open>CreateTransactionDto\<close> accept at \<open>now\<close>.\<close>

definition valid_create :: "runtime \<Rightarrow> int \<Rightarrow> CreateTransactionDto \<Rightarrow> bool" where
  "valid_create rt now dto \<longleftrightarrow>
     isId (cd_wallet_id dto) \<and> isId (cd_category_id dto) \<and>
     isMoneyAmount (cd_amount dto) \<and> IsPositiveAmount (cd_amount dto) \<and>
     isIsoInstant rt (cd_timestamp dto) \<and> isInTimestampRange rt (cd_timestamp dto) \<and>
     IsNotInFuture rt now (cd_timestamp dto) \<and>
     IsDescription (or_null (cd_description dto)) \<and>
     (case cd_client_operation_id dto of None \<Rightarrow> True | Some o' \<Rightarrow> rt_isUUID rt o')"

definition valid_update :: "runtime \<Rightarrow> UpdateTransactionDto \<Rightarrow> bool" where
  "valid_update rt dto \<longleftrightarrow>
     isOptionalNonNull isId (ud_wallet_id dto) \<and> isOptionalNonNull isId (ud_category_id dto) \<and>
     isOptionalNonNull isMoneyAmount (ud_amount dto) \<and>
     isOptionalNonNull (\<lambda>t. isIsoInstant rt t \<and> isInTimestampRange rt t) (ud_timestamp dto) \<and>
     IsDescription (or_null (ud_description dto))"

text \<open>The JSON form of a request, what its hash is taken of.\<close>

definition js_text :: "string option \<Rightarrow> js" where
  "js_text v = (case v of None \<Rightarrow> JNull | Some s \<Rightarrow> JString s)"

definition js_field :: "('a \<Rightarrow> js) \<Rightarrow> 'a option \<Rightarrow> js" where
  "js_field f v = (case v of None \<Rightarrow> JUndefined | Some x \<Rightarrow> f x)"

definition js_type :: "TransactionType \<Rightarrow> js" where
  "js_type ty = JString (case ty of INCOME \<Rightarrow> ''income'' | EXPENSE \<Rightarrow> ''expense'')"

abbreviation js_nat :: "nat \<Rightarrow> js" where
  "js_nat n \<equiv> JNumber (of_nat n)"

definition create_payload :: "CreateTransactionDto \<Rightarrow> js" where
  "create_payload dto = JObject
     [(''wallet_id'', js_nat (cd_wallet_id dto)), (''category_id'', js_nat (cd_category_id dto)),
      (''transaction_type'', js_type (cd_transaction_type dto)), (''amount'', JString (cd_amount dto)),
      (''timestamp'', JString (cd_timestamp dto)), (''description'', js_field js_text (cd_description dto)),
      (''client_operation_id'', js_field JString (cd_client_operation_id dto))]"

definition update_payload :: "string \<Rightarrow> nat \<Rightarrow> UpdateTransactionDto \<Rightarrow> js" where
  "update_payload transactionId expectedVersion dto = JObject
     [(''transactionId'', JString transactionId), (''expectedVersion'', js_nat expectedVersion),
      (''body'', JObject
        [(''wallet_id'', js_field js_nat (ud_wallet_id dto)),
         (''category_id'', js_field js_nat (ud_category_id dto)),
         (''transaction_type'', js_field js_type (ud_transaction_type dto)),
         (''amount'', js_field JString (ud_amount dto)),
         (''timestamp'', js_field JString (ud_timestamp dto)),
         (''description'', js_field js_text (ud_description dto))])]"

definition remove_payload :: "string \<Rightarrow> nat \<Rightarrow> js" where
  "remove_payload transactionId expectedVersion = JObject
     [(''transactionId'', JString transactionId), (''expectedVersion'', js_nat expectedVersion)]"

section \<open>Results\<close>

record WalletWithBalance =
  wb_wallet :: wallet
  wb_balance :: rat

record CreateTransactionResult =
  cr_transaction :: TransactionView
  cr_wallet :: WalletWithBalance
  cr_previous_balance :: rat

record UpdatedWallet =
  uw_id :: nat
  uw_balance :: rat
  uw_is_deleted :: bool

record UpdateTransactionResult =
  ur_transaction :: TransactionView
  ur_wallets :: "UpdatedWallet list"

section \<open>Writes\<close>

text \<open>
  A decimal string on its way into a \<open>DECIMAL(10,2)\<close> column: the driver refuses one that is not a
  number or does not fit.
\<close>

definition to_column :: "string \<Rightarrow> exception + int" where
  "to_column amount = (case matchMoney amount of
       None \<Rightarrow> Inl (QueryFailedError ''ER_TRUNCATED_WRONG_VALUE'' amount)
     | Some c \<Rightarrow> if \<bar>c\<bar> \<le> MAX_MONEY_INPUT_CENTS then Inr c
         else Inl (QueryFailedError ''ER_WARN_DATA_OUT_OF_RANGE'' amount))"

definition TRANSACTION_OPERATION_SCOPE :: string where
  "TRANSACTION_OPERATION_SCOPE = ''UQ_transaction_operations_space_operation''"

definition find_operation :: "nat \<Rightarrow> string \<Rightarrow> db \<Rightarrow> transaction_operation option" where
  "find_operation spaceId operationId s =
     find_row (\<lambda>o'. op_space_id o' = spaceId \<and> op_operation_id o' = operationId) (rows (operations s))"

definition assertOperationUnused :: "nat \<Rightarrow> string \<Rightarrow> db \<Rightarrow> exception + unit" where
  "assertOperationUnused spaceId operationId s =
     (if find_operation spaceId operationId s \<noteq> None
      then Inl (api_error TRANSACTION_OPERATION_EXISTS CONFLICT) else Inr ())"

definition insert_operation :: "int \<Rightarrow> nat \<Rightarrow> string \<Rightarrow> string \<Rightarrow> db \<Rightarrow> exception + db" where
  "insert_operation now spaceId operationId transactionId s =
     (if find_operation spaceId operationId s \<noteq> None
      then Inl (duplicate_entry TRANSACTION_OPERATION_SCOPE)
      else if \<exists>o' \<in> set (rows (operations s)). op_transaction_id o' = transactionId
      then Inl (duplicate_entry ''UQ_transaction_operations_transaction'')
      else Inr (s\<lparr>operations := insert_auto (\<lambda>i. \<lparr>op_id = i, op_space_id = spaceId,
          op_operation_id = operationId, op_transaction_id = transactionId, op_created_at = now,
          op_deleted_at = None\<rparr>) (operations s)\<rparr>))"

definition recordOperation :: "int \<Rightarrow> nat \<Rightarrow> string \<Rightarrow> string \<Rightarrow> db \<Rightarrow> exception + db" where
  "recordOperation now spaceId operationId transactionId s =
     (case insert_operation now spaceId operationId transactionId s of
        Inr s' \<Rightarrow> Inr s'
      | Inl error \<Rightarrow> if isDuplicateKey error TRANSACTION_OPERATION_SCOPE
          then Inl (api_error TRANSACTION_OPERATION_EXISTS CONFLICT) else Inl error)"

definition getBalance :: "nat \<Rightarrow> db \<Rightarrow> int" where
  "getBalance walletId s = (case getBalances [walletId] s walletId of None \<Rightarrow> 0 | Some b \<Rightarrow> b)"

definition lockTransaction :: "nat \<Rightarrow> string \<Rightarrow> db \<Rightarrow> exception + LoadedTransaction" where
  "lockTransaction spaceId transactionId s =
     (let locked = head_opt (lockRows t_id [transactionId] (transactions s));
          transaction = (if locked \<noteq> None then getOneInSpace spaceId transactionId s else None)
      in assertFound transaction TRANSACTION_NOT_FOUND)"

definition insert_transaction :: "transaction \<Rightarrow> db \<Rightarrow> exception + db" where
  "insert_transaction t s = (if find_transaction (t_id t) s \<noteq> None then Inl (duplicate_entry ''PRIMARY'')
     else Inr (s\<lparr>transactions := transactions s @ [t]\<rparr>))"

text \<open>
  \<open>write\<close>, here \<open>write_unit\<close>: the caller's membership and the space are locked first, then the work runs, under its
  idempotency key when the request has one.
\<close>

definition write_unit ::
  "runtime \<Rightarrow> ('r \<Rightarrow> js) \<Rightarrow> int \<Rightarrow> nat \<Rightarrow> nat \<Rightarrow> string \<Rightarrow> string option \<Rightarrow> js \<Rightarrow>
   (db \<Rightarrow> exception + 'r \<times> db) \<Rightarrow> db \<Rightarrow> exception + 'r reply \<times> db" where
  "write_unit rt to_json now userId spaceId operation key payload work s =
     and_then (lockMembership spaceId userId s) (\<lambda>_.
     and_then (lockSpace spaceId s) (\<lambda>_.
       case key of
         None \<Rightarrow> and_then (work s) (\<lambda>(r, s'). Inr (Fresh r, s'))
       | Some k \<Rightarrow> run_idempotent (rt_claims rt) to_json
           \<lparr>sc_user_id = userId, sc_space_id = spaceId, sc_operation = operation, sc_idempotency_key = k\<rparr>
           (hashPayload (rt_digest rt) payload) now work s))"

text \<open>\<open>uuid\<close> is the id the new transaction gets.\<close>

definition create_work ::
  "runtime \<Rightarrow> int \<Rightarrow> string \<Rightarrow> nat \<Rightarrow> CreateTransactionDto \<Rightarrow> db \<Rightarrow>
   exception + CreateTransactionResult \<times> db" where
  "create_work rt now uuid spaceId dto s =
     (let operationId = map_option to_lower (cd_client_operation_id dto) in
     and_then (case operationId of None \<Rightarrow> Inr () | Some o' \<Rightarrow> assertOperationUnused spaceId o' s) (\<lambda>_.
     and_then (assertWalletInSpace (head_opt (lockRows w_id [cd_wallet_id dto] (rows (wallets s)))) spaceId) (\<lambda>wallet.
     and_then (assertWalletActive wallet) (\<lambda>_.
     and_then (assertUserCategory (head_opt (lockRows cat_id [cd_category_id dto] (rows (categories s)))) spaceId) (\<lambda>category.
     and_then (assertCategoryActive category) (\<lambda>_.
     and_then (assertCategoryType category (cd_transaction_type dto)) (\<lambda>_.
     let previousBalance = getBalance (w_id wallet) s in
     and_then (toDate rt (cd_timestamp dto)) (\<lambda>timestamp.
     and_then (to_column (cd_amount dto)) (\<lambda>amount.
     and_then (insert_transaction \<lparr>t_id = uuid, t_wallet_id = w_id wallet, t_category_id = cat_id category,
         t_transaction_type = cd_transaction_type dto, t_amount = amount, t_timestamp = timestamp,
         t_description = normalizeDescription (or_null (cd_description dto)), t_version = 1\<rparr> s) (\<lambda>s1.
     and_then (case operationId of None \<Rightarrow> Inr s1 | Some o' \<Rightarrow> recordOperation now spaceId o' uuid s1) (\<lambda>s2.
     let balance = getBalance (w_id wallet) s2 in
     and_then (assertFound (getOneInSpace spaceId uuid s2) TRANSACTION_NOT_FOUND) (\<lambda>created.
     and_then (toNumber rt balance) (\<lambda>balance_number.
     and_then (toNumber rt previousBalance) (\<lambda>previous_number.
       Inr (\<lparr>cr_transaction = toTransactionView created,
             cr_wallet = \<lparr>wb_wallet = wallet, wb_balance = balance_number\<rparr>,
             cr_previous_balance = previous_number\<rparr>, s2)))))))))))))))"

definition create ::
  "runtime \<Rightarrow> (CreateTransactionResult \<Rightarrow> js) \<Rightarrow> int \<Rightarrow> string \<Rightarrow> nat \<Rightarrow> nat \<Rightarrow> CreateTransactionDto \<Rightarrow>
   WriteOptions \<Rightarrow> db \<Rightarrow> exception + CreateTransactionResult reply \<times> db" where
  "create rt to_json now uuid userId spaceId dto options s =
     write_unit rt to_json now userId spaceId ''transactions.create'' (wo_idempotencyKey options)
       (create_payload dto) (create_work rt now uuid spaceId dto) s"

text \<open>The fields an update changes; equality is by value.\<close>

record TransactionChanges =
  tch_wallet_id :: "nat option"
  tch_category_id :: "nat option"
  tch_transaction_type :: "TransactionType option"
  tch_amount :: "string option"
  tch_timestamp :: "int option"
  tch_description :: "string option option"

definition changed :: "('a \<Rightarrow> bool) \<Rightarrow> 'a option \<Rightarrow> 'a option" where
  "changed differs v = (case v of None \<Rightarrow> None | Some x \<Rightarrow> if differs x then Some x else None)"

definition changedFields :: "runtime \<Rightarrow> transaction \<Rightarrow> UpdateTransactionDto \<Rightarrow> exception + TransactionChanges" where
  "changedFields rt original dto =
     and_then (case ud_amount dto of None \<Rightarrow> Inr None
         | Some a \<Rightarrow> and_then (parseMoney a) (\<lambda>new.
             and_then (parseMoney (formatMoney (t_amount original))) (\<lambda>old.
               Inr (if new \<noteq> old then Some a else None)))) (\<lambda>amount.
     and_then (case ud_timestamp dto of None \<Rightarrow> Inr None
         | Some d \<Rightarrow> and_then (toDate rt d) (\<lambda>new.
             Inr (if new \<noteq> t_timestamp original then Some new else None))) (\<lambda>timestamp.
     let description = normalizeDescription (or_null (ud_description dto)) in
     Inr \<lparr>tch_wallet_id = changed (\<lambda>w. w \<noteq> t_wallet_id original) (ud_wallet_id dto),
          tch_category_id = changed (\<lambda>c. c \<noteq> t_category_id original) (ud_category_id dto),
          tch_transaction_type = changed (\<lambda>ty. ty \<noteq> t_transaction_type original) (ud_transaction_type dto),
          tch_amount = amount,
          tch_timestamp = timestamp,
          tch_description = (if ud_description dto \<noteq> None \<and>
              description \<noteq> normalizeDescription (t_description original) then Some description else None)\<rparr>))"

definition no_changes :: TransactionChanges where
  "no_changes = \<lparr>tch_wallet_id = None, tch_category_id = None, tch_transaction_type = None,
     tch_amount = None, tch_timestamp = None, tch_description = None\<rparr>"

definition assertNewValues :: "int \<Rightarrow> TransactionChanges \<Rightarrow> exception + unit" where
  "assertNewValues now changes =
     and_then (case tch_amount changes of None \<Rightarrow> Inr ()
        | Some a \<Rightarrow> guard (isPositiveAmount a) (bad_field ''amount'' AMOUNT_NOT_POSITIVE)) (\<lambda>_.
      case tch_timestamp changes of None \<Rightarrow> Inr ()
        | Some d \<Rightarrow> guard (isNotInFuture d now) (bad_field ''timestamp'' TIMESTAMP_IN_FUTURE))"

definition with_change :: "'a option \<Rightarrow> ('a \<Rightarrow> 'r \<Rightarrow> 'r) \<Rightarrow> 'r \<Rightarrow> 'r" where
  "with_change v f r = (case v of None \<Rightarrow> r | Some x \<Rightarrow> f x r)"

text \<open>The update statement: the changed columns are set and the version column is bumped.\<close>

definition apply_changes :: "TransactionChanges \<Rightarrow> int option \<Rightarrow> transaction \<Rightarrow> transaction" where
  "apply_changes changes amount t =
     (with_change (tch_wallet_id changes) (\<lambda>w. t_wallet_id_update (\<lambda>_. w)) \<circ>
      with_change (tch_category_id changes) (\<lambda>c. t_category_id_update (\<lambda>_. c)) \<circ>
      with_change (tch_transaction_type changes) (\<lambda>ty. t_transaction_type_update (\<lambda>_. ty)) \<circ>
      with_change amount (\<lambda>a. t_amount_update (\<lambda>_. a)) \<circ>
      with_change (tch_timestamp changes) (\<lambda>d. t_timestamp_update (\<lambda>_. d)) \<circ>
      with_change (tch_description changes) (\<lambda>d. t_description_update (\<lambda>_. d)))
     (t\<lparr>t_version := t_version t + 1\<rparr>)"

definition update_transaction :: "string \<Rightarrow> TransactionChanges \<Rightarrow> db \<Rightarrow> exception + db" where
  "update_transaction i changes s =
     and_then (case tch_amount changes of None \<Rightarrow> Inr None | Some a \<Rightarrow> and_then (to_column a) (\<lambda>c. Inr (Some c)))
       (\<lambda>amount. Inr (s\<lparr>transactions :=
          update_rows (\<lambda>t. t_id t = i) (apply_changes changes amount) (transactions s)\<rparr>))"

definition requireVersion :: "WriteOptions \<Rightarrow> exception + nat" where
  "requireVersion options =
     need (wo_expectedVersion options) (api_error TRANSACTION_VERSION_REQUIRED PRECONDITION_REQUIRED)"

definition update_work ::
  "runtime \<Rightarrow> int \<Rightarrow> nat \<Rightarrow> string \<Rightarrow> nat \<Rightarrow> UpdateTransactionDto \<Rightarrow> db \<Rightarrow>
   exception + UpdateTransactionResult \<times> db" where
  "update_work rt now spaceId transactionId expectedVersion dto s =
     and_then (lockTransaction spaceId transactionId s) (\<lambda>original.
     and_then (assertNotSystem original) (\<lambda>_.
     and_then (assertVersion (lt_transaction original) (Some expectedVersion)) (\<lambda>_.
     and_then (changedFields rt (lt_transaction original) dto) (\<lambda>changes.
     and_then (assertNewValues now changes) (\<lambda>_.
     let walletIds = t_wallet_id (lt_transaction original) #
           (case tch_wallet_id changes of None \<Rightarrow> [] | Some w \<Rightarrow> [w]);
         locked = lockRows w_id walletIds (rows (wallets s)) in
     and_then (case tch_wallet_id changes of None \<Rightarrow> Inr ()
         | Some w \<Rightarrow> and_then (assertWalletInSpace (find_row (\<lambda>x. w_id x = w) locked) spaceId) assertWalletActive) (\<lambda>_.
     and_then (case tch_category_id changes of None \<Rightarrow> Inr (lt_category original)
         | Some c \<Rightarrow> and_then (assertUserCategory (head_opt (lockRows cat_id [c] (rows (categories s)))) spaceId)
             (\<lambda>target. and_then (assertCategoryActive target) (\<lambda>_. Inr target))) (\<lambda>category.
     and_then (if tch_category_id changes \<noteq> None \<or> tch_transaction_type changes \<noteq> None
         then assertCategoryType category (case tch_transaction_type changes of
                None \<Rightarrow> t_transaction_type (lt_transaction original) | Some ty \<Rightarrow> ty)
         else Inr ()) (\<lambda>_.
     and_then (if changes \<noteq> no_changes then update_transaction (lt_id original) changes s else Inr s) (\<lambda>s'.
     and_then (assertFound (getOneInSpace spaceId (lt_id original) s') TRANSACTION_NOT_FOUND) (\<lambda>updated.
     let balances = getBalances walletIds s' in
     and_then (map_throw (\<lambda>i. and_then (toNumber rt (case balances i of None \<Rightarrow> 0 | Some b \<Rightarrow> b)) (\<lambda>balance.
         Inr \<lparr>uw_id = i, uw_balance = balance,
              uw_is_deleted = (case find_row (\<lambda>x. w_id x = i) locked of None \<Rightarrow> False | Some x \<Rightarrow> w_is_deleted x)\<rparr>))
         walletIds) (\<lambda>ws.
       Inr (\<lparr>ur_transaction = toTransactionView updated, ur_wallets = ws\<rparr>, s'))))))))))))"

definition update ::
  "runtime \<Rightarrow> (UpdateTransactionResult \<Rightarrow> js) \<Rightarrow> int \<Rightarrow> nat \<Rightarrow> nat \<Rightarrow> string \<Rightarrow> UpdateTransactionDto \<Rightarrow>
   WriteOptions \<Rightarrow> db \<Rightarrow> exception + UpdateTransactionResult reply \<times> db" where
  "update rt to_json now userId spaceId transactionId dto options s =
     and_then (requireVersion options) (\<lambda>expectedVersion.
       write_unit rt to_json now userId spaceId ''transactions.update'' (wo_idempotencyKey options)
         (update_payload transactionId expectedVersion dto)
         (update_work rt now spaceId transactionId expectedVersion dto) s)"

definition remove_work :: "int \<Rightarrow> nat \<Rightarrow> string \<Rightarrow> nat \<Rightarrow> db \<Rightarrow> exception + bool \<times> db" where
  "remove_work now spaceId transactionId expectedVersion s =
     and_then (lockTransaction spaceId transactionId s) (\<lambda>transaction.
     and_then (assertNotSystem transaction) (\<lambda>_.
     and_then (assertVersion (lt_transaction transaction) (Some expectedVersion)) (\<lambda>_.
       Inr (True, s\<lparr>transactions := delete_rows (\<lambda>t. t_id t = lt_id transaction) (transactions s),
          operations := (operations s)\<lparr>rows := update_rows (\<lambda>o'. op_transaction_id o' = lt_id transaction)
            (\<lambda>o'. o'\<lparr>op_deleted_at := Some now\<rparr>) (rows (operations s))\<rparr>\<rparr>))))"

definition remove_transaction ::
  "runtime \<Rightarrow> (bool \<Rightarrow> js) \<Rightarrow> int \<Rightarrow> nat \<Rightarrow> nat \<Rightarrow> string \<Rightarrow> WriteOptions \<Rightarrow> db \<Rightarrow>
   exception + bool reply \<times> db" where
  "remove_transaction rt to_json now userId spaceId transactionId options s =
     and_then (requireVersion options) (\<lambda>expectedVersion.
       write_unit rt to_json now userId spaceId ''transactions.delete'' (wo_idempotencyKey options)
         (remove_payload transactionId expectedVersion)
         (remove_work now spaceId transactionId expectedVersion) s)"

section \<open>Reads\<close>

definition getLatestView :: "nat \<Rightarrow> nat \<Rightarrow> db \<Rightarrow> exception + TransactionView option" where
  "getLatestView userId spaceId s =
     and_then (assertMembership spaceId userId None s) (\<lambda>_.
       Inr (map_option toTransactionView (getLatest spaceId s)))"

definition getById :: "nat \<Rightarrow> nat \<Rightarrow> string \<Rightarrow> db \<Rightarrow> exception + TransactionView" where
  "getById userId spaceId transactionId s =
     and_then (assertMembership spaceId userId None s) (\<lambda>_.
     and_then (assertFound (getOneInSpace spaceId transactionId s) TRANSACTION_NOT_FOUND) (\<lambda>t.
       Inr (toTransactionView t)))"

record TransactionOperationView =
  ov_operation_id :: string
  ov_status :: TransactionOperationStatus
  ov_transaction_id :: string
  ov_created_at :: int
  ov_deleted_at :: "int option"
  ov_transaction :: "TransactionView option"

definition getOperation ::
  "runtime \<Rightarrow> nat \<Rightarrow> nat \<Rightarrow> string \<Rightarrow> db \<Rightarrow> exception + TransactionOperationView" where
  "getOperation rt userId spaceId operationId s =
     and_then (assertMembership spaceId userId None s) (\<lambda>_.
     and_then (guard (rt_isUUID rt operationId) (api_error TRANSACTION_OPERATION_NOT_FOUND STATUS_NOT_FOUND)) (\<lambda>_.
     and_then (need (find_operation spaceId (to_lower operationId) s)
         (api_error TRANSACTION_OPERATION_NOT_FOUND STATUS_NOT_FOUND)) (\<lambda>operation.
     let transaction = getOneInSpace spaceId (op_transaction_id operation) s in
       Inr \<lparr>ov_operation_id = op_operation_id operation,
            ov_status = (if transaction \<noteq> None then APPLIED else DELETED),
            ov_transaction_id = op_transaction_id operation,
            ov_created_at = op_created_at operation,
            ov_deleted_at = (if transaction \<noteq> None then None else op_deleted_at operation),
            ov_transaction = map_option toTransactionView transaction\<rparr>)))"

end
