(* ===== verification/Feed.thy ===== *)
theory Feed
  imports Transactions
begin

text \<open>
  The feed of \<open>modules/transactions\<close>: its cursors (\<open>feed-cursor.ts\<close>), its query DTO
  (\<open>dto/transaction-feed-query.dto.ts\<close>) and \<open>getFeed\<close>, \<open>count\<close> and the readers behind them
  (\<open>transactions.service.ts\<close>). The reads of one response see one snapshot, so they are functions of
  one state.
\<close>

section \<open>The calendar\<close>

text \<open>
  A calendar date is the number of its day, counted from 1970-01-01. What luxon knows of time zones
  is a parameter: the local date at an instant, the first instant of a local day, and a date's text.
\<close>

record calendar =
  cal_dateAt :: "int \<Rightarrow> string \<Rightarrow> int"
  cal_startOfDay :: "int \<Rightarrow> string \<Rightarrow> int"
  cal_format :: "int \<Rightarrow> string"

definition endOfDay :: "'a calendar_scheme \<Rightarrow> int \<Rightarrow> string \<Rightarrow> int" where
  "endOfDay cal date timeZone = cal_startOfDay cal (date + 1) timeZone - 1"

section \<open>Cursors\<close>

text \<open>
  \<open>cu_pack\<close> is \<open>JSON.stringify\<close> and base64url, \<open>cu_unpack\<close> base64url and \<open>JSON.parse\<close>, absent where
  they throw, and \<open>cu_digest\<close> the base64url SHA-256 of a value's JSON text.
\<close>

record cursor_runtime =
  cu_pack :: "js \<Rightarrow> string"
  cu_unpack :: "string \<Rightarrow> js option"
  cu_digest :: "js \<Rightarrow> string"

definition FEED_CURSOR_VERSION :: nat where "FEED_CURSOR_VERSION = 1"
definition FEED_CURSOR_MAX_LENGTH :: nat where "FEED_CURSOR_MAX_LENGTH = 256"

datatype FeedDirection = Older | Newer

record FeedCursor =
  fc_direction :: FeedDirection
  fc_position :: FeedPosition

abbreviation js_int :: "int \<Rightarrow> js" where
  "js_int n \<equiv> JNumber (of_int n)"

definition js_or_null :: "('a \<Rightarrow> js) \<Rightarrow> 'a option \<Rightarrow> js" where
  "js_or_null f v = (case v of None \<Rightarrow> JNull | Some x \<Rightarrow> f x)"

definition js_kind :: "TransactionKind \<Rightarrow> js" where
  "js_kind k = JString (case k of REGULAR \<Rightarrow> ''regular'' | INITIAL_BALANCE \<Rightarrow> ''initial_balance'')"

definition selectionDigest :: "cursor_runtime \<Rightarrow> TransactionSelection \<Rightarrow> string \<Rightarrow> string" where
  "selectionDigest cu selection timeZone =
     (let filters = ts_filters selection in
      cu_digest cu (JArray
        [js_nat (ts_spaceId selection), js_int (ts_from selection), js_int (ts_to selection),
         JString timeZone,
         (case tf_search filters of None \<Rightarrow> JNull | Some q \<Rightarrow> if trim q = [] then JNull else JString (trim q)),
         js_or_null js_type (tf_transactionType filters), js_or_null js_kind (tf_kind filters),
         js_or_null js_nat (tf_categoryId filters), js_or_null js_nat (tf_walletId filters)]))"

definition direction_text :: "FeedDirection \<Rightarrow> string" where
  "direction_text d = (case d of Older \<Rightarrow> ''older'' | Newer \<Rightarrow> ''newer'')"

definition cursor_payload :: "FeedCursor \<Rightarrow> string \<Rightarrow> js" where
  "cursor_payload cursor digest = JObject
     [(''v'', js_nat FEED_CURSOR_VERSION), (''d'', JString (direction_text (fc_direction cursor))),
      (''t'', js_int (fst (fc_position cursor))), (''i'', JString (snd (fc_position cursor))),
      (''s'', JString digest)]"

definition encodeFeedCursor :: "cursor_runtime \<Rightarrow> FeedCursor \<Rightarrow> string \<Rightarrow> string" where
  "encodeFeedCursor cu cursor digest = cu_pack cu (cursor_payload cursor digest)"

definition cursorError :: "string \<Rightarrow> exception" where
  "cursorError error = bad_field ''cursor'' error"

text \<open>\<open>/^[A-Za-z0-9_-]+$/\<close>\<close>

definition is_base64url_char :: "char \<Rightarrow> bool" where
  "is_base64url_char c \<longleftrightarrow> is_digit c \<or> (let n = (of_char c :: nat) in
     65 \<le> n \<and> n \<le> 90 \<or> 97 \<le> n \<and> n \<le> 122 \<or> n = 95 \<or> n = 45)"

definition parsePayload :: "cursor_runtime \<Rightarrow> string \<Rightarrow> (string \<times> js) list option" where
  "parsePayload cu cursor =
     (if FEED_CURSOR_MAX_LENGTH < length cursor \<or> cursor = [] \<or> \<not> list_all is_base64url_char cursor then None
      else case cu_unpack cu cursor of Some (JObject payload) \<Rightarrow> Some payload | _ \<Rightarrow> None)"

text \<open>A number that is a safe integer, and a string, of a payload.\<close>

definition safe_integer :: "js option \<Rightarrow> int option" where
  "safe_integer v = (case v of Some (JNumber n) \<Rightarrow>
       if of_int \<lfloor>n\<rfloor> = n \<and> \<bar>\<lfloor>n\<rfloor>\<bar> \<le> 9007199254740991 then Some \<lfloor>n\<rfloor> else None | _ \<Rightarrow> None)"

definition string_of :: "js option \<Rightarrow> string option" where
  "string_of v = (case v of Some (JString s) \<Rightarrow> Some s | _ \<Rightarrow> None)"

definition isValidPayload :: "runtime \<Rightarrow> (string \<times> js) list \<Rightarrow> bool" where
  "isValidPayload rt payload \<longleftrightarrow>
     length (dedup (map fst payload)) = 5 \<and>
     (map_of payload ''d'' = Some (JString ''older'') \<or> map_of payload ''d'' = Some (JString ''newer'')) \<and>
     (case safe_integer (map_of payload ''t'') of None \<Rightarrow> False
        | Some t \<Rightarrow> TIMESTAMP_MIN \<le> t \<and> t \<le> STORED_TIMESTAMP_MAX) \<and>
     (case string_of (map_of payload ''i'') of None \<Rightarrow> False | Some i \<Rightarrow> rt_isUUID rt i) \<and>
     string_of (map_of payload ''s'') \<noteq> None"

definition decodeFeedCursor :: "runtime \<Rightarrow> cursor_runtime \<Rightarrow> string \<Rightarrow> string \<Rightarrow> exception + FeedCursor" where
  "decodeFeedCursor rt cu cursor digest =
     (case parsePayload cu cursor of
        None \<Rightarrow> Inl (cursorError ''cursor is malformed'')
      | Some payload \<Rightarrow>
          if map_of payload ''v'' \<noteq> Some (js_nat FEED_CURSOR_VERSION) \<or> \<not> isValidPayload rt payload
          then Inl (cursorError ''cursor is malformed'')
          else if map_of payload ''s'' \<noteq> Some (JString digest)
          then Inl (cursorError ''cursor does not belong to this query'')
          else Inr \<lparr>fc_direction = (if map_of payload ''d'' = Some (JString ''older'') then Older else Newer),
             fc_position = (the (safe_integer (map_of payload ''t'')), the (string_of (map_of payload ''i'')))\<rparr>)"

section \<open>Requests\<close>

definition FEED_DEFAULT_LIMIT :: nat where "FEED_DEFAULT_LIMIT = 50"
definition FEED_MAX_LIMIT :: nat where "FEED_MAX_LIMIT = 100"

record TransactionFeedQueryDto =
  fq_from :: string
  fq_to :: string
  fq_time_zone :: string
  fq_q :: "string option"
  fq_limit :: nat
  fq_cursor :: "string option"
  fq_around_id :: "string option"
  fq_transaction_type :: "TransactionType option"
  fq_kind :: "TransactionKind option"
  fq_category_id :: "nat option"
  fq_wallet_id :: "nat option"

text \<open>What the DTO's decorators accept, after their transformations; \<open>zone\<close> is \<open>resolveTimeZone\<close>.\<close>

definition valid_feed_query :: "runtime \<Rightarrow> (string \<Rightarrow> string option) \<Rightarrow> TransactionFeedQueryDto \<Rightarrow> bool" where
  "valid_feed_query rt zone query \<longleftrightarrow>
     isIsoInstant rt (fq_from query) \<and> isIsoInstant rt (fq_to query) \<and> zone (fq_time_zone query) \<noteq> None \<and>
     isOptionalNonNull isSearchWithinLimit (fq_q query) \<and>
     1 \<le> fq_limit query \<and> fq_limit query \<le> FEED_MAX_LIMIT \<and>
     isOptionalNonNull (\<lambda>c. c \<noteq> [] \<and> length c \<le> FEED_CURSOR_MAX_LENGTH) (fq_cursor query) \<and>
     isOptionalNonNull isId (fq_category_id query) \<and> isOptionalNonNull isId (fq_wallet_id query)"

definition toFeedSelection :: "runtime \<Rightarrow> nat \<Rightarrow> TransactionFeedQueryDto \<Rightarrow> exception + TransactionSelection" where
  "toFeedSelection rt spaceId query =
     and_then (toDate rt (fq_from query)) (\<lambda>from.
     and_then (toDate rt (fq_to query)) (\<lambda>to.
       Inr \<lparr>ts_spaceId = spaceId, ts_from = from, ts_to = to,
            ts_filters = \<lparr>tf_transactionType = fq_transaction_type query, tf_kind = fq_kind query,
              tf_categoryId = fq_category_id query, tf_walletId = fq_wallet_id query,
              tf_search = fq_q query\<rparr>\<rparr>))"

definition getUserCategory :: "nat \<Rightarrow> nat \<Rightarrow> db \<Rightarrow> exception + category" where
  "getUserCategory spaceId categoryId s = assertUserCategory (find_category categoryId s) spaceId"

definition getActiveWallet :: "nat \<Rightarrow> nat \<Rightarrow> db \<Rightarrow> exception + wallet" where
  "getActiveWallet spaceId walletId s =
     and_then (assertWalletInSpace (find_wallet walletId s) spaceId) (\<lambda>wallet.
       if w_is_deleted wallet then Inl (api_error FORBIDDEN_WALLET FORBIDDEN) else Inr wallet)"

definition checkHistoryQuery ::
  "nat \<Rightarrow> nat \<Rightarrow> int \<Rightarrow> int \<Rightarrow> TransactionFilters \<Rightarrow> db \<Rightarrow> exception + unit" where
  "checkHistoryQuery userId spaceId from to filters s =
     and_then (guard (\<not> to < from) (bad_field ''from'' ''from must not be after to'')) (\<lambda>_.
     and_then (assertMembership spaceId userId None s) (\<lambda>_.
     and_then (case tf_categoryId filters of None \<Rightarrow> Inr ()
         | Some c \<Rightarrow> and_then (getUserCategory spaceId c s) (\<lambda>_. Inr ())) (\<lambda>_.
       case tf_walletId filters of None \<Rightarrow> Inr ()
         | Some w \<Rightarrow> and_then (getActiveWallet spaceId w s) (\<lambda>_. Inr ()))))"

definition count_transactions ::
  "(string \<Rightarrow> string \<Rightarrow> bool) \<Rightarrow> nat \<Rightarrow> nat \<Rightarrow> int \<Rightarrow> int \<Rightarrow> TransactionFilters \<Rightarrow> db \<Rightarrow> exception + nat" where
  "count_transactions like userId spaceId from to filters s =
     and_then (checkHistoryQuery userId spaceId from to filters s) (\<lambda>_.
       Inr (countForAllWallets like
         \<lparr>ts_spaceId = spaceId, ts_from = from, ts_to = to, ts_filters = filters\<rparr> s))"

section \<open>Reading a window of the feed\<close>

record FeedWindow =
  fw_items :: "LoadedTransaction list"
  fw_hasOlder :: bool
  fw_hasNewer :: bool

abbreviation page_at :: "nat \<Rightarrow> FeedPosition option \<Rightarrow> FeedPosition option \<Rightarrow> FeedPageRequest" where
  "page_at limit after' before' \<equiv> \<lparr>fp_limit = limit, fp_after = after', fp_before = before'\<rparr>"

definition readFeedPage ::
  "(string \<Rightarrow> string \<Rightarrow> bool) \<Rightarrow> TransactionSelection \<Rightarrow> nat \<Rightarrow> FeedCursor option \<Rightarrow> db \<Rightarrow> FeedWindow" where
  "readFeedPage like selection limit cursor s =
     (let newer = (case cursor of None \<Rightarrow> False | Some c \<Rightarrow> fc_direction c = Newer);
          position = map_option fc_position cursor;
          page = getFeedPage like selection
            (if newer then page_at limit None position else page_at limit position None) s
      in if pg_items page = [] then \<lparr>fw_items = [], fw_hasOlder = False, fw_hasNewer = False\<rparr>
         else if cursor = None
           then \<lparr>fw_items = pg_items page, fw_hasOlder = pg_hasMore page, fw_hasNewer = False\<rparr>
         else let edge = (if newer then page_at 0 (Some (positionOf (last (pg_items page)))) None
                 else page_at 0 None (Some (positionOf (hd (pg_items page)))));
               beyondEdge = pg_hasMore (getFeedPage like selection edge s)
           in if newer
              then \<lparr>fw_items = pg_items page, fw_hasOlder = beyondEdge, fw_hasNewer = pg_hasMore page\<rparr>
              else \<lparr>fw_items = pg_items page, fw_hasOlder = pg_hasMore page, fw_hasNewer = beyondEdge\<rparr>)"

definition readFeedAround ::
  "(string \<Rightarrow> string \<Rightarrow> bool) \<Rightarrow> TransactionSelection \<Rightarrow> nat \<Rightarrow> string \<Rightarrow> db \<Rightarrow> exception + FeedWindow" where
  "readFeedAround like selection limit transactionId s =
     and_then (assertFound (getOneInSpace (ts_spaceId selection) transactionId s) TRANSACTION_NOT_FOUND) (\<lambda>target.
     and_then (need (findFeedPosition like selection transactionId s)
         (api_error TRANSACTION_NOT_IN_FEED STATUS_NOT_FOUND)) (\<lambda>position.
     let side = limit - 1;
         newer = getFeedPage like selection (page_at side None (Some position)) s;
         older = getFeedPage like selection (page_at side (Some position) None) s;
         newerCount = min (length (pg_items newer)) (max (side div 2) (side - length (pg_items older)));
         olderCount = min (length (pg_items older)) (side - newerCount)
     in Inr \<lparr>fw_items = drop (length (pg_items newer) - newerCount) (pg_items newer) @ [target] @
               take olderCount (pg_items older),
             fw_hasOlder = (pg_hasMore older \<or> olderCount < length (pg_items older)),
             fw_hasNewer = (pg_hasMore newer \<or> newerCount < length (pg_items newer))\<rparr>))"

text \<open>\<open>new Map(entries)\<close>: a key keeps its first place and its last value.\<close>

fun map_entries :: "('k \<times> 'v) list \<Rightarrow> ('k \<times> 'v) list" where
  "map_entries [] = []"
| "map_entries ((k, v) # es) = (let rest = map_entries es in
     (k, (case map_of rest k of None \<Rightarrow> v | Some v' \<Rightarrow> v')) # filter (\<lambda>(k', _). k' \<noteq> k) rest)"

record FeedDayTotal =
  dt_date :: string
  dt_net :: string

definition readFeedDayTotals ::
  "(string \<Rightarrow> string \<Rightarrow> bool) \<Rightarrow> calendar \<Rightarrow> TransactionSelection \<Rightarrow> LoadedTransaction list \<Rightarrow> string \<Rightarrow> db \<Rightarrow>
   FeedDayTotal list" where
  "readFeedDayTotals like cal selection items timeZone s =
     (let days = map_entries (map (\<lambda>item.
            let day = cal_dateAt cal (t_timestamp (lt_transaction item)) timeZone
            in (cal_format cal day, day)) items);
          nets = getFeedIntervalNets like selection
            (map (\<lambda>(_, day). (cal_startOfDay cal day timeZone, endOfDay cal day timeZone)) days) s
      in map (\<lambda>((date, _), net). \<lparr>dt_date = date, dt_net = formatMoney net\<rparr>) (zip days nets))"

record TransactionFeed =
  tf_items :: "TransactionView list"
  tf_next_cursor :: "string option"
  tf_previous_cursor :: "string option"
  tf_count :: nat
  tf_income :: string
  tf_expense :: string
  tf_day_totals :: "FeedDayTotal list"

definition getFeed ::
  "runtime \<Rightarrow> cursor_runtime \<Rightarrow> calendar \<Rightarrow> (string \<Rightarrow> string option) \<Rightarrow> (string \<Rightarrow> string \<Rightarrow> bool) \<Rightarrow>
   nat \<Rightarrow> nat \<Rightarrow> TransactionFeedQueryDto \<Rightarrow> db \<Rightarrow> exception + TransactionFeed" where
  "getFeed rt cu cal zone like userId spaceId query s =
     and_then (toFeedSelection rt spaceId query) (\<lambda>selection.
     let timeZone = the (zone (fq_time_zone query));
         digest = selectionDigest cu selection timeZone in
     and_then (guard (\<not> (fq_cursor query \<noteq> None \<and> fq_around_id query \<noteq> None))
         (bad_field ''cursor'' ''cursor and around_id cannot be used together'')) (\<lambda>_.
     and_then (case fq_cursor query of None \<Rightarrow> Inr None
         | Some c \<Rightarrow> and_then (decodeFeedCursor rt cu c digest) (\<lambda>fc. Inr (Some fc))) (\<lambda>cursor.
     and_then (checkHistoryQuery userId spaceId (ts_from selection) (ts_to selection) (ts_filters selection) s) (\<lambda>_.
     and_then (case fq_around_id query of None \<Rightarrow> Inr ()
         | Some i \<Rightarrow> guard (rt_isUUID rt i) (api_error TRANSACTION_NOT_FOUND STATUS_NOT_FOUND)) (\<lambda>_.
     and_then (case fq_around_id query of
           None \<Rightarrow> Inr (readFeedPage like selection (fq_limit query) cursor s)
         | Some i \<Rightarrow> readFeedAround like selection (fq_limit query) i s) (\<lambda>window.
     let empty = (cursor = None \<and> fw_items window = []);
         summary = (if empty then \<lparr>fs_count = 0, fs_income = 0, fs_expense = 0\<rparr>
           else getFeedSummary like selection s);
         dayTotals = (if empty then [] else readFeedDayTotals like cal selection (fw_items window) timeZone s)
     in Inr \<lparr>tf_items = map toTransactionView (fw_items window),
             tf_next_cursor = (if fw_hasOlder window
               then Some (encodeFeedCursor cu \<lparr>fc_direction = Older,
                 fc_position = positionOf (last (fw_items window))\<rparr> digest) else None),
             tf_previous_cursor = (if fw_hasNewer window
               then Some (encodeFeedCursor cu \<lparr>fc_direction = Newer,
                 fc_position = positionOf (hd (fw_items window))\<rparr> digest) else None),
             tf_count = fs_count summary, tf_income = formatMoney (fs_income summary),
             tf_expense = formatMoney (fs_expense summary), tf_day_totals = dayTotals\<rparr>))))))"

end
