(* ===== verification/TransactionFacts.thy ===== *)
theory TransactionFacts
  imports Transactions
begin

text \<open>
  What the writes of \<open>Transactions\<close> guarantee: their effect on rows and balances, the integrity of
  the history, client operations at most once, and versions that stop a write based on a stale read.
\<close>

section \<open>Inversion of the checks\<close>

lemma assertWalletInSpace_eq [result_iffs]:
  "assertWalletInSpace x sp = Inr w \<longleftrightarrow> x = Some w \<and> w_space_id w = sp"
  by (simp add: assertWalletInSpace_def assertBelongsToSpace_eq_Inr)

lemma assertWalletActive_eq [result_iffs]: "assertWalletActive w = Inr u \<longleftrightarrow> \<not> w_is_deleted w"
  by (simp add: assertWalletActive_def)

lemma assertUserCategory_eq [result_iffs]:
  "assertUserCategory x sp = Inr c \<longleftrightarrow> x = Some c \<and> cat_space_id c = sp \<and> \<not> cat_is_system c"
  by (auto simp: assertUserCategory_def and_then_eq_Inr assertBelongsToSpace_eq_Inr split: if_splits)

lemma assertCategoryActive_eq [result_iffs]: "assertCategoryActive c = Inr u \<longleftrightarrow> cat_is_active c"
  by (simp add: assertCategoryActive_def)

lemma assertCategoryType_eq [result_iffs]:
  "assertCategoryType c ty = Inr u \<longleftrightarrow> cat_transaction_type c = ty"
  by (simp add: assertCategoryType_def)

lemma assertVersion_eq [result_iffs]:
  "assertVersion t v = Inr u \<longleftrightarrow> (\<forall>n. v = Some n \<longrightarrow> t_version t = n)"
  by (auto simp: assertVersion_def split: option.splits)

lemma assertNotSystem_eq [result_iffs]:
  "assertNotSystem l = Inr u \<longleftrightarrow> \<not> cat_is_system (lt_category l)"
  by (simp add: assertNotSystem_def)

lemma requireVersion_eq [result_iffs]: "requireVersion opt = Inr v \<longleftrightarrow> wo_expectedVersion opt = Some v"
  by (simp add: requireVersion_def need_eq_Inr)

lemma head_lockRows_in:
  "head_opt (lockRows key [k] rs) = Some r \<Longrightarrow> r \<in> set rs \<and> key r = k"
  using head_opt_Some [of "lockRows key [k] rs" r] set_lockRows [of key "[k]" rs] by auto

lemma to_column_eq [result_iffs]:
  "to_column a = Inr c \<longleftrightarrow> matchMoney a = Some c \<and> \<bar>c\<bar> \<le> MAX_MONEY_INPUT_CENTS"
  by (auto simp: to_column_def split: option.splits)

lemma insert_transaction_eq [result_iffs]:
  "insert_transaction t s = Inr s' \<longleftrightarrow>
    find_transaction (t_id t) s = None \<and> s' = s\<lparr>transactions := transactions s @ [t]\<rparr>"
  by (auto simp: insert_transaction_def)

definition operation_row :: "int \<Rightarrow> nat \<Rightarrow> string \<Rightarrow> string \<Rightarrow> nat \<Rightarrow> transaction_operation" where
  "operation_row now spaceId operationId transactionId i = \<lparr>op_id = i, op_space_id = spaceId,
     op_operation_id = operationId, op_transaction_id = transactionId, op_created_at = now,
     op_deleted_at = None\<rparr>"

lemma recordOperation_eq [result_iffs]:
  "recordOperation now sp o' i s = Inr s' \<longleftrightarrow>
    find_operation sp o' s = None \<and> (\<forall>r \<in> set (rows (operations s)). op_transaction_id r \<noteq> i) \<and>
    s' = s\<lparr>operations := insert_auto (operation_row now sp o' i) (operations s)\<rparr>"
  by (auto simp: recordOperation_def insert_operation_def operation_row_def [abs_def] split: if_splits)

lemma getBalance_eq [simp]: "getBalance w s = wallet_balance w s"
  by (simp add: getBalance_def getBalances_eq)

section \<open>Loaded rows\<close>

lemma load_eq:
  "load s t = Some l \<longleftrightarrow> lt_transaction l = t \<and> find_wallet (t_wallet_id t) s = Some (lt_wallet l) \<and>
    find_category (t_category_id t) s = Some (lt_category l)"
  by (cases l) (auto simp: load_def split: option.splits)

lemma set_joined:
  "l \<in> set (joined s) \<longleftrightarrow> lt_transaction l \<in> set (transactions s) \<and> load s (lt_transaction l) = Some l"
proof -
  have "l \<in> set (joined s) \<longleftrightarrow> (\<exists>t \<in> set (transactions s). load s t = Some l)"
    by (auto simp: joined_def List.map_filter_def image_iff)
  then show ?thesis by (auto simp: load_eq)
qed

lemma getOneInSpace_Some:
  assumes "getOneInSpace sp i s = Some l"
  shows "lt_transaction l \<in> set (transactions s)" and "lt_id l = i"
    and "find_wallet (t_wallet_id (lt_transaction l)) s = Some (lt_wallet l)"
    and "find_category (t_category_id (lt_transaction l)) s = Some (lt_category l)"
    and "w_space_id (lt_wallet l) = sp"
  using find_row_Some [OF assms [unfolded getOneInSpace_def]] by (auto simp: set_joined load_eq)

lemma getOneInSpace_intro:
  assumes "history_ok s" and "l \<in> set (joined s)" and "w_space_id (lt_wallet l) = sp"
  shows "getOneInSpace sp (lt_id l) s = Some l"
proof -
  have "find_row (\<lambda>l'. lt_id l' = lt_id l \<and> w_space_id (lt_wallet l') = sp) (joined s) =
      find_row (\<lambda>l'. lt_id l' = lt_id l) (joined s)"
  proof (rule find_row_cong)
    fix l' assume "l' \<in> set (joined s)"
    with assms show "(lt_id l' = lt_id l \<and> w_space_id (lt_wallet l') = sp) = (lt_id l' = lt_id l)"
      using distinct_key_eq [OF distinct_joined [OF assms(1)]] by blast
  qed
  also have "\<dots> = Some l"
    by (rule find_row_key [OF distinct_joined [OF assms(1)] assms(2)])
  finally show ?thesis by (simp add: getOneInSpace_def)
qed

lemma lockTransaction_eq [result_iffs]:
  "lockTransaction sp i s = Inr l \<longleftrightarrow> getOneInSpace sp i s = Some l"
proof
  assume "getOneInSpace sp i s = Some l"
  then have "lt_transaction l \<in> set (lockRows t_id [i] (transactions s))"
    using getOneInSpace_Some [of sp i s l] by (simp add: set_lockRows)
  then show "lockTransaction sp i s = Inr l"
    using \<open>getOneInSpace sp i s = Some l\<close>
    by (cases "lockRows t_id [i] (transactions s)") (auto simp: lockTransaction_def)
qed (auto simp: lockTransaction_def assertFound_eq_Inr split: if_splits)

section \<open>The effect of a create\<close>

text \<open>The row a create inserts.\<close>

definition new_transaction :: "string \<Rightarrow> CreateTransactionDto \<Rightarrow> int \<Rightarrow> int \<Rightarrow> transaction" where
  "new_transaction uuid dto timestamp amount = \<lparr>t_id = uuid, t_wallet_id = cd_wallet_id dto,
     t_category_id = cd_category_id dto, t_transaction_type = cd_transaction_type dto,
     t_amount = amount, t_timestamp = timestamp,
     t_description = normalizeDescription (or_null (cd_description dto)), t_version = 1\<rparr>"

abbreviation operation_of :: "CreateTransactionDto \<Rightarrow> string option" where
  "operation_of dto \<equiv> map_option to_lower (cd_client_operation_id dto)"

definition after_create ::
  "int \<Rightarrow> string \<Rightarrow> nat \<Rightarrow> CreateTransactionDto \<Rightarrow> int \<Rightarrow> int \<Rightarrow> db \<Rightarrow> db" where
  "after_create now uuid sp dto timestamp amount s =
     (let s1 = s\<lparr>transactions := transactions s @ [new_transaction uuid dto timestamp amount]\<rparr> in
      case operation_of dto of None \<Rightarrow> s1
      | Some o' \<Rightarrow> s1\<lparr>operations := insert_auto (operation_row now sp o' uuid) (operations s)\<rparr>)"

text \<open>When a create is allowed, and with which wallet, category, timestamp and amount.\<close>

definition create_allowed ::
  "runtime \<Rightarrow> string \<Rightarrow> nat \<Rightarrow> CreateTransactionDto \<Rightarrow> db \<Rightarrow> wallet \<Rightarrow> category \<Rightarrow> int \<Rightarrow> int \<Rightarrow> bool" where
  "create_allowed rt uuid sp dto s w c timestamp amount \<longleftrightarrow>
     (\<forall>o'. operation_of dto = Some o' \<longrightarrow> find_operation sp o' s = None \<and>
        (\<forall>r \<in> set (rows (operations s)). op_transaction_id r \<noteq> uuid)) \<and>
     head_opt (lockRows w_id [cd_wallet_id dto] (rows (wallets s))) = Some w \<and> w_space_id w = sp \<and>
     \<not> w_is_deleted w \<and>
     head_opt (lockRows cat_id [cd_category_id dto] (rows (categories s))) = Some c \<and> cat_space_id c = sp \<and>
     \<not> cat_is_system c \<and> cat_is_active c \<and> cat_transaction_type c = cd_transaction_type dto \<and>
     parseIsoDate rt (cd_timestamp dto) = Some timestamp \<and>
     matchMoney (cd_amount dto) = Some amount \<and> \<bar>amount\<bar> \<le> MAX_MONEY_INPUT_CENTS \<and>
     find_transaction uuid s = None"

lemma create_workE:
  assumes "create_work rt now uuid sp dto s = Inr (r, s')"
  obtains w c timestamp amount created where
    "create_allowed rt uuid sp dto s w c timestamp amount"
    and "s' = after_create now uuid sp dto timestamp amount s"
    and "getOneInSpace sp uuid s' = Some created"
    and "cr_transaction r = toTransactionView created" and "wb_wallet (cr_wallet r) = w"
    and "toNumber rt (wallet_balance (w_id w) s') = Inr (wb_balance (cr_wallet r))"
    and "toNumber rt (wallet_balance (w_id w) s) = Inr (cr_previous_balance r)"
proof -
  let ?row = "\<lambda>w c timestamp amount. \<lparr>t_id = uuid, t_wallet_id = w_id w, t_category_id = cat_id c,
      t_transaction_type = cd_transaction_type dto, t_amount = amount, t_timestamp = timestamp,
      t_description = normalizeDescription (or_null (cd_description dto)), t_version = 1\<rparr>"
  from assms obtain u w u1 c u2 u3 timestamp amount s1 s2 created balance previous where
    unused: "(case operation_of dto of None \<Rightarrow> Inr () | Some o' \<Rightarrow> assertOperationUnused sp o' s) = Inr u"
    and w: "assertWalletInSpace (head_opt (lockRows w_id [cd_wallet_id dto] (rows (wallets s)))) sp = Inr w"
      "assertWalletActive w = Inr u1"
    and c: "assertUserCategory (head_opt (lockRows cat_id [cd_category_id dto] (rows (categories s)))) sp = Inr c"
      "assertCategoryActive c = Inr u2" "assertCategoryType c (cd_transaction_type dto) = Inr u3"
    and a: "toDate rt (cd_timestamp dto) = Inr timestamp" "to_column (cd_amount dto) = Inr amount"
    and s1: "insert_transaction (?row w c timestamp amount) s = Inr s1"
    and s2: "(case operation_of dto of None \<Rightarrow> Inr s1 | Some o' \<Rightarrow> recordOperation now sp o' uuid s1) = Inr s2"
    and created: "assertFound (getOneInSpace sp uuid s2) TRANSACTION_NOT_FOUND = Inr created"
    and numbers: "toNumber rt (getBalance (w_id w) s2) = Inr balance"
      "toNumber rt (getBalance (w_id w) s) = Inr previous"
    and r: "Inr (\<lparr>cr_transaction = toTransactionView created, cr_wallet = \<lparr>wb_wallet = w, wb_balance = balance\<rparr>,
      cr_previous_balance = previous\<rparr>, s2) = (Inr (r, s') :: exception + _)"
    unfolding create_work_def Let_def
    by (elim and_thenE) (rule that, assumption+)
  have locked: "head_opt (lockRows w_id [cd_wallet_id dto] (rows (wallets s))) = Some w"
      "head_opt (lockRows cat_id [cd_category_id dto] (rows (categories s))) = Some c"
    using w(1) c(1) by (simp_all only: result_iffs)
  note facts = w [unfolded result_iffs] c [unfolded result_iffs] a [unfolded result_iffs]
  have "w_id w = cd_wallet_id dto" and "cat_id c = cd_category_id dto"
    by (rule conjunct2 [OF head_lockRows_in], rule locked)+
  then have row: "?row w c timestamp amount = new_transaction uuid dto timestamp amount"
    by (simp add: new_transaction_def)
  have inserted: "find_transaction uuid s = None"
      "s1 = s\<lparr>transactions := transactions s @ [new_transaction uuid dto timestamp amount]\<rparr>"
    using s1 row by (auto simp: insert_transaction_eq)
  have "s2 = after_create now uuid sp dto timestamp amount s"
    using s2 inserted(2) by (auto simp: after_create_def Let_def recordOperation_eq split: option.splits)
  moreover have "create_allowed rt uuid sp dto s w c timestamp amount"
    using facts inserted unused s2
    by (auto simp: create_allowed_def recordOperation_eq assertOperationUnused_def
        split: option.splits if_splits)
  ultimately show thesis
    using that r created [unfolded assertFound_eq_Inr] numbers [unfolded getBalance_eq] by auto
qed

lemma after_create_simps [simp]:
  "members (after_create now uuid sp dto d a s) = members s"
  "wallets (after_create now uuid sp dto d a s) = wallets s"
  "categories (after_create now uuid sp dto d a s) = categories s"
  "limits (after_create now uuid sp dto d a s) = limits s"
  "idempotency_keys (after_create now uuid sp dto d a s) = idempotency_keys s"
  "transactions (after_create now uuid sp dto d a s) = transactions s @ [new_transaction uuid dto d a]"
  "find_wallet i (after_create now uuid sp dto d a s) = find_wallet i s"
  "find_category i (after_create now uuid sp dto d a s) = find_category i s"
  by (simp_all add: after_create_def Let_def find_wallet_def find_category_def split: option.split)

lemma operations_after_create:
  "operations (after_create now uuid sp dto d a s) = (case operation_of dto of None \<Rightarrow> operations s
     | Some o' \<Rightarrow> insert_auto (operation_row now sp o' uuid) (operations s))"
  by (simp add: after_create_def Let_def split: option.split)

lemma new_transaction_simps [simp]:
  "t_id (new_transaction uuid dto d a) = uuid"
  "t_wallet_id (new_transaction uuid dto d a) = cd_wallet_id dto"
  "t_category_id (new_transaction uuid dto d a) = cd_category_id dto"
  "t_amount (new_transaction uuid dto d a) = a"
  "t_version (new_transaction uuid dto d a) = 1"
  "t_timestamp (new_transaction uuid dto d a) = d"
  "t_transaction_type (new_transaction uuid dto d a) = cd_transaction_type dto"
  by (simp_all add: new_transaction_def)

lemma wallet_balance_append:
  "transactions s' = transactions s @ [t] \<Longrightarrow>
    wallet_balance w s' = wallet_balance w s + (if t_wallet_id t = w then signed_amount t else 0)"
  by (simp add: wallet_balance_def)

lemma find_unique:
  assumes "distinct (map key rs)" and "r \<in> set rs" and "key r = k"
  shows "find_row (\<lambda>r. key r = k) rs = Some r"
  using find_row_key [OF assms(1,2)] assms(3) by simp

section \<open>The effect of an update\<close>

lemma update_workE:
  assumes "update_work rt now sp i v dto s = Inr (r, s')"
  obtains original changes category updated locked where
    "getOneInSpace sp i s = Some original"
    and "\<not> cat_is_system (lt_category original)" and "t_version (lt_transaction original) = v"
    and "changedFields rt (lt_transaction original) dto = Inr changes"
    and "assertNewValues now changes = Inr ()"
    and "locked = lockRows w_id (t_wallet_id (lt_transaction original) #
           (case tch_wallet_id changes of None \<Rightarrow> [] | Some w \<Rightarrow> [w])) (rows (wallets s))"
    and "\<And>w. tch_wallet_id changes = Some w \<Longrightarrow> \<exists>x. find_row (\<lambda>x. w_id x = w) locked = Some x \<and>
           w_space_id x = sp \<and> \<not> w_is_deleted x"
    and "tch_category_id changes = None \<Longrightarrow> category = lt_category original"
    and "\<And>c. tch_category_id changes = Some c \<Longrightarrow> head_opt (lockRows cat_id [c] (rows (categories s))) = Some category \<and>
           cat_space_id category = sp \<and> \<not> cat_is_system category \<and> cat_is_active category"
    and "tch_category_id changes \<noteq> None \<or> tch_transaction_type changes \<noteq> None \<Longrightarrow>
           cat_transaction_type category = (case tch_transaction_type changes of
                None \<Rightarrow> t_transaction_type (lt_transaction original) | Some ty \<Rightarrow> ty)"
    and "(if changes \<noteq> no_changes then update_transaction i changes s else Inr s) = Inr s'"
    and "getOneInSpace sp i s' = Some updated" and "ur_transaction r = toTransactionView updated"
    and "map_throw (\<lambda>i. and_then (toNumber rt (case getBalances (t_wallet_id (lt_transaction original) #
           (case tch_wallet_id changes of None \<Rightarrow> [] | Some w \<Rightarrow> [w])) s' i of None \<Rightarrow> 0 | Some b \<Rightarrow> b)) (\<lambda>balance.
         Inr \<lparr>uw_id = i, uw_balance = balance,
              uw_is_deleted = (case find_row (\<lambda>x. w_id x = i) locked of None \<Rightarrow> False | Some x \<Rightarrow> w_is_deleted x)\<rparr>))
         (t_wallet_id (lt_transaction original) #
           (case tch_wallet_id changes of None \<Rightarrow> [] | Some w \<Rightarrow> [w])) = Inr (ur_wallets r)"
proof -
  let ?ids = "\<lambda>original changes. t_wallet_id (lt_transaction original) #
      (case tch_wallet_id changes of None \<Rightarrow> [] | Some w \<Rightarrow> [w])"
  let ?locked = "\<lambda>original changes. lockRows w_id (?ids original changes) (rows (wallets s))"
  from assms obtain original u1 u2 changes u3 u4 category u5 s1 updated ws where
    original: "lockTransaction sp i s = Inr original"
    and checks: "assertNotSystem original = Inr u1"
      "assertVersion (lt_transaction original) (Some v) = Inr u2"
    and changes: "changedFields rt (lt_transaction original) dto = Inr changes"
      "assertNewValues now changes = Inr u3"
    and wallet: "(case tch_wallet_id changes of None \<Rightarrow> Inr ()
         | Some w \<Rightarrow> and_then (assertWalletInSpace (find_row (\<lambda>x. w_id x = w) (?locked original changes)) sp)
             assertWalletActive) = Inr u4"
    and category: "(case tch_category_id changes of None \<Rightarrow> Inr (lt_category original)
         | Some c \<Rightarrow> and_then (assertUserCategory (head_opt (lockRows cat_id [c] (rows (categories s)))) sp)
             (\<lambda>target. and_then (assertCategoryActive target) (\<lambda>_. Inr target))) = Inr category"
    and type: "(if tch_category_id changes \<noteq> None \<or> tch_transaction_type changes \<noteq> None
         then assertCategoryType category (case tch_transaction_type changes of
                None \<Rightarrow> t_transaction_type (lt_transaction original) | Some ty \<Rightarrow> ty)
         else Inr ()) = Inr u5"
    and s1: "(if changes \<noteq> no_changes then update_transaction (lt_id original) changes s else Inr s) = Inr s1"
    and updated: "assertFound (getOneInSpace sp (lt_id original) s1) TRANSACTION_NOT_FOUND = Inr updated"
    and ws: "map_throw (\<lambda>i. and_then (toNumber rt (case getBalances (?ids original changes) s1 i of
           None \<Rightarrow> 0 | Some b \<Rightarrow> b)) (\<lambda>balance.
         Inr \<lparr>uw_id = i, uw_balance = balance,
              uw_is_deleted = (case find_row (\<lambda>x. w_id x = i) (?locked original changes) of
                None \<Rightarrow> False | Some x \<Rightarrow> w_is_deleted x)\<rparr>)) (?ids original changes) = Inr ws"
    and r: "Inr (\<lparr>ur_transaction = toTransactionView updated, ur_wallets = ws\<rparr>, s1) =
      (Inr (r, s') :: exception + _)"
    unfolding update_work_def Let_def
    by (elim and_thenE) (rule that, assumption+)
  have one: "getOneInSpace sp i s = Some original" using original by (simp only: result_iffs)
  then have i: "lt_id original = i" by (rule getOneInSpace_Some)
  show thesis
  proof (rule that [OF one _ _ changes(1)])
    show "\<not> cat_is_system (lt_category original)" and "t_version (lt_transaction original) = v"
      using checks by (simp_all add: result_iffs)
    show "assertNewValues now changes = Inr ()" using changes(2) by simp
    show "\<exists>x. find_row (\<lambda>x. w_id x = w) (?locked original changes) = Some x \<and>
           w_space_id x = sp \<and> \<not> w_is_deleted x" if "tch_wallet_id changes = Some w" for w
      using wallet that by (auto simp: result_iffs)
    show "category = lt_category original" if "tch_category_id changes = None"
      using category that by simp
    show "head_opt (lockRows cat_id [c] (rows (categories s))) = Some category \<and>
        cat_space_id category = sp \<and> \<not> cat_is_system category \<and> cat_is_active category"
      if "tch_category_id changes = Some c" for c
      using category that by (auto simp: result_iffs)
    show "cat_transaction_type category = (case tch_transaction_type changes of
        None \<Rightarrow> t_transaction_type (lt_transaction original) | Some ty \<Rightarrow> ty)"
      if "tch_category_id changes \<noteq> None \<or> tch_transaction_type changes \<noteq> None"
      using type that by (simp add: result_iffs)
    show "(if changes \<noteq> no_changes then update_transaction i changes s else Inr s) = Inr s'"
      using s1 r by (auto simp: i split: if_splits)
    show "getOneInSpace sp i s' = Some updated" using updated r i by (simp add: result_iffs)
    show "ur_transaction r = toTransactionView updated" using r by auto
  qed (use ws r in auto)
qed

lemma update_transaction_eq:
  "update_transaction i changes s = Inr s' \<longleftrightarrow>
    (\<exists>amount. s' = s\<lparr>transactions :=
        update_rows (\<lambda>t. t_id t = i) (apply_changes changes amount) (transactions s)\<rparr> \<and>
      (case tch_amount changes of None \<Rightarrow> amount = None
       | Some a \<Rightarrow> (\<exists>c. amount = Some c \<and> matchMoney a = Some c \<and> \<bar>c\<bar> \<le> MAX_MONEY_INPUT_CENTS)))"
  by (auto simp: update_transaction_def result_iffs split: option.split)

lemma with_change_simps [simp]:
  "with_change None f r = r"
  "with_change (Some x) f r = f x r"
  by (simp_all add: with_change_def)

definition or_old :: "'a option \<Rightarrow> 'a \<Rightarrow> 'a" where
  "or_old v x = (case v of None \<Rightarrow> x | Some y \<Rightarrow> y)"

lemma or_old_simps [simp]: "or_old None x = x" "or_old (Some y) x = y"
  by (simp_all add: or_old_def)

lemma apply_changes_simps [simp]:
  "t_id (apply_changes ch amount t) = t_id t"
  "t_version (apply_changes ch amount t) = t_version t + 1"
  "t_wallet_id (apply_changes ch amount t) = or_old (tch_wallet_id ch) (t_wallet_id t)"
  "t_category_id (apply_changes ch amount t) = or_old (tch_category_id ch) (t_category_id t)"
  "t_transaction_type (apply_changes ch amount t) = or_old (tch_transaction_type ch) (t_transaction_type t)"
  "t_amount (apply_changes ch amount t) = or_old amount (t_amount t)"
  "t_timestamp (apply_changes ch amount t) = or_old (tch_timestamp ch) (t_timestamp t)"
  "t_description (apply_changes ch amount t) = or_old (tch_description ch) (t_description t)"
  by (cases "tch_wallet_id ch"; cases "tch_category_id ch"; cases "tch_transaction_type ch"; cases amount;
      cases "tch_timestamp ch"; cases "tch_description ch"; simp add: apply_changes_def)+

section \<open>The effect of a removal\<close>

lemma remove_workE:
  assumes "remove_work now sp i v s = Inr (r, s')"
  obtains l where "getOneInSpace sp i s = Some l" and "\<not> cat_is_system (lt_category l)"
    and "t_version (lt_transaction l) = v"
    and "s' = s\<lparr>transactions := delete_rows (\<lambda>t. t_id t = i) (transactions s),
          operations := (operations s)\<lparr>rows := update_rows (\<lambda>o'. op_transaction_id o' = i)
            (\<lambda>o'. o'\<lparr>op_deleted_at := Some now\<rparr>) (rows (operations s))\<rparr>\<rparr>"
proof -
  from assms obtain l u1 u2 where l: "lockTransaction sp i s = Inr l"
    and checks: "assertNotSystem l = Inr u1" "assertVersion (lt_transaction l) (Some v) = Inr u2"
    and r: "Inr (True, s\<lparr>transactions := delete_rows (\<lambda>t. t_id t = lt_id l) (transactions s),
          operations := (operations s)\<lparr>rows := update_rows (\<lambda>o'. op_transaction_id o' = lt_id l)
            (\<lambda>o'. o'\<lparr>op_deleted_at := Some now\<rparr>) (rows (operations s))\<rparr>\<rparr>) = (Inr (r, s') :: exception + _)"
    unfolding remove_work_def by (elim and_thenE) (rule that, assumption+)
  from l have l': "getOneInSpace sp i s = Some l" by (simp only: result_iffs)
  then have "lt_id l = i" by (rule getOneInSpace_Some)
  with l' checks r that show thesis by (simp add: result_iffs)
qed

end
