(* ===== verification/Examples.thy ===== *)
theory Examples
  imports Transactions
begin

text \<open>
  A small database and a runtime for concrete instances of the theorems: two users, a space of the
  first one with a wallet, an income, an expense and the system category, and one transaction.
\<close>

definition ex_category :: "nat \<Rightarrow> string \<Rightarrow> TransactionType \<Rightarrow> bool \<Rightarrow> category" where
  "ex_category i name ty system = \<lparr>cat_id = i, cat_space_id = 1, cat_name = name, cat_transaction_type = ty,
     cat_icon = OTHER, cat_color = SLATE, cat_is_active = True, cat_archived_at = None, cat_sort = 0,
     cat_is_system = system, cat_created_at = 0, cat_updated_at = 0\<rparr>"

definition ex_wallet :: "nat \<Rightarrow> wallet" where
  "ex_wallet i = \<lparr>w_id = i, w_space_id = 1, w_wallet_name = ''Cash'', w_design = AMBER,
     w_is_deleted = False, w_deleted_at = None, w_created_at = 0, w_updated_at = 0\<rparr>"

definition ex_transaction :: "string \<Rightarrow> int \<Rightarrow> int \<Rightarrow> transaction" where
  "ex_transaction i timestamp amount = \<lparr>t_id = i, t_wallet_id = 7, t_category_id = 2,
     t_transaction_type = EXPENSE, t_amount = amount, t_timestamp = timestamp,
     t_description = None, t_version = 1\<rparr>"

definition ex_table :: "nat \<Rightarrow> 'r list \<Rightarrow> 'r table" where
  "ex_table n rs = \<lparr>rows = rs, next_id = n\<rparr>"

definition ex_db :: db where
  "ex_db = empty_db
     \<lparr>spaces := ex_table 2 [\<lparr>sp_id = 1, sp_name = ''Home'', sp_type = PERSONAL, sp_currency_id = 1,
         sp_created_at = 0, sp_updated_at = 0\<rparr>],
      currencies := ex_table 2 [\<lparr>cur_id = 1, cur_code = ''EUR'', cur_name = ''Euro''\<rparr>],
      members := ex_table 2 [\<lparr>m_id = 1, m_space_id = 1, m_user_id = 1, m_role = OWNER, m_created_at = 0\<rparr>],
      wallets := ex_table 9 [ex_wallet 7, ex_wallet 8],
      categories := ex_table 4 [ex_category 1 ''Salary'' INCOME False, ex_category 2 ''Food'' EXPENSE False,
         ex_category 3 ''Initial balance'' INCOME True],
      transactions := [ex_transaction ''a'' 1000 250]\<rparr>"

text \<open>Numbers are read and printed exactly, a date is the number of its milliseconds.\<close>

definition ex_number :: "string \<Rightarrow> rat" where
  "ex_number s = (case matchMoney s of None \<Rightarrow> 0 | Some c \<Rightarrow> of_int c / 100)"

definition ex_json :: "rat \<Rightarrow> string" where
  "ex_json r = formatMoney \<lfloor>r * 100\<rfloor>"

definition ex_date :: "string \<Rightarrow> int option" where
  "ex_date s = (if length s = 24 then Some (int (digits_val (take 3 (drop 20 s))) + 5000) else None)"

definition ex_rt :: runtime where
  "ex_rt = \<lparr>rt_number = ex_number, rt_json = ex_json, rt_isISO8601 = (\<lambda>s. True), rt_isUUID = (\<lambda>s. s \<noteq> []),
     rt_local_date = (\<lambda>y m d. 0), rt_Date = ex_date, rt_digest = (\<lambda>j. []), rt_claims = (\<lambda>_ t. t)\<rparr>"

definition ex_create :: CreateTransactionDto where
  "ex_create = \<lparr>cd_wallet_id = 7, cd_category_id = 2, cd_transaction_type = EXPENSE, cd_amount = ''12.3'',
     cd_timestamp = ''2026-09-15T10:00:00.001Z'', cd_description = Some (Some '' Lunch ''),
     cd_client_operation_id = Some ''AB''\<rparr>"

definition ex_update :: UpdateTransactionDto where
  "ex_update = \<lparr>ud_wallet_id = Some 8, ud_category_id = None, ud_transaction_type = None, ud_amount = Some ''3'',
     ud_timestamp = None, ud_description = None\<rparr>"

text \<open>A list of entries with a hash, for the runtime's digest, that tells requests apart.\<close>

fun ex_digest :: "js \<Rightarrow> string" where
  "ex_digest (JObject kvs) = concat (map (\<lambda>(k, v). k @ (case v of JString s \<Rightarrow> s | _ \<Rightarrow> [])) kvs)"
| "ex_digest v = []"

section \<open>Their values\<close>

lemmas money_eval = isMoneyAmount_def IsPositiveAmount_def isPositiveAmount_def parseMoneyInput_def
  MONEY_INPUT_def MONEY_VALUE_def matchMoney_def is_digit_def toCents_def digits_val_def digit_val_def
  pad_end_def group_or_empty_def MAX_MONEY_INPUT_CENTS_def to_column_def

lemmas date_eval = parseIsoDate_def toDate_def DATE_ONLY_def DATE_TIME_def is_time_rest_def is_zone_def
  isIsoInstant_def isInTimestampRange_def IsNotInFuture_def isNotInFuture_def ends_with_zone_def
  TIMESTAMP_MIN_def TIMESTAMP_MAX_def CLOCK_SKEW_MS_def

lemmas ex_tables = ex_db_def empty_db_def empty_table_def ex_table_def ex_wallet_def ex_category_def
  ex_transaction_def

lemmas text_eval = normalizeDescription_def trim_def is_space_def to_lower_def lower_char_def or_null_def

lemmas lookup_eval = find_wallet_def find_category_def find_transaction_def find_operation_def find_member_def

lemma ex_number [simp]: "toNumber ex_rt c = Inr (of_int c / 100)"
  by (simp add: moneyToNumber_def ex_rt_def ex_number_def ex_json_def matchMoney_formatMoney)

lemma ex_amount [simp]: "matchMoney ''12.3'' = Some 1230" "matchMoney ''3'' = Some 300"
  by (simp_all add: money_eval numeral_2_eq_2)

lemma ex_amount_column [simp]: "to_column ''12.3'' = Inr 1230" "to_column ''3'' = Inr 300"
  by (simp_all add: to_column_def MAX_MONEY_INPUT_CENTS_def)

lemma ex_parse [simp]: "parseMoney ''3'' = Inr 300" "parseMoney (formatMoney c) = Inr c"
  by (simp_all add: parseMoney_def matchMoney_formatMoney)

lemma ex_positive [simp]: "isPositiveAmount ''3''"
  by (simp add: money_eval numeral_2_eq_2)

lemma ex_instant [simp]: "parseIsoDate ex_rt ''2026-09-15T10:00:00.001Z'' = Some 5001"
  by (simp add: date_eval ex_rt_def ex_date_def is_digit_def digits_val_def digit_val_def)

lemma ex_lower [simp]: "to_lower ''AB'' = ''ab''"
  by code_simp

lemma ex_valid: "valid_create ex_rt 6000 ex_create"
  by (simp add: valid_create_def ex_create_def isId_def money_eval isIsoInstant_def isInTimestampRange_def
      IsNotInFuture_def isNotInFuture_def IsDescription_def normalizeDescription_def or_null_def trim_def
      is_space_def MAX_DESCRIPTION_LENGTH_def ends_with_zone_def is_zone_def TIMESTAMP_MIN_def
      TIMESTAMP_MAX_def CLOCK_SKEW_MS_def) (simp add: ex_rt_def)

lemma ex_create_runs:
  "\<exists>r s. create ex_rt to_json 6000 ''b'' 1 1 ex_create no_options ex_db = Inr (Fresh r, s)"
  by (simp add: create_def write_unit_def lockMembership_def no_options_def create_work_def
      assertOperationUnused_def assertWalletInSpace_def assertBelongsToSpace_def lockRows_def
      assertWalletActive_def assertUserCategory_def assertCategoryActive_def assertCategoryType_def
      insert_transaction_def recordOperation_def insert_operation_def getOneInSpace_def joined_def
      load_def List.map_filter_def Let_def toDate_def ex_create_def lookup_eval ex_tables)

end
