(* ===== verification/FeedProperties.thy ===== *)
theory FeedProperties
  imports Feed TransactionFacts Examples
begin

text \<open>
  The properties of the feed: pages are what they would be without the per-wallet branches, windows
  are contiguous parts of the selection whose flags tell what lies beyond them, following the cursors
  reads everything once, totals are totals of the whole selection, and cursors survive the way to
  the client and back but not the way to another query.
\<close>

section \<open>Windows\<close>

text \<open>A window is a part of the feed; its flags say whether the feed goes on past either end.\<close>

definition is_window :: "LoadedTransaction list \<Rightarrow> FeedWindow \<Rightarrow> bool" where
  "is_window feed w \<longleftrightarrow> (\<exists>pre post. feed = pre @ fw_items w @ post \<and>
     fw_hasNewer w = (pre \<noteq> []) \<and> fw_hasOlder w = (post \<noteq> []))"

lemma is_windowI:
  "feed = pre @ fw_items w @ post \<Longrightarrow> fw_hasNewer w = (pre \<noteq> []) \<Longrightarrow> fw_hasOlder w = (post \<noteq> []) \<Longrightarrow>
    is_window feed w"
  by (auto simp: is_window_def)

lemma older_hasMore_0: "pg_hasMore (older_page 0 (Some p) feed) \<longleftrightarrow> (\<exists>l \<in> set feed. positionOf l < p)"
  by (auto simp: older_page_def filter_empty_conv)

lemma newer_hasMore_0: "pg_hasMore (newer_page 0 p feed) \<longleftrightarrow> (\<exists>l \<in> set feed. p < positionOf l)"
  by (auto simp: newer_page_def filter_empty_conv)

lemma sorted_split_below:
  assumes "sorted_wrt (\<lambda>x y. positionOf y < positionOf x) feed"
  obtains pre where "feed = pre @ filter (\<lambda>l. positionOf l < p) feed"
    and "\<forall>l \<in> set pre. \<not> positionOf l < p"
proof -
  have "\<exists>pre. feed = pre @ filter (\<lambda>l. positionOf l < p) feed \<and> (\<forall>l \<in> set pre. \<not> positionOf l < p)"
    using assms
  proof (induction feed)
    case (Cons l feed)
    show ?case
    proof (cases "positionOf l < p")
      case True
      with Cons.prems have "filter (\<lambda>l. positionOf l < p) feed = feed"
        by (auto simp: filter_id_conv)
      with True show ?thesis by (intro exI [of _ "[]"]) simp
    next
      case False
      from Cons obtain pre where "feed = pre @ filter (\<lambda>l. positionOf l < p) feed"
        "\<forall>l \<in> set pre. \<not> positionOf l < p" by auto
      with False show ?thesis by (intro exI [of _ "l # pre"]) auto
    qed
  qed simp
  with that show thesis by blast
qed

lemma sorted_split_above:
  assumes "sorted_wrt (\<lambda>x y. positionOf y < positionOf x) feed"
  obtains post where "feed = filter (\<lambda>l. p < positionOf l) feed @ post"
    and "\<forall>l \<in> set post. \<not> p < positionOf l"
proof -
  have "\<exists>post. feed = filter (\<lambda>l. p < positionOf l) feed @ post \<and> (\<forall>l \<in> set post. \<not> p < positionOf l)"
    using assms
  proof (induction feed)
    case (Cons l feed)
    show ?case
    proof (cases "p < positionOf l")
      case True
      from Cons obtain post where "feed = filter (\<lambda>l. p < positionOf l) feed @ post"
        "\<forall>l \<in> set post. \<not> p < positionOf l" by auto
      with True show ?thesis by (intro exI [of _ post]) auto
    next
      case False
      with Cons.prems have "\<forall>x \<in> set feed. \<not> p < positionOf x"
        by (auto dest: less_trans)
      with False show ?thesis by (intro exI [of _ "l # feed"]) (auto simp: filter_empty_conv)
    qed
  qed simp
  with that show thesis by blast
qed

lemma edge_newer:
  assumes "sorted_wrt (\<lambda>x y. positionOf y < positionOf x) (pre @ x # xs @ post)"
  shows "(\<exists>l \<in> set (pre @ x # xs @ post). positionOf x < positionOf l) \<longleftrightarrow> pre \<noteq> []"
  using assms by (cases pre) (auto simp: sorted_wrt_append dest: less_asym)

lemma edge_older:
  assumes "sorted_wrt (\<lambda>x y. positionOf y < positionOf x) (pre @ (xs @ [x]) @ post)"
  shows "(\<exists>l \<in> set (pre @ (xs @ [x]) @ post). positionOf l < positionOf x) \<longleftrightarrow> post \<noteq> []"
  using assms by (cases post) (auto simp: sorted_wrt_append dest: less_asym)

lemma readFeedPage_window:
  assumes "history_ok s" and "fw_items (readFeedPage like sel n cursor s) \<noteq> []"
  shows "is_window (feed_of like sel s) (readFeedPage like sel n cursor s)"
    and "cursor = None \<Longrightarrow> \<exists>post. feed_of like sel s = fw_items (readFeedPage like sel n None s) @ post"
proof -
  let ?feed = "feed_of like sel s"
  have sorted: "sorted_wrt (\<lambda>x y. positionOf y < positionOf x) ?feed"
    by (rule feed_sorted [OF assms(1)])
  note pages = getFeedPage_older [OF assms(1)] getFeedPage_newer [OF assms(1)]
  have first: "is_window ?feed (readFeedPage like sel n None s) \<and>
      (\<exists>post. ?feed = fw_items (readFeedPage like sel n None s) @ post)"
    if "fw_items (readFeedPage like sel n None s) \<noteq> []"
    using that
    by (auto simp: readFeedPage_def pages older_page_def Let_def is_window_def split: if_splits
        intro!: exI [of _ "drop n ?feed"])
  have older: "is_window ?feed (readFeedPage like sel n (Some c) s)"
    if dir: "fc_direction c \<noteq> Newer" and ne: "fw_items (readFeedPage like sel n (Some c) s) \<noteq> []" for c
  proof -
    let ?p = "fc_position c" and ?w = "readFeedPage like sel n (Some c) s"
    let ?rest = "filter (\<lambda>l. positionOf l < ?p) ?feed"
    obtain pre where pre: "?feed = pre @ ?rest" using sorted_split_below [OF sorted] by blast
    have items: "fw_items ?w = take n ?rest" and more: "fw_hasOlder ?w = (n < length ?rest)"
      and edge: "fw_hasNewer ?w = (\<exists>l \<in> set ?feed. positionOf (hd (take n ?rest)) < positionOf l)"
      using ne dir by (auto simp: readFeedPage_def pages older_page_def Let_def newer_hasMore_0 split: if_splits)
    obtain x xs where x: "take n ?rest = x # xs" using ne items by (cases "take n ?rest") auto
    have split: "?feed = pre @ x # xs @ drop n ?rest"
      using pre x by (metis append_Cons append_take_drop_id)
    have "(\<exists>l \<in> set ?feed. positionOf x < positionOf l) \<longleftrightarrow> pre \<noteq> []"
      using edge_newer [of pre x xs "drop n ?rest"] sorted unfolding split [symmetric] by blast
    then have "fw_hasNewer ?w = (pre \<noteq> [])" using edge x by simp
    moreover have "?feed = pre @ fw_items ?w @ drop n ?rest" using split x items by simp
    moreover have "fw_hasOlder ?w = (drop n ?rest \<noteq> [])" using more by auto
    ultimately show ?thesis by (intro is_windowI)
  qed
  have newer: "is_window ?feed (readFeedPage like sel n (Some c) s)"
    if dir: "fc_direction c = Newer" and ne: "fw_items (readFeedPage like sel n (Some c) s) \<noteq> []" for c
  proof -
    let ?p = "fc_position c" and ?w = "readFeedPage like sel n (Some c) s"
    let ?rest = "filter (\<lambda>l. ?p < positionOf l) ?feed"
    let ?k = "length ?rest - n"
    obtain post where post: "?feed = ?rest @ post" using sorted_split_above [OF sorted] by blast
    have items: "fw_items ?w = drop ?k ?rest" and more: "fw_hasNewer ?w = (n < length ?rest)"
      and edge: "fw_hasOlder ?w = (\<exists>l \<in> set ?feed. positionOf l < positionOf (last (drop ?k ?rest)))"
      using ne dir by (auto simp: readFeedPage_def pages newer_page_def Let_def older_hasMore_0 split: if_splits)
    obtain xs x where x: "drop ?k ?rest = xs @ [x]" using ne items by (metis rev_exhaust)
    have split: "?feed = take ?k ?rest @ (xs @ [x]) @ post"
      using post x by (metis append_assoc append_take_drop_id)
    have "(\<exists>l \<in> set ?feed. positionOf l < positionOf x) \<longleftrightarrow> post \<noteq> []"
      using edge_older [of "take ?k ?rest" xs x post] sorted unfolding split [symmetric] by blast
    then have "fw_hasOlder ?w = (post \<noteq> [])" using edge x by simp
    moreover have "fw_hasNewer ?w = (take ?k ?rest \<noteq> [])" using more by auto
    moreover have "?feed = take ?k ?rest @ fw_items ?w @ post" using split x items by simp
    ultimately show ?thesis by (intro is_windowI)
  qed
  show "is_window ?feed (readFeedPage like sel n cursor s)"
    using first older newer assms(2) by (cases cursor) auto
  show "cursor = None \<Longrightarrow> \<exists>post. ?feed = fw_items (readFeedPage like sel n None s) @ post"
    using first assms(2) by simp
qed

section \<open>The window around a record\<close>

lemma around_counts:
  fixes N O' side :: nat
  defines "n \<equiv> min N (max (side div 2) (side - O'))"
  shows "n + min O' (side - n) = min side (N + O')" and "n \<le> N"
  by (auto simp: n_def min_def max_def)

lemma readFeedAround_window:
  assumes inv: "history_ok s" and run: "readFeedAround like sel limit i s = Inr w" and "0 < limit"
  shows "\<exists>target. target \<in> set (fw_items w) \<and> lt_id target = i \<and> is_window (feed_of like sel s) w \<and>
    length (fw_items w) = min limit (length (feed_of like sel s))"
proof -
  let ?feed = "feed_of like sel s"
  have sorted: "sorted_wrt (\<lambda>x y. positionOf y < positionOf x) ?feed" by (rule feed_sorted [OF inv])
  from run obtain target position where
    "assertFound (getOneInSpace (ts_spaceId sel) i s) TRANSACTION_NOT_FOUND = Inr target"
    and "need (findFeedPosition like sel i s) (api_error TRANSACTION_NOT_IN_FEED STATUS_NOT_FOUND) = Inr position"
    unfolding readFeedAround_def by (elim and_thenE)
  then have target: "getOneInSpace (ts_spaceId sel) i s = Some target"
    and position: "findFeedPosition like sel i s = Some position"
    by (simp_all add: assertFound_eq_Inr need_eq_Inr)
  from position obtain l where l: "l \<in> set (feed_scope like sel s)" "lt_id l = i" "positionOf l = position"
  proof -
    from position obtain l where found: "find_row (\<lambda>l. lt_id l = i) (feed_scope like sel s) = Some l"
      and "positionOf l = position"
      by (cases "selectionWallets sel s = []") (auto simp: findFeedPosition_def feed_scope_def)
    with find_row_Some [OF found] that [of l] show thesis by simp
  qed
  have "l \<in> set (joined s)" using l(1) set_scope unfolding feed_scope_def by blast
  moreover have "target \<in> set (joined s)" "lt_id target = i"
    using find_row_Some [OF target [unfolded getOneInSpace_def]] by simp_all
  ultimately have "l = target" using distinct_key_eq [OF distinct_joined [OF inv]] l(2) by blast
  then have "target \<in> set ?feed" using l(1) by (simp add: feed_of_def)
  then obtain xs ys where split: "?feed = xs @ target # ys" by (meson split_list)
  have sorted': "sorted_wrt (\<lambda>x y. positionOf y < positionOf x) (xs @ target # ys)"
    using sorted split by simp
  define side where "side = limit - 1"
  define N where "N = drop (length xs - side) xs"
  define M where "M = take side ys"
  define n where "n = min (length N) (max (side div 2) (side - length M))"
  define m where "m = min (length M) (side - n)"
  have newer: "getFeedPage like sel (page_at side None (Some position)) s =
      \<lparr>pg_items = N, pg_hasMore = (side < length xs)\<rparr>"
    using newer_page_at [OF sorted'] l(3) \<open>l = target\<close> by (simp add: getFeedPage_newer [OF inv] split N_def)
  have older: "getFeedPage like sel (page_at side (Some position) None) s =
      \<lparr>pg_items = M, pg_hasMore = (side < length ys)\<rparr>"
    using older_page_at [OF sorted'] l(3) \<open>l = target\<close> by (simp add: getFeedPage_older [OF inv] split M_def)
  have w: "w = \<lparr>fw_items = drop (length N - n) N @ [target] @ take m M,
      fw_hasOlder = (side < length ys \<or> m < length M), fw_hasNewer = (side < length xs \<or> n < length N)\<rparr>"
    using run unfolding readFeedAround_def target position assertFound_simps need_simps and_then_simps
      Let_def side_def [symmetric] newer older FeedPage.select_convs n_def [symmetric] m_def [symmetric]
    by (rule sum.inject(2) [THEN iffD1, symmetric])
  have "n + m = min side (length N + length M)" and n: "n \<le> length N"
    using around_counts [of "length N" side "length M"] by (simp_all only: n_def m_def)
  moreover have N: "length N = min (length xs) side" and M: "length M = min (length ys) side"
    by (simp_all add: N_def M_def min_def)
  ultimately have count: "n + m = min side (length xs + length ys)" and m: "m \<le> length ys" "m \<le> length M"
      and n': "n \<le> length xs"
    by (simp_all add: m_def min_def split: if_splits)
  let ?pre = "take (length xs - n) xs" and ?post = "drop m ys"
  have "drop (length N - n) N = drop (length xs - n) xs"
  proof (cases "length xs \<le> side")
    case True
    then show ?thesis by (simp add: N_def)
  next
    case False
    then have "length N = side" by (simp add: N)
    moreover from this have "side - n + (length xs - side) = length xs - n" using n False by simp
    ultimately show ?thesis by (simp add: N_def drop_drop)
  qed
  moreover have "take m M = take m ys"
  proof -
    have "m \<le> side" using m(2) unfolding M by simp
    then show ?thesis unfolding M_def by (simp add: min_absorb1)
  qed
  ultimately have items: "fw_items w = drop (length xs - n) xs @ target # take m ys"
    by (simp add: w)
  then have "?feed = ?pre @ fw_items w @ ?post" by (simp add: split)
  moreover have "fw_hasNewer w = (?pre \<noteq> [])" using n n' by (auto simp: w N min_def)
  moreover have "fw_hasOlder w = (?post \<noteq> [])" using m by (auto simp: w M min_def)
  ultimately have "is_window ?feed w" by (rule is_windowI)
  moreover have "length (fw_items w) = min limit (length ?feed)"
  proof -
    have "length (fw_items w) = n + m + 1" using n' m(1) by (simp add: items)
    also have "\<dots> = min limit (length ?feed)" using count assms(3) unfolding split side_def by simp
    finally show ?thesis .
  qed
  ultimately show ?thesis using items \<open>lt_id target = i\<close> by (intro exI [of _ target]) simp
qed

section \<open>Properties of pages\<close>

text \<open>C19. A page is a page of the whole selection: although each wallet is read as its own branch up to
  the limit and only the heads are merged, \<open>getFeedPage\<close> returns the \<open>limit\<close> records of the selection
  next to the position in history order, newest first, and whether there are more, in both
  directions and from the start.\<close>

theorem getFeedPage_refines:
  assumes "history_ok s"
  shows "getFeedPage like sel page s = (case fp_before page of
      None \<Rightarrow> older_page (fp_limit page) (fp_after page) (feed_of like sel s)
    | Some p \<Rightarrow> newer_page (fp_limit page) p (feed_of like sel s))"
  using getFeedPage_older [OF assms] getFeedPage_newer [OF assms] by (simp split: option.split)

lemma ex_history_ok: "history_ok ex_db"
  by (simp add: history_ok_def ex_tables)

definition ex_selection :: TransactionSelection where
  "ex_selection = \<lparr>ts_spaceId = 1, ts_from = 0, ts_to = 9000, ts_filters = no_filters\<rparr>"

lemma ex_scope:
  "feed_scope like ex_selection ex_db =
    [\<lparr>lt_transaction = ex_transaction ''a'' 1000 250, lt_wallet = ex_wallet 7,
      lt_category = ex_category 2 ''Food'' EXPENSE False\<rparr>]"
  by (simp add: feed_scope_def selectionScope_def selectionWallets_def ex_selection_def no_filters_def
      in_period_def clampToStored_def matches_search_def TIMESTAMP_MIN_def STORED_TIMESTAMP_MAX_def
      joined_def load_def List.map_filter_def Let_def lookup_eval ex_tables)

lemma ex_feed:
  "feed_of like ex_selection ex_db =
    [\<lparr>lt_transaction = ex_transaction ''a'' 1000 250, lt_wallet = ex_wallet 7,
      lt_category = ex_category 2 ''Food'' EXPENSE False\<rparr>]"
  by (simp add: feed_of_def ex_scope in_direction_def)

lemma getFeedPage_refines_witness:
  "pg_items (getFeedPage (=) ex_selection (page_at 5 None None) ex_db) =
    [\<lparr>lt_transaction = ex_transaction ''a'' 1000 250, lt_wallet = ex_wallet 7,
      lt_category = ex_category 2 ''Food'' EXPENSE False\<rparr>]"
  using getFeedPage_refines [OF ex_history_ok, of "(=)" ex_selection "page_at 5 None None"]
  by (simp add: ex_feed older_page_def)

text \<open>C28. A page is a contiguous part of the feed, and its two flags say exactly whether the feed has
  records past either end, whichever direction the cursor was read in.\<close>

theorem page_is_window:
  assumes "history_ok s" and "fw_items (readFeedPage like sel limit cursor s) \<noteq> []"
  shows "is_window (feed_of like sel s) (readFeedPage like sel limit cursor s)"
  by (rule readFeedPage_window [OF assms])

lemma page_is_window_witness:
  "fw_items (readFeedPage (=) ex_selection 5 None ex_db) \<noteq> [] \<and>
    is_window (feed_of (=) ex_selection ex_db) (readFeedPage (=) ex_selection 5 None ex_db)"
proof -
  have "fw_items (readFeedPage (=) ex_selection 5 None ex_db) \<noteq> []"
    by (simp add: readFeedPage_def getFeedPage_older [OF ex_history_ok] ex_feed older_page_def)
  with page_is_window [OF ex_history_ok this] show ?thesis by simp
qed

text \<open>C29. The history opened at a record shows that record within a contiguous part of the feed of
  as many records as the limit allows, whatever side has too few, and the flags tell whether there
  is more on either side.\<close>

theorem around_is_window:
  assumes "history_ok s" and "readFeedAround like sel limit i s = Inr w" and "0 < limit"
  shows "\<exists>target. target \<in> set (fw_items w) \<and> lt_id target = i \<and> is_window (feed_of like sel s) w \<and>
    length (fw_items w) = min limit (length (feed_of like sel s))"
  by (rule readFeedAround_window [OF assms])

lemma around_is_window_witness:
  "\<exists>w. readFeedAround (=) ex_selection 3 ''a'' ex_db = Inr w \<and> length (fw_items w) = 1"
proof -
  have "findFeedPosition (=) ex_selection ''a'' ex_db = Some (1000, ''a'')"
  proof -
    have "findFeedPosition (=) ex_selection ''a'' ex_db =
        map_option positionOf (find_row (\<lambda>l. lt_id l = ''a'') (feed_scope (=) ex_selection ex_db))"
      by (simp add: findFeedPosition_def feed_scope_def Let_def)
    then show ?thesis by (simp add: ex_scope positionOf_def ex_transaction_def)
  qed
  moreover have "getOneInSpace 1 ''a'' ex_db \<noteq> None"
    by (simp add: getOneInSpace_def joined_def load_def List.map_filter_def lookup_eval ex_tables)
  ultimately obtain w where run: "readFeedAround (=) ex_selection 3 ''a'' ex_db = Inr w"
    by (auto simp: readFeedAround_def ex_selection_def Let_def)
  from around_is_window [OF ex_history_ok run] have "length (fw_items w) = 1"
    by (auto simp: ex_feed)
  with run show ?thesis by blast
qed

section \<open>Totals of the selection\<close>

lemma summary_scope:
  "getFeedSummary like sel s = \<lparr>fs_count = length (feed_scope like sel s),
     fs_income = sum_list (map (\<lambda>l. if \<not> cat_is_system (lt_category l) \<and>
        t_transaction_type (lt_transaction l) = INCOME then t_amount (lt_transaction l) else 0) (feed_scope like sel s)),
     fs_expense = sum_list (map (\<lambda>l. if \<not> cat_is_system (lt_category l) \<and>
        t_transaction_type (lt_transaction l) = EXPENSE then t_amount (lt_transaction l) else 0) (feed_scope like sel s))\<rparr>"
  by (simp add: getFeedSummary_def feed_scope_def Let_def)

text \<open>The summary of the feed and the count endpoint agree: \<open>summary.count\<close> is \<open>count\<close> of the same
  query and the number of records the feed pages through, and income minus expense is the net of
  all of them, initial balances left out.\<close>

theorem summary_of_selection:
  "fs_count (getFeedSummary like sel s) = countForAllWallets like sel s \<and>
    fs_count (getFeedSummary like sel s) = length (feed_of like sel s) \<and>
    fs_income (getFeedSummary like sel s) - fs_expense (getFeedSummary like sel s) =
      (\<Sum>l\<leftarrow>feed_of like sel s. net_amount l)"
proof -
  have net: "(\<Sum>l\<leftarrow>xs. net_amount l) = (\<Sum>l\<leftarrow>xs. if \<not> cat_is_system (lt_category l) \<and>
        t_transaction_type (lt_transaction l) = INCOME then t_amount (lt_transaction l) else 0) -
      (\<Sum>l\<leftarrow>xs. if \<not> cat_is_system (lt_category l) \<and>
        t_transaction_type (lt_transaction l) = EXPENSE then t_amount (lt_transaction l) else 0)" for xs
  proof (induction xs)
    case (Cons l xs)
    then show ?case
      by (cases "t_transaction_type (lt_transaction l)") (simp_all add: net_amount_def signed_amount_def)
  qed simp
  have "mset (map net_amount (feed_of like sel s)) = mset (map net_amount (feed_scope like sel s))"
    by (simp add: feed_of_def in_direction_def)
  then have "(\<Sum>l\<leftarrow>feed_of like sel s. net_amount l) = (\<Sum>l\<leftarrow>feed_scope like sel s. net_amount l)"
    by (metis sum_mset_sum_list)
  then show ?thesis
    by (simp add: summary_scope net countForAllWallets_def feed_scope_def feed_of_def Let_def)
qed

section \<open>Search\<close>

definition contains :: "(char \<Rightarrow> char \<Rightarrow> bool) \<Rightarrow> string \<Rightarrow> string \<Rightarrow> bool" where
  "contains eq search text \<longleftrightarrow> (\<exists>before found after. text = before @ found @ after \<and> list_all2 eq search found)"

text \<open>C30. Search text is literal: where the database matches \<open>LIKE\<close> patterns the way MySQL does, a
  record is in a searched selection exactly when it is in the selection without the search and its
  description, its category's name or its wallet's name contains the trimmed text; percent signs,
  underscores and exclamation marks in the text stand for themselves.\<close>

theorem search_is_contains:
  assumes "tf_search (ts_filters sel) = Some q" and "trim q \<noteq> []"
  shows "(l \<in> set (feed_scope (sql_like eq) sel s)) =
    (l \<in> set (feed_scope (sql_like eq) (sel\<lparr>ts_filters := (ts_filters sel)\<lparr>tf_search := None\<rparr>\<rparr>) s) \<and>
     (\<exists>text \<in> set [cat_name (lt_category l), w_wallet_name (lt_wallet l)] \<union> set_option (t_description (lt_transaction l)).
        contains eq (trim q) text))"
proof -
  have "matches_search (sql_like eq) (Some q) r =
      (\<exists>text \<in> set [cat_name (lt_category r), w_wallet_name (lt_wallet r)] \<union> set_option (t_description (lt_transaction r)).
        contains eq (trim q) text)" for r
    using assms(2)
    by (cases "t_description (lt_transaction r)") (auto simp: matches_search_def sql_like_toSearchPattern contains_def)
  moreover have "matches_search (sql_like eq) None r" for r
    by (simp add: matches_search_def)
  ultimately show ?thesis
    using assms(1) by (simp add: feed_scope_def selectionScope_def selectionWallets_def in_period_def Let_def)
qed

lemma search_is_contains_witness:
  "contains (=) ''Foo'' ''Food'' \<and> feed_scope (sql_like (=))
    (ex_selection\<lparr>ts_filters := no_filters\<lparr>tf_search := Some ''Foo''\<rparr>\<rparr>) ex_db \<noteq> []"
proof -
  let ?l = "\<lparr>lt_transaction = ex_transaction ''a'' 1000 250, lt_wallet = ex_wallet 7,
      lt_category = ex_category 2 ''Food'' EXPENSE False\<rparr>"
  let ?sel = "ex_selection\<lparr>ts_filters := no_filters\<lparr>tf_search := Some ''Foo''\<rparr>\<rparr>"
  have c: "contains (=) ''Foo'' ''Food''"
    unfolding contains_def by (rule exI [of _ "[]"], rule exI [of _ "''Foo''"], rule exI [of _ "''d''"]) (simp add: list.rel_eq)
  have "?sel\<lparr>ts_filters := (ts_filters ?sel)\<lparr>tf_search := None\<rparr>\<rparr> = ex_selection"
    by (simp add: ex_selection_def no_filters_def)
  moreover have "cat_name (ex_category 2 ''Food'' EXPENSE False) = ''Food''"
    by (simp add: ex_category_def)
  moreover have "trim ''Foo'' = ''Foo''"
    by (simp add: trim_def text_eval)
  ultimately have "?l \<in> set (feed_scope (sql_like (=)) ?sel ex_db)"
    using search_is_contains [of ?sel "''Foo''" ?l "(=)" ex_db] c by (simp add: ex_scope)
  with c show ?thesis by auto
qed

section \<open>Totals of the shown days\<close>

text \<open>What the feed relies on of luxon: an instant is on a day exactly when it is between the start of
  the day and the start of the next, and two days never have the same text.\<close>

definition calendar_ok :: "calendar \<Rightarrow> string \<Rightarrow> bool" where
  "calendar_ok cal timeZone \<longleftrightarrow> inj (cal_format cal) \<and> (\<forall>t day. (cal_dateAt cal t timeZone = day) =
     (cal_startOfDay cal day timeZone \<le> t \<and> t < cal_startOfDay cal (day + 1) timeZone))"

lemma map_entries_keyed:
  assumes "inj f"
  shows "map_entries (map (\<lambda>x. (f (g x), g x)) xs) = map (\<lambda>k. (f k, k)) (dedup (map g xs))"
proof (induction xs)
  case (Cons x xs)
  have "map_of (map (\<lambda>k. (f k, k)) ks) (f d) = (if d \<in> set ks then Some d else None)" for ks d
    using assms by (induction ks) (auto simp: inj_def)
  moreover have "filter (\<lambda>(k', _). k' \<noteq> f d) (map (\<lambda>k. (f k, k)) ks) = map (\<lambda>k. (f k, k)) (filter (\<lambda>k. k \<noteq> d) ks)" for ks d
    using assms by (induction ks) (auto simp: inj_def)
  ultimately show ?case by (simp add: Cons Let_def)
qed simp

lemma interval_index_nth:
  "interval_index ivs t = Some i \<longleftrightarrow> i < length ivs \<and>
     (clampToStored (fst (ivs ! i)) \<le> t \<and> t \<le> clampToStored (snd (ivs ! i))) \<and>
     (\<forall>j < i. \<not> (clampToStored (fst (ivs ! j)) \<le> t \<and> t \<le> clampToStored (snd (ivs ! j))))"
proof (induction ivs arbitrary: i)
  case (Cons p ivs)
  obtain a b where [simp]: "p = (a, b)" by (cases p)
  show ?case
    by (cases i) (auto simp: Cons All_less_Suc2)
qed simp

lemma scope_stored:
  assumes "l \<in> set (feed_scope like sel s)"
  shows "TIMESTAMP_MIN \<le> t_timestamp (lt_transaction l)" "t_timestamp (lt_transaction l) \<le> STORED_TIMESTAMP_MAX"
proof -
  have "in_period sel (t_timestamp (lt_transaction l))"
    using assms by (auto simp: feed_scope_def selectionScope_def Let_def)
  then show "TIMESTAMP_MIN \<le> t_timestamp (lt_transaction l)" "t_timestamp (lt_transaction l) \<le> STORED_TIMESTAMP_MAX"
    by (auto simp: in_period_def clampToStored_def min_def max_def TIMESTAMP_MIN_def STORED_TIMESTAMP_MAX_def
        split: if_splits)
qed

lemma length_getFeedIntervalNets: "length (getFeedIntervalNets like sel ivs s) = length ivs"
proof -
  have "length (fold (\<lambda>(i, net) nets. nets[i := net]) grouped nets) = length nets" for grouped and nets :: "int list"
    by (induction grouped arbitrary: nets) auto
  then show ?thesis by (simp add: getFeedIntervalNets_def Let_def)
qed

lemma clamped_between:
  assumes "a \<le> STORED_TIMESTAMP_MAX" "TIMESTAMP_MIN \<le> b" "TIMESTAMP_MIN \<le> t" "t \<le> STORED_TIMESTAMP_MAX"
  shows "clampToStored a \<le> t \<and> t \<le> clampToStored b \<longleftrightarrow> a \<le> t \<and> t \<le> b"
  using assms by (auto simp: clampToStored_def min_def max_def split: if_splits)

lemma interval_of_day:
  assumes cal: "calendar_ok cal tz" and days: "distinct days" "i < length days"
    and stored: "\<forall>day \<in> set days. \<exists>u. cal_dateAt cal u tz = day \<and> TIMESTAMP_MIN \<le> u \<and> u \<le> STORED_TIMESTAMP_MAX"
    and t: "TIMESTAMP_MIN \<le> t" "t \<le> STORED_TIMESTAMP_MAX"
  shows "interval_index (map (\<lambda>day. (cal_startOfDay cal day tz, endOfDay cal day tz)) days) t = Some i
    \<longleftrightarrow> cal_dateAt cal t tz = days ! i"
proof -
  have day: "cal_startOfDay cal d tz \<le> u \<and> u \<le> endOfDay cal d tz \<longleftrightarrow> cal_dateAt cal u tz = d" for d u
    using cal by (auto simp: calendar_ok_def endOfDay_def)
  have "clampToStored (cal_startOfDay cal d tz) \<le> t \<and> t \<le> clampToStored (endOfDay cal d tz)
      \<longleftrightarrow> cal_dateAt cal t tz = d" if d: "d \<in> set days" for d
  proof -
    from stored d obtain u where "cal_dateAt cal u tz = d" and u: "TIMESTAMP_MIN \<le> u" "u \<le> STORED_TIMESTAMP_MAX"
      by blast
    then have "cal_startOfDay cal d tz \<le> u" "u \<le> endOfDay cal d tz" using day by blast+
    with u show ?thesis using clamped_between [OF _ _ t] day [of d t] by simp
  qed
  with days show ?thesis by (auto simp: interval_index_nth nth_eq_iff_index_eq)
qed

text \<open>The day totals of a response cover each local date that has a record on the page, once and in
  the order of the page, and the net of a date sums all records of the selection on that date, on
  the page or not, initial balances left out.\<close>

theorem day_totals_cover_page:
  assumes "calendar_ok cal tz" and "set items \<subseteq> set (feed_of like sel s)"
  shows "readFeedDayTotals like cal sel items tz s = map (\<lambda>day.
      \<lparr>dt_date = cal_format cal day, dt_net = formatMoney (\<Sum>l\<leftarrow>filter (\<lambda>l.
         cal_dateAt cal (t_timestamp (lt_transaction l)) tz = day) (feed_scope like sel s). net_amount l)\<rparr>)
    (dedup (map (\<lambda>item. cal_dateAt cal (t_timestamp (lt_transaction item)) tz) items))"
proof -
  define days where "days = dedup (map (\<lambda>item. cal_dateAt cal (t_timestamp (lt_transaction item)) tz) items)"
  define intervals where "intervals = map (\<lambda>day. (cal_startOfDay cal day tz, endOfDay cal day tz)) days"
  define net where "net = (\<lambda>day. \<Sum>l\<leftarrow>filter (\<lambda>l.
    cal_dateAt cal (t_timestamp (lt_transaction l)) tz = day) (feed_scope like sel s). net_amount l)"
  have entries: "map_entries (map (\<lambda>item. let day = cal_dateAt cal (t_timestamp (lt_transaction item)) tz
      in (cal_format cal day, day)) items) = map (\<lambda>day. (cal_format cal day, day)) days"
    unfolding Let_def days_def by (rule map_entries_keyed) (use assms(1) in \<open>simp add: calendar_ok_def\<close>)
  have "getFeedIntervalNets like sel intervals s = map net days"
  proof (rule nth_equalityI)
    show "length (getFeedIntervalNets like sel intervals s) = length (map net days)"
      by (simp add: length_getFeedIntervalNets intervals_def)
  next
    fix i assume "i < length (getFeedIntervalNets like sel intervals s)"
    then have i: "i < length days" "i < length intervals"
      by (simp_all add: length_getFeedIntervalNets intervals_def)
    have "\<forall>day \<in> set days. \<exists>u. cal_dateAt cal u tz = day \<and> TIMESTAMP_MIN \<le> u \<and> u \<le> STORED_TIMESTAMP_MAX"
      using assms(2) scope_stored [of _ like sel s] by (auto simp: days_def feed_of_def in_direction_def)
    moreover have "distinct days" by (simp add: days_def)
    ultimately have "filter (\<lambda>l. interval_index intervals (t_timestamp (lt_transaction l)) = Some i) (feed_scope like sel s)
        = filter (\<lambda>l. cal_dateAt cal (t_timestamp (lt_transaction l)) tz = days ! i) (feed_scope like sel s)"
      unfolding intervals_def
      using interval_of_day [OF assms(1) _ i(1)] scope_stored [of _ like sel s] by (intro filter_cong) auto
    then show "getFeedIntervalNets like sel intervals s ! i = map net days ! i"
      using getFeedIntervalNets_nth [OF i(2), of like sel s] i(1) by (simp add: net_def feed_scope_def)
  qed
  then have "readFeedDayTotals like cal sel items tz s =
      map (\<lambda>((date, _), n). \<lparr>dt_date = date, dt_net = formatMoney n\<rparr>)
        (zip (map (\<lambda>day. (cal_format cal day, day)) days) (map net days))"
    unfolding readFeedDayTotals_def entries by (simp add: intervals_def comp_def)
  then show ?thesis
    by (simp add: days_def [symmetric] net_def zip_map1 zip_map2 zip_same_conv_map comp_def)
qed

definition ex_calendar :: calendar where
  "ex_calendar = \<lparr>cal_dateAt = (\<lambda>t _. t div 86400000), cal_startOfDay = (\<lambda>d _. d * 86400000),
     cal_format = formatMoney\<rparr>"

lemma ex_calendar_ok: "calendar_ok ex_calendar tz"
proof -
  have "inj (cal_format ex_calendar)"
    by (rule injI) (simp add: ex_calendar_def formatMoney_inject)
  moreover have "(t div 86400000 = d) = (d * 86400000 \<le> t \<and> t < (d + 1) * 86400000)" for t d :: int
    by (auto simp: div_int_pos_iff)
  ultimately show ?thesis by (simp add: calendar_ok_def ex_calendar_def)
qed

lemma day_totals_cover_page_witness:
  "map dt_net (readFeedDayTotals (=) ex_calendar ex_selection (feed_of (=) ex_selection ex_db) ''UTC'' ex_db) =
    [formatMoney (- 250)]"
proof -
  have "cal_dateAt ex_calendar (t_timestamp (ex_transaction ''a'' 1000 250)) ''UTC'' = 0"
    by (simp add: ex_calendar_def ex_transaction_def)
  moreover have "net_amount \<lparr>lt_transaction = ex_transaction ''a'' 1000 250, lt_wallet = ex_wallet 7,
      lt_category = ex_category 2 ''Food'' EXPENSE False\<rparr> = - 250"
    by (simp add: net_amount_def signed_amount_def ex_transaction_def ex_category_def)
  ultimately show ?thesis
    using day_totals_cover_page [OF ex_calendar_ok, of "feed_of (=) ex_selection ex_db" "(=)" ex_selection ex_db "''UTC''"]
    by (simp add: ex_feed ex_scope)
qed

section \<open>Cursors\<close>

text \<open>What a cursor decodes to.\<close>

lemma decode_encoded:
  assumes "cu_unpack cu (cu_pack cu (cursor_payload cursor digest)) = Some (cursor_payload cursor digest)"
    and "list_all is_base64url_char (cu_pack cu (cursor_payload cursor digest))"
    and "cu_pack cu (cursor_payload cursor digest) \<noteq> []"
    and "length (cu_pack cu (cursor_payload cursor digest)) \<le> FEED_CURSOR_MAX_LENGTH"
    and "TIMESTAMP_MIN \<le> fst (fc_position cursor)" and "fst (fc_position cursor) \<le> STORED_TIMESTAMP_MAX"
    and "rt_isUUID rt (snd (fc_position cursor))"
  shows "decodeFeedCursor rt cu (encodeFeedCursor cu cursor digest) digest' =
    (if digest' = digest then Inr cursor else Inl (cursorError ''cursor does not belong to this query''))"
proof -
  obtain d t i where [simp]: "cursor = \<lparr>fc_direction = d, fc_position = (t, i)\<rparr>"
    by (metis FeedCursor.surjective prod.exhaust unit.exhaust)
  let ?payload = "[(''v'', js_nat FEED_CURSOR_VERSION), (''d'', JString (direction_text d)),
      (''t'', js_int t), (''i'', JString i), (''s'', JString digest)]"
  have "parsePayload cu (encodeFeedCursor cu cursor digest) = Some ?payload"
    using assms(1-4) by (simp add: parsePayload_def encodeFeedCursor_def cursor_payload_def)
  moreover have "safe_integer (Some (js_int t)) = Some t"
    using assms(5,6) by (simp add: safe_integer_def TIMESTAMP_MIN_def STORED_TIMESTAMP_MAX_def)
  ultimately show ?thesis
    using assms(5-7) by (cases d)
      (simp_all add: decodeFeedCursor_def isValidPayload_def string_of_def direction_text_def)
qed

text \<open>C31. A cursor given back with the query it was made for names the position and direction it was
  made from, and with any other selection or time zone, whose digest differs, it is refused with an
  error of its own.\<close>

theorem cursor_round_trip:
  assumes "cu_unpack cu (cu_pack cu (cursor_payload cursor digest)) = Some (cursor_payload cursor digest)"
    and "list_all is_base64url_char (cu_pack cu (cursor_payload cursor digest))"
    and "cu_pack cu (cursor_payload cursor digest) \<noteq> []"
    and "length (cu_pack cu (cursor_payload cursor digest)) \<le> FEED_CURSOR_MAX_LENGTH"
    and "TIMESTAMP_MIN \<le> fst (fc_position cursor)" and "fst (fc_position cursor) \<le> STORED_TIMESTAMP_MAX"
    and "rt_isUUID rt (snd (fc_position cursor))"
  shows "decodeFeedCursor rt cu (encodeFeedCursor cu cursor digest) digest' =
    (if digest' = digest then Inr cursor else Inl (cursorError ''cursor does not belong to this query''))"
  using assms by (rule decode_encoded)

lemma cursor_round_trip_witness:
  "decodeFeedCursor ex_rt
      \<lparr>cu_pack = (\<lambda>_. ''A1-_''), cu_unpack = (\<lambda>_. Some (cursor_payload \<lparr>fc_direction = Newer, fc_position = (1000, ''a'')\<rparr> ''d'')),
       cu_digest = (\<lambda>_. ''d'')\<rparr> ''A1-_'' ''d'' = Inr \<lparr>fc_direction = Newer, fc_position = (1000, ''a'')\<rparr>"
  using cursor_round_trip [of "\<lparr>cu_pack = (\<lambda>_. ''A1-_''), cu_unpack = (\<lambda>_. Some (cursor_payload
      \<lparr>fc_direction = Newer, fc_position = (1000, ''a'')\<rparr> ''d'')), cu_digest = (\<lambda>_. ''d'')\<rparr>"
      "\<lparr>fc_direction = Newer, fc_position = (1000, ''a'')\<rparr>" "''d''" ex_rt "''d''"]
  by (simp add: is_base64url_char_def is_digit_def FEED_CURSOR_MAX_LENGTH_def TIMESTAMP_MIN_def
      STORED_TIMESTAMP_MAX_def ex_rt_def encodeFeedCursor_def Let_def)

section \<open>Following the cursors\<close>

text \<open>
  A client that reads on: it takes the records of an answer and asks again with the \<open>next_cursor\<close> of
  the answer, until there is none; \<open>scroll_up\<close> asks with \<open>previous_cursor\<close>. No value where an answer is an
  error or the cursors have not ended with the \<open>k\<close>-th answer.
\<close>

fun scroll_down :: "(string option \<Rightarrow> exception + TransactionFeed) \<Rightarrow> nat \<Rightarrow> string option \<Rightarrow> TransactionView list option" where
  "scroll_down ask 0 cursor = None"
| "scroll_down ask (Suc k) cursor = (case ask cursor of Inl e \<Rightarrow> None
     | Inr answer \<Rightarrow> (case tf_next_cursor answer of None \<Rightarrow> Some (tf_items answer)
        | Some c \<Rightarrow> map_option (\<lambda>rest. tf_items answer @ rest) (scroll_down ask k (Some c))))"

fun scroll_up :: "(string option \<Rightarrow> exception + TransactionFeed) \<Rightarrow> nat \<Rightarrow> string option \<Rightarrow> TransactionView list option" where
  "scroll_up ask 0 cursor = None"
| "scroll_up ask (Suc k) cursor = (case ask cursor of Inl e \<Rightarrow> None
     | Inr answer \<Rightarrow> (case tf_previous_cursor answer of None \<Rightarrow> Some (tf_items answer)
        | Some c \<Rightarrow> map_option (\<lambda>rest. rest @ tf_items answer) (scroll_up ask k (Some c))))"

text \<open>
  What the cursors of a feed rely on: JSON in base64url is read back as it was and fits the length
  limit, in either direction, and the ids of the records are UUIDs.
\<close>

definition cursors_readable :: "runtime \<Rightarrow> cursor_runtime \<Rightarrow> string \<Rightarrow> LoadedTransaction list \<Rightarrow> bool" where
  "cursors_readable rt cu digest feed \<longleftrightarrow> (\<forall>l \<in> set feed. rt_isUUID rt (lt_id l) \<and>
     (\<forall>d. let payload = cursor_payload \<lparr>fc_direction = d, fc_position = positionOf l\<rparr> digest in
        cu_unpack cu (cu_pack cu payload) = Some payload \<and> list_all is_base64url_char (cu_pack cu payload) \<and>
        cu_pack cu payload \<noteq> [] \<and> length (cu_pack cu payload) \<le> FEED_CURSOR_MAX_LENGTH))"

abbreviation cursor_at :: "cursor_runtime \<Rightarrow> string \<Rightarrow> FeedDirection \<Rightarrow> LoadedTransaction \<Rightarrow> string" where
  "cursor_at cu digest d l \<equiv> encodeFeedCursor cu \<lparr>fc_direction = d, fc_position = positionOf l\<rparr> digest"

lemma decode_cursor_at:
  assumes "cursors_readable rt cu digest (feed_of like sel s)" and "l \<in> set (feed_of like sel s)"
  shows "decodeFeedCursor rt cu (cursor_at cu digest d l) digest = Inr \<lparr>fc_direction = d, fc_position = positionOf l\<rparr>"
proof -
  have "TIMESTAMP_MIN \<le> t_timestamp (lt_transaction l)" "t_timestamp (lt_transaction l) \<le> STORED_TIMESTAMP_MAX"
    using assms(2) scope_stored [of l like sel s] by (simp_all add: feed_of_def in_direction_def)
  with assms show ?thesis
    by (subst decode_encoded) (simp_all add: cursors_readable_def Let_def positionOf_def)
qed

text \<open>What an answer carries of the window it was made from.\<close>

definition shows_window :: "cursor_runtime \<Rightarrow> string \<Rightarrow> FeedWindow \<Rightarrow> TransactionFeed \<Rightarrow> bool" where
  "shows_window cu digest w answer \<longleftrightarrow> tf_items answer = map toTransactionView (fw_items w) \<and>
     tf_next_cursor answer = (if fw_hasOlder w then Some (cursor_at cu digest Older (last (fw_items w))) else None) \<and>
     tf_previous_cursor answer = (if fw_hasNewer w then Some (cursor_at cu digest Newer (hd (fw_items w))) else None)"

lemma getFeed_window:
  assumes "toFeedSelection rt spaceId query = Inr sel" and "fq_around_id query = None"
    and "checkHistoryQuery userId spaceId (ts_from sel) (ts_to sel) (ts_filters sel) s = Inr ()"
    and "digest = selectionDigest cu sel (the (zone (fq_time_zone query)))"
    and "case cursor of None \<Rightarrow> fc = None | Some c \<Rightarrow> \<exists>x. fc = Some x \<and> decodeFeedCursor rt cu c digest = Inr x"
  obtains answer where "getFeed rt cu cal zone like userId spaceId (query\<lparr>fq_cursor := cursor\<rparr>) s = Inr answer"
    and "shows_window cu digest (readFeedPage like sel (fq_limit query) fc s) answer"
proof -
  have "toFeedSelection rt spaceId (query\<lparr>fq_cursor := cursor\<rparr>) = Inr sel"
    using assms(1) by (simp add: toFeedSelection_def)
  then show ?thesis
    using assms(2,3,5) that unfolding assms(4)
    by (cases cursor) (auto simp: getFeed_def shows_window_def Let_def)
qed

lemma feed_position:
  fixes n :: nat
  assumes "history_ok s" and "feed_of like sel s = xs @ l # ys"
  defines "older \<equiv> readFeedPage like sel n (Some \<lparr>fc_direction = Older, fc_position = positionOf l\<rparr>) s"
    and "newer \<equiv> readFeedPage like sel n (Some \<lparr>fc_direction = Newer, fc_position = positionOf l\<rparr>) s"
  shows "fw_items older = take n ys" "fw_hasOlder older = (take n ys \<noteq> [] \<and> n < length ys)"
    and "fw_items newer = drop (length xs - n) xs"
      "fw_hasNewer newer = (drop (length xs - n) xs \<noteq> [] \<and> n < length xs)"
proof -
  have order: "sorted_wrt (\<lambda>x y. positionOf y < positionOf x) (xs @ l # ys)"
    using feed_sorted [OF assms(1), of like sel] assms(2) by simp
  have "getFeedPage like sel (page_at n (Some (positionOf l)) None) s =
      \<lparr>pg_items = take n ys, pg_hasMore = (n < length ys)\<rparr>"
    using older_page_at [OF order] by (simp add: getFeedPage_older [OF assms(1)] assms(2))
  then show "fw_items older = take n ys" "fw_hasOlder older = (take n ys \<noteq> [] \<and> n < length ys)"
    by (simp_all add: older_def readFeedPage_def Let_def)
  have "getFeedPage like sel (page_at n None (Some (positionOf l))) s =
      \<lparr>pg_items = drop (length xs - n) xs, pg_hasMore = (n < length xs)\<rparr>"
    using newer_page_at [OF order] by (simp add: getFeedPage_newer [OF assms(1)] assms(2))
  then show "fw_items newer = drop (length xs - n) xs"
      "fw_hasNewer newer = (drop (length xs - n) xs \<noteq> [] \<and> n < length xs)"
    by (simp_all add: newer_def readFeedPage_def Let_def)
qed

text \<open>Reading on from a record gives all older records, whatever the pages are.\<close>

lemma scroll_down_from:
  assumes ok: "history_ok s" and readable: "cursors_readable rt cu digest (feed_of like sel s)" and n: "0 < n"
    and ask: "\<And>c x. decodeFeedCursor rt cu c digest = Inr x \<Longrightarrow>
      \<exists>answer. ask (Some c) = Inr answer \<and> shows_window cu digest (readFeedPage like sel n (Some x) s) answer"
    and "feed_of like sel s = xs @ l # ys" and "length ys \<le> k * n" and "0 < k"
  shows "scroll_down ask k (Some (cursor_at cu digest Older l)) = Some (map toTransactionView ys)"
  using assms(5-7)
proof (induction k arbitrary: xs l ys)
  case (Suc k)
  let ?w = "readFeedPage like sel n (Some \<lparr>fc_direction = Older, fc_position = positionOf l\<rparr>) s"
  have "decodeFeedCursor rt cu (cursor_at cu digest Older l) digest = Inr \<lparr>fc_direction = Older, fc_position = positionOf l\<rparr>"
    by (rule decode_cursor_at [OF readable]) (simp add: Suc.prems(1))
  then obtain answer where answer: "ask (Some (cursor_at cu digest Older l)) = Inr answer" "shows_window cu digest ?w answer"
    using ask by blast
  have w: "fw_items ?w = take n ys" "fw_hasOlder ?w = (take n ys \<noteq> [] \<and> n < length ys)"
    by (rule feed_position [OF ok Suc.prems(1)])+
  show ?case
  proof (cases "n < length ys")
    case False
    with answer w show ?thesis by (simp add: shows_window_def)
  next
    case True
    then obtain xs' l' where split: "take n ys = xs' @ [l']" "ys = xs' @ l' # drop n ys"
      using split_page [OF n] by blast
    have "0 < k" using True Suc.prems(2) by (cases k) simp_all
    moreover have "feed_of like sel s = (xs @ l # xs') @ l' # drop n ys" using Suc.prems(1) split(2) by simp
    ultimately have "scroll_down ask k (Some (cursor_at cu digest Older l')) = Some (map toTransactionView (drop n ys))"
      using Suc.prems(2) by (intro Suc.IH) simp_all
    moreover have "map toTransactionView ys = map toTransactionView (xs' @ [l']) @ map toTransactionView (drop n ys)"
      by (subst split(2)) simp
    ultimately show ?thesis using answer w True by (simp add: shows_window_def split(1))
  qed
qed simp

text \<open>Reading back from a record gives all newer ones.\<close>

lemma scroll_up_from:
  assumes ok: "history_ok s" and readable: "cursors_readable rt cu digest (feed_of like sel s)" and n: "0 < n"
    and ask: "\<And>c x. decodeFeedCursor rt cu c digest = Inr x \<Longrightarrow>
      \<exists>answer. ask (Some c) = Inr answer \<and> shows_window cu digest (readFeedPage like sel n (Some x) s) answer"
    and "feed_of like sel s = xs @ l # ys" and "length xs \<le> k * n" and "0 < k"
  shows "scroll_up ask k (Some (cursor_at cu digest Newer l)) = Some (map toTransactionView xs)"
  using assms(5-7)
proof (induction k arbitrary: xs l ys)
  case (Suc k)
  let ?w = "readFeedPage like sel n (Some \<lparr>fc_direction = Newer, fc_position = positionOf l\<rparr>) s"
  let ?m = "length xs - n"
  have "decodeFeedCursor rt cu (cursor_at cu digest Newer l) digest = Inr \<lparr>fc_direction = Newer, fc_position = positionOf l\<rparr>"
    by (rule decode_cursor_at [OF readable]) (simp add: Suc.prems(1))
  then obtain answer where answer: "ask (Some (cursor_at cu digest Newer l)) = Inr answer" "shows_window cu digest ?w answer"
    using ask by blast
  have w: "fw_items ?w = drop ?m xs" "fw_hasNewer ?w = (drop ?m xs \<noteq> [] \<and> n < length xs)"
    by (rule feed_position [OF ok Suc.prems(1)])+
  show ?case
  proof (cases "n < length xs")
    case False
    with answer w show ?thesis by (simp add: shows_window_def)
  next
    case True
    then have "?m < length xs" using n by simp
    then have split: "drop ?m xs = xs ! ?m # drop (Suc ?m) xs" by (simp add: Cons_nth_drop_Suc)
    have "0 < k" using True Suc.prems(2) by (cases k) simp_all
    moreover have "feed_of like sel s = take ?m xs @ xs ! ?m # (drop (Suc ?m) xs @ l # ys)"
      using Suc.prems(1) append_take_drop_id [of ?m xs] split by (metis append_Cons append_assoc)
    ultimately have "scroll_up ask k (Some (cursor_at cu digest Newer (xs ! ?m))) =
        Some (map toTransactionView (take ?m xs))"
      using Suc.prems(2) by (intro Suc.IH) simp_all
    moreover have "hd (drop ?m xs) = xs ! ?m" by (simp add: split)
    moreover have "map toTransactionView xs = map toTransactionView (take ?m xs) @ map toTransactionView (drop ?m xs)"
      by (simp flip: map_append)
    ultimately show ?thesis using answer w True \<open>?m < length xs\<close> by (simp add: shows_window_def)
  qed
qed simp

text \<open>C27. Scrolling reads every record once. A client that asks \<open>getFeed\<close> without a cursor and then with the
  \<open>next_cursor\<close> of each answer, until an answer has none, gets the whole selection in history order,
  without a gap or a repetition, in as many answers as pages of \<open>limit\<close> records are needed. From the
  cursors of any record, following \<open>next_cursor\<close> gives exactly the older records and following
  \<open>previous_cursor\<close> exactly the newer ones.\<close>

theorem scrolling_reads_all:
  fixes cal :: calendar
  assumes "history_ok s" and "toFeedSelection rt spaceId query = Inr sel" and "fq_around_id query = None"
    and "checkHistoryQuery userId spaceId (ts_from sel) (ts_to sel) (ts_filters sel) s = Inr ()"
    and "digest = selectionDigest cu sel (the (zone (fq_time_zone query)))"
    and "cursors_readable rt cu digest (feed_of like sel s)"
    and "0 < fq_limit query" and "length (feed_of like sel s) \<le> pages * fq_limit query" and "0 < pages"
  defines "ask \<equiv> \<lambda>cursor. getFeed rt cu cal zone like userId spaceId (query\<lparr>fq_cursor := cursor\<rparr>) s"
  shows "scroll_down ask pages None = Some (map toTransactionView (feed_of like sel s)) \<and>
    (\<forall>xs l ys. feed_of like sel s = xs @ l # ys \<longrightarrow>
      scroll_down ask pages (Some (encodeFeedCursor cu \<lparr>fc_direction = Older, fc_position = positionOf l\<rparr> digest)) =
        Some (map toTransactionView ys) \<and>
      scroll_up ask pages (Some (encodeFeedCursor cu \<lparr>fc_direction = Newer, fc_position = positionOf l\<rparr> digest)) =
        Some (map toTransactionView xs))"
proof -
  let ?n = "fq_limit query" and ?feed = "feed_of like sel s"
  note window = getFeed_window [where zone = zone, OF assms(2-5)]
  have answered: "\<exists>answer. ask (Some c) = Inr answer \<and> shows_window cu digest (readFeedPage like sel ?n (Some x) s) answer"
    if "decodeFeedCursor rt cu c digest = Inr x" for c x
    unfolding ask_def by (rule window [where cursor = "Some c" and fc = "Some x"]) (simp add: that, blast)
  note down = scroll_down_from [where ask = ask, OF assms(1,6,7) answered] and up = scroll_up_from [where ask = ask, OF assms(1,6,7) answered]
  obtain answer where answer: "ask None = Inr answer" "shows_window cu digest (readFeedPage like sel ?n None s) answer"
    unfolding ask_def by (rule window [where cursor = None and fc = None]) simp
  have w: "fw_items (readFeedPage like sel ?n None s) = take ?n ?feed"
    "fw_hasOlder (readFeedPage like sel ?n None s) = (take ?n ?feed \<noteq> [] \<and> ?n < length ?feed)"
    by (auto simp: readFeedPage_def getFeedPage_older [OF assms(1)] older_page_def Let_def)
  obtain k where k: "pages = Suc k" using assms(9) by (cases pages) simp_all
  have "scroll_down ask pages None = Some (map toTransactionView ?feed)"
  proof (cases "?n < length ?feed")
    case False
    with answer w show ?thesis by (simp add: k shows_window_def)
  next
    case True
    then obtain xs l where split: "take ?n ?feed = xs @ [l]" "?feed = xs @ l # drop ?n ?feed"
      using split_page [OF assms(7)] by blast
    have "0 < k" using True assms(8) by (cases k) (simp_all add: k)
    then have "scroll_down ask k (Some (cursor_at cu digest Older l)) = Some (map toTransactionView (drop ?n ?feed))"
      using assms(8) by (intro down [OF _ split(2)]) (simp_all add: k)
    moreover have "map toTransactionView ?feed = map toTransactionView (xs @ [l]) @ map toTransactionView (drop ?n ?feed)"
      by (subst split(2)) simp
    ultimately show ?thesis using answer w True by (simp add: k shows_window_def split(1))
  qed
  moreover have "length ys \<le> pages * ?n" "length xs \<le> pages * ?n" if "?feed = xs @ l # ys" for xs l ys
    using assms(8) that by simp_all
  ultimately show ?thesis using down up assms(9) by blast
qed

text \<open>Two records, read one at a time; the digest is constant and a cursor names its direction and record.\<close>

definition ex_two :: db where
  "ex_two = ex_db\<lparr>transactions := [ex_transaction ''a'' 5100 250, ex_transaction ''c'' 5200 100]\<rparr>"

definition ex_time :: "string \<Rightarrow> int" where
  "ex_time i = (if i = ''a'' then 5100 else 5200)"

fun ex_unpack :: "string \<Rightarrow> js option" where
  "ex_unpack (d # i) = Some (cursor_payload \<lparr>fc_direction = (if d = CHR ''o'' then Older else Newer),
     fc_position = (ex_time i, i)\<rparr> ''d'')"
| "ex_unpack [] = None"

fun ex_pack :: "js \<Rightarrow> string" where
  "ex_pack (JObject kvs) = (case map_of kvs ''d'' of Some (JString d) \<Rightarrow> [hd d] | _ \<Rightarrow> []) @
     (case map_of kvs ''i'' of Some (JString i) \<Rightarrow> i | _ \<Rightarrow> [])"
| "ex_pack v = []"

definition ex_cursors :: cursor_runtime where
  "ex_cursors = \<lparr>cu_pack = ex_pack, cu_unpack = ex_unpack, cu_digest = (\<lambda>_. ''d'')\<rparr>"

definition ex_feed_query :: TransactionFeedQueryDto where
  "ex_feed_query = \<lparr>fq_from = ''2026-09-15T10:00:00.000Z'', fq_to = ''2026-09-15T10:00:00.999Z'', fq_time_zone = ''UTC'',
     fq_q = None, fq_limit = 1, fq_cursor = None, fq_around_id = None, fq_transaction_type = None, fq_kind = None,
     fq_category_id = None, fq_wallet_id = None\<rparr>"

definition ex_two_selection :: TransactionSelection where
  "ex_two_selection = \<lparr>ts_spaceId = 1, ts_from = 5000, ts_to = 5999, ts_filters = no_filters\<rparr>"

definition ex_loaded :: "string \<Rightarrow> int \<Rightarrow> int \<Rightarrow> LoadedTransaction" where
  "ex_loaded i t a = \<lparr>lt_transaction = ex_transaction i t a, lt_wallet = ex_wallet 7,
     lt_category = ex_category 2 ''Food'' EXPENSE False\<rparr>"

lemma ex_two_feed: "feed_of like ex_two_selection ex_two = [ex_loaded ''c'' 5200 100, ex_loaded ''a'' 5100 250]"
proof -
  have "feed_scope like ex_two_selection ex_two = [ex_loaded ''a'' 5100 250, ex_loaded ''c'' 5200 100]"
    by (simp add: feed_scope_def selectionScope_def selectionWallets_def ex_two_selection_def no_filters_def
        in_period_def clampToStored_def matches_search_def TIMESTAMP_MIN_def STORED_TIMESTAMP_MAX_def ex_two_def
        joined_def load_def List.map_filter_def Let_def lookup_eval ex_tables ex_loaded_def)
  then show ?thesis by (simp add: feed_of_def in_direction_def positionOf_def ex_loaded_def ex_transaction_def)
qed

lemma ex_two_readable: "cursors_readable ex_rt ex_cursors ''d'' (feed_of like ex_two_selection ex_two)"
proof -
  have "hd (direction_text d) = (if d = Older then CHR ''o'' else CHR ''n'')" for d
    by (cases d) (simp_all add: direction_text_def)
  moreover have "(if (if d = Older then CHR ''o'' else CHR ''n'') = CHR ''o'' then Older else Newer) = d" for d
    by (cases d) simp_all
  moreover have "is_base64url_char (CHR ''o'')" "is_base64url_char (CHR ''n'')" "is_base64url_char (CHR ''a'')"
    "is_base64url_char (CHR ''c'')" by code_simp+
  ultimately show ?thesis
    by (simp add: cursors_readable_def ex_two_feed ex_rt_def ex_cursors_def ex_loaded_def positionOf_def
        ex_transaction_def cursor_payload_def FEED_CURSOR_MAX_LENGTH_def ex_time_def Let_def)
qed

lemma scrolling_reads_all_witness:
  "scroll_down (\<lambda>cursor. getFeed ex_rt ex_cursors ex_calendar Some (=) 1 1 (ex_feed_query\<lparr>fq_cursor := cursor\<rparr>) ex_two)
     2 None = Some (map toTransactionView [ex_loaded ''c'' 5200 100, ex_loaded ''a'' 5100 250])"
proof -
  have "parseIsoDate ex_rt ''2026-09-15T10:00:00.000Z'' = Some 5000" "parseIsoDate ex_rt ''2026-09-15T10:00:00.999Z'' = Some 5999"
    by (simp_all add: date_eval ex_rt_def ex_date_def is_digit_def digits_val_def digit_val_def)
  then have selection: "toFeedSelection ex_rt 1 ex_feed_query = Inr ex_two_selection"
    by (simp add: toFeedSelection_def toDate_def need_def ex_feed_query_def ex_two_selection_def no_filters_def)
  have "checkHistoryQuery 1 1 (ts_from ex_two_selection) (ts_to ex_two_selection) (ts_filters ex_two_selection) ex_two = Inr ()"
    by (simp add: checkHistoryQuery_def assertMembership_def ex_two_selection_def no_filters_def ex_two_def lookup_eval ex_tables)
  moreover have "history_ok ex_two" by (simp add: history_ok_def ex_two_def ex_tables)
  moreover have "''d'' = selectionDigest ex_cursors ex_two_selection (the (Some (fq_time_zone ex_feed_query)))"
    by (simp add: selectionDigest_def ex_cursors_def)
  ultimately show ?thesis
    using scrolling_reads_all [OF _ selection _ _ _ ex_two_readable, where pages = 2 and zone = Some and cal = ex_calendar]
    by (simp add: ex_two_feed) (simp add: ex_feed_query_def)
qed

end
