(* ===== verification/Reachability.thy ===== *)
theory Reachability
  imports Prelude
begin

text \<open>
  Two interfaces of a step relation: a property every step keeps, and an order every step follows.
  What holds of one step then holds of any number of them.
\<close>

locale transition_invariant =
  fixes step :: "'s \<Rightarrow> 's \<Rightarrow> bool" and inv :: "'s \<Rightarrow> bool"
  assumes preserved: "inv s \<Longrightarrow> step s s' \<Longrightarrow> inv s'"
begin

lemma reachable: "step\<^sup>*\<^sup>* s s' \<Longrightarrow> inv s \<Longrightarrow> inv s'"
  by (induction rule: rtranclp_induct) (auto intro: preserved)

end

locale transition_order = transition_invariant step inv
  for step :: "'s \<Rightarrow> 's \<Rightarrow> bool" and inv :: "'s \<Rightarrow> bool" +
  fixes below :: "'s \<Rightarrow> 's \<Rightarrow> bool"
  assumes below_refl: "below s s"
    and below_trans: "below s s' \<Longrightarrow> below s' s'' \<Longrightarrow> below s s''"
    and step_below: "inv s \<Longrightarrow> step s s' \<Longrightarrow> below s s'"
begin

lemma steps_below:
  assumes "step\<^sup>*\<^sup>* s s'" and "inv s"
  shows "below s s'"
  using assms
proof (induction rule: rtranclp_induct)
  case (step s1 s2)
  then have "inv s1" using reachable by blast
  with step show ?case using step_below below_trans by blast
qed (simp add: below_refl)

end

end
