(* ===== verification/TransactionHistory.thy ===== *)
theory TransactionHistory
  imports TransactionFacts Reachability
begin

text \<open>
  The history of transactions as a state machine: its steps are the successful writes of the
  service, by any user in any space, with or without idempotency keys. The integrity of the history
  is an invariant of these steps, versions only grow, and client operations are never forgotten.
\<close>

section \<open>Writes under their locks\<close>

lemma write_unit_cases:
  assumes "write_unit rt to_json now u sp operation key payload work s = Inr (reply, s')"
  obtains (replayed) body t where "reply = Replayed body" and "s' = s\<lparr>idempotency_keys := t\<rparr>"
  | (fresh) r s1 t t' where "reply = Fresh r" and "work (s\<lparr>idempotency_keys := t\<rparr>) = Inr (r, s1)"
      and "s' = s1\<lparr>idempotency_keys := t'\<rparr>"
proof (cases key)
  case None
  then obtain r where r: "work s = Inr (r, s')" "reply = Fresh r"
    using assms by (auto simp: write_unit_def and_then_eq_Inr)
  have "s\<lparr>idempotency_keys := idempotency_keys s\<rparr> = s" and "s'\<lparr>idempotency_keys := idempotency_keys s'\<rparr> = s'"
    by simp_all
  with r show ?thesis using fresh [of r "idempotency_keys s" s' "idempotency_keys s'"] by simp
next
  case (Some k)
  with assms have "run_idempotent (rt_claims rt) to_json
      \<lparr>sc_user_id = u, sc_space_id = sp, sc_operation = operation, sc_idempotency_key = k\<rparr>
      (hashPayload (rt_digest rt) payload) now work s = Inr (reply, s')"
    by (auto simp: write_unit_def and_then_eq_Inr)
  then show ?thesis by (cases rule: run_idempotent_cases) (erule (1) replayed, erule (2) fresh)
qed

lemma write_unit_refuses_strangers:
  "\<not> is_member sp u s \<Longrightarrow> write_unit rt to_json now u sp operation key payload work s =
    Inl (api_error FORBIDDEN_SPACE FORBIDDEN)"
  by (simp add: write_unit_def lockMembership_refused)

lemma write_unit_keeps_members:
  assumes "\<And>s r s'. work s = Inr (r, s') \<Longrightarrow> members s' = members s"
    and "write_unit rt to_json now u sp operation key payload work s = Inr (reply, s')"
  shows "members s' = members s"
  using assms(2) by (cases rule: write_unit_cases) (auto dest: assms(1))

lemma create_work_keeps_members: "create_work rt now uuid sp dto s = Inr (r, s') \<Longrightarrow> members s' = members s"
  by (erule create_workE) simp

lemma update_work_frame:
  assumes "update_work rt now sp i v dto s = Inr (r, s')"
  shows "\<exists>ts. s' = s\<lparr>transactions := ts\<rparr>"
proof -
  from assms obtain changes where
    "(if changes \<noteq> no_changes then update_transaction i changes s else Inr s) = Inr s'"
    by (rule update_workE)
  then show ?thesis
    by (cases "changes = no_changes") (auto simp: update_transaction_eq intro: exI [of _ "transactions s"])
qed

lemma remove_work_keeps_members: "remove_work now sp i v s = Inr (r, s') \<Longrightarrow> members s' = members s"
  by (erule remove_workE) simp

lemma create_keeps_members:
  "create rt to_json now uuid u sp dto options s = Inr (reply, s') \<Longrightarrow> members s' = members s"
  unfolding create_def by (erule write_unit_keeps_members [rotated]) (rule create_work_keeps_members)

lemma update_keeps_members:
  assumes "update rt to_json now u sp i dto options s = Inr (reply, s')"
  shows "members s' = members s"
proof -
  from assms obtain v where "write_unit rt to_json now u sp ''transactions.update'' (wo_idempotencyKey options)
      (update_payload i v dto) (update_work rt now sp i v dto) s = Inr (reply, s')"
    unfolding update_def by (elim and_thenE)
  then show ?thesis
    by (rule write_unit_keeps_members [rotated]) (use update_work_frame in fastforce)
qed

lemma remove_keeps_members:
  assumes "remove_transaction rt to_json now u sp i options s = Inr (reply, s')"
  shows "members s' = members s"
proof -
  from assms obtain v where "write_unit rt to_json now u sp ''transactions.delete'' (wo_idempotencyKey options)
      (remove_payload i v) (remove_work now sp i v) s = Inr (reply, s')"
    unfolding remove_transaction_def by (elim and_thenE)
  then show ?thesis
    by (rule write_unit_keeps_members [rotated]) (rule remove_work_keeps_members)
qed

lemma writes_refuse_strangers:
  assumes "\<not> is_member sp u s"
  shows "create rt to_json now uuid u sp dto options s = Inl (api_error FORBIDDEN_SPACE FORBIDDEN)"
    and "update rt to_json' now u sp i dto' \<lparr>wo_idempotencyKey = key, wo_expectedVersion = Some v\<rparr> s =
      Inl (api_error FORBIDDEN_SPACE FORBIDDEN)"
    and "remove_transaction rt to_json'' now u sp i \<lparr>wo_idempotencyKey = key, wo_expectedVersion = Some v\<rparr> s =
      Inl (api_error FORBIDDEN_SPACE FORBIDDEN)"
  using assms by (simp_all add: create_def update_def remove_transaction_def requireVersion_def
      write_unit_refuses_strangers)

interpretation created: space_write
  "\<lambda>u sp (dto, options) s. create rt to_json now uuid u sp dto options s" for rt to_json now uuid
  by unfold_locales (auto simp: writes_refuse_strangers dest: create_keeps_members)

interpretation updated: space_write
  "\<lambda>u sp (i, dto, key, v) s. update rt to_json now u sp i dto
     \<lparr>wo_idempotencyKey = key, wo_expectedVersion = Some v\<rparr> s" for rt to_json now
  by unfold_locales (auto simp: writes_refuse_strangers dest: update_keeps_members)

interpretation removed: space_write
  "\<lambda>u sp (i, key, v) s. remove_transaction rt to_json now u sp i
     \<lparr>wo_idempotencyKey = key, wo_expectedVersion = Some v\<rparr> s" for rt to_json now
  by unfold_locales (auto simp: writes_refuse_strangers dest: remove_keeps_members)

interpretation keyed_create: keyed_work "\<lambda>dto. create_work rt now uuid sp dto" for rt now uuid sp
  by unfold_locales (erule create_workE, simp)

interpretation keyed_update: keyed_work "\<lambda>(i, v, dto). update_work rt now sp i v dto" for rt now sp
  by unfold_locales (auto dest: update_work_frame)

interpretation keyed_remove: keyed_work "\<lambda>(i, v). remove_work now sp i v" for now sp
  by unfold_locales (auto elim!: remove_workE)

section \<open>Integrity\<close>

text \<open>
  Ids are unique; every transaction has its wallet and its category, in one space, and an amount a
  column can hold.
\<close>

definition transaction_ok :: "db \<Rightarrow> transaction \<Rightarrow> bool" where
  "transaction_ok s t \<longleftrightarrow> 0 \<le> t_amount t \<and> t_amount t \<le> MAX_MONEY_INPUT_CENTS \<and>
     (\<exists>w c. find_wallet (t_wallet_id t) s = Some w \<and> find_category (t_category_id t) s = Some c \<and>
        w_space_id w = cat_space_id c)"

text \<open>
  An operation belongs to one transaction and one space; it is marked deleted exactly when its
  transaction is gone.
\<close>

definition operation_ok :: "db \<Rightarrow> transaction_operation \<Rightarrow> bool" where
  "operation_ok s o' \<longleftrightarrow> (case find_transaction (op_transaction_id o') s of
       None \<Rightarrow> op_deleted_at o' \<noteq> None
     | Some t \<Rightarrow> op_deleted_at o' = None \<and>
         (\<exists>w. find_wallet (t_wallet_id t) s = Some w \<and> w_space_id w = op_space_id o'))"

definition history_inv :: "db \<Rightarrow> bool" where
  "history_inv s \<longleftrightarrow> distinct (map t_id (transactions s)) \<and>
     distinct (map w_id (rows (wallets s))) \<and> distinct (map cat_id (rows (categories s))) \<and>
     (\<forall>t \<in> set (transactions s). transaction_ok s t) \<and>
     distinct (map op_transaction_id (rows (operations s))) \<and>
     distinct (map (\<lambda>o'. (op_space_id o', op_operation_id o')) (rows (operations s))) \<and>
     (\<forall>o' \<in> set (rows (operations s)). operation_ok s o')"

lemma history_inv_ok: "history_inv s \<Longrightarrow> history_ok s"
  by (simp add: history_inv_def history_ok_def)

lemma history_inv_keys [simp]: "history_inv (s\<lparr>idempotency_keys := t\<rparr>) = history_inv s"
  by (simp add: history_inv_def transaction_ok_def operation_ok_def find_wallet_def find_category_def
      find_transaction_def split: option.split)

lemma find_transaction_unique:
  "history_inv s \<Longrightarrow> t \<in> set (transactions s) \<Longrightarrow> find_transaction (t_id t) s = Some t"
  unfolding find_transaction_def history_inv_def by (rule find_row_key) auto

lemma find_transaction_Some: "find_transaction i s = Some t \<Longrightarrow> t \<in> set (transactions s) \<and> t_id t = i"
  unfolding find_transaction_def by (drule find_row_Some) simp

lemma locked_wallet:
  "distinct (map w_id (rows (wallets s))) \<Longrightarrow> head_opt (lockRows w_id [i] (rows (wallets s))) = find_wallet i s"
  by (simp add: lockRows_one find_wallet_def)

lemma locked_category:
  "distinct (map cat_id (rows (categories s))) \<Longrightarrow>
    head_opt (lockRows cat_id [i] (rows (categories s))) = find_category i s"
  by (simp add: lockRows_one find_category_def)

text \<open>An id no transaction has or had.\<close>

definition unused_id :: "string \<Rightarrow> db \<Rightarrow> bool" where
  "unused_id uuid s \<longleftrightarrow> (\<forall>t \<in> set (transactions s). t_id t \<noteq> uuid) \<and>
     (\<forall>o' \<in> set (rows (operations s)). op_transaction_id o' \<noteq> uuid)"

lemma accepted_amount:
  assumes "parseMoneyInput x = Some c" and "matchMoney x = Some a"
  shows "0 \<le> a \<and> a \<le> MAX_MONEY_INPUT_CENTS"
  using assms matchMoney_of_input [OF assms(1)] parseMoneyInput_range [OF assms(1)] by simp

lemma create_keeps_integrity:
  assumes inv: "history_inv s" and valid: "valid_create rt now' dto" and unused: "unused_id uuid s"
    and run: "create_work rt now uuid sp dto s = Inr (r, s')"
  shows "history_inv s'"
proof -
  from run obtain w c d a where allowed: "create_allowed rt uuid sp dto s w c d a"
    and s': "s' = after_create now uuid sp dto d a s" by (rule create_workE)
  let ?t = "new_transaction uuid dto d a"
  have links: "find_wallet (cd_wallet_id dto) s = Some w" "w_space_id w = sp"
      "find_category (cd_category_id dto) s = Some c" "cat_space_id c = sp"
    using allowed inv by (simp_all add: create_allowed_def locked_wallet locked_category history_inv_def)
  have "0 \<le> a \<and> a \<le> MAX_MONEY_INPUT_CENTS"
    using valid allowed accepted_amount by (auto simp: valid_create_def isMoneyAmount_def create_allowed_def)
  with links have new_ok: "transaction_ok s' ?t"
    by (simp add: transaction_ok_def s')
  have old_ok: "transaction_ok s' t" if "t \<in> set (transactions s)" for t
    using inv that by (auto simp: history_inv_def transaction_ok_def s')
  have found: "find_transaction i s' = (if i = uuid then Some ?t else find_transaction i s)" for i
    using allowed by (auto simp: create_allowed_def s' find_transaction_def find_row_append split: option.split)
  have old_ops: "operation_ok s' o'" if "o' \<in> set (rows (operations s))" for o'
    using inv that unused by (auto simp: history_inv_def operation_ok_def unused_id_def found)
      (auto simp: s' split: option.splits)
  have new_op: "operation_ok s' (operation_row now sp o' uuid i)" for o' i
    using links by (auto simp: operation_ok_def operation_row_def found) (simp add: s')
  show ?thesis
    using inv unused allowed new_ok old_ok old_ops new_op
    unfolding history_inv_def
    by (auto simp: operations_after_create s' unused_id_def create_allowed_def find_operation_def
        find_row_None operation_row_def image_iff split: option.split)
qed

lemma find_transaction_update:
  "find_transaction j (s\<lparr>transactions := update_rows (\<lambda>t. t_id t = i) (apply_changes ch a) (transactions s)\<rparr>) =
    map_option (\<lambda>t. if t_id t = i then apply_changes ch a t else t) (find_transaction j s)"
  by (simp add: find_transaction_def find_row_update_key)

lemma or_old_cases: "(\<And>y. v = Some y \<Longrightarrow> P y) \<Longrightarrow> P x \<Longrightarrow> P (or_old v x)"
  by (cases v) auto

lemma positive_amount: "isPositiveAmount a \<Longrightarrow> \<exists>c. parseMoneyInput a = Some c"
  by (auto simp: isPositiveAmount_def split: option.splits)

text \<open>Where an update leaves the record: its wallet and category stay in the space.\<close>

lemma update_links:
  assumes inv: "history_inv s" and run: "update_work rt now sp i v dto s = Inr (r, s')"
  obtains (same) "s' = s"
  | (changed) t ch a where "find_transaction i s = Some t"
      and "s' = s\<lparr>transactions := update_rows (\<lambda>t. t_id t = i) (apply_changes ch a) (transactions s)\<rparr>"
      and "transaction_ok s' (apply_changes ch a t)"
      and "\<exists>w. find_wallet (t_wallet_id t) s = Some w \<and> w_space_id w = sp"
      and "\<exists>w. find_wallet (t_wallet_id (apply_changes ch a t)) s = Some w \<and> w_space_id w = sp"
proof -
  from run obtain l ch cat locked where
    l: "getOneInSpace sp i s = Some l"
    and new: "assertNewValues now ch = Inr ()"
    and locked: "locked = lockRows w_id (t_wallet_id (lt_transaction l) #
           (case tch_wallet_id ch of None \<Rightarrow> [] | Some w \<Rightarrow> [w])) (rows (wallets s))"
    and wallet: "\<And>w. tch_wallet_id ch = Some w \<Longrightarrow> \<exists>x. find_row (\<lambda>x. w_id x = w) locked = Some x \<and>
           w_space_id x = sp \<and> \<not> w_is_deleted x"
    and category: "\<And>c. tch_category_id ch = Some c \<Longrightarrow>
        head_opt (lockRows cat_id [c] (rows (categories s))) = Some cat \<and>
           cat_space_id cat = sp \<and> \<not> cat_is_system cat \<and> cat_is_active cat"
    and s': "(if ch \<noteq> no_changes then update_transaction i ch s else Inr s) = Inr s'"
    by (rule update_workE) (rule that, assumption+)
  show thesis
  proof (cases "ch = no_changes")
    case True
    with s' same show ?thesis by simp
  next
    case False
    with s' obtain a where eq: "s' = s\<lparr>transactions :=
        update_rows (\<lambda>t. t_id t = i) (apply_changes ch a) (transactions s)\<rparr>"
      and a: "case tch_amount ch of None \<Rightarrow> a = None
       | Some x \<Rightarrow> (\<exists>c. a = Some c \<and> matchMoney x = Some c \<and> \<bar>c\<bar> \<le> MAX_MONEY_INPUT_CENTS)"
      by (auto simp: update_transaction_eq)
    let ?t = "lt_transaction l"
    note l = getOneInSpace_Some [OF l]
    have t: "find_transaction i s = Some ?t"
      using find_transaction_unique [OF inv l(1)] l(2) by simp
    have own: "\<exists>w. find_wallet (t_wallet_id ?t) s = Some w \<and> w_space_id w = sp"
      using l by simp
    have moved: "\<exists>w. find_wallet (t_wallet_id (apply_changes ch a ?t)) s = Some w \<and> w_space_id w = sp"
      unfolding apply_changes_simps
    proof (rule or_old_cases)
      fix j assume "tch_wallet_id ch = Some j"
      then obtain x where x: "find_row (\<lambda>x. w_id x = j) locked = Some x" "w_space_id x = sp" using wallet by blast
      then have "x \<in> set (rows (wallets s))" "w_id x = j"
        using find_row_Some [OF x(1)] by (auto simp: locked set_lockRows)
      with inv x(2) show "\<exists>w. find_wallet j s = Some w \<and> w_space_id w = sp"
        by (auto simp: find_wallet_def history_inv_def intro!: find_unique)
    qed (rule own)
    have "\<exists>c. find_category (t_category_id (apply_changes ch a ?t)) s = Some c \<and> cat_space_id c = sp"
      unfolding apply_changes_simps
    proof (rule or_old_cases)
      fix j assume "tch_category_id ch = Some j"
      then show "\<exists>c. find_category j s = Some c \<and> cat_space_id c = sp"
        using category inv by (auto simp: locked_category history_inv_def)
    next
      have "transaction_ok s ?t" using inv l(1) by (simp add: history_inv_def)
      with l show "\<exists>c. find_category (t_category_id ?t) s = Some c \<and> cat_space_id c = sp"
        by (auto simp: transaction_ok_def)
    qed
    moreover have "0 \<le> t_amount (apply_changes ch a ?t) \<and>
        t_amount (apply_changes ch a ?t) \<le> MAX_MONEY_INPUT_CENTS"
      unfolding apply_changes_simps
    proof (rule or_old_cases)
      fix c assume c: "a = Some c"
      with a obtain x where "tch_amount ch = Some x" "matchMoney x = Some c"
        by (cases "tch_amount ch") auto
      moreover from this new have "isPositiveAmount x"
        by (simp add: assertNewValues_def and_then_eq_Inr guard_eq_Inr)
      ultimately show "0 \<le> c \<and> c \<le> MAX_MONEY_INPUT_CENTS"
        using positive_amount accepted_amount by blast
    next
      show "0 \<le> t_amount ?t \<and> t_amount ?t \<le> MAX_MONEY_INPUT_CENTS"
        using inv l(1) by (simp add: history_inv_def transaction_ok_def)
    qed
    ultimately have "transaction_ok s' (apply_changes ch a ?t)"
      using moved by (auto simp: transaction_ok_def eq find_wallet_def find_category_def)
    from changed [OF t eq this own moved] show ?thesis .
  qed
qed

lemma update_keeps_integrity:
  assumes inv: "history_inv s" and run: "update_work rt now sp i v dto s = Inr (r, s')"
  shows "history_inv s'"
  using inv run
proof (cases rule: update_links)
  case (changed t ch a)
  let ?f = "apply_changes ch a"
  have found: "find_transaction j s' = map_option (\<lambda>t. if t_id t = i then ?f t else t) (find_transaction j s)" for j
    unfolding changed(2) by (rule find_transaction_update)
  have trans: "transaction_ok s' x" if "x \<in> set (transactions s')" for x
  proof (cases "t_id x = i")
    case True
    from that obtain y where y: "y \<in> set (transactions s)" and x: "x = (if t_id y = i then ?f y else y)"
      by (auto simp: changed(2) set_update_rows)
    have y_id: "t_id y = i" using True x by (cases "t_id y = i") simp_all
    then have "Some y = Some t"
      using find_transaction_unique [OF inv y] changed(1) by simp
    with x y_id changed(3) show ?thesis by simp
  next
    case False
    with that have "x \<in> set (transactions s)" by (auto simp: changed(2) set_update_rows)
    with inv show ?thesis
      by (auto simp: history_inv_def transaction_ok_def changed(2) find_wallet_def find_category_def)
  qed
  have ops: "operation_ok s' o'" if "o' \<in> set (rows (operations s))" for o'
  proof -
    from inv that have ok: "operation_ok s o'" by (simp add: history_inv_def)
    have wallet: "find_wallet j s' = find_wallet j s" for j by (simp add: changed(2) find_wallet_def)
    show ?thesis
    proof (cases "op_transaction_id o' = i")
      case True
      with ok changed(1,4,5) show ?thesis
        using find_transaction_Some [OF changed(1)] by (auto simp: operation_ok_def found wallet)
    next
      case False
      with ok show ?thesis
        by (auto simp: operation_ok_def found wallet dest: find_transaction_Some split: option.splits)
    qed
  qed
  show ?thesis
    using inv trans ops by (simp add: history_inv_def changed(2) map_key_update_rows)
qed (use inv in simp)

lemma remove_keeps_integrity:
  assumes inv: "history_inv s" and run: "remove_work now sp i v s = Inr (r, s')"
  shows "history_inv s'"
proof -
  from run have s': "s' = s\<lparr>transactions := delete_rows (\<lambda>t. t_id t = i) (transactions s),
          operations := (operations s)\<lparr>rows := update_rows (\<lambda>o'. op_transaction_id o' = i)
            (\<lambda>o'. o'\<lparr>op_deleted_at := Some now\<rparr>) (rows (operations s))\<rparr>\<rparr>"
    by (rule remove_workE)
  have found: "find_transaction j s' = (if j = i then None else find_transaction j s)" for j
    by (simp add: find_transaction_def s' find_row_delete_key)
  have wallet: "find_wallet j s' = find_wallet j s" for j by (simp add: s' find_wallet_def)
  have trans: "transaction_ok s' x" if "x \<in> set (transactions s')" for x
    using that inv by (auto simp: history_inv_def transaction_ok_def s' find_wallet_def find_category_def)
  have ops: "operation_ok s' o'" if o': "o' \<in> set (rows (operations s'))" for o'
  proof -
    from o' obtain p where p: "p \<in> set (rows (operations s))"
      "o' = (if op_transaction_id p = i then p\<lparr>op_deleted_at := Some now\<rparr> else p)"
      by (auto simp: s' set_update_rows)
    then have "operation_ok s p" using inv by (simp add: history_inv_def)
    with p show ?thesis by (auto simp: operation_ok_def found wallet split: option.splits)
  qed
  show ?thesis
    using inv trans ops
    by (simp add: history_inv_def s' map_key_update_rows distinct_key_delete_rows)
qed

section \<open>The state machine\<close>

text \<open>
  One successful write, on the state and the set of ids handed out so far. The id of a new
  transaction is one never handed out, as a random UUID is.
\<close>

inductive history_step ::
  "runtime \<Rightarrow> db \<times> string set \<Rightarrow> db \<times> string set \<Rightarrow> bool" for rt where
  create: "\<lbrakk>create rt to_json now uuid u sp dto options s = Inr (reply, s'); valid_create rt now' dto;
     uuid \<notin> used\<rbrakk> \<Longrightarrow> history_step rt (s, used) (s', insert uuid used)"
| update: "update rt to_json' now u sp i dto' options s = Inr (reply', s') \<Longrightarrow>
     history_step rt (s, used) (s', used)"
| remove: "remove_transaction rt to_json'' now u sp i options s = Inr (reply'', s') \<Longrightarrow>
     history_step rt (s, used) (s', used)"

text \<open>Every id in the database has been handed out.\<close>

definition ids_used :: "db \<Rightarrow> string set \<Rightarrow> bool" where
  "ids_used s used \<longleftrightarrow> t_id ` set (transactions s) \<subseteq> used \<and>
     op_transaction_id ` set (rows (operations s)) \<subseteq> used"

definition state_inv :: "db \<times> string set \<Rightarrow> bool" where
  "state_inv c \<longleftrightarrow> history_inv (fst c) \<and> ids_used (fst c) (snd c)"

text \<open>A step is a write of the database with the idempotency keys put aside, or none.\<close>

lemma history_step_cases:
  assumes "history_step rt c c'"
  obtains (idle) t where "fst c' = (fst c)\<lparr>idempotency_keys := t\<rparr>" and "snd c \<subseteq> snd c'"
  | (create) now uuid sp dto r s1 now' t t' where "valid_create rt now' dto" and "uuid \<notin> snd c"
      and "create_work rt now uuid sp dto ((fst c)\<lparr>idempotency_keys := t\<rparr>) = Inr (r, s1)"
      and "c' = (s1\<lparr>idempotency_keys := t'\<rparr>, insert uuid (snd c))"
  | (update) now sp i v dto' r' s1 t t' where
      "update_work rt now sp i v dto' ((fst c)\<lparr>idempotency_keys := t\<rparr>) = Inr (r', s1)"
      and "c' = (s1\<lparr>idempotency_keys := t'\<rparr>, snd c)"
  | (remove) now sp i v r'' s1 t t' where
      "remove_work now sp i v ((fst c)\<lparr>idempotency_keys := t\<rparr>) = Inr (r'', s1)"
      and "c' = (s1\<lparr>idempotency_keys := t'\<rparr>, snd c)"
  using assms
proof (cases rule: history_step.cases)
  case (create to_json now uuid u sp dto options s reply s' now' used)
  from create(3) show thesis
    unfolding create_def
  proof (cases rule: write_unit_cases)
    case replayed
    with create idle show thesis by auto
  next
    case (fresh r s1 t t')
    with create that(2) show thesis by auto
  qed
next
  case (update to_json' now u sp i dto' options s reply' s' used)
  from update(3) obtain v where "write_unit rt to_json' now u sp ''transactions.update''
      (wo_idempotencyKey options) (update_payload i v dto') (update_work rt now sp i v dto') s = Inr (reply', s')"
    unfolding update_def by (elim and_thenE)
  then show thesis
  proof (cases rule: write_unit_cases)
    case replayed
    with update idle show thesis by auto
  next
    case (fresh r s1 t t')
    with update that(3) show thesis by auto
  qed
next
  case (remove to_json'' now u sp i options s reply'' s' used)
  from remove(3) obtain v where "write_unit rt to_json'' now u sp ''transactions.delete''
      (wo_idempotencyKey options) (remove_payload i v) (remove_work now sp i v) s = Inr (reply'', s')"
    unfolding remove_transaction_def by (elim and_thenE)
  then show thesis
  proof (cases rule: write_unit_cases)
    case replayed
    with remove idle show thesis by auto
  next
    case (fresh r s1 t t')
    with remove that(4) show thesis by auto
  qed
qed

section \<open>What steps keep\<close>

lemma ids_used_keys [simp]: "ids_used (s\<lparr>idempotency_keys := t\<rparr>) u = ids_used s u"
  by (simp add: ids_used_def)

lemma ids_used_unused: "ids_used s u \<Longrightarrow> uuid \<notin> u \<Longrightarrow> unused_id uuid s"
  by (auto simp: ids_used_def unused_id_def)

lemma update_ids:
  assumes "history_inv s" and "update_work rt now sp i v dto s = Inr (r, s')"
  shows "t_id ` set (transactions s') = t_id ` set (transactions s)" and "operations s' = operations s"
proof -
  have ids: "map t_id (update_rows (\<lambda>t. t_id t = i) (apply_changes ch a) ts) = map t_id ts" for ch a ts
    by (simp add: map_key_update_rows)
  have "t_id ` set (transactions s') = t_id ` set (transactions s) \<and> operations s' = operations s"
    using assms
  proof (cases rule: update_links)
    case (changed t ch a)
    then show ?thesis
      using arg_cong [OF ids [of ch a "transactions s"], of set] by simp
  qed simp
  then show "t_id ` set (transactions s') = t_id ` set (transactions s)" and "operations s' = operations s"
    by simp_all
qed

lemma history_step_inv:
  assumes "state_inv c" and "history_step rt c c'"
  shows "state_inv c'"
  using assms(2)
proof (cases rule: history_step_cases)
  case (idle t)
  with assms(1) show ?thesis by (auto simp: state_inv_def ids_used_def)
next
  case (create now uuid sp dto r s1 now' t t')
  let ?s = "(fst c)\<lparr>idempotency_keys := t\<rparr>"
  have inv: "history_inv ?s" and used: "ids_used ?s (snd c)"
    using assms(1) by (simp_all add: state_inv_def)
  from create(3) obtain w cat d a where s1: "s1 = after_create now uuid sp dto d a ?s"
    by (rule create_workE)
  have "history_inv s1"
    by (rule create_keeps_integrity [OF inv create(1) ids_used_unused [OF used create(2)] create(3)])
  moreover have "ids_used s1 (insert uuid (snd c))"
    using used by (auto simp: ids_used_def s1 operations_after_create operation_row_def split: option.split)
  ultimately show ?thesis by (simp add: state_inv_def create(4))
next
  case (update now sp i v dto' r' s1 t t')
  let ?s = "(fst c)\<lparr>idempotency_keys := t\<rparr>"
  have inv: "history_inv ?s" and used: "ids_used ?s (snd c)"
    using assms(1) by (simp_all add: state_inv_def)
  have "history_inv s1" by (rule update_keeps_integrity [OF inv update(1)])
  moreover have "ids_used s1 (snd c)"
    using used update_ids [OF inv update(1)] by (simp add: ids_used_def)
  ultimately show ?thesis by (simp add: state_inv_def update(2))
next
  case (remove now sp i v r'' s1 t t')
  let ?s = "(fst c)\<lparr>idempotency_keys := t\<rparr>"
  have inv: "history_inv ?s" and used: "ids_used ?s (snd c)"
    using assms(1) by (simp_all add: state_inv_def)
  have "history_inv s1" by (rule remove_keeps_integrity [OF inv remove(1)])
  moreover from remove(1) have "ids_used s1 (snd c)"
    by (rule remove_workE) (use used in \<open>auto simp: ids_used_def set_update_rows image_iff\<close>)
  ultimately show ?thesis by (simp add: state_inv_def remove(2))
qed

text \<open>
  What a later state keeps of an earlier one: a record whose id was handed out before is the earlier
  record or has a higher version, and every client operation is still there.
\<close>

definition operation_key :: "transaction_operation \<Rightarrow> nat \<times> string \<times> string \<times> int" where
  "operation_key o' = (op_space_id o', op_operation_id o', op_transaction_id o', op_created_at o')"

definition state_below :: "db \<times> string set \<Rightarrow> db \<times> string set \<Rightarrow> bool" where
  "state_below c c' \<longleftrightarrow> snd c \<subseteq> snd c' \<and>
     (\<forall>t' \<in> set (transactions (fst c')). t_id t' \<in> snd c \<longrightarrow>
        (\<exists>t \<in> set (transactions (fst c)). t_id t = t_id t' \<and> (t = t' \<or> t_version t < t_version t'))) \<and>
     operation_key ` set (rows (operations (fst c))) \<subseteq> operation_key ` set (rows (operations (fst c')))"

lemma state_below_refl: "state_below c c"
  by (auto simp: state_below_def)

lemma state_below_trans:
  assumes "state_below c c'" and "state_below c' c''"
  shows "state_below c c''"
  unfolding state_below_def
proof (intro conjI ballI impI)
  fix t'' assume "t'' \<in> set (transactions (fst c''))" and old: "t_id t'' \<in> snd c"
  moreover have "snd c \<subseteq> snd c'" using assms(1) by (simp add: state_below_def)
  ultimately obtain t' where t': "t' \<in> set (transactions (fst c'))" "t_id t' = t_id t''"
      "t' = t'' \<or> t_version t' < t_version t''"
    using assms(2) unfolding state_below_def by blast
  with old obtain t where "t \<in> set (transactions (fst c))" "t_id t = t_id t'"
      "t = t' \<or> t_version t < t_version t'"
    using assms(1) unfolding state_below_def by force
  with t' show "\<exists>t \<in> set (transactions (fst c)). t_id t = t_id t'' \<and> (t = t'' \<or> t_version t < t_version t'')"
    by (intro bexI [of _ t]) auto
next
  show "snd c \<subseteq> snd c''"
    using assms unfolding state_below_def by (meson subset_trans)
  show "operation_key ` set (rows (operations (fst c))) \<subseteq> operation_key ` set (rows (operations (fst c'')))"
    using assms unfolding state_below_def by (meson subset_trans)
qed

lemma history_step_below:
  assumes "state_inv c" and "history_step rt c c'"
  shows "state_below c c'"
  using assms(2)
proof (cases rule: history_step_cases)
  case (idle t)
  then show ?thesis by (auto simp: state_below_def)
next
  case (create now uuid sp dto r s1 now' t t')
  from create(3) obtain w cat d a where "s1 = after_create now uuid sp dto d a ((fst c)\<lparr>idempotency_keys := t\<rparr>)"
    by (rule create_workE)
  with create(2,4) show ?thesis
    by (auto simp: state_below_def operations_after_create split: option.split)
next
  case (update now sp i v dto' r' s1 t t')
  have "history_inv ((fst c)\<lparr>idempotency_keys := t\<rparr>)" using assms(1) by (simp add: state_inv_def)
  from this update(1) show ?thesis
    by (cases rule: update_links)
      (auto simp: state_below_def update(2) set_update_rows)
next
  case (remove now sp i v r'' s1 t t')
  have keys: "operation_key ` set (update_rows p (\<lambda>o'. o'\<lparr>op_deleted_at := Some now\<rparr>) rs) = operation_key ` set rs"
    for p rs
  proof -
    have "map operation_key (update_rows p (\<lambda>o'. o'\<lparr>op_deleted_at := Some now\<rparr>) rs) = map operation_key rs"
      by (rule map_key_update_rows) (simp add: operation_key_def)
    then show ?thesis by (metis list.set_map)
  qed
  from remove(1) show ?thesis
    by (rule remove_workE) (auto simp: state_below_def remove(2) keys)
qed

interpretation history: transition_order "history_step rt" state_inv state_below for rt
  by unfold_locales (blast intro: history_step_inv history_step_below state_below_refl state_below_trans)+

end
