(* ===== verification/Wallets.thy ===== *)
theory Wallets
  imports TransactionHistory
begin

text \<open>
  \<open>modules/wallets/wallets.service.ts\<close>, and the unit of work the services of wallets, categories
  and limits share. A wallet's balance is no column: it is summed from the wallet's transactions.
\<close>

section \<open>Writes in a space\<close>

text \<open>\<open>write\<close> of the three services: membership and space are locked, then the work runs.\<close>

definition write_in_space ::
  "nat \<Rightarrow> nat \<Rightarrow> (db \<Rightarrow> exception + 'r \<times> db) \<Rightarrow> db \<Rightarrow> exception + 'r \<times> db" where
  "write_in_space userId spaceId work s =
     and_then (lockMembership spaceId userId s) (\<lambda>_.
     and_then (lockSpace spaceId s) (\<lambda>_. work s))"

text \<open>
  An instant in a column of whole seconds: a bound \<open>Date\<close> is rounded to the nearest one, the
  database's own \<open>CURRENT_TIMESTAMP\<close> is cut.
\<close>

definition to_seconds :: "int \<Rightarrow> int" where
  "to_seconds d = (d + 500) div 1000 * 1000"

definition current_second :: "int \<Rightarrow> int" where
  "current_second now = now div 1000 * 1000"

section \<open>Requests and results\<close>

record CreateWalletDto =
  cw_wallet_name :: string
  cw_initial_balance :: string
  cw_design :: AppColor

record UpdateWalletDto =
  pw_wallet_name :: "string option"
  pw_design :: "AppColor option"

definition is_wallet_name :: "string \<Rightarrow> bool" where
  "is_wallet_name name \<longleftrightarrow> name \<noteq> [] \<and> length name \<le> 20"

definition valid_create_wallet :: "CreateWalletDto \<Rightarrow> bool" where
  "valid_create_wallet dto \<longleftrightarrow>
     is_wallet_name (cw_wallet_name dto) \<and> cw_initial_balance dto \<noteq> [] \<and> isMoneyAmount (cw_initial_balance dto)"

definition valid_update_wallet :: "UpdateWalletDto \<Rightarrow> bool" where
  "valid_update_wallet dto \<longleftrightarrow> isOptionalNonNull is_wallet_name (pw_wallet_name dto)"

record WalletSummary =
  ws_wallet :: WalletWithBalance
  ws_total_spend :: rat
  ws_total_income :: rat

text \<open>\<open>delta_percent\<close> has one decimal place: it is the number of tenths.\<close>

record WalletsOverview =
  wo_total_balance :: rat
  wo_total_balance_currency :: string
  wo_delta_percent :: int
  wo_wallets :: "WalletSummary list"

record InitialBalanceTransaction =
  it_transaction :: transaction
  it_amount :: rat

record CreateWalletResult =
  wr_wallet :: WalletWithBalance
  wr_transaction :: "InitialBalanceTransaction option"

section \<open>Reads\<close>

text \<open>
  \<open>SpacesService.getOne\<close>: a space and its currency, which its foreign key makes present;
  \<open>withRelations\<close> throws otherwise.
\<close>

definition find_currency :: "nat \<Rightarrow> db \<Rightarrow> currency option" where
  "find_currency i s = find_row (\<lambda>c. cur_id c = i) (rows (currencies s))"

definition getSpace :: "nat \<Rightarrow> db \<Rightarrow> exception + (space \<times> currency) option" where
  "getSpace spaceId s = (case find_space spaceId s of
       None \<Rightarrow> Inr None
     | Some space \<Rightarrow> (case find_currency (sp_currency_id space) s of
           None \<Rightarrow> Inl (JsError ''Error'' ''Relation \"currency\" is not loaded'')
         | Some currency \<Rightarrow> Inr (Some (space, currency))))"

definition getAllWallets :: "nat \<Rightarrow> db \<Rightarrow> wallet list" where
  "getAllWallets spaceId s = filter (\<lambda>w. w_space_id w = spaceId \<and> \<not> w_is_deleted w) (rows (wallets s))"

definition buildOverview ::
  "runtime \<Rightarrow> currency \<Rightarrow> wallet list \<Rightarrow> (nat \<Rightarrow> WalletPeriodTotals option) \<Rightarrow> (nat \<Rightarrow> int option) \<Rightarrow>
   exception + WalletsOverview" where
  "buildOverview rt currency walletRows periodTotals balances =
     (let balance_of = (\<lambda>row. case balances (w_id row) of None \<Rightarrow> 0 | Some b \<Rightarrow> b);
          totals_of = (\<lambda>row. case periodTotals (w_id row) of None \<Rightarrow> \<lparr>pt_income = 0, pt_spend = 0\<rparr> | Some t \<Rightarrow> t);
          totalBalance = (\<Sum>row\<leftarrow>walletRows. balance_of row);
          net = (\<Sum>row\<leftarrow>walletRows. pt_income (totals_of row) - pt_spend (totals_of row)) in
     and_then (map_throw (\<lambda>row.
         and_then (toNumber rt (balance_of row)) (\<lambda>balance.
         and_then (toNumber rt (pt_spend (totals_of row))) (\<lambda>spend.
         and_then (toNumber rt (pt_income (totals_of row))) (\<lambda>income.
           Inr \<lparr>ws_wallet = \<lparr>wb_wallet = row, wb_balance = balance\<rparr>,
                ws_total_spend = spend, ws_total_income = income\<rparr>)))) walletRows) (\<lambda>summaries.
     and_then (toNumber rt totalBalance) (\<lambda>total.
       Inr \<lparr>wo_total_balance = total, wo_total_balance_currency = cur_code currency,
            wo_delta_percent = roundPercentToTenth net (totalBalance - net),
            wo_wallets = summaries\<rparr>)))"

definition getOverview ::
  "runtime \<Rightarrow> nat \<Rightarrow> nat \<Rightarrow> int \<Rightarrow> int \<Rightarrow> db \<Rightarrow> exception + WalletsOverview" where
  "getOverview rt userId spaceId from to s =
     and_then (assertMembership spaceId userId None s) (\<lambda>_.
     let wallets = getAllWallets spaceId s;
         walletIds = map w_id wallets;
         periodTotals = getPeriodTotals walletIds from to s;
         balances = getBalances walletIds s in
     and_then (getSpace spaceId s) (\<lambda>space.
     and_then (assertFound space NOT_FOUND) (\<lambda>(_, currency).
       buildOverview rt currency wallets periodTotals balances)))"

section \<open>Writes\<close>

definition new_wallet :: "int \<Rightarrow> nat \<Rightarrow> CreateWalletDto \<Rightarrow> nat \<Rightarrow> wallet" where
  "new_wallet now spaceId dto i = \<lparr>w_id = i, w_space_id = spaceId, w_wallet_name = cw_wallet_name dto,
     w_design = cw_design dto, w_is_deleted = False, w_deleted_at = None,
     w_created_at = current_second now, w_updated_at = current_second now\<rparr>"

text \<open>\<open>uuid\<close> is the id of the initial balance transaction, when there is one.\<close>

definition create_wallet_work ::
  "runtime \<Rightarrow> int \<Rightarrow> string \<Rightarrow> nat \<Rightarrow> CreateWalletDto \<Rightarrow> db \<Rightarrow> exception + CreateWalletResult \<times> db" where
  "create_wallet_work rt now uuid spaceId dto s =
     (let wallet = new_wallet now spaceId dto (next_id (wallets s));
          s1 = s\<lparr>wallets := insert_auto (new_wallet now spaceId dto) (wallets s)\<rparr> in
     and_then (parseMoney (cw_initial_balance dto)) (\<lambda>initialBalance.
     if initialBalance = 0
     then Inr (\<lparr>wr_wallet = \<lparr>wb_wallet = wallet, wb_balance = 0\<rparr>, wr_transaction = None\<rparr>, s1)
     else
       and_then (need (find_row (\<lambda>c. cat_space_id c = spaceId \<and> cat_is_system c) (rows (categories s1)))
           EntityNotFoundError) (\<lambda>systemCategory.
       and_then (to_column (cw_initial_balance dto)) (\<lambda>amount_column.
       let saved = \<lparr>t_id = uuid, t_wallet_id = w_id wallet, t_category_id = cat_id systemCategory,
             t_transaction_type = INCOME, t_amount = amount_column, t_timestamp = now,
             t_description = None, t_version = 1\<rparr> in
       and_then (insert_transaction saved s1) (\<lambda>s2.
       and_then (toNumber rt initialBalance) (\<lambda>amount.
         Inr (\<lparr>wr_wallet = \<lparr>wb_wallet = wallet, wb_balance = amount\<rparr>,
               wr_transaction = Some \<lparr>it_transaction = saved, it_amount = amount\<rparr>\<rparr>, s2)))))))"

definition create_wallet ::
  "runtime \<Rightarrow> int \<Rightarrow> string \<Rightarrow> nat \<Rightarrow> nat \<Rightarrow> CreateWalletDto \<Rightarrow> db \<Rightarrow> exception + CreateWalletResult \<times> db" where
  "create_wallet rt now uuid userId spaceId dto s =
     write_in_space userId spaceId (create_wallet_work rt now uuid spaceId dto) s"

definition lockSpaceWallet :: "nat \<Rightarrow> nat \<Rightarrow> db \<Rightarrow> exception + wallet" where
  "lockSpaceWallet spaceId walletId s =
     assertBelongsToSpace w_space_id (head_opt (lockRows w_id [walletId] (rows (wallets s)))) spaceId FORBIDDEN_WALLET"

text \<open>\<open>update({ id }, dto)\<close> sets the fields that are present, and the update date with them.\<close>

definition patch_wallet :: "int \<Rightarrow> UpdateWalletDto \<Rightarrow> wallet \<Rightarrow> wallet" where
  "patch_wallet now dto w =
     (with_change (pw_wallet_name dto) (\<lambda>n. w_wallet_name_update (\<lambda>_. n)) \<circ>
      with_change (pw_design dto) (\<lambda>d. w_design_update (\<lambda>_. d)))
     (w\<lparr>w_updated_at := current_second now\<rparr>)"

definition update_wallet ::
  "int \<Rightarrow> nat \<Rightarrow> nat \<Rightarrow> nat \<Rightarrow> UpdateWalletDto \<Rightarrow> db \<Rightarrow> exception + unit \<times> db" where
  "update_wallet now userId spaceId walletId dto s = write_in_space userId spaceId (\<lambda>s.
     and_then (lockSpaceWallet spaceId walletId s) (\<lambda>_.
       Inr ((), s\<lparr>wallets := (wallets s)\<lparr>rows :=
         update_rows (\<lambda>w. w_id w = walletId) (patch_wallet now dto) (rows (wallets s))\<rparr>\<rparr>))) s"

definition delete_wallet :: "int \<Rightarrow> nat \<Rightarrow> nat \<Rightarrow> nat \<Rightarrow> db \<Rightarrow> exception + unit \<times> db" where
  "delete_wallet now userId spaceId walletId s = write_in_space userId spaceId (\<lambda>s.
     and_then (lockSpaceWallet spaceId walletId s) (\<lambda>_.
       Inr ((), s\<lparr>wallets := (wallets s)\<lparr>rows := update_rows (\<lambda>w. w_id w = walletId)
         (\<lambda>w. w\<lparr>w_is_deleted := True, w_deleted_at := Some (to_seconds now), w_updated_at := current_second now\<rparr>)
         (rows (wallets s))\<rparr>\<rparr>))) s"

end
