(* ===== verification/Categories.thy ===== *)
theory Categories
  imports Wallets
begin

text \<open>
  \<open>modules/categories/categories.service.ts\<close>: the category lists of a space, their order, and the
  archive. A category that has transactions is archived instead of deleted, and leaves its limit
  either way; a limit that loses its last category goes with it.
\<close>

section \<open>Requests and views\<close>

record CreateCategoryDto =
  nc_name :: string
  nc_transaction_type :: TransactionType
  nc_icon :: CategoryIcon
  nc_color :: AppColor

record UpdateCategoryDto =
  pc_name :: "string option"
  pc_icon :: "CategoryIcon option"
  pc_color :: "AppColor option"
  pc_is_active :: "bool option"

definition valid_create_category :: "CreateCategoryDto \<Rightarrow> bool" where
  "valid_create_category dto \<longleftrightarrow> is_wallet_name (nc_name dto)"

definition valid_update_category :: "UpdateCategoryDto \<Rightarrow> bool" where
  "valid_update_category dto \<longleftrightarrow> isOptionalNonNull is_wallet_name (pc_name dto)"

record CategoryView =
  cv_id :: nat
  cv_name :: string
  cv_transaction_type :: TransactionType
  cv_icon :: CategoryIcon
  cv_color :: AppColor
  cv_is_active :: bool
  cv_transaction_count :: nat
  cv_limit :: "(nat \<times> string option) option"
  cv_archived_at :: "int option"

record CategoryLists =
  cl_incomes :: "CategoryView list"
  cl_expenses :: "CategoryView list"
  cl_archived :: "CategoryView list"

section \<open>Reads\<close>

definition getMany :: "nat list \<Rightarrow> db \<Rightarrow> category list" where
  "getMany categoryIds s = (let uniqueIds = dedup categoryIds in
     if uniqueIds = [] then [] else filter (\<lambda>c. cat_id c \<in> set uniqueIds) (rows (categories s)))"

definition getTransactionCounts :: "nat list \<Rightarrow> db \<Rightarrow> nat \<Rightarrow> nat option" where
  "getTransactionCounts categoryIds s =
     (if categoryIds = [] then (\<lambda>_. None)
      else map_of (group_by t_category_id length
        (filter (\<lambda>t. t_category_id t \<in> set categoryIds) (transactions s))))"

text \<open>A later row of the same category replaces an earlier one, as in \<open>new Map(rows)\<close>.\<close>

definition getLimitMembership :: "nat \<Rightarrow> db \<Rightarrow> nat \<Rightarrow> (nat \<times> string option) option" where
  "getLimitMembership spaceId s = map_of (rev (concat (map (\<lambda>l.
     map (\<lambda>c. (c, (l_id l, l_name l))) (l_categories l))
     (filter (\<lambda>l. l_space_id l = spaceId) (rows (limits s))))))"

definition buildCategoryView ::
  "category \<Rightarrow> (nat \<Rightarrow> nat option) \<Rightarrow> (nat \<Rightarrow> (nat \<times> string option) option) \<Rightarrow> CategoryView" where
  "buildCategoryView category counts limitMembership =
     \<lparr>cv_id = cat_id category, cv_name = cat_name category,
      cv_transaction_type = cat_transaction_type category, cv_icon = cat_icon category,
      cv_color = cat_color category, cv_is_active = cat_is_active category,
      cv_transaction_count = (case counts (cat_id category) of None \<Rightarrow> 0 | Some n \<Rightarrow> n),
      cv_limit = limitMembership (cat_id category), cv_archived_at = cat_archived_at category\<rparr>"

definition listed :: "nat \<Rightarrow> db \<Rightarrow> category list" where
  "listed spaceId s = sort_key (\<lambda>c. (cat_sort c, cat_id c))
     (filter (\<lambda>c. cat_space_id c = spaceId \<and> \<not> cat_is_system c) (rows (categories s)))"

definition getAllCategories :: "nat \<Rightarrow> nat \<Rightarrow> db \<Rightarrow> exception + CategoryLists" where
  "getAllCategories userId spaceId s =
     and_then (assertMembership spaceId userId None s) (\<lambda>_.
     let categories = listed spaceId s;
         categoryIds = map cat_id categories;
         counts = getTransactionCounts categoryIds s;
         limitMembership = getLimitMembership spaceId s;
         views = map (\<lambda>category. buildCategoryView category counts limitMembership) categories in
     Inr \<lparr>cl_incomes = filter (\<lambda>v. cv_is_active v \<and> cv_transaction_type v = INCOME) views,
          cl_expenses = filter (\<lambda>v. cv_is_active v \<and> cv_transaction_type v = EXPENSE) views,
          cl_archived = filter (\<lambda>v. \<not> cv_is_active v) views\<rparr>)"

section \<open>Writes\<close>

definition getEditableCategory :: "nat \<Rightarrow> nat \<Rightarrow> db \<Rightarrow> exception + category" where
  "getEditableCategory spaceId categoryId s =
     and_then (assertBelongsToSpace cat_space_id (find_category categoryId s) spaceId FORBIDDEN_CATEGORY) (\<lambda>c.
       if cat_is_system c then Inl (api_error CATEGORY_IS_SYSTEM BAD_REQUEST) else Inr c)"

definition set_categories :: "(nat list \<Rightarrow> nat list) \<Rightarrow> nat \<Rightarrow> limit list \<Rightarrow> limit list" where
  "set_categories f i rs = update_rows (\<lambda>l. l_id l = i) (\<lambda>l. l\<lparr>l_categories := f (l_categories l)\<rparr>) rs"

definition unlinkFromLimit :: "nat \<Rightarrow> db \<Rightarrow> db" where
  "unlinkFromLimit categoryId s =
     (case find_row (\<lambda>l. categoryId \<in> set (l_categories l)) (rows (limits s)) of
        None \<Rightarrow> s
      | Some l \<Rightarrow>
          let removed = set_categories (filter (\<lambda>c. c \<noteq> categoryId)) (l_id l) (rows (limits s));
              remaining = (case find_row (\<lambda>r. l_id r = l_id l) removed of None \<Rightarrow> [] | Some r \<Rightarrow> l_categories r)
          in s\<lparr>limits := (limits s)\<lparr>rows :=
               if remaining = [] then delete_rows (\<lambda>r. l_id r = l_id l) removed else removed\<rparr>\<rparr>)"

text \<open>\<open>Object.assign(category, updateCategory)\<close>.\<close>

definition assign_category :: "UpdateCategoryDto \<Rightarrow> category \<Rightarrow> category" where
  "assign_category dto =
     with_change (pc_name dto) (\<lambda>n. cat_name_update (\<lambda>_. n)) \<circ>
     with_change (pc_icon dto) (\<lambda>i. cat_icon_update (\<lambda>_. i)) \<circ>
     with_change (pc_color dto) (\<lambda>c. cat_color_update (\<lambda>_. c)) \<circ>
     with_change (pc_is_active dto) (\<lambda>a. cat_is_active_update (\<lambda>_. a))"

text \<open>
  \<open>save\<close> writes the columns in which the entity differs from its row, and the update date when any
  does.
\<close>

definition save_category :: "int \<Rightarrow> category \<Rightarrow> db \<Rightarrow> category \<times> db" where
  "save_category now category s =
     (let saved = (if find_category (cat_id category) s = Some category then category
        else category\<lparr>cat_updated_at := current_second now\<rparr>)
      in (saved, s\<lparr>categories := (categories s)\<lparr>rows := update_rows (\<lambda>c. cat_id c = cat_id category)
           (\<lambda>_. saved\<lparr>cat_archived_at := map_option to_seconds (cat_archived_at saved)\<rparr>)
           (rows (categories s))\<rparr>\<rparr>))"

definition update_category_work ::
  "int \<Rightarrow> nat \<Rightarrow> nat \<Rightarrow> UpdateCategoryDto \<Rightarrow> db \<Rightarrow> exception + category \<times> db" where
  "update_category_work now spaceId categoryId dto s =
     and_then (getEditableCategory spaceId categoryId s) (\<lambda>category.
     let activeChanged = (pc_is_active dto \<noteq> None \<and> pc_is_active dto \<noteq> Some (cat_is_active category));
         assigned = assign_category dto category in
     if activeChanged then
       if pc_is_active dto = Some False
       then Inr (save_category now (assigned\<lparr>cat_archived_at := Some now\<rparr>) (unlinkFromLimit categoryId s))
       else Inr (save_category now (assigned\<lparr>cat_archived_at := None\<rparr>) s)
     else Inr (save_category now assigned s))"

definition update_category ::
  "int \<Rightarrow> nat \<Rightarrow> nat \<Rightarrow> nat \<Rightarrow> UpdateCategoryDto \<Rightarrow> db \<Rightarrow> exception + category \<times> db" where
  "update_category now userId spaceId categoryId dto s =
     write_in_space userId spaceId (update_category_work now spaceId categoryId dto) s"

text \<open>The database gives a new category its defaults: active, and sort 0.\<close>

definition new_category :: "int \<Rightarrow> nat \<Rightarrow> CreateCategoryDto \<Rightarrow> bool \<Rightarrow> nat \<Rightarrow> category" where
  "new_category now spaceId dto is_system i = \<lparr>cat_id = i, cat_space_id = spaceId, cat_name = nc_name dto,
     cat_transaction_type = nc_transaction_type dto, cat_icon = nc_icon dto, cat_color = nc_color dto,
     cat_is_active = True, cat_archived_at = None, cat_sort = 0, cat_is_system = is_system,
     cat_created_at = current_second now, cat_updated_at = current_second now\<rparr>"

text \<open>The result is the id of the saved entity.\<close>

definition create_category ::
  "int \<Rightarrow> nat \<Rightarrow> nat \<Rightarrow> CreateCategoryDto \<Rightarrow> db \<Rightarrow> exception + nat \<times> db" where
  "create_category now userId spaceId dto s = write_in_space userId spaceId (\<lambda>s.
     Inr (next_id (categories s),
       s\<lparr>categories := insert_auto (new_category now spaceId dto False) (categories s)\<rparr>)) s"

text \<open>A category that a transaction or a limit references is not deleted by the database.\<close>

definition delete_category :: "nat \<Rightarrow> db \<Rightarrow> exception + db" where
  "delete_category categoryId s =
     (if (\<exists>t \<in> set (transactions s). t_category_id t = categoryId) \<or>
         (\<exists>l \<in> set (rows (limits s)). categoryId \<in> set (l_categories l))
      then Inl row_is_referenced
      else Inr (s\<lparr>categories := (categories s)\<lparr>rows :=
        delete_rows (\<lambda>c. cat_id c = categoryId) (rows (categories s))\<rparr>\<rparr>))"

definition deleteOrArchive_work :: "int \<Rightarrow> nat \<Rightarrow> nat \<Rightarrow> db \<Rightarrow> exception + bool \<times> db" where
  "deleteOrArchive_work now spaceId categoryId s =
     and_then (getEditableCategory spaceId categoryId s) (\<lambda>_.
     let count = (case getTransactionCounts [categoryId] s categoryId of None \<Rightarrow> 0 | Some n \<Rightarrow> n);
         s1 = unlinkFromLimit categoryId s in
     if count = 0 then and_then (delete_category categoryId s1) (\<lambda>s2. Inr (False, s2))
     else Inr (True, s1\<lparr>categories := (categories s1)\<lparr>rows := update_rows (\<lambda>c. cat_id c = categoryId)
       (\<lambda>c. c\<lparr>cat_is_active := False, cat_archived_at := Some (to_seconds now), cat_updated_at := current_second now\<rparr>)
       (rows (categories s1))\<rparr>\<rparr>))"

definition deleteOrArchive :: "int \<Rightarrow> nat \<Rightarrow> nat \<Rightarrow> nat \<Rightarrow> db \<Rightarrow> exception + bool \<times> db" where
  "deleteOrArchive now userId spaceId categoryId s =
     write_in_space userId spaceId (deleteOrArchive_work now spaceId categoryId) s"

text \<open>The place of an id in the order of the request, counted from 0.\<close>

fun index_of :: "'a \<Rightarrow> 'a list \<Rightarrow> nat option" where
  "index_of x [] = None"
| "index_of x (y # ys) = (if x = y then Some 0 else map_option Suc (index_of x ys))"

definition set_sort :: "int \<Rightarrow> nat \<Rightarrow> nat list \<Rightarrow> category \<Rightarrow> category" where
  "set_sort now prefix categoryIds c = (case index_of (cat_id c) categoryIds of
       None \<Rightarrow> c
     | Some index \<Rightarrow> if cat_sort c = prefix + index + 1 then c
         else c\<lparr>cat_sort := prefix + index + 1, cat_updated_at := current_second now\<rparr>)"

definition reorder_work :: "int \<Rightarrow> nat \<Rightarrow> nat list \<Rightarrow> db \<Rightarrow> exception + unit \<times> db" where
  "reorder_work now spaceId categoryIds s =
     (if categoryIds = [] then Inr ((), s)
      else
        let found = filter (\<lambda>c. cat_id c \<in> set categoryIds) (rows (categories s)) in
        if length found \<noteq> length categoryIds then Inl (api_error FORBIDDEN_CATEGORY FORBIDDEN)
        else
          and_then (for_each (\<lambda>category.
              and_then (assertBelongsToSpace cat_space_id (Some category) spaceId FORBIDDEN_CATEGORY) (\<lambda>_.
              guard (\<not> cat_is_system category) (api_error CATEGORY_IS_SYSTEM BAD_REQUEST))) found) (\<lambda>_.
          let types = dedup (map cat_transaction_type found);
              hasArchived = (\<exists>category \<in> set found. \<not> cat_is_active category) in
          if 1 < length types \<or> hasArchived then Inl (api_error INVALID_REORDER BAD_REQUEST)
          else
            let prefix = (if cat_transaction_type (hd found) = INCOME then 100 else 200) in
            Inr ((), s\<lparr>categories := (categories s)\<lparr>rows :=
              map (set_sort now prefix categoryIds) (rows (categories s))\<rparr>\<rparr>)))"

definition reorder :: "int \<Rightarrow> nat \<Rightarrow> nat \<Rightarrow> nat list \<Rightarrow> db \<Rightarrow> exception + unit \<times> db" where
  "reorder now userId spaceId categoryIds s =
     write_in_space userId spaceId (reorder_work now spaceId categoryIds) s"

end
