(* ===== verification/SpendingLimits.thy ===== *)
theory SpendingLimits
  imports Categories Feed
begin

text \<open>
  \<open>modules/limits/limits.service.ts\<close>: monthly spending limits. A limit of no categories is the
  space's total limit, of one a category limit, of several a named group.
\<close>

section \<open>Requests and results\<close>

text \<open>
  The name of a create request is absent or \<open>null\<close> alike; in an update request an absent name is
  \<open>None\<close> and \<open>null\<close> is \<open>Some None\<close>.
\<close>

record CreateLimitDto =
  nl_category_ids :: "nat list option"
  nl_name :: "string option"
  nl_amount :: string

record UpdateLimitDto =
  pl_category_ids :: "nat list option"
  pl_name :: "string option option"
  pl_amount :: "string option"

definition valid_category_ids :: "nat list \<Rightarrow> bool" where
  "valid_category_ids ids \<longleftrightarrow> distinct ids \<and> list_all isId ids"

definition valid_create_limit :: "CreateLimitDto \<Rightarrow> bool" where
  "valid_create_limit dto \<longleftrightarrow> isOptionalNonNull valid_category_ids (nl_category_ids dto) \<and>
     (case nl_name dto of None \<Rightarrow> True | Some n \<Rightarrow> length n \<le> 60) \<and>
     nl_amount dto \<noteq> [] \<and> isMoneyAmount (nl_amount dto)"

definition valid_update_limit :: "UpdateLimitDto \<Rightarrow> bool" where
  "valid_update_limit dto \<longleftrightarrow> isOptionalNonNull valid_category_ids (pl_category_ids dto) \<and>
     (case pl_name dto of Some (Some n) \<Rightarrow> length n \<le> 60 | _ \<Rightarrow> True) \<and>
     isOptionalNonNull isMoneyAmount (pl_amount dto)"

record LimitWithCategories =
  lc_limit :: limit
  lc_categories :: "category list"

record LimitView =
  lv_id :: nat
  lv_name :: "string option"
  lv_amount :: string
  lv_spent :: rat
  lv_in_percent :: int
  lv_categories :: "(nat \<times> string \<times> CategoryIcon \<times> AppColor) list"

record OverAllocation =
  oa_category_total :: rat
  oa_difference :: rat

record Spending =
  sd_total :: "LimitView option"
  sd_categories :: "LimitView list"
  sd_over_allocation :: "OverAllocation option"

section \<open>Reads\<close>

definition load_limit :: "db \<Rightarrow> limit \<Rightarrow> LimitWithCategories" where
  "load_limit s l = \<lparr>lc_limit = l, lc_categories = List.map_filter (\<lambda>c. find_category c s) (l_categories l)\<rparr>"

definition find_limit :: "nat \<Rightarrow> db \<Rightarrow> limit option" where
  "find_limit i s = find_row (\<lambda>l. l_id l = i) (rows (limits s))"

definition getOneLimit :: "nat \<Rightarrow> db \<Rightarrow> LimitWithCategories option" where
  "getOneLimit limitId s = map_option (load_limit s) (find_limit limitId s)"

definition getAllLimits :: "nat \<Rightarrow> db \<Rightarrow> LimitWithCategories list" where
  "getAllLimits spaceId s = map (load_limit s) (filter (\<lambda>l. l_space_id l = spaceId) (rows (limits s)))"

text \<open>\<open>categoryTotals\<close> in the order of the map's entries; \<open>limit.amount\<close> is the column's text.\<close>

definition buildLimitView :: "runtime \<Rightarrow> LimitWithCategories \<Rightarrow> int \<Rightarrow> exception + LimitView" where
  "buildLimitView rt limit spent =
     and_then (toNumber rt spent) (\<lambda>spent_number.
     and_then (parseMoney (formatMoney (l_amount (lc_limit limit)))) (\<lambda>amount.
       Inr \<lparr>lv_id = l_id (lc_limit limit), lv_name = l_name (lc_limit limit),
            lv_amount = formatMoney (l_amount (lc_limit limit)), lv_spent = spent_number,
            lv_in_percent = floorPercent spent amount,
            lv_categories = map (\<lambda>c. (cat_id c, cat_name c, cat_icon c, cat_color c)) (lc_categories limit)\<rparr>))"

definition calculateSpending ::
  "runtime \<Rightarrow> LimitWithCategories list \<Rightarrow> (nat \<times> int) list \<Rightarrow> exception + Spending" where
  "calculateSpending rt spaceLimits categoryTotals =
     (let totalLimit = find_row (\<lambda>l. l_limit_type (lc_limit l) = OTHERS) spaceLimits;
          categoryLimits = filter (\<lambda>l. l_limit_type (lc_limit l) = CATEGORY) spaceLimits;
          totalSpend = sum_list (map snd categoryTotals) in
     and_then (case totalLimit of None \<Rightarrow> Inr None
         | Some l \<Rightarrow> and_then (buildLimitView rt l totalSpend) (\<lambda>v. Inr (Some v))) (\<lambda>total.
     and_then (map_throw (\<lambda>l.
         let spent = (\<Sum>c\<leftarrow>lc_categories l. case map_of categoryTotals (cat_id c) of None \<Rightarrow> 0 | Some n \<Rightarrow> n)
         in buildLimitView rt l spent) categoryLimits) (\<lambda>categories.
     and_then (map_throw (\<lambda>l. parseMoney (formatMoney (l_amount (lc_limit l)))) categoryLimits) (\<lambda>amounts.
     let categoryTotal = sum_list amounts in
     and_then (case totalLimit of None \<Rightarrow> Inr None
         | Some l \<Rightarrow> and_then (parseMoney (formatMoney (l_amount (lc_limit l)))) (\<lambda>a. Inr (Some a))) (\<lambda>totalAmount.
     and_then (case totalAmount of None \<Rightarrow> Inr None
         | Some a \<Rightarrow> if a < categoryTotal
             then and_then (toNumber rt categoryTotal) (\<lambda>c. and_then (toNumber rt (categoryTotal - a)) (\<lambda>d.
               Inr (Some \<lparr>oa_category_total = c, oa_difference = d\<rparr>)))
             else Inr None) (\<lambda>overAllocation.
       Inr \<lparr>sd_total = total, sd_categories = categories, sd_over_allocation = overAllocation\<rparr>))))))"

text \<open>
  \<open>monthPeriodAt\<close>: what luxon's month arithmetic knows is a parameter, the first days of the month
  of an instant and of the next one.
\<close>

record MonthPeriod =
  mp_time_zone :: string
  mp_start_date :: string
  mp_end_date :: string
  mp_from :: int
  mp_to :: int

definition monthPeriodAt ::
  "calendar \<Rightarrow> (int \<Rightarrow> string \<Rightarrow> int \<times> int) \<Rightarrow> int \<Rightarrow> string \<Rightarrow> MonthPeriod" where
  "monthPeriodAt cal month_of now timeZone = (let (start, nxt) = month_of now timeZone in
     \<lparr>mp_time_zone = timeZone, mp_start_date = cal_format cal start, mp_end_date = cal_format cal (nxt - 1),
      mp_from = cal_startOfDay cal start timeZone, mp_to = cal_startOfDay cal nxt timeZone - 1\<rparr>)"

definition getSummary ::
  "runtime \<Rightarrow> calendar \<Rightarrow> (int \<Rightarrow> string \<Rightarrow> int \<times> int) \<Rightarrow> nat \<Rightarrow> nat \<Rightarrow> string \<Rightarrow> int \<Rightarrow> db \<Rightarrow>
   exception + MonthPeriod \<times> Spending" where
  "getSummary rt cal month_of userId spaceId timeZone now s =
     and_then (assertMembership spaceId userId None s) (\<lambda>_.
     let period = monthPeriodAt cal month_of now timeZone in
     and_then (calculateSpending rt (getAllLimits spaceId s)
         (getExpensesByCategory spaceId (mp_from period) (mp_to period) s)) (\<lambda>spending.
       Inr (period, spending)))"

section \<open>Checks\<close>

definition getSpaceLimit :: "nat \<Rightarrow> nat \<Rightarrow> db \<Rightarrow> exception + LimitWithCategories" where
  "getSpaceLimit spaceId limitId s =
     assertBelongsToSpace (\<lambda>l. l_space_id (lc_limit l)) (getOneLimit limitId s) spaceId FORBIDDEN_LIMIT"

definition assertCategoriesOwnership :: "nat \<Rightarrow> nat list option \<Rightarrow> db \<Rightarrow> exception + unit" where
  "assertCategoriesOwnership spaceId categoryIds s =
     (let ids = (case categoryIds of None \<Rightarrow> [] | Some cs \<Rightarrow> cs) in
      if ids = [] then Inr ()
      else let found = getMany ids s in
        for_each (\<lambda>categoryId.
          and_then (assertBelongsToSpace cat_space_id (find_row (\<lambda>c. cat_id c = categoryId) found) spaceId
              FORBIDDEN_CATEGORY) (\<lambda>category.
          and_then (guard (\<not> cat_is_system category) (api_error CATEGORY_IS_SYSTEM BAD_REQUEST)) (\<lambda>_.
          guard (cat_is_active category) (api_error CATEGORY_ARCHIVED BAD_REQUEST)))) ids)"

definition assertHasNameIfGroup :: "nat list \<Rightarrow> string option \<Rightarrow> exception + unit" where
  "assertHasNameIfGroup categoryIds name =
     guard (\<not> (1 < length categoryIds \<and> (name = None \<or> name = Some []))) (api_error LIMIT_NAME_REQUIRED BAD_REQUEST)"

definition other_limit :: "nat option \<Rightarrow> limit \<Rightarrow> bool" where
  "other_limit excludeLimitId l = (case excludeLimitId of None \<Rightarrow> True | Some e \<Rightarrow> e = 0 \<or> l_id l \<noteq> e)"

definition assertCategoriesAvailable :: "nat \<Rightarrow> nat list \<Rightarrow> nat option \<Rightarrow> db \<Rightarrow> exception + unit" where
  "assertCategoriesAvailable spaceId categoryIds excludeLimitId s =
     (let conflicting = length (filter (\<lambda>l. l_space_id l = spaceId \<and>
            (\<exists>c \<in> set (l_categories l). c \<in> set categoryIds) \<and> other_limit excludeLimitId l) (rows (limits s)))
      in guard (conflicting = 0) (api_error LIMIT_EXISTS BAD_REQUEST))"

definition assertNoOtherTotalLimit :: "nat \<Rightarrow> nat option \<Rightarrow> db \<Rightarrow> exception + unit" where
  "assertNoOtherTotalLimit spaceId excludeLimitId s =
     (let existing = length (filter (\<lambda>l. l_space_id l = spaceId \<and> l_limit_type l = OTHERS \<and>
            other_limit excludeLimitId l) (rows (limits s)))
      in guard (existing = 0) (api_error LIMIT_EXISTS BAD_REQUEST))"

section \<open>Writes\<close>

text \<open>\<open>relation('categories').of(i).add(cs)\<close>: the pair of limit and category is a key.\<close>

definition add_categories :: "nat \<Rightarrow> nat list \<Rightarrow> db \<Rightarrow> exception + db" where
  "add_categories i cs s =
     (if distinct cs \<and> (\<forall>l \<in> set (rows (limits s)). l_id l = i \<longrightarrow> set cs \<inter> set (l_categories l) = {})
      then Inr (s\<lparr>limits := (limits s)\<lparr>rows := set_categories (\<lambda>old. old @ cs) i (rows (limits s))\<rparr>\<rparr>)
      else Inl (duplicate_entry ''PRIMARY''))"

definition remove_categories :: "nat \<Rightarrow> nat list \<Rightarrow> db \<Rightarrow> db" where
  "remove_categories i cs s =
     s\<lparr>limits := (limits s)\<lparr>rows := set_categories (filter (\<lambda>c. c \<notin> set cs)) i (rows (limits s))\<rparr>\<rparr>"

definition limit_type_of :: "nat list \<Rightarrow> LimitType" where
  "limit_type_of categoryIds = (if categoryIds = [] then OTHERS else CATEGORY)"

definition limit_name_of :: "nat list \<Rightarrow> string option \<Rightarrow> string option" where
  "limit_name_of categoryIds name = (if 1 < length categoryIds then name else None)"

definition new_limit :: "int \<Rightarrow> nat \<Rightarrow> nat list \<Rightarrow> string option \<Rightarrow> int \<Rightarrow> nat \<Rightarrow> limit" where
  "new_limit now spaceId categoryIds name amount i = \<lparr>l_id = i, l_space_id = spaceId,
     l_name = limit_name_of categoryIds name, l_limit_type = limit_type_of categoryIds, l_amount = amount,
     l_categories = [], l_created_at = current_second now, l_updated_at = current_second now\<rparr>"

definition getExistingLimit :: "nat \<Rightarrow> db \<Rightarrow> exception + LimitWithCategories" where
  "getExistingLimit limitId s = assertFound (getOneLimit limitId s) NOT_FOUND"

definition create_limit_work ::
  "int \<Rightarrow> nat \<Rightarrow> CreateLimitDto \<Rightarrow> db \<Rightarrow> exception + LimitWithCategories \<times> db" where
  "create_limit_work now spaceId dto s =
     and_then (assertCategoriesOwnership spaceId (nl_category_ids dto) s) (\<lambda>_.
     let categoryIds = (case nl_category_ids dto of None \<Rightarrow> [] | Some cs \<Rightarrow> cs) in
     and_then (assertHasNameIfGroup categoryIds (nl_name dto)) (\<lambda>_.
     and_then (if categoryIds = [] then assertNoOtherTotalLimit spaceId None s
         else assertCategoriesAvailable spaceId categoryIds None s) (\<lambda>_.
     and_then (to_column (nl_amount dto)) (\<lambda>amount.
     let saved = next_id (limits s);
         s1 = s\<lparr>limits := insert_auto (new_limit now spaceId categoryIds (nl_name dto) amount) (limits s)\<rparr> in
     and_then (if categoryIds = [] then Inr s1 else add_categories saved categoryIds s1) (\<lambda>s2.
     and_then (getExistingLimit saved s2) (\<lambda>limit. Inr (limit, s2)))))))"

definition create_limit ::
  "int \<Rightarrow> nat \<Rightarrow> nat \<Rightarrow> CreateLimitDto \<Rightarrow> db \<Rightarrow> exception + LimitWithCategories \<times> db" where
  "create_limit now userId spaceId dto s = write_in_space userId spaceId (create_limit_work now spaceId dto) s"

text \<open>The columns of \<open>scalarUpdate\<close>; nothing is written when none is set.\<close>

definition scalar_update ::
  "int \<Rightarrow> nat \<Rightarrow> int option \<Rightarrow> LimitType option \<Rightarrow> string option option \<Rightarrow> db \<Rightarrow> db" where
  "scalar_update now limitId amount limit_type name s =
     (if amount = None \<and> limit_type = None \<and> name = None then s
      else s\<lparr>limits := (limits s)\<lparr>rows := update_rows (\<lambda>l. l_id l = limitId)
        (with_change amount (\<lambda>a. l_amount_update (\<lambda>_. a)) \<circ>
         with_change limit_type (\<lambda>ty. l_limit_type_update (\<lambda>_. ty)) \<circ>
         with_change name (\<lambda>n. l_name_update (\<lambda>_. n)) \<circ> l_updated_at_update (\<lambda>_. current_second now))
        (rows (limits s))\<rparr>\<rparr>)"

definition update_limit_work ::
  "int \<Rightarrow> nat \<Rightarrow> nat \<Rightarrow> UpdateLimitDto \<Rightarrow> db \<Rightarrow> exception + LimitWithCategories \<times> db" where
  "update_limit_work now spaceId limitId dto s =
     and_then (getSpaceLimit spaceId limitId s) (\<lambda>currentLimit.
     and_then (assertCategoriesOwnership spaceId (pl_category_ids dto) s) (\<lambda>_.
     let categoryIds = pl_category_ids dto;
         currentCategoryIds = map cat_id (lc_categories currentLimit);
         resultingCategoryIds = (case categoryIds of None \<Rightarrow> currentCategoryIds | Some cs \<Rightarrow> cs);
         resultingName = (case pl_name dto of None \<Rightarrow> l_name (lc_limit currentLimit) | Some n \<Rightarrow> n) in
     and_then (assertHasNameIfGroup resultingCategoryIds resultingName) (\<lambda>_.
     and_then (case categoryIds of None \<Rightarrow> Inr ()
         | Some cs \<Rightarrow> if cs = [] then assertNoOtherTotalLimit spaceId (Some limitId) s
             else assertCategoriesAvailable spaceId cs (Some limitId) s) (\<lambda>_.
     and_then (case pl_amount dto of None \<Rightarrow> Inr None
         | Some a \<Rightarrow> and_then (to_column a) (\<lambda>c. Inr (Some c))) (\<lambda>amount.
     let limit_type = (if categoryIds \<noteq> None then Some (limit_type_of resultingCategoryIds) else None);
         name = (if categoryIds \<noteq> None \<or> pl_name dto \<noteq> None
           then Some (limit_name_of resultingCategoryIds resultingName) else None);
         s1 = scalar_update now limitId amount limit_type name s in
     and_then (case categoryIds of None \<Rightarrow> Inr s1
         | Some cs \<Rightarrow>
             let toRemove = filter (\<lambda>i. i \<notin> set cs) currentCategoryIds;
                 toAdd = filter (\<lambda>i. i \<notin> set currentCategoryIds) cs;
                 s2 = (if toRemove = [] then s1 else remove_categories limitId toRemove s1)
             in if toAdd = [] then Inr s2 else add_categories limitId toAdd s2) (\<lambda>s3.
     and_then (getExistingLimit limitId s3) (\<lambda>limit. Inr (limit, s3))))))))"

definition update_limit ::
  "int \<Rightarrow> nat \<Rightarrow> nat \<Rightarrow> nat \<Rightarrow> UpdateLimitDto \<Rightarrow> db \<Rightarrow> exception + LimitWithCategories \<times> db" where
  "update_limit now userId spaceId limitId dto s =
     write_in_space userId spaceId (update_limit_work now spaceId limitId dto) s"

definition remove_limit :: "nat \<Rightarrow> nat \<Rightarrow> nat \<Rightarrow> db \<Rightarrow> exception + unit \<times> db" where
  "remove_limit userId spaceId limitId s = write_in_space userId spaceId (\<lambda>s.
     and_then (getSpaceLimit spaceId limitId s) (\<lambda>_.
       Inr ((), s\<lparr>limits := (limits s)\<lparr>rows := delete_rows (\<lambda>l. l_id l = limitId) (rows (limits s))\<rparr>\<rparr>))) s"

end
