(* ===== verification/SpaceCatalog.thy ===== *)
theory SpaceCatalog
  imports SpendingLimits
begin

text \<open>
  What the writes of wallets, categories and limits do to their three tables, and the invariant they
  keep: a category is in at most one limit, a space has at most one total limit, limits hold active
  categories of their own space only, and a category is archived exactly when it has an archive date.
\<close>

section \<open>Writes in a space\<close>

lemma write_in_space_eq_Inr [result_iffs]:
  "write_in_space u sp work s = Inr x \<longleftrightarrow> is_member sp u s \<and> work s = Inr x"
  using find_member_None [of sp u s]
  by (cases "find_member sp u s") (auto simp: write_in_space_def lockMembership_def)

lemma write_in_space_refused:
  "\<not> is_member sp u s \<Longrightarrow> write_in_space u sp work s = Inl (api_error FORBIDDEN_SPACE FORBIDDEN)"
  by (simp add: write_in_space_def lockMembership_refused)

lemma write_in_space_member: "is_member sp u s \<Longrightarrow> write_in_space u sp work s = work s"
  using find_member_None [of sp u s]
  by (cases "find_member sp u s") (auto simp: write_in_space_def lockMembership_def)

section \<open>The invariant of limits\<close>

definition limit_ok :: "(nat \<Rightarrow> category option) \<Rightarrow> limit \<Rightarrow> bool" where
  "limit_ok lookup l \<longleftrightarrow> distinct (l_categories l) \<and>
     (l_limit_type l = OTHERS \<longleftrightarrow> l_categories l = []) \<and>
     (1 < length (l_categories l) \<longrightarrow> l_name l \<noteq> None \<and> l_name l \<noteq> Some []) \<and>
     \<bar>l_amount l\<bar> \<le> MAX_MONEY_INPUT_CENTS \<and>
     (\<forall>c \<in> set (l_categories l). \<exists>cat. lookup c = Some cat \<and> cat_space_id cat = l_space_id l \<and>
        cat_is_active cat \<and> \<not> cat_is_system cat)"

definition compatible :: "limit \<Rightarrow> limit \<Rightarrow> bool" where
  "compatible l l' \<longleftrightarrow> set (l_categories l) \<inter> set (l_categories l') = {} \<and>
     \<not> (l_space_id l = l_space_id l' \<and> l_limit_type l = OTHERS \<and> l_limit_type l' = OTHERS)"

definition limits_ok :: "(nat \<Rightarrow> category option) \<Rightarrow> limit list \<Rightarrow> bool" where
  "limits_ok lookup ls \<longleftrightarrow> (\<forall>l \<in> set ls. limit_ok lookup l) \<and>
     (\<forall>l \<in> set ls. \<forall>l' \<in> set ls. l_id l \<noteq> l_id l' \<longrightarrow> compatible l l')"

lemma compatible_sym: "compatible l l' = compatible l' l"
  by (auto simp: compatible_def)

text \<open>A limit with the categories of another or fewer, in the same space and of the same type.\<close>

definition smaller_limit :: "limit \<Rightarrow> limit \<Rightarrow> bool" where
  "smaller_limit l r \<longleftrightarrow> l_id l = l_id r \<and> l_space_id l = l_space_id r \<and> l_limit_type l = l_limit_type r \<and>
     set (l_categories l) \<subseteq> set (l_categories r)"

lemma compatible_smaller:
  "smaller_limit l r \<Longrightarrow> smaller_limit l' r' \<Longrightarrow> compatible r r' \<Longrightarrow> compatible l l'"
  by (auto simp: smaller_limit_def compatible_def)

lemma limits_ok_delete: "limits_ok lookup ls \<Longrightarrow> limits_ok lookup (delete_rows p ls)"
  by (auto simp: limits_ok_def)

lemma limits_ok_append:
  assumes "limits_ok lookup ls" and "limit_ok lookup l" and "\<forall>l' \<in> set ls. compatible l l'"
  shows "limits_ok lookup (ls @ [l])"
  using assms by (auto simp: limits_ok_def compatible_sym)

lemma limits_ok_update:
  assumes ok: "limits_ok lookup ls" and ids: "\<And>l. l_id (f l) = l_id l"
    and new: "\<And>l. l \<in> set ls \<Longrightarrow> l_id l = i \<Longrightarrow> limit_ok lookup (f l)"
    and others: "\<And>l l'. l \<in> set ls \<Longrightarrow> l_id l = i \<Longrightarrow> l' \<in> set ls \<Longrightarrow> l_id l' \<noteq> i \<Longrightarrow> compatible (f l) l'"
  shows "limits_ok lookup (update_rows (\<lambda>l. l_id l = i) f ls)"
  unfolding limits_ok_def set_update_rows
proof (intro conjI ballI impI)
  fix l assume "l \<in> (\<lambda>r. if l_id r = i then f r else r) ` set ls"
  then show "limit_ok lookup l" using ok new by (auto simp: limits_ok_def)
next
  fix l l' assume "l \<in> (\<lambda>r. if l_id r = i then f r else r) ` set ls"
    and "l' \<in> (\<lambda>r. if l_id r = i then f r else r) ` set ls" and "l_id l \<noteq> l_id l'"
  then obtain r r' where "r \<in> set ls" "r' \<in> set ls" "l = (if l_id r = i then f r else r)"
    "l' = (if l_id r' = i then f r' else r')" by blast
  moreover from this \<open>l_id l \<noteq> l_id l'\<close> have "l_id r \<noteq> l_id r'"
    by (cases "l_id r' = i") (auto simp: ids)
  ultimately show "compatible l l'"
    using ok others [of r r'] others [of r' r] by (auto simp: limits_ok_def compatible_sym [of _ "f _"])
qed

lemma limits_ok_lookup:
  assumes "limits_ok lookup ls"
    and "\<And>l c cat. l \<in> set ls \<Longrightarrow> c \<in> set (l_categories l) \<Longrightarrow> lookup c = Some cat \<Longrightarrow>
      \<exists>cat'. lookup' c = Some cat' \<and> cat_space_id cat' = cat_space_id cat \<and>
        cat_is_active cat' = cat_is_active cat \<and> cat_is_system cat' = cat_is_system cat"
  shows "limits_ok lookup' ls"
proof -
  have "limit_ok lookup' l" if l: "l \<in> set ls" for l
  proof -
    have ok: "limit_ok lookup l" using assms(1) l by (simp add: limits_ok_def)
    have "\<exists>cat. lookup' c = Some cat \<and> cat_space_id cat = l_space_id l \<and>
        cat_is_active cat \<and> \<not> cat_is_system cat" if c: "c \<in> set (l_categories l)" for c
    proof -
      from ok c obtain cat where "lookup c = Some cat" "cat_space_id cat = l_space_id l"
        "cat_is_active cat" "\<not> cat_is_system cat" by (auto simp: limit_ok_def)
      with assms(2) [OF l c] show ?thesis by fastforce
    qed
    with ok show ?thesis by (simp add: limit_ok_def)
  qed
  with assms(1) show ?thesis by (simp add: limits_ok_def)
qed

text \<open>A category of one limit is in no other.\<close>

lemma limit_of_category:
  assumes "limits_ok lookup ls" and "distinct (map l_id ls)"
    and "l \<in> set ls" "l' \<in> set ls" "c \<in> set (l_categories l)" "c \<in> set (l_categories l')"
  shows "l = l'"
proof -
  have "l_id l = l_id l'"
    using assms(1,3-6) by (auto simp: limits_ok_def compatible_def)
  then show ?thesis by (rule distinct_key_eq [OF assms(2-4)])
qed

section \<open>Leaving a limit\<close>

definition unlink :: "nat \<Rightarrow> limit list \<Rightarrow> limit list" where
  "unlink c ls = filter (\<lambda>l. l_categories l \<noteq> [] \<or> l_limit_type l = OTHERS)
     (map (\<lambda>l. l\<lparr>l_categories := filter (\<lambda>x. x \<noteq> c) (l_categories l)\<rparr>) ls)"

lemma limits_ok_unlink:
  assumes "limits_ok lookup ls"
  shows "limits_ok lookup (unlink c ls)" and "\<forall>l \<in> set (unlink c ls). c \<notin> set (l_categories l)"
proof -
  have "limit_ok lookup (l\<lparr>l_categories := filter (\<lambda>x. x \<noteq> c) (l_categories l)\<rparr>)"
    if ok: "limit_ok lookup l" and kept: "filter (\<lambda>x. x \<noteq> c) (l_categories l) \<noteq> [] \<or> l_limit_type l = OTHERS" for l
  proof -
    have "1 < length (filter (\<lambda>x. x \<noteq> c) (l_categories l)) \<Longrightarrow> 1 < length (l_categories l)"
      using length_filter_le [of "\<lambda>x. x \<noteq> c" "l_categories l"] by linarith
    with ok kept show ?thesis by (auto simp: limit_ok_def)
  qed
  then have each: "\<forall>l \<in> set (unlink c ls). limit_ok lookup l"
    using assms unfolding unlink_def limits_ok_def by fastforce
  have smaller: "\<exists>r \<in> set ls. smaller_limit l r" if "l \<in> set (unlink c ls)" for l
    using that by (auto simp: unlink_def smaller_limit_def)
  have "compatible l l'" if l: "l \<in> set (unlink c ls)" "l' \<in> set (unlink c ls)" "l_id l \<noteq> l_id l'" for l l'
  proof -
    from smaller l(1,2) obtain r r' where r: "r \<in> set ls" "smaller_limit l r" "r' \<in> set ls" "smaller_limit l' r'"
      by blast
    with l(3) have "l_id r \<noteq> l_id r'" by (simp add: smaller_limit_def)
    with assms r(1,3) have "compatible r r'" by (simp add: limits_ok_def)
    then show ?thesis by (rule compatible_smaller [OF r(2,4)])
  qed
  with each show "limits_ok lookup (unlink c ls)" by (simp add: limits_ok_def)
  show "\<forall>l \<in> set (unlink c ls). c \<notin> set (l_categories l)"
    by (auto simp: unlink_def)
qed

lemma unlinkFromLimit_eq:
  assumes ok: "limits_ok lookup (rows (limits s))" and ids: "distinct (map l_id (rows (limits s)))"
  shows "unlinkFromLimit c s = s\<lparr>limits := (limits s)\<lparr>rows := unlink c (rows (limits s))\<rparr>\<rparr>"
proof (cases "find_row (\<lambda>l. c \<in> set (l_categories l)) (rows (limits s))")
  case None
  have "unlink c (rows (limits s)) = rows (limits s)"
  proof -
    have "map (\<lambda>l. l\<lparr>l_categories := filter (\<lambda>x. x \<noteq> c) (l_categories l)\<rparr>) (rows (limits s)) = rows (limits s)"
    proof (rule map_idI)
      fix l assume "l \<in> set (rows (limits s))"
      with None have "filter (\<lambda>x. x \<noteq> c) (l_categories l) = l_categories l"
        by (auto simp: find_row_None intro!: filter_True)
      then show "l\<lparr>l_categories := filter (\<lambda>x. x \<noteq> c) (l_categories l)\<rparr> = l" by simp
    qed
    moreover have "l_categories l \<noteq> [] \<or> l_limit_type l = OTHERS" if "l \<in> set (rows (limits s))" for l
      using ok that by (auto simp: limits_ok_def limit_ok_def)
    ultimately show ?thesis by (simp add: unlink_def filter_True)
  qed
  with None show ?thesis by (simp add: unlinkFromLimit_def)
next
  case (Some l)
  let ?f = "\<lambda>l. l\<lparr>l_categories := filter (\<lambda>x. x \<noteq> c) (l_categories l)\<rparr>"
  let ?rs = "rows (limits s)" and ?rem = "filter (\<lambda>x. x \<noteq> c) (l_categories l)"
  have l: "l \<in> set ?rs" "c \<in> set (l_categories l)" using find_row_Some [OF Some] by auto
  have only: "r = l" if "r \<in> set ?rs" "l_id r = l_id l" for r
    using distinct_key_eq [OF ids that(1) l(1)] that(2) by blast
  have others: "?f r = r" if "r \<in> set ?rs" "r \<noteq> l" for r
  proof -
    have "c \<notin> set (l_categories r)" using limit_of_category [OF ok ids that(1) l(1) _ l(2)] that(2) by blast
    then have "filter (\<lambda>x. x \<noteq> c) (l_categories r) = l_categories r" by (auto intro!: filter_True)
    then show ?thesis by simp
  qed
  have removed: "set_categories (filter (\<lambda>x. x \<noteq> c)) (l_id l) ?rs = map ?f ?rs"
    unfolding set_categories_def update_rows_def
  proof (rule map_cong [OF refl])
    fix r assume r: "r \<in> set ?rs"
    show "(if l_id r = l_id l then ?f r else r) = ?f r"
      using only [OF r] others [OF r] by (cases "r = l") auto
  qed
  have remaining: "find_row (\<lambda>r. l_id r = l_id l) (map ?f ?rs) = Some (?f l)"
    using find_row_key [of l_id "map ?f ?rs" "?f l"] ids l(1) by (simp add: comp_def)
  have type: "l_limit_type r \<noteq> OTHERS \<longleftrightarrow> l_categories r \<noteq> []" if "r \<in> set ?rs" for r
    using ok that by (auto simp: limits_ok_def limit_ok_def)
  have kept: "(l_categories (?f r) \<noteq> [] \<or> l_limit_type r = OTHERS) \<longleftrightarrow> \<not> (r = l \<and> ?rem = [])"
    if r: "r \<in> set ?rs" for r
  proof (cases "r = l")
    case True
    have "l_limit_type l \<noteq> OTHERS" using type [OF l(1)] l(2) by auto
    with True show ?thesis by simp
  next
    case False
    then have "l_categories (?f r) = l_categories r" using others [OF r] by (metis limit.select_convs(6) limit.surjective)
    with False type [OF r] show ?thesis by simp
  qed
  have "(if ?rem = [] then delete_rows (\<lambda>r. l_id r = l_id l) (map ?f ?rs) else map ?f ?rs) = unlink c ?rs"
  proof -
    have "unlink c ?rs = map ?f (filter (\<lambda>r. \<not> (r = l \<and> ?rem = [])) ?rs)"
      unfolding unlink_def filter_map comp_def using kept by (intro arg_cong [of _ _ "map ?f"] filter_cong) auto
    moreover have "delete_rows (\<lambda>r. l_id r = l_id l) (map ?f ?rs) = map ?f (filter (\<lambda>r. r \<noteq> l) ?rs)"
      unfolding delete_rows_def filter_map comp_def using only by (intro arg_cong [of _ _ "map ?f"] filter_cong) auto
    ultimately show ?thesis by (auto simp: filter_True)
  qed
  with Some removed remaining show ?thesis by (simp add: unlinkFromLimit_def Let_def)
qed

section \<open>The invariant of the catalog\<close>

definition lookup_category :: "db \<Rightarrow> nat \<Rightarrow> category option" where
  "lookup_category s c = find_category c s"

definition catalog_ok :: "db \<Rightarrow> bool" where
  "catalog_ok s \<longleftrightarrow> table_ok w_id (wallets s) \<and> table_ok cat_id (categories s) \<and> table_ok l_id (limits s) \<and>
     limits_ok (lookup_category s) (rows (limits s)) \<and>
     (\<forall>c \<in> set (rows (categories s)). cat_is_active c \<longleftrightarrow> cat_archived_at c = None)"

lemma catalog_ok_cong:
  "wallets s' = wallets s \<Longrightarrow> categories s' = categories s \<Longrightarrow> limits s' = limits s \<Longrightarrow> catalog_ok s' = catalog_ok s"
  by (simp add: catalog_ok_def lookup_category_def [abs_def] find_category_def)

lemma catalog_distinct:
  assumes "catalog_ok s"
  shows "distinct (map w_id (rows (wallets s)))" "distinct (map cat_id (rows (categories s)))"
    "distinct (map l_id (rows (limits s)))"
  using assms by (simp_all add: catalog_ok_def table_ok_def)

lemma find_category_in: "find_category i s = Some c \<Longrightarrow> c \<in> set (rows (categories s)) \<and> cat_id c = i"
  unfolding find_category_def by (drule find_row_Some) simp

text \<open>What the writes of categories and limits leave alone.\<close>

definition same_history :: "db \<Rightarrow> db \<Rightarrow> bool" where
  "same_history s s' \<longleftrightarrow> transactions s' = transactions s \<and> operations s' = operations s \<and>
     members s' = members s \<and> idempotency_keys s' = idempotency_keys s"

lemma same_history_refl [simp]: "same_history s s"
  by (simp add: same_history_def)

section \<open>Writes of categories\<close>

lemma getEditableCategory_eq_Inr [result_iffs]:
  "getEditableCategory sp i s = Inr c \<longleftrightarrow> find_category i s = Some c \<and> cat_space_id c = sp \<and> \<not> cat_is_system c"
  by (auto simp: getEditableCategory_def and_then_eq_Inr assertBelongsToSpace_eq_Inr split: if_splits)

lemma lookup_insert_category:
  assumes "table_ok cat_id (categories s)" and "lookup_category s c = Some cat"
  shows "lookup_category (s\<lparr>categories := insert_auto mk (categories s)\<rparr>) c = Some cat"
  using assms by (simp add: lookup_category_def find_category_def find_row_append)

lemma create_category_keeps:
  assumes ok: "catalog_ok s" and run: "create_category now u sp dto s = Inr (i, s')"
  shows "catalog_ok s'" and "same_history s s'" and "wallets s' = wallets s" and "limits s' = limits s"
    and "categories s' = insert_auto (new_category now sp dto False) (categories s)" and "i = next_id (categories s)"
proof -
  from run have s': "s' = s\<lparr>categories := insert_auto (new_category now sp dto False) (categories s)\<rparr>"
    and i: "i = next_id (categories s)" by (auto simp: create_category_def write_in_space_eq_Inr)
  have tables: "table_ok w_id (wallets s)" "table_ok cat_id (categories s)" "table_ok l_id (limits s)"
    and lims: "limits_ok (lookup_category s) (rows (limits s))"
    using ok by (simp_all add: catalog_ok_def)
  have "limits_ok (lookup_category s') (rows (limits s))"
    by (rule limits_ok_lookup [OF lims]) (simp add: s' lookup_insert_category [OF tables(2)])
  moreover have "table_ok cat_id (insert_auto (new_category now sp dto False) (categories s))"
    by (rule table_ok_insert_auto [OF tables(2)]) (simp add: new_category_def)
  ultimately show "catalog_ok s'"
    using ok by (auto simp: catalog_ok_def s' new_category_def)
  show "same_history s s'" "wallets s' = wallets s" "limits s' = limits s"
    "categories s' = insert_auto (new_category now sp dto False) (categories s)" "i = next_id (categories s)"
    by (simp_all add: s' i same_history_def)
qed

text \<open>
  Rewriting one category \<open>i\<close>, and its limit when it becomes inactive: \<open>ls\<close> are the limits then.
\<close>

lemma rewrite_category_ok:
  assumes ok: "catalog_ok s" and ids: "\<And>c. cat_id (f c) = cat_id c"
    and lims: "limits_ok (lookup_category s) ls" and table: "table_ok l_id ((limits s)\<lparr>rows := ls\<rparr>)"
    and row: "\<And>c. find_category i s = Some c \<Longrightarrow> (cat_is_active (f c) \<longleftrightarrow> cat_archived_at (f c) = None) \<and>
        ((\<exists>l \<in> set ls. i \<in> set (l_categories l)) \<longrightarrow> cat_space_id (f c) = cat_space_id c \<and>
          cat_is_active (f c) = cat_is_active c \<and> cat_is_system (f c) = cat_is_system c)"
  shows "catalog_ok (s\<lparr>limits := (limits s)\<lparr>rows := ls\<rparr>,
    categories := (categories s)\<lparr>rows := update_rows (\<lambda>c. cat_id c = i) f (rows (categories s))\<rparr>\<rparr>)"
    (is "catalog_ok ?s'")
proof -
  have found: "lookup_category ?s' c = map_option (\<lambda>r. if cat_id r = i then f r else r) (lookup_category s c)" for c
    by (simp add: lookup_category_def find_category_def find_row_update_key ids)
  have "limits_ok (lookup_category ?s') ls"
  proof (rule limits_ok_lookup [OF lims])
    fix l c cat assume l: "l \<in> set ls" "c \<in> set (l_categories l)" "lookup_category s c = Some cat"
    then have c: "cat_id cat = c" using find_category_in by (auto simp: lookup_category_def)
    show "\<exists>cat'. lookup_category ?s' c = Some cat' \<and> cat_space_id cat' = cat_space_id cat \<and>
        cat_is_active cat' = cat_is_active cat \<and> cat_is_system cat' = cat_is_system cat"
    proof (cases "c = i")
      case True
      then have "lookup_category ?s' c = Some (f cat)" using found [of c] l(3) c by simp
      moreover have "find_category i s = Some cat" using l(3) True by (simp add: lookup_category_def)
      ultimately show ?thesis using row [of cat] l(1,2) True by auto
    next
      case False
      with l c show ?thesis by (simp add: found)
    qed
  qed
  moreover have "cat_is_active c \<longleftrightarrow> cat_archived_at c = None" if c: "c \<in> set (rows (categories ?s'))" for c
  proof -
    from c obtain r where r: "r \<in> set (rows (categories s))" "c = (if cat_id r = i then f r else r)"
      by (auto simp: set_update_rows)
    show ?thesis
    proof (cases "cat_id r = i")
      case True
      have "find_category i s = Some r"
        using find_row_key [OF catalog_distinct(2) [OF ok] r(1)] True by (simp add: find_category_def)
      with row r True show ?thesis by simp
    next
      case False
      with r ok show ?thesis by (simp add: catalog_ok_def)
    qed
  qed
  moreover have "table_ok cat_id (categories ?s')"
    using ok ids by (simp add: catalog_ok_def table_ok_update)
  ultimately show ?thesis using ok table by (simp add: catalog_ok_def)
qed

lemma table_ok_unlink: "table_ok l_id t \<Longrightarrow> table_ok l_id (t\<lparr>rows := unlink c (rows t)\<rparr>)"
proof -
  assume ok: "table_ok l_id t"
  have "map l_id (map (\<lambda>l. l\<lparr>l_categories := filter (\<lambda>x. x \<noteq> c) (l_categories l)\<rparr>) (rows t)) = map l_id (rows t)"
    by simp
  with ok have "distinct (map l_id (unlink c (rows t)))"
    unfolding unlink_def table_ok_def by (intro distinct_map_filter) (simp add: comp_def)
  moreover have "\<forall>l \<in> set (unlink c (rows t)). l_id l < next_id t"
    using ok by (auto simp: unlink_def table_ok_def)
  ultimately show ?thesis by (simp add: table_ok_def)
qed

lemma assign_category_eq:
  "assign_category dto c = c\<lparr>cat_name := or_old (pc_name dto) (cat_name c), cat_icon := or_old (pc_icon dto) (cat_icon c),
     cat_color := or_old (pc_color dto) (cat_color c), cat_is_active := or_old (pc_is_active dto) (cat_is_active c)\<rparr>"
  by (cases "pc_name dto"; cases "pc_icon dto"; cases "pc_color dto"; cases "pc_is_active dto";
      simp add: assign_category_def)

text \<open>Saving the changed entity of a stored row rewrites that row.\<close>

definition stored_category :: "int \<Rightarrow> category \<Rightarrow> category \<Rightarrow> category" where
  "stored_category now old new = (let saved = (if old = new then new else new\<lparr>cat_updated_at := current_second now\<rparr>)
     in saved\<lparr>cat_archived_at := map_option to_seconds (cat_archived_at saved)\<rparr>)"

lemma save_category_eq:
  assumes "find_category i s = Some c" and "cat_id new = i"
  shows "snd (save_category now new s) = s\<lparr>categories := (categories s)\<lparr>rows :=
    update_rows (\<lambda>x. cat_id x = i) (\<lambda>_. stored_category now c new) (rows (categories s))\<rparr>\<rparr>"
  using assms by (auto simp: save_category_def stored_category_def Let_def)

lemma stored_category_simps [simp]:
  "cat_id (stored_category now old new) = cat_id new"
  "cat_space_id (stored_category now old new) = cat_space_id new"
  "cat_is_system (stored_category now old new) = cat_is_system new"
  "cat_is_active (stored_category now old new) = cat_is_active new"
  "cat_transaction_type (stored_category now old new) = cat_transaction_type new"
  "cat_sort (stored_category now old new) = cat_sort new"
  "cat_name (stored_category now old new) = cat_name new"
  "cat_archived_at (stored_category now old new) = map_option to_seconds (cat_archived_at new)"
  by (simp_all add: stored_category_def Let_def)

lemma find_unlink [simp]:
  "find_category i (s\<lparr>limits := t\<rparr>) = find_category i s"
  "lookup_category (s\<lparr>limits := t\<rparr>) = lookup_category s"
  by (simp_all add: find_category_def lookup_category_def [abs_def])

lemma update_rows_const:
  "distinct (map key rs) \<Longrightarrow> find_row (\<lambda>r. key r = i) rs = Some r \<Longrightarrow>
    update_rows (\<lambda>r. key r = i) f rs = update_rows (\<lambda>r. key r = i) (\<lambda>_. f r) rs"
proof -
  assume d: "distinct (map key rs)" and r: "find_row (\<lambda>r. key r = i) rs = Some r"
  have "x = r" if "x \<in> set rs" "key x = i" for x
    using distinct_key_eq [OF d that(1)] find_row_Some [OF r] that(2) by auto
  then show ?thesis by (auto simp: update_rows_def)
qed

text \<open>
  The rewritten row of an update or an archive: the category is the old one with new texts, or it
  has been archived and taken from its limit, or it has been made active again.
\<close>

lemma update_category_effect:
  assumes ok: "catalog_ok s" and run: "update_category now u sp i dto s = Inr (r, s')"
  obtains c new where "find_category i s = Some c" and "cat_space_id c = sp" and "\<not> cat_is_system c"
    and "cat_is_active new = or_old (pc_is_active dto) (cat_is_active c)"
    and "cat_id new = i" "cat_space_id new = sp" "\<not> cat_is_system new"
      "cat_transaction_type new = cat_transaction_type c" "cat_name new = or_old (pc_name dto) (cat_name c)"
    and "cat_archived_at new = None \<longleftrightarrow> cat_is_active new"
    and "s' = s\<lparr>limits := (limits s)\<lparr>rows := (if cat_is_active c \<and> \<not> cat_is_active new
          then unlink i (rows (limits s)) else rows (limits s))\<rparr>,
        categories := (categories s)\<lparr>rows := update_rows (\<lambda>c. cat_id c = i) (\<lambda>_. new) (rows (categories s))\<rparr>\<rparr>"
    and "is_member sp u s"
proof -
  from run obtain c where member: "is_member sp u s" and c: "find_category i s = Some c" "cat_space_id c = sp" "\<not> cat_is_system c"
    and saved: "(if pc_is_active dto \<noteq> None \<and> pc_is_active dto \<noteq> Some (cat_is_active c) then
       if pc_is_active dto = Some False
       then Inr (save_category now ((assign_category dto c)\<lparr>cat_archived_at := Some now\<rparr>) (unlinkFromLimit i s))
       else Inr (save_category now ((assign_category dto c)\<lparr>cat_archived_at := None\<rparr>) s)
     else Inr (save_category now (assign_category dto c) s)) = (Inr (r, s') :: exception + _)"
    unfolding update_category_def update_category_work_def write_in_space_eq_Inr and_then_eq_Inr
        getEditableCategory_eq_Inr Let_def by blast
  have c': "c \<in> set (rows (categories s))" "cat_id c = i" using find_category_in [OF c(1)] by auto
  then have dated: "cat_archived_at c = None \<longleftrightarrow> cat_is_active c" using ok by (auto simp: catalog_ok_def)
  note lims = unlinkFromLimit_eq [OF _ catalog_distinct(3) [OF ok], of "lookup_category s" i]
  have unlinked: "unlinkFromLimit i s = s\<lparr>limits := (limits s)\<lparr>rows := unlink i (rows (limits s))\<rparr>\<rparr>"
    using ok by (intro lims) (simp add: catalog_ok_def)
  have id: "s\<lparr>limits := (limits s)\<lparr>rows := rows (limits s)\<rparr>, categories := t\<rparr> = s\<lparr>categories := t\<rparr>" for t by simp
  consider (archive) "pc_is_active dto = Some False" "cat_is_active c"
    | (restore) "pc_is_active dto = Some True" "\<not> cat_is_active c"
    | (same) "pc_is_active dto = None \<or> pc_is_active dto = Some (cat_is_active c)"
    by (cases "pc_is_active dto") auto
  then show thesis
  proof cases
    case archive
    let ?new = "(assign_category dto c)\<lparr>cat_archived_at := Some now\<rparr>"
    have s': "s' = snd (save_category now ?new (unlinkFromLimit i s))"
      using saved archive by simp
    show thesis
      by (rule that [OF c, of "stored_category now c ?new"])
        (use c c' archive in \<open>simp_all add: assign_category_eq s' save_category_eq [of i] unlinked member\<close>)
  next
    case restore
    let ?new = "(assign_category dto c)\<lparr>cat_archived_at := None\<rparr>"
    have s': "s' = snd (save_category now ?new s)"
      using saved restore by simp
    show thesis
      by (rule that [OF c, of "stored_category now c ?new"])
        (use c c' restore in \<open>simp_all add: assign_category_eq s' save_category_eq [of i] member\<close>)
  next
    case same
    then have s': "s' = snd (save_category now (assign_category dto c) s)"
      using saved by (elim disjE) simp_all
    have "or_old (pc_is_active dto) (cat_is_active c) = cat_is_active c" using same by auto
    then show thesis
      by (intro that [OF c, of "stored_category now c (assign_category dto c)"])
        (use c c' dated in \<open>simp_all add: assign_category_eq s' save_category_eq [of i] member\<close>)
  qed
qed

lemma update_category_keeps:
  assumes ok: "catalog_ok s" and run: "update_category now u sp i dto s = Inr (r, s')"
  shows "catalog_ok s'" and "same_history s s'" and "wallets s' = wallets s"
proof -
  from ok run obtain c new where c: "find_category i s = Some c" "cat_space_id c = sp" "\<not> cat_is_system c"
    and new: "cat_id new = i" "cat_space_id new = sp" "\<not> cat_is_system new" "cat_archived_at new = None \<longleftrightarrow> cat_is_active new"
    and s': "s' = s\<lparr>limits := (limits s)\<lparr>rows := (if cat_is_active c \<and> \<not> cat_is_active new
          then unlink i (rows (limits s)) else rows (limits s))\<rparr>,
        categories := (categories s)\<lparr>rows := update_rows (\<lambda>c. cat_id c = i) (\<lambda>_. new) (rows (categories s))\<rparr>\<rparr>"
    by (rule update_category_effect)
  let ?ls = "if cat_is_active c \<and> \<not> cat_is_active new then unlink i (rows (limits s)) else rows (limits s)"
  let ?f = "\<lambda>x. if cat_id x = i then new else x"
  have rewrite: "update_rows (\<lambda>c. cat_id c = i) (\<lambda>_. new) rs = update_rows (\<lambda>c. cat_id c = i) ?f rs" for rs
    by (auto simp: update_rows_def)
  have lims: "limits_ok (lookup_category s) (rows (limits s))" using ok by (simp add: catalog_ok_def)
  have c_id: "cat_id c = i" using find_category_in [OF c(1)] by simp
  have inactive: "\<not> cat_is_active c \<Longrightarrow> l \<in> set (rows (limits s)) \<Longrightarrow> i \<notin> set (l_categories l)" for l
    using lims c(1) by (fastforce simp: limits_ok_def limit_ok_def lookup_category_def)
  show "catalog_ok s'"
    unfolding s' rewrite
  proof (rule rewrite_category_ok [OF ok])
    show "cat_id (?f x) = cat_id x" for x by (simp add: new)
    show "limits_ok (lookup_category s) ?ls" using lims limits_ok_unlink(1) [OF lims] by simp
    show "table_ok l_id ((limits s)\<lparr>rows := ?ls\<rparr>)"
      using ok table_ok_unlink [of "limits s"] by (simp add: catalog_ok_def)
    fix x assume "find_category i s = Some x"
    with c(1) have "x = c" by simp
    moreover have "cat_is_active new = cat_is_active c" if "\<exists>l \<in> set ?ls. i \<in> set (l_categories l)"
      using that limits_ok_unlink(2) [OF lims, of i] inactive by (auto split: if_splits)
    ultimately show "(cat_is_active (?f x) \<longleftrightarrow> cat_archived_at (?f x) = None) \<and>
        ((\<exists>l \<in> set ?ls. i \<in> set (l_categories l)) \<longrightarrow> cat_space_id (?f x) = cat_space_id x \<and>
          cat_is_active (?f x) = cat_is_active x \<and> cat_is_system (?f x) = cat_is_system x)"
      using new c c_id by simp
  qed
  show "same_history s s'" "wallets s' = wallets s" by (simp_all add: s' same_history_def)
qed

text \<open>A category leaves: its row is archived when a transaction uses it, and deleted otherwise.\<close>

lemma getTransactionCounts_one:
  "getTransactionCounts [i] s i =
    (let n = length (filter (\<lambda>t. t_category_id t = i) (transactions s)) in if n = 0 then None else Some n)"
proof -
  let ?ts = "filter (\<lambda>t. t_category_id t = i) (transactions s)"
  have "group_by t_category_id length ?ts =
      map (\<lambda>k. (k, length (filter (\<lambda>t. t_category_id t = k) ?ts))) (dedup (map t_category_id ?ts))"
    by (simp add: group_by_def)
  then have "map_of (group_by t_category_id length ?ts) i =
      (if i \<in> set (map t_category_id ?ts) then Some (length ?ts) else None)"
    by (simp add: map_of_pairs)
  moreover have "i \<in> set (map t_category_id ?ts) \<longleftrightarrow> ?ts \<noteq> []"
    by (cases ?ts) (auto simp: filter_eq_Cons_iff)
  ultimately show ?thesis by (simp add: getTransactionCounts_def Let_def)
qed

lemma deleteOrArchive_effect:
  assumes ok: "catalog_ok s"
  shows "deleteOrArchive_work now sp i s =
    and_then (getEditableCategory sp i s) (\<lambda>_.
      let s1 = s\<lparr>limits := (limits s)\<lparr>rows := unlink i (rows (limits s))\<rparr>\<rparr> in
      if \<exists>t \<in> set (transactions s). t_category_id t = i
      then Inr (True, s1\<lparr>categories := (categories s)\<lparr>rows := update_rows (\<lambda>c. cat_id c = i)
        (\<lambda>c. c\<lparr>cat_is_active := False, cat_archived_at := Some (to_seconds now), cat_updated_at := current_second now\<rparr>)
        (rows (categories s))\<rparr>\<rparr>)
      else Inr (False, s1\<lparr>categories := (categories s)\<lparr>rows :=
        delete_rows (\<lambda>c. cat_id c = i) (rows (categories s))\<rparr>\<rparr>))"
proof -
  have lims: "limits_ok (lookup_category s) (rows (limits s))" using ok by (simp add: catalog_ok_def)
  note unlinked = unlinkFromLimit_eq [OF lims catalog_distinct(3) [OF ok], of i]
  have free: "\<not> (\<exists>l \<in> set (unlink i (rows (limits s))). i \<in> set (l_categories l))"
    using limits_ok_unlink(2) [OF lims] by blast
  have count: "(case getTransactionCounts [i] s i of None \<Rightarrow> 0 | Some n \<Rightarrow> n) = 0 \<longleftrightarrow>
      \<not> (\<exists>t \<in> set (transactions s). t_category_id t = i)"
    by (auto simp: getTransactionCounts_one Let_def filter_empty_conv)
  show ?thesis
    unfolding deleteOrArchive_work_def Let_def unlinked count
    using free by (simp add: delete_category_def cong: if_cong)
qed

lemma deleteOrArchive_keeps:
  assumes ok: "catalog_ok s" and run: "deleteOrArchive now u sp i s = Inr (archived, s')"
  shows "catalog_ok s'" and "same_history s s'" and "wallets s' = wallets s"
    and "archived \<longleftrightarrow> (\<exists>t \<in> set (transactions s). t_category_id t = i)"
    and "\<not> archived \<Longrightarrow> categories s' = (categories s)\<lparr>rows := delete_rows (\<lambda>c. cat_id c = i) (rows (categories s))\<rparr>"
    and "archived \<Longrightarrow> categories s' = (categories s)\<lparr>rows := update_rows (\<lambda>c. cat_id c = i)
        (\<lambda>c. c\<lparr>cat_is_active := False, cat_archived_at := Some (to_seconds now), cat_updated_at := current_second now\<rparr>)
        (rows (categories s))\<rparr>"
    and "limits s' = (limits s)\<lparr>rows := unlink i (rows (limits s))\<rparr>"
proof -
  let ?s1 = "s\<lparr>limits := (limits s)\<lparr>rows := unlink i (rows (limits s))\<rparr>\<rparr>"
  let ?f = "\<lambda>c. c\<lparr>cat_is_active := False, cat_archived_at := Some (to_seconds now), cat_updated_at := current_second now\<rparr>"
  let ?used = "\<exists>t \<in> set (transactions s). t_category_id t = i"
  from run have member: "is_member sp u s" and work: "deleteOrArchive_work now sp i s = Inr (archived, s')"
    by (auto simp: deleteOrArchive_def write_in_space_eq_Inr)
  from work obtain c where c: "find_category i s = Some c" "cat_space_id c = sp" "\<not> cat_is_system c"
    and result: "(if ?used
      then Inr (True, ?s1\<lparr>categories := (categories s)\<lparr>rows := update_rows (\<lambda>c. cat_id c = i) ?f (rows (categories s))\<rparr>\<rparr>)
      else Inr (False, ?s1\<lparr>categories := (categories s)\<lparr>rows := delete_rows (\<lambda>c. cat_id c = i) (rows (categories s))\<rparr>\<rparr>))
      = (Inr (archived, s') :: exception + _)"
    unfolding deleteOrArchive_effect [OF ok] and_then_eq_Inr getEditableCategory_eq_Inr Let_def by blast
  have lims: "limits_ok (lookup_category s) (rows (limits s))" using ok by (simp add: catalog_ok_def)
  note unlinked = limits_ok_unlink [OF lims, of i]
  have table: "table_ok l_id ((limits s)\<lparr>rows := unlink i (rows (limits s))\<rparr>)"
    using ok by (intro table_ok_unlink) (simp add: catalog_ok_def)
  show "archived \<longleftrightarrow> ?used" using result by (auto split: if_splits)
  have s': "s' = ?s1\<lparr>categories := (categories s)\<lparr>rows := (if ?used
      then update_rows (\<lambda>c. cat_id c = i) ?f (rows (categories s))
      else delete_rows (\<lambda>c. cat_id c = i) (rows (categories s)))\<rparr>\<rparr>"
    using result by (auto split: if_splits)
  show "catalog_ok s'"
  proof (cases ?used)
    case True
    then have "s' = ?s1\<lparr>categories := (categories s)\<lparr>rows := update_rows (\<lambda>c. cat_id c = i) ?f (rows (categories s))\<rparr>\<rparr>"
      by (simp add: s')
    then show ?thesis
      by (simp only:, intro rewrite_category_ok [OF ok _ unlinked(1) table]) (use unlinked(2) in auto)
  next
    case False
    have found: "lookup_category s' x = (if x = i then None else lookup_category s x)" for x
      using False by (simp add: s' lookup_category_def find_category_def find_row_delete_key)
    have "limits_ok (lookup_category s') (unlink i (rows (limits s)))"
      by (rule limits_ok_lookup [OF unlinked(1)]) (use unlinked(2) found in auto)
    moreover have "table_ok cat_id (categories s')"
      using ok False by (simp add: s' catalog_ok_def table_ok_delete)
    moreover have "\<forall>c \<in> set (rows (categories s')). cat_is_active c \<longleftrightarrow> cat_archived_at c = None"
      using ok False by (simp add: s' catalog_ok_def)
    ultimately show ?thesis using ok table by (simp add: catalog_ok_def s')
  qed
  show "same_history s s'" "wallets s' = wallets s" "limits s' = (limits s)\<lparr>rows := unlink i (rows (limits s))\<rparr>"
    by (simp_all add: s' same_history_def)
  show "\<not> archived \<Longrightarrow> categories s' = (categories s)\<lparr>rows := delete_rows (\<lambda>c. cat_id c = i) (rows (categories s))\<rparr>"
    "archived \<Longrightarrow> categories s' = (categories s)\<lparr>rows := update_rows (\<lambda>c. cat_id c = i) ?f (rows (categories s))\<rparr>"
    using \<open>archived \<longleftrightarrow> ?used\<close> by (simp_all add: s')
qed

text \<open>A new order: all ids are different active categories of the space and of one type.\<close>

definition sort_prefix :: "TransactionType \<Rightarrow> nat" where
  "sort_prefix ty = (if ty = INCOME then 100 else 200)"

lemma found_all:
  assumes "distinct (map key rs)" and "length (filter (\<lambda>r. key r \<in> set ks) rs) = length ks"
  shows "distinct ks" and "set ks = key ` set (filter (\<lambda>r. key r \<in> set ks) rs)"
proof -
  let ?found = "filter (\<lambda>r. key r \<in> set ks) rs"
  have d: "distinct (map key ?found)" using assms(1) by (rule distinct_map_filter)
  have sub: "set (map key ?found) \<subseteq> set ks" by auto
  have card: "card (set (map key ?found)) = length ks"
    using distinct_card [OF d] assms(2) by simp
  then have "card (set ks) = length ks"
    using card_mono [OF _ sub] card_length [of ks] by simp
  then show "distinct ks" by (rule card_distinct)
  show "set ks = key ` set ?found"
    using card_subset_eq [OF _ sub] card \<open>card (set ks) = length ks\<close> by simp
qed

lemma dedup_singleton: "length (dedup xs) \<le> 1 \<Longrightarrow> x \<in> set xs \<Longrightarrow> y \<in> set xs \<Longrightarrow> x = y"
proof -
  assume l: "length (dedup xs) \<le> 1" and x: "x \<in> set xs" and y: "y \<in> set xs"
  have "card (set xs) = length (dedup xs)"
    using distinct_card [OF distinct_dedup, of xs] by simp
  with l have "card (set xs) \<le> Suc 0" by simp
  then show "x = y" using x y by (metis List.finite_set card_le_Suc0_iff_eq)
qed

lemma reorder_effect:
  assumes ok: "catalog_ok s" and run: "reorder now u sp ids s = Inr (x, s')" and "ids \<noteq> []"
  obtains ty where "distinct ids"
    and "\<And>i. i \<in> set ids \<Longrightarrow> \<exists>c. find_category i s = Some c \<and> cat_space_id c = sp \<and> \<not> cat_is_system c \<and>
      cat_is_active c \<and> cat_transaction_type c = ty"
    and "s' = s\<lparr>categories := (categories s)\<lparr>rows := map (set_sort now (sort_prefix ty) ids) (rows (categories s))\<rparr>\<rparr>"
    and "is_member sp u s"
proof -
  let ?found = "filter (\<lambda>c. cat_id c \<in> set ids) (rows (categories s))"
  from run \<open>ids \<noteq> []\<close> have member: "is_member sp u s" and len: "length ?found = length ids"
    and each: "\<And>c. c \<in> set ?found \<Longrightarrow> cat_space_id c = sp \<and> \<not> cat_is_system c"
    and types: "length (dedup (map cat_transaction_type ?found)) \<le> 1"
    and active: "\<And>c. c \<in> set ?found \<Longrightarrow> cat_is_active c"
    and s': "s' = s\<lparr>categories := (categories s)\<lparr>rows :=
        map (set_sort now (sort_prefix (cat_transaction_type (hd ?found))) ids) (rows (categories s))\<rparr>\<rparr>"
    by (auto simp: reorder_def reorder_work_def write_in_space_eq_Inr and_then_eq_Inr for_each_eq_Inr
        assertBelongsToSpace_eq_Inr guard_eq_Inr Let_def sort_prefix_def simp del: map_map split: if_splits)
  have "?found \<noteq> []" using len \<open>ids \<noteq> []\<close> by (metis length_0_conv)
  then have hd: "hd ?found \<in> set ?found" by (rule hd_in_set)
  note all = found_all [OF catalog_distinct(2) [OF ok] len]
  show thesis
  proof (rule that [OF all(1) _ s' member])
    fix i assume "i \<in> set ids"
    then have "i \<in> cat_id ` set ?found" by (rule subsetD [OF equalityD1 [OF all(2)]])
    then obtain c where c: "c \<in> set ?found" "cat_id c = i" by blast
    then have "find_category i s = Some c"
      using find_row_key [OF catalog_distinct(2) [OF ok], of c] by (auto simp: find_category_def)
    moreover have "cat_transaction_type c = cat_transaction_type (hd ?found)"
      using dedup_singleton [OF types] c(1) hd by auto
    ultimately show "\<exists>c. find_category i s = Some c \<and> cat_space_id c = sp \<and> \<not> cat_is_system c \<and>
      cat_is_active c \<and> cat_transaction_type c = cat_transaction_type (hd ?found)"
      using each [OF c(1)] active [OF c(1)] by blast
  qed
qed

lemma set_sort_simps [simp]:
  "cat_id (set_sort now p ids c) = cat_id c" "cat_space_id (set_sort now p ids c) = cat_space_id c"
  "cat_is_system (set_sort now p ids c) = cat_is_system c" "cat_is_active (set_sort now p ids c) = cat_is_active c"
  "cat_archived_at (set_sort now p ids c) = cat_archived_at c"
  "cat_transaction_type (set_sort now p ids c) = cat_transaction_type c"
  "cat_name (set_sort now p ids c) = cat_name c"
  by (simp_all add: set_sort_def split: option.split)

lemma find_row_map_key: "(\<And>r. key (f r) = key r) \<Longrightarrow>
    find_row (\<lambda>r. key r = k) (map f rs) = map_option f (find_row (\<lambda>r. key r = k) rs)"
  by (induction rs) auto

lemma reorder_rows:
  assumes ok: "catalog_ok s" and run: "reorder now u sp ids s = Inr (x, s')"
  shows "\<exists>p. s' = s\<lparr>categories := (categories s)\<lparr>rows := map (set_sort now p ids) (rows (categories s))\<rparr>\<rparr>"
proof (cases "ids = []")
  case True
  then have "s' = s" using run by (auto simp: reorder_def reorder_work_def write_in_space_eq_Inr)
  moreover have "map (set_sort now p ids) cs = cs" for p cs by (simp add: True set_sort_def map_idI)
  ultimately show ?thesis by simp
next
  case False
  with ok run show ?thesis by (rule reorder_effect) blast
qed

lemma reorder_keeps:
  assumes ok: "catalog_ok s" and run: "reorder now u sp ids s = Inr (x, s')"
  shows "catalog_ok s'" and "same_history s s'" and "wallets s' = wallets s" and "limits s' = limits s"
proof -
  obtain p where s': "s' = s\<lparr>categories := (categories s)\<lparr>rows := map (set_sort now p ids) (rows (categories s))\<rparr>\<rparr>"
    using reorder_rows [OF ok run] ..
  have found: "lookup_category s' c = map_option (set_sort now p ids) (lookup_category s c)" for c
    by (simp add: s' lookup_category_def find_category_def find_row_map_key)
  have lims: "limits_ok (lookup_category s) (rows (limits s))" using ok by (simp add: catalog_ok_def)
  have "limits_ok (lookup_category s') (rows (limits s))"
    by (rule limits_ok_lookup [OF lims]) (simp add: found)
  moreover have "table_ok cat_id (categories s')"
    using ok by (auto simp: s' catalog_ok_def table_ok_def comp_def)
  ultimately show "catalog_ok s'" using ok by (auto simp: catalog_ok_def s')
  show "same_history s s'" "wallets s' = wallets s" "limits s' = limits s" by (simp_all add: s' same_history_def)
qed

section \<open>Writes of wallets\<close>

lemma update_wallet_keeps:
  assumes run: "update_wallet now u sp i dto s = Inr (x, s')"
  shows "categories s' = categories s" and "limits s' = limits s" and "same_history s s'"
    and "wallets s' = (wallets s)\<lparr>rows := update_rows (\<lambda>w. w_id w = i) (patch_wallet now dto) (rows (wallets s))\<rparr>"
  using run by (auto simp: update_wallet_def write_in_space_eq_Inr and_then_eq_Inr same_history_def)

lemma delete_wallet_keeps:
  assumes run: "delete_wallet now u sp i s = Inr (x, s')"
  shows "categories s' = categories s" and "limits s' = limits s" and "same_history s s'"
    and "wallets s' = (wallets s)\<lparr>rows := update_rows (\<lambda>w. w_id w = i)
      (\<lambda>w. w\<lparr>w_is_deleted := True, w_deleted_at := Some (to_seconds now), w_updated_at := current_second now\<rparr>)
      (rows (wallets s))\<rparr>"
  using run by (auto simp: delete_wallet_def write_in_space_eq_Inr and_then_eq_Inr same_history_def)

lemma patch_wallet_simps [simp]:
  "w_id (patch_wallet now dto w) = w_id w" "w_space_id (patch_wallet now dto w) = w_space_id w"
  "w_is_deleted (patch_wallet now dto w) = w_is_deleted w"
  by (cases "pw_wallet_name dto"; cases "pw_design dto"; simp add: patch_wallet_def)+

text \<open>A new wallet, and its initial balance as a transaction of the system category when there is one.\<close>

lemma create_wallet_effect:
  assumes run: "create_wallet rt now uuid u sp dto s = Inr (r, s')"
  obtains cents ts where "parseMoney (cw_initial_balance dto) = Inr cents" and "is_member sp u s"
    and "s' = s\<lparr>wallets := insert_auto (new_wallet now sp dto) (wallets s), transactions := transactions s @ ts\<rparr>"
    and "wb_wallet (wr_wallet r) = new_wallet now sp dto (next_id (wallets s))"
    and "cents = 0 \<longrightarrow> ts = [] \<and> wr_transaction r = None \<and> wb_balance (wr_wallet r) = 0"
    and "cents \<noteq> 0 \<longrightarrow> (\<exists>c t n. ts = [t] \<and> find_transaction uuid s = None \<and> t_id t = uuid \<and>
      c \<in> set (rows (categories s)) \<and> cat_space_id c = sp \<and> cat_is_system c \<and> t_category_id t = cat_id c \<and>
      t_wallet_id t = next_id (wallets s) \<and> t_transaction_type t = INCOME \<and> t_amount t = cents \<and>
      t_timestamp t = now \<and> \<bar>cents\<bar> \<le> MAX_MONEY_INPUT_CENTS \<and> toNumber rt cents = Inr n \<and>
      wb_balance (wr_wallet r) = n \<and> wr_transaction r = Some \<lparr>it_transaction = t, it_amount = n\<rparr>)"
proof -
  let ?s1 = "s\<lparr>wallets := insert_auto (new_wallet now sp dto) (wallets s)\<rparr>"
  from run have member: "is_member sp u s" and work: "create_wallet_work rt now uuid sp dto s = Inr (r, s')"
    by (simp_all add: create_wallet_def write_in_space_eq_Inr)
  from work obtain cents where cents: "parseMoney (cw_initial_balance dto) = Inr cents"
    by (auto simp: create_wallet_work_def Let_def and_then_eq_Inr)
  show thesis
  proof (cases "cents = 0")
    case True
    then show thesis using work cents
      by (intro that [OF cents member, of "[]"]) (auto simp: create_wallet_work_def Let_def new_wallet_def)
  next
    case False
    with work cents obtain c a n s2 where c: "find_row (\<lambda>c. cat_space_id c = sp \<and> cat_is_system c) (rows (categories s)) = Some c"
      and a: "to_column (cw_initial_balance dto) = Inr a" and n: "toNumber rt cents = Inr n"
      and s2: "insert_transaction \<lparr>t_id = uuid, t_wallet_id = next_id (wallets s), t_category_id = cat_id c,
             t_transaction_type = INCOME, t_amount = a, t_timestamp = now, t_description = None, t_version = 1\<rparr> ?s1 = Inr s'"
      and r: "r = \<lparr>wr_wallet = \<lparr>wb_wallet = new_wallet now sp dto (next_id (wallets s)), wb_balance = n\<rparr>,
               wr_transaction = Some \<lparr>it_transaction = \<lparr>t_id = uuid, t_wallet_id = next_id (wallets s), t_category_id = cat_id c,
             t_transaction_type = INCOME, t_amount = a, t_timestamp = now, t_description = None, t_version = 1\<rparr>, it_amount = n\<rparr>\<rparr>"
      by (auto simp: create_wallet_work_def Let_def and_then_eq_Inr need_eq_Inr new_wallet_def)
    from cents have "matchMoney (cw_initial_balance dto) = Some cents"
      by (simp add: parseMoney_def need_eq_Inr)
    with a have a': "a = cents" "\<bar>cents\<bar> \<le> MAX_MONEY_INPUT_CENTS"
      by (auto simp: to_column_def split: if_splits)
    show thesis
      using False c n s2 r a' find_row_Some [OF c]
      by (intro that [OF cents member, of "[\<lparr>t_id = uuid, t_wallet_id = next_id (wallets s), t_category_id = cat_id c,
             t_transaction_type = INCOME, t_amount = a, t_timestamp = now, t_description = None, t_version = 1\<rparr>]"])
        (auto simp: insert_transaction_def find_transaction_def split: if_splits)
  qed
qed

end
