(* ===== verification/LimitFacts.thy ===== *)
theory LimitFacts
  imports SpaceCatalog
begin

text \<open>
  What the writes of limits do to the table of limits, and that they keep its invariant: each check
  of the service is what one conjunct of the invariant needs.
\<close>

section \<open>Checks\<close>

lemma getSpaceLimit_eq_Inr [result_iffs]:
  "getSpaceLimit sp i s = Inr x \<longleftrightarrow>
    (\<exists>l. find_limit i s = Some l \<and> l_space_id l = sp \<and> x = load_limit s l)"
  by (auto simp: getSpaceLimit_def getOneLimit_def assertBelongsToSpace_eq_Inr load_limit_def)

lemma getExistingLimit_eq_Inr [result_iffs]:
  "getExistingLimit i s = Inr x \<longleftrightarrow> (\<exists>l. find_limit i s = Some l \<and> x = load_limit s l)"
  by (auto simp: getExistingLimit_def getOneLimit_def assertFound_eq_Inr)

lemma find_row_filter: "find_row p (filter q rs) = find_row (\<lambda>r. q r \<and> p r) rs"
  by (induction rs) auto

lemma assertCategoriesOwnership_eq_Inr [result_iffs]:
  "assertCategoriesOwnership sp cs s = Inr x \<longleftrightarrow>
    (\<forall>c \<in> set (case cs of None \<Rightarrow> [] | Some cs \<Rightarrow> cs). \<exists>cat. lookup_category s c = Some cat \<and>
       cat_space_id cat = sp \<and> cat_is_active cat \<and> \<not> cat_is_system cat)"
proof -
  have found: "find_row (\<lambda>r. cat_id r = c) (getMany ids s) = lookup_category s c" if "c \<in> set ids" for c ids
  proof -
    have "dedup ids \<noteq> []" using that by (metis set_dedup empty_iff list.set(1))
    moreover have "find_row (\<lambda>r. cat_id r \<in> set ids \<and> cat_id r = c) rs = find_row (\<lambda>r. cat_id r = c) rs" for rs
      using that by (induction rs) auto
    ultimately show ?thesis
      by (simp add: getMany_def lookup_category_def find_category_def find_row_filter)
  qed
  show ?thesis
    by (cases cs)
      (auto simp: assertCategoriesOwnership_def Let_def for_each_eq_Inr and_then_eq_Inr
        assertBelongsToSpace_eq_Inr guard_eq_Inr found)
qed

lemma assertHasNameIfGroup_eq_Inr [result_iffs]:
  "assertHasNameIfGroup ids name = Inr x \<longleftrightarrow> (1 < length ids \<longrightarrow> name \<noteq> None \<and> name \<noteq> Some [])"
  by (auto simp: assertHasNameIfGroup_def guard_eq_Inr)

lemma assertCategoriesAvailable_eq_Inr [result_iffs]:
  "assertCategoriesAvailable sp ids e s = Inr x \<longleftrightarrow> (\<forall>l \<in> set (rows (limits s)).
     l_space_id l = sp \<longrightarrow> other_limit e l \<longrightarrow> set (l_categories l) \<inter> set ids = {})"
  by (auto simp: assertCategoriesAvailable_def Let_def guard_eq_Inr filter_empty_conv)

lemma assertNoOtherTotalLimit_eq_Inr [result_iffs]:
  "assertNoOtherTotalLimit sp e s = Inr x \<longleftrightarrow> (\<forall>l \<in> set (rows (limits s)).
     l_space_id l = sp \<longrightarrow> other_limit e l \<longrightarrow> l_limit_type l \<noteq> OTHERS)"
  by (auto simp: assertNoOtherTotalLimit_def Let_def guard_eq_Inr filter_empty_conv)

lemma to_column_range: "to_column a = Inr c \<Longrightarrow> \<bar>c\<bar> \<le> MAX_MONEY_INPUT_CENTS \<and> matchMoney a = Some c"
  by (auto simp: to_column_def split: option.splits if_splits)

lemma limit_type_of_simps [simp]:
  "limit_type_of cs = OTHERS \<longleftrightarrow> cs = []"
  by (simp add: limit_type_of_def)

text \<open>
  A limit whose categories were found available is compatible with every other limit: limits of
  other spaces hold other categories anyway.
\<close>

lemma available_compatible:
  assumes ok: "catalog_ok s" and l': "l' \<in> set (rows (limits s))"
    and owned: "\<And>c. c \<in> set cs \<Longrightarrow> \<exists>cat. lookup_category s c = Some cat \<and> cat_space_id cat = sp"
    and free: "l_space_id l' = sp \<Longrightarrow> set (l_categories l') \<inter> set cs = {}"
    and total: "l_space_id l' = sp \<Longrightarrow> cs = [] \<Longrightarrow> l_limit_type l' \<noteq> OTHERS"
    and l: "l_space_id l = sp" "set (l_categories l) = set cs" "l_limit_type l = limit_type_of cs"
  shows "compatible l l'"
proof -
  have "limit_ok (lookup_category s) l'" using ok l' by (simp add: catalog_ok_def limits_ok_def)
  then have "set (l_categories l') \<inter> set cs = {}" if "l_space_id l' \<noteq> sp"
    using owned that by (fastforce simp: limit_ok_def)
  with free total l show ?thesis by (auto simp: compatible_def)
qed

section \<open>A new limit\<close>

lemma update_rows_append: "update_rows p f (xs @ ys) = update_rows p f xs @ update_rows p f ys"
  by (simp add: update_rows_def)

lemma create_limit_effect:
  assumes ok: "catalog_ok s" and run: "create_limit now u sp dto s = Inr (x, s')"
  obtains l cs where "cs = (case nl_category_ids dto of None \<Rightarrow> [] | Some cs \<Rightarrow> cs)" and "distinct cs"
    and "s' = s\<lparr>limits := (limits s)\<lparr>rows := rows (limits s) @ [l], next_id := Suc (next_id (limits s))\<rparr>\<rparr>"
    and "l_id l = next_id (limits s)" and "l_space_id l = sp" and "l_categories l = cs"
    and "l_limit_type l = limit_type_of cs" and "l_name l = limit_name_of cs (nl_name dto)"
    and "to_column (nl_amount dto) = Inr (l_amount l)" and "lc_limit x = l"
    and "limit_ok (lookup_category s) l" and "\<And>l'. l' \<in> set (rows (limits s)) \<Longrightarrow> compatible l l'"
    and "is_member sp u s"
proof -
  define cs where "cs = (case nl_category_ids dto of None \<Rightarrow> [] | Some cs \<Rightarrow> cs)"
  from run have member: "is_member sp u s" and work: "create_limit_work now sp dto s = Inr (x, s')"
    by (simp_all add: create_limit_def write_in_space_eq_Inr)
  let ?i = "next_id (limits s)"
  from work obtain a where
    owned: "\<forall>c \<in> set cs. \<exists>cat. lookup_category s c = Some cat \<and> cat_space_id cat = sp \<and>
      cat_is_active cat \<and> \<not> cat_is_system cat"
    and named: "1 < length cs \<longrightarrow> nl_name dto \<noteq> None \<and> nl_name dto \<noteq> Some []"
    and free: "(if cs = [] then assertNoOtherTotalLimit sp None s else assertCategoriesAvailable sp cs None s) = Inr ()"
    and a: "to_column (nl_amount dto) = Inr a"
    and add: "(if cs = [] then Inr (s\<lparr>limits := insert_auto (new_limit now sp cs (nl_name dto) a) (limits s)\<rparr>)
      else add_categories ?i cs (s\<lparr>limits := insert_auto (new_limit now sp cs (nl_name dto) a) (limits s)\<rparr>)) = Inr s'"
    and x: "getExistingLimit ?i s' = Inr x"
    unfolding create_limit_work_def Let_def and_then_eq_Inr assertCategoriesOwnership_eq_Inr
      assertHasNameIfGroup_eq_Inr cs_def [symmetric] by auto
  let ?l = "(new_limit now sp cs (nl_name dto) a ?i)\<lparr>l_categories := cs\<rparr>"
  have fresh: "l_id l' < ?i" if "l' \<in> set (rows (limits s))" for l'
    using ok that by (simp add: catalog_ok_def table_ok_def)
  have old: "update_rows (\<lambda>l. l_id l = ?i) f (rows (limits s)) = rows (limits s)" for f
    unfolding update_rows_def by (intro map_idI) (auto dest: fresh)
  have l: "l_id ?l = ?i" "l_space_id ?l = sp" "l_categories ?l = cs" "l_limit_type ?l = limit_type_of cs"
      "l_name ?l = limit_name_of cs (nl_name dto)" "l_amount ?l = a"
    by (simp_all add: new_limit_def)
  have new: "distinct cs \<and> s' = s\<lparr>limits := (limits s)\<lparr>rows := rows (limits s) @ [?l], next_id := Suc ?i\<rparr>\<rparr>"
  proof (cases "cs = []")
    case True
    then have "?l = new_limit now sp cs (nl_name dto) a ?i" by (simp add: new_limit_def)
    with True add show ?thesis by (simp add: insert_auto_def)
  next
    case False
    with add have "add_categories ?i cs (s\<lparr>limits := insert_auto (new_limit now sp cs (nl_name dto) a) (limits s)\<rparr>) = Inr s'"
      by simp
    moreover have "set_categories (\<lambda>old. old @ cs) ?i (rows (limits s) @ [new_limit now sp cs (nl_name dto) a ?i]) =
        rows (limits s) @ [?l]"
      unfolding set_categories_def update_rows_append old by (simp add: update_rows_def new_limit_def)
    ultimately show ?thesis
      by (auto simp: add_categories_def insert_auto_def split: if_splits)
  qed
  have "find_row (\<lambda>l. l_id l = ?i) (rows (limits s)) = None"
    unfolding find_row_None by (auto dest: fresh)
  with new have "find_limit ?i s' = Some ?l"
    by (simp add: find_limit_def find_row_append l)
  with x have "lc_limit x = ?l" by (auto simp: getExistingLimit_eq_Inr load_limit_def)
  moreover have "limit_ok (lookup_category s) ?l"
    using owned named new to_column_range [OF a] by (auto simp: limit_ok_def l limit_name_of_def)
  moreover have "compatible ?l l'" if "l' \<in> set (rows (limits s))" for l'
    using owned free that
    by (intro available_compatible [OF ok that, of cs sp])
      (auto simp: l assertNoOtherTotalLimit_eq_Inr assertCategoriesAvailable_eq_Inr other_limit_def split: if_splits)
  ultimately show thesis
    using that [OF cs_def, of ?l] new l a member by simp
qed

lemma create_limit_keeps:
  assumes ok: "catalog_ok s" and run: "create_limit now u sp dto s = Inr (x, s')"
  shows "catalog_ok s'" and "same_history s s'" and "wallets s' = wallets s" and "categories s' = categories s"
proof -
  from ok run obtain l where s': "s' = s\<lparr>limits := (limits s)\<lparr>rows := rows (limits s) @ [l], next_id := Suc (next_id (limits s))\<rparr>\<rparr>"
    and l: "l_id l = next_id (limits s)" "limit_ok (lookup_category s) l"
      "\<forall>l' \<in> set (rows (limits s)). compatible l l'"
    by (rule create_limit_effect) (rule that, assumption+, blast)
  have "limits_ok (lookup_category s) (rows (limits s) @ [l])"
    using ok l by (intro limits_ok_append) (simp_all add: catalog_ok_def)
  moreover have "table_ok l_id (limits s')"
    using ok l(1) by (force simp: s' catalog_ok_def table_ok_def less_Suc_eq)
  ultimately show "catalog_ok s'" using ok by (simp add: catalog_ok_def s')
  show "same_history s s'" "wallets s' = wallets s" "categories s' = categories s"
    by (simp_all add: s' same_history_def)
qed

section \<open>An edited limit\<close>

lemma update_rows_twice:
  "(\<And>r. key (g r) = key r) \<Longrightarrow>
    update_rows (\<lambda>r. key r = i) f (update_rows (\<lambda>r. key r = i) g rs) = update_rows (\<lambda>r. key r = i) (f \<circ> g) rs"
  by (auto simp: update_rows_def)

lemma update_rows_id: "update_rows p (\<lambda>r. r) rs = rs"
  by (simp add: update_rows_def)

definition new_columns ::
  "int \<Rightarrow> int option \<Rightarrow> LimitType option \<Rightarrow> string option option \<Rightarrow> limit \<Rightarrow> limit" where
  "new_columns now amount ty name l =
     (if amount = None \<and> ty = None \<and> name = None then l
      else l\<lparr>l_amount := or_old amount (l_amount l), l_limit_type := or_old ty (l_limit_type l),
        l_name := or_old name (l_name l), l_updated_at := current_second now\<rparr>)"

lemma new_columns_simps [simp]:
  "l_id (new_columns now amount ty name l) = l_id l"
  "l_space_id (new_columns now amount ty name l) = l_space_id l"
  "l_categories (new_columns now amount ty name l) = l_categories l"
  "l_amount (new_columns now amount ty name l) = or_old amount (l_amount l)"
  "l_limit_type (new_columns now amount ty name l) = or_old ty (l_limit_type l)"
  "l_name (new_columns now amount ty name l) = or_old name (l_name l)"
  by (simp_all add: new_columns_def)

lemma scalar_update_eq:
  "scalar_update now i amount ty name s = s\<lparr>limits := (limits s)\<lparr>rows :=
    update_rows (\<lambda>l. l_id l = i) (new_columns now amount ty name) (rows (limits s))\<rparr>\<rparr>"
proof (cases "amount = None \<and> ty = None \<and> name = None")
  case True
  then have "new_columns now amount ty name = (\<lambda>l. l)" by (auto simp: new_columns_def)
  with True show ?thesis by (simp add: scalar_update_def update_rows_id)
next
  case False
  have "(with_change amount (\<lambda>a. l_amount_update (\<lambda>_. a)) \<circ> with_change ty (\<lambda>ty. l_limit_type_update (\<lambda>_. ty)) \<circ>
      with_change name (\<lambda>n. l_name_update (\<lambda>_. n)) \<circ> l_updated_at_update (\<lambda>_. current_second now)) =
      new_columns now amount ty name"
    using False by (intro ext, cases amount; cases ty; cases name) (simp_all add: new_columns_def)
  with False show ?thesis by (auto simp: scalar_update_def)
qed

text \<open>The categories of a limit whose rows were removed and added.\<close>

definition relinked :: "nat list \<Rightarrow> nat list \<Rightarrow> nat list" where
  "relinked old cs = filter (\<lambda>c. c \<in> set cs) old @ filter (\<lambda>c. c \<notin> set old) cs"

lemma set_relinked [simp]: "set (relinked old cs) = set cs"
  by (auto simp: relinked_def)

lemma relink_eq:
  assumes found: "find_limit i s = Some l" and ids: "distinct (map l_id (rows (limits s)))"
    and old: "distinct (l_categories l)"
    and run: "(let toRemove = filter (\<lambda>c. c \<notin> set cs) (l_categories l);
         toAdd = filter (\<lambda>c. c \<notin> set (l_categories l)) cs;
         s2 = (if toRemove = [] then s else remove_categories i toRemove s)
       in if toAdd = [] then Inr s2 else add_categories i toAdd s2) = Inr s'"
  shows "distinct (relinked (l_categories l) cs)"
    and "s' = s\<lparr>limits := (limits s)\<lparr>rows :=
      update_rows (\<lambda>l. l_id l = i) (\<lambda>l. l\<lparr>l_categories := relinked (l_categories l) cs\<rparr>) (rows (limits s))\<rparr>\<rparr>"
proof -
  let ?rem = "filter (\<lambda>c. c \<notin> set cs) (l_categories l)" and ?add = "filter (\<lambda>c. c \<notin> set (l_categories l)) cs"
  let ?rs = "rows (limits s)"
  define s2 where "s2 = (if ?rem = [] then s else remove_categories i ?rem s)"
  have l: "l \<in> set ?rs" "l_id l = i" using found unfolding find_limit_def by (auto dest: find_row_Some)
  have one: "r = l" if "r \<in> set ?rs" "l_id r = i" for r
    using distinct_key_eq [OF ids that(1) l(1)] that(2) l(2) by simp
  have rem: "filter (\<lambda>c. c \<notin> set ?rem) (l_categories l) = filter (\<lambda>c. c \<in> set cs) (l_categories l)"
    by (auto intro!: filter_cong)
  have s2: "s2 = s\<lparr>limits := (limits s)\<lparr>rows := update_rows (\<lambda>l. l_id l = i)
      (\<lambda>r. r\<lparr>l_categories := filter (\<lambda>c. c \<in> set cs) (l_categories r)\<rparr>) ?rs\<rparr>\<rparr>"
  proof (cases "?rem = []")
    case True
    then have "filter (\<lambda>c. c \<in> set cs) (l_categories l) = l_categories l"
      by (auto simp: filter_empty_conv intro!: filter_True)
    then have "update_rows (\<lambda>l. l_id l = i) (\<lambda>r. r\<lparr>l_categories := filter (\<lambda>c. c \<in> set cs) (l_categories r)\<rparr>) ?rs = ?rs"
      unfolding update_rows_def by (intro map_idI) (auto dest: one)
    with True show ?thesis by (simp add: s2_def)
  next
    case False
    have "update_rows (\<lambda>l. l_id l = i) (\<lambda>r. r\<lparr>l_categories := filter (\<lambda>c. c \<notin> set ?rem) (l_categories r)\<rparr>) ?rs =
        update_rows (\<lambda>l. l_id l = i) (\<lambda>r. r\<lparr>l_categories := filter (\<lambda>c. c \<in> set cs) (l_categories r)\<rparr>) ?rs"
      unfolding update_rows_def
    proof (rule map_cong [OF refl])
      fix r assume "r \<in> set ?rs"
      then show "(if l_id r = i then r\<lparr>l_categories := filter (\<lambda>c. c \<notin> set ?rem) (l_categories r)\<rparr> else r) =
          (if l_id r = i then r\<lparr>l_categories := filter (\<lambda>c. c \<in> set cs) (l_categories r)\<rparr> else r)"
        using one [of r] rem by (cases "l_id r = i") (simp_all only: if_True if_False)
    qed
    with False show ?thesis by (simp add: s2_def remove_categories_def set_categories_def)
  qed
  have run': "(if ?add = [] then Inr s2 else add_categories i ?add s2) = Inr s'"
    using run by (simp only: Let_def s2_def)
  have "(?add = [] \<or> distinct ?add) \<and> s' = s\<lparr>limits := (limits s)\<lparr>rows :=
      update_rows (\<lambda>l. l_id l = i) (\<lambda>l. l\<lparr>l_categories := relinked (l_categories l) cs\<rparr>) (rows (limits s))\<rparr>\<rparr>"
  proof (cases "?add = []")
    case True
    then have "relinked (l_categories l) cs = filter (\<lambda>c. c \<in> set cs) (l_categories l)"
      by (simp add: relinked_def)
    then have "update_rows (\<lambda>l. l_id l = i) (\<lambda>l. l\<lparr>l_categories := relinked (l_categories l) cs\<rparr>) ?rs =
        update_rows (\<lambda>l. l_id l = i) (\<lambda>r. r\<lparr>l_categories := filter (\<lambda>c. c \<in> set cs) (l_categories r)\<rparr>) ?rs"
      unfolding update_rows_def by (intro map_cong) (auto dest: one)
    with True run' s2 show ?thesis by simp
  next
    case False
    then have add: "add_categories i ?add s2 = Inr s'" using run' by simp
    then have "distinct ?add" and s': "s' = s2\<lparr>limits := (limits s2)\<lparr>rows :=
        set_categories (\<lambda>old. old @ ?add) i (rows (limits s2))\<rparr>\<rparr>"
      by (auto simp: add_categories_def split: if_splits)
    have "set_categories (\<lambda>old. old @ ?add) i (rows (limits s2)) =
        update_rows (\<lambda>l. l_id l = i) (\<lambda>r. r\<lparr>l_categories := filter (\<lambda>c. c \<in> set cs) (l_categories r) @ ?add\<rparr>) ?rs"
      by (simp add: s2 set_categories_def update_rows_twice comp_def)
    also have "\<dots> = update_rows (\<lambda>l. l_id l = i) (\<lambda>l. l\<lparr>l_categories := relinked (l_categories l) cs\<rparr>) ?rs"
      unfolding update_rows_def relinked_def by (intro map_cong) (auto dest: one)
    finally show ?thesis using s' s2 \<open>distinct ?add\<close> by simp
  qed
  then show "distinct (relinked (l_categories l) cs)"
    and "s' = s\<lparr>limits := (limits s)\<lparr>rows :=
      update_rows (\<lambda>l. l_id l = i) (\<lambda>l. l\<lparr>l_categories := relinked (l_categories l) cs\<rparr>) (rows (limits s))\<rparr>\<rparr>"
    using old by (auto simp: relinked_def)
qed

lemma loaded_categories:
  assumes "limit_ok (lookup_category s) l"
  shows "map cat_id (lc_categories (load_limit s l)) = l_categories l"
proof -
  have "map cat_id (List.map_filter (\<lambda>c. find_category c s) cs) = cs"
    if "\<forall>c \<in> set cs. \<exists>cat. lookup_category s c = Some cat" for cs
    using that
    by (induction cs) (auto simp: map_filter_simps lookup_category_def dest: find_category_in)
  moreover have "\<forall>c \<in> set (l_categories l). \<exists>cat. lookup_category s c = Some cat"
    using assms unfolding limit_ok_def by blast
  ultimately show ?thesis by (simp add: load_limit_def)
qed

text \<open>
  An edit that succeeds rewrites one row: the columns the request sets, the type and the name that go
  with its categories, and exactly the requested categories.
\<close>

lemma update_limit_effect:
  assumes ok: "catalog_ok s" and run: "update_limit now u sp i dto s = Inr (x, s')"
  obtains l f where "find_limit i s = Some l" and "l_space_id l = sp" and "is_member sp u s"
    and "s' = s\<lparr>limits := (limits s)\<lparr>rows := update_rows (\<lambda>l. l_id l = i) f (rows (limits s))\<rparr>\<rparr>"
    and "\<And>l. l_id (f l) = l_id l" and "l_space_id (f l) = sp"
    and "set (l_categories (f l)) = (case pl_category_ids dto of None \<Rightarrow> set (l_categories l) | Some cs \<Rightarrow> set cs)"
    and "l_limit_type (f l) = (case pl_category_ids dto of None \<Rightarrow> l_limit_type l | Some cs \<Rightarrow> limit_type_of cs)"
    and "l_name (f l) = (if pl_category_ids dto = None \<and> pl_name dto = None then l_name l
      else limit_name_of (case pl_category_ids dto of None \<Rightarrow> l_categories l | Some cs \<Rightarrow> cs)
        (or_old (pl_name dto) (l_name l)))"
    and "case pl_amount dto of None \<Rightarrow> l_amount (f l) = l_amount l
      | Some a \<Rightarrow> to_column a = Inr (l_amount (f l))"
    and "limit_ok (lookup_category s) (f l)"
    and "\<And>l'. l' \<in> set (rows (limits s)) \<Longrightarrow> l_id l' \<noteq> i \<Longrightarrow> compatible (f l) l'"
    and "lc_limit x = f l"
proof -
  from run have member: "is_member sp u s" and work: "update_limit_work now sp i dto s = Inr (x, s')"
    by (simp_all add: update_limit_def write_in_space_eq_Inr)
  from work obtain cur where cur: "getSpaceLimit sp i s = Inr cur"
    by (auto simp: update_limit_work_def and_then_eq_Inr)
  then obtain l where l: "find_limit i s = Some l" "l_space_id l = sp" and cur_eq: "cur = load_limit s l"
    by (auto simp: getSpaceLimit_eq_Inr)
  have l_in: "l \<in> set (rows (limits s))" "l_id l = i"
    using l(1) unfolding find_limit_def by (auto dest: find_row_Some)
  have l_ok: "limit_ok (lookup_category s) l" using ok l_in by (simp add: catalog_ok_def limits_ok_def)
  have current: "map cat_id (lc_categories cur) = l_categories l"
    unfolding cur_eq by (rule loaded_categories [OF l_ok])
  have current_name: "l_name (lc_limit cur) = l_name l" by (simp add: cur_eq load_limit_def)
  define ids where "ids = (case pl_category_ids dto of None \<Rightarrow> l_categories l | Some cs \<Rightarrow> cs)"
  define nm where "nm = or_old (pl_name dto) (l_name l)"
  have nm_case: "(case pl_name dto of None \<Rightarrow> l_name l | Some n \<Rightarrow> n) = nm"
    by (cases "pl_name dto") (simp_all add: nm_def)
  define ty where "ty = (if pl_category_ids dto \<noteq> None then Some (limit_type_of ids) else None)"
  define col where "col = (if pl_category_ids dto \<noteq> None \<or> pl_name dto \<noteq> None then Some (limit_name_of ids nm) else None)"
  note work_cur = work [unfolded update_limit_work_def cur and_then_simps Let_def current current_name nm_case,
      folded ids_def, folded ty_def col_def]
  from work_cur obtain a y s3 lim where
    owned: "\<forall>c \<in> set (case pl_category_ids dto of None \<Rightarrow> [] | Some cs \<Rightarrow> cs). \<exists>cat. lookup_category s c = Some cat \<and>
       cat_space_id cat = sp \<and> cat_is_active cat \<and> \<not> cat_is_system cat"
    and named: "1 < length ids \<longrightarrow> nm \<noteq> None \<and> nm \<noteq> Some []"
    and free: "(case pl_category_ids dto of None \<Rightarrow> Inr ()
         | Some cs \<Rightarrow> if cs = [] then assertNoOtherTotalLimit sp (Some i) s
             else assertCategoriesAvailable sp cs (Some i) s) = Inr y"
    and a: "(case pl_amount dto of None \<Rightarrow> Inr None
         | Some a \<Rightarrow> and_then (to_column a) (\<lambda>c. Inr (Some c))) = (Inr a :: exception + _)"
    and links: "(case pl_category_ids dto of None \<Rightarrow> Inr (scalar_update now i a ty col s)
         | Some cs \<Rightarrow>
             let toRemove = filter (\<lambda>i. i \<notin> set cs) (l_categories l);
                 toAdd = filter (\<lambda>i. i \<notin> set (l_categories l)) cs;
                 s2 = (if toRemove = [] then scalar_update now i a ty col s
                   else remove_categories i toRemove (scalar_update now i a ty col s))
             in if toAdd = [] then Inr s2 else add_categories i toAdd s2) = Inr s3"
    and x: "getExistingLimit i s3 = Inr lim" and eq: "Inr (lim, s3) = (Inr (x, s') :: exception + _)"
    unfolding Let_def and_then_eq_Inr [of "assertCategoriesOwnership _ _ _"] and_then_eq_Inr [of "assertHasNameIfGroup _ _"]
      assertCategoriesOwnership_eq_Inr assertHasNameIfGroup_eq_Inr
    by (elim exE conjE and_thenE) (rule that, (assumption | simp only: Let_def)+)
  have s3: "s3 = s'" "lim = x" "y = ()" using eq by simp_all
  note free = free [unfolded s3] and links = links [unfolded s3] and x = x [unfolded s3]
  let ?s1 = "scalar_update now i a ty col s" and ?g = "new_columns now a ty col"
  define f where "f = (case pl_category_ids dto of None \<Rightarrow> ?g
    | Some cs \<Rightarrow> (\<lambda>l. l\<lparr>l_categories := relinked (l_categories l) cs\<rparr>) \<circ> ?g)"
  have ids1: "distinct (map l_id (rows (limits ?s1)))"
    using catalog_distinct(3) [OF ok] by (simp add: scalar_update_eq map_key_update_rows)
  have found1: "find_limit i ?s1 = Some (?g l)"
    using l(1) l_in by (simp add: scalar_update_eq find_limit_def find_row_update_key)
  have result: "s' = s\<lparr>limits := (limits s)\<lparr>rows := update_rows (\<lambda>l. l_id l = i) f (rows (limits s))\<rparr>\<rparr> \<and>
      distinct (l_categories (f l))"
  proof (cases "pl_category_ids dto")
    case None
    with links l_ok show ?thesis by (simp add: f_def scalar_update_eq limit_ok_def)
  next
    case (Some cs)
    have "distinct (l_categories (?g l))" using l_ok by (simp add: limit_ok_def)
    note relink = relink_eq [OF found1 ids1 this, of cs s']
    have "(let toRemove = filter (\<lambda>c. c \<notin> set cs) (l_categories (?g l));
         toAdd = filter (\<lambda>c. c \<notin> set (l_categories (?g l))) cs;
         s2 = (if toRemove = [] then ?s1 else remove_categories i toRemove ?s1)
       in if toAdd = [] then Inr s2 else add_categories i toAdd s2) = Inr s'"
      using links Some by simp
    note relink [OF this]
    then show ?thesis
      by (simp add: f_def Some scalar_update_eq update_rows_twice comp_def)
  qed
  have f_id: "l_id (f r) = l_id r" for r by (simp add: f_def split: option.split)
  have f: "l_space_id (f l) = sp" "l_amount (f l) = or_old a (l_amount l)"
    "l_limit_type (f l) = or_old ty (l_limit_type l)" "l_name (f l) = or_old col (l_name l)"
    "set (l_categories (f l)) = set ids"
    using l(2) by (simp_all add: f_def ids_def split: option.split)
  have amount: "case pl_amount dto of None \<Rightarrow> l_amount (f l) = l_amount l
      | Some a \<Rightarrow> to_column a = Inr (l_amount (f l))"
    using a by (auto simp: f and_then_eq_Inr split: option.splits)
  have empty: "l_categories (f l) = [] \<longleftrightarrow> ids = []" by (metis f(5) set_empty)
  have len: "length (l_categories (f l)) \<le> length ids"
    using result f(5) distinct_card [of "l_categories (f l)"] card_length [of ids] by simp
  have typed: "l_limit_type (f l) = limit_type_of ids"
    using l_ok by (cases "l_limit_type l")
      (auto simp: f ty_def ids_def limit_type_of_def limit_ok_def split: option.split)
  have f_name: "1 < length ids \<Longrightarrow> l_name (f l) = nm"
    by (auto simp: f col_def limit_name_of_def nm_def)
  have range: "\<bar>l_amount (f l)\<bar> \<le> MAX_MONEY_INPUT_CENTS"
    using amount l_ok to_column_range by (auto simp: limit_ok_def split: option.splits)
  have members: "\<exists>cat. lookup_category s c = Some cat \<and> cat_space_id cat = sp \<and> cat_is_active cat \<and> \<not> cat_is_system cat"
    if "c \<in> set ids" for c
    using owned that l_ok l(2) by (auto simp: ids_def limit_ok_def split: option.splits)
  have ok_f: "limit_ok (lookup_category s) (f l)"
    using result empty typed members range named len f_name f by (auto simp: limit_ok_def)
  have compat: "compatible (f l) l'" if l': "l' \<in> set (rows (limits s))" "l_id l' \<noteq> i" for l'
  proof (cases "pl_category_ids dto")
    case None
    have "compatible l l'" using ok l_in l' by (auto simp: catalog_ok_def limits_ok_def)
    moreover have "smaller_limit (f l) l"
      using None f l(2) f_id by (simp add: smaller_limit_def ids_def ty_def)
    moreover have "smaller_limit l' l'" by (simp add: smaller_limit_def)
    ultimately show ?thesis by (metis compatible_smaller)
  next
    case (Some cs)
    have "\<exists>cat. lookup_category s c = Some cat \<and> cat_space_id cat = sp" if "c \<in> set ids" for c
      using members [OF that] by blast
    note compat_with = available_compatible [OF ok l'(1) this]
    from Some show ?thesis
      using free l' f typed
      by (intro compat_with)
        (auto simp: ids_def assertNoOtherTotalLimit_eq_Inr assertCategoriesAvailable_eq_Inr other_limit_def
          split: if_splits)
  qed
  have "find_limit i s' = Some (f l)"
    using l(1) l_in result by (simp add: find_limit_def find_row_update_key f_id)
  with x have "lc_limit x = f l" by (auto simp: getExistingLimit_eq_Inr load_limit_def)
  moreover have "set (l_categories (f l)) = (case pl_category_ids dto of None \<Rightarrow> set (l_categories l) | Some cs \<Rightarrow> set cs)"
    using f(5) by (simp add: ids_def split: option.split)
  moreover have "l_limit_type (f l) = (case pl_category_ids dto of None \<Rightarrow> l_limit_type l | Some cs \<Rightarrow> limit_type_of cs)"
    using f(3) by (simp add: ty_def ids_def split: option.split)
  moreover have "l_name (f l) = (if pl_category_ids dto = None \<and> pl_name dto = None then l_name l
      else limit_name_of (case pl_category_ids dto of None \<Rightarrow> l_categories l | Some cs \<Rightarrow> cs)
        (or_old (pl_name dto) (l_name l)))"
    by (simp add: f(4) col_def ids_def [symmetric] nm_def [symmetric])
  ultimately show thesis
    using that [OF l member conjunct1 [OF result] f_id f(1)] amount ok_f compat by metis
qed

lemma update_limit_keeps:
  assumes ok: "catalog_ok s" and run: "update_limit now u sp i dto s = Inr (x, s')"
  shows "catalog_ok s'" and "same_history s s'" and "wallets s' = wallets s" and "categories s' = categories s"
proof -
  from ok run obtain l f where l: "find_limit i s = Some l"
    and s': "s' = s\<lparr>limits := (limits s)\<lparr>rows := update_rows (\<lambda>l. l_id l = i) f (rows (limits s))\<rparr>\<rparr>"
    and f: "\<And>l. l_id (f l) = l_id l" "limit_ok (lookup_category s) (f l)"
      "\<And>l'. l' \<in> set (rows (limits s)) \<Longrightarrow> l_id l' \<noteq> i \<Longrightarrow> compatible (f l) l'"
    by (rule update_limit_effect) (rule that, assumption+)
  have one: "r = l" if "r \<in> set (rows (limits s))" "l_id r = i" for r
    using find_row_key [OF catalog_distinct(3) [OF ok] that(1)] that(2) l by (simp add: find_limit_def)
  have "limits_ok (lookup_category s) (update_rows (\<lambda>l. l_id l = i) f (rows (limits s)))"
    using ok one f by (intro limits_ok_update) (auto simp: catalog_ok_def)
  moreover have "table_ok l_id (limits s')"
    using ok f(1) by (simp add: s' catalog_ok_def table_ok_update)
  ultimately show "catalog_ok s'" using ok by (simp add: catalog_ok_def s')
  show "same_history s s'" "wallets s' = wallets s" "categories s' = categories s"
    by (simp_all add: s' same_history_def)
qed

lemma remove_limit_keeps:
  assumes ok: "catalog_ok s" and run: "remove_limit u sp i s = Inr (x, s')"
  shows "catalog_ok s'" and "same_history s s'" and "wallets s' = wallets s" and "categories s' = categories s"
    and "limits s' = (limits s)\<lparr>rows := delete_rows (\<lambda>l. l_id l = i) (rows (limits s))\<rparr>"
proof -
  from run have s': "s' = s\<lparr>limits := (limits s)\<lparr>rows := delete_rows (\<lambda>l. l_id l = i) (rows (limits s))\<rparr>\<rparr>"
    by (auto simp: remove_limit_def write_in_space_eq_Inr and_then_eq_Inr)
  have "limits_ok (lookup_category s) (delete_rows (\<lambda>l. l_id l = i) (rows (limits s)))"
    using ok by (intro limits_ok_delete) (simp add: catalog_ok_def)
  then show "catalog_ok s'" using ok by (simp add: catalog_ok_def s' table_ok_delete)
  show "same_history s s'" "wallets s' = wallets s" "categories s' = categories s"
    "limits s' = (limits s)\<lparr>rows := delete_rows (\<lambda>l. l_id l = i) (rows (limits s))\<rparr>"
    by (simp_all add: s' same_history_def)
qed

end
