(* ===== verification/SpaceHistory.thy ===== *)
theory SpaceHistory
  imports LimitFacts
begin

text \<open>
  A space as one state machine: its steps are the successful writes of transactions, wallets,
  categories and limits, by any user in any space and in any order. The integrity of the history and
  the invariant of the catalog are an invariant of these steps together: every service keeps what
  the others rely on.
\<close>

section \<open>Writes refuse strangers\<close>

text \<open>The tables these writes leave alone: users, spaces and members, and invitations.\<close>

definition people :: "db \<Rightarrow> user table \<times> space_member table \<times> space table \<times> currency table \<times>
    space_invite table \<times> space_invite_email table" where
  "people s = (users s, members s, spaces s, currencies s, invites s, invite_emails s)"

lemma people_eq: "people s' = people s \<longleftrightarrow> users s' = users s \<and> members s' = members s \<and> spaces s' = spaces s \<and>
    currencies s' = currencies s \<and> invites s' = invites s \<and> invite_emails s' = invite_emails s"
  by (auto simp: people_def)

lemma unlinkFromLimit_people [simp]: "people (unlinkFromLimit c s) = people s"
  by (auto simp: unlinkFromLimit_def Let_def people_def split: option.split)

lemma save_category_people [simp]: "people (snd (save_category now c s)) = people s"
  by (simp add: save_category_def Let_def people_def)

lemma add_categories_people: "add_categories i cs s = Inr s' \<Longrightarrow> people s' = people s"
  by (auto simp: add_categories_def people_def split: if_splits)

lemma remove_categories_people [simp]: "people (remove_categories i cs s) = people s"
  by (simp add: remove_categories_def people_def)

lemma scalar_update_people [simp]: "people (scalar_update now i amount ty name s) = people s"
  by (simp add: scalar_update_eq people_def)

lemma delete_category_people: "delete_category i s = Inr s' \<Longrightarrow> people s' = people s"
  by (auto simp: delete_category_def people_def split: if_splits)

lemma people_updates [simp]:
  "people (s\<lparr>categories := x1\<rparr>) = people s" "people (s\<lparr>wallets := x2\<rparr>) = people s"
  "people (s\<lparr>limits := x3\<rparr>) = people s" "people (s\<lparr>transactions := x4\<rparr>) = people s"
  "people (s\<lparr>operations := x5\<rparr>) = people s" "people (s\<lparr>idempotency_keys := x6\<rparr>) = people s"
  by (simp_all add: people_def)

lemma wallet_writes_keep_people:
  "create_wallet rt now uuid u sp dto s = Inr (r, s') \<Longrightarrow> people s' = people s"
  "update_wallet now u sp i dto' s = Inr (x, s') \<Longrightarrow> people s' = people s"
  "delete_wallet now u sp i s = Inr (x, s') \<Longrightarrow> people s' = people s"
  by (erule create_wallet_effect, simp)
    (auto simp: update_wallet_def delete_wallet_def write_in_space_eq_Inr and_then_eq_Inr)

lemma category_writes_keep_people:
  "create_category now u sp dto s = Inr (i, s') \<Longrightarrow> people s' = people s"
  "update_category now u sp i dto' s = Inr (r, s') \<Longrightarrow> people s' = people s"
  "deleteOrArchive now u sp i s = Inr (archived, s') \<Longrightarrow> people s' = people s"
  "reorder now u sp ids s = Inr (x, s') \<Longrightarrow> people s' = people s"
     apply (auto simp: create_category_def write_in_space_eq_Inr)[1]
    apply (auto simp: update_category_def update_category_work_def write_in_space_eq_Inr and_then_eq_Inr Let_def
      dest!: arg_cong [of "save_category _ _ _" _ "\<lambda>r. people (snd r)"] split: if_splits)[1]
   apply (auto simp: deleteOrArchive_def deleteOrArchive_work_def write_in_space_eq_Inr and_then_eq_Inr Let_def
      dest!: delete_category_people split: if_splits)[1]
  apply (auto simp: reorder_def reorder_work_def write_in_space_eq_Inr and_then_eq_Inr Let_def split: if_splits)[1]
  done

lemma limit_writes_keep_people:
  "create_limit now u sp dto s = Inr (x, s') \<Longrightarrow> people s' = people s"
  "update_limit now u sp i dto' s = Inr (x, s') \<Longrightarrow> people s' = people s"
  "remove_limit u sp i s = Inr (y, s') \<Longrightarrow> people s' = people s"
    apply (auto simp: create_limit_def create_limit_work_def write_in_space_eq_Inr and_then_eq_Inr Let_def
      dest!: add_categories_people split: if_splits)[1]
   apply (auto simp: update_limit_def update_limit_work_def write_in_space_eq_Inr and_then_eq_Inr Let_def
      dest!: add_categories_people split: if_splits)[1]
  apply (auto simp: remove_limit_def write_in_space_eq_Inr and_then_eq_Inr)[1]
  done

lemmas writes_keep_people = wallet_writes_keep_people category_writes_keep_people limit_writes_keep_people

lemma people_members: "people s' = people s \<Longrightarrow> members s' = members s"
  by (simp add: people_eq)

text \<open>Every write of a space has the contract of \<open>space_write\<close>.\<close>

lemma space_writes_refuse_strangers:
  assumes "\<not> is_member sp u s"
  shows "create_wallet rt now uuid u sp cw s = Inl (api_error FORBIDDEN_SPACE FORBIDDEN)"
    "update_wallet now u sp i pw s = Inl (api_error FORBIDDEN_SPACE FORBIDDEN)"
    "delete_wallet now u sp i s = Inl (api_error FORBIDDEN_SPACE FORBIDDEN)"
    "create_category now u sp nc s = Inl (api_error FORBIDDEN_SPACE FORBIDDEN)"
    "update_category now u sp i pc s = Inl (api_error FORBIDDEN_SPACE FORBIDDEN)"
    "deleteOrArchive now u sp i s = Inl (api_error FORBIDDEN_SPACE FORBIDDEN)"
    "reorder now u sp ids s = Inl (api_error FORBIDDEN_SPACE FORBIDDEN)"
    "create_limit now u sp nl s = Inl (api_error FORBIDDEN_SPACE FORBIDDEN)"
    "update_limit now u sp i pl s = Inl (api_error FORBIDDEN_SPACE FORBIDDEN)"
    "remove_limit u sp i s = Inl (api_error FORBIDDEN_SPACE FORBIDDEN)"
  using assms by (simp_all add: create_wallet_def update_wallet_def delete_wallet_def create_category_def
      update_category_def deleteOrArchive_def reorder_def create_limit_def update_limit_def remove_limit_def
      write_in_space_refused)

interpretation wallet_created: space_write "\<lambda>u sp dto. create_wallet rt now uuid u sp dto" for rt now uuid
  by unfold_locales (erule space_writes_refuse_strangers writes_keep_people [THEN people_members])+

interpretation wallet_updated: space_write "\<lambda>u sp (i, dto). update_wallet now u sp i dto" for now
  by unfold_locales (auto simp: space_writes_refuse_strangers dest: writes_keep_people [THEN people_members])

interpretation wallet_deleted: space_write "\<lambda>u sp i. delete_wallet now u sp i" for now
  by unfold_locales (erule space_writes_refuse_strangers writes_keep_people [THEN people_members])+

interpretation category_created: space_write "\<lambda>u sp dto. create_category now u sp dto" for now
  by unfold_locales (erule space_writes_refuse_strangers writes_keep_people [THEN people_members])+

interpretation category_updated: space_write "\<lambda>u sp (i, dto). update_category now u sp i dto" for now
  by unfold_locales (auto simp: space_writes_refuse_strangers dest: writes_keep_people [THEN people_members])

interpretation category_removed: space_write "\<lambda>u sp i. deleteOrArchive now u sp i" for now
  by unfold_locales (erule space_writes_refuse_strangers writes_keep_people [THEN people_members])+

interpretation categories_ordered: space_write "\<lambda>u sp ids. reorder now u sp ids" for now
  by unfold_locales (erule space_writes_refuse_strangers writes_keep_people [THEN people_members])+

interpretation limit_created: space_write "\<lambda>u sp dto. create_limit now u sp dto" for now
  by unfold_locales (erule space_writes_refuse_strangers writes_keep_people [THEN people_members])+

interpretation limit_updated: space_write "\<lambda>u sp (i, dto). update_limit now u sp i dto" for now
  by unfold_locales (auto simp: space_writes_refuse_strangers dest: writes_keep_people [THEN people_members])

interpretation limit_removed: space_write remove_limit
  by unfold_locales (erule space_writes_refuse_strangers writes_keep_people [THEN people_members])+

section \<open>The history under changes of the catalog\<close>

text \<open>A transaction keeps its links when its wallet and its category stay in their space.\<close>

definition links_kept :: "db \<Rightarrow> db \<Rightarrow> bool" where
  "links_kept s s' \<longleftrightarrow> (\<forall>t \<in> set (transactions s).
     (\<forall>w. find_wallet (t_wallet_id t) s = Some w \<longrightarrow>
        (\<exists>w'. find_wallet (t_wallet_id t) s' = Some w' \<and> w_space_id w' = w_space_id w)) \<and>
     (\<forall>c. find_category (t_category_id t) s = Some c \<longrightarrow>
        (\<exists>c'. find_category (t_category_id t) s' = Some c' \<and> cat_space_id c' = cat_space_id c)))"

lemma history_inv_catalog:
  assumes inv: "history_inv s" and ok: "catalog_ok s'"
    and same: "transactions s' = transactions s" "operations s' = operations s"
    and kept: "links_kept s s'"
  shows "history_inv s'"
proof -
  have trans: "transaction_ok s' t" if "t \<in> set (transactions s)" for t
  proof -
    from inv that obtain w c where "find_wallet (t_wallet_id t) s = Some w"
      "find_category (t_category_id t) s = Some c" "w_space_id w = cat_space_id c"
      and range: "0 \<le> t_amount t \<and> t_amount t \<le> MAX_MONEY_INPUT_CENTS"
      by (auto simp: history_inv_def transaction_ok_def)
    with kept that show ?thesis unfolding links_kept_def transaction_ok_def by metis
  qed
  have found: "find_transaction i s' = find_transaction i s" for i
    by (simp add: find_transaction_def same)
  have ops: "operation_ok s' o'" if "o' \<in> set (rows (operations s))" for o'
  proof -
    from inv that have "operation_ok s o'" by (simp add: history_inv_def)
    then show ?thesis
    proof (cases "find_transaction (op_transaction_id o') s")
      case (Some t)
      with \<open>operation_ok s o'\<close> obtain w where "op_deleted_at o' = None"
        "find_wallet (t_wallet_id t) s = Some w" "w_space_id w = op_space_id o'"
        by (auto simp: operation_ok_def)
      with Some kept find_transaction_Some [OF Some] show ?thesis
        unfolding links_kept_def operation_ok_def found by fastforce
    qed (simp add: operation_ok_def found)
  qed
  show ?thesis
    using inv trans ops catalog_distinct [OF ok] by (simp add: history_inv_def same)
qed

lemma history_inv_append:
  assumes inv: "history_inv s" and ok: "transaction_ok s t" and unused: "unused_id (t_id t) s"
  shows "history_inv (s\<lparr>transactions := transactions s @ [t]\<rparr>)" (is "history_inv ?s'")
proof -
  have catalog: "find_wallet i ?s' = find_wallet i s" "find_category i ?s' = find_category i s" for i
    by (simp_all add: find_wallet_def find_category_def)
  have fresh: "find_transaction (t_id t) s = None"
    using unused by (auto simp: unused_id_def find_transaction_def find_row_None)
  have found: "find_transaction i ?s' = (if i = t_id t then Some t else find_transaction i s)" for i
    using fresh by (auto simp: find_transaction_def find_row_append split: option.split)
  have ops: "operation_ok ?s' o'" if "o' \<in> set (rows (operations s))" for o'
  proof -
    from that inv unused have "operation_ok s o'" and "op_transaction_id o' \<noteq> t_id t"
      by (auto simp: history_inv_def unused_id_def)
    then show ?thesis unfolding operation_ok_def found catalog by simp
  qed
  show ?thesis
    using inv ok unused ops by (auto simp: history_inv_def unused_id_def transaction_ok_def catalog)
qed

section \<open>The state machine\<close>

text \<open>
  One successful write of a space, on the state and the set of transaction ids handed out so far.
\<close>

inductive space_step ::
  "runtime \<Rightarrow> db \<times> string set \<Rightarrow> db \<times> string set \<Rightarrow> bool" for rt where
  transaction: "history_step rt c c' \<Longrightarrow> space_step rt c c'"
| create_wallet: "create_wallet rt now uuid u sp cw s = Inr (r1, s') \<Longrightarrow> valid_create_wallet cw \<Longrightarrow>
    uuid \<notin> used \<Longrightarrow> space_step rt (s, used) (s', insert uuid used)"
| update_wallet: "update_wallet now u sp i pw s = Inr (r2, s') \<Longrightarrow> space_step rt (s, used) (s', used)"
| delete_wallet: "delete_wallet now u sp i s = Inr (r3, s') \<Longrightarrow> space_step rt (s, used) (s', used)"
| create_category: "create_category now u sp nc s = Inr (r4, s') \<Longrightarrow> space_step rt (s, used) (s', used)"
| update_category: "update_category now u sp i pc s = Inr (r5, s') \<Longrightarrow> space_step rt (s, used) (s', used)"
| remove_category: "deleteOrArchive now u sp i s = Inr (r6, s') \<Longrightarrow> space_step rt (s, used) (s', used)"
| reorder: "reorder now u sp ids s = Inr (r7, s') \<Longrightarrow> space_step rt (s, used) (s', used)"
| create_limit: "create_limit now u sp nl s = Inr (r8, s') \<Longrightarrow> space_step rt (s, used) (s', used)"
| update_limit: "update_limit now u sp i pl s = Inr (r9, s') \<Longrightarrow> space_step rt (s, used) (s', used)"
| remove_limit: "remove_limit u sp i s = Inr (r10, s') \<Longrightarrow> space_step rt (s, used) (s', used)"

definition space_inv :: "db \<times> string set \<Rightarrow> bool" where
  "space_inv c \<longleftrightarrow> state_inv c \<and> catalog_ok (fst c)"

text \<open>Transactions leave the catalog alone.\<close>

lemma history_step_catalog:
  assumes "state_inv c" and "history_step rt c c'"
  shows "wallets (fst c') = wallets (fst c)" and "categories (fst c') = categories (fst c)"
    and "limits (fst c') = limits (fst c)"
proof -
  have "wallets (fst c') = wallets (fst c) \<and> categories (fst c') = categories (fst c) \<and>
      limits (fst c') = limits (fst c)"
    using assms(2)
  proof (cases rule: history_step_cases)
    case (create now uuid sp dto r s1 now' t t')
    from create(3) show ?thesis by (rule create_workE) (simp add: create(4))
  next
    case (update now sp i v dto' r' s1 t t')
    from update_work_frame [OF update(1)] show ?thesis by (auto simp: update(2))
  next
    case (remove now sp i v r'' s1 t t')
    from remove(1) show ?thesis by (rule remove_workE) (simp add: remove(2))
  qed simp
  then show "wallets (fst c') = wallets (fst c)" "categories (fst c') = categories (fst c)"
    "limits (fst c') = limits (fst c)" by simp_all
qed

text \<open>The other steps leave the history alone, but for the initial balance of a new wallet.\<close>

lemma links_kept_wallets:
  assumes "categories s' = categories s"
    and "wallets s' = (wallets s)\<lparr>rows := update_rows p f (rows (wallets s))\<rparr>"
    and "\<And>w. w_id (f w) = w_id w" "\<And>w. w_space_id (f w) = w_space_id w"
  shows "links_kept s s'"
  using assms by (auto simp: links_kept_def find_wallet_def find_category_def find_row_update_key)

lemma links_kept_categories:
  assumes "wallets s' = wallets s"
    and "\<And>t c. t \<in> set (transactions s) \<Longrightarrow> find_category (t_category_id t) s = Some c \<Longrightarrow>
      \<exists>c'. find_category (t_category_id t) s' = Some c' \<and> cat_space_id c' = cat_space_id c"
  shows "links_kept s s'"
  using assms by (auto simp: links_kept_def find_wallet_def)

text \<open>A step that leaves the history alone and keeps the catalog and the links.\<close>

lemma quiet_step:
  assumes "space_inv (s, used)" and "same_history s s'" and "catalog_ok s'" and "links_kept s s'"
  shows "space_inv (s', used) \<and> state_below (s, used) (s', used)"
  using assms history_inv_catalog [of s s']
  by (auto simp: space_inv_def state_inv_def ids_used_def state_below_def same_history_def)

lemma update_wallet_quiet:
  assumes "catalog_ok s" and run: "update_wallet now u sp i dto s = Inr (x, s')"
  shows "same_history s s'" "catalog_ok s'" "links_kept s s'"
  using assms(1) update_wallet_keeps [OF run]
  by (auto simp: catalog_ok_def lookup_category_def [abs_def] find_category_def table_ok_update
      intro: links_kept_wallets)

lemma delete_wallet_quiet:
  assumes "catalog_ok s" and run: "delete_wallet now u sp i s = Inr (x, s')"
  shows "same_history s s'" "catalog_ok s'" "links_kept s s'"
  using assms(1) delete_wallet_keeps [OF run]
  by (auto simp: catalog_ok_def lookup_category_def [abs_def] find_category_def table_ok_update
      intro: links_kept_wallets)

lemma create_category_quiet:
  assumes ok: "catalog_ok s" and run: "create_category now u sp dto s = Inr (i, s')"
  shows "links_kept s s'"
proof (rule links_kept_categories)
  note keeps = create_category_keeps [OF ok run]
  show "wallets s' = wallets s" by (rule keeps)
  fix t c assume "find_category (t_category_id t) s = Some c"
  with keeps(5) show "\<exists>c'. find_category (t_category_id t) s' = Some c' \<and> cat_space_id c' = cat_space_id c"
    by (simp add: find_category_def find_row_append)
qed

lemma update_category_quiet:
  assumes ok: "catalog_ok s" and run: "update_category now u sp i dto s = Inr (r, s')"
  shows "links_kept s s'"
proof (rule links_kept_categories)
  show "wallets s' = wallets s" by (rule update_category_keeps [OF ok run])
  fix t c assume c: "find_category (t_category_id t) s = Some c"
  from ok run obtain c0 new ls where c0: "find_category i s = Some c0" "cat_space_id c0 = sp"
    and new: "cat_id new = i" "cat_space_id new = sp"
    and s': "s' = s\<lparr>limits := (limits s)\<lparr>rows := ls\<rparr>,
        categories := (categories s)\<lparr>rows := update_rows (\<lambda>c. cat_id c = i) (\<lambda>_. new) (rows (categories s))\<rparr>\<rparr>"
    by (rule update_category_effect)
  have "update_rows (\<lambda>c. cat_id c = i) (\<lambda>_. new) rs =
      update_rows (\<lambda>c. cat_id c = i) (\<lambda>c. if cat_id c = i then new else c) rs" for rs
    by (auto simp: update_rows_def)
  then have "find_category (t_category_id t) s' = Some (if cat_id c = i then new else c)"
    using c new by (simp add: s' find_category_def find_row_update_key)
  moreover have "cat_id c = i \<Longrightarrow> c = c0"
    using c c0(1) find_category_in [OF c] by simp
  ultimately show "\<exists>c'. find_category (t_category_id t) s' = Some c' \<and> cat_space_id c' = cat_space_id c"
    using c0 new by auto
qed

lemma deleteOrArchive_quiet:
  assumes ok: "catalog_ok s" and run: "deleteOrArchive now u sp i s = Inr (archived, s')"
  shows "links_kept s s'"
proof (rule links_kept_categories)
  note keeps = deleteOrArchive_keeps [OF ok run]
  show "wallets s' = wallets s" by (rule keeps)
  fix t c assume t: "t \<in> set (transactions s)" and c: "find_category (t_category_id t) s = Some c"
  show "\<exists>c'. find_category (t_category_id t) s' = Some c' \<and> cat_space_id c' = cat_space_id c"
  proof (cases archived)
    case True
    with keeps(6) c show ?thesis by (auto simp: find_category_def find_row_update_key)
  next
    case False
    with keeps(4) t have "t_category_id t \<noteq> i" by blast
    with False keeps(5) c show ?thesis by (simp add: find_category_def find_row_delete_key)
  qed
qed

lemma reorder_quiet:
  assumes ok: "catalog_ok s" and run: "reorder now u sp ids s = Inr (x, s')"
  shows "links_kept s s'"
proof (rule links_kept_categories)
  show "wallets s' = wallets s" by (rule reorder_keeps [OF ok run])
  obtain p where s': "s' = s\<lparr>categories := (categories s)\<lparr>rows := map (set_sort now p ids) (rows (categories s))\<rparr>\<rparr>"
    using reorder_rows [OF ok run] ..
  fix t c assume "find_category (t_category_id t) s = Some c"
  then show "\<exists>c'. find_category (t_category_id t) s' = Some c' \<and> cat_space_id c' = cat_space_id c"
    by (simp add: s' find_category_def find_row_map_key)
qed

text \<open>
  A new wallet gets an id no row has; its initial balance is a transaction of the system category
  of the space, within the range of amounts because the request was.
\<close>

lemma insert_wallet_quiet:
  assumes ok: "catalog_ok s" and id: "\<And>i. w_id (mk i) = i"
  defines "s' \<equiv> s\<lparr>wallets := insert_auto mk (wallets s)\<rparr>"
  shows "catalog_ok s'" and "links_kept s s'"
    and "find_wallet (next_id (wallets s)) s' = Some (mk (next_id (wallets s)))"
proof -
  have "find_row (\<lambda>w. w_id w = next_id (wallets s)) (rows (wallets s)) = None"
    using ok by (auto simp: catalog_ok_def table_ok_def find_row_None)
  then show "find_wallet (next_id (wallets s)) s' = Some (mk (next_id (wallets s)))"
    by (simp add: find_wallet_def find_row_append id s'_def)
  show "catalog_ok s'"
    using ok by (simp add: catalog_ok_def lookup_category_def [abs_def] find_category_def table_ok_insert_auto id s'_def)
  show "links_kept s s'"
    by (simp add: links_kept_def find_wallet_def find_category_def find_row_append s'_def)
qed

lemma create_wallet_step:
  assumes inv: "space_inv (s, used)" and run: "create_wallet rt now uuid u sp dto s = Inr (r, s')"
    and valid: "valid_create_wallet dto" and fresh: "uuid \<notin> used"
  shows "space_inv (s', insert uuid used) \<and> state_below (s, used) (s', insert uuid used)"
proof -
  let ?s1 = "s\<lparr>wallets := insert_auto (new_wallet now sp dto) (wallets s)\<rparr>"
  let ?w = "next_id (wallets s)"
  have ok: "catalog_ok s" using inv by (simp add: space_inv_def)
  have w_id: "w_id (new_wallet now sp dto i) = i" and w_space: "w_space_id (new_wallet now sp dto i) = sp" for i
    by (simp_all add: new_wallet_def)
  note added = insert_wallet_quiet [OF ok w_id]
  have inv1: "space_inv (?s1, used)"
    using quiet_step [OF inv _ added(1,2)] by (simp add: same_history_def)
  have unused: "unused_id uuid ?s1"
    using inv1 fresh by (auto simp: space_inv_def state_inv_def dest: ids_used_unused)
  have used: "ids_used s used" using inv by (simp add: space_inv_def state_inv_def)
  from run obtain cents ts where cents: "parseMoney (cw_initial_balance dto) = Inr cents"
    and s': "s' = s\<lparr>wallets := insert_auto (new_wallet now sp dto) (wallets s), transactions := transactions s @ ts\<rparr>"
    and none: "cents = 0 \<longrightarrow> ts = []"
    and some: "cents \<noteq> 0 \<longrightarrow> (\<exists>c t. ts = [t] \<and> t_id t = uuid \<and> c \<in> set (rows (categories s)) \<and> cat_space_id c = sp \<and>
      t_category_id t = cat_id c \<and> t_wallet_id t = ?w \<and> t_amount t = cents)"
    by (rule create_wallet_effect) (rule that, assumption+, blast+)
  have history: "history_inv s'"
  proof (cases "cents = 0")
    case True
    with none s' inv1 show ?thesis by (simp add: space_inv_def state_inv_def)
  next
    case False
    with some obtain c t where t: "ts = [t]" "t_id t = uuid" "c \<in> set (rows (categories s))" "cat_space_id c = sp"
      "t_category_id t = cat_id c" "t_wallet_id t = ?w" "t_amount t = cents" by blast
    have "matchMoney (cw_initial_balance dto) = Some cents"
      using cents by (simp add: parseMoney_def need_eq_Inr)
    then have range: "0 \<le> cents \<and> cents \<le> MAX_MONEY_INPUT_CENTS"
      using valid accepted_amount by (auto simp: valid_create_wallet_def isMoneyAmount_def)
    have "find_category (cat_id c) ?s1 = Some c"
      using find_row_key [OF catalog_distinct(2) [OF ok] t(3)] by (simp add: find_category_def)
    with t range added(3) have "transaction_ok ?s1 t"
      by (simp add: transaction_ok_def w_space)
    then have "history_inv (?s1\<lparr>transactions := transactions ?s1 @ [t]\<rparr>)"
      using inv1 unused t(2) by (intro history_inv_append) (simp_all add: space_inv_def state_inv_def)
    with t(1) show ?thesis by (simp add: s')
  qed
  have "\<forall>t \<in> set ts. t_id t = uuid" using none some by (cases "cents = 0") auto
  then have ids: "ids_used s' (insert uuid used)" and below: "state_below (s, used) (s', insert uuid used)"
    using used fresh by (auto simp: ids_used_def s' state_below_def)
  have "catalog_ok s'" by (rule iffD2 [OF catalog_ok_cong added(1)]) (simp_all add: s')
  with history ids below show ?thesis by (simp add: space_inv_def state_inv_def)
qed

lemma space_step_keeps:
  assumes inv: "space_inv c" and step: "space_step rt c c'"
  shows "space_inv c' \<and> state_below c c'"
proof -
  have quiet: ?thesis if "c = (s, used)" "c' = (s', used)" "same_history s s'" "catalog_ok s'" "links_kept s s'"
    for s used s' using quiet_step inv that by simp
  have ok: "catalog_ok s" if "c = (s, used)" for s used using inv that by (simp add: space_inv_def)
  have links: "links_kept s s'" if "wallets s' = wallets s" "categories s' = categories s" for s s'
    by (rule links_kept_categories) (use that in \<open>simp_all add: find_category_def\<close>)
  from step show ?thesis
  proof cases
    case transaction
    have history: "state_inv c" using inv by (simp add: space_inv_def)
    have "catalog_ok (fst c')"
      using inv catalog_ok_cong [OF history_step_catalog [OF history transaction]] by (simp add: space_inv_def)
    with history_step_inv [OF history transaction] history_step_below [OF history transaction]
    show ?thesis by (simp add: space_inv_def)
  next
    case create_wallet
    then show ?thesis using create_wallet_step inv by simp
  next
    case update_wallet
    then show ?thesis using quiet update_wallet_quiet [OF ok] by metis
  next
    case delete_wallet
    then show ?thesis using quiet delete_wallet_quiet [OF ok] by metis
  next
    case create_category
    then show ?thesis using quiet create_category_keeps(1,2) [OF ok] create_category_quiet [OF ok] by metis
  next
    case update_category
    then show ?thesis using quiet update_category_keeps(1,2) [OF ok] update_category_quiet [OF ok] by metis
  next
    case remove_category
    then show ?thesis using quiet deleteOrArchive_keeps(1,2) [OF ok] deleteOrArchive_quiet [OF ok] by metis
  next
    case reorder
    then show ?thesis using quiet reorder_keeps(1,2) [OF ok] reorder_quiet [OF ok] by metis
  next
    case create_limit
    then show ?thesis using quiet create_limit_keeps [OF ok] links by metis
  next
    case update_limit
    then show ?thesis using quiet update_limit_keeps [OF ok] links by metis
  next
    case remove_limit
    then show ?thesis using quiet remove_limit_keeps(1-4) [OF ok] links by metis
  qed
qed

lemma history_step_people:
  assumes "history_step rt c c'"
  shows "people (fst c') = people (fst c)"
  using assms
proof (cases rule: history_step_cases)
  case (create now uuid sp dto r s1 now' t t')
  from create(3) show ?thesis by (rule create_workE) (auto simp: create(4) after_create_def Let_def people_def split: option.split)
next
  case (update now sp i v dto' r' s1 t t')
  from update_work_frame [OF update(1)] show ?thesis by (auto simp: update(2))
next
  case (remove now sp i v r'' s1 t t')
  from remove(1) show ?thesis by (rule remove_workE) (simp add: remove(2))
qed simp

lemma space_step_people:
  assumes "space_step rt c c'"
  shows "people (fst c') = people (fst c)"
  using assms
  by cases (auto dest: history_step_people writes_keep_people)

interpretation space: transition_order "space_step rt" space_inv state_below for rt
  by unfold_locales (blast dest: space_step_keeps intro: state_below_refl state_below_trans)+

end
