(* ===== verification/TransactionProperties.thy ===== *)
theory TransactionProperties
  imports SpaceHistory Examples
begin

text \<open>
  The properties of the writes of transactions: what a create does and when it is refused, that its
  undo restores the history, that an operation id and an idempotency key work once, that an edit
  changes what it was asked to and nothing else, and that a stale edit is refused.
\<close>

section \<open>Success of a create\<close>

lemma create_allowed_ids:
  "create_allowed rt uuid sp dto s w c d a \<Longrightarrow> w_id w = cd_wallet_id dto \<and> cat_id c = cd_category_id dto"
  using head_lockRows_in [of w_id "cd_wallet_id dto" "rows (wallets s)" w]
    head_lockRows_in [of cat_id "cd_category_id dto" "rows (categories s)" c]
  by (simp add: create_allowed_def)

lemma create_allowed_found:
  assumes "history_inv s" and "create_allowed rt uuid sp dto s w c d a"
  shows "find_wallet (cd_wallet_id dto) s = Some w \<and> find_category (cd_category_id dto) s = Some c"
  using assms by (simp add: create_allowed_def locked_wallet locked_category history_inv_def)

lemma create_work_succeeds:
  assumes inv: "history_inv s" and allowed: "create_allowed rt uuid sp dto s w c d a"
    and numbers: "toNumber rt (wallet_balance (w_id w) s) = Inr n"
      "toNumber rt (wallet_balance (w_id w) (after_create now uuid sp dto d a s)) = Inr n'"
  shows "\<exists>r. create_work rt now uuid sp dto s = Inr (r, after_create now uuid sp dto d a s)"
proof -
  let ?s' = "after_create now uuid sp dto d a s" and ?t = "new_transaction uuid dto d a"
  have w: "find_wallet (cd_wallet_id dto) s = Some w" and c: "find_category (cd_category_id dto) s = Some c"
    using create_allowed_found [OF inv allowed] by simp_all
  have "distinct (map t_id (transactions s @ [?t]))"
    using inv allowed by (auto simp: history_inv_def create_allowed_def find_transaction_def find_row_None)
  then have ok: "history_ok ?s'"
    using inv by (simp add: history_ok_def history_inv_def)
  let ?l = "\<lparr>lt_transaction = ?t, lt_wallet = w, lt_category = c\<rparr>"
  have "?l \<in> set (joined ?s')" using w c by (simp add: set_joined load_eq)
  then have created: "getOneInSpace sp uuid ?s' = Some ?l"
    using getOneInSpace_intro [OF ok, of ?l sp] allowed by (simp add: create_allowed_def)
  have ids: "w_id w = cd_wallet_id dto" "cat_id c = cd_category_id dto"
    using create_allowed_ids [OF allowed] by simp_all
  have row: "\<lparr>t_id = uuid, t_wallet_id = w_id w, t_category_id = cat_id c,
      t_transaction_type = cd_transaction_type dto, t_amount = a, t_timestamp = d,
      t_description = normalizeDescription (or_null (cd_description dto)), t_version = 1\<rparr> = ?t"
    by (simp add: new_transaction_def ids)
  let ?s1 = "s\<lparr>transactions := transactions s @ [?t]\<rparr>"
  have insert: "insert_transaction ?t s = Inr ?s1"
    using allowed by (simp add: insert_transaction_eq create_allowed_def)
  have op: "(case operation_of dto of None \<Rightarrow> Inr ?s1 | Some o' \<Rightarrow> recordOperation now sp o' uuid ?s1) = Inr ?s'"
    using allowed
    by (auto simp: recordOperation_eq after_create_def create_allowed_def find_operation_def Let_def
        split: option.split)
  have unused: "(case operation_of dto of None \<Rightarrow> Inr () | Some o' \<Rightarrow> assertOperationUnused sp o' s) = Inr ()"
    using allowed by (auto simp: create_allowed_def assertOperationUnused_def split: option.split)
  have checks: "assertWalletInSpace (head_opt (lockRows w_id [cd_wallet_id dto] (rows (wallets s)))) sp = Inr w"
      "assertWalletActive w = Inr ()"
      "assertUserCategory (head_opt (lockRows cat_id [cd_category_id dto] (rows (categories s)))) sp = Inr c"
      "assertCategoryActive c = Inr ()" "assertCategoryType c (cd_transaction_type dto) = Inr ()"
      "toDate rt (cd_timestamp dto) = Inr d" "to_column (cd_amount dto) = Inr a"
    using allowed by (simp_all add: create_allowed_def result_iffs)
  show ?thesis
    unfolding create_work_def Let_def unused checks and_then_simps row insert op created
      assertFound_simps getBalance_eq numbers
    by blast
qed

section \<open>Effects\<close>

lemma write_without_key:
  "write_unit rt to_json now u sp operation None payload work s = Inr (reply, s') \<longleftrightarrow>
    is_member sp u s \<and> (\<exists>r. work s = Inr (r, s') \<and> reply = Fresh r)"
proof (cases "is_member sp u s")
  case False
  then show ?thesis by (simp add: write_unit_refuses_strangers)
next
  case True
  then obtain m where "find_member sp u s = Some m" by (metis find_member_None option.exhaust)
  with True show ?thesis by (auto simp: write_unit_def lockMembership_def and_then_eq_Inr)
qed

text \<open>C4. A create that succeeds found an active wallet and an active category of the space and of the
  type, stored the transaction the request describes as the last row and nothing else, and moved the
  balance of its wallet, and of no other, by exactly the signed amount; the two balances it returns
  are the sums of the wallet's history before and after.\<close>

theorem create_effect:
  assumes "history_inv s" and "wo_idempotencyKey options = None"
    and "create rt to_json now uuid u sp dto options s = Inr (reply, s')"
  shows "\<exists>r w c d a. reply = Fresh r \<and> is_member sp u s \<and>
    find_wallet (cd_wallet_id dto) s = Some w \<and> w_space_id w = sp \<and> \<not> w_is_deleted w \<and>
    find_category (cd_category_id dto) s = Some c \<and> cat_space_id c = sp \<and> cat_is_active c \<and>
    \<not> cat_is_system c \<and> cat_transaction_type c = cd_transaction_type dto \<and>
    parseIsoDate rt (cd_timestamp dto) = Some d \<and> matchMoney (cd_amount dto) = Some a \<and>
    s' = after_create now uuid sp dto d a s \<and>
    (\<forall>j. wallet_balance j s' = wallet_balance j s +
      (if j = cd_wallet_id dto then (if cd_transaction_type dto = INCOME then a else - a) else 0)) \<and>
    toNumber rt (wallet_balance (cd_wallet_id dto) s) = Inr (cr_previous_balance r) \<and>
    toNumber rt (wallet_balance (cd_wallet_id dto) s') = Inr (wb_balance (cr_wallet r))"
proof -
  from assms(2,3) obtain r where member: "is_member sp u s" and r: "reply = Fresh r"
    and run: "create_work rt now uuid sp dto s = Inr (r, s')"
    by (auto simp: create_def write_without_key)
  from run obtain w c d a created where allowed: "create_allowed rt uuid sp dto s w c d a"
    and s': "s' = after_create now uuid sp dto d a s"
    and numbers: "toNumber rt (wallet_balance (w_id w) s') = Inr (wb_balance (cr_wallet r))"
      "toNumber rt (wallet_balance (w_id w) s) = Inr (cr_previous_balance r)"
    by (rule create_workE)
  have ids: "w_id w = cd_wallet_id dto" using create_allowed_ids [OF allowed] by simp
  have "find_wallet (cd_wallet_id dto) s = Some w" "find_category (cd_category_id dto) s = Some c"
    using create_allowed_found [OF assms(1) allowed] by simp_all
  moreover have "\<forall>j. wallet_balance j s' = wallet_balance j s +
      (if j = cd_wallet_id dto then (if cd_transaction_type dto = INCOME then a else - a) else 0)"
    by (simp add: wallet_balance_def s' signed_amount_def)
  ultimately show ?thesis
    using member r s' allowed numbers unfolding ids create_allowed_def
    by (intro exI [of _ r] exI [of _ w] exI [of _ c] exI [of _ d] exI [of _ a]) simp
qed

lemma ex_history_inv: "history_inv ex_db"
  by (simp add: history_inv_def transaction_ok_def lookup_eval ex_tables MAX_MONEY_INPUT_CENTS_def)

lemma create_effect_witness:
  "\<exists>r s'. create ex_rt (\<lambda>_. JNull) 6000 ''b'' 1 1 ex_create no_options ex_db = Inr (Fresh r, s') \<and>
     wallet_balance 7 s' = wallet_balance 7 ex_db - 1230"
proof -
  obtain r s' where run: "create ex_rt (\<lambda>_. JNull) 6000 ''b'' 1 1 ex_create no_options ex_db = Inr (Fresh r, s')"
    using ex_create_runs by blast
  have "wallet_balance 7 s' = wallet_balance 7 ex_db - 1230"
    using create_effect [OF ex_history_inv _ run] by (auto simp: no_options_def ex_create_def)
  with run show ?thesis by blast
qed

text \<open>C5. A create without an idempotency key succeeds exactly when the caller is a member, the
  operation id is unused in the space, the wallet is an active wallet and the category an active,
  non-system category of the space with the type of the transaction, timestamp and amount can be
  read, and both balances are numbers a response can carry.\<close>

theorem create_succeeds_iff:
  assumes "history_inv s" and "wo_idempotencyKey options = None"
  shows "(\<exists>r s'. create rt to_json now uuid u sp dto options s = Inr (r, s')) \<longleftrightarrow>
    is_member sp u s \<and> (\<exists>w c d a n n'. create_allowed rt uuid sp dto s w c d a \<and>
      toNumber rt (wallet_balance (w_id w) s) = Inr n \<and>
      toNumber rt (wallet_balance (w_id w) (after_create now uuid sp dto d a s)) = Inr n')"
proof -
  have "(\<exists>r s'. create_work rt now uuid sp dto s = Inr (r, s')) \<longleftrightarrow>
    (\<exists>w c d a n n'. create_allowed rt uuid sp dto s w c d a \<and>
      toNumber rt (wallet_balance (w_id w) s) = Inr n \<and>
      toNumber rt (wallet_balance (w_id w) (after_create now uuid sp dto d a s)) = Inr n')"
    (is "?runs \<longleftrightarrow> ?allowed")
  proof
    assume ?runs
    then obtain r s' where "create_work rt now uuid sp dto s = Inr (r, s')" by blast
    then show ?allowed by (rule create_workE) blast
  next
    assume ?allowed
    then show ?runs using create_work_succeeds [OF assms(1)] by blast
  qed
  moreover have "(\<exists>r s'. create rt to_json now uuid u sp dto options s = Inr (r, s')) \<longleftrightarrow>
      is_member sp u s \<and> (\<exists>r s'. create_work rt now uuid sp dto s = Inr (r, s'))"
    using assms(2) by (auto simp: create_def write_without_key)
  ultimately show ?thesis by (simp only:)
qed

lemma create_succeeds_iff_witness:
  "is_member 1 1 ex_db \<and> (\<exists>w c d a. create_allowed ex_rt ''b'' 1 ex_create ex_db w c d a)"
proof -
  have "\<exists>r s'. create ex_rt (\<lambda>_. JNull) 6000 ''b'' 1 1 ex_create no_options ex_db = Inr (r, s')"
    using ex_create_runs by blast
  then show ?thesis
    using create_succeeds_iff [OF ex_history_inv, of no_options] by (auto simp: no_options_def)
qed

text \<open>Removing a transaction that was just created, with the version its create returned, restores
  the history and every balance, and keeps the record that the create happened, marked deleted.\<close>

theorem remove_undoes_create:
  assumes "history_inv s" and "unused_id uuid s"
    and "create_work rt now uuid sp dto s = Inr (r, s1)"
    and "remove_work later sp uuid (v_version (cr_transaction r)) s1 = Inr (b, s2)"
  shows "transactions s2 = transactions s \<and> wallets s2 = wallets s \<and> categories s2 = categories s \<and>
    wallet_balance j s2 = wallet_balance j s \<and>
    (\<forall>o'. operation_of dto = Some o' \<longrightarrow>
      (\<exists>op. find_operation sp o' s2 = Some op \<and> op_transaction_id op = uuid \<and> op_deleted_at op = Some later))"
proof -
  from assms(3) obtain w c d a where s1: "s1 = after_create now uuid sp dto d a s"
    and allowed: "create_allowed rt uuid sp dto s w c d a" by (rule create_workE)
  from assms(4) have s2: "s2 = s1\<lparr>transactions := delete_rows (\<lambda>t. t_id t = uuid) (transactions s1),
          operations := (operations s1)\<lparr>rows := update_rows (\<lambda>o'. op_transaction_id o' = uuid)
            (\<lambda>o'. o'\<lparr>op_deleted_at := Some later\<rparr>) (rows (operations s1))\<rparr>\<rparr>"
    by (rule remove_workE)
  have "filter (\<lambda>t. t_id t \<noteq> uuid) (transactions s) = transactions s"
    using assms(2) by (simp add: unused_id_def)
  then have same: "transactions s2 = transactions s" by (simp add: s2 s1 delete_rows_def)
  have "\<exists>op. find_operation sp o' s2 = Some op \<and> op_transaction_id op = uuid \<and> op_deleted_at op = Some later"
    if "operation_of dto = Some o'" for o'
  proof -
    let ?p = "\<lambda>r. op_space_id r = sp \<and> op_operation_id r = o'"
    have "find_row ?p (rows (operations s)) = None"
      using allowed that by (auto simp: create_allowed_def find_operation_def)
    then have "find_row ?p (rows (operations s1)) = Some (operation_row now sp o' uuid (next_id (operations s)))"
      using that by (cases "cd_client_operation_id dto")
        (simp_all add: s1 operations_after_create find_row_append operation_row_def)
    then show ?thesis
      by (simp add: find_operation_def s2 find_row_update_other operation_row_def)
  qed
  with same show ?thesis by (simp add: s2 s1 wallet_balance_def delete_rows_def)
qed

lemma ex_create_work:
  "\<exists>r s'. create_work ex_rt 6000 ''b'' 1 ex_create ex_db = Inr (r, s') \<and> v_version (cr_transaction r) = 1"
proof -
  obtain r s' where run: "create ex_rt (\<lambda>_. JNull) 6000 ''b'' 1 1 ex_create no_options ex_db = Inr (Fresh r, s')"
    using ex_create_runs by blast
  then have work: "create_work ex_rt 6000 ''b'' 1 ex_create ex_db = Inr (r, s')"
    by (simp add: create_def no_options_def write_without_key)
  then obtain w c d a created where allowed: "create_allowed ex_rt ''b'' 1 ex_create ex_db w c d a"
    and s': "s' = after_create 6000 ''b'' 1 ex_create d a ex_db" and created: "getOneInSpace 1 ''b'' s' = Some created"
    and view: "cr_transaction r = toTransactionView created"
    by (rule create_workE)
  have "lt_transaction created \<in> set (transactions s')" "lt_id created = ''b''"
    using getOneInSpace_Some [OF created] by simp_all
  then have "lt_transaction created = new_transaction ''b'' ex_create d a"
    by (auto simp: s' ex_tables)
  with work view show ?thesis by (auto simp: toTransactionView_def Let_def)
qed

lemma ex_unused: "unused_id ''b'' ex_db"
  by (simp add: unused_id_def ex_tables)

lemma remove_undoes_create_witness:
  "\<exists>r s1 s2. create_work ex_rt 6000 ''b'' 1 ex_create ex_db = Inr (r, s1) \<and>
     remove_work 7000 1 ''b'' 1 s1 = Inr (True, s2) \<and> transactions s2 = transactions ex_db"
proof -
  obtain r s1 where run: "create_work ex_rt 6000 ''b'' 1 ex_create ex_db = Inr (r, s1)"
    and version: "v_version (cr_transaction r) = 1"
    using ex_create_work by blast
  from run obtain w c d a created where allowed: "create_allowed ex_rt ''b'' 1 ex_create ex_db w c d a"
    and s1: "s1 = after_create 6000 ''b'' 1 ex_create d a ex_db" and created: "getOneInSpace 1 ''b'' s1 = Some created"
    by (rule create_workE)
  note l = getOneInSpace_Some [OF created]
  have t: "lt_transaction created = new_transaction ''b'' ex_create d a"
    using l(1,2) by (auto simp: s1 ex_tables)
  have "find_category 2 s1 = Some (ex_category 2 ''Food'' EXPENSE False)"
    by (simp add: s1 lookup_eval ex_tables)
  with l(4) have "lt_category created = ex_category 2 ''Food'' EXPENSE False"
    by (simp add: t ex_create_def)
  then have "\<not> cat_is_system (lt_category created)" by (simp add: ex_category_def)
  then have "\<exists>s2. remove_work 7000 1 ''b'' 1 s1 = Inr (True, s2)"
    using lockTransaction_eq [THEN iffD2, OF created] t
    by (simp add: remove_work_def assertNotSystem_def assertVersion_def)
  then obtain s2 where s2: "remove_work 7000 1 ''b'' 1 s1 = Inr (True, s2)" by blast
  then have "transactions s2 = transactions ex_db"
    using remove_undoes_create [OF ex_history_inv ex_unused run, of 7000 True s2] version by simp
  with run s2 show ?thesis by blast
qed

section \<open>Operations and versions\<close>

text \<open>A create that is accepted records its operation.\<close>

lemma create_records_operation:
  assumes "create rt to_json now uuid u sp dto options s = Inr (Fresh r, s')"
    and "cd_client_operation_id dto = Some o'"
  shows "find_operation sp (to_lower o') s' \<noteq> None"
  using assms(1) unfolding create_def
proof (cases rule: write_unit_cases)
  case (fresh r' s1 t t')
  from fresh(2) obtain d a where "s1 = after_create now uuid sp dto d a (s\<lparr>idempotency_keys := t\<rparr>)"
    by (rule create_workE)
  with assms(2) fresh(3) show ?thesis
    by (auto simp: find_operation_def operations_after_create operation_row_def find_row_None)
qed simp

text \<open>Where the operation is recorded, a create with it is never accepted.\<close>

lemma recorded_operation_refused:
  assumes "find_operation sp (to_lower o') s \<noteq> None" and "cd_client_operation_id dto = Some o'"
  shows "case create rt to_json now uuid u sp dto options s of
     Inl e \<Rightarrow> is_member sp u s \<and> wo_idempotencyKey options = None \<longrightarrow>
       e = api_error TRANSACTION_OPERATION_EXISTS CONFLICT
   | Inr (reply, s') \<Rightarrow> wo_idempotencyKey options \<noteq> None \<and>
       (\<exists>body t. reply = Replayed body \<and> s' = s\<lparr>idempotency_keys := t\<rparr>)"
proof -
  have refused: "create_work rt now uuid sp dto (s\<lparr>idempotency_keys := t\<rparr>) =
      Inl (api_error TRANSACTION_OPERATION_EXISTS CONFLICT)" for t
    using assms by (simp add: create_work_def assertOperationUnused_def find_operation_def)
  have plain: "create_work rt now uuid sp dto s = Inl (api_error TRANSACTION_OPERATION_EXISTS CONFLICT)"
    using refused [of "idempotency_keys s"] by simp
  show ?thesis
  proof (cases "create rt to_json now uuid u sp dto options s")
    case (Inl e)
    moreover have "e = api_error TRANSACTION_OPERATION_EXISTS CONFLICT"
      if member: "is_member sp u s" and key: "wo_idempotencyKey options = None"
    proof -
      obtain m where "find_member sp u s = Some m"
        using member by (metis find_member_None option.exhaust)
      with key plain Inl show ?thesis by (simp add: create_def write_unit_def lockMembership_def)
    qed
    ultimately show ?thesis by simp
  next
    case (Inr result)
    obtain reply s' where result: "result = (reply, s')" by (cases result)
    from Inr plain have "wo_idempotencyKey options \<noteq> None"
      by (auto simp: create_def write_unit_def and_then_eq_Inr split: option.splits)
    moreover from Inr obtain body t where "reply = Replayed body" "s' = s\<lparr>idempotency_keys := t\<rparr>"
      unfolding create_def result by (cases rule: write_unit_cases) (auto simp: refused)
    ultimately show ?thesis unfolding Inr result by auto
  qed
qed

text \<open>C8. A client operation is applied at most once: after a create with a
  \<open>client_operation_id\<close> was accepted, and whatever writes follow, of transactions, wallets, categories
  and limits, edits and removals of the transaction included, no create with that id in any case of
  its letters is accepted again in that space, by anybody and with any idempotency key. A member's
  create without a key is refused with \<open>TRANSACTION_OPERATION_EXISTS\<close>, one with a key can only get the
  stored answer of that key, and neither writes a transaction or an operation.\<close>

theorem operation_applied_once:
  assumes "space_inv (s, used)" and "valid_create rt now' dto" and "uuid \<notin> used"
    and "create rt to_json now uuid u sp dto options s = Inr (Fresh r, s1)"
    and "cd_client_operation_id dto = Some o1" and "(space_step rt)\<^sup>*\<^sup>* (s1, insert uuid used) c"
    and "cd_client_operation_id again = Some o2" and "to_lower o2 = to_lower o1"
  shows "case create rt to_json' later uuid' u' sp again options' (fst c) of
     Inl e \<Rightarrow> is_member sp u' (fst c) \<and> wo_idempotencyKey options' = None \<longrightarrow>
       e = api_error TRANSACTION_OPERATION_EXISTS CONFLICT
   | Inr (reply, s2) \<Rightarrow> wo_idempotencyKey options' \<noteq> None \<and>
       (\<exists>body t. reply = Replayed body \<and> s2 = (fst c)\<lparr>idempotency_keys := t\<rparr>)"
proof -
  have "space_step rt (s, used) (s1, insert uuid used)"
    using assms(2,3,4) by (intro space_step.transaction history_step.create)
  then have "space_inv (s1, insert uuid used)" using space_step_keeps [OF assms(1)] by blast
  then have "state_below (s1, insert uuid used) c" by (rule space.steps_below [OF assms(6)])
  moreover obtain op where op: "op \<in> set (rows (operations s1))" "op_space_id op = sp"
      "op_operation_id op = to_lower o1"
    using create_records_operation [OF assms(4,5)] by (auto simp: find_operation_def find_row_None)
  ultimately have "operation_key op \<in> operation_key ` set (rows (operations (fst c)))"
    by (auto simp: state_below_def)
  then have "find_operation sp (to_lower o2) (fst c) \<noteq> None"
    using op assms(8) by (auto simp: find_operation_def find_row_None operation_key_def)
  then show ?thesis using assms(7) by (rule recorded_operation_refused)
qed

lemma ex_catalog: "catalog_ok ex_db"
  by (simp add: catalog_ok_def table_ok_def limits_ok_def ex_tables)

lemma ex_space_inv: "space_inv (ex_db, {''a''})"
  using ex_history_inv ex_catalog by (simp add: space_inv_def state_inv_def ids_used_def ex_tables)

lemma ex_step:
  "\<exists>r s'. create ex_rt (\<lambda>_. JNull) 6000 ''b'' 1 1 ex_create no_options ex_db = Inr (Fresh r, s') \<and>
     space_step ex_rt (ex_db, {''a''}) (s', {''b'', ''a''}) \<and>
     find_operation 1 (to_lower ''AB'') s' \<noteq> None \<and> is_member 1 1 s'"
proof -
  obtain r s' where run: "create ex_rt (\<lambda>_. JNull) 6000 ''b'' 1 1 ex_create no_options ex_db = Inr (Fresh r, s')"
    using ex_create_runs by blast
  then have step: "space_step ex_rt (ex_db, {''a''}) (s', {''b'', ''a''})"
    by (intro space_step.transaction history_step.create [OF _ ex_valid]) simp_all
  from run have "create_work ex_rt 6000 ''b'' 1 ex_create ex_db = Inr (r, s')"
    by (simp add: create_def no_options_def write_without_key)
  then obtain d a where s': "s' = after_create 6000 ''b'' 1 ex_create d a ex_db" by (rule create_workE)
  then have "find_operation 1 (to_lower ''AB'') s' \<noteq> None" and "is_member 1 1 s'"
    by (simp_all add: find_operation_def operations_after_create ex_create_def operation_row_def
        is_member_def ex_tables)
  with run step show ?thesis by blast
qed

lemma operation_applied_once_witness:
  "\<exists>r s. create ex_rt (\<lambda>_. JNull) 6000 ''b'' 1 1 ex_create no_options ex_db = Inr (Fresh r, s) \<and>
     create ex_rt (\<lambda>_. JNull) 9000 ''c'' 1 1 ex_create no_options s =
       Inl (api_error TRANSACTION_OPERATION_EXISTS CONFLICT)"
proof -
  obtain r s where run: "create ex_rt (\<lambda>_. JNull) 6000 ''b'' 1 1 ex_create no_options ex_db = Inr (Fresh r, s)"
    and member: "is_member 1 1 s" using ex_step by blast
  have "case create ex_rt (\<lambda>_. JNull) 9000 ''c'' 1 1 ex_create no_options (fst (s, {''b'', ''a''})) of
     Inl e \<Rightarrow> is_member 1 1 (fst (s, {''b'', ''a''})) \<and> wo_idempotencyKey no_options = None \<longrightarrow>
       e = api_error TRANSACTION_OPERATION_EXISTS CONFLICT
   | Inr (reply, s2) \<Rightarrow> wo_idempotencyKey no_options \<noteq> None \<and>
       (\<exists>body t. reply = Replayed body \<and> s2 = (fst (s, {''b'', ''a''}))\<lparr>idempotency_keys := t\<rparr>)"
    by (rule operation_applied_once [OF ex_space_inv ex_valid _ run, where ?o1.0 = "''AB''" and ?o2.0 = "''AB''"])
      (simp_all add: ex_create_def)
  with run member show ?thesis by (auto simp: no_options_def split: sum.splits)
qed

text \<open>C7. No lost updates: when a client read a record and sends an edit with the version it read,
  and the edit is applied after any writes in between, by anyone and of any kind, the record it is applied to is
  still the one the client read.\<close>

theorem stale_edit_refused:
  assumes "space_inv c" and "t \<in> set (transactions (fst c))" and "(space_step rt)\<^sup>*\<^sup>* c c'"
    and "update_work rt now sp (t_id t) (t_version t) dto (fst c') = Inr (r, s')"
  shows "find_transaction (t_id t) (fst c') = Some t"
proof -
  have below: "state_below c c'" by (rule space.steps_below [OF assms(3,1)])
  have inv: "space_inv c'" by (rule space.reachable [OF assms(3,1)])
  from assms(4) obtain l where l: "getOneInSpace sp (t_id t) (fst c') = Some l"
    and version: "t_version (lt_transaction l) = t_version t" by (rule update_workE)
  note l = getOneInSpace_Some [OF l]
  have "t_id t \<in> snd c" using assms(1,2) by (auto simp: space_inv_def state_inv_def ids_used_def)
  with below l(1,2) obtain t0 where t0: "t0 \<in> set (transactions (fst c))" "t_id t0 = t_id t"
      "t0 = lt_transaction l \<or> t_version t0 < t_version (lt_transaction l)"
    unfolding state_below_def by metis
  have "history_inv (fst c)" using assms(1) by (simp add: space_inv_def state_inv_def)
  then have "t0 = t"
    using t0(1,2) assms(2) find_transaction_unique by (metis option.sel)
  with t0(3) version have "lt_transaction l = t" by auto
  moreover have "history_inv (fst c')" using inv by (simp add: space_inv_def state_inv_def)
  ultimately show ?thesis using find_transaction_unique l(1) by metis
qed

lemma ex_update_runs:
  "\<exists>r s'. update_work ex_rt 6000 1 ''a'' 1 ex_update ex_db = Inr (r, s')"
  by (simp add: update_work_def lockTransaction_def lockRows_def getOneInSpace_def joined_def load_def
      List.map_filter_def assertNotSystem_def assertVersion_def changedFields_def
      changed_def ex_update_def or_null_def assertNewValues_def assertWalletInSpace_def
      assertBelongsToSpace_def assertWalletActive_def no_changes_def update_transaction_def update_rows_def
      apply_changes_def lookup_eval ex_tables getBalances_eq Let_def)

lemma stale_edit_refused_witness:
  "\<exists>r s'. update_work ex_rt 6000 1 ''a'' 1 ex_update ex_db = Inr (r, s') \<and>
     find_transaction ''a'' ex_db = Some (ex_transaction ''a'' 1000 250)"
proof -
  obtain r s' where run: "update_work ex_rt 6000 1 ''a'' 1 ex_update ex_db = Inr (r, s')"
    using ex_update_runs by blast
  have "ex_transaction ''a'' 1000 250 \<in> set (transactions (fst (ex_db, {''a''})))"
    by (simp add: ex_db_def)
  from stale_edit_refused [OF ex_space_inv this rtranclp.rtrancl_refl, of ex_rt 6000 1 ex_update r s']
  have "find_transaction ''a'' ex_db = Some (ex_transaction ''a'' 1000 250)"
    using run by (simp add: ex_transaction_def)
  with run show ?thesis by blast
qed

section \<open>Edits\<close>

text \<open>The record an edit asks for: each field that is given and differs replaces the stored one.\<close>

definition requested :: "runtime \<Rightarrow> UpdateTransactionDto \<Rightarrow> transaction \<Rightarrow> transaction \<Rightarrow> bool" where
  "requested rt dto t t' \<longleftrightarrow> t_id t' = t_id t \<and>
     t_wallet_id t' = or_old (ud_wallet_id dto) (t_wallet_id t) \<and>
     t_category_id t' = or_old (ud_category_id dto) (t_category_id t) \<and>
     t_transaction_type t' = or_old (ud_transaction_type dto) (t_transaction_type t) \<and>
     (case ud_amount dto of None \<Rightarrow> t_amount t' = t_amount t | Some a \<Rightarrow> matchMoney a = Some (t_amount t')) \<and>
     (case ud_timestamp dto of None \<Rightarrow> t_timestamp t' = t_timestamp t
        | Some d \<Rightarrow> parseIsoDate rt d = Some (t_timestamp t')) \<and>
     normalizeDescription (t_description t') = (case ud_description dto of
        None \<Rightarrow> normalizeDescription (t_description t) | Some d \<Rightarrow> normalizeDescription d)"

lemma parseMoney_eq: "parseMoney a = Inr c \<longleftrightarrow> matchMoney a = Some c"
  by (simp add: parseMoney_def need_eq_Inr)

lemma changedFields_requested:
  assumes "changedFields rt t dto = Inr ch"
    and "case tch_amount ch of None \<Rightarrow> amount = None | Some x \<Rightarrow> (\<exists>c. amount = Some c \<and> matchMoney x = Some c)"
  shows "requested rt dto t (apply_changes ch amount t)"
    and "ch = no_changes \<Longrightarrow> requested rt dto t t"
proof -
  from assms(1) obtain amt tim where
    amt: "(case ud_amount dto of None \<Rightarrow> Inr None
         | Some a \<Rightarrow> and_then (parseMoney a) (\<lambda>new.
             and_then (parseMoney (formatMoney (t_amount t))) (\<lambda>old.
               Inr (if new \<noteq> old then Some a else None)))) = (Inr amt :: exception + _)"
    and tim: "(case ud_timestamp dto of None \<Rightarrow> Inr None
         | Some d \<Rightarrow> and_then (toDate rt d) (\<lambda>new.
             Inr (if new \<noteq> t_timestamp t then Some new else None))) = Inr tim"
    and ch: "ch = \<lparr>tch_wallet_id = changed (\<lambda>w. w \<noteq> t_wallet_id t) (ud_wallet_id dto),
          tch_category_id = changed (\<lambda>c. c \<noteq> t_category_id t) (ud_category_id dto),
          tch_transaction_type = changed (\<lambda>ty. ty \<noteq> t_transaction_type t) (ud_transaction_type dto),
          tch_amount = amt, tch_timestamp = tim,
          tch_description = (if ud_description dto \<noteq> None \<and>
              normalizeDescription (or_null (ud_description dto)) \<noteq> normalizeDescription (t_description t)
              then Some (normalizeDescription (or_null (ud_description dto))) else None)\<rparr>"
    by (auto simp: changedFields_def and_then_eq_Inr Let_def)
  have old: "or_old (changed (\<lambda>x. x \<noteq> y) v) y = or_old v y" for y :: 'x and v
    by (auto simp: changed_def or_old_def split: option.split)
  have a: "case ud_amount dto of None \<Rightarrow> or_old amount (t_amount t) = t_amount t
      | Some x \<Rightarrow> matchMoney x = Some (or_old amount (t_amount t))"
    using amt assms(2) by (auto simp: ch and_then_eq_Inr parseMoney_eq matchMoney_formatMoney
        split: option.splits if_splits)
  have d: "case ud_timestamp dto of None \<Rightarrow> or_old tim (t_timestamp t) = t_timestamp t
      | Some x \<Rightarrow> parseIsoDate rt x = Some (or_old tim (t_timestamp t))"
    using tim by (auto simp: and_then_eq_Inr result_iffs split: option.splits if_splits)
  show req: "requested rt dto t (apply_changes ch amount t)"
    using a d by (auto simp: requested_def ch old or_null_def split: option.split)
  assume none: "ch = no_changes"
  then have "amount = None" using assms(2) by (simp add: no_changes_def)
  then have "apply_changes ch amount t = t\<lparr>t_version := t_version t + 1\<rparr>"
    by (simp add: apply_changes_def none no_changes_def)
  with req show "requested rt dto t t"
    by (cases "ud_amount dto"; cases "ud_timestamp dto") (simp_all add: requested_def)
qed

text \<open>A request that asks for what is stored changes no field, any other request at least one.\<close>

lemma no_changes_iff:
  assumes "changedFields rt t dto = Inr ch"
  shows "ch = no_changes \<longleftrightarrow> requested rt dto t t"
proof
  assume same: "requested rt dto t t"
  have same_field: "changed (\<lambda>x. x \<noteq> y) v = None" if "y = or_old v y" for y :: 'x and v
    using that by (cases v) (simp_all add: changed_def or_old_def)
  have "changed (\<lambda>w. w \<noteq> t_wallet_id t) (ud_wallet_id dto) = None"
    "changed (\<lambda>c. c \<noteq> t_category_id t) (ud_category_id dto) = None"
    "changed (\<lambda>ty. ty \<noteq> t_transaction_type t) (ud_transaction_type dto) = None"
    by (rule same_field, insert same, unfold requested_def, elim conjE, assumption)+
  moreover have "case ud_amount dto of None \<Rightarrow> True | Some a \<Rightarrow> matchMoney a = Some (t_amount t)"
    using same unfolding requested_def by (auto split: option.split)
  then have "tch_amount ch = None"
    using assms by (auto simp: changedFields_def and_then_eq_Inr parseMoney_eq matchMoney_formatMoney Let_def
        split: option.splits if_splits)
  moreover have "case ud_timestamp dto of None \<Rightarrow> True | Some d \<Rightarrow> parseIsoDate rt d = Some (t_timestamp t)"
    using same unfolding requested_def by (auto split: option.split)
  then have "tch_timestamp ch = None"
    using assms by (auto simp: changedFields_def and_then_eq_Inr result_iffs Let_def split: option.splits if_splits)
  moreover have "case ud_description dto of None \<Rightarrow> True
      | Some d \<Rightarrow> normalizeDescription (t_description t) = normalizeDescription d"
    using same unfolding requested_def by (auto split: option.split)
  then have "tch_description ch = None"
    using assms by (auto simp: changedFields_def and_then_eq_Inr or_null_def Let_def split: option.splits if_splits)
  ultimately show "ch = no_changes"
    using assms by (auto simp: changedFields_def no_changes_def and_then_eq_Inr Let_def)
next
  assume "ch = no_changes"
  then show "requested rt dto t t"
    using changedFields_requested(2) [OF assms, of None] by (simp add: no_changes_def)
qed

text \<open>C6. An edit that succeeds leaves the record as the request merged with the stored values, every
  other record as it was, and no other table touched. The version goes up by one exactly when the
  request asks for something else than is stored: an edit that asks for the stored values writes
  nothing and leaves the version.\<close>

theorem update_effect:
  assumes "history_inv s" and "update_work rt now sp i v dto s = Inr (r, s')"
  shows "\<exists>t t'. find_transaction i s = Some t \<and> t_version t = v \<and> find_transaction i s' = Some t' \<and>
    requested rt dto t t' \<and>
    (if requested rt dto t t then t' = t \<and> s' = s
     else t' \<noteq> t \<and> t_version t' = v + 1 \<and>
      s' = s\<lparr>transactions := update_rows (\<lambda>x. t_id x = i) (\<lambda>_. t') (transactions s)\<rparr>)"
proof -
  from assms(2) obtain l ch cat locked where l: "getOneInSpace sp i s = Some l"
    and version: "t_version (lt_transaction l) = v"
    and ch: "changedFields rt (lt_transaction l) dto = Inr ch"
    and s': "(if ch \<noteq> no_changes then update_transaction i ch s else Inr s) = Inr s'"
    by (rule update_workE) (rule that, assumption+)
  let ?t = "lt_transaction l"
  note l = getOneInSpace_Some [OF l]
  have t: "find_transaction i s = Some ?t"
    using find_transaction_unique [OF assms(1) l(1)] l(2) by simp
  show ?thesis
  proof (cases "ch = no_changes")
    case True
    then have "requested rt dto ?t ?t" using no_changes_iff [OF ch] by simp
    with True s' t version show ?thesis by (intro exI [of _ ?t] exI [of _ ?t]) simp
  next
    case False
    then have differs: "\<not> requested rt dto ?t ?t" using no_changes_iff [OF ch] by simp
    from False s' obtain amount where eq: "s' = s\<lparr>transactions :=
        update_rows (\<lambda>t. t_id t = i) (apply_changes ch amount) (transactions s)\<rparr>"
      and amount: "case tch_amount ch of None \<Rightarrow> amount = None
       | Some a \<Rightarrow> (\<exists>c. amount = Some c \<and> matchMoney a = Some c \<and> \<bar>c\<bar> \<le> MAX_MONEY_INPUT_CENTS)"
      by (auto simp: update_transaction_eq)
    let ?t' = "apply_changes ch amount ?t"
    have only: "x = ?t" if "x \<in> set (transactions s)" "t_id x = i" for x
      using find_transaction_unique [OF assms(1) that(1)] that(2) t by simp
    then have "update_rows (\<lambda>x. t_id x = i) (apply_changes ch amount) (transactions s) =
        update_rows (\<lambda>x. t_id x = i) (\<lambda>_. ?t') (transactions s)"
      by (auto simp: update_rows_def)
    moreover have "find_transaction i s' = Some ?t'"
      using t l(2) by (simp add: eq find_transaction_update)
    moreover have "requested rt dto ?t ?t'"
      by (rule changedFields_requested(1) [OF ch]) (use amount in \<open>auto split: option.splits\<close>)
    moreover from this differs have "?t' \<noteq> ?t" by metis
    ultimately show ?thesis
      using t version eq differs by (intro exI [of _ ?t] exI [of _ ?t']) simp
  qed
qed

lemma update_effect_witness:
  "\<exists>r s' t'. update_work ex_rt 6000 1 ''a'' 1 ex_update ex_db = Inr (r, s') \<and>
     find_transaction ''a'' s' = Some t' \<and> t_amount t' = 300 \<and> t_wallet_id t' = 8 \<and> t_version t' = 2"
proof -
  obtain r s' where run: "update_work ex_rt 6000 1 ''a'' 1 ex_update ex_db = Inr (r, s')"
    using ex_update_runs by blast
  obtain t t' where t: "find_transaction ''a'' ex_db = Some t" "find_transaction ''a'' s' = Some t'"
    "requested ex_rt ex_update t t'" "\<not> requested ex_rt ex_update t t \<Longrightarrow> t_version t' = 1 + 1"
    using update_effect [OF ex_history_inv run] by (metis (full_types))
  have "t = ex_transaction ''a'' 1000 250" using t(1) by (simp add: lookup_eval ex_tables)
  then have "\<not> requested ex_rt ex_update t t" by (simp add: requested_def ex_update_def ex_transaction_def)
  with t run show ?thesis by (auto simp: requested_def ex_update_def)
qed

section \<open>Integrity and idempotency\<close>

text \<open>C2. Every reachable state is consistent: after any sequence of writes of transactions, wallets,
  categories and limits by any users, each transaction has a wallet and a category of one space and an amount that fits its column, ids are
  unique, and an operation is marked deleted exactly when its transaction is gone.\<close>

theorem history_consistent:
  assumes "space_inv c" and "(space_step rt)\<^sup>*\<^sup>* c c'" and "t \<in> set (transactions (fst c'))"
  shows "(\<exists>w cat. find_wallet (t_wallet_id t) (fst c') = Some w \<and>
      find_category (t_category_id t) (fst c') = Some cat \<and> w_space_id w = cat_space_id cat) \<and>
    0 \<le> t_amount t \<and> t_amount t \<le> MAX_MONEY_INPUT_CENTS \<and>
    find_transaction (t_id t) (fst c') = Some t \<and>
    (\<forall>o' \<in> set (rows (operations (fst c'))).
       op_deleted_at o' = None \<longleftrightarrow> find_transaction (op_transaction_id o') (fst c') \<noteq> None)"
proof -
  have "space_inv c'" by (rule space.reachable [OF assms(2,1)])
  then have inv: "history_inv (fst c')" by (simp add: space_inv_def state_inv_def)
  then have ops: "\<forall>o' \<in> set (rows (operations (fst c'))).
       op_deleted_at o' = None \<longleftrightarrow> find_transaction (op_transaction_id o') (fst c') \<noteq> None"
    by (auto simp: history_inv_def operation_ok_def split: option.splits)
  from inv assms(3) have "transaction_ok (fst c') t" by (simp add: history_inv_def)
  with inv assms(3) ops show ?thesis
    by (simp add: transaction_ok_def find_transaction_unique)
qed

lemma history_consistent_witness:
  "\<exists>s. space_step ex_rt (ex_db, {''a''}) (s, {''b'', ''a''}) \<and>
    (\<forall>t \<in> set (transactions s). 0 \<le> t_amount t)"
proof -
  obtain s where step: "space_step ex_rt (ex_db, {''a''}) (s, {''b'', ''a''})"
    using ex_step by blast
  have "\<forall>t \<in> set (transactions s). 0 \<le> t_amount t"
    using history_consistent [OF ex_space_inv r_into_rtranclp [of "space_step ex_rt", OF step]] by simp
  with step show ?thesis by blast
qed

end
