(* ===== verification/CatalogProperties.thy ===== *)
theory CatalogProperties
  imports TransactionProperties FeedProperties
begin

text \<open>
  The properties of wallets, categories and limits: what the whole state machine keeps of them, what
  each write does and when it is refused, and what the reads compute.
\<close>

section \<open>The catalog of every reachable state\<close>

text \<open>C3. In every reachable state, two limits share no category and a space has at most one limit of
  all categories; the categories of a limit exist, are active, are not the system category and
  belong to its space; a limit of several categories has a name; and a category is archived exactly
  when it has an archive date.\<close>

theorem catalog_consistent:
  assumes "space_inv c" and "(space_step rt)\<^sup>*\<^sup>* c c'"
    and "l \<in> set (rows (limits (fst c')))" and "l' \<in> set (rows (limits (fst c')))" and "l \<noteq> l'"
    and "cat \<in> set (rows (categories (fst c')))"
  shows "set (l_categories l) \<inter> set (l_categories l') = {} \<and>
    \<not> (l_limit_type l = OTHERS \<and> l_limit_type l' = OTHERS \<and> l_space_id l = l_space_id l') \<and>
    (l_limit_type l = OTHERS \<longleftrightarrow> l_categories l = []) \<and>
    (\<forall>i \<in> set (l_categories l). \<exists>c. find_category i (fst c') = Some c \<and> cat_space_id c = l_space_id l \<and>
       cat_is_active c \<and> \<not> cat_is_system c) \<and>
    (1 < length (l_categories l) \<longrightarrow> l_name l \<noteq> None \<and> l_name l \<noteq> Some []) \<and>
    (cat_is_active cat \<longleftrightarrow> cat_archived_at cat = None)"
proof -
  have "space_inv c'" by (rule space.reachable [OF assms(2,1)])
  then have ok: "catalog_ok (fst c')" by (simp add: space_inv_def)
  then have lims: "limits_ok (lookup_category (fst c')) (rows (limits (fst c')))"
    and dated: "cat_is_active cat \<longleftrightarrow> cat_archived_at cat = None"
    using assms(6) by (simp_all add: catalog_ok_def)
  have "l_id l \<noteq> l_id l'"
    using distinct_key_eq [OF catalog_distinct(3) [OF ok] assms(3,4)] assms(5) by blast
  with lims assms(3,4) have "compatible l l'" and "limit_ok (lookup_category (fst c')) l"
    by (simp_all add: limits_ok_def)
  with dated show ?thesis
    unfolding compatible_def limit_ok_def lookup_category_def by blast
qed

text \<open>The example space with a total limit and a limit of its expense category.\<close>

definition ex_limit :: "nat \<Rightarrow> LimitType \<Rightarrow> nat list \<Rightarrow> limit" where
  "ex_limit i ty cs = \<lparr>l_id = i, l_space_id = 1, l_name = None, l_limit_type = ty, l_amount = 10000,
     l_categories = cs, l_created_at = 0, l_updated_at = 0\<rparr>"

definition ex_limits_db :: db where
  "ex_limits_db = ex_db\<lparr>limits := ex_table 3 [ex_limit 1 OTHERS [], ex_limit 2 CATEGORY [2]]\<rparr>"

lemmas ex_limits = ex_limits_db_def ex_limit_def

lemma ex_limits_catalog: "catalog_ok ex_limits_db"
  by (simp add: catalog_ok_def table_ok_def limits_ok_def limit_ok_def compatible_def lookup_category_def
      find_category_def ex_limits ex_tables MAX_MONEY_INPUT_CENTS_def)

lemma ex_limits_inv: "space_inv (ex_limits_db, {''a''})"
proof -
  have "links_kept ex_db ex_limits_db"
    by (rule links_kept_categories) (simp_all add: ex_limits_db_def find_category_def)
  then show ?thesis
    using quiet_step [OF ex_space_inv _ ex_limits_catalog] by (simp add: same_history_def ex_limits_db_def)
qed

lemma catalog_consistent_witness:
  "2 \<notin> set (l_categories (ex_limit 1 OTHERS [])) \<and> find_category 2 ex_limits_db \<noteq> None"
proof -
  have l: "ex_limit 2 CATEGORY [2] \<in> set (rows (limits (fst (ex_limits_db, {''a''}))))"
      "ex_limit 1 OTHERS [] \<in> set (rows (limits (fst (ex_limits_db, {''a''}))))"
      "ex_category 2 ''Food'' EXPENSE False \<in> set (rows (categories (fst (ex_limits_db, {''a''}))))"
      "ex_limit 2 CATEGORY [2] \<noteq> ex_limit 1 OTHERS []"
    by (simp_all add: ex_limits_db_def ex_db_def ex_table_def ex_limit_def)
  show ?thesis
    using catalog_consistent [OF ex_limits_inv rtranclp.rtrancl_refl l(1,2,4,3)]
    by (auto simp: ex_limit_def)
qed

section \<open>Wallets\<close>

text \<open>C32. A wallet is created with exactly the balance the request asks for, and nothing else moves: the
  new wallet belongs to the space, its balance summed from the history is the initial balance, no
  other balance changes, and the history gets one record of the system category, dated now, exactly
  when the initial balance is not zero. The balance returned is the sum.\<close>

theorem create_wallet_balance:
  assumes "space_inv (s, used)" and "create_wallet rt now uuid u sp dto s = Inr (r, s')"
  shows "\<exists>cents w. parseMoney (cw_initial_balance dto) = Inr cents \<and> is_member sp u s \<and>
    find_wallet (next_id (wallets s)) s' = Some w \<and> wb_wallet (wr_wallet r) = w \<and>
    w_space_id w = sp \<and> w_wallet_name w = cw_wallet_name dto \<and> \<not> w_is_deleted w \<and>
    (\<forall>j. wallet_balance j s' = (if j = w_id w then cents else wallet_balance j s)) \<and>
    (cents = 0 \<longrightarrow> transactions s' = transactions s \<and> wb_balance (wr_wallet r) = 0) \<and>
    (cents \<noteq> 0 \<longrightarrow> toNumber rt cents = Inr (wb_balance (wr_wallet r)) \<and>
       (\<exists>t c. transactions s' = transactions s @ [t] \<and> t_id t = uuid \<and> t_timestamp t = now \<and>
          find_category (t_category_id t) s' = Some c \<and> cat_is_system c \<and> cat_space_id c = sp))"
proof -
  let ?i = "next_id (wallets s)" and ?w = "new_wallet now sp dto (next_id (wallets s))"
  have ok: "catalog_ok s" and history: "history_inv s"
    using assms(1) by (simp_all add: space_inv_def state_inv_def)
  from assms(2) obtain cents ts where cents: "parseMoney (cw_initial_balance dto) = Inr cents"
    and member: "is_member sp u s"
    and s': "s' = s\<lparr>wallets := insert_auto (new_wallet now sp dto) (wallets s), transactions := transactions s @ ts\<rparr>"
    and r: "wb_wallet (wr_wallet r) = ?w"
    and none: "cents = 0 \<longrightarrow> ts = [] \<and> wr_transaction r = None \<and> wb_balance (wr_wallet r) = 0"
    and some: "cents \<noteq> 0 \<longrightarrow> (\<exists>c t n. ts = [t] \<and> find_transaction uuid s = None \<and> t_id t = uuid \<and>
      c \<in> set (rows (categories s)) \<and> cat_space_id c = sp \<and> cat_is_system c \<and> t_category_id t = cat_id c \<and>
      t_wallet_id t = ?i \<and> t_transaction_type t = INCOME \<and> t_amount t = cents \<and>
      t_timestamp t = now \<and> \<bar>cents\<bar> \<le> MAX_MONEY_INPUT_CENTS \<and> toNumber rt cents = Inr n \<and>
      wb_balance (wr_wallet r) = n \<and> wr_transaction r = Some \<lparr>it_transaction = t, it_amount = n\<rparr>)"
    by (rule create_wallet_effect) (rule that, assumption+)
  have w_id: "w_id (new_wallet now sp dto i) = i" for i by (simp add: new_wallet_def)
  have found: "find_wallet ?i s' = Some ?w"
    using insert_wallet_quiet(3) [OF ok w_id] by (simp add: s' find_wallet_def)
  have "w_id w < ?i" if "w \<in> set (rows (wallets s))" for w
    using ok that by (simp add: catalog_ok_def table_ok_def)
  then have "t_wallet_id t \<noteq> ?i" if "t \<in> set (transactions s)" for t
    using history that by (fastforce simp: history_inv_def transaction_ok_def find_wallet_def dest: find_row_Some)
  then have zero: "wallet_balance ?i s = 0"
    by (simp add: wallet_balance_def filter_False)
  have balance: "wallet_balance j s' = (if j = ?i then cents else wallet_balance j s)" for j
  proof (cases "cents = 0")
    case True
    with none zero show ?thesis by (simp add: wallet_balance_def s')
  next
    case False
    with some zero show ?thesis by (auto simp: wallet_balance_def s' signed_amount_def)
  qed
  have stored: "find_category (cat_id c) s' = Some c" if "c \<in> set (rows (categories s))" for c
    using find_row_key [OF catalog_distinct(2) [OF ok] that] by (simp add: s' find_category_def)
  have "w_space_id ?w = sp" "w_wallet_name ?w = cw_wallet_name dto" "\<not> w_is_deleted ?w"
    by (simp_all add: new_wallet_def)
  moreover have "cents \<noteq> 0 \<Longrightarrow> toNumber rt cents = Inr (wb_balance (wr_wallet r)) \<and>
       (\<exists>t c. transactions s' = transactions s @ [t] \<and> t_id t = uuid \<and> t_timestamp t = now \<and>
          find_category (t_category_id t) s' = Some c \<and> cat_is_system c \<and> cat_space_id c = sp)"
    using some stored by (fastforce simp: s')
  ultimately show ?thesis
    using cents member found r balance none
    by (intro exI [of _ cents] exI [of _ ?w]) (simp add: w_id s')
qed

definition ex_new_wallet :: CreateWalletDto where
  "ex_new_wallet = \<lparr>cw_wallet_name = ''Card'', cw_initial_balance = ''12.3'', cw_design = AMBER\<rparr>"

lemma ex_next_wallet: "next_id (wallets ex_db) = 9"
  by (simp add: ex_db_def ex_table_def)

lemma ex_create_wallet_runs:
  "\<exists>r s'. create_wallet ex_rt 6000 ''b'' 1 1 ex_new_wallet ex_db = Inr (r, s')"
  by (simp add: create_wallet_def create_wallet_work_def write_in_space_def lockMembership_def parseMoney_def
      insert_transaction_def Let_def ex_new_wallet_def lookup_eval ex_tables)

lemma create_wallet_balance_witness:
  "\<exists>r s'. create_wallet ex_rt 6000 ''b'' 1 1 ex_new_wallet ex_db = Inr (r, s') \<and> wallet_balance 9 s' = 1230"
proof -
  obtain r s' where run: "create_wallet ex_rt 6000 ''b'' 1 1 ex_new_wallet ex_db = Inr (r, s')"
    using ex_create_wallet_runs by blast
  have "wallet_balance 9 s' = 1230"
    using create_wallet_balance [OF ex_space_inv run] ex_next_wallet
    by (auto simp: ex_new_wallet_def parseMoney_def find_wallet_def dest: find_row_Some)
  with run show ?thesis by blast
qed

text \<open>The records of the active wallets of a space: what its overview is about.\<close>

definition overview_records :: "nat \<Rightarrow> db \<Rightarrow> transaction list" where
  "overview_records sp s = filter (\<lambda>t. t_wallet_id t \<in> set (map w_id (getAllWallets sp s))) (transactions s)"

definition counted_in_period :: "int \<Rightarrow> int \<Rightarrow> db \<Rightarrow> transaction \<Rightarrow> bool" where
  "counted_in_period from to s t \<longleftrightarrow> from \<le> t_timestamp t \<and> t_timestamp t \<le> to \<and>
     (\<exists>c. find_category (t_category_id t) s = Some c \<and> \<not> cat_is_system c)"

lemma period_net: "pt_income (period_totals_of rs) - pt_spend (period_totals_of rs) = sum_list (map signed_amount rs)"
proof -
  have "amount_of_type INCOME t - amount_of_type EXPENSE t = signed_amount t" for t
    by (cases "t_transaction_type t") (simp_all add: amount_of_type_def signed_amount_def)
  then show ?thesis by (simp add: period_totals_of_def sum_list_subtractf [symmetric])
qed

lemma sum_by_wallet:
  fixes f :: "transaction \<Rightarrow> int"
  assumes "distinct (map w_id (rows (wallets s)))"
  shows "(\<Sum>w\<leftarrow>getAllWallets sp s. sum_list (map f (filter (\<lambda>t. t_wallet_id t = w_id w) (filter p (transactions s))))) =
    sum_list (map f (filter p (overview_records sp s)))"
proof -
  let ?ks = "map w_id (getAllWallets sp s)"
  have "distinct ?ks" unfolding getAllWallets_def by (rule distinct_map_filter [OF assms])
  have own: "filter (\<lambda>t. t_wallet_id t = k) (filter p (transactions s)) =
      filter (\<lambda>t. t_wallet_id t = k) (filter p (overview_records sp s))" if "k \<in> set ?ks" for k
    using that by (auto simp: overview_records_def intro!: filter_cong)
  have "(\<Sum>k\<leftarrow>?ks. sum_list (map f (filter (\<lambda>t. t_wallet_id t = k) (filter p (overview_records sp s))))) =
      sum_list (map f (filter p (overview_records sp s)))"
    by (rule sum_list_by_key [OF \<open>distinct ?ks\<close>]) (auto simp: overview_records_def)
  moreover have "(\<Sum>k\<leftarrow>?ks. sum_list (map f (filter (\<lambda>t. t_wallet_id t = k) (filter p (transactions s))))) =
      (\<Sum>k\<leftarrow>?ks. sum_list (map f (filter (\<lambda>t. t_wallet_id t = k) (filter p (overview_records sp s)))))"
    by (intro arg_cong [of _ _ sum_list] map_cong refl) (simp only: own)
  ultimately show ?thesis by (simp add: comp_def)
qed

lemma buildOverview_views:
  assumes run: "buildOverview rt currency ws totals balances = Inr o'"
    and balance: "\<And>w. w \<in> set ws \<Longrightarrow> balances (w_id w) = Some (B w)"
    and total: "\<And>w. w \<in> set ws \<Longrightarrow> totals (w_id w) = Some (T w)"
  shows "list_all2 (\<lambda>w v. wb_wallet (ws_wallet v) = w \<and> toNumber rt (B w) = Inr (wb_balance (ws_wallet v)) \<and>
      toNumber rt (pt_spend (T w)) = Inr (ws_total_spend v) \<and>
      toNumber rt (pt_income (T w)) = Inr (ws_total_income v)) ws (wo_wallets o')"
    and "toNumber rt (\<Sum>w\<leftarrow>ws. B w) = Inr (wo_total_balance o')"
    and "wo_delta_percent o' = roundPercentToTenth (\<Sum>w\<leftarrow>ws. pt_income (T w) - pt_spend (T w))
      ((\<Sum>w\<leftarrow>ws. B w) - (\<Sum>w\<leftarrow>ws. pt_income (T w) - pt_spend (T w)))"
proof -
  have "and_then (map_throw (\<lambda>w.
         and_then (toNumber rt (B w)) (\<lambda>balance.
         and_then (toNumber rt (pt_spend (T w))) (\<lambda>spend.
         and_then (toNumber rt (pt_income (T w))) (\<lambda>income.
           Inr \<lparr>ws_wallet = \<lparr>wb_wallet = w, wb_balance = balance\<rparr>,
                ws_total_spend = spend, ws_total_income = income\<rparr>)))) ws) (\<lambda>summaries.
     and_then (toNumber rt (\<Sum>w\<leftarrow>ws. B w)) (\<lambda>total.
       Inr \<lparr>wo_total_balance = total, wo_total_balance_currency = cur_code currency,
            wo_delta_percent = roundPercentToTenth (\<Sum>w\<leftarrow>ws. pt_income (T w) - pt_spend (T w))
              ((\<Sum>w\<leftarrow>ws. B w) - (\<Sum>w\<leftarrow>ws. pt_income (T w) - pt_spend (T w))),
            wo_wallets = summaries\<rparr>)) = Inr o'"
    using run by (simp add: buildOverview_def Let_def balance total cong: map_throw_cong map_cong)
  then obtain summaries where views: "list_all2 (\<lambda>w v. \<exists>balance spend income. toNumber rt (B w) = Inr balance \<and>
        toNumber rt (pt_spend (T w)) = Inr spend \<and> toNumber rt (pt_income (T w)) = Inr income \<and>
        \<lparr>ws_wallet = \<lparr>wb_wallet = w, wb_balance = balance\<rparr>,
          ws_total_spend = spend, ws_total_income = income\<rparr> = v) ws summaries" "wo_wallets o' = summaries"
    and rest: "toNumber rt (\<Sum>w\<leftarrow>ws. B w) = Inr (wo_total_balance o')"
    "wo_delta_percent o' = roundPercentToTenth (\<Sum>w\<leftarrow>ws. pt_income (T w) - pt_spend (T w))
      ((\<Sum>w\<leftarrow>ws. B w) - (\<Sum>w\<leftarrow>ws. pt_income (T w) - pt_spend (T w)))"
    by (auto simp: and_then_eq_Inr map_throw_eq_Inr)
  show "list_all2 (\<lambda>w v. wb_wallet (ws_wallet v) = w \<and> toNumber rt (B w) = Inr (wb_balance (ws_wallet v)) \<and>
      toNumber rt (pt_spend (T w)) = Inr (ws_total_spend v) \<and>
      toNumber rt (pt_income (T w)) = Inr (ws_total_income v)) ws (wo_wallets o')"
    unfolding views(2) using views(1) by (rule list_all2_mono) auto
  show "toNumber rt (\<Sum>w\<leftarrow>ws. B w) = Inr (wo_total_balance o')"
    "wo_delta_percent o' = roundPercentToTenth (\<Sum>w\<leftarrow>ws. pt_income (T w) - pt_spend (T w))
      ((\<Sum>w\<leftarrow>ws. B w) - (\<Sum>w\<leftarrow>ws. pt_income (T w) - pt_spend (T w)))"
    using rest by simp_all
qed

text \<open>C34. The overview of a space agrees with its history: it lists exactly the wallets that are not
  deleted, each with the sum of its records, the total is the sum of all their records, and the
  percentage compares the net of the period, without initial balances, with the rest of the total.\<close>

theorem overview_totals:
  assumes "space_inv (s, used)" and "getOverview rt u sp from to s = Inr o'"
  shows "is_member sp u s \<and> map (\<lambda>v. wb_wallet (ws_wallet v)) (wo_wallets o') = getAllWallets sp s \<and>
    (\<forall>v \<in> set (wo_wallets o').
       toNumber rt (wallet_balance (w_id (wb_wallet (ws_wallet v))) s) = Inr (wb_balance (ws_wallet v))) \<and>
    (let total = sum_list (map signed_amount (overview_records sp s));
         net = sum_list (map signed_amount (filter (counted_in_period from to s) (overview_records sp s)))
     in toNumber rt total = Inr (wo_total_balance o') \<and>
       wo_delta_percent o' = roundPercentToTenth net (total - net))"
proof -
  let ?ws = "getAllWallets sp s"
  let ?rs = "\<lambda>w. filter (\<lambda>t. t_wallet_id t = w_id w) (filter (counted_in_period from to s) (transactions s))"
  have ids: "distinct (map w_id (rows (wallets s)))"
    using assms(1) by (simp add: space_inv_def catalog_distinct)
  from assms(2) obtain m where "find_member sp u s = Some m"
    by (auto simp: getOverview_def and_then_eq_Inr assertMembership_eq_Inr)
  then have member: "is_member sp u s" by (metis find_member_None option.distinct(1))
  have balance: "getBalances (map w_id ?ws) s (w_id w) = Some (wallet_balance (w_id w) s)"
    if "w \<in> set ?ws" for w using that by (simp add: getBalances_eq)
  have totals: "getPeriodTotals (map w_id ?ws) from to s (w_id w) = Some (period_totals_of (?rs w))"
    if "w \<in> set ?ws" for w
    using that by (auto simp: getPeriodTotals_eq counted_in_period_def conj_commute conj_left_commute
        intro!: arg_cong [of _ _ period_totals_of] filter_cong)
  have total: "(\<Sum>w\<leftarrow>?ws. wallet_balance (w_id w) s) = sum_list (map signed_amount (overview_records sp s))"
    using sum_by_wallet [OF ids, where sp = sp and f = signed_amount and p = "\<lambda>_. True"]
    by (simp add: wallet_balance_def)
  have net: "(\<Sum>w\<leftarrow>?ws. pt_income (period_totals_of (?rs w)) - pt_spend (period_totals_of (?rs w))) =
      sum_list (map signed_amount (filter (counted_in_period from to s) (overview_records sp s)))"
    unfolding period_net by (rule sum_by_wallet [OF ids])
  from assms(2) obtain currency where
    "buildOverview rt currency ?ws (getPeriodTotals (map w_id ?ws) from to s) (getBalances (map w_id ?ws) s) = Inr o'"
    unfolding getOverview_def Let_def by (elim and_thenE) (auto split: prod.splits)
  note views = buildOverview_views [OF this balance totals, unfolded total net]
  have "map (\<lambda>v. wb_wallet (ws_wallet v)) (wo_wallets o') = ?ws"
    using views(1) by (auto simp: list_all2_conv_all_nth intro!: nth_equalityI)
  moreover have "\<forall>v \<in> set (wo_wallets o').
       toNumber rt (wallet_balance (w_id (wb_wallet (ws_wallet v))) s) = Inr (wb_balance (ws_wallet v))"
    using views(1) by (auto simp: list_all2_conv_all_nth in_set_conv_nth)
  ultimately show ?thesis using member views(2,3) by (simp add: Let_def)
qed

lemma ex_overview_runs: "\<exists>o'. getOverview ex_rt 1 1 0 9000 ex_db = Inr o'"
  by (simp add: getOverview_def buildOverview_def assertMembership_def getSpace_def find_space_def
      find_currency_def assertFound_def getBalances_eq getPeriodTotals_eq getAllWallets_def Let_def
      lookup_eval ex_tables)

lemma overview_totals_witness:
  "\<exists>o'. getOverview ex_rt 1 1 0 9000 ex_db = Inr o' \<and> wo_total_balance o' = - 5 / 2 \<and> wo_delta_percent o' = 0"
proof -
  obtain o' where run: "getOverview ex_rt 1 1 0 9000 ex_db = Inr o'" using ex_overview_runs by blast
  have "overview_records 1 ex_db = [ex_transaction ''a'' 1000 250]"
    by (simp add: overview_records_def getAllWallets_def ex_tables)
  moreover have "counted_in_period 0 9000 ex_db (ex_transaction ''a'' 1000 250)"
    by (simp add: counted_in_period_def find_category_def ex_tables)
  moreover have "signed_amount (ex_transaction ''a'' 1000 250) = - 250"
    by (simp add: signed_amount_def ex_transaction_def)
  ultimately show ?thesis
    using overview_totals [OF ex_space_inv run] run by (auto simp: Let_def roundPercentToTenth_def)
qed

text \<open>A wallet of the space that was deleted, and the ids of the records of a wallet.\<close>

definition closed_wallet :: "nat \<Rightarrow> db \<Rightarrow> bool" where
  "closed_wallet i s \<longleftrightarrow> (\<exists>w. find_wallet i s = Some w \<and> w_is_deleted w)"

definition records_of :: "nat \<Rightarrow> db \<Rightarrow> string set" where
  "records_of i s = t_id ` {t \<in> set (transactions s). t_wallet_id t = i}"

lemma closed_wallet_update:
  assumes "closed_wallet i s" and "wallets s' = (wallets s)\<lparr>rows := update_rows p f (rows (wallets s))\<rparr>"
    and "\<And>w. w_id (f w) = w_id w" and "\<And>w. w_is_deleted w \<Longrightarrow> w_is_deleted (f w)"
  shows "closed_wallet i s'"
proof -
  from assms(1) obtain w where "find_wallet i s = Some w" "w_is_deleted w" by (auto simp: closed_wallet_def)
  then have "find_wallet i s' = Some (if p w then f w else w)" and "w_is_deleted (if p w then f w else w)"
    using assms(2-4) by (simp_all add: find_wallet_def find_row_update_key)
  then show ?thesis unfolding closed_wallet_def by blast
qed

lemma closed_wallet_same:
  "wallets s' = wallets s \<Longrightarrow> closed_wallet i s' = closed_wallet i s"
  by (simp add: closed_wallet_def find_wallet_def)

lemma records_of_same: "same_history s s' \<Longrightarrow> records_of i s' = records_of i s"
  by (simp add: records_of_def same_history_def)

text \<open>An edit moves a record into an active wallet only.\<close>

lemma update_moves:
  assumes inv: "history_inv s" and run: "update_work rt now sp j v dto s = Inr (r, s')"
    and closed: "closed_wallet i s"
  shows "records_of i s' \<subseteq> records_of i s"
proof -
  from run obtain original changes locked where
    original: "getOneInSpace sp j s = Some original"
    and locked: "locked = lockRows w_id (t_wallet_id (lt_transaction original) #
           (case tch_wallet_id changes of None \<Rightarrow> [] | Some w \<Rightarrow> [w])) (rows (wallets s))"
    and moved: "\<And>w. tch_wallet_id changes = Some w \<Longrightarrow> \<exists>x. find_row (\<lambda>x. w_id x = w) locked = Some x \<and>
           w_space_id x = sp \<and> \<not> w_is_deleted x"
    and s': "(if changes \<noteq> no_changes then update_transaction j changes s else Inr s) = Inr s'"
    by (rule update_workE) (rule that, assumption, assumption, blast, assumption)
  have active: "tch_wallet_id changes \<noteq> Some i"
  proof
    assume "tch_wallet_id changes = Some i"
    with moved obtain x where x: "find_row (\<lambda>x. w_id x = i) locked = Some x" "\<not> w_is_deleted x" by blast
    then have "x \<in> set (rows (wallets s))" "w_id x = i"
      using find_row_Some [OF x(1)] by (auto simp: locked lockRows_def)
    then have "find_wallet i s = Some x"
      using find_row_key [of w_id "rows (wallets s)" x] inv by (auto simp: history_inv_def find_wallet_def)
    with closed x(2) show False by (simp add: closed_wallet_def)
  qed
  show ?thesis
  proof (cases "changes = no_changes")
    case True
    with s' show ?thesis by simp
  next
    case False
    with s' obtain a where "s' = s\<lparr>transactions := update_rows (\<lambda>t. t_id t = j) (apply_changes changes a) (transactions s)\<rparr>"
      by (auto simp: update_transaction_eq)
    with active show ?thesis
      by (cases "tch_wallet_id changes") (auto simp: records_of_def set_update_rows split: if_splits)
  qed
qed

text \<open>No step opens a closed wallet or gives it a record.\<close>

lemma history_step_closed:
  assumes inv: "state_inv c" and step: "history_step rt c c'" and closed: "closed_wallet i (fst c)"
  shows "records_of i (fst c') \<subseteq> records_of i (fst c)"
  using step
proof (cases rule: history_step_cases)
  case (idle t)
  then show ?thesis by (simp add: records_of_def)
next
  case (create now uuid sp dto r s1 now' t t')
  let ?s = "(fst c)\<lparr>idempotency_keys := t\<rparr>"
  from create(3) obtain w cat d a where allowed: "create_allowed rt uuid sp dto ?s w cat d a"
    and s1: "s1 = after_create now uuid sp dto d a ?s" by (rule create_workE)
  have "history_inv ?s" using inv by (simp add: state_inv_def)
  from create_allowed_found [OF this allowed] have "find_wallet (cd_wallet_id dto) (fst c) = Some w"
    by (simp add: find_wallet_def)
  moreover have "\<not> w_is_deleted w" using allowed by (simp add: create_allowed_def)
  ultimately have "cd_wallet_id dto \<noteq> i" using closed by (auto simp: closed_wallet_def)
  then show ?thesis by (auto simp: records_of_def create(4) s1)
next
  case (update now sp j v dto' r' s1 t t')
  let ?s = "(fst c)\<lparr>idempotency_keys := t\<rparr>"
  have "history_inv ?s" and "closed_wallet i ?s"
    using inv closed by (simp_all add: state_inv_def closed_wallet_def find_wallet_def)
  from update_moves [OF this(1) update(1) this(2)] show ?thesis by (simp add: records_of_def update(2))
next
  case (remove now sp j v r'' s1 t t')
  from remove(1) show ?thesis by (rule remove_workE) (auto simp: records_of_def remove(2))
qed

lemma space_step_closed:
  assumes inv: "space_inv c" and step: "space_step rt c c'" and closed: "closed_wallet i (fst c)"
  shows "closed_wallet i (fst c') \<and> records_of i (fst c') \<subseteq> records_of i (fst c)"
proof -
  have ok: "catalog_ok s" if "c = (s, used)" for s used using inv that by (simp add: space_inv_def)
  have quiet: ?thesis if "c = (s, used)" "c' = (s', used')" "same_history s s'" "wallets s' = wallets s" for s used s' used'
    using closed that(1,2) records_of_same [OF that(3)] closed_wallet_same [OF that(4)] by simp
  from step show ?thesis
  proof cases
    case transaction
    have history: "state_inv c" using inv by (simp add: space_inv_def)
    have "closed_wallet i (fst c')"
      using closed closed_wallet_same [OF history_step_catalog(1) [OF history transaction]] by simp
    with history_step_closed [OF history transaction closed] show ?thesis by simp
  next
    case (create_wallet now uuid u sp cw s r1 s' used)
    from create_wallet(3) obtain cents ts where
      "parseMoney (cw_initial_balance cw) = Inr cents" and s': "s' = s\<lparr>wallets := insert_auto (new_wallet now sp cw) (wallets s), transactions := transactions s @ ts\<rparr>"
      and none: "cents = 0 \<longrightarrow> ts = []"
      and some: "cents \<noteq> 0 \<longrightarrow> (\<exists>t. ts = [t] \<and> t_wallet_id t = next_id (wallets s))"
      by (rule create_wallet_effect) (rule that, assumption, assumption, simp, rule impI, erule (1) impE,
          elim exE conjE, intro exI conjI, assumption+)
    from none some have new: "\<forall>t \<in> set ts. t_wallet_id t = next_id (wallets s)"
      by (cases "cents = 0") auto
    from closed create_wallet(1) obtain w where w: "find_wallet i s = Some w" "w_is_deleted w"
      by (auto simp: closed_wallet_def)
    then have "i < next_id (wallets s)"
      using ok [OF create_wallet(1)] by (auto simp: catalog_ok_def table_ok_def find_wallet_def dest!: find_row_Some)
    with w new show ?thesis
      using create_wallet(1,2) by (auto simp: s' closed_wallet_def records_of_def find_wallet_def find_row_append)
  next
    case (update_wallet now u sp j pw s r2 s' used)
    note keeps = update_wallet_keeps [OF update_wallet(3)]
    have "closed_wallet i s'"
      using closed update_wallet(1) by (intro closed_wallet_update [OF _ keeps(4)]) simp_all
    with records_of_same [OF keeps(3)] show ?thesis using update_wallet(1,2) by simp
  next
    case (delete_wallet now u sp j s r3 s' used)
    note keeps = delete_wallet_keeps [OF delete_wallet(3)]
    have "closed_wallet i s'"
      using closed delete_wallet(1) by (intro closed_wallet_update [OF _ keeps(4)]) simp_all
    with records_of_same [OF keeps(3)] show ?thesis using delete_wallet(1,2) by simp
  next
    case create_category
    then show ?thesis using quiet create_category_keeps(2,3) [OF ok] by metis
  next
    case update_category
    then show ?thesis using quiet update_category_keeps(2,3) [OF ok] by metis
  next
    case remove_category
    then show ?thesis using quiet deleteOrArchive_keeps(2,3) [OF ok] by metis
  next
    case reorder
    then show ?thesis using quiet reorder_keeps(2,3) [OF ok] by metis
  next
    case create_limit
    then show ?thesis using quiet create_limit_keeps(2,3) [OF ok] by metis
  next
    case update_limit
    then show ?thesis using quiet update_limit_keeps(2,3) [OF ok] by metis
  next
    case remove_limit
    then show ?thesis using quiet remove_limit_keeps(2,3) [OF ok] by metis
  qed
qed

interpretation closed: transition_order "space_step rt"
  "\<lambda>c. space_inv c \<and> closed_wallet i (fst c)" "\<lambda>c c'. records_of i (fst c') \<subseteq> records_of i (fst c)" for rt i
  by unfold_locales (auto dest: space_step_keeps space_step_closed)

text \<open>C33. Deleting a wallet of the space closes it for good and loses nothing: the history, the other
  wallets and every balance stay as they are, the wallet is listed no more, and after any later
  writes it is still deleted and holds only records it held before.\<close>

theorem deleted_wallet_frozen:
  assumes "space_inv (s, used)" and "delete_wallet now u sp i s = Inr (x, s')"
    and "(space_step rt)\<^sup>*\<^sup>* (s', used) (s'', used'')"
  shows "transactions s' = transactions s \<and> (\<forall>j. wallet_balance j s' = wallet_balance j s) \<and>
    (\<forall>j. j \<noteq> i \<longrightarrow> find_wallet j s' = find_wallet j s) \<and>
    (\<forall>w \<in> set (getAllWallets sp s'). w_id w \<noteq> i) \<and>
    (\<exists>w. find_wallet i s'' = Some w \<and> w_is_deleted w) \<and>
    (\<forall>t \<in> set (transactions s''). t_wallet_id t = i \<longrightarrow>
       (\<exists>t' \<in> set (transactions s). t_id t' = t_id t \<and> t_wallet_id t' = i))"
proof -
  note keeps = delete_wallet_keeps [OF assms(2)]
  have ok: "catalog_ok s" using assms(1) by (simp add: space_inv_def)
  have inv: "space_inv (s', used)"
    using space_step_keeps [OF assms(1) space_step.delete_wallet [OF assms(2)]] ..
  from assms(2) obtain w where locked: "head_opt (lockRows w_id [i] (rows (wallets s))) = Some w"
    by (auto simp: delete_wallet_def write_in_space_eq_Inr and_then_eq_Inr lockSpaceWallet_def assertBelongsToSpace_eq_Inr)
  then have w: "find_wallet i s = Some w" using locked_wallet [OF catalog_distinct(1) [OF ok]] by simp
  have found: "find_wallet j s' = map_option (\<lambda>w. if w_id w = i then w\<lparr>w_is_deleted := True,
      w_deleted_at := Some (to_seconds now), w_updated_at := current_second now\<rparr> else w) (find_wallet j s)" for j
    by (simp add: find_wallet_def keeps(4) find_row_update_key)
  have "w_id w = i" using w unfolding find_wallet_def by (auto dest: find_row_Some)
  with found [of i] w have closed: "closed_wallet i s'" by (simp add: closed_wallet_def)
  note reached = closed.reachable [OF assms(3), of i] closed.steps_below [OF assms(3), of i]
  have "\<exists>w. find_wallet i s'' = Some w \<and> w_is_deleted w" and sub: "records_of i s'' \<subseteq> records_of i s'"
    using reached inv closed by (simp_all add: closed_wallet_def)
  moreover have "\<forall>j. j \<noteq> i \<longrightarrow> find_wallet j s' = find_wallet j s"
  proof (intro allI impI)
    fix j assume "j \<noteq> i"
    then show "find_wallet j s' = find_wallet j s"
      using found [of j] by (cases "find_wallet j s") (auto simp: find_wallet_def dest: find_row_Some)
  qed
  moreover have "\<forall>w \<in> set (getAllWallets sp s'). w_id w \<noteq> i"
  proof
    fix x assume "x \<in> set (getAllWallets sp s')"
    then have x: "x \<in> set (rows (wallets s'))" "\<not> w_is_deleted x" by (simp_all add: getAllWallets_def)
    have "catalog_ok s'" using inv by (simp add: space_inv_def)
    from find_row_key [OF catalog_distinct(1) [OF this] x(1)]
    have "find_wallet (w_id x) s' = Some x" by (simp add: find_wallet_def)
    with closed x(2) show "w_id x \<noteq> i" by (auto simp: closed_wallet_def)
  qed
  moreover have same: "transactions s' = transactions s" using keeps(3) by (simp add: same_history_def)
  moreover have "\<exists>t' \<in> set (transactions s). t_id t' = t_id t \<and> t_wallet_id t' = i"
    if "t \<in> set (transactions s'')" "t_wallet_id t = i" for t
  proof -
    have "t_id t \<in> records_of i s''" using that by (auto simp: records_of_def)
    then have "t_id t \<in> records_of i s'" using sub by blast
    then show ?thesis unfolding records_of_def same by auto
  qed
  ultimately show ?thesis by (intro conjI) (simp_all add: wallet_balance_def)
qed

lemma deleted_wallet_frozen_witness:
  "\<exists>s'. delete_wallet 6000 1 1 7 ex_db = Inr ((), s') \<and> transactions s' = [ex_transaction ''a'' 1000 250] \<and>
     getAllWallets 1 s' = [ex_wallet 8]"
proof -
  obtain s' where run: "delete_wallet 6000 1 1 7 ex_db = Inr ((), s')"
    and listed: "getAllWallets 1 s' = [ex_wallet 8]"
    by (simp add: delete_wallet_def write_in_space_def lockMembership_def lockSpaceWallet_def lockRows_def
        assertBelongsToSpace_def getAllWallets_def update_rows_def lookup_eval ex_tables)
  have "transactions s' = transactions ex_db"
    using deleted_wallet_frozen [OF ex_space_inv run rtranclp.rtrancl_refl] by blast
  with run listed show ?thesis by (simp add: ex_db_def)
qed

section \<open>Categories\<close>

text \<open>C35. Removing a category never fails for a category the user may edit, and never breaks the history:
  it is archived when a record uses it and deleted otherwise, it leaves its limit, a limit left
  without categories goes, and no record and no other category changes.\<close>

theorem category_removal:
  assumes "space_inv (s, used)"
  shows "((\<exists>archived s'. deleteOrArchive now u sp i s = Inr (archived, s')) \<longleftrightarrow>
      is_member sp u s \<and> (\<exists>c. find_category i s = Some c \<and> cat_space_id c = sp \<and> \<not> cat_is_system c)) \<and>
    (\<forall>archived s'. deleteOrArchive now u sp i s = Inr (archived, s') \<longrightarrow>
      (archived \<longleftrightarrow> (\<exists>t \<in> set (transactions s). t_category_id t = i)) \<and> transactions s' = transactions s \<and>
      find_category i s' = (if archived then map_option (\<lambda>c. c\<lparr>cat_is_active := False,
        cat_archived_at := Some (to_seconds now), cat_updated_at := current_second now\<rparr>) (find_category i s) else None) \<and>
      (\<forall>j. j \<noteq> i \<longrightarrow> find_category j s' = find_category j s) \<and>
      rows (limits s') = unlink i (rows (limits s)) \<and>
      (\<forall>l \<in> set (rows (limits s')). i \<notin> set (l_categories l) \<and> (l_limit_type l = CATEGORY \<longrightarrow> l_categories l \<noteq> [])))"
proof (intro conjI allI impI)
  have ok: "catalog_ok s" using assms by (simp add: space_inv_def)
  show "(\<exists>archived s'. deleteOrArchive now u sp i s = Inr (archived, s')) \<longleftrightarrow>
      is_member sp u s \<and> (\<exists>c. find_category i s = Some c \<and> cat_space_id c = sp \<and> \<not> cat_is_system c)"
    unfolding deleteOrArchive_def write_in_space_eq_Inr deleteOrArchive_effect [OF ok] and_then_eq_Inr
      getEditableCategory_eq_Inr Let_def by auto
  fix archived s' assume run: "deleteOrArchive now u sp i s = Inr (archived, s')"
  note keeps = deleteOrArchive_keeps [OF ok run]
  show "archived \<longleftrightarrow> (\<exists>t \<in> set (transactions s). t_category_id t = i)" by (rule keeps(4))
  show "transactions s' = transactions s" using keeps(2) by (simp add: same_history_def)
  show "rows (limits s') = unlink i (rows (limits s))" using keeps(7) by simp
  have found: "find_category j s' = (if j = i then (if archived then map_option (\<lambda>c. c\<lparr>cat_is_active := False,
        cat_archived_at := Some (to_seconds now), cat_updated_at := current_second now\<rparr>) (find_category i s) else None)
      else find_category j s)" for j
  proof (cases archived)
    case True
    then have "find_category j s' = map_option (\<lambda>c. if cat_id c = i then c\<lparr>cat_is_active := False,
        cat_archived_at := Some (to_seconds now), cat_updated_at := current_second now\<rparr> else c) (find_category j s)"
      by (simp add: find_category_def keeps(6) find_row_update_key)
    with True show ?thesis by (cases "find_category j s") (auto dest: find_category_in)
  next
    case False
    then show ?thesis by (simp add: find_category_def keeps(5) find_row_delete_key)
  qed
  then show "find_category i s' = (if archived then map_option (\<lambda>c. c\<lparr>cat_is_active := False,
        cat_archived_at := Some (to_seconds now), cat_updated_at := current_second now\<rparr>) (find_category i s) else None)"
    by simp
  show "find_category j s' = find_category j s" if "j \<noteq> i" for j using found that by simp
  have "limits_ok (lookup_category s) (rows (limits s))" using ok by (simp add: catalog_ok_def)
  note free = limits_ok_unlink(2) [OF this, of i]
  have rows: "rows (limits s') = unlink i (rows (limits s))" using keeps(7) by simp
  show "\<forall>l \<in> set (rows (limits s')). i \<notin> set (l_categories l) \<and> (l_limit_type l = CATEGORY \<longrightarrow> l_categories l \<noteq> [])"
    unfolding rows using free by (auto simp: unlink_def)
qed

lemma category_removal_witness:
  "\<exists>s'. deleteOrArchive 6000 1 1 2 ex_limits_db = Inr (True, s') \<and> map l_id (rows (limits s')) = [1] \<and>
     (\<exists>c. find_category 2 s' = Some c \<and> \<not> cat_is_active c)"
proof -
  have "find_category 2 ex_limits_db = Some (ex_category 2 ''Food'' EXPENSE False)"
    and "is_member 1 1 ex_limits_db" and "t_category_id (ex_transaction ''a'' 1000 250) = 2"
    and "transactions ex_limits_db = [ex_transaction ''a'' 1000 250]"
    and "unlink 2 (rows (limits ex_limits_db)) = [ex_limit 1 OTHERS []]"
    by (simp_all add: find_category_def is_member_def unlink_def ex_limits ex_tables)
  note facts = this and removal = category_removal [OF ex_limits_inv, of 6000 1 1 2]
  from removal facts(1,2) obtain archived s' where run: "deleteOrArchive 6000 1 1 2 ex_limits_db = Inr (archived, s')"
    by (auto simp: ex_category_def)
  from removal run facts have "archived" and "rows (limits s') = [ex_limit 1 OTHERS []]"
    and "find_category 2 s' = map_option (\<lambda>c. c\<lparr>cat_is_active := False, cat_archived_at := Some (to_seconds 6000),
      cat_updated_at := current_second 6000\<rparr>) (find_category 2 ex_limits_db)"
    by simp_all
  with run facts(1) show ?thesis by (simp add: ex_limit_def)
qed

lemma index_of_nth: "distinct ids \<Longrightarrow> k < length ids \<Longrightarrow> index_of (ids ! k) ids = Some k"
proof (induction ids arbitrary: k)
  case (Cons i ids)
  then show ?case by (cases k) auto
qed simp

lemma index_of_None: "index_of i ids = None \<longleftrightarrow> i \<notin> set ids"
  by (induction ids) auto

lemma set_sort_sort: "index_of (cat_id c) ids = Some k \<Longrightarrow> cat_sort (set_sort now p ids c) = p + k + 1"
  by (simp add: set_sort_def)

lemma set_sort_other: "cat_id c \<notin> set ids \<Longrightarrow> set_sort now p ids c = c"
  using index_of_None [of "cat_id c" ids] by (simp add: set_sort_def)

lemma find_category_rows:
  "catalog_ok s \<Longrightarrow> c \<in> set (rows (categories s)) \<Longrightarrow> find_category (cat_id c) s = Some c"
  using find_row_key [of cat_id "rows (categories s)" c] by (simp add: find_category_def catalog_distinct(2))

text \<open>The rows of the named categories, when all of them are there.\<close>

lemma named_rows:
  assumes ok: "catalog_ok s" and "distinct ids" and found: "\<And>i. i \<in> set ids \<Longrightarrow> find_category i s \<noteq> None"
  shows "length (filter (\<lambda>c. cat_id c \<in> set ids) (rows (categories s))) = length ids"
proof -
  let ?found = "filter (\<lambda>c. cat_id c \<in> set ids) (rows (categories s))"
  have "set ids \<subseteq> cat_id ` set ?found"
    using found by (force dest: find_category_in)
  then have "set (map cat_id ?found) = set ids" by auto
  moreover have "distinct (map cat_id ?found)"
    by (rule distinct_map_filter [OF catalog_distinct(2) [OF ok]])
  ultimately show ?thesis
    using distinct_card [of "map cat_id ?found"] distinct_card [OF \<open>distinct ids\<close>] by simp
qed

lemma reorder_accepts:
  assumes ok: "catalog_ok s" and member: "is_member sp u s" and "distinct ids"
    and all: "\<And>i. i \<in> set ids \<Longrightarrow> \<exists>c. find_category i s = Some c \<and> cat_space_id c = sp \<and> \<not> cat_is_system c \<and>
      cat_is_active c \<and> cat_transaction_type c = ty"
  shows "\<exists>s'. reorder now u sp ids s = Inr ((), s')"
proof (cases "ids = []")
  case True
  then show ?thesis using member by (simp add: reorder_def reorder_work_def write_in_space_member)
next
  case False
  let ?found = "filter (\<lambda>c. cat_id c \<in> set ids) (rows (categories s))"
  have len: "length ?found = length ids"
    using all by (intro named_rows [OF ok \<open>distinct ids\<close>]) fastforce
  have each: "cat_space_id c = sp \<and> \<not> cat_is_system c \<and> cat_is_active c \<and> cat_transaction_type c = ty"
    if "c \<in> set ?found" for c
    using all [of "cat_id c"] find_category_rows [OF ok, of c] that by auto
  then have "set (map cat_transaction_type ?found) \<subseteq> {ty}" by auto
  then have "card (set (map cat_transaction_type ?found)) \<le> 1"
    using card_mono [of "{ty}"] by simp
  then have types: "length (dedup (map cat_transaction_type ?found)) \<le> 1"
    using distinct_card [OF distinct_dedup, of "map cat_transaction_type ?found"] by simp
  have checks: "for_each (\<lambda>category. and_then (assertBelongsToSpace cat_space_id (Some category) sp FORBIDDEN_CATEGORY)
      (\<lambda>_. guard (\<not> cat_is_system category) (api_error CATEGORY_IS_SYSTEM BAD_REQUEST))) ?found = Inr ()"
    using each by (auto simp: for_each_eq_Inr and_then_eq_Inr assertBelongsToSpace_eq_Inr guard_eq_Inr)
  have active: "\<not> (\<exists>c \<in> set ?found. \<not> cat_is_active c)" using each by blast
  show ?thesis
    unfolding reorder_def write_in_space_member [OF member] reorder_work_def Let_def checks
    using False len types active by (simp del: map_map set_filter)
qed

lemma reorder_listed:
  assumes ok: "catalog_ok s" and ok': "catalog_ok s'" and "distinct ids"
    and all: "\<And>i. i \<in> set ids \<Longrightarrow> \<exists>c. find_category i s = Some c \<and> cat_space_id c = sp \<and> \<not> cat_is_system c"
    and s': "s' = s\<lparr>categories := (categories s)\<lparr>rows := map (set_sort now p ids) (rows (categories s))\<rparr>\<rparr>"
  shows "filter (\<lambda>i. i \<in> set ids) (map cat_id (listed sp s')) = ids"
proof -
  let ?key = "\<lambda>c. (cat_sort c, cat_id c)"
  let ?row = "\<lambda>i. set_sort now p ids (the (find_category i s))"
  let ?ys = "filter (\<lambda>c. cat_id c \<in> set ids) (filter (\<lambda>c. cat_space_id c = sp \<and> \<not> cat_is_system c) (rows (categories s')))"
  have found: "find_category i s' = map_option (set_sort now p ids) (find_category i s)" for i
    by (simp add: s' find_category_def find_row_map_key)
  have row: "cat_id (?row i) = i \<and> find_category i s' = Some (?row i) \<and> cat_space_id (?row i) = sp \<and>
      \<not> cat_is_system (?row i)" if "i \<in> set ids" for i
    using all [OF that] by (auto simp: found dest: find_category_in)
  have ids: "map cat_id (map ?row ids) = ids"
    unfolding map_map comp_def using row by (intro map_idI) blast
  have "distinct (map cat_id ?ys)"
    by (intro distinct_map_filter catalog_distinct(2) [OF ok'])
  then have distinct: "distinct ?ys" and inj: "inj_on ?key (set ?ys)"
    by (auto simp: distinct_map inj_on_def)
  have "set ?ys = set (map ?row ids)"
  proof (intro set_eqI iffI)
    fix c assume "c \<in> set ?ys"
    then have c: "c \<in> set (rows (categories s'))" "cat_id c \<in> set ids" by auto
    then have "?row (cat_id c) = c" using find_category_rows [OF ok' c(1)] row [OF c(2)] by simp
    then have "c \<in> ?row ` set ids" by (rule image_eqI [OF sym c(2)])
    then show "c \<in> set (map ?row ids)" by simp
  next
    fix c assume "c \<in> set (map ?row ids)"
    then obtain i where "i \<in> set ids" "c = ?row i" by auto
    with row [of i] show "c \<in> set ?ys" by (auto dest: find_category_in)
  qed
  moreover have "distinct (map ?row ids)"
    using \<open>distinct ids\<close> ids by (metis distinct_map)
  ultimately have same: "mset ?ys = mset (map ?row ids)"
    using distinct set_eq_iff_mset_eq_distinct [of ?ys "map ?row ids"] by blast
  have sort: "cat_sort (?row (ids ! k)) = p + k + 1" if "k < length ids" for k
    using row [of "ids ! k"] that index_of_nth [OF \<open>distinct ids\<close> that] by (intro set_sort_sort) simp
  have "sorted (map ?key (map ?row ids))"
    unfolding sorted_iff_nth_mono_less using sort by (auto simp: less_eq_prod_def)
  then have "sort_key ?key ?ys = map ?row ids"
    by (intro sort_key_inj_key_eq same inj)
  then show ?thesis
    using ids by (simp add: listed_def filter_map filter_sort comp_def)
qed

text \<open>C36. Categories are listed in the order they were put in: after a reorder, the categories of the request
  come in exactly its order wherever they are listed, and no other category has changed its place
  number. The request is accepted exactly when it names different active categories of the space,
  all incomes or all expenses, none of them the system category.\<close>

theorem reorder_lists:
  assumes "space_inv (s, used)"
  shows "((\<exists>s'. reorder now u sp ids s = Inr ((), s')) \<longleftrightarrow> is_member sp u s \<and> distinct ids \<and>
      (\<exists>ty. \<forall>i \<in> set ids. \<exists>c. find_category i s = Some c \<and> cat_space_id c = sp \<and> \<not> cat_is_system c \<and>
         cat_is_active c \<and> cat_transaction_type c = ty)) \<and>
    (\<forall>s'. reorder now u sp ids s = Inr ((), s') \<longrightarrow>
      filter (\<lambda>i. i \<in> set ids) (map cat_id (listed sp s')) = ids \<and>
      (\<forall>i c. i \<notin> set ids \<longrightarrow> find_category i s = Some c \<longrightarrow> find_category i s' = Some c))"
proof (intro conjI allI impI iffI)
  have ok: "catalog_ok s" using assms by (simp add: space_inv_def)
  { assume "\<exists>s'. reorder now u sp ids s = Inr ((), s')"
    then obtain s' where run: "reorder now u sp ids s = Inr ((), s')" ..
    show "is_member sp u s" using run by (simp add: reorder_def write_in_space_eq_Inr)
    note effect = reorder_effect [OF ok run]
    show "distinct ids" by (cases "ids = []") (auto elim: effect)
    show "\<exists>ty. \<forall>i \<in> set ids. \<exists>c. find_category i s = Some c \<and> cat_space_id c = sp \<and> \<not> cat_is_system c \<and>
        cat_is_active c \<and> cat_transaction_type c = ty"
      by (cases "ids = []") (auto elim!: effect)
  next
    assume "is_member sp u s \<and> distinct ids \<and>
      (\<exists>ty. \<forall>i \<in> set ids. \<exists>c. find_category i s = Some c \<and> cat_space_id c = sp \<and> \<not> cat_is_system c \<and>
         cat_is_active c \<and> cat_transaction_type c = ty)"
    then show "\<exists>s'. reorder now u sp ids s = Inr ((), s')" using reorder_accepts [OF ok] by metis
  next
    fix s' assume run: "reorder now u sp ids s = Inr ((), s')"
    have ok': "catalog_ok s'" by (rule reorder_keeps [OF ok run])
    obtain p where s': "s' = s\<lparr>categories := (categories s)\<lparr>rows := map (set_sort now p ids) (rows (categories s))\<rparr>\<rparr>"
      using reorder_rows [OF ok run] ..
    show "filter (\<lambda>i. i \<in> set ids) (map cat_id (listed sp s')) = ids"
    proof (cases "ids = []")
      case False
      from reorder_effect [OF ok run this] obtain ty where "distinct ids"
        "\<And>i. i \<in> set ids \<Longrightarrow> \<exists>c. find_category i s = Some c \<and> cat_space_id c = sp \<and> \<not> cat_is_system c" by metis
      then show ?thesis using reorder_listed [OF ok ok' _ _ s'] by blast
    qed simp
    fix i c assume "i \<notin> set ids" and "find_category i s = Some c"
    then have "set_sort now p ids c = c"
      by (intro set_sort_other) (auto dest: find_category_in)
    with \<open>find_category i s = Some c\<close> show "find_category i s' = Some c"
      by (simp add: s' find_category_def find_row_map_key)
  }
qed

lemma reorder_lists_witness:
  "\<exists>s'. reorder 6000 1 1 [2] ex_limits_db = Inr ((), s') \<and> 2 \<in> set (map cat_id (listed 1 s'))"
proof -
  have "find_category 2 ex_limits_db = Some (ex_category 2 ''Food'' EXPENSE False)" and "is_member 1 1 ex_limits_db"
    by (simp_all add: find_category_def is_member_def ex_limits ex_tables)
  then obtain s' where run: "reorder 6000 1 1 [2] ex_limits_db = Inr ((), s')"
    using reorder_lists [OF ex_limits_inv, of 6000 1 1 "[2]"] by (auto simp: ex_category_def)
  with reorder_lists [OF ex_limits_inv, of 6000 1 1 "[2]"]
  have "filter (\<lambda>i. i \<in> set [2]) (map cat_id (listed 1 s')) = [2]" by blast
  then have "2 \<in> set (filter (\<lambda>i. i \<in> set [2]) (map cat_id (listed 1 s')))" by simp
  then have "2 \<in> set (map cat_id (listed 1 s'))" unfolding set_filter by blast
  with run show ?thesis by blast
qed

section \<open>Limits\<close>

text \<open>What the request for a new limit has to meet.\<close>

definition limit_allowed :: "nat \<Rightarrow> CreateLimitDto \<Rightarrow> db \<Rightarrow> bool" where
  "limit_allowed sp dto s \<longleftrightarrow> (let cs = (case nl_category_ids dto of None \<Rightarrow> [] | Some cs \<Rightarrow> cs) in
     distinct cs \<and> (\<exists>a. to_column (nl_amount dto) = Inr a) \<and>
     (1 < length cs \<longrightarrow> nl_name dto \<noteq> None \<and> nl_name dto \<noteq> Some []) \<and>
     (\<forall>i \<in> set cs. \<exists>c. find_category i s = Some c \<and> cat_space_id c = sp \<and> cat_is_active c \<and> \<not> cat_is_system c) \<and>
     (\<forall>l \<in> set (rows (limits s)). l_space_id l = sp \<longrightarrow>
        (if cs = [] then l_limit_type l \<noteq> OTHERS else set (l_categories l) \<inter> set cs = {})))"

lemma create_limit_allowed:
  assumes "catalog_ok s" and "create_limit now u sp dto s = Inr (x, s')"
  shows "limit_allowed sp dto s"
  using assms
proof (rule create_limit_effect)
  fix l cs assume cs: "cs = (case nl_category_ids dto of None \<Rightarrow> [] | Some cs \<Rightarrow> cs)" and "distinct cs"
    and l: "l_space_id l = sp" "l_categories l = cs" "l_limit_type l = limit_type_of cs"
      "l_name l = limit_name_of cs (nl_name dto)" "to_column (nl_amount dto) = Inr (l_amount l)"
      "limit_ok (lookup_category s) l"
    and other: "\<And>l'. l' \<in> set (rows (limits s)) \<Longrightarrow> compatible l l'"
  have "if cs = [] then l_limit_type l' \<noteq> OTHERS else set (l_categories l') \<inter> set cs = {}"
    if "l' \<in> set (rows (limits s))" "l_space_id l' = sp" for l'
    using other [OF that(1)] that(2) l by (auto simp: compatible_def)
  with \<open>distinct cs\<close> l show "limit_allowed sp dto s"
    unfolding limit_allowed_def Let_def cs [symmetric]
    by (auto simp: limit_ok_def lookup_category_def limit_name_of_def)
qed

lemma allowed_create_limit:
  assumes ok: "catalog_ok s" and member: "is_member sp u s" and allowed: "limit_allowed sp dto s"
  shows "\<exists>x s'. create_limit now u sp dto s = Inr (x, s')"
proof -
  define cs where "cs = (case nl_category_ids dto of None \<Rightarrow> [] | Some cs \<Rightarrow> cs)"
  note allowed = allowed [unfolded limit_allowed_def Let_def cs_def [symmetric]]
  from allowed obtain a where a: "to_column (nl_amount dto) = Inr a" by blast
  let ?i = "next_id (limits s)" and ?l = "new_limit now sp cs (nl_name dto) a (next_id (limits s))"
  let ?s1 = "s\<lparr>limits := insert_auto (new_limit now sp cs (nl_name dto) a) (limits s)\<rparr>"
  have checks: "assertCategoriesOwnership sp (nl_category_ids dto) s = Inr ()"
    "assertHasNameIfGroup cs (nl_name dto) = Inr ()"
    "(if cs = [] then assertNoOtherTotalLimit sp None s else assertCategoriesAvailable sp cs None s) = Inr ()"
    using allowed
    by (auto simp: assertCategoriesOwnership_eq_Inr cs_def [symmetric] lookup_category_def assertHasNameIfGroup_eq_Inr
        assertNoOtherTotalLimit_eq_Inr assertCategoriesAvailable_eq_Inr)
  have fresh: "l_id l \<noteq> ?i" if "l \<in> set (rows (limits s))" for l
    using ok that by (auto simp: catalog_ok_def table_ok_def)
  have new: "l_id ?l = ?i" "l_categories ?l = []" by (simp_all add: new_limit_def)
  define s2 where "s2 = (if cs = [] then ?s1 else
      ?s1\<lparr>limits := (limits ?s1)\<lparr>rows := set_categories (\<lambda>old. old @ cs) ?i (rows (limits ?s1))\<rparr>\<rparr>)"
  have s2: "(if cs = [] then Inr ?s1 else add_categories ?i cs ?s1) = Inr s2"
    using allowed fresh new by (auto simp: s2_def add_categories_def)
  have "find_row (\<lambda>l. l_id l = ?i) (rows (limits s)) = None"
    unfolding find_row_None using fresh by blast
  then have "find_row (\<lambda>l. l_id l = ?i) (rows (limits ?s1)) = Some ?l"
    by (simp add: find_row_append new)
  then have "find_limit ?i s2 \<noteq> None"
    by (cases "cs = []") (simp_all add: s2_def find_limit_def set_categories_def find_row_update_key)
  then obtain x where "getExistingLimit ?i s2 = Inr x"
    by (auto simp: getExistingLimit_eq_Inr)
  then show ?thesis
    unfolding create_limit_def write_in_space_member [OF member] create_limit_work_def Let_def cs_def [symmetric]
      checks and_then_simps a s2 by simp
qed

text \<open>C37. A limit is created exactly when its categories are different, active, not the system category and
  of the space, a group has a name, the amount fits its column, and no other limit of the space has
  one of the categories, or is a total limit already when none is named. It then holds exactly the
  request, and nothing else changes.\<close>

theorem create_limit_iff:
  assumes "space_inv (s, used)"
  shows "((\<exists>x s'. create_limit now u sp dto s = Inr (x, s')) \<longleftrightarrow> is_member sp u s \<and> limit_allowed sp dto s) \<and>
    (\<forall>x s'. create_limit now u sp dto s = Inr (x, s') \<longrightarrow>
      (\<exists>l. s' = s\<lparr>limits := (limits s)\<lparr>rows := rows (limits s) @ [l], next_id := Suc (next_id (limits s))\<rparr>\<rparr> \<and>
         lc_limit x = l \<and> l_space_id l = sp \<and> to_column (nl_amount dto) = Inr (l_amount l) \<and>
         l_categories l = (case nl_category_ids dto of None \<Rightarrow> [] | Some cs \<Rightarrow> cs) \<and>
         l_name l = limit_name_of (l_categories l) (nl_name dto)))"
proof (intro conjI allI impI iffI)
  have ok: "catalog_ok s" using assms by (simp add: space_inv_def)
  { assume "\<exists>x s'. create_limit now u sp dto s = Inr (x, s')"
    then obtain x s' where run: "create_limit now u sp dto s = Inr (x, s')" by blast
    show "is_member sp u s" using run by (simp add: create_limit_def write_in_space_eq_Inr)
    show "limit_allowed sp dto s" by (rule create_limit_allowed [OF ok run])
  next
    assume "is_member sp u s \<and> limit_allowed sp dto s"
    then show "\<exists>x s'. create_limit now u sp dto s = Inr (x, s')" using allowed_create_limit [OF ok] by blast
  next
    fix x s' assume run: "create_limit now u sp dto s = Inr (x, s')"
    show "\<exists>l. s' = s\<lparr>limits := (limits s)\<lparr>rows := rows (limits s) @ [l], next_id := Suc (next_id (limits s))\<rparr>\<rparr> \<and>
         lc_limit x = l \<and> l_space_id l = sp \<and> to_column (nl_amount dto) = Inr (l_amount l) \<and>
         l_categories l = (case nl_category_ids dto of None \<Rightarrow> [] | Some cs \<Rightarrow> cs) \<and>
         l_name l = limit_name_of (l_categories l) (nl_name dto)"
      using ok run by (rule create_limit_effect) (intro exI conjI, assumption+, simp_all)
  }
qed

lemma create_limit_iff_witness:
  "\<exists>x s'. create_limit 6000 1 1 \<lparr>nl_category_ids = Some [2], nl_name = None, nl_amount = ''3''\<rparr> ex_db = Inr (x, s') \<and>
     l_amount (lc_limit x) = 300"
proof -
  let ?dto = "\<lparr>nl_category_ids = Some [2], nl_name = None, nl_amount = ''3''\<rparr>"
  have "is_member 1 1 ex_db \<and> limit_allowed 1 ?dto ex_db"
    by (simp add: is_member_def limit_allowed_def find_category_def ex_tables)
  with create_limit_iff [OF ex_space_inv, of 6000 1 1 ?dto] obtain x s' where
    run: "create_limit 6000 1 1 ?dto ex_db = Inr (x, s')" by blast
  with create_limit_iff [OF ex_space_inv, of 6000 1 1 ?dto] have "to_column ''3'' = Inr (l_amount (lc_limit x))"
    by fastforce
  with run show ?thesis by simp
qed

text \<open>The expenses of a space in a period that satisfy a condition.\<close>

definition expenses :: "nat \<Rightarrow> int \<Rightarrow> int \<Rightarrow> db \<Rightarrow> (transaction \<Rightarrow> bool) \<Rightarrow> int" where
  "expenses sp from to s p = sum_list (map t_amount (filter (\<lambda>t. t_transaction_type t = EXPENSE \<and>
     from \<le> t_timestamp t \<and> t_timestamp t \<le> to \<and>
     (\<exists>w. find_wallet (t_wallet_id t) s = Some w \<and> w_space_id w = sp) \<and> p t) (transactions s)))"

lemma expenses_by_category:
  "(case map_of (getExpensesByCategory sp from to s) c of None \<Rightarrow> 0 | Some n \<Rightarrow> n) =
    expenses sp from to s (\<lambda>t. t_category_id t = c)"
proof -
  let ?rs = "filter (\<lambda>t. (case find_wallet (t_wallet_id t) s of None \<Rightarrow> False
                       | Some w \<Rightarrow> w_space_id w = sp \<and> t_transaction_type t = EXPENSE \<and>
                           from \<le> t_timestamp t \<and> t_timestamp t \<le> to)) (transactions s)"
  have rows: "filter (\<lambda>t. t_category_id t = c) ?rs = filter (\<lambda>t. t_transaction_type t = EXPENSE \<and>
     from \<le> t_timestamp t \<and> t_timestamp t \<le> to \<and>
     (\<exists>w. find_wallet (t_wallet_id t) s = Some w \<and> w_space_id w = sp) \<and> t_category_id t = c) (transactions s)"
    unfolding filter_filter by (intro filter_cong) (auto split: option.splits)
  show ?thesis
  proof (cases "c \<in> t_category_id ` set ?rs")
    case False
    then have "filter (\<lambda>t. t_category_id t = c) ?rs = []" by (rule sum_list_no_rows)
    with False rows show ?thesis by (simp add: getExpensesByCategory_def map_of_group_by expenses_def)
  next
    case True
    with rows show ?thesis by (simp add: getExpensesByCategory_def map_of_group_by expenses_def)
  qed
qed

lemma expenses_of_categories:
  assumes "distinct cs"
  shows "(\<Sum>c\<leftarrow>cs. expenses sp from to s (\<lambda>t. t_category_id t = c)) =
    expenses sp from to s (\<lambda>t. t_category_id t \<in> set cs)"
proof -
  let ?p = "\<lambda>t. t_transaction_type t = EXPENSE \<and> from \<le> t_timestamp t \<and> t_timestamp t \<le> to \<and>
     (\<exists>w. find_wallet (t_wallet_id t) s = Some w \<and> w_space_id w = sp)"
  let ?rs = "filter (\<lambda>t. ?p t \<and> t_category_id t \<in> set cs) (transactions s)"
  have "(\<Sum>c\<leftarrow>cs. sum_list (map t_amount (filter (\<lambda>t. t_category_id t = c) ?rs))) = sum_list (map t_amount ?rs)"
    by (rule sum_list_by_key [OF assms]) auto
  moreover have "sum_list (map t_amount (filter (\<lambda>t. t_category_id t = c) ?rs)) =
      expenses sp from to s (\<lambda>t. t_category_id t = c)" if "c \<in> set cs" for c
    unfolding expenses_def filter_filter using that
    by (intro arg_cong [of _ _ sum_list] arg_cong [of _ _ "map t_amount"] filter_cong) auto
  ultimately show ?thesis
    by (simp add: expenses_def conj_assoc cong: map_cong)
qed

text \<open>The view of a limit of which \<open>spent\<close> is spent.\<close>

definition shows_limit :: "runtime \<Rightarrow> limit \<Rightarrow> int \<Rightarrow> LimitView \<Rightarrow> bool" where
  "shows_limit rt l spent v \<longleftrightarrow> lv_id v = l_id l \<and> lv_name v = l_name l \<and> lv_amount v = formatMoney (l_amount l) \<and>
     toNumber rt spent = Inr (lv_spent v) \<and> lv_in_percent v = floorPercent spent (l_amount l)"

lemma buildLimitView_shows:
  "buildLimitView rt (load_limit s l) spent = Inr v \<Longrightarrow> shows_limit rt l spent v"
  by (auto simp: buildLimitView_def and_then_eq_Inr shows_limit_def load_limit_def parseMoney_def
      matchMoney_formatMoney)

lemma find_row_map: "find_row p (map f rs) = map_option f (find_row (\<lambda>r. p (f r)) rs)"
  by (induction rs) auto

lemma limit_amounts: "map_throw (\<lambda>l. parseMoney (formatMoney (l_amount (lc_limit l)))) ls = Inr amounts \<Longrightarrow>
    amounts = map (\<lambda>l. l_amount (lc_limit l)) ls"
proof -
  assume "map_throw (\<lambda>l. parseMoney (formatMoney (l_amount (lc_limit l)))) ls = Inr amounts"
  moreover have "map_throw (\<lambda>l. parseMoney (formatMoney (l_amount (lc_limit l)))) ls =
      (Inr (map (\<lambda>l. l_amount (lc_limit l)) ls) :: exception + _)"
    by (rule map_throw_total) (simp add: parseMoney_def matchMoney_formatMoney)
  ultimately show ?thesis by simp
qed

text \<open>C38. The summary of limits agrees with the history: a limit of categories shows the expenses of exactly
  its categories in the month, the total limit those of all categories, each with its floored
  percentage, and the warning appears exactly when the category limits together exceed the total
  limit.\<close>

theorem summary_of_limits:
  assumes "space_inv (s, used)" and "getSummary rt cal month_of u sp tz now s = Inr (period, sd)"
  shows "(let limits_of = (\<lambda>ty. filter (\<lambda>l. l_space_id l = sp \<and> l_limit_type l = ty) (rows (limits s)));
      spent = expenses sp (mp_from period) (mp_to period) s in
    is_member sp u s \<and>
    list_all2 (\<lambda>l v. shows_limit rt l (spent (\<lambda>t. t_category_id t \<in> set (l_categories l))) v)
      (limits_of CATEGORY) (sd_categories sd) \<and>
    (case limits_of OTHERS of
       [] \<Rightarrow> sd_total sd = None \<and> sd_over_allocation sd = None
     | l # _ \<Rightarrow> (\<exists>v. sd_total sd = Some v \<and> shows_limit rt l (spent (\<lambda>_. True)) v) \<and>
         (sd_over_allocation sd \<noteq> None \<longleftrightarrow> l_amount l < (\<Sum>l\<leftarrow>limits_of CATEGORY. l_amount l))))"
proof -
  let ?ls = "\<lambda>ty. filter (\<lambda>l. l_space_id l = sp \<and> l_limit_type l = ty) (rows (limits s))"
  let ?spent = "expenses sp (mp_from period) (mp_to period) s"
  let ?totals = "getExpensesByCategory sp (mp_from period) (mp_to period) s"
  have ok: "limits_ok (lookup_category s) (rows (limits s))"
    using assms(1) by (simp add: space_inv_def catalog_ok_def)
  from assms(2) obtain m where "find_member sp u s = Some m"
    and run: "calculateSpending rt (getAllLimits sp s) ?totals = Inr sd"
    unfolding getSummary_def Let_def by (auto simp: and_then_eq_Inr assertMembership_eq_Inr)
  then have member: "is_member sp u s" by (metis find_member_None option.distinct(1))
  have total: "sum_list (map snd ?totals) = ?spent (\<lambda>_. True)"
    by (simp add: getExpensesByCategory_total expenses_def)
  have categories: "(\<Sum>c\<leftarrow>lc_categories (load_limit s l). case map_of ?totals (cat_id c) of None \<Rightarrow> 0 | Some n \<Rightarrow> n) =
      ?spent (\<lambda>t. t_category_id t \<in> set (l_categories l))" if "l \<in> set (rows (limits s))" for l
  proof -
    have l: "limit_ok (lookup_category s) l" using ok that by (simp add: limits_ok_def)
    have "(\<Sum>c\<leftarrow>lc_categories (load_limit s l). case map_of ?totals (cat_id c) of None \<Rightarrow> 0 | Some n \<Rightarrow> n) =
        (\<Sum>c\<leftarrow>map cat_id (lc_categories (load_limit s l)). ?spent (\<lambda>t. t_category_id t = c))"
      by (simp add: expenses_by_category comp_def)
    also have "\<dots> = ?spent (\<lambda>t. t_category_id t \<in> set (l_categories l))"
      unfolding loaded_categories [OF l] using l by (intro expenses_of_categories) (simp add: limit_ok_def)
    finally show ?thesis .
  qed
  have lc [simp]: "lc_limit (load_limit s l) = l" for l by (simp add: load_limit_def)
  have all: "filter (\<lambda>l. l_limit_type (lc_limit l) = CATEGORY) (getAllLimits sp s) = map (load_limit s) (?ls CATEGORY)"
    by (simp add: getAllLimits_def filter_map comp_def conj_commute)
  have tot: "find_row (\<lambda>l. l_limit_type (lc_limit l) = OTHERS) (getAllLimits sp s) =
      (case ?ls OTHERS of [] \<Rightarrow> None | l # _ \<Rightarrow> Some (load_limit s l))"
  proof -
    have "find_row p (filter q rs) = (case filter (\<lambda>r. q r \<and> p r) rs of [] \<Rightarrow> None | r # _ \<Rightarrow> Some r)"
      for p q and rs :: "limit list" by (induction rs) auto
    then show ?thesis by (simp add: getAllLimits_def find_row_map split: list.split)
  qed
  note run = run [unfolded calculateSpending_def Let_def tot all total]
  from run obtain views amounts tv ta over where
    views: "map_throw (\<lambda>l. buildLimitView rt l (\<Sum>c\<leftarrow>lc_categories l. case map_of ?totals (cat_id c) of None \<Rightarrow> 0 | Some n \<Rightarrow> n))
        (map (load_limit s) (?ls CATEGORY)) = Inr views"
    and tv: "(case (case ?ls OTHERS of [] \<Rightarrow> None | l # _ \<Rightarrow> Some (load_limit s l)) of None \<Rightarrow> Inr None
         | Some l \<Rightarrow> and_then (buildLimitView rt l (?spent (\<lambda>_. True))) (\<lambda>v. Inr (Some v))) = (Inr tv :: exception + _)"
    and amounts: "map_throw (\<lambda>l. parseMoney (formatMoney (l_amount (lc_limit l)))) (map (load_limit s) (?ls CATEGORY)) = Inr amounts"
    and over: "(case (case ?ls OTHERS of [] \<Rightarrow> None | l # _ \<Rightarrow> Some (load_limit s l)) of None \<Rightarrow> Inr None
         | Some l \<Rightarrow> and_then (parseMoney (formatMoney (l_amount (lc_limit l)))) (\<lambda>a. Inr (Some a))) =
        (Inr ta :: exception + _)"
      "(case ta of None \<Rightarrow> Inr None
         | Some a \<Rightarrow> if a < sum_list amounts
             then and_then (toNumber rt (sum_list amounts)) (\<lambda>c. and_then (toNumber rt (sum_list amounts - a)) (\<lambda>d.
               Inr (Some \<lparr>oa_category_total = c, oa_difference = d\<rparr>)))
             else Inr None) = (Inr over :: exception + _)"
    and "Inr \<lparr>sd_total = tv, sd_categories = views, sd_over_allocation = over\<rparr> = (Inr sd :: exception + _)"
    by (elim and_thenE) (rule that, assumption+)
  then have sd: "sd_total sd = tv" "sd_categories sd = views" "sd_over_allocation sd = over" by auto
  have "list_all2 (\<lambda>l v. shows_limit rt l (?spent (\<lambda>t. t_category_id t \<in> set (l_categories l))) v)
      (?ls CATEGORY) (sd_categories sd)"
    unfolding sd list_all2_conv_all_nth
  proof (intro conjI allI impI)
    from views have each: "list_all2 (\<lambda>l v. buildLimitView rt (load_limit s l) (\<Sum>c\<leftarrow>lc_categories (load_limit s l).
        case map_of ?totals (cat_id c) of None \<Rightarrow> 0 | Some n \<Rightarrow> n) = Inr v) (?ls CATEGORY) views"
      by (simp add: map_throw_eq_Inr list_all2_map1)
    then show "length (?ls CATEGORY) = length views" by (rule list_all2_lengthD)
    fix k assume k: "k < length (?ls CATEGORY)"
    then have "?ls CATEGORY ! k \<in> set (?ls CATEGORY)" by (rule nth_mem)
    then have "?ls CATEGORY ! k \<in> set (rows (limits s))" by simp
    with list_all2_nthD [OF each k]
    show "shows_limit rt (?ls CATEGORY ! k) (?spent (\<lambda>t. t_category_id t \<in> set (l_categories (?ls CATEGORY ! k)))) (views ! k)"
      by (intro buildLimitView_shows) (simp only: categories)
  qed
  moreover have sum: "sum_list amounts = (\<Sum>l\<leftarrow>?ls CATEGORY. l_amount l)"
    using limit_amounts [OF amounts] by (simp add: comp_def)
  have "case ?ls OTHERS of [] \<Rightarrow> sd_total sd = None \<and> sd_over_allocation sd = None
     | l # _ \<Rightarrow> (\<exists>v. sd_total sd = Some v \<and> shows_limit rt l (?spent (\<lambda>_. True)) v) \<and>
         (sd_over_allocation sd \<noteq> None \<longleftrightarrow> l_amount l < (\<Sum>l\<leftarrow>?ls CATEGORY. l_amount l))"
  proof (cases "?ls OTHERS")
    case Nil
    with tv over show ?thesis by (simp add: sd)
  next
    case (Cons l rest)
    with tv obtain v where "sd_total sd = Some v" "shows_limit rt l (?spent (\<lambda>_. True)) v"
      by (auto simp: sd and_then_eq_Inr dest: buildLimitView_shows)
    moreover have "sd_over_allocation sd \<noteq> None \<longleftrightarrow> l_amount l < sum_list amounts"
      using over Cons by (auto simp: sd and_then_eq_Inr parseMoney_def matchMoney_formatMoney split: if_splits)
    ultimately show ?thesis by (simp add: Cons sum)
  qed
  ultimately show ?thesis using member by (simp add: Let_def)
qed

lemma ex_spent: "expenses 1 0 86399999 ex_limits_db (\<lambda>t. t_category_id t \<in> set [2]) = 250"
  by (simp add: expenses_def find_wallet_def ex_limits_db_def ex_tables)

lemma ex_summary_runs: "\<exists>p sd. getSummary ex_rt ex_calendar (\<lambda>_ _. (0, 1)) 1 1 ''UTC'' 6000 ex_limits_db = Inr (p, sd) \<and>
    mp_from p = 0 \<and> mp_to p = 86399999"
  by (simp add: getSummary_def assertMembership_def monthPeriodAt_def calculateSpending_def buildLimitView_def
      getAllLimits_def load_limit_def List.map_filter_def parseMoney_def matchMoney_formatMoney Let_def
      ex_calendar_def find_member_def ex_limits ex_tables find_category_def)

lemma summary_of_limits_witness:
  "\<exists>p sd v. getSummary ex_rt ex_calendar (\<lambda>_ _. (0, 1)) 1 1 ''UTC'' 6000 ex_limits_db = Inr (p, sd) \<and>
     sd_categories sd = [v] \<and> lv_id v = 2 \<and> lv_spent v = 5 / 2 \<and> lv_in_percent v = 2"
proof -
  obtain p sd where run: "getSummary ex_rt ex_calendar (\<lambda>_ _. (0, 1)) 1 1 ''UTC'' 6000 ex_limits_db = Inr (p, sd)"
    and p: "mp_from p = 0" "mp_to p = 86399999"
    using ex_summary_runs by blast
  have one: "filter (\<lambda>l. l_space_id l = 1 \<and> l_limit_type l = CATEGORY) (rows (limits ex_limits_db)) = [ex_limit 2 CATEGORY [2]]"
    by (simp add: ex_limits_db_def ex_table_def ex_limit_def)
  have cats: "l_categories (ex_limit 2 CATEGORY [2]) = [2]" by (simp add: ex_limit_def)
  from summary_of_limits [OF ex_limits_inv run, unfolded Let_def one p]
  have "list_all2 (\<lambda>l v. shows_limit ex_rt l (expenses 1 0 86399999 ex_limits_db (\<lambda>t. t_category_id t \<in> set (l_categories l))) v)
      [ex_limit 2 CATEGORY [2]] (sd_categories sd)" by blast
  then obtain v where "sd_categories sd = [v]" "shows_limit ex_rt (ex_limit 2 CATEGORY [2]) 250 v"
    by (auto simp: list_all2_Cons1 cats ex_spent [simplified])
  with run show ?thesis
    by (auto simp: shows_limit_def ex_limit_def floorPercent_def floorDiv_def big_div_def)
qed

end
