(* ===== verification/CoreProperties.thy ===== *)
theory CoreProperties
  imports TransactionProperties
begin

text \<open>
  The properties of what the services share: money on the wire and its percentages, the retried unit
  of work, and idempotency keys.
\<close>

section \<open>Money\<close>

text \<open>C40. Money survives the wire: every amount is printed as text that parses back to it, an amount a
  column can hold is accepted as input, and accepted input is never negative, never too large, and
  read the same by both parsers.\<close>

theorem money_round_trip:
  "matchMoney (formatMoney c) = Some c \<and>
   (0 \<le> c \<and> c \<le> MAX_MONEY_INPUT_CENTS \<longleftrightarrow> parseMoneyInput (formatMoney c) = Some c) \<and>
   (parseMoneyInput x = Some d \<longrightarrow> matchMoney x = Some d \<and> 0 \<le> d \<and> d \<le> MAX_MONEY_INPUT_CENTS)"
  using matchMoney_formatMoney parseMoneyInput_formatMoney parseMoneyInput_range matchMoney_of_input by blast

lemma money_round_trip_witness: "matchMoney ''12.3'' = Some 1230 \<and> parseMoneyInput (formatMoney 1230) = Some 1230"
proof -
  have "parseMoneyInput ''12.3'' = Some 1230" by (simp add: money_eval)
  with money_round_trip [of 1230 "''12.3''" 1230] show ?thesis
    by (simp add: MAX_MONEY_INPUT_CENTS_def)
qed

text \<open>Percentages are rounded as documented whatever the signs: \<open>floorPercent\<close> is the floor of the
  exact percentage, and \<open>roundPercentToTenth\<close> the nearest number of tenths, halves up, though the
  division of the language truncates towards zero.\<close>

theorem percent_rounding:
  assumes "whole \<noteq> 0"
  shows "floorPercent part whole = \<lfloor>100 * real_of_int part / real_of_int whole\<rfloor> \<and>
    roundPercentToTenth part whole = \<lfloor>1000 * real_of_int part / real_of_int whole + 1 / 2\<rfloor>"
proof -
  have "real_of_int (part * 2000 + whole) / real_of_int (whole * 2) =
      1000 * real_of_int part / real_of_int whole + 1 / 2"
    using assms by (simp add: field_simps)
  with assms show ?thesis
    by (simp add: floorPercent_def roundPercentToTenth_def floorDiv_floor mult.commute)
qed

lemma percent_rounding_witness: "floorPercent (- 1) 3 = - 34 \<and> roundPercentToTenth (- 1) 3 = - 333"
proof -
  have "\<lfloor>100 * real_of_int (- 1) / real_of_int 3\<rfloor> = - 34"
    by (simp add: floor_eq_iff)
  moreover have "\<lfloor>1000 * real_of_int (- 1) / real_of_int 3 + 1 / 2\<rfloor> = - 333"
    by (simp add: floor_eq_iff)
  ultimately show ?thesis using percent_rounding [of 3 "- 1"] by simp
qed

section \<open>The unit of work\<close>

text \<open>C39. A unit of work ends after at most five attempts. Only attempts that ended in a deadlock or a
  changed lock set are repeated, and such an attempt leaves nothing behind; the result is the commit
  or the rollback of the last attempt in the state other transactions had made by then. A deadlock,
  or a changed lock set, is reported only after three attempts failed.\<close>

theorem write_transaction_ends:
  "\<exists>k \<le> 4. (\<forall>j < k. \<exists>e. work j (committed_by_others env 0 j s) = Inl e \<and> (isDeadlock e \<or> e = LockSetChanged)) \<and>
    runWriteTransaction env work s = transact (work k) (committed_by_others env 0 k s) \<and>
    (\<forall>e. fst (runWriteTransaction env work s) = Inl e \<longrightarrow> isDeadlock e \<or> e = LockSetChanged \<longrightarrow> 2 \<le> k)"
proof -
  obtain k where "k \<le> (MAX_ATTEMPTS - 1 - 0) + (MAX_ATTEMPTS - 1 - 0)"
    and "ended_at env work 0 k s (runWriteTransaction env work s)"
    and "seen_enough 0 0 k (fst (runWriteTransaction env work s))"
    using write_loop_ends [of 0 0 env work 0 s] unfolding runWriteTransaction_def by blast
  then show ?thesis
    by (intro exI [of _ k]) (auto simp: ended_at_def seen_enough_def fails_with_def retriable_def MAX_ATTEMPTS_def)
qed

text \<open>A unit that meets a changed lock set twice and then succeeds.\<close>

definition ex_unit :: "nat \<Rightarrow> nat \<Rightarrow> exception + nat \<times> nat" where
  "ex_unit n s = (if n < 2 then Inl LockSetChanged else Inr (s, s + 1))"

lemma write_transaction_ends_witness:
  "runWriteTransaction (\<lambda>_ s. s + 10) ex_unit 0 = (Inr 30, 31)"
proof -
  obtain k where "\<forall>j < k. \<exists>e. ex_unit j (committed_by_others (\<lambda>_ s. s + 10) 0 j 0) = Inl e"
    and run: "runWriteTransaction (\<lambda>_ s. s + 10) ex_unit 0 = transact (ex_unit k) (committed_by_others (\<lambda>_ s. s + 10) 0 k 0)"
    and enough: "\<forall>e. fst (runWriteTransaction (\<lambda>_ s. s + 10) ex_unit 0) = Inl e \<longrightarrow>
      isDeadlock e \<or> e = LockSetChanged \<longrightarrow> 2 \<le> k"
    using write_transaction_ends [of ex_unit "\<lambda>_ s. s + 10" 0] by blast
  then have "j < k \<Longrightarrow> j < 2" for j by (auto simp: ex_unit_def split: if_splits)
  then have "k \<le> 2" by (meson not_le less_irrefl)
  moreover have "2 \<le> k"
  proof (rule ccontr)
    assume "\<not> 2 \<le> k"
    then have "fst (runWriteTransaction (\<lambda>_ s. s + 10) ex_unit 0) = Inl LockSetChanged"
      by (simp add: run ex_unit_def)
    with enough \<open>\<not> 2 \<le> k\<close> show False by blast
  qed
  ultimately have "k = 2" by simp
  with run show ?thesis by (simp add: ex_unit_def numeral_2_eq_2)
qed

section \<open>Idempotency keys\<close>

text \<open>C9. A repeated request is answered and not run again. After a create with an \<open>Idempotency-Key\<close>
  succeeded, and for twenty-four hours, the same request with that key changes nothing and is answered
  with the body of the first, whatever else was written in between; another request with the key is
  refused with \<open>IDEMPOTENCY_KEY_REUSED\<close>.\<close>

theorem repeated_create_is_answered:
  assumes "rt_claims rt = (\<lambda>_ t. t)" and "wo_idempotencyKey options = Some key"
    and "create rt to_json now uuid u sp dto options s = Inr (Fresh r, s')"
    and "find_row (in_scope sc) (rows (idempotency_keys s2)) = find_row (in_scope sc) (rows (idempotency_keys s'))"
    and "sc = \<lparr>sc_user_id = u, sc_space_id = sp, sc_operation = ''transactions.create'', sc_idempotency_key = key\<rparr>"
    and "is_member sp u s2" and "later < now + IDEMPOTENCY_KEY_TTL_MS"
  shows "create rt to_json later uuid' u sp dto options s2 = Inr (Replayed (Some (to_json r)), s2) \<and>
    (hashPayload (rt_digest rt) (create_payload dto') \<noteq> hashPayload (rt_digest rt) (create_payload dto) \<longrightarrow>
     create rt to_json later uuid' u sp dto' options s2 = Inl (api_error IDEMPOTENCY_KEY_REUSED CONFLICT))"
proof -
  have member: "lockMembership sp u s3 = Inr m \<Longrightarrow> is_member sp u s3" for s3 m
    by (metis find_member_None lockMembership_eq_Inr option.distinct(1))
  obtain m where m: "lockMembership sp u s2 = Inr m"
    using assms(6) by (metis find_member_None lockMembership_eq_Inr option.exhaust)
  have first: "run_idempotent (\<lambda>_ t. t) to_json sc (hashPayload (rt_digest rt) (create_payload dto)) now
      (create_work rt now uuid sp dto) s = Inr (Fresh r, s')"
    using assms(1-3,5) by (auto simp: create_def write_unit_def and_then_eq_Inr)
  note answered = keyed_create.first_run_stores [OF first]
  have stored: "answered_by sc (hashPayload (rt_digest rt) (create_payload dto)) (to_json r)
      (now + IDEMPOTENCY_KEY_TTL_MS) s2"
    using answered assms(4) by (simp add: answered_by_def)
  have run: "create rt to_json later uuid' u sp d options s2 = run_idempotent (\<lambda>_ t. t) to_json sc
      (hashPayload (rt_digest rt) (create_payload d)) later (create_work rt later uuid' sp d) s2" for d
    using assms(1,2,5) m by (simp add: create_def write_unit_def)
  show ?thesis
    unfolding run using run_replays [OF stored assms(7)] run_refuses_other_request [OF stored assms(7)] by blast
qed

definition ex_key :: WriteOptions where
  "ex_key = \<lparr>wo_idempotencyKey = Some ''k'', wo_expectedVersion = None\<rparr>"

lemma ex_keyed_create_runs:
  "\<exists>r s. create ex_rt to_json 6000 ''b'' 1 1 ex_create ex_key ex_db = Inr (Fresh r, s) \<and> is_member 1 1 s"
proof -
  let ?sc = "\<lparr>sc_user_id = 1, sc_space_id = 1, sc_operation = ''transactions.create'', sc_idempotency_key = ''k''\<rparr>"
  let ?t = "insert_auto (fresh_key ?sc (hashPayload (rt_digest ex_rt) (create_payload ex_create)) 6000) (idempotency_keys ex_db)"
  have claims: "rt_claims ex_rt = (\<lambda>_ t. t)" by (simp add: ex_rt_def)
  have claimed: "claim (\<lambda>_ t. t) ?sc (hashPayload (rt_digest ex_rt) (create_payload ex_create)) 6000 (idempotency_keys ex_db) =
      Inr (None, ?t)"
    by (simp add: claim_quiet ex_tables)
  obtain r s1 where "create_work ex_rt 6000 ''b'' 1 ex_create (ex_db\<lparr>idempotency_keys := ?t\<rparr>) = Inr (r, s1)"
    by (simp add: create_work_def
      assertOperationUnused_def assertWalletInSpace_def assertBelongsToSpace_def lockRows_def
      assertWalletActive_def assertUserCategory_def assertCategoryActive_def assertCategoryType_def
      insert_transaction_def recordOperation_def insert_operation_def getOneInSpace_def joined_def
      load_def List.map_filter_def Let_def toDate_def ex_create_def lookup_eval ex_tables)
  moreover from this have "members s1 = members ex_db" by (auto dest: create_work_keeps_members)
  ultimately show ?thesis
    using claimed
    by (simp add: create_def write_unit_def lockMembership_def ex_key_def run_idempotent_def claims lookup_eval
        is_member_def) (simp add: ex_tables)
qed

lemma repeated_create_is_answered_witness:
  "\<exists>r s. create ex_rt (\<lambda>_. JNull) 6000 ''b'' 1 1 ex_create ex_key ex_db = Inr (Fresh r, s) \<and>
     create ex_rt (\<lambda>_. JNull) 9000 ''c'' 1 1 ex_create ex_key s = Inr (Replayed (Some JNull), s)"
proof -
  obtain r s where run: "create ex_rt (\<lambda>_. JNull) 6000 ''b'' 1 1 ex_create ex_key ex_db = Inr (Fresh r, s)"
    and member: "is_member 1 1 s"
    using ex_keyed_create_runs by blast
  have "create ex_rt (\<lambda>_. JNull) 9000 ''c'' 1 1 ex_create ex_key s = Inr (Replayed (Some JNull), s)"
    using repeated_create_is_answered [OF _ _ run refl refl member, of "''k''" 9000 "''c''" ex_create]
    by (simp add: ex_rt_def ex_key_def IDEMPOTENCY_KEY_TTL_MS_def)
  with run show ?thesis by blast
qed

text \<open>Whatever other transactions do between the statements of a claim, the claim ends, and it answers
  only with the stored body of an unexpired key of the same scope and the same request, the table
  being as it is; otherwise it holds a fresh claim of its own or throws one of two errors.\<close>

theorem claim_answers_same_request:
  "(case claim env sc h now t of
      Inl e \<Rightarrow> e = api_error IDEMPOTENCY_KEY_REUSED CONFLICT \<or>
        e = JsError ''Error'' ''Could not claim idempotency key''
    | Inr (Some body, t') \<Rightarrow> \<exists>k. find_row (in_scope sc) (rows t') = Some k \<and> k_response_body k = body \<and>
        k_request_hash k = h \<and> now < k_expires_at k
    | Inr (None, t') \<Rightarrow> \<exists>k \<in> set (rows t'). k_request_hash k = h \<and> k_response_body k = None \<and>
        k_created_at k = now \<and> k_expires_at k = now + IDEMPOTENCY_KEY_TTL_MS)"
proof -
  have held: "claim_loop env sc h now stmt n t = Inr (None, t') \<Longrightarrow>
      \<exists>k \<in> set (rows t'). k_request_hash k = h \<and> k_response_body k = None \<and>
        k_created_at k = now \<and> k_expires_at k = now + IDEMPOTENCY_KEY_TTL_MS" for stmt n t t'
  proof (induction n arbitrary: stmt t)
    case (Suc n)
    let ?t1 = "env stmt t"
    show ?case
    proof (cases "insert_key sc h now ?t1")
      case (Inr t2)
      with Suc.prems have "t' = t2" by simp
      then show ?thesis using insert_key_holds [OF Inr] by (auto simp: holds_key_def dest!: find_row_Some)
    next
      case (Inl e)
      let ?t2 = "env (stmt + 1) ?t1"
      let ?t3 = "env (stmt + 2) ?t2"
      from Inl Suc.prems have dup: "isDuplicateKey e IDEMPOTENCY_KEY_SCOPE"
        by (auto split: if_splits)
      show ?thesis
      proof (cases "find_row (in_scope sc) (rows ?t2)")
        case None
        with Inl Suc.prems dup show ?thesis by (auto simp: Let_def dest: Suc.IH)
      next
        case (Some stored)
        let ?p = "\<lambda>k. k_id k = k_id stored \<and> k_expires_at k \<le> now"
        have expired: "k_expires_at stored \<le> now"
          using Inl Suc.prems dup Some by (auto simp: Let_def split: if_splits)
        show ?thesis
        proof (cases "snd (revive_key (k_id stored) h now ?t3) = 0")
          case True
          with Inl Suc.prems dup Some expired show ?thesis
            by (auto simp: Let_def split: prod.splits dest: Suc.IH)
        next
          case False
          with Inl Suc.prems dup Some expired have "t' = fst (revive_key (k_id stored) h now ?t3)"
            by (auto simp: Let_def split: prod.splits)
          moreover from False obtain k where "k \<in> set (rows ?t3)" "?p k"
            by (auto simp: revive_key_def Let_def filter_empty_conv)
          ultimately show ?thesis
            by (intro bexI [of _ "k\<lparr>k_request_hash := h, k_response_body := None,
               k_created_at := now, k_expires_at := now + IDEMPOTENCY_KEY_TTL_MS\<rparr>"])
              (auto simp: revive_key_def Let_def set_update_rows intro!: rev_image_eqI [of k])
        qed
      qed
    qed
  qed simp
  show ?thesis
    using claim_loop_error [of env sc h now 0 MAX_CLAIM_ATTEMPTS t] claim_loop_answer [of env sc h now 0 MAX_CLAIM_ATTEMPTS t]
      held [of 0 MAX_CLAIM_ATTEMPTS t]
    by (auto simp: claim_def split: sum.split option.split)
qed

text \<open>Two payloads that differ only in the order of their fields and in fields that are \<open>undefined\<close>, at any
  depth, have the same hash, so a client that serialises a retry differently is still answered.\<close>

theorem same_payload_same_hash:
  assumes "same_payload v w"
  shows "hashPayload digest v = hashPayload digest w"
  by (simp add: hashPayload_def canonical_same_payload [OF assms])

lemma same_payload_same_hash_witness:
  "hashPayload ex_digest (JObject [(''b'', JNull), (''a'', JString ''v''), (''c'', JUndefined)]) =
   hashPayload ex_digest (JObject [(''a'', JString ''v''), (''b'', JNull)])"
proof (rule same_payload_same_hash)
  show "same_payload (JObject [(''b'', JNull), (''a'', JString ''v''), (''c'', JUndefined)])
      (JObject [(''a'', JString ''v''), (''b'', JNull)])"
    by (rule same_payload.objects [where kvs' = "[(''a'', JString ''v''), (''b'', JNull)]"])
      (auto simp: defined_entries_def intro: same_payload.same)
qed

text \<open>The purge deletes only expired keys no request holds, oldest first and at most a thousand at a time,
  nothing while another run is going on, and all expired keys when they are a thousand or fewer and
  none is held.\<close>

theorem purge_deletes_expired:
  assumes "table_ok k_id t"
  shows "(\<forall>k \<in> set (rows t). now < k_expires_at k \<or> locked (k_id k) \<or> running \<longrightarrow>
      k \<in> set (rows (snd (purge running locked now t)))) \<and>
    fst (purge running locked now t) \<le> PURGE_BATCH \<and>
    set (rows (snd (purge running locked now t))) \<subseteq> set (rows t) \<and>
    (length (filter (\<lambda>k. k_expires_at k \<le> now) (rows t)) \<le> PURGE_BATCH \<and> \<not> running \<and> (\<forall>i. \<not> locked i) \<longrightarrow>
      (\<forall>k \<in> set (rows (snd (purge running locked now t))). now < k_expires_at k))"
proof (intro conjI ballI impI)
  fix k assume "k \<in> set (rows t)" and "now < k_expires_at k \<or> locked (k_id k) \<or> running"
  then show "k \<in> set (rows (snd (purge running locked now t)))"
    using purge_keeps [OF assms, of k now locked running] by (cases running) (auto simp: purge_def)
next
  show "fst (purge running locked now t) \<le> PURGE_BATCH"
    by (simp add: purge_eq length_purged_ids)
  show "set (rows (snd (purge running locked now t))) \<subseteq> set (rows t)"
    by (auto simp: purge_eq)
next
  fix k assume "length (filter (\<lambda>k. k_expires_at k \<le> now) (rows t)) \<le> PURGE_BATCH \<and> \<not> running \<and> (\<forall>i. \<not> locked i)"
    and "k \<in> set (rows (snd (purge running locked now t)))"
  moreover from this have "locked = (\<lambda>_. False)" by blast
  ultimately show "now < k_expires_at k" using purge_removes_all [of now t k] by simp
qed

definition ex_expired :: idempotency_key where
  "ex_expired = fresh_key \<lparr>sc_user_id = 1, sc_space_id = 1, sc_operation = ''x'', sc_idempotency_key = ''k''\<rparr>
     ''h'' (- IDEMPOTENCY_KEY_TTL_MS) 1"

lemma purge_deletes_expired_witness:
  "rows (snd (purge False (\<lambda>_. False) 5 (ex_table 3 [ex_expired]))) = []"
proof -
  let ?t = "ex_table 3 [ex_expired]"
  have "table_ok k_id ?t" and "length (filter (\<lambda>k. k_expires_at k \<le> 5) (rows ?t)) \<le> PURGE_BATCH"
    by (simp_all add: table_ok_def ex_table_def ex_expired_def fresh_key_def PURGE_BATCH_def)
  note purged = purge_deletes_expired [OF this(1), of 5 "\<lambda>_. False" False] and few = this(2)
  let ?left = "rows (snd (purge False (\<lambda>_. False) 5 ?t))"
  have "set ?left \<subseteq> {ex_expired}" using purged by (simp add: ex_table_def)
  moreover have "ex_expired \<notin> set ?left"
  proof
    assume "ex_expired \<in> set ?left"
    then have "5 < k_expires_at ex_expired" using purged few by blast
    then show False by (simp add: ex_expired_def fresh_key_def)
  qed
  ultimately have "\<not> x \<in> set ?left" for x by blast
  then show ?thesis by (cases ?left) (auto dest: meta_spec)
qed

end
