(* ===== verification/InviteDelivery.thy ===== *)
theory InviteDelivery
  imports Categories
begin

text \<open>
  Invitations and the delivery of their emails: \<open>modules/spaces/space-invite-state.ts\<close>,
  \<open>space-invite-links.ts\<close> and \<open>space-invite-delivery.ts\<close>. The rows of invitations are the queue of
  emails, the log of scheduled emails is what the limits count. An attempt is a few statements, each a
  transaction of its own, with the sending of the message between them, and other transactions may
  commit before any of them: \<open>env k\<close> is what they do before its \<open>k\<close>-th statement, counted from 0.
  \<open>clk k\<close> is the \<open>k\<close>-th reading of the clock.
\<close>

section \<open>Constants\<close>

definition MAX_MEMBERS_PER_SPACE :: nat where "MAX_MEMBERS_PER_SPACE = 20"
definition MAX_PENDING_INVITES_PER_SPACE :: nat where "MAX_PENDING_INVITES_PER_SPACE = 10"
definition SPACE_INVITE_TTL_MS :: int where "SPACE_INVITE_TTL_MS = 1000 * 60 * 60 * 24 * 7"
definition MAX_EMAIL_ATTEMPTS :: nat where "MAX_EMAIL_ATTEMPTS = 5"
definition RETRY_DELAYS_MS :: "int list" where
  "RETRY_DELAYS_MS = [60000, 5 * 60000, 30 * 60000, 2 * 60 * 60000]"
definition LEASE_MS :: int where "LEASE_MS = 2 * 60000"
definition POLL_BATCH :: nat where "POLL_BATCH = 20"
definition RESEND_COOLDOWN_MS :: int where "RESEND_COOLDOWN_MS = 60000"
definition LIMIT_WINDOW_MS :: int where "LIMIT_WINDOW_MS = 24 * 60 * 60000"
definition PER_INVITE :: nat where "PER_INVITE = 5"
definition PER_RECIPIENT :: nat where "PER_RECIPIENT = 10"
definition PER_SPACE :: nat where "PER_SPACE = 30"
definition PER_SENDER :: nat where "PER_SENDER = 50"
definition EMAIL_PURGE_BATCH :: nat where "EMAIL_PURGE_BATCH = 1000"

section \<open>Invitations\<close>

definition normalizeInviteEmail :: "string \<Rightarrow> string" where
  "normalizeInviteEmail email = to_lower (trim email)"

definition isInviteFor :: "space_invite \<Rightarrow> string \<Rightarrow> bool" where
  "isInviteFor invite email \<longleftrightarrow> normalizeInviteEmail (i_email invite) = normalizeInviteEmail email"

definition isActiveInvite :: "space_invite \<Rightarrow> int \<Rightarrow> bool" where
  "isActiveInvite invite now \<longleftrightarrow>
     i_accepted_at invite = None \<and> i_revoked_at invite = None \<and> now < i_expires_at invite"

text \<open>The row of \<open>newInvite\<close> with the database's defaults; \<open>code\<close> and \<open>nonce\<close> are random.\<close>

definition newInvite :: "int \<Rightarrow> string \<times> string \<Rightarrow> nat \<Rightarrow> string \<Rightarrow> nat \<Rightarrow> space_invite" where
  "newInvite now secrets spaceId email i = \<lparr>i_id = i, i_space_id = spaceId,
     i_email = normalizeInviteEmail email, i_code = fst secrets, i_role = MEMBER,
     i_expires_at = (now + SPACE_INVITE_TTL_MS) div 1000 * 1000, i_accepted_at = None,
     i_accepted_by_user_id = None, i_revoked_at = None, i_token_nonce = Some (snd secrets),
     i_email_status = EMAIL_QUEUED, i_email_attempts = 0, i_email_attempt_id = 0,
     i_email_next_attempt_at = Some now, i_email_lease_expires_at = None, i_email_last_sent_at = None,
     i_created_at = current_second now\<rparr>"

definition find_invite :: "nat \<Rightarrow> db \<Rightarrow> space_invite option" where
  "find_invite i s = find_row (\<lambda>v. i_id v = i) (rows (invites s))"

definition update_invite :: "nat \<Rightarrow> (space_invite \<Rightarrow> space_invite) \<Rightarrow> db \<Rightarrow> db" where
  "update_invite i f s = s\<lparr>invites := (invites s)\<lparr>rows := update_rows (\<lambda>v. i_id v = i) f (rows (invites s))\<rparr>\<rparr>"

section \<open>Link tokens\<close>

definition MAX_INVITE_ID :: nat where
  "MAX_INVITE_ID = 2147483647"

definition is_token_char :: "char \<Rightarrow> bool" where
  "is_token_char c \<longleftrightarrow> (CHR ''A'' \<le> c \<and> c \<le> CHR ''Z'') \<or> (CHR ''a'' \<le> c \<and> c \<le> CHR ''z'') \<or> is_digit c \<or>
     c = CHR ''-'' \<or> c = CHR ''_''"

text \<open>\<open>TOKEN_PATTERN\<close>: a number of one to ten digits without leading zero, a point, 43 characters.\<close>

definition TOKEN_PATTERN :: "string \<Rightarrow> (string \<times> string) option" where
  "TOKEN_PATTERN token = (let i = takeWhile is_digit token; r = dropWhile is_digit token; proof = drop 1 r in
     if i \<noteq> [] \<and> hd i \<noteq> CHR ''0'' \<and> length i \<le> 10 \<and> take 1 r = ''.'' \<and> length proof = 43 \<and>
        list_all is_token_char proof
     then Some (i, proof) else None)"

definition parseInviteToken :: "string \<Rightarrow> (nat \<times> string) option" where
  "parseInviteToken token = (case TOKEN_PATTERN token of
       None \<Rightarrow> None
     | Some (i, proof) \<Rightarrow> if MAX_INVITE_ID < digits_val i then None else Some (digits_val i, proof))"

text \<open>\<open>hmac\<close> is the base64url HMAC-SHA-256, under the server's secret, of the JSON text of a value.\<close>

definition invite_proof :: "(js \<Rightarrow> string) \<Rightarrow> space_invite \<Rightarrow> exception + string" where
  "invite_proof hmac invite = (case i_token_nonce invite of
       None \<Rightarrow> Inl (JsError ''Error'' ''Invitation has no link yet'')
     | Some nonce \<Rightarrow> Inr (hmac (JArray [JString ''space-invite/v1'', JNumber (of_nat (i_id invite)),
         JNumber (of_nat (i_space_id invite)), JString nonce, JString (i_email invite)])))"

definition invite_token :: "(js \<Rightarrow> string) \<Rightarrow> space_invite \<Rightarrow> exception + string" where
  "invite_token hmac invite =
     and_then (invite_proof hmac invite) (\<lambda>proof. Inr (show_nat (i_id invite) @ ''.'' @ proof))"

definition invite_link :: "(js \<Rightarrow> string) \<Rightarrow> string \<Rightarrow> space_invite \<Rightarrow> exception + string" where
  "invite_link hmac origin invite =
     and_then (invite_token hmac invite) (\<lambda>token. Inr (origin @ ''/invite#token='' @ token))"

definition constantTimeEquals :: "string \<Rightarrow> string \<Rightarrow> bool" where
  "constantTimeEquals a b \<longleftrightarrow> length a = length b \<and> a = b"

definition proves :: "(js \<Rightarrow> string) \<Rightarrow> space_invite \<Rightarrow> string \<Rightarrow> bool" where
  "proves hmac invite proof \<longleftrightarrow> (case invite_proof hmac invite of Inl _ \<Rightarrow> False | Inr p \<Rightarrow> constantTimeEquals p proof)"

definition findByToken :: "(js \<Rightarrow> string) \<Rightarrow> string \<Rightarrow> db \<Rightarrow> space_invite option" where
  "findByToken hmac token s = (case parseInviteToken token of
       None \<Rightarrow> None
     | Some (inviteId, proof) \<Rightarrow> (case find_invite inviteId s of
           None \<Rightarrow> None
         | Some invite \<Rightarrow> if proves hmac invite proof then Some invite else None))"

section \<open>The log of scheduled emails and its limits\<close>

definition log_row :: "int \<Rightarrow> nat \<Rightarrow> space_invite \<Rightarrow> nat \<Rightarrow> space_invite_email" where
  "log_row now senderId invite i = \<lparr>e_id = i, e_invite_id = i_id invite, e_space_id = i_space_id invite,
     e_email = i_email invite, e_sender_user_id = senderId, e_scheduled_at = now\<rparr>"

definition recordScheduled :: "int \<Rightarrow> nat \<Rightarrow> space_invite list \<Rightarrow> db \<Rightarrow> db" where
  "recordScheduled now senderId invs s = s\<lparr>invite_emails :=
     foldl (\<lambda>t invite. insert_auto (log_row now senderId invite) t) (invite_emails s) invs\<rparr>"

definition windowOf :: "int \<Rightarrow> (space_invite_email \<Rightarrow> bool) \<Rightarrow> db \<Rightarrow> int list" where
  "windowOf since p s = sort (map e_scheduled_at
     (filter (\<lambda>e. p e \<and> since < e_scheduled_at e) (rows (invite_emails s))))"

definition limitWait :: "int \<Rightarrow> int list \<Rightarrow> nat \<Rightarrow> nat \<Rightarrow> exception + int" where
  "limitWait now sent limit adding =
     (if limit < length sent + adding
      then (case sent of [] \<Rightarrow> Inl (JsError ''TypeError'' ''getTime'') | t # _ \<Rightarrow> Inr (t + LIMIT_WINDOW_MS - now))
      else Inr 0)"

definition cooldownWait :: "int \<Rightarrow> int list \<Rightarrow> int" where
  "cooldownWait now sent = (if sent = [] then 0 else last sent + RESEND_COOLDOWN_MS - now)"

definition seconds :: "int \<Rightarrow> int" where
  "seconds ms = max 0 ((ms + 999) div 1000)"

record ScheduleRequest =
  sr_senderId :: nat
  sr_spaceId :: "nat option"
  sr_emails :: "string list"
  sr_inviteId :: "nat option"

text \<open>\<open>same_text\<close> is equality in the collation of the address column.\<close>

definition scheduleWaits ::
  "(string \<Rightarrow> string \<Rightarrow> bool) \<Rightarrow> int \<Rightarrow> ScheduleRequest \<Rightarrow> db \<Rightarrow> exception + int list" where
  "scheduleWaits same_text now request s =
     (let since = now - LIMIT_WINDOW_MS in
      and_then (case sr_inviteId request of
          None \<Rightarrow> Inr []
        | Some inviteId \<Rightarrow>
            let sent = windowOf since (\<lambda>e. e_invite_id e = inviteId) s in
            and_then (limitWait now sent PER_INVITE 1) (\<lambda>w. Inr [cooldownWait now sent, w])) (\<lambda>inviteWaits.
      and_then (case sr_spaceId request of
          None \<Rightarrow> Inr []
        | Some spaceId \<Rightarrow>
            and_then (limitWait now (windowOf since (\<lambda>e. e_space_id e = spaceId) s) PER_SPACE
              (length (sr_emails request))) (\<lambda>w. Inr [w])) (\<lambda>spaceWaits.
      and_then (limitWait now (windowOf since (\<lambda>e. e_sender_user_id e = sr_senderId request) s) PER_SENDER
          (length (sr_emails request))) (\<lambda>senderWait.
      and_then (map_throw (\<lambda>email.
          limitWait now (windowOf since (\<lambda>e. same_text (e_email e) email) s) PER_RECIPIENT 1)
          (dedup (sr_emails request))) (\<lambda>recipientWaits.
        Inr (inviteWaits @ spaceWaits @ [senderWait] @ recipientWaits))))))"

definition assertCanSchedule ::
  "(string \<Rightarrow> string \<Rightarrow> bool) \<Rightarrow> int \<Rightarrow> ScheduleRequest \<Rightarrow> db \<Rightarrow> exception + unit" where
  "assertCanSchedule same_text now request s =
     and_then (scheduleWaits same_text now request s) (\<lambda>waits.
     let wait = Max (set waits) in
     if 0 < wait then Inl (RetryAfterException SPACE_INVITE_RATE_LIMITED (max 1 (seconds wait))) else Inr ())"

section \<open>Scheduling\<close>

text \<open>
  A new email for an existing invitation. The row gets the patch and the next attempt id, the entity
  in memory the patch alone; \<open>nonce\<close> is random.
\<close>

definition requeue_patch :: "int \<Rightarrow> string \<Rightarrow> space_invite \<Rightarrow> space_invite \<Rightarrow> space_invite" where
  "requeue_patch now nonce invite v = v\<lparr>
     i_token_nonce := Some (case i_token_nonce invite of None \<Rightarrow> nonce | Some n \<Rightarrow> n),
     i_email_status := EMAIL_QUEUED, i_email_attempts := 0, i_email_next_attempt_at := Some now,
     i_email_lease_expires_at := None\<rparr>"

definition requeue :: "int \<Rightarrow> string \<Rightarrow> nat \<Rightarrow> space_invite \<Rightarrow> db \<Rightarrow> space_invite \<times> db" where
  "requeue now nonce senderId invite s =
     (let patch = requeue_patch now nonce invite;
          s1 = update_invite (i_id invite)
            (\<lambda>v. (patch v)\<lparr>i_email_attempt_id := i_email_attempt_id v + 1\<rparr>) s;
          invite' = patch invite
      in (invite', recordScheduled now senderId [invite'] s1))"

definition expedite :: "int \<Rightarrow> space_invite \<Rightarrow> db \<Rightarrow> space_invite \<times> db" where
  "expedite now invite s =
     (invite\<lparr>i_email_next_attempt_at := Some now\<rparr>,
      update_invite (i_id invite) (\<lambda>v. v\<lparr>i_email_next_attempt_at := Some now\<rparr>) s)"

definition effectiveStatus :: "space_invite \<Rightarrow> int \<Rightarrow> SpaceInviteEmailStatus" where
  "effectiveStatus invite now =
     (let leaseRunning = (case i_email_lease_expires_at invite of None \<Rightarrow> False | Some t \<Rightarrow> now < t) in
      if i_email_status invite = EMAIL_SENDING \<and> \<not> leaseRunning then EMAIL_QUEUED else i_email_status invite)"

record InviteDeliveryView =
  dv_email_status :: SpaceInviteEmailStatus
  dv_resend_after_seconds :: int

definition describe_one :: "int \<Rightarrow> db \<Rightarrow> space_invite \<Rightarrow> InviteDeliveryView" where
  "describe_one now s invite =
     (let sent = windowOf (now - LIMIT_WINDOW_MS) (\<lambda>e. e_invite_id e = i_id invite) s;
          wait = max (cooldownWait now sent)
            (if PER_INVITE \<le> length sent then hd sent + LIMIT_WINDOW_MS - now else 0)
      in \<lparr>dv_email_status = effectiveStatus invite now, dv_resend_after_seconds = seconds wait\<rparr>)"

definition describe :: "int \<Rightarrow> space_invite list \<Rightarrow> db \<Rightarrow> (nat \<times> InviteDeliveryView) list" where
  "describe now invs s = map (\<lambda>invite. (i_id invite, describe_one now s invite)) invs"

section \<open>Attempts\<close>

text \<open>What sending a message comes to: accepted by the server, or an error, permanent or not.\<close>

datatype mail_result = Accepted | Refused bool

datatype AttemptOutcome = SKIPPED | SENT_EMAIL | RETRY | GAVE_UP

text \<open>The conditional update of a claim; the first part is whether a row was affected.\<close>

definition claimable :: "int \<Rightarrow> space_invite \<Rightarrow> bool" where
  "claimable now v \<longleftrightarrow> isActiveInvite v now \<and> i_token_nonce v \<noteq> None \<and>
     ((i_email_status v = EMAIL_QUEUED \<and> (case i_email_next_attempt_at v of None \<Rightarrow> False | Some t \<Rightarrow> t \<le> now)) \<or>
      (i_email_status v = EMAIL_SENDING \<and> (case i_email_lease_expires_at v of None \<Rightarrow> False | Some t \<Rightarrow> t \<le> now)))"

definition take_lease :: "int \<Rightarrow> space_invite \<Rightarrow> space_invite" where
  "take_lease now v = v\<lparr>i_email_status := EMAIL_SENDING, i_email_attempt_id := i_email_attempt_id v + 1,
     i_email_attempts := i_email_attempts v + 1, i_email_lease_expires_at := Some (now + LEASE_MS),
     i_email_next_attempt_at := Some (now + LEASE_MS)\<rparr>"

definition claim_row :: "nat \<Rightarrow> int \<Rightarrow> db \<Rightarrow> bool \<times> db" where
  "claim_row inviteId now s =
     (let p = (\<lambda>v. i_id v = inviteId \<and> claimable now v) in
      (\<exists>v \<in> set (rows (invites s)). p v,
       s\<lparr>invites := (invites s)\<lparr>rows := update_rows p (take_lease now) (rows (invites s))\<rparr>\<rparr>))"

definition claim_invite :: "(nat \<Rightarrow> db \<Rightarrow> db) \<Rightarrow> nat \<Rightarrow> int \<Rightarrow> db \<Rightarrow> space_invite option \<times> db" where
  "claim_invite env inviteId now s =
     (let (affected, s1) = claim_row inviteId now (env 0 s) in
      if \<not> affected then (None, s1)
      else let s2 = env 1 s1 in
        (case find_invite inviteId s2 of
           None \<Rightarrow> None
         | Some invite \<Rightarrow> if isActiveInvite invite now then Some invite else None, s2))"

text \<open>The conditional update with the result of an attempt; \<open>status\<close> is what it leaves.\<close>

definition of_attempt :: "space_invite \<Rightarrow> int \<Rightarrow> space_invite \<Rightarrow> bool" where
  "of_attempt invite now v \<longleftrightarrow> i_id v = i_id invite \<and> i_email_attempt_id v = i_email_attempt_id invite \<and>
     i_email_status v = EMAIL_SENDING \<and> isActiveInvite v now"

definition record_result ::
  "SpaceInviteEmailStatus \<Rightarrow> int option \<Rightarrow> int \<Rightarrow> space_invite \<Rightarrow> space_invite" where
  "record_result status retryInMs now v = v\<lparr>i_email_status := status, i_email_lease_expires_at := None,
     i_email_next_attempt_at := map_option (\<lambda>r. now + r) retryInMs,
     i_email_last_sent_at := (if status = EMAIL_SENT then Some now else i_email_last_sent_at v)\<rparr>"

definition finish ::
  "space_invite \<Rightarrow> SpaceInviteEmailStatus \<Rightarrow> int option \<Rightarrow> int \<Rightarrow> db \<Rightarrow> bool \<times> db" where
  "finish invite status retryInMs now s =
     (\<exists>v \<in> set (rows (invites s)). of_attempt invite now v,
      s\<lparr>invites := (invites s)\<lparr>rows :=
        update_rows (of_attempt invite now) (record_result status retryInMs now) (rows (invites s))\<rparr>\<rparr>)"

text \<open>
  \<open>mail\<close> is the mail server's answer to the invitation of a space. Building the link throws without
  a nonce, which counts as a temporary error.
\<close>

definition send_invite ::
  "(space_invite \<Rightarrow> space \<Rightarrow> mail_result) \<Rightarrow> (nat \<Rightarrow> db \<Rightarrow> db) \<Rightarrow> int \<Rightarrow> space_invite \<Rightarrow> db \<Rightarrow> AttemptOutcome \<times> db" where
  "send_invite mail env now invite s =
     (let s1 = env 2 s in
      case find_space (i_space_id invite) s1 of
        None \<Rightarrow> (SKIPPED, s1)
      | Some sp \<Rightarrow>
          let result = (if i_token_nonce invite = None then Refused False else mail invite sp);
              s2 = env 3 s1 in
          (case result of
             Accepted \<Rightarrow> (SENT_EMAIL, snd (finish invite EMAIL_SENT None now s2))
           | Refused permanent \<Rightarrow>
               if permanent \<or> MAX_EMAIL_ATTEMPTS \<le> i_email_attempts invite
               then (GAVE_UP, snd (finish invite EMAIL_FAILED None now s2))
               else (RETRY, snd (finish invite EMAIL_QUEUED
                 (Some (RETRY_DELAYS_MS ! (i_email_attempts invite - 1))) now s2))))"

definition attempt ::
  "(space_invite \<Rightarrow> space \<Rightarrow> mail_result) \<Rightarrow> (nat \<Rightarrow> db \<Rightarrow> db) \<Rightarrow> (nat \<Rightarrow> int) \<Rightarrow> nat \<Rightarrow> db \<Rightarrow> AttemptOutcome \<times> db" where
  "attempt mail env clk inviteId s =
     (case claim_invite env inviteId (clk 0) s of
        (None, s1) \<Rightarrow> (SKIPPED, s1)
      | (Some invite, s1) \<Rightarrow>
          if MAX_EMAIL_ATTEMPTS < i_email_attempts invite
          then (GAVE_UP, snd (finish invite EMAIL_FAILED None (clk 1) (env 2 s1)))
          else send_invite mail env (clk 1) invite s1)"

section \<open>The periodic run\<close>

definition is_pending :: "space_invite \<Rightarrow> bool" where
  "is_pending v \<longleftrightarrow> i_email_status v = EMAIL_QUEUED \<or> i_email_status v = EMAIL_SENDING"

text \<open>Ended invitations leave the queue.\<close>

definition is_ended :: "int \<Rightarrow> space_invite \<Rightarrow> bool" where
  "is_ended now v \<longleftrightarrow> is_pending v \<and> (i_email_next_attempt_at v \<noteq> None \<or> i_email_lease_expires_at v \<noteq> None) \<and>
     \<not> isActiveInvite v now"

definition clear_ended :: "int \<Rightarrow> db \<Rightarrow> db" where
  "clear_ended now s = s\<lparr>invites := (invites s)\<lparr>rows := update_rows (is_ended now)
     (\<lambda>v. v\<lparr>i_email_next_attempt_at := None, i_email_lease_expires_at := None\<rparr>) (rows (invites s))\<rparr>\<rparr>"

definition next_attempt :: "space_invite \<Rightarrow> int" where
  "next_attempt v = (case i_email_next_attempt_at v of None \<Rightarrow> 0 | Some t \<Rightarrow> t)"

definition due_invites :: "int \<Rightarrow> db \<Rightarrow> nat list" where
  "due_invites now s = map i_id (take POLL_BATCH (sort_key next_attempt
     (filter (\<lambda>v. is_pending v \<and> isActiveInvite v now \<and>
        (case i_email_next_attempt_at v of None \<Rightarrow> False | Some t \<Rightarrow> t \<le> now)) (rows (invites s)))))"

text \<open>
  \<open>DELETE ... LIMIT\<close> without an order: the rows outside the window in the order the server comes to
  them, \<open>scan\<close>, at most a batch.
\<close>

definition purge_emails ::
  "(space_invite_email list \<Rightarrow> space_invite_email list) \<Rightarrow> int \<Rightarrow> db \<Rightarrow> db" where
  "purge_emails scan now s = (let ids = map e_id (take EMAIL_PURGE_BATCH (filter (\<lambda>e.
       e_scheduled_at e \<le> now - LIMIT_WINDOW_MS) (scan (rows (invite_emails s)))))
     in s\<lparr>invite_emails := (invite_emails s)\<lparr>rows :=
          delete_rows (\<lambda>e. e_id e \<in> set ids) (rows (invite_emails s))\<rparr>\<rparr>)"

text \<open>
  One run: \<open>polling\<close> tells that another one is going on, \<open>stopped k\<close> whether the application was
  stopped before its \<open>k\<close>-th attempt, counted from 1. \<open>env 0\<close> are the other transactions before the
  run's own three statements, \<open>env k\<close> and \<open>clk k\<close> those and the clock of its \<open>k\<close>-th attempt.
\<close>

fun run_attempts ::
  "(space_invite \<Rightarrow> space \<Rightarrow> mail_result) \<Rightarrow> (nat \<Rightarrow> nat \<Rightarrow> db \<Rightarrow> db) \<Rightarrow> (nat \<Rightarrow> nat \<Rightarrow> int) \<Rightarrow> (nat \<Rightarrow> bool) \<Rightarrow>
   nat \<Rightarrow> nat list \<Rightarrow> db \<Rightarrow> db" where
  "run_attempts mail env clk stopped k [] s = s"
| "run_attempts mail env clk stopped k (i # due) s =
     (if stopped k then s
      else run_attempts mail env clk stopped (Suc k) due (snd (attempt mail (env k) (clk k) i s)))"

definition processDue ::
  "(space_invite \<Rightarrow> space \<Rightarrow> mail_result) \<Rightarrow> (space_invite_email list \<Rightarrow> space_invite_email list) \<Rightarrow>
   (nat \<Rightarrow> nat \<Rightarrow> db \<Rightarrow> db) \<Rightarrow> (nat \<Rightarrow> nat \<Rightarrow> int) \<Rightarrow> bool \<Rightarrow> (nat \<Rightarrow> bool) \<Rightarrow> int \<Rightarrow> db \<Rightarrow> nat \<times> db" where
  "processDue mail scan env clk polling stopped now s =
     (if polling \<or> stopped 0 then (0, s)
      else let s1 = env 0 1 (clear_ended now (env 0 0 s));
               due = due_invites now s1;
               s2 = run_attempts mail env clk stopped 1 due s1
           in (length due, purge_emails scan now (env 0 2 s2)))"

end
