(* ===== verification/Spaces.thy ===== *)
theory Spaces
  imports InviteDelivery
begin

text \<open>
  \<open>modules/spaces/space-setup.ts\<close> and \<open>spaces.service.ts\<close>: how a space comes to be, with its owner,
  its categories and its first invitations in one transaction; how its members see it; and how its
  owner deletes it.
\<close>

section \<open>Setting up a space\<close>

record NewSpace =
  ns_name :: string
  ns_type :: SpaceType
  ns_currency_id :: nat

definition no_referenced_row :: exception where
  "no_referenced_row = QueryFailedError ''ER_NO_REFERENCED_ROW_2'' []"

definition new_space :: "int \<Rightarrow> NewSpace \<Rightarrow> nat \<Rightarrow> space" where
  "new_space now newSpace i = \<lparr>sp_id = i, sp_name = ns_name newSpace, sp_type = ns_type newSpace,
     sp_currency_id = ns_currency_id newSpace, sp_created_at = current_second now,
     sp_updated_at = current_second now\<rparr>"

definition new_member :: "int \<Rightarrow> nat \<Rightarrow> nat \<Rightarrow> SpaceRole \<Rightarrow> nat \<Rightarrow> space_member" where
  "new_member now spaceId userId role i = \<lparr>m_id = i, m_space_id = spaceId, m_user_id = userId,
     m_role = role, m_created_at = current_second now\<rparr>"

text \<open>A user is a member of a space once; a space has a currency of the table.\<close>

definition insert_member :: "int \<Rightarrow> nat \<Rightarrow> nat \<Rightarrow> SpaceRole \<Rightarrow> db \<Rightarrow> exception + db" where
  "insert_member now spaceId userId role s =
     (if find_member spaceId userId s \<noteq> None then Inl (duplicate_entry ''space_members'')
      else Inr (s\<lparr>members := insert_auto (new_member now spaceId userId role) (members s)\<rparr>))"

definition insert_space :: "int \<Rightarrow> NewSpace \<Rightarrow> db \<Rightarrow> exception + db" where
  "insert_space now newSpace s =
     (if find_currency (ns_currency_id newSpace) s = None then Inl no_referenced_row
      else Inr (s\<lparr>spaces := insert_auto (new_space now newSpace) (spaces s)\<rparr>))"

definition createSpaceWithOwner :: "int \<Rightarrow> NewSpace \<Rightarrow> nat \<Rightarrow> db \<Rightarrow> exception + nat \<times> db" where
  "createSpaceWithOwner now newSpace ownerId s =
     (let spaceId = next_id (spaces s) in
     and_then (insert_space now newSpace s) (\<lambda>s1.
     and_then (insert_member now spaceId ownerId OWNER s1) (\<lambda>s2. Inr (spaceId, s2))))"

definition default_category :: "string \<Rightarrow> TransactionType \<Rightarrow> CategoryIcon \<Rightarrow> AppColor \<Rightarrow> CreateCategoryDto" where
  "default_category name ty icon color = \<lparr>nc_name = name, nc_transaction_type = ty, nc_icon = icon, nc_color = color\<rparr>"

definition DEFAULT_CATEGORIES :: "CreateCategoryDto list" where
  "DEFAULT_CATEGORIES =
    [default_category ''Salary'' INCOME SALARY EVERGREEN, default_category ''Freelance'' INCOME FREELANCE INDIGO,
     default_category ''Gifts'' INCOME GIFTS CLAY, default_category ''Other income'' INCOME OTHER SLATE,
     default_category ''Groceries'' EXPENSE GROCERY EVERGREEN, default_category ''Eating out'' EXPENSE RESTAURANT CLAY,
     default_category ''Housing'' EXPENSE HOUSING SLATE, default_category ''Utilities'' EXPENSE UTILITIES AMBER,
     default_category ''Transport'' EXPENSE TRANSPORT INDIGO, default_category ''Car'' EXPENSE CAR SLATE,
     default_category ''Health'' EXPENSE HEALTH CLAY, default_category ''Personal care'' EXPENSE BEAUTY AMBER,
     default_category ''Clothes'' EXPENSE CLOTHES PLUM, default_category ''Home goods'' EXPENSE HOME_GOODS EVERGREEN,
     default_category ''Entertainment'' EXPENSE ENTERTAINMENT AMBER,
     default_category ''Subscriptions'' EXPENSE SUBSCRIPTIONS INDIGO,
     default_category ''Education'' EXPENSE EDUCATION SLATE, default_category ''Travel'' EXPENSE TRAVEL INDIGO,
     default_category ''Gifts'' EXPENSE GIFTS CLAY, default_category ''Other expenses'' EXPENSE OTHER SLATE]"

definition INITIAL_BALANCE_CATEGORY :: CreateCategoryDto where
  "INITIAL_BALANCE_CATEGORY = default_category ''Initial balance'' INCOME SAVINGS SLATE"

text \<open>Only the last one is a system category.\<close>

definition createDefaultCategories :: "int \<Rightarrow> nat \<Rightarrow> db \<Rightarrow> db" where
  "createDefaultCategories now spaceId s =
     s\<lparr>categories := insert_auto (new_category now spaceId INITIAL_BALANCE_CATEGORY True)
       (foldl (\<lambda>t dto. insert_auto (new_category now spaceId dto False) t) (categories s) DEFAULT_CATEGORIES)\<rparr>"

section \<open>Creating a space\<close>

record CreateSpaceDto =
  cs_name :: string
  cs_currency_id :: nat
  cs_type :: SpaceType
  cs_invites :: "string list option"

text \<open>\<open>is_email\<close> is the validator of class-validator.\<close>

definition valid_create_space :: "(string \<Rightarrow> bool) \<Rightarrow> CreateSpaceDto \<Rightarrow> bool" where
  "valid_create_space is_email dto \<longleftrightarrow> cs_name dto \<noteq> [] \<and> length (cs_name dto) \<le> 255 \<and>
     isOptionalNonNull (\<lambda>is. distinct is \<and> list_all is_email is \<and> list_all (\<lambda>e. length e \<le> 255) is) (cs_invites dto)"

definition space_payload :: "CreateSpaceDto \<Rightarrow> js" where
  "space_payload dto = JObject
     [(''name'', JString (cs_name dto)), (''currency_id'', js_nat (cs_currency_id dto)),
      (''type'', JString (case cs_type dto of PERSONAL \<Rightarrow> ''personal'' | GROUP \<Rightarrow> ''group'')),
      (''invites'', js_field (\<lambda>is. JArray (map JString is)) (cs_invites dto))]"

text \<open>
  New invitations for a list of addresses: the rows get the next ids of the table, \<open>secrets k\<close> are
  the random code and nonce of the \<open>k\<close>-th.
\<close>

definition new_invites :: "int \<Rightarrow> (nat \<Rightarrow> string \<times> string) \<Rightarrow> nat \<Rightarrow> string list \<Rightarrow> nat \<Rightarrow> space_invite list" where
  "new_invites now secrets spaceId emails i =
     map (\<lambda>(k, email). newInvite now (secrets k) spaceId email (i + k)) (enumerate 0 emails)"

definition insert_invites :: "space_invite list \<Rightarrow> db \<Rightarrow> db" where
  "insert_invites invs s = s\<lparr>invites := (invites s)\<lparr>rows := rows (invites s) @ invs,
     next_id := next_id (invites s) + length invs\<rparr>\<rparr>"

text \<open>\<open>clk 0\<close> is the database's clock of the inserts, \<open>clk 1\<close> the one the invitations are made at.\<close>

definition create_space_work ::
  "(string \<Rightarrow> string \<Rightarrow> bool) \<Rightarrow> (nat \<Rightarrow> int) \<Rightarrow> (nat \<Rightarrow> string \<times> string) \<Rightarrow> nat \<Rightarrow> CreateSpaceDto \<Rightarrow>
   string list \<Rightarrow> db \<Rightarrow> exception + (space \<times> currency) \<times> db" where
  "create_space_work same_text clk secrets userId dto emails s =
     and_then (createSpaceWithOwner (clk 0) \<lparr>ns_name = cs_name dto, ns_type = cs_type dto,
         ns_currency_id = cs_currency_id dto\<rparr> userId s) (\<lambda>(spaceId, s1).
     let s2 = createDefaultCategories (clk 0) spaceId s1 in
     and_then (if emails = [] then Inr s2
         else and_then (assertCanSchedule same_text (clk 1)
             \<lparr>sr_senderId = userId, sr_spaceId = None, sr_emails = emails, sr_inviteId = None\<rparr> s2) (\<lambda>_.
           let invs = new_invites (clk 1) secrets spaceId emails (next_id (invites s2)) in
           Inr (recordScheduled (clk 1) userId invs (insert_invites invs s2)))) (\<lambda>s3.
     and_then (getSpace spaceId s3) (\<lambda>result.
     and_then (assertFound result NOT_FOUND) (\<lambda>created. Inr (created, s3)))))"

definition invite_addresses :: "CreateSpaceDto \<Rightarrow> string list" where
  "invite_addresses dto =
     dedup (map normalizeInviteEmail (case cs_invites dto of None \<Rightarrow> [] | Some is \<Rightarrow> is))"

definition create_space ::
  "runtime \<Rightarrow> (space \<times> currency \<Rightarrow> js) \<Rightarrow> (string \<Rightarrow> string \<Rightarrow> bool) \<Rightarrow> (nat \<Rightarrow> int) \<Rightarrow>
   (nat \<Rightarrow> string \<times> string) \<Rightarrow> nat \<Rightarrow> CreateSpaceDto \<Rightarrow> string option \<Rightarrow> db \<Rightarrow>
   exception + (space \<times> currency) reply \<times> db" where
  "create_space rt to_json same_text clk secrets userId dto idempotencyKey s =
     (let emails = invite_addresses dto; work = create_space_work same_text clk secrets userId dto emails in
     and_then (guard (\<not> (cs_type dto = PERSONAL \<and> emails \<noteq> []))
         (api_error SPACE_PERSONAL_NO_INVITES BAD_REQUEST)) (\<lambda>_.
     and_then (guard (length emails \<le> MAX_PENDING_INVITES_PER_SPACE)
         (api_error SPACE_INVITE_LIMIT_REACHED BAD_REQUEST)) (\<lambda>_.
       case idempotencyKey of
         None \<Rightarrow> and_then (work s) (\<lambda>(r, s'). Inr (Fresh r, s'))
       | Some key \<Rightarrow> run_idempotent (rt_claims rt) to_json
           \<lparr>sc_user_id = userId, sc_space_id = NO_SPACE_ID, sc_operation = ''spaces.create'',
            sc_idempotency_key = key\<rparr>
           (hashPayload (rt_digest rt) (space_payload dto)) (clk 0) work s)))"

section \<open>Reads\<close>

record SpaceListItem =
  si_space :: space
  si_currency :: currency
  si_role :: SpaceRole
  si_member_count :: nat

definition getAllForUser :: "nat \<Rightarrow> db \<Rightarrow> exception + SpaceListItem list" where
  "getAllForUser userId s =
     (let memberships = filter (\<lambda>m. m_user_id m = userId) (rows (members s)) in
      if memberships = [] then Inr []
      else
        let spaceIds = map m_space_id memberships in
        and_then (map_throw (\<lambda>space. and_then (getSpace (sp_id space) s) (\<lambda>r. assertFound r NOT_FOUND))
            (filter (\<lambda>space. sp_id space \<in> set spaceIds) (rows (spaces s)))) (\<lambda>loaded.
        let countBySpaceId = map_of (group_by m_space_id length
              (filter (\<lambda>m. m_space_id m \<in> set spaceIds) (rows (members s))));
            roleBySpaceId = map_of (rev (map (\<lambda>m. (m_space_id m, m_role m)) memberships)) in
        Inr (List.map_filter (\<lambda>(space, currency). map_option (\<lambda>role.
               \<lparr>si_space = space, si_currency = currency, si_role = role,
                si_member_count = (case countBySpaceId (sp_id space) of None \<Rightarrow> 0 | Some n \<Rightarrow> n)\<rparr>)
             (roleBySpaceId (sp_id space))) loaded)))"

definition getForMember :: "nat \<Rightarrow> nat \<Rightarrow> db \<Rightarrow> exception + space \<times> currency" where
  "getForMember userId spaceId s =
     and_then (assertMembership spaceId userId None s) (\<lambda>_.
     and_then (getSpace spaceId s) (\<lambda>space. assertFound space NOT_FOUND))"

section \<open>Deleting a space\<close>

text \<open>
  The deletion of a row of \<open>spaces\<close>, as the foreign keys of the entities direct it: rows of the
  space and of its wallets go with it. The key of a transaction's or a limit's category is
  \<open>RESTRICT\<close>: whether the server comes to the categories before the rows that use them, and
  refuses, is up to it, and is the parameter \<open>restricted\<close>.
\<close>

definition delete_space :: "(nat \<Rightarrow> db \<Rightarrow> bool) \<Rightarrow> nat \<Rightarrow> db \<Rightarrow> exception + db" where
  "delete_space restricted spaceId s =
     (if restricted spaceId s then Inl row_is_referenced
      else
        let of_space = (\<lambda>w. w_space_id w = spaceId);
            gone = set (map w_id (filter of_space (rows (wallets s)))) in
        Inr (s\<lparr>spaces := (spaces s)\<lparr>rows := delete_rows (\<lambda>p. sp_id p = spaceId) (rows (spaces s))\<rparr>,
          members := (members s)\<lparr>rows := delete_rows (\<lambda>m. m_space_id m = spaceId) (rows (members s))\<rparr>,
          wallets := (wallets s)\<lparr>rows := delete_rows of_space (rows (wallets s))\<rparr>,
          categories := (categories s)\<lparr>rows := delete_rows (\<lambda>c. cat_space_id c = spaceId) (rows (categories s))\<rparr>,
          limits := (limits s)\<lparr>rows := delete_rows (\<lambda>l. l_space_id l = spaceId) (rows (limits s))\<rparr>,
          transactions := delete_rows (\<lambda>t. t_wallet_id t \<in> gone) (transactions s),
          operations := (operations s)\<lparr>rows := delete_rows (\<lambda>o'. op_space_id o' = spaceId) (rows (operations s))\<rparr>,
          invites := (invites s)\<lparr>rows := delete_rows (\<lambda>v. i_space_id v = spaceId) (rows (invites s))\<rparr>\<rparr>))"

text \<open>Runs in the caller's transaction, whose actor owns the space.\<close>

definition removeOwned :: "(nat \<Rightarrow> db \<Rightarrow> bool) \<Rightarrow> locked_members \<Rightarrow> db \<Rightarrow> exception + unit \<times> db" where
  "removeOwned restricted locked s =
     (if lm_actorSpaces locked \<le> 1 then Inl (api_error SPACE_LAST_REMAINING BAD_REQUEST)
      else
        let spaceId = m_space_id (lm_actor locked);
            s1 = s\<lparr>members := (members s)\<lparr>rows := delete_rows (\<lambda>m. m_space_id m = spaceId) (rows (members s))\<rparr>\<rparr> in
        and_then (delete_space restricted spaceId s1) (\<lambda>s2. Inr ((), s2)))"

text \<open>
  \<open>view 0\<close> is the state the check before the transaction reads, \<open>view 1\<close> and \<open>view 2\<close> are those of
  \<open>lockMembers\<close> before its locks are all held.
\<close>

definition remove_space ::
  "(nat \<Rightarrow> db \<Rightarrow> bool) \<Rightarrow> (nat \<Rightarrow> db) \<Rightarrow> nat \<Rightarrow> nat \<Rightarrow> db \<Rightarrow> exception + unit \<times> db" where
  "remove_space restricted view userId spaceId s =
     and_then (assertMembership spaceId userId (Some OWNER) (view 0)) (\<lambda>_.
     and_then (lockMembers spaceId userId (view 1) (view 2) s) (\<lambda>locked.
     if m_role (lm_actor locked) \<noteq> OWNER then Inl (api_error FORBIDDEN_SPACE FORBIDDEN)
     else removeOwned restricted locked s))"

end
