(* ===== verification/ConfirmationCodes.thy ===== *)
theory ConfirmationCodes
  imports Spaces
begin

text \<open>
  \<open>modules/confirmation-codes\<close>: the codes that confirm an account's email address. Sending one is
  reserved under the lock of the user, done outside of it, and its outcome recorded only while the
  code still carries the attempt.
\<close>

definition MAX_CONFIRMATION_CODE_ATTEMPTS :: nat where "MAX_CONFIRMATION_CODE_ATTEMPTS = 5"
definition CONFIRMATION_CODE_RESEND_COOLDOWN_MS :: int where "CONFIRMATION_CODE_RESEND_COOLDOWN_MS = 1000 * 60"
definition CONFIRMATION_CODE_TTL_MS :: int where "CONFIRMATION_CODE_TTL_MS = 1000 * 60 * 10"

definition find_user :: "nat \<Rightarrow> db \<Rightarrow> user option" where
  "find_user i s = find_row (\<lambda>u. u_id u = i) (rows (users s))"

record ReservedConfirmationCode =
  rv_id :: nat
  rv_code :: string
  rv_expiresAt :: int
  rv_shouldSend :: bool
  rv_attemptId :: nat

datatype ResendDecision = SEND | SKIP | DENY int

definition decideSendAction :: "confirmation_code \<Rightarrow> int \<Rightarrow> int \<Rightarrow> ResendDecision" where
  "decideSendAction existing now cooldownMs =
     (case cc_last_attempted_at existing of
        None \<Rightarrow> SEND
      | Some t \<Rightarrow>
          if cooldownMs \<le> now - t then SEND
          else if cc_send_status existing = SENT then SKIP
          else DENY ((cooldownMs - (now - t) + 999) div 1000))"

definition lockActive :: "nat \<Rightarrow> ConfirmationType \<Rightarrow> int \<Rightarrow> db \<Rightarrow> confirmation_code option" where
  "lockActive userId confirmationType now s = find_row (\<lambda>cc. cc_user_id cc = userId \<and>
     cc_confirmation_type cc = confirmationType \<and> now \<le> cc_expired_at cc) (rows (confirmation_codes s))"

definition update_code :: "(confirmation_code \<Rightarrow> bool) \<Rightarrow> (confirmation_code \<Rightarrow> confirmation_code) \<Rightarrow> db \<Rightarrow> db" where
  "update_code p f s = s\<lparr>confirmation_codes := (confirmation_codes s)\<lparr>rows :=
     update_rows p f (rows (confirmation_codes s))\<rparr>\<rparr>"

definition new_code :: "int \<Rightarrow> string \<Rightarrow> nat \<Rightarrow> ConfirmationType \<Rightarrow> nat \<Rightarrow> confirmation_code" where
  "new_code now code userId confirmationType i = \<lparr>cc_id = i, cc_user_id = userId, cc_confirmation_code = code,
     cc_attempts = 0, cc_confirmation_type = confirmationType, cc_created_at = to_seconds now,
     cc_expired_at = to_seconds (now + CONFIRMATION_CODE_TTL_MS), cc_last_sent_at = None,
     cc_last_attempted_at = Some (to_seconds now), cc_send_status = PENDING, cc_send_attempt_id = 1\<rparr>"

text \<open>\<open>clk 0\<close> is the clock of the search, \<open>clk 1\<close> the one of the reservation; \<open>code\<close> is random.\<close>

definition reserveSend ::
  "(nat \<Rightarrow> int) \<Rightarrow> string \<Rightarrow> nat \<Rightarrow> ConfirmationType \<Rightarrow> db \<Rightarrow> exception + ReservedConfirmationCode \<times> db" where
  "reserveSend clk code userId confirmationType s =
     and_then (assertFound (find_user userId s) NOT_FOUND) (\<lambda>user.
     and_then (guard (\<not> u_email_verified user) (api_error EMAIL_ALREADY_EXISTS BAD_REQUEST)) (\<lambda>_.
     let now = clk 1 in
     case lockActive userId confirmationType (clk 0) s of
       None \<Rightarrow> Inr (\<lparr>rv_id = next_id (confirmation_codes s), rv_code = code,
           rv_expiresAt = now + CONFIRMATION_CODE_TTL_MS, rv_shouldSend = True, rv_attemptId = 1\<rparr>,
         s\<lparr>confirmation_codes := insert_auto (new_code now code userId confirmationType) (confirmation_codes s)\<rparr>)
     | Some existing \<Rightarrow>
         let reserved = (\<lambda>send attemptId. \<lparr>rv_id = cc_id existing, rv_code = cc_confirmation_code existing,
               rv_expiresAt = cc_expired_at existing, rv_shouldSend = send, rv_attemptId = attemptId\<rparr>) in
         (case decideSendAction existing now CONFIRMATION_CODE_RESEND_COOLDOWN_MS of
            DENY retryAfterSeconds \<Rightarrow> Inl (RetryAfterException CONFIRMATION_EMAIL_RATE_LIMITED retryAfterSeconds)
          | SKIP \<Rightarrow> Inr (reserved False (cc_send_attempt_id existing), s)
          | SEND \<Rightarrow>
              let attemptId = cc_send_attempt_id existing + 1 in
              Inr (reserved True attemptId, update_code (\<lambda>cc. cc_id cc = cc_id existing)
                (\<lambda>cc. cc\<lparr>cc_last_attempted_at := Some (to_seconds now), cc_send_status := PENDING,
                  cc_send_attempt_id := attemptId\<rparr>) s))))"

definition markSent :: "int \<Rightarrow> nat \<Rightarrow> nat \<Rightarrow> db \<Rightarrow> db" where
  "markSent now i attemptId s = update_code (\<lambda>cc. cc_id cc = i \<and> cc_send_attempt_id cc = attemptId)
     (\<lambda>cc. cc\<lparr>cc_send_status := SENT, cc_last_sent_at := Some (to_seconds now)\<rparr>) s"

definition markFailed :: "nat \<Rightarrow> nat \<Rightarrow> db \<Rightarrow> db" where
  "markFailed i attemptId s = update_code (\<lambda>cc. cc_id cc = i \<and> cc_send_attempt_id cc = attemptId)
     (\<lambda>cc. cc\<lparr>cc_send_status := FAILED\<rparr>) s"

definition incrementAttempts :: "nat \<Rightarrow> db \<Rightarrow> db" where
  "incrementAttempts i s = update_code (\<lambda>cc. cc_id cc = i) (\<lambda>cc. cc\<lparr>cc_attempts := cc_attempts cc + 1\<rparr>) s"

definition expire :: "int \<Rightarrow> nat \<Rightarrow> db \<Rightarrow> db" where
  "expire now i s = update_code (\<lambda>cc. cc_id cc = i) (\<lambda>cc. cc\<lparr>cc_expired_at := to_seconds (now - 1000)\<rparr>) s"

end
