(* ===== verification/Users.thy ===== *)
theory Users
  imports ConfirmationCodes
begin

text \<open>
  \<open>modules/users/users.service.ts\<close> and \<open>shared/strategies/jwt.strategy.ts\<close>: registration, confirmation
  of the address, login and access tokens. \<open>same_text\<close> is equality in the collation of the address
  column, \<open>bcrypt\<close> a salted password hash and \<open>bcrypt_compare\<close> its check; the payload of a token is a
  user id with a version, its signature is the library's.
\<close>

type_synonym AccessTokenPayload = "nat \<times> nat option"

section \<open>Requests\<close>

record CreateUserDto =
  cu_name :: string
  cu_email :: string
  cu_password :: string
  cu_base_currency_id :: nat

definition valid_create_user :: "(string \<Rightarrow> bool) \<Rightarrow> CreateUserDto \<Rightarrow> bool" where
  "valid_create_user is_email dto \<longleftrightarrow> cu_name dto \<noteq> [] \<and> length (cu_name dto) \<le> 255 \<and>
     cu_email dto \<noteq> [] \<and> is_email (cu_email dto) \<and> length (cu_email dto) \<le> 255 \<and>
     cu_password dto \<noteq> [] \<and> 6 \<le> length (cu_password dto)"

section \<open>Registration\<close>

definition findByEmail :: "(string \<Rightarrow> string \<Rightarrow> bool) \<Rightarrow> string \<Rightarrow> db \<Rightarrow> user option" where
  "findByEmail same_text email s = find_row (\<lambda>u. same_text (u_email u) email) (rows (users s))"

definition new_user :: "(string \<Rightarrow> string) \<Rightarrow> int \<Rightarrow> CreateUserDto \<Rightarrow> nat \<Rightarrow> user" where
  "new_user bcrypt now dto i = \<lparr>u_id = i, u_email = cu_email dto, u_name = cu_name dto,
     u_password = bcrypt (cu_password dto), u_email_verified = False, u_auth_version = 1,
     u_created_at = current_second now, u_updated_at = current_second now\<rparr>"

definition insert_user ::
  "(string \<Rightarrow> string) \<Rightarrow> (string \<Rightarrow> string \<Rightarrow> bool) \<Rightarrow> int \<Rightarrow> CreateUserDto \<Rightarrow> db \<Rightarrow> exception + user \<times> db" where
  "insert_user bcrypt same_text now dto s =
     (if findByEmail same_text (cu_email dto) s \<noteq> None then Inl (duplicate_entry ''UQ_users_email'')
      else Inr (new_user bcrypt now dto (next_id (users s)),
        s\<lparr>users := insert_auto (new_user bcrypt now dto) (users s)\<rparr>))"

definition register ::
  "(string \<Rightarrow> string) \<Rightarrow> (string \<Rightarrow> string \<Rightarrow> bool) \<Rightarrow> int \<Rightarrow> CreateUserDto \<Rightarrow> db \<Rightarrow> exception + user \<times> db" where
  "register bcrypt same_text now dto s =
     and_then (insert_user bcrypt same_text now dto s) (\<lambda>(user, s1).
     and_then (createSpaceWithOwner now \<lparr>ns_name = ''Personal'', ns_type = PERSONAL,
         ns_currency_id = cu_base_currency_id dto\<rparr> (u_id user) s1) (\<lambda>(_, s2).
       Inr (user, s2)))"

text \<open>The currency of the space a user is a member of first.\<close>

definition set_currency :: "int \<Rightarrow> nat \<Rightarrow> nat \<Rightarrow> db \<Rightarrow> exception + db" where
  "set_currency now spaceId currencyId s =
     (if find_currency currencyId s = None then Inl no_referenced_row
      else Inr (s\<lparr>spaces := (spaces s)\<lparr>rows := update_rows (\<lambda>p. sp_id p = spaceId)
        (\<lambda>p. p\<lparr>sp_currency_id := currencyId, sp_updated_at := current_second now\<rparr>) (rows (spaces s))\<rparr>\<rparr>))"

definition update_user :: "nat \<Rightarrow> (user \<Rightarrow> user) \<Rightarrow> db \<Rightarrow> db" where
  "update_user i f s = s\<lparr>users := (users s)\<lparr>rows := update_rows (\<lambda>u. u_id u = i) f (rows (users s))\<rparr>\<rparr>"

definition membership_of :: "nat \<Rightarrow> db \<Rightarrow> exception + space_member" where
  "membership_of userId s = need (find_row (\<lambda>m. m_user_id m = userId) (rows (members s))) EntityNotFoundError"

definition updateUnverified_work ::
  "(string \<Rightarrow> string) \<Rightarrow> int \<Rightarrow> nat \<Rightarrow> CreateUserDto \<Rightarrow> db \<Rightarrow> exception + db" where
  "updateUnverified_work bcrypt now userId dto s =
     and_then (assertFound (find_user userId s) NOT_FOUND) (\<lambda>user.
     and_then (guard (\<not> u_email_verified user) (api_error EMAIL_ALREADY_EXISTS BAD_REQUEST)) (\<lambda>_.
     let s1 = update_user userId (\<lambda>u. u\<lparr>u_name := cu_name dto, u_password := bcrypt (cu_password dto),
           u_updated_at := current_second now\<rparr>) s in
     and_then (membership_of userId s1) (\<lambda>spaceMember.
       set_currency now (m_space_id spaceMember) (cu_base_currency_id dto) s1)))"

text \<open>\<open>env\<close> are the transactions that commit before the user is read again.\<close>

definition updateUnverified ::
  "(string \<Rightarrow> string) \<Rightarrow> int \<Rightarrow> (db \<Rightarrow> db) \<Rightarrow> nat \<Rightarrow> CreateUserDto \<Rightarrow> db \<Rightarrow> exception + user \<times> db" where
  "updateUnverified bcrypt now env userId dto s =
     and_then (updateUnverified_work bcrypt now userId dto s) (\<lambda>s1.
     let s2 = env s1 in
     and_then (assertFound (find_user userId s2) NOT_FOUND) (\<lambda>user. Inr (user, s2)))"

definition refreshUnverified ::
  "(string \<Rightarrow> string) \<Rightarrow> int \<Rightarrow> (db \<Rightarrow> db) \<Rightarrow> user \<Rightarrow> CreateUserDto \<Rightarrow> db \<Rightarrow> exception + user \<times> db" where
  "refreshUnverified bcrypt now env existing dto s =
     and_then (guard (\<not> u_email_verified existing) (api_error EMAIL_ALREADY_EXISTS BAD_REQUEST)) (\<lambda>_.
       updateUnverified bcrypt now env (u_id existing) dto s)"

text \<open>\<open>env k\<close> are the transactions that commit before the \<open>k\<close>-th statement or transaction of the caller.\<close>

definition registerOrRefresh ::
  "(string \<Rightarrow> string) \<Rightarrow> (string \<Rightarrow> string \<Rightarrow> bool) \<Rightarrow> int \<Rightarrow> (nat \<Rightarrow> db \<Rightarrow> db) \<Rightarrow> CreateUserDto \<Rightarrow> db \<Rightarrow>
   exception + user \<times> db" where
  "registerOrRefresh bcrypt same_text now env dto s =
     (let s0 = env 0 s in
      case findByEmail same_text (cu_email dto) s0 of
        Some existing \<Rightarrow> refreshUnverified bcrypt now (env 2) existing dto (env 1 s0)
      | None \<Rightarrow>
          let s1 = env 1 s0 in
          (case register bcrypt same_text now dto s1 of
             Inr r \<Rightarrow> Inr r
           | Inl e \<Rightarrow>
               if \<not> isDuplicateKey e ''UQ_users_email'' then Inl e
               else
                 let s2 = env 2 s1 in
                 and_then (assertFound (findByEmail same_text (cu_email dto) s2) NOT_FOUND) (\<lambda>winner.
                   refreshUnverified bcrypt now (env 4) winner dto (env 3 s2))))"

text \<open>
  What is committed stays when a later step throws: an error comes with its state. \<open>mail\<close> is what
  sending the code throws, if anything.
\<close>

definition registerAndSendConfirmation ::
  "(string \<Rightarrow> string) \<Rightarrow> (string \<Rightarrow> string \<Rightarrow> bool) \<Rightarrow> (nat \<Rightarrow> int) \<Rightarrow> (nat \<Rightarrow> db \<Rightarrow> db) \<Rightarrow> string \<Rightarrow>
   (ReservedConfirmationCode \<Rightarrow> exception option) \<Rightarrow> CreateUserDto \<Rightarrow> db \<Rightarrow> (exception + user) \<times> db" where
  "registerAndSendConfirmation bcrypt same_text clk env code mail dto s =
     (case registerOrRefresh bcrypt same_text (clk 0) env dto s of
        Inl e \<Rightarrow> (Inl e, s)
      | Inr (user, s1) \<Rightarrow>
          let s2 = env 5 s1 in
          (case reserveSend (\<lambda>k. clk (k + 1)) code (u_id user) EMAIL s2 of
             Inl e \<Rightarrow> (Inl e, s2)
           | Inr (reservation, s3) \<Rightarrow>
               if \<not> rv_shouldSend reservation then (Inr user, s3)
               else
                 let s4 = env 6 s3 in
                 (case mail reservation of
                    None \<Rightarrow> (Inr user, markSent (clk 3) (rv_id reservation) (rv_attemptId reservation) s4)
                  | Some e \<Rightarrow> (Inl e, markFailed (rv_id reservation) (rv_attemptId reservation) s4))))"

section \<open>Confirmation\<close>

definition cash_wallet :: "int \<Rightarrow> nat \<Rightarrow> nat \<Rightarrow> wallet" where
  "cash_wallet now spaceId i = \<lparr>w_id = i, w_space_id = spaceId, w_wallet_name = ''Cash'', w_design = SLATE,
     w_is_deleted = False, w_deleted_at = None, w_created_at = current_second now, w_updated_at = current_second now\<rparr>"

definition initializeVerifiedUser :: "int \<Rightarrow> nat \<Rightarrow> db \<Rightarrow> exception + db" where
  "initializeVerifiedUser now userId s =
     and_then (assertFound (find_user userId s) NOT_FOUND) (\<lambda>user.
     if u_email_verified user then Inr s
     else
       let s1 = update_user userId (\<lambda>u. u\<lparr>u_email_verified := True, u_updated_at := current_second now\<rparr>) s in
       and_then (membership_of userId s1) (\<lambda>spaceMember.
       and_then (need (find_space (m_space_id spaceMember) s1) EntityNotFoundError) (\<lambda>space.
         Inr (createDefaultCategories now (sp_id space)
           (s1\<lparr>wallets := insert_auto (cash_wallet now (sp_id space)) (wallets s1)\<rparr>)))))"

definition completeEmailVerification :: "int \<Rightarrow> nat \<Rightarrow> db \<Rightarrow> exception + db" where
  "completeEmailVerification now userId s = initializeVerifiedUser now userId s"

definition generateAccessToken :: "user \<Rightarrow> AccessTokenPayload" where
  "generateAccessToken user = (u_id user, Some (u_auth_version user))"

record VerifyUserDto =
  vu_email :: string
  vu_code :: string

text \<open>A rejected code is a result that commits with the state.\<close>

definition verifyEmail_work ::
  "(nat \<Rightarrow> int) \<Rightarrow> user \<Rightarrow> string \<Rightarrow> db \<Rightarrow> exception + (exception + user) \<times> db" where
  "verifyEmail_work clk found code s =
     and_then (need (find_user (u_id found) s) (api_error NOT_FOUND STATUS_NOT_FOUND)) (\<lambda>user.
     and_then (guard (\<not> u_email_verified user) (api_error EMAIL_ALREADY_VERIFIED CONFLICT)) (\<lambda>_.
     and_then (need (lockActive (u_id user) EMAIL (clk 0) s) (api_error NOT_FOUND STATUS_NOT_FOUND)) (\<lambda>confirmationCode.
     if MAX_CONFIRMATION_CODE_ATTEMPTS \<le> cc_attempts confirmationCode
     then Inr (Inl (api_error TOO_MANY_ATTEMPTS TOO_MANY_REQUESTS), expire (clk 1) (cc_id confirmationCode) s)
     else if \<not> constantTimeEquals (cc_confirmation_code confirmationCode) code
     then Inr (Inl (api_error INVALID_CREDENTIALS BAD_REQUEST), incrementAttempts (cc_id confirmationCode) s)
     else
       let s1 = expire (clk 1) (cc_id confirmationCode) s in
       and_then (initializeVerifiedUser (clk 2) (u_id user) s1) (\<lambda>s2. Inr (Inr user, s2)))))"

text \<open>\<open>before\<close> is the state the address is looked up in.\<close>

definition verifyEmail ::
  "(string \<Rightarrow> string \<Rightarrow> bool) \<Rightarrow> (nat \<Rightarrow> int) \<Rightarrow> db \<Rightarrow> VerifyUserDto \<Rightarrow> db \<Rightarrow>
   (exception + AccessTokenPayload) \<times> db" where
  "verifyEmail same_text clk before dto s =
     (case findByEmail same_text (vu_email dto) before of
        None \<Rightarrow> (Inl (api_error NOT_FOUND STATUS_NOT_FOUND), s)
      | Some found \<Rightarrow>
          (case verifyEmail_work clk found (vu_code dto) s of
             Inl e \<Rightarrow> (Inl e, s)
           | Inr (outcome, s1) \<Rightarrow> (and_then outcome (\<lambda>user. Inr (generateAccessToken user)), s1)))"

section \<open>Login\<close>

definition login ::
  "(string \<Rightarrow> string \<Rightarrow> bool) \<Rightarrow> (string \<Rightarrow> string \<Rightarrow> bool) \<Rightarrow> string \<Rightarrow> db \<Rightarrow> string \<Rightarrow> string \<Rightarrow> db \<Rightarrow>
   exception + AccessTokenPayload" where
  "login same_text bcrypt_compare dummy_hash before email password s =
     (let user = findByEmail same_text email before;
          isPasswordValid = bcrypt_compare password (case user of None \<Rightarrow> dummy_hash | Some u \<Rightarrow> u_password u) in
     and_then (need user (api_error INVALID_CREDENTIALS UNAUTHORIZED)) (\<lambda>user.
     and_then (guard isPasswordValid (api_error INVALID_CREDENTIALS UNAUTHORIZED)) (\<lambda>_.
     and_then (guard (u_email_verified user) (api_error EMAIL_NOT_VERIFIED FORBIDDEN)) (\<lambda>_.
     and_then (need (find_user (u_id user) s) (api_error INVALID_CREDENTIALS UNAUTHORIZED)) (\<lambda>current.
     and_then (guard (u_password current = u_password user \<and> u_auth_version current = u_auth_version user)
         (api_error INVALID_CREDENTIALS UNAUTHORIZED)) (\<lambda>_.
       Inr (generateAccessToken current)))))))"

definition getProfile :: "nat \<Rightarrow> db \<Rightarrow> exception + user" where
  "getProfile userId s = assertFound (find_user userId s) NOT_FOUND"

section \<open>Access tokens\<close>

definition findAuthVersion :: "nat \<Rightarrow> db \<Rightarrow> nat option" where
  "findAuthVersion i s = map_option u_auth_version (find_user i s)"

definition UNVERSIONED_TOKEN_VERSION :: nat where
  "UNVERSIONED_TOKEN_VERSION = 1"

definition validate :: "AccessTokenPayload \<Rightarrow> db \<Rightarrow> exception + nat" where
  "validate payload s =
     (if findAuthVersion (fst payload) s = Some (case snd payload of None \<Rightarrow> UNVERSIONED_TOKEN_VERSION | Some v \<Rightarrow> v)
      then Inr (fst payload) else Inl UnauthorizedException)"

end
