(* ===== verification/Invites.thy ===== *)
theory Invites
  imports Users
begin

text \<open>
  \<open>modules/spaces/space-invites.service.ts\<close> and \<open>space-members.service.ts\<close>: inviting an address,
  joining with a link or a code, and leaving. An operation checks again, under its locks, what it read
  before: \<open>view k\<close> is the state its \<open>k\<close>-th read outside the locks sees, \<open>s\<close> the state under them, and
  \<open>clk k\<close> its \<open>k\<close>-th reading of the clock.
\<close>

section \<open>Shared parts\<close>

definition getActive :: "int \<Rightarrow> nat \<Rightarrow> db \<Rightarrow> space_invite list" where
  "getActive now spaceId s = sort_key (\<lambda>v. (i_created_at v, i_id v))
     (filter (\<lambda>v. i_space_id v = spaceId \<and> isActiveInvite v now) (rows (invites s)))"

definition lockOwner :: "nat \<Rightarrow> nat \<Rightarrow> db \<Rightarrow> exception + unit" where
  "lockOwner spaceId userId s =
     and_then (lockMembership spaceId userId s) (\<lambda>member.
       guard (m_role member = OWNER) (api_error FORBIDDEN_SPACE FORBIDDEN))"

definition lockInvite :: "nat \<Rightarrow> db \<Rightarrow> space_invite option" where
  "lockInvite inviteId s = head_opt (lockRows i_id [inviteId] (rows (invites s)))"

definition loadSpace :: "nat \<Rightarrow> db \<Rightarrow> exception + space \<times> currency" where
  "loadSpace spaceId s = and_then (getSpace spaceId s) (\<lambda>space. assertFound space NOT_FOUND)"

record SpaceInviteState =
  iv_id :: nat
  iv_email :: string
  iv_expires_at :: int
  iv_email_status :: SpaceInviteEmailStatus
  iv_resend_after_seconds :: int

definition toState :: "int \<Rightarrow> db \<Rightarrow> space_invite \<Rightarrow> SpaceInviteState" where
  "toState now s invite = (let view = describe_one now s invite in
     \<lparr>iv_id = i_id invite, iv_email = i_email invite, iv_expires_at = i_expires_at invite,
      iv_email_status = dv_email_status view, iv_resend_after_seconds = dv_resend_after_seconds view\<rparr>)"

section \<open>Inviting\<close>

text \<open>The result is the invitation and the ids to deliver after the commit.\<close>

definition create_invite ::
  "(string \<Rightarrow> string \<Rightarrow> bool) \<Rightarrow> (nat \<Rightarrow> int) \<Rightarrow> string \<times> string \<Rightarrow> nat \<Rightarrow> nat \<Rightarrow> string \<Rightarrow> db \<Rightarrow>
   exception + (space_invite \<times> nat list) \<times> db" where
  "create_invite same_text clk secrets userId spaceId email s =
     (let address = normalizeInviteEmail email in
     and_then (lockOwner spaceId userId s) (\<lambda>_.
     and_then (lockSpace spaceId s) (\<lambda>_.
     and_then (getSpace spaceId s) (\<lambda>found.
     and_then (assertFound found NOT_FOUND) (\<lambda>(space, _).
     and_then (guard (sp_type space \<noteq> PERSONAL) (api_error SPACE_PERSONAL_NO_INVITES BAD_REQUEST)) (\<lambda>_.
     let active = getActive (clk 0) (sp_id space) s in
       (case find_row (\<lambda>invite. isInviteFor invite address) active of
          Some existing \<Rightarrow> Inr ((existing, []), s)
        | None \<Rightarrow>
            and_then (guard (length active < MAX_PENDING_INVITES_PER_SPACE)
                (api_error SPACE_INVITE_LIMIT_REACHED BAD_REQUEST)) (\<lambda>_.
            and_then (assertCanSchedule same_text (clk 1) \<lparr>sr_senderId = userId, sr_spaceId = Some spaceId,
                sr_emails = [address], sr_inviteId = None\<rparr> s) (\<lambda>_.
            let saved = newInvite (clk 1) secrets (sp_id space) address (next_id (invites s)) in
              Inr ((saved, [i_id saved]), recordScheduled (clk 1) userId [saved] (insert_invites [saved] s)))))))))))"

definition resend ::
  "(string \<Rightarrow> string \<Rightarrow> bool) \<Rightarrow> int \<Rightarrow> string \<Rightarrow> nat \<Rightarrow> nat \<Rightarrow> nat \<Rightarrow> db \<Rightarrow>
   exception + (space_invite \<times> nat list) \<times> db" where
  "resend same_text now nonce userId spaceId inviteId s =
     and_then (lockOwner spaceId userId s) (\<lambda>_.
     and_then (lockSpace spaceId s) (\<lambda>_.
     and_then (case lockInvite inviteId s of
           None \<Rightarrow> Inl (api_error NOT_FOUND STATUS_NOT_FOUND)
         | Some locked \<Rightarrow> if i_space_id locked \<noteq> spaceId \<or> \<not> isActiveInvite locked now
             then Inl (api_error NOT_FOUND STATUS_NOT_FOUND) else Inr locked) (\<lambda>locked.
     and_then (assertCanSchedule same_text now \<lparr>sr_senderId = userId, sr_spaceId = Some spaceId,
         sr_emails = [i_email locked], sr_inviteId = Some (i_id locked)\<rparr> s) (\<lambda>_.
     let status = effectiveStatus locked now in
     if status = EMAIL_QUEUED then (let (invite, s') = expedite now locked s in Inr ((invite, [i_id invite]), s'))
     else if status \<noteq> EMAIL_SENDING then
       (let (invite, s') = requeue now nonce userId locked s in Inr ((invite, [i_id invite]), s'))
     else Inr ((locked, []), s)))))"

definition revoke_row :: "int \<Rightarrow> space_invite \<Rightarrow> space_invite" where
  "revoke_row now v = v\<lparr>i_revoked_at := Some (to_seconds now), i_email_next_attempt_at := None,
     i_email_lease_expires_at := None, i_email_attempt_id := i_email_attempt_id v + 1\<rparr>"

definition revoke :: "int \<Rightarrow> nat \<Rightarrow> nat \<Rightarrow> nat \<Rightarrow> db \<Rightarrow> exception + unit \<times> db" where
  "revoke now userId spaceId inviteId s =
     and_then (lockOwner spaceId userId s) (\<lambda>_.
     case lockInvite inviteId s of
       None \<Rightarrow> Inl (api_error NOT_FOUND STATUS_NOT_FOUND)
     | Some invite \<Rightarrow>
         if i_space_id invite \<noteq> spaceId \<or> i_accepted_at invite \<noteq> None \<or> i_revoked_at invite \<noteq> None
         then Inl (api_error NOT_FOUND STATUS_NOT_FOUND)
         else Inr ((), update_invite (i_id invite) (revoke_row now) s))"

section \<open>Joining\<close>

datatype InviteCredential = TOKEN | CODE

definition unusable :: "InviteCredential \<Rightarrow> exception" where
  "unusable credential = (if credential = TOKEN then api_error SPACE_INVITE_UNUSABLE STATUS_NOT_FOUND
     else api_error NOT_FOUND STATUS_NOT_FOUND)"

definition alreadyMember :: "nat \<Rightarrow> exception" where
  "alreadyMember spaceId = ApiException SPACE_ALREADY_MEMBER CONFLICT [(''spaceId'', spaceId)]"

definition assertRecipient :: "int \<Rightarrow> space_invite \<Rightarrow> user \<Rightarrow> InviteCredential \<Rightarrow> exception + unit" where
  "assertRecipient now invite recipient credential =
     (if isInviteFor invite (u_email recipient) then Inr ()
      else if credential = TOKEN \<and> isActiveInvite invite now
        then Inl (api_error SPACE_INVITE_EMAIL_MISMATCH FORBIDDEN)
      else Inl (unusable credential))"

definition accept_row :: "int \<Rightarrow> nat \<Rightarrow> space_invite \<Rightarrow> space_invite" where
  "accept_row now userId v = v\<lparr>i_accepted_at := Some (to_seconds now), i_accepted_by_user_id := Some userId,
     i_email_next_attempt_at := None, i_email_lease_expires_at := None,
     i_email_attempt_id := i_email_attempt_id v + 1\<rparr>"

text \<open>\<open>before\<close> is the state the invitation is located in before the space is locked.\<close>

definition join ::
  "(nat \<Rightarrow> int) \<Rightarrow> db \<Rightarrow> user \<Rightarrow> nat \<Rightarrow> InviteCredential \<Rightarrow> db \<Rightarrow> exception + (space \<times> currency) \<times> db" where
  "join clk before recipient inviteId credential s =
     and_then (need (find_invite inviteId before) (unusable credential)) (\<lambda>located.
     and_then (lockSpace (i_space_id located) s) (\<lambda>_.
     and_then (need (lockInvite inviteId s) (unusable credential)) (\<lambda>invite.
     and_then (assertRecipient (clk 0) invite recipient credential) (\<lambda>_.
     case find_member (i_space_id invite) (u_id recipient) s of
       Some member \<Rightarrow>
         if i_accepted_by_user_id invite = Some (u_id recipient)
         then and_then (loadSpace (i_space_id invite) s) (\<lambda>space. Inr (space, s))
         else Inl (alreadyMember (i_space_id invite))
     | None \<Rightarrow>
         and_then (guard (isActiveInvite invite (clk 1)) (unusable credential)) (\<lambda>_.
         and_then (guard (length (filter (\<lambda>m. m_space_id m = i_space_id invite) (rows (members s)))
             < MAX_MEMBERS_PER_SPACE) (api_error SPACE_MEMBER_LIMIT_REACHED BAD_REQUEST)) (\<lambda>_.
         and_then (insert_member (clk 2) (i_space_id invite) (u_id recipient) (i_role invite) s) (\<lambda>s1.
         let s2 = update_invite (i_id invite) (accept_row (clk 2) (u_id recipient)) s1 in
         and_then (loadSpace (i_space_id invite) s2) (\<lambda>space. Inr (space, s2)))))))))"

definition getRecipient :: "nat \<Rightarrow> db \<Rightarrow> exception + user" where
  "getRecipient userId s = assertFound (find_user userId s) NOT_FOUND"

definition acceptToken ::
  "(js \<Rightarrow> string) \<Rightarrow> (nat \<Rightarrow> int) \<Rightarrow> (nat \<Rightarrow> db) \<Rightarrow> nat \<Rightarrow> string \<Rightarrow> db \<Rightarrow>
   exception + (space \<times> currency) \<times> db" where
  "acceptToken hmac clk view userId token s =
     and_then (getRecipient userId (view 0)) (\<lambda>recipient.
     and_then (need (findByToken hmac token (view 1)) (unusable TOKEN)) (\<lambda>invite.
       join clk (view 2) recipient (i_id invite) TOKEN s))"

text \<open>The invitations of an address with a code, the latest first; \<open>clk k\<close> from 3 on is the clock of the search.\<close>

definition accept ::
  "(string \<Rightarrow> string \<Rightarrow> bool) \<Rightarrow> (nat \<Rightarrow> int) \<Rightarrow> (nat \<Rightarrow> db) \<Rightarrow> nat \<Rightarrow> string \<Rightarrow> db \<Rightarrow>
   exception + (space \<times> currency) \<times> db" where
  "accept same_text clk view userId code s =
     and_then (getRecipient userId (view 0)) (\<lambda>recipient.
     let candidates = filter (\<lambda>v. isInviteFor v (u_email recipient)) (rev (sort_key i_id
           (filter (\<lambda>v. same_text (i_email v) (u_email recipient) \<and> i_code v = code) (rows (invites (view 1))))));
         invite = (case find_row (\<lambda>(k, v). isActiveInvite v (clk (3 + k))) (enumerate 0 candidates) of
             Some (_, v) \<Rightarrow> Some v
           | None \<Rightarrow> find_row (\<lambda>v. i_accepted_by_user_id v = Some (u_id recipient)) candidates) in
     and_then (need invite (unusable CODE)) (\<lambda>invite.
       join clk (view 2) recipient (i_id invite) CODE s))"

record SpaceInvitePreview =
  pv_name :: string
  pv_currency :: currency
  pv_expires_at :: int

definition preview ::
  "(js \<Rightarrow> string) \<Rightarrow> (nat \<Rightarrow> int) \<Rightarrow> (nat \<Rightarrow> db) \<Rightarrow> nat \<Rightarrow> string \<Rightarrow> exception + SpaceInvitePreview" where
  "preview hmac clk view userId token =
     and_then (getRecipient userId (view 0)) (\<lambda>recipient.
     and_then (need (findByToken hmac token (view 1)) (unusable TOKEN)) (\<lambda>invite.
     and_then (assertRecipient (clk 0) invite recipient TOKEN) (\<lambda>_.
     and_then (guard (find_member (i_space_id invite) userId (view 2) = None)
         (alreadyMember (i_space_id invite))) (\<lambda>_.
     and_then (guard (isActiveInvite invite (clk 1)) (unusable TOKEN)) (\<lambda>_.
     and_then (getSpace (i_space_id invite) (view 3)) (\<lambda>found.
     and_then (need found (unusable TOKEN)) (\<lambda>(space, currency).
       Inr \<lparr>pv_name = sp_name space, pv_currency = currency, pv_expires_at = i_expires_at invite\<rparr>)))))))"

section \<open>Members\<close>

datatype MemberViewType = MEMBER_ROW | INVITE_ROW

record SpaceMemberView =
  mv_type :: MemberViewType
  mv_id :: nat
  mv_user_id :: "nat option"
  mv_name :: "string option"
  mv_email :: string
  mv_role :: "SpaceRole option"
  mv_can_remove :: bool
  mv_email_status :: "SpaceInviteEmailStatus option"
  mv_can_resend :: bool
  mv_resend_after_seconds :: "int option"

text \<open>Members with their users, which a foreign key makes present, in the order they joined.\<close>

definition getAllMembers :: "nat \<Rightarrow> db \<Rightarrow> exception + (space_member \<times> user) list" where
  "getAllMembers spaceId s =
     map_throw (\<lambda>m. and_then (need (find_user (m_user_id m) s) (JsError ''Error'' ''Relation \"user\" is not loaded''))
       (\<lambda>u. Inr (m, u)))
     (sort_key m_created_at (filter (\<lambda>m. m_space_id m = spaceId) (rows (members s))))"

definition member_view :: "bool \<Rightarrow> nat \<Rightarrow> space_member \<times> user \<Rightarrow> SpaceMemberView" where
  "member_view isOwner userId = (\<lambda>(m, u). \<lparr>mv_type = MEMBER_ROW, mv_id = m_id m, mv_user_id = Some (m_user_id m),
     mv_name = Some (u_name u), mv_email = u_email u, mv_role = Some (m_role m),
     mv_can_remove = (isOwner \<and> m_user_id m \<noteq> userId), mv_email_status = None, mv_can_resend = False,
     mv_resend_after_seconds = None\<rparr>)"

definition invite_view :: "bool \<Rightarrow> space_invite \<Rightarrow> InviteDeliveryView \<Rightarrow> SpaceMemberView" where
  "invite_view isOwner invite delivery = \<lparr>mv_type = INVITE_ROW, mv_id = i_id invite, mv_user_id = None,
     mv_name = None, mv_email = i_email invite, mv_role = None, mv_can_remove = isOwner,
     mv_email_status = Some (dv_email_status delivery),
     mv_can_resend = (isOwner \<and> dv_email_status delivery \<noteq> EMAIL_SENDING \<and> dv_resend_after_seconds delivery = 0),
     mv_resend_after_seconds = Some (dv_resend_after_seconds delivery)\<rparr>"

definition getMembersWithInvites ::
  "(nat \<Rightarrow> int) \<Rightarrow> (nat \<Rightarrow> db) \<Rightarrow> nat \<Rightarrow> nat \<Rightarrow> exception + SpaceMemberView list" where
  "getMembersWithInvites clk view userId spaceId =
     and_then (assertMembership spaceId userId None (view 0)) (\<lambda>caller.
     let isOwner = (m_role caller = OWNER) in
     and_then (getAllMembers spaceId (view 1)) (\<lambda>found.
     let invs = getActive (clk 0) spaceId (view 2) in
       Inr (map (member_view isOwner userId) found @
            map (\<lambda>invite. invite_view isOwner invite (describe_one (clk 1) (view 3) invite)) invs)))"

definition delete_member :: "nat \<Rightarrow> db \<Rightarrow> db" where
  "delete_member i s = s\<lparr>members := (members s)\<lparr>rows := delete_rows (\<lambda>m. m_id m = i) (rows (members s))\<rparr>\<rparr>"

definition set_role :: "nat \<Rightarrow> SpaceRole \<Rightarrow> db \<Rightarrow> db" where
  "set_role i role s = s\<lparr>members := (members s)\<lparr>rows :=
     update_rows (\<lambda>m. m_id m = i) (\<lambda>m. m\<lparr>m_role := role\<rparr>) (rows (members s))\<rparr>\<rparr>"

text \<open>The member who joined first, other than the actor.\<close>

definition successor_of :: "locked_members \<Rightarrow> space_member option" where
  "successor_of locked = head_opt (sort_key (\<lambda>m. (m_created_at m, m_id m))
     (filter (\<lambda>m. m_id m \<noteq> m_id (lm_actor locked)) (lm_members locked)))"

definition leave_or_remove_work ::
  "(nat \<Rightarrow> db \<Rightarrow> bool) \<Rightarrow> locked_members \<Rightarrow> nat \<Rightarrow> nat \<Rightarrow> db \<Rightarrow> exception + unit \<times> db" where
  "leave_or_remove_work restricted locked actingUserId targetUserId s =
     (if targetUserId \<noteq> actingUserId then
        if m_role (lm_actor locked) \<noteq> OWNER then Inl (api_error FORBIDDEN_SPACE FORBIDDEN)
        else (case find_row (\<lambda>m. m_user_id m = targetUserId) (lm_members locked) of
            None \<Rightarrow> Inl (api_error NOT_FOUND STATUS_NOT_FOUND)
          | Some target \<Rightarrow> Inr ((), delete_member (m_id target) s))
      else if m_role (lm_actor locked) \<noteq> OWNER then Inr ((), delete_member (m_id (lm_actor locked)) s)
      else (case successor_of locked of
          None \<Rightarrow> removeOwned restricted locked s
        | Some successor \<Rightarrow> Inr ((), set_role (m_id successor) OWNER (delete_member (m_id (lm_actor locked)) s))))"

definition leaveOrRemove ::
  "(nat \<Rightarrow> db \<Rightarrow> bool) \<Rightarrow> (nat \<Rightarrow> db) \<Rightarrow> nat \<Rightarrow> nat \<Rightarrow> nat \<Rightarrow> db \<Rightarrow> exception + unit \<times> db" where
  "leaveOrRemove restricted view spaceId actingUserId targetUserId s =
     and_then (assertMembership spaceId actingUserId None (view 0)) (\<lambda>_.
     and_then (lockMembers spaceId actingUserId (view 1) (view 2) s) (\<lambda>locked.
       leave_or_remove_work restricted locked actingUserId targetUserId s))"

end
