(* ===== verification/Membership.thy ===== *)
theory Membership
  imports Invites SpaceHistory
begin

text \<open>
  What the operations on spaces, members and invitations do to the database when they succeed, and
  the invariant of members: one owner in every space, one membership for a user and a space, at most
  twenty members.
\<close>

section \<open>Lookups\<close>

lemma find_invite_Some: "find_invite i s = Some v \<Longrightarrow> v \<in> set (rows (invites s)) \<and> i_id v = i"
  unfolding find_invite_def by (drule find_row_Some) simp

lemma lockInvite_eq:
  "table_ok i_id (invites s) \<Longrightarrow> lockInvite i s = find_invite i s"
  by (simp add: lockInvite_def find_invite_def table_ok_def lockRows_one)

lemma lockOwner_eq_Inr [result_iffs]:
  "lockOwner sp u s = Inr x \<longleftrightarrow> (\<exists>m. find_member sp u s = Some m \<and> m_role m = OWNER)"
  by (auto simp: lockOwner_def and_then_eq_Inr lockMembership_eq_Inr guard_eq_Inr)

lemma loadSpace_eq_Inr:
  "loadSpace sp s = Inr (p, c) \<longleftrightarrow> find_space sp s = Some p \<and> find_currency (sp_currency_id p) s = Some c"
  by (auto simp: loadSpace_def getSpace_def and_then_eq_Inr assertFound_eq_Inr split: option.splits)

lemma find_space_Some: "find_space i s = Some p \<Longrightarrow> p \<in> set (rows (spaces s)) \<and> sp_id p = i"
  unfolding find_space_def by (drule find_row_Some) simp

section \<open>The invariant of members\<close>

definition owned :: "space_member list \<Rightarrow> bool" where
  "owned ms \<longleftrightarrow> (\<forall>m \<in> set ms. \<exists>o' \<in> set ms. m_space_id o' = m_space_id m \<and> m_role o' = OWNER) \<and>
     (\<forall>m \<in> set ms. \<forall>o' \<in> set ms. m_role m = OWNER \<and> m_role o' = OWNER \<and> m_space_id m = m_space_id o' \<longrightarrow> m = o')"

definition members_of :: "nat \<Rightarrow> db \<Rightarrow> space_member list" where
  "members_of sp s = filter (\<lambda>m. m_space_id m = sp) (rows (members s))"

definition members_ok :: "db \<Rightarrow> bool" where
  "members_ok s \<longleftrightarrow> table_ok m_id (members s) \<and> table_ok sp_id (spaces s) \<and> table_ok i_id (invites s) \<and>
     distinct (map (\<lambda>m. (m_space_id m, m_user_id m)) (rows (members s))) \<and> owned (rows (members s)) \<and>
     (\<forall>sp. length (members_of sp s) \<le> MAX_MEMBERS_PER_SPACE) \<and>
     m_space_id ` set (rows (members s)) = sp_id ` set (rows (spaces s)) \<and>
     (\<forall>v \<in> set (rows (invites s)). i_role v = MEMBER)"

lemma members_ok_cong:
  "members s' = members s \<Longrightarrow> spaces s' = spaces s \<Longrightarrow> invites s' = invites s \<Longrightarrow> members_ok s' = members_ok s"
  by (simp add: members_ok_def members_of_def)

lemma members_okD:
  assumes "members_ok s"
  shows "table_ok m_id (members s)" "table_ok sp_id (spaces s)" "table_ok i_id (invites s)"
    "distinct (map (\<lambda>m. (m_space_id m, m_user_id m)) (rows (members s)))" "owned (rows (members s))"
    "length (members_of sp s) \<le> MAX_MEMBERS_PER_SPACE"
    "m_space_id ` set (rows (members s)) = sp_id ` set (rows (spaces s))"
    "v \<in> set (rows (invites s)) \<Longrightarrow> i_role v = MEMBER"
  using assms by (auto simp: members_ok_def)

lemma distinct_members: "members_ok s \<Longrightarrow> distinct (map m_id (rows (members s)))"
  by (simp add: members_ok_def table_ok_def)

lemma find_member_key:
  assumes ok: "members_ok s" and m: "m \<in> set (rows (members s))"
  shows "find_member (m_space_id m) (m_user_id m) s = Some m"
proof -
  have "find_row (\<lambda>x. (m_space_id x, m_user_id x) = (m_space_id m, m_user_id m)) (rows (members s)) = Some m"
    using members_okD(4) [OF ok] m by (rule find_row_key)
  then show ?thesis by (simp add: find_member_def)
qed

text \<open>A new member: the owner of a space without members, or a member of a space that has one.\<close>

lemma owned_append:
  assumes "owned ms" and "m_role m = OWNER \<longleftrightarrow> (\<forall>x \<in> set ms. m_space_id x \<noteq> m_space_id m)"
  shows "owned (ms @ [m])"
proof -
  have same: "\<And>x. x \<in> set ms \<Longrightarrow> \<exists>o' \<in> set ms. m_space_id o' = m_space_id x \<and> m_role o' = OWNER"
    and one: "\<And>x y. x \<in> set ms \<Longrightarrow> y \<in> set ms \<Longrightarrow> m_role x = OWNER \<Longrightarrow> m_role y = OWNER \<Longrightarrow>
      m_space_id x = m_space_id y \<Longrightarrow> x = y"
    using assms(1) by (auto simp: owned_def)
  show ?thesis
  proof (cases "m_role m = OWNER")
    case True
    with assms(2) have "\<And>x. x \<in> set ms \<Longrightarrow> m_space_id x \<noteq> m_space_id m" by simp
    with True same one show ?thesis unfolding owned_def by (simp add: ball_Un bex_Un) metis
  next
    case False
    with assms(2) obtain x where "x \<in> set ms" "m_space_id x = m_space_id m" by blast
    with same obtain o' where "o' \<in> set ms" "m_space_id o' = m_space_id m" "m_role o' = OWNER" by metis
    with False same one show ?thesis unfolding owned_def by (auto simp: ball_Un bex_Un)
  qed
qed

text \<open>A member that is no owner leaves, or a whole space goes.\<close>

lemma owned_delete:
  assumes "owned ms"
    and "\<And>m. m \<in> set ms \<Longrightarrow> p m \<Longrightarrow> m_role m = OWNER \<Longrightarrow> \<forall>x \<in> set ms. m_space_id x = m_space_id m \<longrightarrow> p x"
  shows "owned (delete_rows p ms)"
  unfolding owned_def
proof (intro conjI ballI impI)
  fix m assume m: "m \<in> set (delete_rows p ms)"
  with assms(1) obtain o' where o': "o' \<in> set ms" "m_space_id o' = m_space_id m" "m_role o' = OWNER"
    unfolding owned_def set_delete_rows by blast
  have "\<not> p o'"
  proof
    assume "p o'"
    from assms(2) [OF o'(1) this o'(3)] o'(2) m show False by auto
  qed
  with o' show "\<exists>o' \<in> set (delete_rows p ms). m_space_id o' = m_space_id m \<and> m_role o' = OWNER" by auto
qed (use assms(1) in \<open>auto simp: owned_def\<close>)

text \<open>The owner leaves and another member becomes the owner.\<close>

lemma owned_hand_over:
  assumes own: "owned ms" and ids: "distinct (map m_id ms)"
    and a: "a \<in> set ms" "m_role a = OWNER" and b: "b \<in> set ms" "b \<noteq> a" "m_space_id b = m_space_id a"
  shows "owned (update_rows (\<lambda>m. m_id m = m_id b) (\<lambda>m. m\<lparr>m_role := OWNER\<rparr>) (delete_rows (\<lambda>m. m_id m = m_id a) ms))"
proof -
  have key: "m_id x = m_id y \<longleftrightarrow> x = y" if "x \<in> set ms" "y \<in> set ms" for x y
    using distinct_key_eq [OF ids that] by blast
  let ?f = "\<lambda>m. if m_id m = m_id b then m\<lparr>m_role := OWNER\<rparr> else m"
  let ?ms = "update_rows (\<lambda>m. m_id m = m_id b) (\<lambda>m. m\<lparr>m_role := OWNER\<rparr>) (delete_rows (\<lambda>m. m_id m = m_id a) ms)"
  have set: "set ?ms = ?f ` {m \<in> set ms. m \<noteq> a}"
    using a key by (auto simp: set_update_rows)
  have space: "m_space_id (?f m) = m_space_id m" for m by simp
  have owner: "m_role (?f m) = OWNER \<longleftrightarrow> m = b \<or> (m_role m = OWNER \<and> m_space_id m \<noteq> m_space_id a)"
    if "m \<in> set ms" "m \<noteq> a" for m
    using that a b own key unfolding owned_def by auto
  show ?thesis unfolding owned_def set
  proof (intro conjI ballI impI)
    fix m assume "m \<in> ?f ` {m \<in> set ms. m \<noteq> a}"
    then obtain x where x: "x \<in> set ms" "x \<noteq> a" "m = ?f x" by blast
    from own x(1) obtain o' where o': "o' \<in> set ms" "m_space_id o' = m_space_id x" "m_role o' = OWNER"
      unfolding owned_def by blast
    show "\<exists>o' \<in> ?f ` {m \<in> set ms. m \<noteq> a}. m_space_id o' = m_space_id m \<and> m_role o' = OWNER"
    proof (cases "m_space_id x = m_space_id a")
      case True
      then show ?thesis using b owner [OF b(1,2)] x(3) by (intro bexI [of _ "?f b"]) auto
    next
      case False
      then have "o' \<noteq> a" using o' by auto
      with owner [of o'] o' False x(3) show ?thesis by (intro bexI [of _ "?f o'"]) auto
    qed
  next
    fix m n assume "m \<in> ?f ` {m \<in> set ms. m \<noteq> a}" "n \<in> ?f ` {m \<in> set ms. m \<noteq> a}"
      and same: "m_role m = OWNER \<and> m_role n = OWNER \<and> m_space_id m = m_space_id n"
    then obtain x y where x: "x \<in> set ms" "x \<noteq> a" "m = ?f x" and y: "y \<in> set ms" "y \<noteq> a" "n = ?f y" by blast
    have "x = y" using owner [OF x(1,2)] owner [OF y(1,2)] same x y own b a
      unfolding owned_def x(3) y(3) space by metis
    then show "m = n" using x y by simp
  qed
qed


section \<open>Effects of joining\<close>

lemma lockInvite_ok: "members_ok s \<Longrightarrow> lockInvite i s = find_invite i s"
  by (simp add: lockInvite_eq members_okD)

lemma assertRecipient_eq_Inr [result_iffs]:
  "assertRecipient now v u cred = Inr x \<longleftrightarrow> isInviteFor v (u_email u)"
  by (auto simp: assertRecipient_def)

lemma insert_member_eq_Inr [result_iffs]:
  "insert_member now sp u role s = Inr s' \<longleftrightarrow> find_member sp u s = None \<and>
    s' = s\<lparr>members := insert_auto (new_member now sp u role) (members s)\<rparr>"
  by (auto simp: insert_member_def)

text \<open>
  A join that succeeds returns the space of the invitation. Either the caller had joined with it
  before, or the invitation is active, and the caller becomes a member and the invitation accepted.
\<close>

definition joined_by :: "(nat \<Rightarrow> int) \<Rightarrow> space_invite \<Rightarrow> nat \<Rightarrow> db \<Rightarrow> db" where
  "joined_by clk v userId s =
     s\<lparr>members := insert_auto (new_member (clk 2) (i_space_id v) userId (i_role v)) (members s),
       invites := (invites s)\<lparr>rows := update_rows (\<lambda>w. i_id w = i_id v) (accept_row (clk 2) userId) (rows (invites s))\<rparr>\<rparr>"

lemma joined_by_simps [simp]:
  "spaces (joined_by clk v u s) = spaces s" "currencies (joined_by clk v u s) = currencies s"
  by (simp_all add: joined_by_def)

lemma join_iff:
  assumes "members_ok s"
  shows "join clk before r i cred s = Inr ((p, c), s') \<longleftrightarrow>
    find_invite i before \<noteq> None \<and>
    (\<exists>v. find_invite i s = Some v \<and> isInviteFor v (u_email r) \<and>
       find_space (i_space_id v) s = Some p \<and> find_currency (sp_currency_id p) s = Some c \<and>
       (if is_member (i_space_id v) (u_id r) s then i_accepted_by_user_id v = Some (u_id r) \<and> s' = s
        else isActiveInvite v (clk 1) \<and> length (members_of (i_space_id v) s) < MAX_MEMBERS_PER_SPACE \<and>
          s' = joined_by clk v (u_id r) s))"
  (is "?l = ?r")
proof -
  have other: "find_space j (joined_by clk v u s) = find_space j s"
    "find_currency j (joined_by clk v u s) = find_currency j s" for j v u
    by (simp_all add: find_space_def find_currency_def)
  have same: "update_invite (i_id v) (accept_row (clk 2) u)
      (s\<lparr>members := insert_auto (new_member (clk 2) (i_space_id v) u (i_role v)) (members s)\<rparr>) = joined_by clk v u s" for v u
    by (simp add: update_invite_def joined_by_def)
  show ?thesis
  proof (cases "find_invite i s")
    case None
    then show ?thesis by (auto simp: join_def and_then_eq_Inr need_eq_Inr lockInvite_ok [OF assms])
  next
    case (Some v)
    show ?thesis
    proof (cases "find_member (i_space_id v) (u_id r) s")
      case None
      then have "\<not> is_member (i_space_id v) (u_id r) s" by (simp add: find_member_None)
      with None Some show ?thesis
        by (auto simp: join_def and_then_eq_Inr need_eq_Inr guard_eq_Inr lockInvite_ok [OF assms]
          assertRecipient_eq_Inr insert_member_eq_Inr members_of_def Let_def same loadSpace_eq_Inr other)
    next
      case (Some m)
      then have "is_member (i_space_id v) (u_id r) s" using find_member_None [of "i_space_id v" "u_id r" s] by simp
      with Some \<open>find_invite i s = Some v\<close> show ?thesis
        by (auto simp: join_def and_then_eq_Inr need_eq_Inr lockInvite_ok [OF assms]
          assertRecipient_eq_Inr loadSpace_eq_Inr split: if_splits)
    qed
  qed
qed

section \<open>Effects of leaving\<close>

text \<open>Rows locked in one state are the same in a later one while the lock is held.\<close>

definition locks_held :: "nat \<Rightarrow> nat \<Rightarrow> db \<Rightarrow> db \<Rightarrow> db \<Rightarrow> bool" where
  "locks_held sp u s0 s1 s \<longleftrightarrow>
     lockRows m_id (memberIds sp u s0) (rows (members s1)) = lockRows m_id (memberIds sp u s0) (rows (members s))"

definition memberships :: "nat \<Rightarrow> db \<Rightarrow> space_member list" where
  "memberships u s = filter (\<lambda>m. m_user_id m = u) (rows (members s))"

lemma same_ids:
  assumes "length xs = length ys" and "\<not> (\<exists>k < length xs. xs ! k \<noteq> f (ys ! k))"
  shows "xs = map f ys"
  using assms by (simp add: list_eq_iff_nth_eq)

lemma lockMembers_effect:
  assumes ok: "members_ok s" and held: "locks_held sp u s0 s1 s"
    and run: "lockMembers sp u s0 s1 s = Inr l"
  shows "find_member sp u s = Some (lm_actor l)"
    and "set (lm_members l) = set (members_of sp s)"
    and "lm_actorSpaces l = length (memberships u s)"
    and "sorted (map m_id (lm_members l))" and "distinct (map m_id (lm_members l))"
proof -
  define locked where "locked = lockRows m_id (memberIds sp u s0) (rows (members s1))"
  let ?p = "\<lambda>m. m_space_id m = sp \<or> m_user_id m = u"
  have ids: "memberIds sp u s = map m_id locked"
    using run unfolding lockMembers_def locked_def [symmetric] Let_def
    by (intro same_ids) (auto simp: and_then_eq_Inr split: if_splits)
  from run obtain actor where actor: "find_row (\<lambda>m. m_space_id m = sp \<and> m_user_id m = u) locked = Some actor"
    and l: "l = \<lparr>lm_actor = actor, lm_members = filter (\<lambda>m. m_space_id m = sp) locked,
      lm_actorSpaces = length (filter (\<lambda>m. m_user_id m = u) locked)\<rparr>"
    unfolding lockMembers_def locked_def [symmetric] Let_def
    by (auto simp: and_then_eq_Inr need_eq_Inr split: if_splits)
  have dist: "distinct (map m_id (rows (members s)))" by (rule distinct_members [OF ok])
  have locked: "set locked = {m \<in> set (rows (members s)). m_id m \<in> set (memberIds sp u s0)}"
    using held by (simp add: locked_def locks_held_def set_lockRows)
  have in_locked: "m \<in> set locked \<longleftrightarrow> m \<in> set (rows (members s)) \<and> ?p m" for m
  proof
    assume m: "m \<in> set locked"
    then have row: "m \<in> set (rows (members s))" by (simp add: locked)
    from m have "m_id m \<in> set (memberIds sp u s)" by (simp add: ids)
    then obtain m' where "m' \<in> set (rows (members s))" "?p m'" "m_id m' = m_id m"
      by (auto simp: memberIds_def)
    with distinct_key_eq [OF dist row] row show "m \<in> set (rows (members s)) \<and> ?p m" by metis
  next
    assume m: "m \<in> set (rows (members s)) \<and> ?p m"
    then have "m_id m \<in> m_id ` set locked" unfolding set_map [symmetric] ids [symmetric] by (auto simp: memberIds_def)
    then obtain m' where m': "m' \<in> set locked" "m_id m' = m_id m" by auto
    with locked have "m' \<in> set (rows (members s))" by simp
    with distinct_key_eq [OF dist] m m' show "m \<in> set locked" by metis
  qed
  have dist_locked: "distinct (map m_id locked)" and sorted: "sorted (map m_id locked)"
    unfolding ids [symmetric] memberIds_def using dist by (simp_all add: distinct_map_filter)
  show "sorted (map m_id (lm_members l))" "distinct (map m_id (lm_members l))"
    using sorted dist_locked by (simp_all add: l sorted_filter distinct_map_filter)
  show "set (lm_members l) = set (members_of sp s)"
    by (auto simp: l members_of_def in_locked)
  show "find_member sp u s = Some (lm_actor l)"
    using find_row_Some [OF actor] find_member_key [OF ok, of actor] by (auto simp: l in_locked)
  have "distinct locked" and "distinct (rows (members s))"
    using dist_locked dist by (simp_all add: distinct_map)
  then have "length (filter (\<lambda>m. m_user_id m = u) locked) = card (set (filter (\<lambda>m. m_user_id m = u) locked))"
    and "length (memberships u s) = card (set (memberships u s))"
    by (simp_all only: distinct_card distinct_filter memberships_def)
  moreover have "set (filter (\<lambda>m. m_user_id m = u) locked) = set (memberships u s)"
    by (auto simp: memberships_def in_locked)
  ultimately show "lm_actorSpaces l = length (memberships u s)" by (simp add: l)
qed

lemma sort_key_Nil: "sort_key f xs = [] \<longleftrightarrow> xs = []"
  using length_sort [of f xs] by (metis length_0_conv)

lemma hd_sort_key:
  assumes "sort_key f xs = b # rest"
  shows "b \<in> set xs" and "m \<in> set xs \<Longrightarrow> f b \<le> f m"
proof -
  have set: "set (b # rest) = set xs" and "sorted (map f (b # rest))"
    using set_sort [of f xs] sorted_sort_key [of f xs] by (simp_all only: assms)
  then show "b \<in> set xs" "m \<in> set xs \<Longrightarrow> f b \<le> f m" by auto
qed

lemma successor_of_eq:
  assumes "set (lm_members l) = set (members_of sp s)" and "m_space_id (lm_actor l) = sp"
  shows "successor_of l = None \<longleftrightarrow> (\<forall>m \<in> set (members_of sp s). m_id m = m_id (lm_actor l))"
    and "successor_of l = Some b \<Longrightarrow> b \<in> set (members_of sp s) \<and> m_id b \<noteq> m_id (lm_actor l) \<and>
      (\<forall>m \<in> set (members_of sp s). m_id m \<noteq> m_id (lm_actor l) \<longrightarrow>
        (m_created_at b, m_id b) \<le> (m_created_at m, m_id m))"
proof -
  let ?c = "filter (\<lambda>m. m_id m \<noteq> m_id (lm_actor l)) (lm_members l)"
  let ?key = "\<lambda>m. (m_created_at m, m_id m)"
  show "successor_of l = None \<longleftrightarrow> (\<forall>m \<in> set (members_of sp s). m_id m = m_id (lm_actor l))"
    by (auto simp: successor_of_def sort_key_Nil filter_empty_conv assms(1))
  assume "successor_of l = Some b"
  then obtain rest where b: "sort_key ?key ?c = b # rest"
    unfolding successor_of_def by (cases "sort_key ?key ?c") auto
  then show "b \<in> set (members_of sp s) \<and> m_id b \<noteq> m_id (lm_actor l) \<and>
      (\<forall>m \<in> set (members_of sp s). m_id m \<noteq> m_id (lm_actor l) \<longrightarrow> ?key b \<le> ?key m)"
    using hd_sort_key [OF b] by (simp add: assms(1))
qed

text \<open>The state without a space and the rows that go with it.\<close>

definition without_space :: "nat \<Rightarrow> db \<Rightarrow> db" where
  "without_space sp s = s\<lparr>spaces := (spaces s)\<lparr>rows := delete_rows (\<lambda>p. sp_id p = sp) (rows (spaces s))\<rparr>,
     members := (members s)\<lparr>rows := delete_rows (\<lambda>m. m_space_id m = sp) (rows (members s))\<rparr>,
     wallets := (wallets s)\<lparr>rows := delete_rows (\<lambda>w. w_space_id w = sp) (rows (wallets s))\<rparr>,
     categories := (categories s)\<lparr>rows := delete_rows (\<lambda>c. cat_space_id c = sp) (rows (categories s))\<rparr>,
     limits := (limits s)\<lparr>rows := delete_rows (\<lambda>l. l_space_id l = sp) (rows (limits s))\<rparr>,
     transactions := delete_rows (\<lambda>t. t_wallet_id t \<in> set (map w_id (filter (\<lambda>w. w_space_id w = sp) (rows (wallets s)))))
       (transactions s),
     operations := (operations s)\<lparr>rows := delete_rows (\<lambda>o'. op_space_id o' = sp) (rows (operations s))\<rparr>,
     invites := (invites s)\<lparr>rows := delete_rows (\<lambda>v. i_space_id v = sp) (rows (invites s))\<rparr>\<rparr>"

lemma delete_rows_idem [simp]: "delete_rows p (delete_rows p xs) = delete_rows p xs"
  by (simp add: delete_rows_def)

lemma removeOwned_eq_Inr:
  "removeOwned restricted l s = Inr (x, s') \<longleftrightarrow> 1 < lm_actorSpaces l \<and> s' = without_space (m_space_id (lm_actor l)) s \<and>
    \<not> restricted (m_space_id (lm_actor l)) (s\<lparr>members := (members s)\<lparr>rows :=
        delete_rows (\<lambda>m. m_space_id m = m_space_id (lm_actor l)) (rows (members s))\<rparr>\<rparr>)"
  by (auto simp: removeOwned_def delete_space_def Let_def without_space_def and_then_eq_Inr split: if_splits)

text \<open>
  What a member leaving, or being removed, comes to: \<open>m\<close> is the membership of the actor, \<open>x\<close> the one
  that ends.
\<close>

lemma leaveOrRemove_cases [consumes 3]:
  assumes ok: "members_ok s" and held: "locks_held sp u (view 1) (view 2) s"
    and run: "leaveOrRemove restricted view sp u target s = Inr (y, s')"
  obtains (ended) m x where "find_member sp u s = Some m" and "find_member sp target s = Some x"
      and "u = target \<longrightarrow> m_role m \<noteq> OWNER" and "u \<noteq> target \<longrightarrow> m_role m = OWNER"
      and "s' = delete_member (m_id x) s"
  | (handed_over) m b where "find_member sp u s = Some m" and "m_role m = OWNER" and "u = target"
      and "b \<in> set (members_of sp s)" and "b \<noteq> m"
      and "\<forall>n \<in> set (members_of sp s). n \<noteq> m \<longrightarrow> (m_created_at b, m_id b) \<le> (m_created_at n, m_id n)"
      and "s' = set_role (m_id b) OWNER (delete_member (m_id m) s)"
  | (deleted) m where "find_member sp u s = Some m" and "m_role m = OWNER" and "u = target"
      and "set (members_of sp s) = {m}" and "1 < length (memberships u s)" and "s' = without_space sp s"
proof -
  from run obtain l where l: "lockMembers sp u (view 1) (view 2) s = Inr l"
    and work: "leave_or_remove_work restricted l u target s = Inr (y, s')"
    by (auto simp: leaveOrRemove_def and_then_eq_Inr)
  note locked = lockMembers_effect [OF ok held l]
  let ?m = "lm_actor l"
  have m: "?m \<in> set (rows (members s))" "m_space_id ?m = sp" "m_user_id ?m = u"
    using find_member_Some [OF locked(1)] by simp_all
  have key: "m_id n = m_id ?m \<longleftrightarrow> n = ?m" if "n \<in> set (members_of sp s)" for n
    using distinct_key_eq [OF distinct_members [OF ok], of n ?m] that m(1) by (auto simp: members_of_def)
  show thesis
  proof (cases "u = target")
    case False
    with work obtain x where owner: "m_role ?m = OWNER"
      and x: "find_row (\<lambda>m. m_user_id m = target) (lm_members l) = Some x" and s': "s' = delete_member (m_id x) s"
      by (auto simp: leave_or_remove_work_def split: if_splits option.splits)
    have "find_member sp target s = Some x"
      using find_row_Some [OF x] find_member_key [OF ok, of x] by (auto simp: locked(2) members_of_def)
    with False owner s' locked(1) show thesis by (intro ended) auto
  next
    case same: True
    show thesis
    proof (cases "m_role ?m = OWNER")
      case False
      with same work locked(1) show thesis by (intro ended [of ?m ?m]) (auto simp: leave_or_remove_work_def)
    next
      case owner: True
      show thesis
      proof (cases "successor_of l")
        case None
        then have ids: "\<forall>n \<in> set (members_of sp s). m_id n = m_id ?m"
          by (simp only: successor_of_eq(1) [OF locked(2) m(2)])
        have "n \<in> set (members_of sp s) \<longleftrightarrow> n = ?m" for n
        proof
          assume "n \<in> set (members_of sp s)"
          with ids key show "n = ?m" by simp
        qed (use m in \<open>simp add: members_of_def\<close>)
        then have "set (members_of sp s) = {?m}" by (simp only: set_eq_iff singleton_iff simp_thms)
        moreover have "removeOwned restricted l s = Inr (y, s')"
          using work same owner None by (simp add: leave_or_remove_work_def)
        then have "1 < length (memberships u s)" "s' = without_space sp s"
          by (simp_all add: removeOwned_eq_Inr locked(3) m(2))
        ultimately show thesis using deleted [OF locked(1) owner same] by blast
      next
        case (Some b)
        note b = successor_of_eq(2) [OF locked(2) m(2) Some]
        have s': "s' = set_role (m_id b) OWNER (delete_member (m_id ?m) s)"
          using work same owner Some by (simp add: leave_or_remove_work_def)
        have "\<forall>n \<in> set (members_of sp s). n \<noteq> ?m \<longrightarrow> (m_created_at b, m_id b) \<le> (m_created_at n, m_id n)"
          using b key by blast
        moreover have "b \<noteq> ?m" using b by blast
        ultimately show thesis using handed_over [OF locked(1) owner same] b s' by blast
      qed
    qed
  qed
qed

lemma remove_space_effect:
  assumes "members_ok s" and "locks_held sp u (view 1) (view 2) s"
    and "remove_space restricted view u sp s = Inr (y, s')"
  obtains m where "find_member sp u s = Some m" and "m_role m = OWNER" and "1 < length (memberships u s)"
    and "s' = without_space sp s"
proof -
  from assms(3) obtain l where l: "lockMembers sp u (view 1) (view 2) s = Inr l"
    and work: "m_role (lm_actor l) = OWNER" "removeOwned restricted l s = Inr (y, s')"
    by (auto simp: remove_space_def and_then_eq_Inr split: if_splits)
  note locked = lockMembers_effect [OF assms(1,2) l]
  with work find_member_Some [OF locked(1)] show thesis by (intro that) (auto simp: removeOwned_eq_Inr)
qed

section \<open>Effects of creating a space\<close>

text \<open>The state with a new space, its owner and its categories, and then with its invitations.\<close>

definition with_space :: "int \<Rightarrow> nat \<Rightarrow> NewSpace \<Rightarrow> db \<Rightarrow> db" where
  "with_space now userId ns s = createDefaultCategories now (next_id (spaces s))
     (s\<lparr>spaces := insert_auto (new_space now ns) (spaces s),
        members := insert_auto (new_member now (next_id (spaces s)) userId OWNER) (members s)\<rparr>)"

definition with_invites :: "int \<Rightarrow> (nat \<Rightarrow> string \<times> string) \<Rightarrow> nat \<Rightarrow> nat \<Rightarrow> string list \<Rightarrow> db \<Rightarrow> db" where
  "with_invites now secrets userId sp emails s =
     (let invs = new_invites now secrets sp emails (next_id (invites s)) in
      recordScheduled now userId invs (insert_invites invs s))"

lemma with_invites_Nil [simp]: "with_invites now secrets u sp [] s = s"
  by (simp add: with_invites_def new_invites_def recordScheduled_def insert_invites_def)

lemma with_invites_simps [simp]:
  "users (with_invites now secrets u sp emails s) = users s"
  "currencies (with_invites now secrets u sp emails s) = currencies s"
  "spaces (with_invites now secrets u sp emails s) = spaces s"
  "members (with_invites now secrets u sp emails s) = members s"
  "wallets (with_invites now secrets u sp emails s) = wallets s"
  "categories (with_invites now secrets u sp emails s) = categories s"
  "limits (with_invites now secrets u sp emails s) = limits s"
  "transactions (with_invites now secrets u sp emails s) = transactions s"
  "operations (with_invites now secrets u sp emails s) = operations s"
  "rows (invites (with_invites now secrets u sp emails s)) =
    rows (invites s) @ new_invites now secrets sp emails (next_id (invites s))"
  "next_id (invites (with_invites now secrets u sp emails s)) = next_id (invites s) + length emails"
  by (simp_all add: with_invites_def Let_def recordScheduled_def insert_invites_def new_invites_def)

lemma with_space_simps [simp]:
  "users (with_space now u ns s) = users s" "currencies (with_space now u ns s) = currencies s"
  "spaces (with_space now u ns s) = insert_auto (new_space now ns) (spaces s)"
  "members (with_space now u ns s) = insert_auto (new_member now (next_id (spaces s)) u OWNER) (members s)"
  "invites (with_space now u ns s) = invites s" "invite_emails (with_space now u ns s) = invite_emails s"
  "wallets (with_space now u ns s) = wallets s" "limits (with_space now u ns s) = limits s"
  "transactions (with_space now u ns s) = transactions s" "operations (with_space now u ns s) = operations s"
  by (simp_all add: with_space_def createDefaultCategories_def)

definition may_schedule ::
  "(string \<Rightarrow> string \<Rightarrow> bool) \<Rightarrow> int \<Rightarrow> nat \<Rightarrow> string list \<Rightarrow> db \<Rightarrow> bool" where
  "may_schedule same_text now userId emails s \<longleftrightarrow> emails = [] \<or> assertCanSchedule same_text now
     \<lparr>sr_senderId = userId, sr_spaceId = None, sr_emails = emails, sr_inviteId = None\<rparr> s = Inr ()"

abbreviation new_space_of :: "CreateSpaceDto \<Rightarrow> NewSpace" where
  "new_space_of dto \<equiv> \<lparr>ns_name = cs_name dto, ns_type = cs_type dto, ns_currency_id = cs_currency_id dto\<rparr>"

lemma assertCanSchedule_cong:
  "invite_emails s' = invite_emails s \<Longrightarrow> assertCanSchedule same_text now r s' = assertCanSchedule same_text now r s"
  by (simp only: assertCanSchedule_def scheduleWaits_def windowOf_def [abs_def])

lemma create_space_work_iff:
  assumes ok: "members_ok s"
  shows "create_space_work same_text clk secrets u dto emails s = Inr ((p, c), s') \<longleftrightarrow>
    find_currency (cs_currency_id dto) s = Some c \<and>
    p = new_space (clk 0) (new_space_of dto) (next_id (spaces s)) \<and>
    may_schedule same_text (clk 1) u emails s \<and>
    s' = with_invites (clk 1) secrets u (next_id (spaces s)) emails (with_space (clk 0) u (new_space_of dto) s)"
proof -
  let ?sp = "next_id (spaces s)" and ?ns = "new_space_of dto"
  have none: "\<forall>r \<in> set (rows (spaces s)). sp_id r \<noteq> ?sp"
    using members_okD(2) [OF ok] by (auto simp: table_ok_def)
  have "?sp \<notin> m_space_id ` set (rows (members s))"
    unfolding members_okD(7) [OF ok] using none by auto
  then have no_member: "find_member ?sp u s = None"
    unfolding find_member_def find_row_None by (metis image_eqI)
  have found: "find_space ?sp (with_invites now secrets u' sp emails' (with_space (clk 0) u ?ns s)) =
      Some (new_space (clk 0) ?ns ?sp)" for now secrets u' sp emails'
    using none by (simp add: find_space_def find_row_append find_row_None [THEN iffD2] new_space_def)
  have cur: "find_currency i (with_invites now secrets u' sp emails' (with_space (clk 0) u ?ns s)) = find_currency i s"
    for i now secrets u' sp emails'
    by (simp add: find_currency_def)
  have work: "createSpaceWithOwner (clk 0) ?ns u s = (if find_currency (cs_currency_id dto) s = None
      then Inl no_referenced_row else Inr (?sp, s\<lparr>spaces := insert_auto (new_space (clk 0) ?ns) (spaces s),
        members := insert_auto (new_member (clk 0) ?sp u OWNER) (members s)\<rparr>))"
    using no_member by (auto simp: createSpaceWithOwner_def insert_space_def insert_member_def Let_def find_member_def)
  have sched: "assertCanSchedule same_text now r (with_space (clk 0) u ?ns s) = assertCanSchedule same_text now r s"
    for now r by (rule assertCanSchedule_cong) simp
  have shape: "(if emails = [] then Inr s2
       else and_then (assertCanSchedule same_text (clk 1) r s2) (\<lambda>_.
         let invs = new_invites (clk 1) secrets ?sp emails (next_id (invites s2)) in
         Inr (recordScheduled (clk 1) u invs (insert_invites invs s2)))) = (Inr s3 :: exception + db) \<longleftrightarrow>
      (emails = [] \<or> assertCanSchedule same_text (clk 1) r s2 = Inr ()) \<and>
      s3 = with_invites (clk 1) secrets u ?sp emails s2" for r s2 s3
    by (auto simp: with_invites_def Let_def and_then_eq_Inr new_invites_def recordScheduled_def insert_invites_def)
  show ?thesis
  proof (cases "find_currency (cs_currency_id dto) s")
    case None
    then show ?thesis by (simp add: create_space_work_def work)
  next
    case (Some c')
    have loaded: "and_then (getSpace ?sp s3) (\<lambda>result. and_then (assertFound result NOT_FOUND) (\<lambda>created. Inr (created, s3))) =
        Inr ((new_space (clk 0) ?ns ?sp, c'), s3)"
      if "s3 = with_invites (clk 1) secrets u ?sp emails (with_space (clk 0) u ?ns s)" for s3
      using Some that by (simp add: getSpace_def found cur new_space_def)
    have fold: "createDefaultCategories (clk 0) ?sp (s\<lparr>spaces := insert_auto (new_space (clk 0) ?ns) (spaces s),
        members := insert_auto (new_member (clk 0) ?sp u OWNER) (members s)\<rparr>) = with_space (clk 0) u ?ns s"
      by (simp add: with_space_def)
    show ?thesis
      unfolding create_space_work_def work
      by (simp only: Some option.distinct if_False and_then_simps prod.case Let_def [of "createDefaultCategories _ _ _"] fold
          and_then_eq_Inr [of "if emails = [] then _ else _"] shape)
        (auto simp: loaded may_schedule_def sched)
  qed
qed

end
