(* ===== verification/SpaceLife.thy ===== *)
theory SpaceLife
  imports Membership
begin

text \<open>
  Spaces with their members, categories and invitations coming and going: what keeps the catalog, the
  history and the invariant of the members.
\<close>

section \<open>The catalog and the history\<close>

lemma space_inv_cong:
  assumes "transactions s' = transactions s" "operations s' = operations s" "wallets s' = wallets s"
    "categories s' = categories s" "limits s' = limits s"
  shows "space_inv (s', used) = space_inv (s, used)"
proof -
  have "find_wallet i s' = find_wallet i s" "find_category i s' = find_category i s"
    "find_transaction k s' = find_transaction k s" for i k
    using assms by (simp_all add: find_wallet_def find_category_def find_transaction_def)
  then have "transaction_ok s' = transaction_ok s" and "operation_ok s' = operation_ok s"
    by (auto simp: transaction_ok_def operation_ok_def fun_eq_iff split: option.split)
  then show ?thesis
    using assms catalog_ok_cong [of s' s]
    by (simp add: space_inv_def state_inv_def history_inv_def ids_used_def)
qed

text \<open>Categories are only added.\<close>

definition more_categories :: "db \<Rightarrow> db \<Rightarrow> bool" where
  "more_categories s s' \<longleftrightarrow> (\<exists>t. s' = s\<lparr>categories := t\<rparr>) \<and>
     (\<forall>i c. find_category i s = Some c \<longrightarrow> find_category i s' = Some c)"

lemma add_category_ok:
  fixes now :: int and sp :: nat and dto :: CreateCategoryDto and sys :: bool
  assumes ok: "catalog_ok s"
  defines "s' \<equiv> s\<lparr>categories := insert_auto (new_category now sp dto sys) (categories s)\<rparr>"
  shows "catalog_ok s'" and "more_categories s s'"
proof -
  have tables: "table_ok cat_id (categories s)" and lims: "limits_ok (lookup_category s) (rows (limits s))"
    using ok by (simp_all add: catalog_ok_def)
  have "limits_ok (lookup_category s') (rows (limits s))"
    by (rule limits_ok_lookup [OF lims]) (simp add: s'_def lookup_insert_category [OF tables])
  moreover have "table_ok cat_id (insert_auto (new_category now sp dto sys) (categories s))"
    by (rule table_ok_insert_auto [OF tables]) (simp add: new_category_def)
  ultimately show "catalog_ok s'"
    using ok by (auto simp: catalog_ok_def s'_def new_category_def)
  show "more_categories s s'"
    unfolding more_categories_def s'_def
    by (intro conjI exI [of _ "insert_auto (new_category now sp dto sys) (categories s)"])
      (simp_all add: find_category_def find_row_append)
qed

lemma more_categories_trans:
  "more_categories s s1 \<Longrightarrow> more_categories s1 s2 \<Longrightarrow> more_categories s s2"
  by (fastforce simp: more_categories_def)

lemma add_categories_ok:
  fixes now :: int and sp :: nat
  assumes "catalog_ok s"
  defines "s' dtos \<equiv> s\<lparr>categories := foldl (\<lambda>t dto. insert_auto (new_category now sp dto False) t) (categories s) dtos\<rparr>"
  shows "catalog_ok (s' dtos) \<and> more_categories s (s' dtos)"
proof (induction dtos rule: rev_induct)
  case Nil
  then show ?case using assms(1) by (auto simp: s'_def more_categories_def intro: exI [of _ "categories s"])
next
  case (snoc dto dtos)
  have "s' (dtos @ [dto]) = (s' dtos)\<lparr>categories := insert_auto (new_category now sp dto False) (categories (s' dtos))\<rparr>"
    by (simp add: s'_def)
  with add_category_ok [of "s' dtos" now sp dto False] snoc show ?case
    using more_categories_trans by metis
qed

lemma createDefaultCategories_ok:
  assumes "catalog_ok s"
  shows "catalog_ok (createDefaultCategories now sp s)" and "more_categories s (createDefaultCategories now sp s)"
proof -
  let ?t = "\<lambda>dtos. foldl (\<lambda>t dto. insert_auto (new_category now sp dto False) t) (categories s) dtos"
  have eq: "createDefaultCategories now sp s =
      (s\<lparr>categories := ?t DEFAULT_CATEGORIES\<rparr>)\<lparr>categories := insert_auto
        (new_category now sp INITIAL_BALANCE_CATEGORY True) (categories (s\<lparr>categories := ?t DEFAULT_CATEGORIES\<rparr>))\<rparr>"
    by (simp add: createDefaultCategories_def)
  note added = add_categories_ok [OF assms, of now sp DEFAULT_CATEGORIES]
  show "catalog_ok (createDefaultCategories now sp s)" "more_categories s (createDefaultCategories now sp s)"
    unfolding eq using add_category_ok added more_categories_trans by blast+
qed

lemma space_inv_more_categories:
  assumes inv: "space_inv (s, used)" and ok: "catalog_ok s'" and more: "more_categories s s'"
  shows "space_inv (s', used)"
proof -
  from more obtain t where s': "s' = s\<lparr>categories := t\<rparr>" by (auto simp: more_categories_def)
  have "links_kept s s'"
    by (rule links_kept_categories) (use more in \<open>auto simp: more_categories_def\<close>)
  with quiet_step [OF inv _ ok] show ?thesis by (simp add: same_history_def s')
qed

lemma space_inv_with_space:
  assumes "space_inv (s, used)"
  shows "space_inv (with_space now u ns s, used)"
proof -
  let ?s = "s\<lparr>spaces := insert_auto (new_space now ns) (spaces s),
    members := insert_auto (new_member now (next_id (spaces s)) u OWNER) (members s)\<rparr>"
  have inv: "space_inv (?s, used)" using assms by (subst space_inv_cong [of _ s]) simp_all
  then have "catalog_ok ?s" by (simp add: space_inv_def)
  then show ?thesis
    unfolding with_space_def using inv createDefaultCategories_ok space_inv_more_categories by blast
qed

lemma find_row_filter_key:
  assumes "distinct (map key rs)"
  shows "find_row (\<lambda>r. key r = k) (filter p rs) =
    (case find_row (\<lambda>r. key r = k) rs of None \<Rightarrow> None | Some r \<Rightarrow> if p r then Some r else None)"
  using assms
proof (induction rs)
  case (Cons r rs)
  show ?case
  proof (cases "key r = k")
    case True
    with Cons.prems have "k \<notin> key ` set rs" by simp
    then have "find_row (\<lambda>r. key r = k) rs = None" by (auto simp: find_row_None)
    with Cons True show ?thesis by simp
  next
    case False
    with Cons show ?thesis by simp
  qed
qed simp

lemma find_row_key_iff:
  assumes "distinct (map key rs)"
  shows "find_row (\<lambda>r. key r = k) rs = Some r \<longleftrightarrow> r \<in> set rs \<and> key r = k"
  using find_row_key [OF assms, of r] find_row_Some [of "\<lambda>r. key r = k" rs r] by blast

text \<open>Deleting a space takes whole wallets with their records, whole categories and whole limits.\<close>

lemma space_inv_without_space:
  assumes inv: "space_inv (s, used)"
  shows "space_inv (without_space sp s, used)"
proof -
  let ?s = "without_space sp s"
  have ok: "catalog_ok s" and hist: "history_inv s" and ids: "ids_used s used"
    using inv by (simp_all add: space_inv_def state_inv_def)
  note dist = catalog_distinct [OF ok]
  have wallet: "find_wallet i ?s = (case find_wallet i s of None \<Rightarrow> None
      | Some w \<Rightarrow> if w_space_id w = sp then None else Some w)" for i
    using find_row_filter_key [OF dist(1)]
    by (simp add: find_wallet_def without_space_def delete_rows_def split: option.split)
  have category: "find_category i ?s = (case find_category i s of None \<Rightarrow> None
      | Some c \<Rightarrow> if cat_space_id c = sp then None else Some c)" for i
    using find_row_filter_key [OF dist(2)]
    by (simp add: find_category_def without_space_def delete_rows_def split: option.split)
  have limits: "limits_ok (lookup_category ?s) (rows (limits ?s))"
  proof (unfold limits_ok_def, intro conjI ballI impI)
    fix l assume "l \<in> set (rows (limits ?s))"
    then have l: "l \<in> set (rows (limits s))" "l_space_id l \<noteq> sp" by (simp_all add: without_space_def)
    with ok have "limit_ok (lookup_category s) l" by (simp add: catalog_ok_def limits_ok_def)
    with l(2) show "limit_ok (lookup_category ?s) l"
      by (fastforce simp: limit_ok_def lookup_category_def category)
  next
    fix l l' assume "l \<in> set (rows (limits ?s))" "l' \<in> set (rows (limits ?s))" "l_id l \<noteq> l_id l'"
    with ok show "compatible l l'" by (simp add: catalog_ok_def limits_ok_def without_space_def)
  qed
  have catalog: "catalog_ok ?s"
    using ok limits by (simp add: catalog_ok_def without_space_def table_ok_delete)
  have kept: "t \<in> set (transactions ?s) \<longleftrightarrow> t \<in> set (transactions s) \<and>
      (\<forall>w. find_wallet (t_wallet_id t) s = Some w \<longrightarrow> w_space_id w \<noteq> sp)" if "t \<in> set (transactions s)" for t
  proof -
    have "t_wallet_id t \<in> set (map w_id (filter (\<lambda>w. w_space_id w = sp) (rows (wallets s)))) \<longleftrightarrow>
        (\<exists>w. find_wallet (t_wallet_id t) s = Some w \<and> w_space_id w = sp)"
      by (force simp: find_wallet_def find_row_key_iff [OF dist(1)])
    with that show ?thesis by (auto simp: without_space_def)
  qed
  have trans: "transaction_ok ?s t" if "t \<in> set (transactions ?s)" for t
  proof -
    from that have t: "t \<in> set (transactions s)" by (simp add: without_space_def)
    with hist have "transaction_ok s t" by (simp add: history_inv_def)
    with kept [OF t] that show ?thesis by (auto simp: transaction_ok_def wallet category)
  qed
  have found: "find_transaction i ?s = (case find_transaction i s of None \<Rightarrow> None
      | Some t \<Rightarrow> if t \<in> set (transactions ?s) then Some t else None)" for i
    using hist find_row_filter_key [of t_id "transactions s" i]
    by (simp add: history_inv_def find_transaction_def without_space_def delete_rows_def split: option.split)
      (auto dest: find_row_Some)
  have ops: "operation_ok ?s o'" if "o' \<in> set (rows (operations ?s))" for o'
  proof -
    from that have o': "o' \<in> set (rows (operations s))" "op_space_id o' \<noteq> sp" by (simp_all add: without_space_def)
    with hist have ok': "operation_ok s o'" by (simp add: history_inv_def)
    show ?thesis
    proof (cases "find_transaction (op_transaction_id o') s")
      case None
      with ok' show ?thesis by (simp add: operation_ok_def found)
    next
      case (Some t)
      with ok' obtain w where w: "op_deleted_at o' = None" "find_wallet (t_wallet_id t) s = Some w"
        "w_space_id w = op_space_id o'" by (auto simp: operation_ok_def)
      have "t \<in> set (transactions s)" using Some by (auto simp: find_transaction_def dest: find_row_Some)
      then have "t \<in> set (transactions ?s)" using kept w o'(2) by simp
      with Some w o'(2) show ?thesis by (simp add: operation_ok_def found wallet)
    qed
  qed
  have "history_inv ?s"
    using hist trans ops catalog_distinct [OF catalog]
    by (auto simp: history_inv_def without_space_def delete_rows_def distinct_map_filter)
  moreover have "ids_used ?s used"
    using ids by (auto simp: ids_used_def without_space_def)
  ultimately show ?thesis using catalog by (simp add: space_inv_def state_inv_def)
qed

section \<open>The members\<close>

lemma members_ok_update_invites:
  assumes ok: "members_ok s" and keep: "\<And>v. i_id (f v) = i_id v" "\<And>v. i_role (f v) = i_role v"
    and s': "members s' = members s" "spaces s' = spaces s"
      "invites s' = (invites s)\<lparr>rows := update_rows p f (rows (invites s))\<rparr>"
  shows "members_ok s'"
proof -
  have "table_ok i_id (invites s')"
    unfolding s'(3) by (rule table_ok_update [OF members_okD(3) [OF ok] keep(1)])
  then show ?thesis
    using ok keep(2) by (auto simp: members_ok_def members_of_def s' set_update_rows)
qed

lemma new_invites_eq:
  "new_invites now secrets sp emails i =
    map (\<lambda>k. newInvite now (secrets k) sp (emails ! k) (i + k)) [0..<length emails]"
  by (rule nth_equalityI) (simp_all add: new_invites_def nth_enumerate_eq)

lemma new_invites_ids:
  "map i_id (new_invites now secrets sp emails i) = map (\<lambda>k. i + k) [0..<length emails]"
  "v \<in> set (new_invites now secrets sp emails i) \<Longrightarrow> i_role v = MEMBER \<and> i \<le> i_id v \<and> i_id v < i + length emails"
  by (auto simp: new_invites_eq newInvite_def)

lemma members_ok_with_invites:
  assumes ok: "members_ok s"
  shows "members_ok (with_invites now secrets u sp emails s)"
proof -
  let ?new = "new_invites now secrets sp emails (next_id (invites s))"
  have "distinct (map i_id ?new)" by (simp add: new_invites_ids(1) distinct_map)
  with members_okD(3) [OF ok] new_invites_ids(2)
  have "table_ok i_id (invites (with_invites now secrets u sp emails s))"
    by (fastforce simp: table_ok_def)
  with ok show ?thesis
    by (auto simp: members_ok_def members_of_def dest: new_invites_ids(2))
qed

lemma owned_of_space:
  assumes ok: "members_ok s" and m: "m \<in> set (rows (members s))"
  obtains o' where "o' \<in> set (rows (members s))" "m_space_id o' = m_space_id m" "m_role o' = OWNER"
  using members_okD(5) [OF ok] m unfolding owned_def by blast

lemma members_ok_with_space:
  assumes ok: "members_ok s"
  shows "members_ok (with_space now u ns s)"
proof -
  let ?sp = "next_id (spaces s)" and ?s = "with_space now u ns s"
  have none: "\<forall>m \<in> set (rows (members s)). m_space_id m \<noteq> ?sp"
  proof
    fix m assume "m \<in> set (rows (members s))"
    then have "m_space_id m \<in> sp_id ` set (rows (spaces s))" using members_okD(7) [OF ok] by blast
    with members_okD(2) [OF ok] show "m_space_id m \<noteq> ?sp" by (auto simp: table_ok_def)
  qed
  have "table_ok m_id (members ?s)" "table_ok sp_id (spaces ?s)"
    using members_okD(1,2) [OF ok] by (simp_all add: table_ok_insert_auto new_member_def new_space_def)
  moreover have "owned (rows (members ?s))"
    using none owned_append [OF members_okD(5) [OF ok]] by (simp add: new_member_def)
  moreover have "members_of sp ?s = (if sp = ?sp then [new_member now ?sp u OWNER (next_id (members s))] else members_of sp s)" for sp
    using none by (auto simp: members_of_def new_member_def filter_empty_conv)
  moreover have "distinct (map (\<lambda>m. (m_space_id m, m_user_id m)) (rows (members ?s)))"
    using none members_okD(4) [OF ok] by (auto simp: new_member_def)
  moreover have "m_space_id ` set (rows (members ?s)) = sp_id ` set (rows (spaces ?s))"
    using members_okD(7) [OF ok] by (simp add: new_member_def new_space_def)
  ultimately show ?thesis
    using ok by (simp add: members_ok_def MAX_MEMBERS_PER_SPACE_def)
qed

lemma members_ok_joined:
  assumes ok: "members_ok s" and v: "find_invite i s = Some v" and p: "find_space (i_space_id v) s = Some p"
    and new: "\<not> is_member (i_space_id v) u s" and room: "length (members_of (i_space_id v) s) < MAX_MEMBERS_PER_SPACE"
  shows "members_ok (joined_by clk v u s)"
proof -
  let ?s = "joined_by clk v u s" and ?sp = "i_space_id v"
  have role: "i_role v = MEMBER" using members_okD(8) [OF ok] find_invite_Some [OF v] by blast
  have sp: "?sp \<in> sp_id ` set (rows (spaces s))" using find_space_Some [OF p] by force
  have "table_ok m_id (members ?s)"
    using members_okD(1) [OF ok] by (simp add: joined_by_def table_ok_insert_auto new_member_def)
  moreover have "table_ok i_id (invites ?s)"
    using members_okD(3) [OF ok] by (simp add: joined_by_def table_ok_update accept_row_def)
  moreover have "owned (rows (members ?s))"
    using sp members_okD(7) [OF ok] owned_append [OF members_okD(5) [OF ok]]
    by (force simp: joined_by_def new_member_def role)
  moreover have "length (members_of sp ?s) \<le> MAX_MEMBERS_PER_SPACE" for sp
    using room members_okD(6) [OF ok, of sp] by (auto simp: members_of_def joined_by_def new_member_def)
  moreover have "distinct (map (\<lambda>m. (m_space_id m, m_user_id m)) (rows (members ?s)))"
    using new members_okD(4) [OF ok] by (auto simp: joined_by_def new_member_def is_member_def)
  moreover have "m_space_id ` set (rows (members ?s)) = sp_id ` set (rows (spaces ?s))"
    using members_okD(7) [OF ok] sp by (auto simp: joined_by_def new_member_def)
  ultimately show ?thesis
    using ok by (auto simp: members_ok_def joined_by_def set_update_rows accept_row_def)
qed

lemma members_ok_ended:
  assumes ok: "members_ok s" and x: "x \<in> set (rows (members s))" "m_role x \<noteq> OWNER"
  shows "members_ok (delete_member (m_id x) s)"
proof -
  let ?s = "delete_member (m_id x) s"
  have rows: "set (rows (members ?s)) = set (rows (members s)) - {x}"
    using distinct_key_eq [OF distinct_members [OF ok] _ x(1)] by (auto simp: delete_member_def)
  have "table_ok m_id (members ?s)"
    using members_okD(1) [OF ok] by (simp add: delete_member_def table_ok_delete)
  moreover have "owned (rows (members ?s))"
  proof (unfold delete_member_def, simp, rule owned_delete [OF members_okD(5) [OF ok]])
    fix m assume m: "m \<in> set (rows (members s))" "m_id m = m_id x" "m_role m = OWNER"
    then have "m = x" using distinct_key_eq [OF distinct_members [OF ok] _ x(1)] by blast
    with m x show "\<forall>y \<in> set (rows (members s)). m_space_id y = m_space_id m \<longrightarrow> m_id y = m_id x" by simp
  qed
  moreover have "length (members_of sp ?s) \<le> MAX_MEMBERS_PER_SPACE" for sp
  proof -
    have "members_of sp ?s = filter (\<lambda>m. m_id m \<noteq> m_id x) (members_of sp s)"
      by (simp add: members_of_def delete_member_def delete_rows_def conj_commute)
    then show ?thesis using members_okD(6) [OF ok, of sp] length_filter_le order_trans by metis
  qed
  moreover have "distinct (map (\<lambda>m. (m_space_id m, m_user_id m)) (rows (members ?s)))"
    using members_okD(4) [OF ok] by (simp add: delete_member_def distinct_key_delete_rows)
  moreover have "m_space_id ` set (rows (members ?s)) = m_space_id ` set (rows (members s))"
  proof -
    obtain o' where "o' \<in> set (rows (members s))" "m_space_id o' = m_space_id x" "m_role o' = OWNER"
      using owned_of_space [OF ok x(1)] .
    with x have "m_space_id x \<in> m_space_id ` (set (rows (members s)) - {x})" by (intro rev_image_eqI [of o']) auto
    then show ?thesis unfolding rows using x(1) by (auto simp: insert_absorb)
  qed
  ultimately show ?thesis
    using ok by (simp add: members_ok_def delete_member_def)
qed

lemma members_ok_handed_over:
  assumes ok: "members_ok s" and a: "a \<in> set (rows (members s))" "m_role a = OWNER"
    and b: "b \<in> set (rows (members s))" "b \<noteq> a" "m_space_id b = m_space_id a"
  shows "members_ok (set_role (m_id b) OWNER (delete_member (m_id a) s))" (is "members_ok ?s")
proof -
  let ?rs = "delete_rows (\<lambda>m. m_id m = m_id a) (rows (members s))"
  let ?f = "\<lambda>m. m\<lparr>m_role := OWNER\<rparr>"
  have rows: "rows (members ?s) = update_rows (\<lambda>m. m_id m = m_id b) ?f ?rs"
    by (simp add: set_role_def delete_member_def)
  have set_rs: "set ?rs = set (rows (members s)) - {a}"
    using distinct_key_eq [OF distinct_members [OF ok] _ a(1)] by auto
  have "table_ok m_id ((members s)\<lparr>rows := ?rs\<rparr>)"
    using members_okD(1) [OF ok] by (rule table_ok_delete)
  then have "table_ok m_id (members ?s)"
    using table_ok_update [of m_id "(members s)\<lparr>rows := ?rs\<rparr>" ?f "\<lambda>m. m_id m = m_id b"]
    by (simp add: set_role_def delete_member_def)
  moreover have "owned (rows (members ?s))"
    unfolding rows by (rule owned_hand_over [OF members_okD(5) [OF ok] distinct_members [OF ok] a b])
  moreover have "length (members_of sp ?s) \<le> MAX_MEMBERS_PER_SPACE" for sp
  proof -
    have len: "length (filter (\<lambda>m. m_space_id m = sp) (update_rows p ?f xs)) = length (filter (\<lambda>m. m_space_id m = sp) xs)" for p xs
      by (induction xs) (auto simp: update_rows_def)
    have "length (members_of sp ?s) = length (filter (\<lambda>m. m_id m \<noteq> m_id a) (members_of sp s))"
      unfolding members_of_def rows len by (simp add: delete_rows_def conj_commute)
    then show ?thesis using members_okD(6) [OF ok, of sp] length_filter_le order_trans by metis
  qed
  moreover have "distinct (map (\<lambda>m. (m_space_id m, m_user_id m)) (rows (members ?s)))"
    unfolding rows using members_okD(4) [OF ok] by (simp add: map_key_update_rows distinct_key_delete_rows)
  moreover have "m_space_id ` set (rows (members ?s)) = m_space_id ` set (rows (members s))"
  proof -
    have "m_space_id ` set (rows (members ?s)) = m_space_id ` (set (rows (members s)) - {a})"
      unfolding rows set_update_rows set_rs image_image by (simp add: if_distrib [of m_space_id] cong: if_cong)
    moreover have "m_space_id a \<in> m_space_id ` (set (rows (members s)) - {a})"
      using b by (intro rev_image_eqI [of b]) auto
    ultimately show ?thesis using a(1) by (auto simp: insert_absorb)
  qed
  ultimately show ?thesis
    using ok by (simp add: members_ok_def set_role_def delete_member_def)
qed

lemma members_ok_without_space:
  assumes ok: "members_ok s"
  shows "members_ok (without_space sp s)" (is "members_ok ?s")
proof -
  have "owned (rows (members ?s))"
    using owned_delete [OF members_okD(5) [OF ok]] by (simp add: without_space_def)
  moreover have "length (members_of sp' ?s) \<le> MAX_MEMBERS_PER_SPACE" for sp'
  proof -
    have "members_of sp' ?s = filter (\<lambda>m. m_space_id m \<noteq> sp) (members_of sp' s)"
      by (simp add: members_of_def without_space_def delete_rows_def conj_commute)
    then show ?thesis using members_okD(6) [OF ok, of sp'] length_filter_le order_trans by metis
  qed
  moreover have "m_space_id ` set (rows (members ?s)) = sp_id ` set (rows (spaces ?s))"
  proof -
    have "m_space_id ` set (rows (members ?s)) = m_space_id ` set (rows (members s)) - {sp}"
      by (auto simp: without_space_def)
    also have "\<dots> = sp_id ` set (rows (spaces ?s))"
      unfolding members_okD(7) [OF ok] by (auto simp: without_space_def)
    finally show ?thesis .
  qed
  ultimately show ?thesis
    using ok by (simp add: members_ok_def without_space_def table_ok_delete distinct_key_delete_rows)
qed

end
