(* ===== verification/PasswordReset.thy ===== *)
theory PasswordReset
  imports Users
begin

text \<open>
  \<open>modules/password-reset\<close>: a challenge per email address takes a code sent to it, gives an
  authorization for the right one, and lets the authorization change the password once. The hash
  functions are those of the server's key and of the bare SHA-256; \<open>bcrypt\<close> is a salted password
  hash. \<open>same_text\<close> is equality in the collation of the address column.
\<close>

section \<open>Constants\<close>

definition PASSWORD_RESET_CODE_TTL_MS :: int where "PASSWORD_RESET_CODE_TTL_MS = 1000 * 60 * 30"
definition PASSWORD_RESET_RESEND_COOLDOWN_MS :: int where "PASSWORD_RESET_RESEND_COOLDOWN_MS = 1000 * 60"
definition PASSWORD_RESET_MAX_CODE_ATTEMPTS :: nat where "PASSWORD_RESET_MAX_CODE_ATTEMPTS = 5"
definition PASSWORD_RESET_TOKEN_TTL_MS :: int where "PASSWORD_RESET_TOKEN_TTL_MS = 1000 * 60 * 10"
definition PASSWORD_RESET_WINDOW_MS :: int where "PASSWORD_RESET_WINDOW_MS = 1000 * 60 * 60"
definition PASSWORD_RESET_WINDOW_MAX_REQUESTS :: nat where "PASSWORD_RESET_WINDOW_MAX_REQUESTS = 5"
definition PASSWORD_RESET_WINDOW_MAX_FAILED_ATTEMPTS :: nat where
  "PASSWORD_RESET_WINDOW_MAX_FAILED_ATTEMPTS = 10"

section \<open>Secrets\<close>

record crypto =
  cr_hmac_hex :: "string \<Rightarrow> string"
  cr_hmac_base64url :: "string \<Rightarrow> string"
  cr_sha256_hex :: "string \<Rightarrow> string"

definition hashEmail :: "crypto \<Rightarrow> string \<Rightarrow> string" where
  "hashEmail c email = cr_hmac_hex c (''email:'' @ to_lower (trim email))"

definition hashCode :: "crypto \<Rightarrow> string \<Rightarrow> string \<Rightarrow> string" where
  "hashCode c emailHash code = cr_hmac_hex c (''code:'' @ emailHash @ '':'' @ code)"

definition show_int :: "int \<Rightarrow> string" where
  "show_int t = (if t < 0 then ''-'' @ show_nat (nat (- t)) else show_nat (nat t))"

record ResetTokenSource =
  rs_challengeId :: nat
  rs_userId :: nat
  rs_codeHash :: string
  rs_verifiedAt :: int

definition deriveResetToken :: "crypto \<Rightarrow> ResetTokenSource \<Rightarrow> string" where
  "deriveResetToken c source = cr_hmac_base64url c (''reset-token:'' @ show_nat (rs_challengeId source) @ '':'' @
     show_nat (rs_userId source) @ '':'' @ rs_codeHash source @ '':'' @ show_int (rs_verifiedAt source))"

definition hashResetToken :: "crypto \<Rightarrow> string \<Rightarrow> string" where
  "hashResetToken c token = cr_sha256_hex c token"

section \<open>Rules\<close>

datatype ChallengeState = CODE_PENDING | CODE_VERIFIED | ENDED

definition challengeState :: "password_reset_challenge \<Rightarrow> int \<Rightarrow> ChallengeState" where
  "challengeState challenge now =
     (if ch_completed_at challenge \<noteq> None \<or> PASSWORD_RESET_MAX_CODE_ATTEMPTS \<le> ch_attempts challenge then ENDED
      else if ch_verified_at challenge \<noteq> None
      then (case ch_reset_token_expires_at challenge of None \<Rightarrow> ENDED | Some t \<Rightarrow> if now < t then CODE_VERIFIED else ENDED)
      else if now < ch_expires_at challenge then CODE_PENDING else ENDED)"

record WindowFields =
  wf_started_at :: int
  wf_requests :: nat
  wf_failed_attempts :: nat

definition currentWindow :: "password_reset_challenge \<Rightarrow> int \<Rightarrow> WindowFields" where
  "currentWindow challenge now =
     (if ch_window_started_at challenge + PASSWORD_RESET_WINDOW_MS \<le> now
      then \<lparr>wf_started_at = now, wf_requests = 0, wf_failed_attempts = 0\<rparr>
      else \<lparr>wf_started_at = ch_window_started_at challenge, wf_requests = ch_window_requests challenge,
        wf_failed_attempts = ch_window_failed_attempts challenge\<rparr>)"

definition secondsUntil :: "int \<Rightarrow> int \<Rightarrow> int" where
  "secondsUntil time now = max 1 ((time - now + 999) div 1000)"

definition requestRetryAfter :: "password_reset_challenge \<Rightarrow> int \<Rightarrow> int option" where
  "requestRetryAfter challenge now =
     (let cooldownEnd = ch_last_requested_at challenge + PASSWORD_RESET_RESEND_COOLDOWN_MS;
          window = currentWindow challenge now;
          waits = (if now < cooldownEnd then [secondsUntil cooldownEnd now] else []) @
            (if PASSWORD_RESET_WINDOW_MAX_REQUESTS \<le> wf_requests window
             then [secondsUntil (wf_started_at window + PASSWORD_RESET_WINDOW_MS) now] else [])
      in if waits = [] then None else Some (Max (set waits)))"

definition verifyRetryAfter :: "password_reset_challenge \<Rightarrow> int \<Rightarrow> int option" where
  "verifyRetryAfter challenge now =
     (let window = currentWindow challenge now in
      if PASSWORD_RESET_WINDOW_MAX_FAILED_ATTEMPTS \<le> wf_failed_attempts window
      then Some (secondsUntil (wf_started_at window + PASSWORD_RESET_WINDOW_MS) now) else None)"

definition resetTokenExpiry :: "int \<Rightarrow> int \<Rightarrow> int" where
  "resetTokenExpiry now challengeExpiresAt = min (now + PASSWORD_RESET_TOKEN_TTL_MS) challengeExpiresAt"

definition canComplete :: "password_reset_challenge \<Rightarrow> string \<Rightarrow> int \<Rightarrow> bool" where
  "canComplete challenge tokenHash now \<longleftrightarrow> ch_user_id challenge \<noteq> None \<and>
     ch_reset_token_hash challenge = Some tokenHash \<and> challengeState challenge now = CODE_VERIFIED"

section \<open>Requesting a code\<close>

record Delivery =
  dl_challengeId :: nat
  dl_attemptId :: nat
  dl_to :: string
  dl_code :: string
  dl_expiresAt :: int

definition EMAIL_HASH_INDEX :: string where
  "EMAIL_HASH_INDEX = ''UQ_password_reset_challenges_email_hash''"

definition lockAccount ::
  "crypto \<Rightarrow> (string \<Rightarrow> string \<Rightarrow> bool) \<Rightarrow> string \<Rightarrow> string \<Rightarrow> db \<Rightarrow> user option" where
  "lockAccount c same_text email emailHash s =
     (case findByEmail same_text email s of
        None \<Rightarrow> None
      | Some user \<Rightarrow> if u_email_verified user \<and> hashEmail c (u_email user) = emailHash then Some user else None)"

definition lockChallenge :: "string \<Rightarrow> db \<Rightarrow> password_reset_challenge option" where
  "lockChallenge emailHash s = find_row (\<lambda>ch. ch_email_hash ch = emailHash) (rows (challenges s))"

definition update_challenge :: "nat \<Rightarrow> (password_reset_challenge \<Rightarrow> password_reset_challenge) \<Rightarrow> db \<Rightarrow> db" where
  "update_challenge i f s = s\<lparr>challenges := (challenges s)\<lparr>rows :=
     update_rows (\<lambda>ch. ch_id ch = i) f (rows (challenges s))\<rparr>\<rparr>"

text \<open>The fields of a request: every request sets the first ones, a new challenge the second ones too.\<close>

definition request_fields ::
  "int \<Rightarrow> user option \<Rightarrow> string option \<Rightarrow> WindowFields \<Rightarrow> nat \<Rightarrow> password_reset_challenge \<Rightarrow> password_reset_challenge" where
  "request_fields now account codeHash window attemptId ch = ch\<lparr>ch_user_id := map_option u_id account,
     ch_code_hash := codeHash, ch_last_requested_at := now, ch_send_attempt_id := attemptId,
     ch_send_status := (if account = None then None else Some PENDING),
     ch_window_started_at := wf_started_at window, ch_window_requests := wf_requests window + 1,
     ch_window_failed_attempts := wf_failed_attempts window\<rparr>"

definition restart_fields :: "int \<Rightarrow> password_reset_challenge \<Rightarrow> password_reset_challenge" where
  "restart_fields now ch = ch\<lparr>ch_attempts := 0, ch_started_at := now,
     ch_expires_at := now + PASSWORD_RESET_CODE_TTL_MS, ch_verified_at := None, ch_reset_token_hash := None,
     ch_reset_token_expires_at := None, ch_completed_at := None\<rparr>"

text \<open>A row before the fields of its first request are set.\<close>

definition blank_challenge :: "string \<Rightarrow> nat \<Rightarrow> password_reset_challenge" where
  "blank_challenge emailHash i = \<lparr>ch_id = i, ch_email_hash = emailHash, ch_user_id = None, ch_code_hash = None,
     ch_attempts = 0, ch_started_at = 0, ch_expires_at = 0, ch_last_requested_at = 0, ch_verified_at = None,
     ch_reset_token_hash = None, ch_reset_token_expires_at = None, ch_completed_at = None, ch_send_attempt_id = 0,
     ch_send_status = None, ch_last_sent_at = None, ch_window_started_at = 0, ch_window_requests = 0,
     ch_window_failed_attempts = 0\<rparr>"

text \<open>\<open>seen\<close> is the state the locked reads see, \<open>s\<close> the one the row is written to.\<close>

definition reserveIn ::
  "crypto \<Rightarrow> (string \<Rightarrow> string \<Rightarrow> bool) \<Rightarrow> int \<Rightarrow> string \<Rightarrow> string \<Rightarrow> string \<Rightarrow> db \<Rightarrow> db \<Rightarrow>
   exception + Delivery option \<times> db" where
  "reserveIn c same_text now code email emailHash seen s =
     (let account = lockAccount c same_text email emailHash seen; challenge = lockChallenge emailHash seen in
     and_then (case challenge of None \<Rightarrow> Inr () | Some ch \<Rightarrow> (case requestRetryAfter ch now of
           None \<Rightarrow> Inr () | Some retryAfter \<Rightarrow> Inl (RetryAfterException PASSWORD_RESET_RATE_LIMITED retryAfter))) (\<lambda>_.
     let window = (case challenge of Some ch \<Rightarrow> currentWindow ch now
           | None \<Rightarrow> \<lparr>wf_started_at = now, wf_requests = 0, wf_failed_attempts = 0\<rparr>);
         rotates = (case challenge of None \<Rightarrow> False | Some ch \<Rightarrow> challengeState ch now = CODE_PENDING);
         expiresAt = (case challenge of Some ch \<Rightarrow> if rotates then ch_expires_at ch else now + PASSWORD_RESET_CODE_TTL_MS
           | None \<Rightarrow> now + PASSWORD_RESET_CODE_TTL_MS);
         attemptId = (case challenge of None \<Rightarrow> 0 | Some ch \<Rightarrow> ch_send_attempt_id ch) + 1;
         codeHash = (if account = None then None else Some (hashCode c emailHash code));
         fields = (\<lambda>ch. (if rotates then (\<lambda>x. x) else restart_fields now)
           (request_fields now account codeHash window attemptId ch)) in
     and_then (case challenge of
           Some ch \<Rightarrow> Inr (ch_id ch, update_challenge (ch_id ch) fields s)
         | None \<Rightarrow>
             if lockChallenge emailHash s \<noteq> None then Inl (duplicate_entry EMAIL_HASH_INDEX)
             else Inr (next_id (challenges s),
               s\<lparr>challenges := insert_auto (\<lambda>i. fields (blank_challenge emailHash i)) (challenges s)\<rparr>)) (\<lambda>(challengeId, s').
       Inr (map_option (\<lambda>account. \<lparr>dl_challengeId = challengeId, dl_attemptId = attemptId, dl_to = u_email account,
         dl_code = code, dl_expiresAt = expiresAt\<rparr>) account, s'))))"

text \<open>The loop ends with its second attempt; attempt \<open>k\<close> sees \<open>seen k\<close> and writes to \<open>db_at k\<close>.\<close>

definition reserve ::
  "crypto \<Rightarrow> (string \<Rightarrow> string \<Rightarrow> bool) \<Rightarrow> (nat \<Rightarrow> int) \<Rightarrow> (nat \<Rightarrow> string) \<Rightarrow> string \<Rightarrow> (nat \<Rightarrow> db) \<Rightarrow> (nat \<Rightarrow> db) \<Rightarrow>
   exception + Delivery option \<times> db" where
  "reserve c same_text clk code email seen db_at =
     (let try = (\<lambda>k. reserveIn c same_text (clk k) (code k) email (hashEmail c email) (seen k) (db_at k)) in
      case try 1 of
        Inr r \<Rightarrow> Inr r
      | Inl e \<Rightarrow> if isDuplicateKey e EMAIL_HASH_INDEX then try 2 else Inl e)"

record PasswordResetRequested =
  pr_resend_after_seconds :: int

definition request ::
  "crypto \<Rightarrow> (string \<Rightarrow> string \<Rightarrow> bool) \<Rightarrow> (nat \<Rightarrow> int) \<Rightarrow> (nat \<Rightarrow> string) \<Rightarrow> string \<Rightarrow> (nat \<Rightarrow> db) \<Rightarrow> (nat \<Rightarrow> db) \<Rightarrow>
   exception + (PasswordResetRequested \<times> Delivery option) \<times> db" where
  "request c same_text clk code email seen db_at =
     and_then (reserve c same_text clk code email seen db_at) (\<lambda>(delivery, s).
       Inr ((\<lparr>pr_resend_after_seconds = PASSWORD_RESET_RESEND_COOLDOWN_MS div 1000\<rparr>, delivery), s))"

text \<open>The outcome of the email, recorded only while the row still carries the attempt.\<close>

definition deliver :: "bool \<Rightarrow> int \<Rightarrow> Delivery \<Rightarrow> db \<Rightarrow> db" where
  "deliver accepted now delivery s = s\<lparr>challenges := (challenges s)\<lparr>rows := update_rows
     (\<lambda>ch. ch_id ch = dl_challengeId delivery \<and> ch_send_attempt_id ch = dl_attemptId delivery)
     (\<lambda>ch. if accepted then ch\<lparr>ch_send_status := Some SENT, ch_last_sent_at := Some now\<rparr>
           else ch\<lparr>ch_send_status := Some FAILED\<rparr>) (rows (challenges s))\<rparr>\<rparr>"

section \<open>Verifying a code\<close>

record PasswordResetAuthorization =
  pa_reset_token :: string
  pa_expires_in_seconds :: int

definition authorization :: "string \<Rightarrow> int \<Rightarrow> int \<Rightarrow> PasswordResetAuthorization" where
  "authorization token expiresAt now =
     \<lparr>pa_reset_token = token, pa_expires_in_seconds = secondsUntil expiresAt now\<rparr>"

definition non_null :: "'a option \<Rightarrow> exception + 'a" where
  "non_null v = need v (JsError ''TypeError'' ''null'')"

definition wrong_code :: "nat \<Rightarrow> WindowFields \<Rightarrow> password_reset_challenge \<Rightarrow> password_reset_challenge" where
  "wrong_code attempts window ch =
     (let ch' = ch\<lparr>ch_attempts := attempts, ch_window_started_at := wf_started_at window,
        ch_window_failed_attempts := wf_failed_attempts window + 1\<rparr> in
      if PASSWORD_RESET_MAX_CODE_ATTEMPTS \<le> attempts
      then ch'\<lparr>ch_reset_token_hash := None, ch_reset_token_expires_at := None\<rparr> else ch')"

definition refuse_code ::
  "int \<Rightarrow> password_reset_challenge \<Rightarrow> db \<Rightarrow> (exception + PasswordResetAuthorization) \<times> db" where
  "refuse_code now ch s = (let attempts = ch_attempts ch + 1 in
     (Inl (api_error (if PASSWORD_RESET_MAX_CODE_ATTEMPTS \<le> attempts then PASSWORD_RESET_CODE_UNUSABLE
        else PASSWORD_RESET_CODE_INVALID) BAD_REQUEST),
      update_challenge (ch_id ch) (wrong_code attempts (currentWindow ch now)) s))"

text \<open>The unique key of the token hashes is checked when one is stored.\<close>

definition store_token :: "nat \<Rightarrow> int \<Rightarrow> string \<Rightarrow> int \<Rightarrow> db \<Rightarrow> exception + db" where
  "store_token i now tokenHash expiresAt s =
     (if \<exists>ch \<in> set (rows (challenges s)). ch_id ch \<noteq> i \<and> ch_reset_token_hash ch = Some tokenHash
      then Inl (duplicate_entry ''UQ_password_reset_challenges_reset_token_hash'')
      else Inr (update_challenge i (\<lambda>ch. ch\<lparr>ch_verified_at := Some now, ch_reset_token_hash := Some tokenHash,
        ch_reset_token_expires_at := Some expiresAt\<rparr>) s))"

definition accept_code ::
  "crypto \<Rightarrow> int \<Rightarrow> password_reset_challenge \<Rightarrow> string \<Rightarrow> db \<Rightarrow> exception + PasswordResetAuthorization \<times> db" where
  "accept_code c now ch codeHash s =
     and_then (non_null (ch_user_id ch)) (\<lambda>userId.
     let source = (\<lambda>verifiedAt. \<lparr>rs_challengeId = ch_id ch, rs_userId = userId, rs_codeHash = codeHash,
           rs_verifiedAt = verifiedAt\<rparr>) in
     if challengeState ch now = CODE_VERIFIED
     then and_then (non_null (ch_verified_at ch)) (\<lambda>verifiedAt.
       and_then (non_null (ch_reset_token_expires_at ch)) (\<lambda>expiresAt.
         Inr (authorization (deriveResetToken c (source verifiedAt)) expiresAt now, s)))
     else
       let tokenExpiresAt = resetTokenExpiry now (ch_expires_at ch);
           token = deriveResetToken c (source now) in
       and_then (store_token (ch_id ch) now (hashResetToken c token) tokenExpiresAt s) (\<lambda>s'.
         Inr (authorization token tokenExpiresAt now, s')))"

text \<open>What is thrown rolls back; a rejection is a result that commits with the state.\<close>

definition verifyIn ::
  "crypto \<Rightarrow> (string \<Rightarrow> string \<Rightarrow> bool) \<Rightarrow> int \<Rightarrow> string \<Rightarrow> string \<Rightarrow> string \<Rightarrow> db \<Rightarrow>
   exception + (exception + PasswordResetAuthorization) \<times> db" where
  "verifyIn c same_text now email emailHash code s =
     (let account = lockAccount c same_text email emailHash s in
      case lockChallenge emailHash s of
        None \<Rightarrow> Inr (Inl (api_error PASSWORD_RESET_CODE_UNUSABLE BAD_REQUEST), s)
      | Some ch \<Rightarrow>
          (case verifyRetryAfter ch now of
             Some retryAfter \<Rightarrow> Inr (Inl (RetryAfterException PASSWORD_RESET_RATE_LIMITED retryAfter), s)
           | None \<Rightarrow>
               if challengeState ch now = ENDED
               then Inr (Inl (api_error PASSWORD_RESET_CODE_UNUSABLE BAD_REQUEST), s)
               else
                 (case (case account of None \<Rightarrow> None
                    | Some user \<Rightarrow> if ch_user_id ch = Some (u_id user) then ch_code_hash ch else None) of
                    None \<Rightarrow> Inr (refuse_code now ch s)
                  | Some codeHash \<Rightarrow>
                      if constantTimeEquals (hashCode c emailHash code) codeHash
                      then and_then (accept_code c now ch codeHash s) (\<lambda>(a, s'). Inr (Inr a, s'))
                      else Inr (refuse_code now ch s))))"

definition verify ::
  "crypto \<Rightarrow> (string \<Rightarrow> string \<Rightarrow> bool) \<Rightarrow> int \<Rightarrow> string \<Rightarrow> string \<Rightarrow> db \<Rightarrow>
   (exception + PasswordResetAuthorization) \<times> db" where
  "verify c same_text now email code s =
     (case verifyIn c same_text now email (hashEmail c email) code s of
        Inl e \<Rightarrow> (Inl e, s)
      | Inr (outcome, s') \<Rightarrow> (outcome, s'))"

section \<open>Changing the password\<close>

definition authorizationInvalid :: exception where
  "authorizationInvalid = api_error PASSWORD_RESET_AUTHORIZATION_INVALID BAD_REQUEST"

definition find_challenge :: "nat \<Rightarrow> db \<Rightarrow> password_reset_challenge option" where
  "find_challenge i s = find_row (\<lambda>ch. ch_id ch = i) (rows (challenges s))"

definition new_password :: "int \<Rightarrow> string \<Rightarrow> nat \<Rightarrow> user \<Rightarrow> user" where
  "new_password now password version u = u\<lparr>u_password := password, u_auth_version := version,
     u_updated_at := current_second now\<rparr>"

definition completed :: "int \<Rightarrow> password_reset_challenge \<Rightarrow> password_reset_challenge" where
  "completed now ch = ch\<lparr>ch_completed_at := Some now, ch_code_hash := None, ch_reset_token_hash := None\<rparr>"

text \<open>
  \<open>before\<close> is the state the challenge is looked up in before the transaction.
\<close>

definition complete ::
  "crypto \<Rightarrow> (string \<Rightarrow> string) \<Rightarrow> (nat \<Rightarrow> int) \<Rightarrow> db \<Rightarrow> string \<Rightarrow> string \<Rightarrow> db \<Rightarrow> exception + unit \<times> db" where
  "complete c bcrypt clk before reset_token new s =
     (let tokenHash = hashResetToken c reset_token in
      case find_row (\<lambda>ch. ch_reset_token_hash ch = Some tokenHash) (rows (challenges before)) of
        None \<Rightarrow> Inl authorizationInvalid
      | Some found \<Rightarrow>
          if \<not> canComplete found tokenHash (clk 0) then Inl authorizationInvalid
          else
            let password = bcrypt new in
            (case (case ch_user_id found of None \<Rightarrow> None | Some userId \<Rightarrow> find_user userId s, find_challenge (ch_id found) s) of
               (Some user, Some challenge) \<Rightarrow>
                 if ch_user_id challenge \<noteq> Some (u_id user) \<or> ch_email_hash challenge \<noteq> hashEmail c (u_email user) \<or>
                   \<not> canComplete challenge tokenHash (clk 1)
                 then Inl authorizationInvalid
                 else Inr ((), update_challenge (ch_id challenge) (completed (clk 1))
                   (update_user (u_id user) (new_password (clk 1) password (u_auth_version user + 1)) s))
             | _ \<Rightarrow> Inl authorizationInvalid))"

end
