(* ===== verification/AccountSteps.thy ===== *)
theory AccountSteps
  imports SpaceLife PasswordReset
begin

text \<open>
  The writes of accounts: registration, confirmation and password resets. Most touch nothing but
  users, codes and challenges; registration adds a space, confirmation its first wallet and categories.
\<close>

section \<open>Steps\<close>

inductive account_step :: "db \<Rightarrow> db \<Rightarrow> bool" where
  registered: "register bcrypt same_text now dto s = Inr (u, s') \<Longrightarrow> account_step s s'"
| refreshed: "updateUnverified_work bcrypt now i dto s = Inr s' \<Longrightarrow> account_step s s'"
| confirmed: "completeEmailVerification now i s = Inr s' \<Longrightarrow> account_step s s'"
| send_reserved: "reserveSend clk code i ty s = Inr (r, s') \<Longrightarrow> account_step s s'"
| send_done: "account_step s (markSent now i a s)"
| send_failed: "account_step s (markFailed i a s)"
| email_verified: "verifyEmail_work clk found code s = Inr (out, s') \<Longrightarrow> account_step s s'"
| reset_requested: "reserveIn c same_text now code email h seen s = Inr (d, s') \<Longrightarrow> account_step s s'"
| reset_delivered: "account_step s (deliver accepted now d s)"
| reset_verified: "verifyIn c same_text now email h code s = Inr (out', s') \<Longrightarrow> account_step s s'"
| reset_completed: "complete c bcrypt clk before token new s = Inr (x, s') \<Longrightarrow> account_step s s'"

section \<open>What they write\<close>

definition rest_of :: "db \<Rightarrow> db" where
  "rest_of s = s\<lparr>users := empty_table, confirmation_codes := empty_table, challenges := empty_table\<rparr>"

lemma rest_of_simps [simp]:
  "rest_of (update_user i f s) = rest_of s" "rest_of (update_code p g s) = rest_of s"
  "rest_of (update_challenge i f' s) = rest_of s" "rest_of (markSent now i a s) = rest_of s"
  "rest_of (markFailed i a s) = rest_of s" "rest_of (expire now i s) = rest_of s"
  "rest_of (incrementAttempts i s) = rest_of s" "rest_of (deliver ok now d s) = rest_of s"
  "rest_of (s\<lparr>confirmation_codes := c\<rparr>) = rest_of s" "rest_of (s\<lparr>challenges := h\<rparr>) = rest_of s"
  "rest_of (s\<lparr>users := u\<rparr>) = rest_of s"
  by (simp_all add: rest_of_def update_user_def update_code_def update_challenge_def markSent_def markFailed_def
      expire_def incrementAttempts_def deliver_def)

lemma rest_ofD:
  assumes "rest_of s' = rest_of s"
  shows "spaces s' = spaces s" "members s' = members s" "wallets s' = wallets s" "categories s' = categories s"
    "limits s' = limits s" "transactions s' = transactions s" "operations s' = operations s" "invites s' = invites s"
    "invite_emails s' = invite_emails s" "currencies s' = currencies s"
proof -
  have "spaces (rest_of x) = spaces x" "members (rest_of x) = members x" "wallets (rest_of x) = wallets x"
    "categories (rest_of x) = categories x" "limits (rest_of x) = limits x" "transactions (rest_of x) = transactions x"
    "operations (rest_of x) = operations x" "invites (rest_of x) = invites x" "invite_emails (rest_of x) = invite_emails x"
    "currencies (rest_of x) = currencies x" for x
    by (simp_all add: rest_of_def)
  with assms show "spaces s' = spaces s" "members s' = members s" "wallets s' = wallets s" "categories s' = categories s"
    "limits s' = limits s" "transactions s' = transactions s" "operations s' = operations s" "invites s' = invites s"
    "invite_emails s' = invite_emails s" "currencies s' = currencies s"
    by metis+
qed

text \<open>
  The four ways to write the rest: not at all, a new space with its owner, another currency of a space,
  and the first wallet with the categories of one.
\<close>

definition space_added :: "int \<Rightarrow> NewSpace \<Rightarrow> nat \<Rightarrow> db \<Rightarrow> db" where
  "space_added now ns u s = s\<lparr>spaces := insert_auto (new_space now ns) (spaces s),
     members := insert_auto (new_member now (next_id (spaces s)) u OWNER) (members s)\<rparr>"

definition starter_data :: "int \<Rightarrow> nat \<Rightarrow> db \<Rightarrow> db" where
  "starter_data now sp s = createDefaultCategories now sp (s\<lparr>wallets := insert_auto (cash_wallet now sp) (wallets s)\<rparr>)"

lemma initialize_effect:
  assumes "initializeVerifiedUser now i s = Inr s'"
  obtains "s' = s" | sp where "s' = starter_data now sp (update_user i
    (\<lambda>u. u\<lparr>u_email_verified := True, u_updated_at := current_second now\<rparr>) s)"
  using assms by (auto simp: initializeVerifiedUser_def starter_data_def and_then_eq_Inr Let_def split: if_splits)

lemma account_step_cases [consumes 1]:
  assumes "account_step s s'"
  obtains (quiet) "rest_of s' = rest_of s"
  | (added) t now ns u where "rest_of t = rest_of s" and "s' = space_added now ns u t"
  | (currency) t p f where "rest_of t = rest_of s" and "\<And>x. sp_id (f x) = sp_id x"
      and "s' = t\<lparr>spaces := (spaces t)\<lparr>rows := update_rows p f (rows (spaces t))\<rparr>\<rparr>"
  | (started) t now sp where "rest_of t = rest_of s" and "s' = starter_data now sp t"
  using assms
proof cases
  case (registered bcrypt same_text now dto u)
  then obtain s1 where "insert_user bcrypt same_text now dto s = Inr (u, s1)"
    and s': "s' = space_added now \<lparr>ns_name = ''Personal'', ns_type = PERSONAL, ns_currency_id = cu_base_currency_id dto\<rparr> (u_id u) s1"
    by (auto simp: register_def and_then_eq_Inr createSpaceWithOwner_def insert_space_def insert_member_def space_added_def
        Let_def split: if_splits)
  then have "rest_of s1 = rest_of s" by (auto simp: insert_user_def split: if_splits)
  then show thesis using added s' by blast
next
  case (refreshed bcrypt now i dto)
  then obtain j t where "rest_of t = rest_of s" and "set_currency now j (cu_base_currency_id dto) t = Inr s'"
    by (auto simp: updateUnverified_work_def and_then_eq_Inr Let_def) (metis rest_of_simps(1))
  then show thesis
    by (intro currency [where t = t and p = "\<lambda>p. sp_id p = j" and f = "\<lambda>p. p\<lparr>sp_currency_id := cu_base_currency_id dto,
        sp_updated_at := current_second now\<rparr>"]) (auto simp: set_currency_def split: if_splits)
next
  case (confirmed now i)
  then show thesis using initialize_effect [of now i s s'] quiet started
    unfolding completeEmailVerification_def by (metis rest_of_simps(1))
next
  case (send_reserved clk code i ty r)
  then show thesis
    by (intro quiet) (auto simp: reserveSend_def and_then_eq_Inr Let_def split: option.splits ResendDecision.splits)
next
  case (email_verified clk found code out)
  then consider "rest_of s' = rest_of s" | t j where "rest_of t = rest_of s" "initializeVerifiedUser (clk 2) j t = Inr s'"
    by (auto simp: verifyEmail_work_def and_then_eq_Inr Let_def split: if_splits) (metis rest_of_simps(6))
  then show thesis using initialize_effect [of "clk 2" _ _ s'] quiet started by (metis rest_of_simps(1))
next
  case (reset_requested c same_text now code email h seen d)
  then show thesis
    by (intro quiet) (auto simp: reserveIn_def and_then_eq_Inr Let_def split: option.splits if_splits)
next
  case (reset_verified c same_text now email h code out')
  then show thesis
    by (intro quiet) (auto simp: verifyIn_def refuse_code_def accept_code_def store_token_def and_then_eq_Inr Let_def
      split: option.splits if_splits)
next
  case (reset_completed c bcrypt clk before token new x)
  then show thesis by (intro quiet) (auto simp: complete_def Let_def split: option.splits if_splits)
qed (auto intro: quiet)

lemma account_step_frame:
  assumes "account_step s s'"
  shows "invites s' = invites s" "invite_emails s' = invite_emails s" "next_id (spaces s) \<le> next_id (spaces s')"
  using assms
  by (cases rule: account_step_cases;
      auto simp: space_added_def starter_data_def createDefaultCategories_def dest: rest_ofD)+

lemma account_step_keeps:
  assumes step: "account_step s s'" and inv: "space_inv (s, used)" and ok: "members_ok s"
  shows "space_inv (s', used) \<and> members_ok s'"
proof -
  have same: "space_inv (t, used) \<and> members_ok t" if "rest_of t = rest_of s" for t
    using inv ok space_inv_cong [of t s used] members_ok_cong [of t s] rest_ofD [OF that] by simp
  from step show ?thesis
  proof (cases rule: account_step_cases)
    case quiet
    then show ?thesis by (rule same)
  next
    case (added t now ns u)
    with same have t: "space_inv (t, used)" "members_ok t" by blast+
    have "members_ok s' = members_ok (with_space now u ns t)"
      by (rule members_ok_cong) (simp_all add: added(2) space_added_def)
    then show ?thesis
      using t members_ok_with_space space_inv_cong [of s' t used] by (simp add: added(2) space_added_def)
  next
    case (currency t p f)
    with same have t: "space_inv (t, used)" "members_ok t" by blast+
    have "table_ok sp_id (spaces s')" unfolding currency(3)
      using table_ok_update [of sp_id "spaces t" f p] members_okD(2) [OF t(2)] currency(2) by simp
    moreover have "sp_id ` set (rows (spaces s')) = sp_id ` set (rows (spaces t))"
      using map_key_update_rows [of sp_id f p "rows (spaces t)"] currency(2) by (simp add: currency(3) flip: set_map)
    ultimately have "members_ok s'"
      using t(2) by (simp add: members_ok_def members_of_def currency(3))
    then show ?thesis using t space_inv_cong [of s' t used] by (simp add: currency(3))
  next
    case (started t now sp)
    with same have t: "space_inv (t, used)" "members_ok t" by blast+
    let ?t = "t\<lparr>wallets := insert_auto (cash_wallet now sp) (wallets t)\<rparr>"
    have "catalog_ok t" using t(1) by (simp add: space_inv_def)
    note wallet = insert_wallet_quiet [OF this, of "cash_wallet now sp"]
    have inv': "space_inv (?t, used)"
      using quiet_step [OF t(1) _ wallet(1,2)] by (simp add: same_history_def cash_wallet_def)
    then have "catalog_ok ?t" by (simp add: space_inv_def)
    from space_inv_more_categories [OF inv' createDefaultCategories_ok [OF this]]
    have "space_inv (s', used)" by (simp add: started(2) starter_data_def)
    moreover have "members_ok s' = members_ok t"
      by (rule members_ok_cong) (simp_all add: started(2) starter_data_def createDefaultCategories_def)
    ultimately show ?thesis using t(2) by simp
  qed
qed

end
