(* ===== verification/ProgramHistory.thy ===== *)
theory ProgramHistory
  imports AccountSteps
begin

text \<open>
  The whole program as one state machine: its steps are the successful writes of every service and of
  the delivery of invitations, in any order. The integrity of the history, the invariant of the
  catalog and that of the members are kept by all of them.
\<close>

section \<open>The program\<close>

text \<open>
  A successful write of any service, on the database and the set of transaction ids handed out. A
  write that locks members reads them twice before its locks are held: the locked rows stay.
\<close>

inductive program_step :: "runtime \<Rightarrow> db \<times> string set \<Rightarrow> db \<times> string set \<Rightarrow> bool" for rt where
  space: "space_step rt c c' \<Longrightarrow> program_step rt c c'"
| account: "account_step s s' \<Longrightarrow> program_step rt (s, used) (s', used)"
| create_space: "create_space rt to_json same_text clk secrets u dto key s = Inr (r1, s') \<Longrightarrow>
    program_step rt (s, used) (s', used)"
| remove_space: "remove_space restricted view u sp s = Inr (r2, s') \<Longrightarrow>
    locks_held sp u (view 1) (view 2) s \<Longrightarrow> program_step rt (s, used) (s', used)"
| leave: "leaveOrRemove restricted view sp u target s = Inr (r3, s') \<Longrightarrow>
    locks_held sp u (view 1) (view 2) s \<Longrightarrow> program_step rt (s, used) (s', used)"
| create_invite: "create_invite same_text clk secret u sp email s = Inr (r4, s') \<Longrightarrow>
    program_step rt (s, used) (s', used)"
| resend: "resend same_text now nonce u sp i s = Inr (r5, s') \<Longrightarrow> program_step rt (s, used) (s', used)"
| revoke: "revoke now u sp i s = Inr (r6, s') \<Longrightarrow> program_step rt (s, used) (s', used)"
| accept_token: "acceptToken hmac clk view u token s = Inr (r7, s') \<Longrightarrow> program_step rt (s, used) (s', used)"
| accept: "accept same_text clk view u code s = Inr (r8, s') \<Longrightarrow> program_step rt (s, used) (s', used)"
| claim: "claim_row i now s = (affected, s') \<Longrightarrow> program_step rt (s, used) (s', used)"
| finish: "finish invite status retry now s = (recorded, s') \<Longrightarrow> program_step rt (s, used) (s', used)"
| clear: "program_step rt (s, used) (clear_ended now s, used)"
| purge: "program_step rt (s, used) (purge_emails scan now s, used)"

definition program_inv :: "db \<times> string set \<Rightarrow> bool" where
  "program_inv c \<longleftrightarrow> space_inv c \<and> members_ok (fst c)"

text \<open>Steps of members and invitations leave the catalog and the history alone.\<close>

definition catalog_and_history :: "db \<Rightarrow> transaction list \<times> transaction_operation table \<times> wallet table \<times>
    category table \<times> limit table" where
  "catalog_and_history s = (transactions s, operations s, wallets s, categories s, limits s)"

lemma program_inv_members:
  assumes "program_inv (s, used)" and "catalog_and_history s' = catalog_and_history s" and "members_ok s'"
  shows "program_inv (s', used)"
  using assms space_inv_cong [of s' s used] by (simp add: program_inv_def catalog_and_history_def)

lemma catalog_and_history_simps [simp]:
  "catalog_and_history (joined_by clk v u s) = catalog_and_history s"
  "catalog_and_history (delete_member i s) = catalog_and_history s"
  "catalog_and_history (set_role i role s) = catalog_and_history s"
  "catalog_and_history (with_invites now secrets u sp emails s) = catalog_and_history s"
  "catalog_and_history (update_invite i f s) = catalog_and_history s"
  "catalog_and_history (recordScheduled now u invs s) = catalog_and_history s"
  "catalog_and_history (s\<lparr>idempotency_keys := t\<rparr>) = catalog_and_history s"
  by (simp_all add: catalog_and_history_def joined_by_def delete_member_def set_role_def update_invite_def recordScheduled_def)

lemma members_ok_update_invite:
  assumes "members_ok s" and "\<And>v. i_id (f v) = i_id v" and "\<And>v. i_role (f v) = i_role v"
  shows "members_ok (update_invite i f s)"
  by (rule members_ok_update_invites [OF assms]) (simp_all add: update_invite_def)

lemma members_ok_recordScheduled [simp]: "members_ok (recordScheduled now u invs s) = members_ok s"
  by (simp add: recordScheduled_def members_ok_def members_of_def)

lemma members_ok_keys [simp]: "members_ok (s\<lparr>idempotency_keys := t\<rparr>) = members_ok s"
  by (simp add: members_ok_def members_of_def)

text \<open>A created invitation is the one that was active for the address, or a new one.\<close>

lemma create_invite_effect:
  assumes "create_invite same_text clk secret u sp email s = Inr ((v, ids), s')"
  obtains (existing) "v \<in> set (getActive (clk 0) sp s)" and "isInviteFor v (normalizeInviteEmail email)" and "ids = []" and "s' = s"
  | (new) "\<forall>w \<in> set (getActive (clk 0) sp s). \<not> isInviteFor w (normalizeInviteEmail email)"
      and "length (getActive (clk 0) sp s) < MAX_PENDING_INVITES_PER_SPACE"
      and "assertCanSchedule same_text (clk 1) \<lparr>sr_senderId = u, sr_spaceId = Some sp,
            sr_emails = [normalizeInviteEmail email], sr_inviteId = None\<rparr> s = Inr ()"
      and "v = newInvite (clk 1) secret sp (normalizeInviteEmail email) (next_id (invites s))"
      and "s' = with_invites (clk 1) (\<lambda>_. secret) u sp [normalizeInviteEmail email] s"
proof -
  let ?a = "normalizeInviteEmail email"
  from assms obtain p c where p: "find_space sp s = Some p"
    and run: "(case find_row (\<lambda>invite. isInviteFor invite ?a) (getActive (clk 0) (sp_id p) s) of
          Some existing \<Rightarrow> Inr ((existing, []), s)
        | None \<Rightarrow> and_then (guard (length (getActive (clk 0) (sp_id p) s) < MAX_PENDING_INVITES_PER_SPACE)
                (api_error SPACE_INVITE_LIMIT_REACHED BAD_REQUEST)) (\<lambda>_.
            and_then (assertCanSchedule same_text (clk 1) \<lparr>sr_senderId = u, sr_spaceId = Some sp,
                sr_emails = [?a], sr_inviteId = None\<rparr> s) (\<lambda>_.
            let saved = newInvite (clk 1) secret (sp_id p) ?a (next_id (invites s)) in
              Inr ((saved, [i_id saved]), recordScheduled (clk 1) u [saved] (insert_invites [saved] s)))))
      = (Inr ((v, ids), s') :: exception + _)"
    by (auto simp: create_invite_def and_then_eq_Inr assertFound_eq_Inr getSpace_def Let_def split: option.splits)
  have id: "sp_id p = sp" using find_space_Some [OF p] by simp
  show thesis
  proof (cases "find_row (\<lambda>invite. isInviteFor invite ?a) (getActive (clk 0) sp s)")
    case (Some w)
    with run find_row_Some [OF Some] show thesis by (intro existing) (auto simp: id)
  next
    case None
    with run show thesis
      by (intro new) (auto simp: id and_then_eq_Inr guard_eq_Inr Let_def find_row_None with_invites_def new_invites_def)
  qed
qed

lemma resend_effect:
  assumes "members_ok s" and "resend same_text now nonce u sp i s = Inr ((w, ids), s')"
  obtains v where "find_invite i s = Some v" and "i_space_id v = sp" and "isActiveInvite v now"
    and "assertCanSchedule same_text now \<lparr>sr_senderId = u, sr_spaceId = Some sp,
         sr_emails = [i_email v], sr_inviteId = Some i\<rparr> s = Inr ()"
    and "if effectiveStatus v now = EMAIL_QUEUED then (w, s') = expedite now v s \<and> ids = [i]
      else if effectiveStatus v now = EMAIL_SENDING then w = v \<and> s' = s \<and> ids = []
      else (w, s') = requeue now nonce u v s \<and> ids = [i]"
proof -
  from assms(2) obtain v where v: "find_invite i s = Some v" "i_space_id v = sp" "isActiveInvite v now"
    and sched: "assertCanSchedule same_text now \<lparr>sr_senderId = u, sr_spaceId = Some sp,
         sr_emails = [i_email v], sr_inviteId = Some (i_id v)\<rparr> s = Inr ()"
    and rest: "(let status = effectiveStatus v now in
     if status = EMAIL_QUEUED then (let (invite, s') = expedite now v s in Inr ((invite, [i_id invite]), s'))
     else if status \<noteq> EMAIL_SENDING then
       (let (invite, s') = requeue now nonce u v s in Inr ((invite, [i_id invite]), s'))
     else Inr ((v, []), s)) = (Inr ((w, ids), s') :: exception + _)"
    by (auto simp: resend_def and_then_eq_Inr lockInvite_ok [OF assms(1)] split: option.splits if_splits)
  have id: "i_id v = i" using find_invite_Some [OF v(1)] by simp
  have same: "i_id (fst (expedite now v s)) = i" "i_id (fst (requeue now nonce u v s)) = i"
    by (simp_all add: expedite_def requeue_def requeue_patch_def Let_def id)
  show thesis
    using rest sched v same
    by (intro that [of v]) (auto simp: Let_def id case_prod_unfold split: if_splits)
qed

lemma revoke_iff:
  assumes "members_ok s"
  shows "revoke now u sp i s = Inr ((), s') \<longleftrightarrow>
    (\<exists>m. find_member sp u s = Some m \<and> m_role m = OWNER) \<and>
    (\<exists>v. find_invite i s = Some v \<and> i_space_id v = sp \<and> i_accepted_at v = None \<and> i_revoked_at v = None) \<and>
    s' = update_invite i (revoke_row now) s"
  using find_invite_Some [of i s]
  by (auto simp: revoke_def and_then_eq_Inr lockOwner_eq_Inr lockInvite_ok [OF assms] split: option.splits if_splits)

lemma accept_join:
  "acceptToken hmac clk view u token s = Inr (r, s') \<Longrightarrow> \<exists>w i. join clk (view 2) w i TOKEN s = Inr (r, s')"
  "accept same_text clk view u code s = Inr (r, s') \<Longrightarrow> \<exists>w i. join clk (view 2) w i CODE s = Inr (r, s')"
  by (auto simp: acceptToken_def accept_def and_then_eq_Inr Let_def)

lemma join_keeps:
  assumes ok: "members_ok s" and run: "join clk before w i cred s = Inr (r, s')"
  shows "members_ok s' \<and> catalog_and_history s' = catalog_and_history s"
proof -
  obtain p c where r: "r = (p, c)" by (cases r)
  from run obtain v where v: "find_invite i s = Some v" "find_space (i_space_id v) s = Some p"
    and new: "if is_member (i_space_id v) (u_id w) s then i_accepted_by_user_id v = Some (u_id w) \<and> s' = s
      else isActiveInvite v (clk 1) \<and> length (members_of (i_space_id v) s) < MAX_MEMBERS_PER_SPACE \<and>
        s' = joined_by clk v (u_id w) s"
    unfolding r join_iff [OF ok] by blast
  show ?thesis
  proof (cases "is_member (i_space_id v) (u_id w) s")
    case True
    with new ok show ?thesis by simp
  next
    case False
    with new members_ok_joined [OF ok v(1,2) False] show ?thesis by simp
  qed
qed

lemma leave_keeps:
  assumes inv: "program_inv (s, used)" and held: "locks_held sp u (view 1) (view 2) s"
    and run: "leaveOrRemove restricted view sp u target s = Inr (r, s')"
  shows "program_inv (s', used)"
proof -
  have ok: "members_ok s" and sinv: "space_inv (s, used)" using inv by (simp_all add: program_inv_def)
  from ok held run show ?thesis
  proof (cases rule: leaveOrRemove_cases)
    case (ended m x)
    have x: "x \<in> set (rows (members s))" "m_space_id x = sp" "m_user_id x = target"
      using find_member_Some [OF ended(2)] by simp_all
    have m: "m \<in> set (rows (members s))" "m_space_id m = sp" "m_user_id m = u"
      using find_member_Some [OF ended(1)] by simp_all
    have "m_role x \<noteq> OWNER"
    proof (cases "u = target")
      case True
      with ended show ?thesis by simp
    next
      case False
      have "m_role x = OWNER \<Longrightarrow> m = x"
        using members_okD(5) [OF ok] x m ended(4) False unfolding owned_def by metis
      with False x m show ?thesis by auto
    qed
    with members_ok_ended [OF ok x(1)] show ?thesis
      by (intro program_inv_members [OF inv]) (simp_all add: ended(5))
  next
    case (handed_over m b)
    have m: "m \<in> set (rows (members s))" "m_space_id m = sp" using find_member_Some [OF handed_over(1)] by simp_all
    have b: "b \<in> set (rows (members s))" "m_space_id b = sp" using handed_over(4) by (simp_all add: members_of_def)
    have "members_ok s'"
      unfolding handed_over(7) using m b handed_over(2,5) by (intro members_ok_handed_over [OF ok]) simp_all
    then show ?thesis by (intro program_inv_members [OF inv]) (simp_all add: handed_over(7))
  next
    case (deleted m)
    then show ?thesis
      using members_ok_without_space [OF ok] space_inv_without_space [OF sinv] by (simp add: program_inv_def)
  qed
qed

lemma create_space_cases:
  assumes "create_space rt to_json same_text clk secrets u dto key s = Inr (reply, s')"
  obtains (replayed) body t where "reply = Replayed body" and "s' = s\<lparr>idempotency_keys := t\<rparr>"
  | (fresh) r s1 t t' where "reply = Fresh r"
      and "create_space_work same_text clk secrets u dto (invite_addresses dto) (s\<lparr>idempotency_keys := t\<rparr>) = Inr (r, s1)"
      and "s' = s1\<lparr>idempotency_keys := t'\<rparr>"
proof (cases key)
  case None
  then obtain r where "create_space_work same_text clk secrets u dto (invite_addresses dto) s = Inr (r, s')" "reply = Fresh r"
    using assms by (auto simp: create_space_def Let_def and_then_eq_Inr)
  then show ?thesis using fresh [of r "idempotency_keys s" s' "idempotency_keys s'"] by simp
next
  case (Some k)
  with assms have "run_idempotent (rt_claims rt) to_json
      \<lparr>sc_user_id = u, sc_space_id = NO_SPACE_ID, sc_operation = ''spaces.create'', sc_idempotency_key = k\<rparr>
      (hashPayload (rt_digest rt) (space_payload dto)) (clk 0)
      (create_space_work same_text clk secrets u dto (invite_addresses dto)) s = Inr (reply, s')"
    by (auto simp: create_space_def Let_def and_then_eq_Inr)
  then show ?thesis by (cases rule: run_idempotent_cases) (erule (1) replayed, erule (2) fresh)
qed

lemma create_space_keeps:
  assumes inv: "program_inv (s, used)"
    and run: "create_space rt to_json same_text clk secrets u dto key s = Inr (reply, s')"
  shows "program_inv (s', used)"
  using run
proof (cases rule: create_space_cases)
  case (replayed body t)
  then show ?thesis using inv by (intro program_inv_members [OF inv]) (simp_all add: program_inv_def)
next
  case (fresh r s1 t t')
  obtain p c where r: "r = (p, c)" by (cases r)
  let ?s = "s\<lparr>idempotency_keys := t\<rparr>"
  have inv': "program_inv (?s, used)" using inv by (intro program_inv_members [OF inv]) (simp_all add: program_inv_def)
  then have ok: "members_ok ?s" and sinv: "space_inv (?s, used)" by (simp_all add: program_inv_def)
  let ?new = "with_space (clk 0) u (new_space_of dto) ?s"
  have s1: "s1 = with_invites (clk 1) secrets u (next_id (spaces ?s)) (invite_addresses dto) ?new"
    using fresh(2) unfolding r create_space_work_iff [OF ok] by blast
  have inv0: "program_inv (?new, used)"
    using members_ok_with_space [OF ok] space_inv_with_space [OF sinv] by (simp add: program_inv_def)
  have inv1: "program_inv (s1, used)"
    unfolding s1 by (rule program_inv_members [OF inv0]) (simp_all add: members_ok_with_invites members_ok_with_space [OF ok])
  then have "members_ok s1" by (simp add: program_inv_def)
  then show ?thesis unfolding fresh(3) by (intro program_inv_members [OF inv1]) simp_all
qed

lemma program_step_keeps:
  assumes inv: "program_inv c" and step: "program_step rt c c'"
  shows "program_inv c'"
proof -
  have ok: "members_ok s" if "c = (s, used)" for s used using inv that by (simp add: program_inv_def)
  have quiet: ?thesis if "c = (s, used)" "c' = (s', used)" "members_ok s'" "catalog_and_history s' = catalog_and_history s"
    for s used s' using program_inv_members [of s used s'] inv that by simp
  from step show ?thesis
  proof cases
    case space
    with inv have "space_inv c'" using space_step_keeps unfolding program_inv_def by blast
    moreover from space_step_people [OF space] have "members_ok (fst c') = members_ok (fst c)"
      by (intro members_ok_cong) (simp_all add: people_eq)
    ultimately show ?thesis using inv by (simp add: program_inv_def)
  next
    case (account s s' used)
    with inv account_step_keeps [of s s' used] show ?thesis by (simp add: program_inv_def)
  next
    case create_space
    then show ?thesis using create_space_keeps inv by blast
  next
    case (remove_space restricted view u sp s r2 s' used)
    then obtain m where "s' = without_space sp s"
      using remove_space_effect [OF ok [OF remove_space(1)] remove_space(4,3)] by blast
    with inv remove_space(1,2) show ?thesis
      using members_ok_without_space space_inv_without_space by (simp add: program_inv_def)
  next
    case leave
    then show ?thesis using leave_keeps inv by blast
  next
    case (create_invite same_text clk secret u sp email s r4 s' used)
    obtain v ids where r4: "r4 = (v, ids)" by (cases r4)
    from create_invite(3) [unfolded r4] have "s' = s \<or> (\<exists>es. s' = with_invites (clk 1) (\<lambda>_. secret) u sp es s)"
      by (rule create_invite_effect) blast+
    then show ?thesis
      using quiet [OF create_invite(1,2)] ok [OF create_invite(1)] members_ok_with_invites by auto
  next
    case (resend same_text now nonce u sp i s r5 s' used)
    note ok' = ok [OF resend(1)]
    obtain w ids where r5: "r5 = (w, ids)" by (cases r5)
    from resend(3) [unfolded r5] obtain v where
      "s' = s \<or> s' = snd (expedite now v s) \<or> s' = snd (requeue now nonce u v s)"
      by (rule resend_effect [OF ok']) (metis snd_conv)
    moreover have "members_ok (snd (expedite now v s))" and "members_ok (snd (requeue now nonce u v s))"
      using members_ok_update_invite [OF ok']
      by (simp_all add: expedite_def requeue_def requeue_patch_def Let_def)
    moreover have "catalog_and_history (snd (expedite now v s)) = catalog_and_history s"
      and "catalog_and_history (snd (requeue now nonce u v s)) = catalog_and_history s"
      by (simp_all add: expedite_def requeue_def Let_def)
    ultimately show ?thesis using quiet [OF resend(1,2)] ok' by metis
  next
    case (revoke now u sp i s r6 s' used)
    note ok' = ok [OF revoke(1)]
    from revoke(3) have "s' = update_invite i (revoke_row now) s" using revoke_iff [OF ok'] by simp
    then show ?thesis
      using quiet [OF revoke(1,2)] members_ok_update_invite [OF ok'] by (simp add: revoke_row_def)
  next
    case (accept_token hmac clk view u token s r7 s' used)
    then obtain w i where run: "join clk (view 2) w i TOKEN s = Inr (r7, s')" using accept_join(1) by blast
    from join_keeps [OF ok [OF accept_token(1)] run] quiet [OF accept_token(1,2)] show ?thesis by blast
  next
    case (accept same_text clk view u code s r8 s' used)
    then obtain w i where run: "join clk (view 2) w i CODE s = Inr (r8, s')" using accept_join(2) by blast
    from join_keeps [OF ok [OF accept(1)] run] quiet [OF accept(1,2)] show ?thesis by blast
  next
    case (claim i now s affected s' used)
    have "members_ok s'" and "catalog_and_history s' = catalog_and_history s"
      using claim(3) members_ok_update_invites [OF ok [OF claim(1)], of "take_lease now"]
      by (auto simp: claim_row_def Let_def take_lease_def catalog_and_history_def)
    then show ?thesis using quiet [OF claim(1,2)] by blast
  next
    case (finish invite status retry now s recorded s' used)
    have "members_ok s'" and "catalog_and_history s' = catalog_and_history s"
      using finish(3) members_ok_update_invites [OF ok [OF finish(1)], of "record_result status retry now"]
      by (auto simp: finish_def record_result_def catalog_and_history_def)
    then show ?thesis using quiet [OF finish(1,2)] by blast
  next
    case (clear s used now)
    have "members_ok (clear_ended now s)" and "catalog_and_history (clear_ended now s) = catalog_and_history s"
      by (rule members_ok_update_invites [OF ok [OF clear(1)], where p = "is_ended now" and
          f = "\<lambda>v. v\<lparr>i_email_next_attempt_at := None, i_email_lease_expires_at := None\<rparr>"])
        (simp_all add: clear_ended_def catalog_and_history_def)
    then show ?thesis using quiet [OF clear(1,2)] by blast
  next
    case (purge s used scan now)
    have "members_ok (purge_emails scan now s)" and "catalog_and_history (purge_emails scan now s) = catalog_and_history s"
      using ok [OF purge(1)] by (auto simp: purge_emails_def Let_def catalog_and_history_def members_ok_def members_of_def)
    then show ?thesis using quiet [OF purge(1,2)] by blast
  qed
qed

interpretation program: transition_invariant "program_step rt" program_inv for rt
  by unfold_locales (rule program_step_keeps)

end
