(* ===== verification/DeliveryFacts.thy ===== *)
theory DeliveryFacts
  imports ProgramHistory
begin

text \<open>
  Facts about the delivery of invitation emails: an attempt is overtaken for good once the row has a
  later attempt id, an attempt ends in one of four ways, and the emails scheduled in any window of a
  day stay within their limits.
\<close>

section \<open>How a join ends\<close>

lemma join_cases [consumes 2]:
  assumes "members_ok s" and "join clk before w i cred s = Inr (r, s')"
  obtains (member) v where "find_invite i s = Some v" and "isInviteFor v (u_email w)" and "find_space (i_space_id v) s = Some (fst r)"
      and "is_member (i_space_id v) (u_id w) s" and "i_accepted_by_user_id v = Some (u_id w)" and "s' = s"
  | (joined) v where "find_invite i s = Some v" and "isInviteFor v (u_email w)" and "find_space (i_space_id v) s = Some (fst r)"
      and "\<not> is_member (i_space_id v) (u_id w) s" and "isActiveInvite v (clk 1)"
      and "length (members_of (i_space_id v) s) < MAX_MEMBERS_PER_SPACE" and "s' = joined_by clk v (u_id w) s"
proof -
  obtain p c where r: "r = (p, c)" by (cases r)
  from assms(2) obtain v where "find_invite i s = Some v" "isInviteFor v (u_email w)" "find_space (i_space_id v) s = Some p"
    "if is_member (i_space_id v) (u_id w) s then i_accepted_by_user_id v = Some (u_id w) \<and> s' = s
     else isActiveInvite v (clk 1) \<and> length (members_of (i_space_id v) s) < MAX_MEMBERS_PER_SPACE \<and>
       s' = joined_by clk v (u_id w) s"
    unfolding r join_iff [OF assms(1)] by blast
  then show thesis by (cases "is_member (i_space_id v) (u_id w) s") (auto simp: r intro: member joined)
qed

section \<open>Attempt ids only grow\<close>

text \<open>
  The rows of \<open>s'\<close> that are not new are rows of \<open>s\<close> with the same identity and an attempt id that is
  not lower.
\<close>

definition same_link :: "space_invite \<Rightarrow> space_invite \<Rightarrow> bool" where
  "same_link v w \<longleftrightarrow> i_id w = i_id v \<and> i_space_id w = i_space_id v \<and> i_email w = i_email v \<and> i_code w = i_code v \<and>
     i_expires_at w = i_expires_at v \<and> (i_token_nonce v \<noteq> None \<longrightarrow> i_token_nonce w = i_token_nonce v)"

definition overtakes :: "space_invite \<Rightarrow> space_invite \<Rightarrow> bool" where
  "overtakes v w \<longleftrightarrow> same_link v w \<and> i_email_attempt_id v \<le> i_email_attempt_id w \<and>
     (i_accepted_at v \<noteq> None \<longrightarrow> i_accepted_at w \<noteq> None) \<and> (i_revoked_at v \<noteq> None \<longrightarrow> i_revoked_at w \<noteq> None)"

definition attempts_grow :: "db \<Rightarrow> db \<Rightarrow> bool" where
  "attempts_grow s s' \<longleftrightarrow> next_id (spaces s) \<le> next_id (spaces s') \<and> next_id (invites s) \<le> next_id (invites s') \<and>
     (\<forall>w \<in> set (rows (invites s')). i_id w < next_id (invites s) \<longrightarrow> (\<exists>v \<in> set (rows (invites s)). overtakes v w))"

lemma overtakes_refl [simp]: "overtakes v v"
  by (simp add: overtakes_def same_link_def)

lemma overtakes_trans: "overtakes v w \<Longrightarrow> overtakes w x \<Longrightarrow> overtakes v x"
  by (auto simp: overtakes_def same_link_def)

lemma attempts_grow_refl: "attempts_grow s s"
  by (auto simp: attempts_grow_def intro: overtakes_refl)

lemma attempts_grow_same:
  "invites s' = invites s \<Longrightarrow> next_id (spaces s) \<le> next_id (spaces s') \<Longrightarrow> attempts_grow s s'"
  by (auto simp: attempts_grow_def intro: overtakes_refl)

lemma attempts_grow_trans:
  assumes "attempts_grow s s1" and "attempts_grow s1 s2"
  shows "attempts_grow s s2"
  unfolding attempts_grow_def
proof (intro conjI ballI impI)
  show "next_id (spaces s) \<le> next_id (spaces s2)" "next_id (invites s) \<le> next_id (invites s2)"
    using assms by (simp_all add: attempts_grow_def)
  fix x assume x: "x \<in> set (rows (invites s2))" "i_id x < next_id (invites s)"
  with assms obtain w where w: "w \<in> set (rows (invites s1))" "overtakes w x"
    unfolding attempts_grow_def by (meson less_le_trans)
  then have "i_id w < next_id (invites s)" using x(2) by (simp add: overtakes_def same_link_def)
  with assms(1) w obtain v where "v \<in> set (rows (invites s))" "overtakes v w" unfolding attempts_grow_def by blast
  with w(2) show "\<exists>v \<in> set (rows (invites s)). overtakes v x" using overtakes_trans by blast
qed

lemma attempts_grow_update:
  assumes "\<And>v. v \<in> set (rows (invites s)) \<Longrightarrow> p v \<Longrightarrow> overtakes v (f v)"
    and "invites s' = (invites s)\<lparr>rows := update_rows p f (rows (invites s))\<rparr>" and "spaces s' = spaces s"
  shows "attempts_grow s s'"
  using assms by (auto simp: attempts_grow_def set_update_rows intro: overtakes_refl)

lemma attempts_grow_append:
  assumes "rows (invites s') = rows (invites s) @ vs" and "next_id (invites s) \<le> next_id (invites s')"
    and "\<And>v. v \<in> set vs \<Longrightarrow> next_id (invites s) \<le> i_id v" and "spaces s' = spaces s"
  shows "attempts_grow s s'"
  using assms by (force simp: attempts_grow_def)

lemma attempts_grow_delete:
  "invites s' = (invites s)\<lparr>rows := delete_rows p (rows (invites s))\<rparr> \<Longrightarrow>
    next_id (spaces s) \<le> next_id (spaces s') \<Longrightarrow> attempts_grow s s'"
  by (auto simp: attempts_grow_def intro: overtakes_refl)

lemma attempts_grow_with_invites: "attempts_grow s (with_invites now secrets u sp emails s)"
  by (rule attempts_grow_append [where vs = "new_invites now secrets sp emails (next_id (invites s))"])
    (simp_all add: new_invites_ids(2))

lemma overtaken_by:
  "overtakes v (take_lease now v)" "overtakes v (record_result status retry now v)"
  "overtakes v (accept_row now u v)" "overtakes v (revoke_row now v)"
  "overtakes v (v\<lparr>i_email_next_attempt_at := t\<rparr>)"
  "overtakes v (v\<lparr>i_email_next_attempt_at := t, i_email_lease_expires_at := t'\<rparr>)"
  by (simp_all add: overtakes_def same_link_def take_lease_def record_result_def accept_row_def revoke_row_def)

lemma program_step_grows:
  assumes inv: "program_inv c" and step: "program_step rt c c'"
  shows "attempts_grow (fst c) (fst c')"
proof -
  have ok: "members_ok s" if "c = (s, used)" for s used using inv that by (simp add: program_inv_def)
  have join: "attempts_grow s s'" if "members_ok s" "join clk before w i cred s = Inr (r, s')" for s clk before w i cred r s'
  proof -
    from that obtain v where "s' = s \<or> s' = joined_by clk v (u_id w) s"
      by (cases rule: join_cases) blast+
    moreover have "attempts_grow s (joined_by clk v (u_id w) s)"
      by (rule attempts_grow_update [where f = "accept_row (clk 2) (u_id w)" and p = "\<lambda>x. i_id x = i_id v"])
        (simp_all add: overtaken_by joined_by_def)
    ultimately show ?thesis using attempts_grow_refl by metis
  qed
  from step show ?thesis
  proof cases
    case space
    from space_step_people [OF space] show ?thesis by (intro attempts_grow_same) (simp_all add: people_eq)
  next
    case (account s s' used)
    with account_step_frame [OF account(3)] show ?thesis by (intro attempts_grow_same) simp_all
  next
    case (create_space to_json same_text clk secrets u dto key s r1 s' used)
    from create_space(3) show ?thesis
    proof (cases rule: create_space_cases)
      case (replayed body t)
      then show ?thesis by (intro attempts_grow_same) (simp_all add: create_space)
    next
      case (fresh r s1 t t')
      obtain p q where r: "r = (p, q)" by (cases r)
      have "members_ok (s\<lparr>idempotency_keys := t\<rparr>)" using ok [OF create_space(1)] by simp
      from fresh(2) [unfolded r create_space_work_iff [OF this]]
      have "s1 = with_invites (clk 1) secrets u (next_id (spaces s)) (invite_addresses dto)
          (with_space (clk 0) u (new_space_of dto) (s\<lparr>idempotency_keys := t\<rparr>))" by simp
      then have "attempts_grow (with_space (clk 0) u (new_space_of dto) (s\<lparr>idempotency_keys := t\<rparr>)) s1"
        using attempts_grow_with_invites by simp
      then show ?thesis unfolding create_space(1,2) fresh(3) by (simp add: attempts_grow_def)
    qed
  next
    case (remove_space restricted view u sp s r2 s' used)
    then obtain m where "s' = without_space sp s"
      using remove_space_effect [OF ok [OF remove_space(1)] remove_space(4,3)] by blast
    then show ?thesis
      by (intro attempts_grow_delete [where p = "\<lambda>v. i_space_id v = sp"]) (simp_all add: remove_space without_space_def)
  next
    case (leave restricted view sp u target s r3 s' used)
    from ok [OF leave(1)] leave(4,3) have "invites s' = invites s \<and> spaces s' = spaces s \<or> s' = without_space sp s"
      by (cases rule: leaveOrRemove_cases) (simp_all add: delete_member_def set_role_def)
    then show ?thesis
      using attempts_grow_same [of s' s] attempts_grow_delete [of "without_space sp s" "\<lambda>v. i_space_id v = sp" s]
      by (auto simp: leave without_space_def)
  next
    case (create_invite same_text clk secret u sp email s r4 s' used)
    obtain v ids where r4: "r4 = (v, ids)" by (cases r4)
    from create_invite(3) [unfolded r4] have "s' = s \<or> (\<exists>es. s' = with_invites (clk 1) (\<lambda>_. secret) u sp es s)"
      by (rule create_invite_effect) blast+
    then show ?thesis using create_invite(1,2) attempts_grow_refl attempts_grow_with_invites by auto
  next
    case (resend same_text now nonce u sp i s r5 s' used)
    note ok' = ok [OF resend(1)]
    obtain w ids where r5: "r5 = (w, ids)" by (cases r5)
    from resend(3) [unfolded r5] obtain v where v: "find_invite i s = Some v"
      and s': "s' = s \<or> s' = snd (expedite now v s) \<or> s' = snd (requeue now nonce u v s)"
      by (rule resend_effect [OF ok']) (metis snd_conv)
    have v': "v \<in> set (rows (invites s))" "i_id v = i" using find_invite_Some [OF v] by simp_all
    have same: "x = v" if "x \<in> set (rows (invites s))" "i_id x = i_id v" for x
      using members_okD(3) [OF ok'] distinct_key_eq [of i_id "rows (invites s)"] v' that by (auto simp: table_ok_def)
    let ?f = "\<lambda>x. (requeue_patch now nonce v x)\<lparr>i_email_attempt_id := i_email_attempt_id x + 1\<rparr>"
    have "overtakes v (?f v)"
      by (auto simp: overtakes_def same_link_def requeue_patch_def)
    then have "attempts_grow s (snd (requeue now nonce u v s))"
      by (intro attempts_grow_update [where p = "\<lambda>x. i_id x = i_id v" and f = ?f])
        (simp_all add: requeue_def Let_def recordScheduled_def update_invite_def, metis same)
    moreover have "attempts_grow s (snd (expedite now v s))"
      by (rule attempts_grow_update [where p = "\<lambda>x. i_id x = i_id v" and f = "\<lambda>x. x\<lparr>i_email_next_attempt_at := Some now\<rparr>"])
        (simp_all add: expedite_def update_invite_def overtaken_by)
    ultimately show ?thesis using s' resend(1,2) attempts_grow_refl by auto
  next
    case (revoke now u sp i s r6 s' used)
    from revoke(3) have "s' = update_invite i (revoke_row now) s" using revoke_iff [OF ok [OF revoke(1)]] by simp
    then show ?thesis unfolding revoke(1,2) fst_conv
      by (intro attempts_grow_update [where p = "\<lambda>x. i_id x = i" and f = "revoke_row now"])
        (simp_all add: update_invite_def overtaken_by)
  next
    case accept_token
    then show ?thesis using accept_join(1) join ok by (metis fst_conv)
  next
    case accept
    then show ?thesis using accept_join(2) join ok by (metis fst_conv)
  next
    case (claim i now s affected s' used)
    then show ?thesis
      by (intro attempts_grow_update [where p = "\<lambda>v. i_id v = i \<and> claimable now v" and f = "take_lease now"])
        (auto simp: claim_row_def Let_def overtaken_by)
  next
    case (finish invite status retry now s recorded s' used)
    then show ?thesis
      by (intro attempts_grow_update [where p = "of_attempt invite now" and f = "record_result status retry now"])
        (auto simp: finish_def overtaken_by)
  next
    case (clear s used now)
    then show ?thesis
      by (intro attempts_grow_update [where p = "is_ended now" and
            f = "\<lambda>v. v\<lparr>i_email_next_attempt_at := None, i_email_lease_expires_at := None\<rparr>"])
        (simp_all add: clear_ended_def overtaken_by)
  next
    case purge
    then show ?thesis by (intro attempts_grow_same) (simp_all add: purge_emails_def Let_def)
  qed
qed

interpretation delivery: transition_order "program_step rt" program_inv "\<lambda>c c'. attempts_grow (fst c) (fst c')" for rt
  by unfold_locales (blast intro: program_step_grows attempts_grow_refl attempts_grow_trans)+

end
