(* ===== verification/EmailLimits.thy ===== *)
theory EmailLimits
  imports DeliveryFacts
begin

text \<open>
  The sending limits over time: steps of the program with a clock that does not go back, and with the
  list of all emails ever scheduled, which no purge shortens. The table that the limits are checked
  against keeps every email of the last day, so at any time the last day has at most five emails of
  an invitation and thirty of a space, and two emails of an invitation are a minute apart.
\<close>

section \<open>What a passed check means\<close>

lemma sorted_le_last: "x \<in> set xs \<Longrightarrow> sorted xs \<Longrightarrow> x \<le> last xs"
  for x :: int
  by (induction xs) auto

lemma limitWait_passed:
  assumes "limitWait now sent limit adding = Inr w" and "w \<le> 0"
    and "\<And>t. t \<in> set sent \<Longrightarrow> now - LIMIT_WINDOW_MS < t"
  shows "length sent + adding \<le> limit"
proof (rule ccontr)
  assume "\<not> length sent + adding \<le> limit"
  with assms(1) obtain t rest where "sent = t # rest" "w = t + LIMIT_WINDOW_MS - now"
    by (cases sent) (auto simp: limitWait_def)
  with assms(2) assms(3) [of t] show False by simp
qed

definition in_window :: "int \<Rightarrow> (space_invite_email \<Rightarrow> bool) \<Rightarrow> space_invite_email list \<Rightarrow> space_invite_email list" where
  "in_window now p es = filter (\<lambda>e. p e \<and> now - LIMIT_WINDOW_MS < e_scheduled_at e) es"

lemma windowOf_in_window: "windowOf (now - LIMIT_WINDOW_MS) p s = sort (map e_scheduled_at (in_window now p (rows (invite_emails s))))"
  by (simp add: windowOf_def in_window_def)

lemma schedule_passed:
  assumes "assertCanSchedule same_text now r s = Inr ()"
  shows "sr_spaceId r = Some sp \<Longrightarrow>
      length (in_window now (\<lambda>e. e_space_id e = sp) (rows (invite_emails s))) + length (sr_emails r) \<le> PER_SPACE"
    and "sr_inviteId r = Some i \<Longrightarrow>
      length (in_window now (\<lambda>e. e_invite_id e = i) (rows (invite_emails s))) < PER_INVITE"
    and "sr_inviteId r = Some i \<Longrightarrow> e \<in> set (rows (invite_emails s)) \<Longrightarrow> e_invite_id e = i \<Longrightarrow>
      now - LIMIT_WINDOW_MS < e_scheduled_at e \<Longrightarrow> e_scheduled_at e + RESEND_COOLDOWN_MS \<le> now"
proof -
  let ?win = "\<lambda>p. windowOf (now - LIMIT_WINDOW_MS) p s"
  have recent: "t \<in> set (?win p) \<Longrightarrow> now - LIMIT_WINDOW_MS < t" for t p
    by (auto simp: windowOf_def)
  have len: "length (?win p) = length (in_window now p (rows (invite_emails s)))" for p
    by (simp add: windowOf_in_window)
  from assms obtain waits where waits: "scheduleWaits same_text now r s = Inr waits" and small: "Max (set waits) \<le> 0"
    by (auto simp: assertCanSchedule_def and_then_eq_Inr Let_def split: if_splits)
  then have le: "w \<in> set waits \<Longrightarrow> w \<le> 0" for w by (meson List.finite_set Max_ge order_trans)
  from waits obtain ws1 ws2 where i: "(case sr_inviteId r of None \<Rightarrow> Inr [] | Some inviteId \<Rightarrow>
            let sent = ?win (\<lambda>e. e_invite_id e = inviteId) in
            and_then (limitWait now sent PER_INVITE 1) (\<lambda>w. Inr [cooldownWait now sent, w])) = (Inr ws1 :: exception + _)"
    and sp: "(case sr_spaceId r of None \<Rightarrow> Inr [] | Some spaceId \<Rightarrow>
            and_then (limitWait now (?win (\<lambda>e. e_space_id e = spaceId)) PER_SPACE
              (length (sr_emails r))) (\<lambda>w. Inr [w])) = (Inr ws2 :: exception + _)"
    and ws: "set ws1 \<subseteq> set waits" "set ws2 \<subseteq> set waits"
    unfolding scheduleWaits_def Let_def by (elim and_thenE) (rule that, simp only: Let_def, assumption, auto)
  show "length (in_window now (\<lambda>e. e_space_id e = sp) (rows (invite_emails s))) + length (sr_emails r) \<le> PER_SPACE"
    if "sr_spaceId r = Some sp"
  proof -
    from that sp obtain w where w: "limitWait now (?win (\<lambda>e. e_space_id e = sp)) PER_SPACE (length (sr_emails r)) = Inr w"
      and "w \<in> set ws2" by (auto simp: and_then_eq_Inr)
    with le ws(2) have "w \<le> 0" by blast
    with limitWait_passed [OF w] recent show ?thesis by (simp add: len)
  qed
  assume inv: "sr_inviteId r = Some i"
  with i obtain w where w: "limitWait now (?win (\<lambda>e. e_invite_id e = i)) PER_INVITE 1 = Inr w"
    and ws1: "ws1 = [cooldownWait now (?win (\<lambda>e. e_invite_id e = i)), w]" by (auto simp: and_then_eq_Inr Let_def)
  with le ws(1) have "w \<le> 0" and cool: "cooldownWait now (?win (\<lambda>e. e_invite_id e = i)) \<le> 0" by auto
  with limitWait_passed [OF w] recent
  show "length (in_window now (\<lambda>e. e_invite_id e = i) (rows (invite_emails s))) < PER_INVITE" by (simp add: len)
  assume e: "e \<in> set (rows (invite_emails s))" "e_invite_id e = i" "now - LIMIT_WINDOW_MS < e_scheduled_at e"
  then have in_win: "e_scheduled_at e \<in> set (?win (\<lambda>e. e_invite_id e = i))" by (auto simp: windowOf_def)
  then have "e_scheduled_at e \<le> last (?win (\<lambda>e. e_invite_id e = i))"
    by (rule sorted_le_last) (simp add: windowOf_def)
  moreover have "?win (\<lambda>e. e_invite_id e = i) \<noteq> []" using in_win by force
  ultimately show "e_scheduled_at e + RESEND_COOLDOWN_MS \<le> now"
    using cool by (simp add: cooldownWait_def)
qed

section \<open>Windows over a list of emails\<close>

text \<open>How many emails with a property were scheduled in the day up to an instant.\<close>

definition sent_in_day :: "(space_invite_email \<Rightarrow> bool) \<Rightarrow> int \<Rightarrow> space_invite_email list \<Rightarrow> nat" where
  "sent_in_day p t mails = length (filter (\<lambda>e. p e \<and> t - LIMIT_WINDOW_MS < e_scheduled_at e \<and> e_scheduled_at e \<le> t) mails)"

definition within_limit :: "(space_invite_email \<Rightarrow> bool) \<Rightarrow> nat \<Rightarrow> space_invite_email list \<Rightarrow> bool" where
  "within_limit p limit mails \<longleftrightarrow> (\<forall>t. sent_in_day p t mails \<le> limit)"

lemma length_filter_mono:
  "(\<And>x. x \<in> set xs \<Longrightarrow> p x \<Longrightarrow> q x) \<Longrightarrow> length (filter p xs) \<le> length (filter q xs)"
  by (induction xs) (auto intro: le_SucI)

lemma within_limit_append:
  assumes "within_limit p limit mails" and past: "\<And>e. e \<in> set mails \<Longrightarrow> e_scheduled_at e \<le> now"
    and new: "\<And>e. e \<in> set es \<Longrightarrow> e_scheduled_at e = now"
    and room: "filter p es \<noteq> [] \<Longrightarrow> length (in_window now p mails) + length (filter p es) \<le> limit"
  shows "within_limit p limit (mails @ es)"
  unfolding within_limit_def
proof
  fix t
  have old: "sent_in_day p t mails \<le> limit" using assms(1) by (simp add: within_limit_def)
  have split: "sent_in_day p t (mails @ es) = sent_in_day p t mails + sent_in_day p t es"
    by (simp add: sent_in_day_def)
  have some: "sent_in_day p t es \<le> length (filter p es)"
    unfolding sent_in_day_def by (rule length_filter_mono) simp
  show "sent_in_day p t (mails @ es) \<le> limit"
  proof (cases "sent_in_day p t es = 0")
    case True
    with old split show ?thesis by simp
  next
    case False
    then obtain e where "e \<in> set es" "p e" "e_scheduled_at e \<le> t"
      by (auto simp: sent_in_day_def filter_empty_conv)
    then have "now \<le> t" and "filter p es \<noteq> []" using new by (auto simp: filter_empty_conv)
    have "sent_in_day p t mails \<le> length (in_window now p mails)"
      unfolding sent_in_day_def in_window_def by (rule length_filter_mono) (use \<open>now \<le> t\<close> in auto)
    with room [OF \<open>filter p es \<noteq> []\<close>] some split show ?thesis by simp
  qed
qed

definition a_minute_apart :: "space_invite_email list \<Rightarrow> bool" where
  "a_minute_apart mails \<longleftrightarrow> sorted_wrt (\<lambda>d e. e_invite_id d = e_invite_id e \<longrightarrow>
     e_scheduled_at d + RESEND_COOLDOWN_MS \<le> e_scheduled_at e) mails"

lemma a_minute_apart_append:
  assumes "a_minute_apart mails" and "distinct (map e_invite_id es)"
    and "\<And>d e. d \<in> set mails \<Longrightarrow> e \<in> set es \<Longrightarrow> e_invite_id d = e_invite_id e \<Longrightarrow>
      e_scheduled_at d + RESEND_COOLDOWN_MS \<le> e_scheduled_at e"
  shows "a_minute_apart (mails @ es)"
proof -
  have "sorted_wrt (\<lambda>d e. e_invite_id d = e_invite_id e \<longrightarrow>
     e_scheduled_at d + RESEND_COOLDOWN_MS \<le> e_scheduled_at e) es"
    using assms(2) by (induction es) (auto simp: image_iff)
  with assms show ?thesis by (simp add: a_minute_apart_def sorted_wrt_append)
qed

section \<open>The program with a clock\<close>

text \<open>
  A state, all emails ever scheduled, and the latest reading of the clock. A step that schedules emails
  reads the clock under the lock of the space, not before the steps ahead of it.
\<close>

type_synonym mail_state = "(db \<times> string set) \<times> space_invite_email list \<times> int"

definition added_emails :: "db \<Rightarrow> db \<Rightarrow> space_invite_email list" where
  "added_emails s s' = drop (length (rows (invite_emails s))) (rows (invite_emails s'))"

inductive mail_step :: "runtime \<Rightarrow> mail_state \<Rightarrow> mail_state \<Rightarrow> bool" for rt where
  space_created: "create_space rt to_json same_text clk secrets u dto key s = Inr (r1, s') \<Longrightarrow> T \<le> clk 1 \<Longrightarrow>
    mail_step rt ((s, used), mails, T) ((s', used), mails @ added_emails s s', clk 1)"
| invited: "create_invite same_text clk secret u sp email s = Inr (r2, s') \<Longrightarrow> T \<le> clk 1 \<Longrightarrow>
    mail_step rt ((s, used), mails, T) ((s', used), mails @ added_emails s s', clk 1)"
| resent: "resend same_text now nonce u sp i s = Inr (r3, s') \<Longrightarrow> T \<le> now \<Longrightarrow>
    mail_step rt ((s, used), mails, T) ((s', used), mails @ added_emails s s', now)"
| purged: "(\<And>xs. set (scan xs) = set xs) \<Longrightarrow> T \<le> now \<Longrightarrow> mail_step rt ((s, used), mails, T) ((purge_emails scan now s, used), mails, now)"
| other: "program_step rt c c' \<Longrightarrow> invite_emails (fst c') = invite_emails (fst c) \<Longrightarrow> T \<le> T' \<Longrightarrow>
    mail_step rt (c, mails, T) (c', mails, T')"

definition recent :: "int \<Rightarrow> space_invite_email list \<Rightarrow> space_invite_email list" where
  "recent T es = filter (\<lambda>e. T - LIMIT_WINDOW_MS < e_scheduled_at e) es"

definition log_ok :: "db \<Rightarrow> space_invite_email list \<Rightarrow> int \<Rightarrow> bool" where
  "log_ok s mails T \<longleftrightarrow> table_ok e_id (invite_emails s) \<and> recent T (rows (invite_emails s)) = recent T mails \<and>
     (\<forall>e \<in> set mails. e_scheduled_at e \<le> T \<and> e_invite_id e < next_id (invites s) \<and> e_space_id e < next_id (spaces s))"

definition limits_hold :: "space_invite_email list \<Rightarrow> bool" where
  "limits_hold mails \<longleftrightarrow> (\<forall>sp. within_limit (\<lambda>e. e_space_id e = sp) PER_SPACE mails) \<and>
     (\<forall>i. within_limit (\<lambda>e. e_invite_id e = i) PER_INVITE mails) \<and> a_minute_apart mails"

definition mail_inv :: "mail_state \<Rightarrow> bool" where
  "mail_inv m = (case m of (c, mails, T) \<Rightarrow> program_inv c \<and> log_ok (fst c) mails T \<and> limits_hold mails)"

lemma recent_later: "T \<le> T' \<Longrightarrow> recent T es = recent T es' \<Longrightarrow> recent T' es = recent T' es'"
proof -
  assume le: "T \<le> T'" and same: "recent T es = recent T es'"
  have "recent T' xs = recent T' (recent T xs)" for xs
    using le by (auto simp: recent_def intro!: filter_cong)
  with same show ?thesis by metis
qed

lemma in_window_recent: "in_window now p es = filter p (recent now es)"
  by (simp add: in_window_def recent_def conj_commute)

lemma log_ok_quiet:
  assumes "log_ok s mails T" and "attempts_grow s s'" and "T \<le> T'"
    and "invite_emails s' = invite_emails s"
  shows "log_ok s' mails T'"
  using assms recent_later [OF assms(3), of "rows (invite_emails s)" mails]
  by (fastforce simp: log_ok_def attempts_grow_def)

text \<open>Emails of one instant, each of another invitation, with room for them.\<close>

lemma schedule_keeps:
  assumes mails: "log_ok s mails T" and lim: "limits_hold mails" and later: "T \<le> now" and grow: "attempts_grow s s'"
    and es: "rows (invite_emails s') = rows (invite_emails s) @ es" and table: "table_ok e_id (invite_emails s')"
    and new: "\<And>e. e \<in> set es \<Longrightarrow> e_scheduled_at e = now \<and> e_invite_id e < next_id (invites s') \<and> e_space_id e < next_id (spaces s')"
    and dist: "distinct (map e_invite_id es)"
    and space: "\<And>sp. filter (\<lambda>e. e_space_id e = sp) es \<noteq> [] \<Longrightarrow>
      length (in_window now (\<lambda>e. e_space_id e = sp) (rows (invite_emails s))) + length (filter (\<lambda>e. e_space_id e = sp) es) \<le> PER_SPACE"
    and invite: "\<And>e. e \<in> set es \<Longrightarrow>
      length (in_window now (\<lambda>d. e_invite_id d = e_invite_id e) (rows (invite_emails s))) < PER_INVITE"
    and cool: "\<And>d e. e \<in> set es \<Longrightarrow> d \<in> set (recent now (rows (invite_emails s))) \<Longrightarrow> e_invite_id d = e_invite_id e \<Longrightarrow>
      e_scheduled_at d + RESEND_COOLDOWN_MS \<le> now"
  shows "log_ok s' (mails @ es) now \<and> limits_hold (mails @ es)"
proof -
  have past: "e_scheduled_at e \<le> now" if "e \<in> set mails" for e using mails later that by (fastforce simp: log_ok_def)
  have rec: "recent now (rows (invite_emails s)) = recent now mails"
    using mails later by (auto simp: log_ok_def intro: recent_later)
  have win: "in_window now p (rows (invite_emails s)) = in_window now p mails" for p
    by (simp add: in_window_recent rec)
  have "log_ok s' (mails @ es) now"
    unfolding log_ok_def
  proof (intro conjI ballI table)
    show "recent now (rows (invite_emails s')) = recent now (mails @ es)"
      using rec by (simp add: es recent_def)
  qed (use mails grow new past in \<open>auto simp: log_ok_def attempts_grow_def intro: less_le_trans\<close>)
  moreover have "within_limit (\<lambda>e. e_space_id e = sp) PER_SPACE (mails @ es)" for sp
    using lim past new space [of sp] by (intro within_limit_append [where now = now]) (auto simp: limits_hold_def win)
  moreover have "within_limit (\<lambda>e. e_invite_id e = i) PER_INVITE (mails @ es)" for i
  proof (rule within_limit_append [where now = now])
    assume "filter (\<lambda>e. e_invite_id e = i) es \<noteq> []"
    then obtain e where e: "e \<in> set es" "e_invite_id e = i" by (auto simp: filter_empty_conv)
    have "length (filter (\<lambda>e. e_invite_id e = i) es) = 1"
      using dist e by (induction es) (auto simp: image_iff filter_empty_conv)
    with invite [OF e(1)] e(2) show "length (in_window now (\<lambda>e. e_invite_id e = i) mails) +
        length (filter (\<lambda>e. e_invite_id e = i) es) \<le> PER_INVITE" by (simp add: win)
  qed (use lim past new in \<open>auto simp: limits_hold_def\<close>)
  moreover have "a_minute_apart (mails @ es)"
  proof (rule a_minute_apart_append [OF _ dist])
    fix d e assume d: "d \<in> set mails" and e: "e \<in> set es" and same: "e_invite_id d = e_invite_id e"
    have now: "e_scheduled_at e = now" using new [OF e] by simp
    show "e_scheduled_at d + RESEND_COOLDOWN_MS \<le> e_scheduled_at e"
    proof (cases "now - LIMIT_WINDOW_MS < e_scheduled_at d")
      case True
      with d have "d \<in> set (recent now (rows (invite_emails s)))" unfolding rec by (simp add: recent_def)
      with cool [OF e _ same] now show ?thesis by simp
    next
      case False
      then show ?thesis by (simp add: now LIMIT_WINDOW_MS_def RESEND_COOLDOWN_MS_def)
    qed
  qed (use lim in \<open>simp add: limits_hold_def\<close>)
  ultimately show ?thesis by (simp add: limits_hold_def)
qed

section \<open>Every step keeps the limits\<close>

definition log_rows :: "int \<Rightarrow> nat \<Rightarrow> space_invite list \<Rightarrow> nat \<Rightarrow> space_invite_email list" where
  "log_rows now u invs n = map (\<lambda>k. log_row now u (invs ! k) (n + k)) [0..<length invs]"

lemma log_rows_snoc: "log_rows now u (invs @ [v]) n = log_rows now u invs n @ [log_row now u v (n + length invs)]"
  by (simp add: log_rows_def nth_append)

lemma recordScheduled_emails:
  "rows (invite_emails (recordScheduled now u invs s)) =
     rows (invite_emails s) @ log_rows now u invs (next_id (invite_emails s))"
  "next_id (invite_emails (recordScheduled now u invs s)) = next_id (invite_emails s) + length invs"
proof -
  have "rows (foldl (\<lambda>t invite. insert_auto (log_row now u invite) t) t invs) = rows t @ log_rows now u invs (next_id t) \<and>
      next_id (foldl (\<lambda>t invite. insert_auto (log_row now u invite) t) t invs) = next_id t + length invs" for t
    by (induction invs rule: rev_induct) (auto simp: log_rows_snoc, simp add: log_rows_def)
  then show "rows (invite_emails (recordScheduled now u invs s)) =
     rows (invite_emails s) @ log_rows now u invs (next_id (invite_emails s))"
    and "next_id (invite_emails (recordScheduled now u invs s)) = next_id (invite_emails s) + length invs"
    by (simp_all add: recordScheduled_def)
qed

lemma log_rows_facts:
  "map e_invite_id (log_rows now u invs n) = map i_id invs"
  "e \<in> set (log_rows now u invs n) \<Longrightarrow> e_scheduled_at e = now \<and> n \<le> e_id e \<and> e_id e < n + length invs \<and>
    (\<exists>v \<in> set invs. e_invite_id e = i_id v \<and> e_space_id e = i_space_id v)"
  "distinct (map e_id (log_rows now u invs n))"
  by (auto simp: log_rows_def log_row_def distinct_map intro!: nth_equalityI inj_onI)

lemma table_ok_log:
  assumes "table_ok e_id (invite_emails s)" and "rows (invite_emails s') = rows (invite_emails s) @ log_rows now u invs (next_id (invite_emails s))"
    and "next_id (invite_emails s') = next_id (invite_emails s) + length invs"
  shows "table_ok e_id (invite_emails s')"
  using assms log_rows_facts(2,3) by (fastforce simp: table_ok_def)

lemma with_invites_emails:
  "rows (invite_emails (with_invites now secrets u sp emails s)) = rows (invite_emails s) @
     log_rows now u (new_invites now secrets sp emails (next_id (invites s))) (next_id (invite_emails s))"
  "next_id (invite_emails (with_invites now secrets u sp emails s)) = next_id (invite_emails s) + length emails"
  by (simp_all add: with_invites_def Let_def recordScheduled_emails insert_invites_def new_invites_eq)

lemma new_invites_space: "v \<in> set (new_invites now secrets sp emails i) \<Longrightarrow> i_space_id v = sp"
  by (auto simp: new_invites_eq newInvite_def)

text \<open>New invitations of a space of which less than thirty emails were scheduled in the last day.\<close>

lemma with_invites_keeps:
  assumes log: "log_ok s mails T" and lim: "limits_hold mails" and later: "T \<le> now" and sp: "sp < next_id (spaces s)"
    and room: "emails \<noteq> [] \<Longrightarrow>
      length (in_window now (\<lambda>e. e_space_id e = sp) (rows (invite_emails s))) + length emails \<le> PER_SPACE"
  shows "log_ok (with_invites now secrets u sp emails s)
      (mails @ added_emails s (with_invites now secrets u sp emails s)) now \<and>
    limits_hold (mails @ added_emails s (with_invites now secrets u sp emails s))"
proof -
  let ?s = "with_invites now secrets u sp emails s" and ?i = "next_id (invites s)"
  let ?new = "new_invites now secrets sp emails ?i"
  define es where "es = log_rows now u ?new (next_id (invite_emails s))"
  have rows: "rows (invite_emails ?s) = rows (invite_emails s) @ es" by (simp add: with_invites_emails es_def)
  have len: "length ?new = length emails" by (simp add: new_invites_eq)
  have es: "e_scheduled_at e = now \<and> e_space_id e = sp \<and> ?i \<le> e_invite_id e \<and> e_invite_id e < ?i + length emails"
    if "e \<in> set es" for e
    using log_rows_facts(2) [OF that [unfolded es_def]] new_invites_ids(2) new_invites_space by metis
  have fresh: "d \<notin> set (rows (invite_emails s)) \<or> \<not> now - LIMIT_WINDOW_MS < e_scheduled_at d"
    if "e \<in> set es" "e_invite_id d = e_invite_id e" for d e
  proof (rule ccontr)
    assume "\<not> ?thesis"
    then have "d \<in> set (recent now (rows (invite_emails s)))" by (simp add: recent_def)
    moreover have "recent now (rows (invite_emails s)) = recent now mails"
      using log later by (auto simp: log_ok_def intro: recent_later)
    ultimately have "d \<in> set mails" by (metis filter_is_subset recent_def subsetD)
    then have "e_invite_id d < ?i" using log by (simp add: log_ok_def)
    with es [OF that(1)] that(2) show False by simp
  qed
  have "log_ok ?s (mails @ es) now \<and> limits_hold (mails @ es)"
  proof (rule schedule_keeps [OF log lim later attempts_grow_with_invites rows])
    show "table_ok e_id (invite_emails ?s)"
    proof (rule table_ok_log [OF _ rows [unfolded es_def]])
      show "table_ok e_id (invite_emails s)" using log by (simp add: log_ok_def)
    qed (simp only: with_invites_emails len)
    show "distinct (map e_invite_id es)"
      by (simp add: es_def log_rows_facts(1) new_invites_ids(1) distinct_map)
    show "e_scheduled_at e = now \<and> e_invite_id e < next_id (invites ?s) \<and> e_space_id e < next_id (spaces ?s)"
      if "e \<in> set es" for e using es [OF that] sp by simp
    show "length (in_window now (\<lambda>e. e_space_id e = sp') (rows (invite_emails s))) + length (filter (\<lambda>e. e_space_id e = sp') es) \<le> PER_SPACE"
      if some: "filter (\<lambda>e. e_space_id e = sp') es \<noteq> []" for sp'
    proof -
      have "sp' = sp" using some es by (auto simp: filter_empty_conv)
      moreover have "length es = length emails" by (simp add: es_def log_rows_def len)
      moreover have "filter (\<lambda>e. e_space_id e = sp) es = es" using es by (simp add: filter_id_conv)
      moreover have "emails \<noteq> []" using some calculation by auto
      ultimately show ?thesis using room by simp
    qed
    show "length (in_window now (\<lambda>d. e_invite_id d = e_invite_id e) (rows (invite_emails s))) < PER_INVITE"
      if "e \<in> set es" for e
    proof -
      have "in_window now (\<lambda>d. e_invite_id d = e_invite_id e) (rows (invite_emails s)) = []"
        using fresh [OF that] by (auto simp: in_window_def filter_empty_conv)
      then show ?thesis by (simp add: PER_INVITE_def)
    qed
    show "e_scheduled_at d + RESEND_COOLDOWN_MS \<le> now"
      if "e \<in> set es" "d \<in> set (recent now (rows (invite_emails s)))" "e_invite_id d = e_invite_id e" for d e
      using fresh [OF that(1,3)] that(2) by (simp add: recent_def)
  qed
  then show ?thesis by (simp add: added_emails_def rows)
qed

text \<open>A resend schedules one email of the invitation, or none.\<close>

lemma resend_keeps:
  assumes ok: "members_ok s" and log: "log_ok s mails T" and lim: "limits_hold mails" and later: "T \<le> now"
    and run: "resend same_text now nonce u sp i s = Inr (r, s')" and grow: "attempts_grow s s'" and ok': "members_ok s'"
    and sp: "sp < next_id (spaces s)"
  shows "log_ok s' (mails @ added_emails s s') now \<and> limits_hold (mails @ added_emails s s')"
proof -
  obtain w ids where r: "r = (w, ids)" by (cases r)
  from run [unfolded r] obtain v where v: "find_invite i s = Some v" "i_space_id v = sp"
    and sched: "assertCanSchedule same_text now \<lparr>sr_senderId = u, sr_spaceId = Some sp,
         sr_emails = [i_email v], sr_inviteId = Some i\<rparr> s = Inr ()"
    and effect: "if effectiveStatus v now = EMAIL_QUEUED then (w, s') = expedite now v s \<and> ids = [i]
      else if effectiveStatus v now = EMAIL_SENDING then w = v \<and> s' = s \<and> ids = []
      else (w, s') = requeue now nonce u v s \<and> ids = [i]"
    by (rule resend_effect [OF ok])
  show ?thesis
  proof (cases "effectiveStatus v now = EMAIL_QUEUED \<or> effectiveStatus v now = EMAIL_SENDING")
    case True
    with effect have same: "invite_emails s' = invite_emails s"
      by (auto simp: expedite_def update_invite_def split: if_splits)
    with log_ok_quiet [OF log grow later] lim show ?thesis by (simp add: added_emails_def)
  next
    case False
    let ?v = "requeue_patch now nonce v v"
    define es where "es = log_rows now u [?v] (next_id (invite_emails s))"
    have "s' = recordScheduled now u [?v] (update_invite (i_id v)
        (\<lambda>x. (requeue_patch now nonce v x)\<lparr>i_email_attempt_id := i_email_attempt_id x + 1\<rparr>) s)"
      using effect False by (simp add: requeue_def Let_def)
    then have rows: "rows (invite_emails s') = rows (invite_emails s) @ es"
      and next_id: "next_id (invite_emails s') = next_id (invite_emails s) + length [?v]"
      by (simp_all add: recordScheduled_emails es_def update_invite_def)
    have v': "v \<in> set (rows (invites s))" "i_id v = i" using find_invite_Some [OF v(1)] by simp_all
    then have i: "i < next_id (invites s)" using members_okD(3) [OF ok] by (auto simp: table_ok_def)
    have es: "es = [log_row now u ?v (next_id (invite_emails s))]" by (simp add: es_def log_rows_def)
    have row: "e_scheduled_at e = now \<and> e_invite_id e = i \<and> e_space_id e = sp" if "e \<in> set es" for e
      using that v v' by (simp add: es log_row_def requeue_patch_def)
    note passed = schedule_passed [OF sched]
    have "log_ok s' (mails @ es) now \<and> limits_hold (mails @ es)"
    proof (rule schedule_keeps [OF log lim later grow rows])
      show "table_ok e_id (invite_emails s')"
        by (rule table_ok_log [OF _ rows [unfolded es_def] next_id]) (use log in \<open>simp add: log_ok_def\<close>)
      show "distinct (map e_invite_id es)" by (simp add: es)
      show "e_scheduled_at e = now \<and> e_invite_id e < next_id (invites s') \<and> e_space_id e < next_id (spaces s')"
        if "e \<in> set es" for e
        using row [OF that] i sp grow by (simp add: attempts_grow_def)
      show "length (in_window now (\<lambda>e. e_space_id e = sp') (rows (invite_emails s))) +
          length (filter (\<lambda>e. e_space_id e = sp') es) \<le> PER_SPACE"
        if some: "filter (\<lambda>e. e_space_id e = sp') es \<noteq> []" for sp'
      proof -
        have "sp' = sp" using some row by (auto simp: filter_empty_conv)
        moreover have "length (filter (\<lambda>e. e_space_id e = sp) es) \<le> 1" by (simp add: es)
        ultimately show ?thesis using passed(1) [of sp] by simp
      qed
      show "length (in_window now (\<lambda>d. e_invite_id d = e_invite_id e) (rows (invite_emails s))) < PER_INVITE"
        if "e \<in> set es" for e using row [OF that] passed(2) [of i] by simp
      show "e_scheduled_at d + RESEND_COOLDOWN_MS \<le> now"
        if "e \<in> set es" "d \<in> set (recent now (rows (invite_emails s)))" "e_invite_id d = e_invite_id e" for d e
        using row [OF that(1)] that(2,3) passed(3) [of i d] by (simp add: recent_def)
    qed
    then show ?thesis by (simp add: added_emails_def rows)
  qed
qed

text \<open>A purge takes rows that no window of a day up to now reaches.\<close>

lemma purge_mails:
  assumes log: "log_ok s mails T" and later: "T \<le> now" and "\<And>xs. set (scan xs) = set xs"
  shows "log_ok (purge_emails scan now s) mails now"
proof -
  let ?es = "rows (invite_emails s)"
  define ids where "ids = map e_id (take EMAIL_PURGE_BATCH (filter (\<lambda>e. e_scheduled_at e \<le> now - LIMIT_WINDOW_MS) (scan ?es)))"
  have purged: "invite_emails (purge_emails scan now s) = (invite_emails s)\<lparr>rows := delete_rows (\<lambda>e. e_id e \<in> set ids) ?es\<rparr>"
    by (simp add: purge_emails_def Let_def ids_def)
  have old: "e_scheduled_at e \<le> now - LIMIT_WINDOW_MS" if "e \<in> set ?es" "e_id e \<in> set ids" for e
  proof -
    from that(2) obtain d where d: "d \<in> set ?es" "e_scheduled_at d \<le> now - LIMIT_WINDOW_MS" "e_id d = e_id e"
      using assms(3) by (auto simp: ids_def dest!: in_set_takeD)
    with log that(1) have "d = e" using distinct_key_eq [of e_id ?es d e] by (simp add: log_ok_def table_ok_def)
    with d(2) show ?thesis by simp
  qed
  have "recent now (delete_rows (\<lambda>e. e_id e \<in> set ids) ?es) = recent now ?es"
    unfolding recent_def delete_rows_def filter_filter by (rule filter_cong) (use old in fastforce)+
  moreover have "recent now ?es = recent now mails" using log later by (auto simp: log_ok_def intro: recent_later)
  moreover have "invites (purge_emails scan now s) = invites s" "spaces (purge_emails scan now s) = spaces s"
    by (simp_all add: purge_emails_def Let_def)
  ultimately show ?thesis
    using log later by (fastforce simp: log_ok_def purged table_ok_delete)
qed

section \<open>The steps\<close>

lemma member_space:
  assumes ok: "members_ok s" and m: "find_member sp u s = Some m"
  shows "sp < next_id (spaces s)"
proof -
  have "m \<in> set (rows (members s))" "m_space_id m = sp" using find_member_Some [OF m] by simp_all
  then have "sp \<in> sp_id ` set (rows (spaces s))" using members_okD(7) [OF ok] by blast
  then show ?thesis using members_okD(2) [OF ok] by (auto simp: table_ok_def)
qed

lemma owner_operations:
  "create_invite same_text clk secret u sp email s = Inr r \<Longrightarrow> \<exists>m. find_member sp u s = Some m \<and> m_role m = OWNER"
  "resend same_text now nonce u sp i s = Inr r \<Longrightarrow> \<exists>m. find_member sp u s = Some m \<and> m_role m = OWNER"
  by (auto simp: create_invite_def resend_def and_then_eq_Inr lockOwner_eq_Inr Let_def)

lemma create_space_addresses:
  "create_space rt to_json same_text clk secrets u dto key s = Inr r \<Longrightarrow>
    length (invite_addresses dto) \<le> MAX_PENDING_INVITES_PER_SPACE \<and> (cs_type dto = PERSONAL \<longrightarrow> invite_addresses dto = [])"
  by (auto simp: create_space_def Let_def and_then_eq_Inr guard_eq_Inr)

lemma create_space_mails:
  assumes ok: "members_ok s" and log: "log_ok s mails T" and lim: "limits_hold mails" and later: "T \<le> clk 1"
    and run: "create_space rt to_json same_text clk secrets u dto key s = Inr (r, s')"
  shows "log_ok s' (mails @ added_emails s s') (clk 1) \<and> limits_hold (mails @ added_emails s s')"
  using run
proof (cases rule: create_space_cases)
  case (replayed body t)
  have "log_ok s' mails (clk 1)"
    by (rule log_ok_quiet [OF log _ later]) (simp_all add: replayed attempts_grow_same)
  with lim show ?thesis by (simp add: added_emails_def replayed)
next
  case (fresh r s1 t t')
  obtain p q where r: "r = (p, q)" by (cases r)
  let ?s = "s\<lparr>idempotency_keys := t\<rparr>"
  let ?new = "with_space (clk 0) u (new_space_of dto) ?s"
  have "members_ok ?s" using ok by simp
  from fresh(2) [unfolded r create_space_work_iff [OF this]]
  have s1: "s1 = with_invites (clk 1) secrets u (next_id (spaces s)) (invite_addresses dto) ?new" by simp
  have log': "log_ok ?new mails (clk 1)"
    by (rule log_ok_quiet [OF log attempts_grow_same later]) simp_all
  have "length (in_window (clk 1) (\<lambda>e. e_space_id e = next_id (spaces s)) (rows (invite_emails ?new))) = 0"
  proof -
    have "recent (clk 1) (rows (invite_emails ?new)) = recent (clk 1) mails" using log' by (simp add: log_ok_def)
    moreover have "\<forall>e \<in> set mails. e_space_id e \<noteq> next_id (spaces s)" using log by (auto simp: log_ok_def)
    ultimately show ?thesis by (auto simp: in_window_recent recent_def filter_empty_conv)
  qed
  moreover have "length (invite_addresses dto) \<le> PER_SPACE"
    using create_space_addresses [OF run] by (simp add: MAX_PENDING_INVITES_PER_SPACE_def PER_SPACE_def)
  ultimately have "log_ok s1 (mails @ added_emails ?new s1) (clk 1) \<and> limits_hold (mails @ added_emails ?new s1)"
    unfolding s1 by (intro with_invites_keeps [OF log' lim order_refl]) simp_all
  moreover have "added_emails ?new s1 = added_emails s s'" by (simp add: added_emails_def fresh(3))
  moreover have "log_ok s' ms now = log_ok s1 ms now" for ms now by (simp add: log_ok_def fresh(3))
  ultimately show ?thesis by simp
qed

lemma create_invite_mails:
  assumes ok: "members_ok s" and log: "log_ok s mails T" and lim: "limits_hold mails" and later: "T \<le> clk 1"
    and run: "create_invite same_text clk secret u sp email s = Inr (r, s')"
  shows "log_ok s' (mails @ added_emails s s') (clk 1) \<and> limits_hold (mails @ added_emails s s')"
proof -
  obtain v ids where r: "r = (v, ids)" by (cases r)
  have sp: "sp < next_id (spaces s)" using owner_operations(1) [OF run] member_space [OF ok] by blast
  from run [unfolded r] show ?thesis
  proof (cases rule: create_invite_effect)
    case existing
    have "log_ok s mails (clk 1)" by (rule log_ok_quiet [OF log attempts_grow_refl later]) simp
    with lim show ?thesis by (simp add: added_emails_def existing)
  next
    case new
    show ?thesis unfolding new(5)
      by (rule with_invites_keeps [OF log lim later sp]) (use schedule_passed(1) [OF new(3), of sp] in simp)
  qed
qed

lemma mail_step_keeps:
  assumes "mail_inv m" and "mail_step rt m m'"
  shows "mail_inv m'"
  using assms(2)
proof cases
  case (space_created to_json same_text clk secrets u dto key s r1 s' T used mails)
  then have inv: "program_inv (s, used)" "members_ok s" "log_ok s mails T" "limits_hold mails"
    using assms(1) by (simp_all add: mail_inv_def program_inv_def)
  then have "program_inv (s', used)" using create_space_keeps space_created(3) by blast
  then show ?thesis
    using create_space_mails [OF inv(2-4) space_created(4,3)] by (simp add: mail_inv_def space_created(2))
next
  case (invited same_text clk secret u sp email s r2 s' T used mails)
  then have inv: "program_inv (s, used)" "members_ok s" "log_ok s mails T" "limits_hold mails"
    using assms(1) by (simp_all add: mail_inv_def program_inv_def)
  have "program_inv (s', used)" by (rule program_step_keeps [OF inv(1) program_step.create_invite [OF invited(3)]])
  then show ?thesis
    using create_invite_mails [OF inv(2-4) invited(4,3)] by (simp add: mail_inv_def invited(2))
next
  case (resent same_text now nonce u sp i s r3 s' T used mails)
  then have inv: "program_inv (s, used)" "members_ok s" "log_ok s mails T" "limits_hold mails"
    using assms(1) by (simp_all add: mail_inv_def program_inv_def)
  note step = program_step.resend [OF resent(3)]
  have inv': "program_inv (s', used)" by (rule program_step_keeps [OF inv(1) step])
  then have "members_ok s'" by (simp add: program_inv_def)
  moreover have "attempts_grow s s'" using program_step_grows [OF inv(1) step] by simp
  moreover have "sp < next_id (spaces s)" using owner_operations(2) [OF resent(3)] member_space [OF inv(2)] by blast
  ultimately show ?thesis
    using resend_keeps [OF inv(2-4) resent(4,3)] inv' by (simp add: mail_inv_def resent(2))
next
  case (purged scan T now s used mails)
  then have inv: "program_inv (s, used)" "log_ok s mails T" "limits_hold mails"
    using assms(1) by (simp_all add: mail_inv_def)
  have "program_inv (purge_emails scan now s, used)" by (rule program_step_keeps [OF inv(1) program_step.purge])
  then show ?thesis
    using purge_mails [OF inv(2) purged(4)] purged(3) inv(3) by (simp add: mail_inv_def purged(2))
next
  case (other c c' T T' mails)
  then have inv: "program_inv c" "log_ok (fst c) mails T" "limits_hold mails"
    using assms(1) by (simp_all add: mail_inv_def)
  have "program_inv c'" by (rule program_step_keeps [OF inv(1) other(3)])
  moreover have "log_ok (fst c') mails T'"
    by (rule log_ok_quiet [OF inv(2) program_step_grows [OF inv(1) other(3)] other(5,4)])
  ultimately show ?thesis using inv(3) by (simp add: mail_inv_def other(2))
qed

interpretation mail: transition_invariant "mail_step rt" mail_inv for rt
  by unfold_locales (rule mail_step_keeps)

end
