(* ===== verification/LinkFacts.thy ===== *)
theory LinkFacts
  imports InviteDelivery
begin

text \<open>
  Link tokens: the token of an invitation is parsed into its number and proof, and only that text is.
\<close>

lemma digit_char_val: "is_digit c \<Longrightarrow> digit_char (digit_val c) = c"
  by (auto simp: is_digit_def digit_val_def digit_char_def)

lemma digit_char_zero: "d < 10 \<Longrightarrow> digit_char d = CHR ''0'' \<longleftrightarrow> d = 0"
proof
  assume "d < 10" and "digit_char d = CHR ''0''"
  then have "digit_val (CHR ''0'') = d" by (metis digit_char_facts(2))
  then show "d = 0" by (simp add: digit_val_def)
next
  have "digit_char 0 = CHR ''0''" by code_simp
  then show "d = 0 \<Longrightarrow> digit_char d = CHR ''0''" by simp
qed

lemma digits_val_pos: "s \<noteq> [] \<Longrightarrow> list_all is_digit s \<Longrightarrow> hd s \<noteq> CHR ''0'' \<Longrightarrow> 0 < digits_val s"
proof (induction s rule: rev_induct)
  case (snoc c s)
  show ?case
  proof (cases "s = []")
    case True
    with snoc.prems have "digit_char (digit_val c) = c" "c \<noteq> CHR ''0''" using digit_char_val by simp_all
    then have "digit_val c \<noteq> 0" by (metis digit_char_zero zero_less_numeral)
    with True show ?thesis by (simp add: digits_val_def)
  next
    case False
    with snoc show ?thesis by (simp add: digits_val_snoc)
  qed
qed simp

text \<open>A numeral without leading zero is the decimal text of its value.\<close>

lemma show_nat_digits_val:
  "s \<noteq> [] \<Longrightarrow> list_all is_digit s \<Longrightarrow> hd s \<noteq> CHR ''0'' \<Longrightarrow> show_nat (digits_val s) = s"
proof (induction s rule: rev_induct)
  case (snoc c s)
  have c: "digit_char (digit_val c) = c" "digit_val c < 10"
    using snoc.prems(2) digit_char_val by (auto simp: is_digit_def digit_val_def)
  show ?case
  proof (cases "s = []")
    case True
    then have "digits_val (s @ [c]) = digit_val c" by (simp add: digits_val_def)
    with c True show ?thesis by (simp add: show_nat.simps [of "digit_val c"])
  next
    case False
    with snoc.prems have "0 < digits_val s" and same: "show_nat (digits_val s) = s"
      using snoc.IH digits_val_pos [of s] by simp_all
    then have "\<not> digits_val (s @ [c]) < 10" by (simp add: digits_val_snoc)
    with c same show ?thesis
      by (simp add: show_nat.simps [of "10 * digits_val s + digit_val c"] digits_val_snoc)
  qed
qed simp

lemma hd_show_nat: "0 < n \<Longrightarrow> hd (show_nat n) \<noteq> CHR ''0''"
proof (induction n rule: show_nat.induct)
  case (1 n)
  show ?case
  proof (cases "n < 10")
    case True
    then show ?thesis using 1(2) by (simp add: show_nat.simps [of n] digit_char_zero)
  next
    case False
    then have "hd (show_nat (n div 10)) \<noteq> CHR ''0''" using 1(1) by simp
    with False show ?thesis by (simp add: show_nat.simps [of n])
  qed
qed

lemma length_show_nat: "n < 10 ^ Suc k \<Longrightarrow> length (show_nat n) \<le> Suc k"
proof (induction k arbitrary: n)
  case 0
  then show ?case by (simp add: show_nat.simps [of n])
next
  case (Suc k)
  then have "n div 10 < 10 ^ Suc k" by auto
  with Suc.IH [of "n div 10"] show ?case by (simp add: show_nat.simps [of n])
qed

lemma TOKEN_PATTERN_iff:
  "TOKEN_PATTERN token = Some (i, proof) \<longleftrightarrow> token = i @ ''.'' @ proof \<and> list_all is_digit i \<and> i \<noteq> [] \<and>
    hd i \<noteq> CHR ''0'' \<and> length i \<le> 10 \<and> length proof = 43 \<and> list_all is_token_char proof"
  (is "?l \<longleftrightarrow> ?r")
proof
  assume ?l
  then have i: "i = takeWhile is_digit token" and p: "proof = drop 1 (dropWhile is_digit token)"
    and point: "take 1 (dropWhile is_digit token) = ''.''" and rest: "i \<noteq> []" "hd i \<noteq> CHR ''0''" "length i \<le> 10"
      "length proof = 43" "list_all is_token_char proof"
    by (auto simp: TOKEN_PATTERN_def Let_def split: if_splits)
  have "token = i @ take 1 (dropWhile is_digit token) @ proof" by (simp add: i p flip: drop_Suc)
  moreover have "list_all is_digit i" by (auto simp: i list_all_iff dest: set_takeWhileD)
  ultimately show ?r using point rest by simp
next
  assume r: ?r
  then have "takeWhile is_digit token = i" "dropWhile is_digit token = ''.'' @ proof"
    by (auto simp: list_all_iff takeWhile_append dropWhile_append)
  with r show ?l by (simp add: TOKEN_PATTERN_def)
qed

lemma parseInviteToken_iff:
  "parseInviteToken token = Some (n, proof) \<longleftrightarrow> token = show_nat n @ ''.'' @ proof \<and> 0 < n \<and> n \<le> MAX_INVITE_ID \<and>
    length proof = 43 \<and> list_all is_token_char proof"
proof
  assume "parseInviteToken token = Some (n, proof)"
  then obtain i where i: "TOKEN_PATTERN token = Some (i, proof)" and n: "n = digits_val i" "n \<le> MAX_INVITE_ID"
    by (auto simp: parseInviteToken_def split: option.splits if_splits)
  with i [unfolded TOKEN_PATTERN_iff] show "token = show_nat n @ ''.'' @ proof \<and> 0 < n \<and> n \<le> MAX_INVITE_ID \<and>
    length proof = 43 \<and> list_all is_token_char proof"
    by (simp add: show_nat_digits_val digits_val_pos)
next
  assume r: "token = show_nat n @ ''.'' @ proof \<and> 0 < n \<and> n \<le> MAX_INVITE_ID \<and>
    length proof = 43 \<and> list_all is_token_char proof"
  then have "length (show_nat n) \<le> Suc 9" by (intro length_show_nat) (simp add: MAX_INVITE_ID_def)
  with r have "TOKEN_PATTERN token = Some (show_nat n, proof)"
    by (simp add: TOKEN_PATTERN_iff show_nat_digits hd_show_nat)
  with r show "parseInviteToken token = Some (n, proof)" by (simp add: parseInviteToken_def)
qed

lemma proves_iff: "proves hmac v proof \<longleftrightarrow> invite_proof hmac v = Inr proof"
  by (auto simp: proves_def constantTimeEquals_def split: sum.split)

lemma findByToken_eq_Some:
  "findByToken hmac token s = Some v \<longleftrightarrow> (\<exists>proof. parseInviteToken token = Some (i_id v, proof) \<and>
    find_invite (i_id v) s = Some v \<and> invite_proof hmac v = Inr proof)"
proof (cases "parseInviteToken token")
  case (Some r)
  obtain n pf where r: "r = (n, pf)" by (cases r)
  have id: "find_invite n s = Some v \<Longrightarrow> n = i_id v"
    unfolding find_invite_def by (drule find_row_Some) simp
  have "findByToken hmac token s = Some v \<longleftrightarrow> find_invite n s = Some v \<and> invite_proof hmac v = Inr pf"
    by (auto simp: findByToken_def Some r proves_iff split: option.split)
  also have "\<dots> \<longleftrightarrow> n = i_id v \<and> find_invite (i_id v) s = Some v \<and> invite_proof hmac v = Inr pf"
    using id by metis
  finally show ?thesis using Some r by auto
qed (simp add: findByToken_def)

end
