(* ===== verification/AttemptFacts.thy ===== *)
theory AttemptFacts
  imports DeliveryFacts
begin

text \<open>
  Attempts on one row of the queue: when a claim or a result is written, which later rows make an
  attempt obsolete, and how attempts that may be cut short by a crash settle an email.
\<close>

section \<open>Writes to one row\<close>

lemma update_rows_one:
  assumes "distinct (map i_id rs)" and "find_row (\<lambda>x. i_id x = i) rs = Some v" and "\<And>x. p x \<Longrightarrow> i_id x = i"
  shows "update_rows p f rs = (if p v then update_rows (\<lambda>x. i_id x = i) f rs else rs)"
proof -
  have "p x \<longleftrightarrow> i_id x = i \<and> p v" if "x \<in> set rs" for x
    using that assms find_row_key_iff [OF assms(1)] distinct_key_eq [OF assms(1)] by metis
  then show ?thesis by (auto simp: update_rows_def map_idI intro!: map_cong)
qed

lemma found_invite:
  assumes "table_ok i_id (invites s)"
  shows "find_invite i s = Some v \<longleftrightarrow> v \<in> set (rows (invites s)) \<and> i_id v = i"
  using assms by (simp add: find_invite_def table_ok_def find_row_key_iff)

lemma update_invite_one:
  assumes "table_ok i_id (invites s)" and "find_invite i s = Some v" and "\<And>x. p x \<Longrightarrow> i_id x = i"
  shows "s\<lparr>invites := (invites s)\<lparr>rows := update_rows p f (rows (invites s))\<rparr>\<rparr> =
    (if p v then update_invite i f s else s)"
  using update_rows_one [of "rows (invites s)" i v p f] assms by (simp add: update_invite_def find_invite_def table_ok_def)

lemma claim_row_eq:
  assumes "table_ok i_id (invites s)" and "find_invite i s = Some v"
  shows "claim_row i now s = (claimable now v, if claimable now v then update_invite i (take_lease now) s else s)"
proof -
  have v: "v \<in> set (rows (invites s))" "i_id v = i" using assms by (simp_all add: found_invite)
  have "(\<exists>x \<in> set (rows (invites s)). i_id x = i \<and> claimable now x) \<longleftrightarrow> claimable now v"
    using v assms(1) distinct_key_eq [of i_id "rows (invites s)"] unfolding table_ok_def by metis
  with update_invite_one [OF assms, of "\<lambda>x. i_id x = i \<and> claimable now x" "take_lease now"] v
  show ?thesis by (simp add: claim_row_def Let_def)
qed

lemma finish_eq:
  assumes "table_ok i_id (invites s)" and "find_invite (i_id w) s = Some v"
  shows "finish w status retry now s =
    (of_attempt w now v, if of_attempt w now v then update_invite (i_id w) (record_result status retry now) s else s)"
proof -
  have v: "v \<in> set (rows (invites s))" "i_id v = i_id w" using assms by (simp_all add: found_invite)
  have "(\<exists>x \<in> set (rows (invites s)). of_attempt w now x) \<longleftrightarrow> of_attempt w now v"
    using v assms(1) distinct_key_eq [of i_id "rows (invites s)"] unfolding table_ok_def of_attempt_def by metis
  with update_invite_one [OF assms, of "of_attempt w now" "record_result status retry now"]
  show ?thesis by (simp add: finish_def of_attempt_def)
qed

lemma find_updated_invite:
  assumes "find_invite i s = Some v" and "\<And>x. i_id (f x) = i_id x"
  shows "find_invite i (update_invite i f s) = Some (f v)"
proof -
  have "find_row (\<lambda>x. i_id x = i) (map (\<lambda>x. if i_id x = i then f x else x) rs) =
      map_option f (find_row (\<lambda>x. i_id x = i) rs)" for rs
    by (induction rs) (auto simp: assms(2))
  with assms(1) show ?thesis by (simp add: find_invite_def update_invite_def update_rows_def)
qed

lemma update_invite_frame [simp]:
  "find_space j (update_invite i f s) = find_space j s"
  "(\<And>x. i_id (f x) = i_id x) \<Longrightarrow> table_ok i_id (invites s) \<Longrightarrow> table_ok i_id (invites (update_invite i f s))"
  by (simp_all add: update_invite_def find_space_def table_ok_update)

lemma same_row_writes [simp]:
  "i_id (take_lease now v) = i_id v" "i_id (record_result status retry now v) = i_id v"
  "i_id (revoke_row now v) = i_id v" "i_id (accept_row now u v) = i_id v"
  by (simp_all add: take_lease_def record_result_def revoke_row_def accept_row_def)

section \<open>Obsolete attempts\<close>

lemma row_overtaken:
  assumes "attempts_grow s s'" and "table_ok i_id (invites s)" and "v \<in> set (rows (invites s))"
    and "x \<in> set (rows (invites s'))" and "i_id x = i_id v"
  shows "overtakes v x"
proof -
  have "i_id x < next_id (invites s)" using assms by (simp add: table_ok_def)
  with assms(1,4) obtain y where y: "y \<in> set (rows (invites s))" "overtakes y x" by (auto simp: attempts_grow_def)
  then have "i_id y = i_id v" using assms(5) by (simp add: overtakes_def same_link_def)
  with y(1) assms(2,3) have "y = v" using distinct_key_eq [of i_id "rows (invites s)" y v] by (simp add: table_ok_def)
  with y(2) show ?thesis by simp
qed

lemma obsolete_attempt:
  assumes "attempts_grow s s'" and "table_ok i_id (invites s)" and "find_invite (i_id w) s = Some v"
    and "i_email_attempt_id w < i_email_attempt_id v"
  shows "finish w status retry now s' = (False, s')"
proof -
  have none: "\<not> of_attempt w now x" if "x \<in> set (rows (invites s'))" for x
  proof
    assume x: "of_attempt w now x"
    have "overtakes v x"
      using assms(1-3) that x by (intro row_overtaken [of s s']) (auto simp: found_invite of_attempt_def)
    with assms(4) x show False by (simp add: overtakes_def of_attempt_def)
  qed
  then have "update_rows (of_attempt w now) (record_result status retry now) (rows (invites s')) = rows (invites s')"
    by (simp add: update_rows_def map_idI)
  with none show ?thesis by (simp add: finish_def)
qed

text \<open>What ends an attempt before its result is written: another claim, a revocation, or the use of the invitation.\<close>

definition superseded :: "nat \<Rightarrow> db \<Rightarrow> db \<Rightarrow> bool" where
  "superseded i s s' \<longleftrightarrow> (\<exists>now. claim_row i now s = (True, s')) \<or> (\<exists>now u sp. revoke now u sp i s = Inr ((), s')) \<or>
     (\<exists>clk before w cred r. join clk before w i cred s = Inr (r, s') \<and> s' \<noteq> s)"

lemma superseded_found:
  assumes ok: "members_ok s" and "superseded i s s'"
  obtains v where "find_invite i s = Some v"
  using assms(2) unfolding superseded_def
proof (elim disjE exE)
  fix now assume "claim_row i now s = (True, s')"
  then show thesis using members_okD(3) [OF ok] that by (auto simp: claim_row_def Let_def found_invite)
next
  fix now u sp assume "revoke now u sp i s = Inr ((), s')"
  then show thesis using that by (auto simp: revoke_iff [OF ok])
next
  fix clk before w cred r assume run: "join clk before w i cred s = Inr (r, s') \<and> s' \<noteq> s"
  from ok run [THEN conjunct1] show thesis by (cases rule: join_cases) (use that in blast)+
qed

text \<open>The row then has the next attempt id.\<close>

lemma superseded_attempt:
  assumes ok: "members_ok s" and "superseded i s s'" and v: "find_invite i s = Some v"
  obtains v' where "find_invite i s' = Some v'" and "i_email_attempt_id v' = Suc (i_email_attempt_id v)"
    and "table_ok i_id (invites s')"
proof -
  note table = members_okD(3) [OF ok]
  have "\<exists>f. invites s' = invites (update_invite i f s) \<and> (\<forall>x. i_id (f x) = i_id x \<and>
      i_email_attempt_id (f x) = Suc (i_email_attempt_id x))"
    using assms(2) unfolding superseded_def
  proof (elim disjE exE)
    fix now assume "claim_row i now s = (True, s')"
    then show ?thesis using claim_row_eq [OF table v, of now]
      by (intro exI [of _ "take_lease now"]) (auto simp: take_lease_def split: if_splits)
  next
    fix now u sp assume "revoke now u sp i s = Inr ((), s')"
    then show ?thesis by (intro exI [of _ "revoke_row now"]) (simp add: revoke_iff [OF ok] revoke_row_def)
  next
    fix clk before w cred r assume run: "join clk before w i cred s = Inr (r, s') \<and> s' \<noteq> s"
    from ok run [THEN conjunct1] show ?thesis
    proof (cases rule: join_cases)
      case member
      with run show ?thesis by blast
    next
      case (joined x)
      then have "i_id x = i" using find_invite_Some [OF joined(1)] by simp
      with joined(7) show ?thesis
        by (intro exI [of _ "accept_row (clk 2) (u_id w)"]) (simp add: joined_by_def update_invite_def accept_row_def)
    qed
  qed
  then obtain f where f: "invites s' = invites (update_invite i f s)" and id: "\<And>x. i_id (f x) = i_id x"
    and up: "\<And>x. i_email_attempt_id (f x) = Suc (i_email_attempt_id x)" by blast
  have "find_invite i s' = Some (f v)"
    using find_updated_invite [of i s v f, OF v id] by (simp add: find_invite_def f)
  moreover have "table_ok i_id (invites s')" unfolding f using table id by simp
  ultimately show thesis using that up by blast
qed

lemma superseded_inv:
  assumes "program_inv (s, used)" and "superseded i s s'"
  shows "program_inv (s', used)"
  using assms(2) unfolding superseded_def
proof (elim disjE exE)
  fix now assume "claim_row i now s = (True, s')"
  from program_step_keeps [OF assms(1) program_step.claim [OF this]] show ?thesis .
next
  fix now u sp assume "revoke now u sp i s = Inr ((), s')"
  from program_step_keeps [OF assms(1) program_step.revoke [OF this]] show ?thesis .
next
  fix clk before w cred r assume run: "join clk before w i cred s = Inr (r, s') \<and> s' \<noteq> s"
  have "members_ok s" using assms(1) by (simp add: program_inv_def)
  from join_keeps [OF this run [THEN conjunct1]] show ?thesis by (intro program_inv_members [OF assms(1)]) simp_all
qed

section \<open>Attempts that may crash\<close>

text \<open>
  Attempts one after the other with nothing else in between. Attempt \<open>k\<close> claims the row at \<open>clk k 0\<close>, and
  unless the process crashes in it, records its result at \<open>clk k 1\<close>.
\<close>

primrec delivery_run ::
  "(space_invite \<Rightarrow> space \<Rightarrow> mail_result) \<Rightarrow> (nat \<Rightarrow> nat \<Rightarrow> int) \<Rightarrow> (nat \<Rightarrow> bool) \<Rightarrow> nat \<Rightarrow> nat \<Rightarrow> db \<Rightarrow> db" where
  "delivery_run mail clk crash i 0 s = s"
| "delivery_run mail clk crash i (Suc k) s = (let s' = delivery_run mail clk crash i k s in
     if crash k then snd (claim_row i (clk k 0) s') else snd (attempt mail (\<lambda>_ s. s) (clk k) i s'))"

definition settled :: "space_invite \<Rightarrow> bool" where
  "settled v \<longleftrightarrow> i_email_status v = EMAIL_SENT \<or> i_email_status v = EMAIL_FAILED"

text \<open>The row before an attempt \<open>k\<close> at \<open>t\<close>: settled, or free to be claimed with \<open>k\<close> attempts made.\<close>

definition waiting :: "nat \<Rightarrow> int \<Rightarrow> space_invite \<Rightarrow> bool" where
  "waiting k t v \<longleftrightarrow> i_email_attempts v = k \<and>
     ((i_email_status v = EMAIL_QUEUED \<and> (\<exists>d \<le> t. i_email_next_attempt_at v = Some d)) \<or>
      (i_email_status v = EMAIL_SENDING \<and> (\<exists>d \<le> t. i_email_lease_expires_at v = Some d)))"

lemma settled_not_claimable: "settled v \<Longrightarrow> \<not> claimable now v"
  by (auto simp: settled_def claimable_def)

lemma waiting_claimable:
  "waiting k t v \<Longrightarrow> isActiveInvite v t \<Longrightarrow> i_token_nonce v \<noteq> None \<Longrightarrow> claimable t v"
  by (auto simp: waiting_def claimable_def)

lemma attempt_idle:
  "table_ok i_id (invites s) \<Longrightarrow> find_invite i s = Some v \<Longrightarrow> \<not> claimable (clk 0) v \<Longrightarrow>
    attempt mail (\<lambda>_ s. s) clk i s = (SKIPPED, s)"
  by (simp add: attempt_def claim_invite_def claim_row_eq)

text \<open>An attempt that runs to its end writes one of three results.\<close>

definition result_of :: "(space_invite \<Rightarrow> space \<Rightarrow> mail_result) \<Rightarrow> space_invite \<Rightarrow> space \<Rightarrow>
    SpaceInviteEmailStatus \<times> int option" where
  "result_of mail v p = (if MAX_EMAIL_ATTEMPTS < i_email_attempts v then (EMAIL_FAILED, None)
     else case mail v p of Accepted \<Rightarrow> (EMAIL_SENT, None)
       | Refused permanent \<Rightarrow> if permanent \<or> MAX_EMAIL_ATTEMPTS \<le> i_email_attempts v then (EMAIL_FAILED, None)
           else (EMAIL_QUEUED, Some (RETRY_DELAYS_MS ! (i_email_attempts v - 1))))"

lemma attempt_runs:
  fixes v :: space_invite and clk :: "nat \<Rightarrow> int"
  defines "w \<equiv> take_lease (clk 0) v"
  assumes table: "table_ok i_id (invites s)" and v: "find_invite i s = Some v" and claim: "claimable (clk 0) v"
    and space: "find_space (i_space_id v) s = Some p" and active: "isActiveInvite v (clk 1)"
  shows "\<exists>outcome. attempt mail (\<lambda>_ s. s) clk i s = (outcome,
    update_invite i (record_result (fst (result_of mail w p)) (snd (result_of mail w p)) (clk 1))
      (update_invite i (take_lease (clk 0)) s))"
proof -
  let ?s = "update_invite i (take_lease (clk 0)) s"
  have w: "find_invite i ?s = Some w" unfolding w_def by (rule find_updated_invite [OF v]) simp
  have table': "table_ok i_id (invites ?s)" using table by simp
  have i: "i_id w = i" using v by (simp add: w_def found_invite [OF table])
  obtain n where "isActiveInvite w (clk 0)" "i_token_nonce w = Some n" and space': "find_space (i_space_id w) ?s = Some p"
    using claim space by (auto simp: w_def claimable_def take_lease_def isActiveInvite_def)
  moreover have "of_attempt w (clk 1) w" using active by (simp add: of_attempt_def w_def take_lease_def isActiveInvite_def)
  then have "finish w status retry (clk 1) ?s = (True, update_invite i (record_result status retry (clk 1)) ?s)" for status retry
    using finish_eq [of ?s w w] table' w i by simp
  ultimately show ?thesis
    using w by (simp add: attempt_def claim_invite_def claim_row_eq [OF table v] claim send_invite_def result_of_def Let_def
      split: mail_result.split)
qed

definition row_at :: "nat \<Rightarrow> space \<Rightarrow> space_invite \<Rightarrow> db \<Rightarrow> space_invite \<Rightarrow> bool" where
  "row_at i p v s x \<longleftrightarrow> table_ok i_id (invites s) \<and> find_invite i s = Some x \<and> find_space (i_space_id x) s = Some p \<and>
     i_token_nonce x \<noteq> None \<and> (\<forall>t. isActiveInvite x t = isActiveInvite v t)"

lemma row_at_update:
  assumes "row_at i p v s x" and "\<And>y. i_id (f y) = i_id y" and "i_space_id (f x) = i_space_id x"
    and "i_token_nonce (f x) = i_token_nonce x" and "\<And>t. isActiveInvite (f x) t = isActiveInvite x t"
  shows "row_at i p v (update_invite i f s) (f x)"
  using assms find_updated_invite [of i s x f] by (simp add: row_at_def)

lemma delivery_run_step:
  assumes row: "row_at i p v s x" and state: "settled x \<or> waiting k (clk k 0) x"
    and active: "isActiveInvite v (clk k 1)" and times: "clk k 0 \<le> clk k 1" "clk k 1 + 7200000 \<le> later"
    and s': "s' = (if crash then snd (claim_row i (clk k 0) s) else snd (attempt mail (\<lambda>_ s. s) (clk k) i s))"
  obtains x' where "row_at i p v s' x'" and "settled x' \<or> waiting (Suc k) later x'"
    and "4 \<le> k \<Longrightarrow> \<not> crash \<Longrightarrow> settled x'"
proof (cases "settled x")
  case True
  have "table_ok i_id (invites s)" "find_invite i s = Some x" "\<not> claimable (clk k 0) x"
    using row True settled_not_claimable by (auto simp: row_at_def)
  then have "s' = s" by (simp add: s' claim_row_eq attempt_idle)
  with that row True show thesis by blast
next
  case False
  with state have waiting: "waiting k (clk k 0) x" by simp
  have table: "table_ok i_id (invites s)" and x: "find_invite i s = Some x"
    and space: "find_space (i_space_id x) s = Some p" and active': "isActiveInvite x (clk k 1)"
    using row active by (simp_all add: row_at_def)
  have "isActiveInvite x (clk k 0)" using active' times(1) by (simp add: isActiveInvite_def)
  then have claim: "claimable (clk k 0) x" using waiting_claimable [OF waiting] row by (simp add: row_at_def)
  let ?w = "take_lease (clk k 0) x" and ?s = "update_invite i (take_lease (clk k 0)) s"
  have row': "row_at i p v ?s ?w"
    by (rule row_at_update [OF row]) (simp_all add: take_lease_def isActiveInvite_def)
  have attempts: "i_email_attempts ?w = Suc k" using waiting by (simp add: waiting_def take_lease_def)
  show thesis
  proof (cases crash)
    case True
    then have "s' = ?s" by (simp add: s' claim_row_eq [OF table x] claim)
    moreover have "waiting (Suc k) later ?w"
      using attempts times by (simp add: waiting_def take_lease_def LEASE_MS_def)
    ultimately show thesis using that row' True by blast
  next
    case False
    define status retry where "status = fst (result_of mail ?w p)" and "retry = snd (result_of mail ?w p)"
    have s'': "s' = update_invite i (record_result status retry (clk k 1)) ?s"
      using attempt_runs [OF table x claim space active', of mail] False by (auto simp: s' status_def retry_def)
    let ?x = "record_result status retry (clk k 1) ?w"
    have "row_at i p v s' ?x" unfolding s''
      by (rule row_at_update [OF row']) (simp_all add: record_result_def isActiveInvite_def)
    moreover have "settled ?x \<or> waiting (Suc k) later ?x" and "4 \<le> k \<Longrightarrow> settled ?x"
      using attempts times
      by (auto simp: status_def retry_def result_of_def settled_def waiting_def record_result_def MAX_EMAIL_ATTEMPTS_def
        RETRY_DELAYS_MS_def nth_Cons split: mail_result.splits nat.splits)
    ultimately show thesis using that by blast
  qed
qed

lemma delivery_run_settles:
  assumes row: "row_at i p v s v" and start: "waiting 0 (clk 0 0) v"
    and times: "\<And>k. k \<le> n \<Longrightarrow> isActiveInvite v (clk k 1) \<and> clk k 0 \<le> clk k 1 \<and> clk k 1 + 7200000 \<le> clk (Suc k) 0"
  shows "k \<le> Suc n \<Longrightarrow> \<exists>x. row_at i p v (delivery_run mail clk crash i k s) x \<and> (settled x \<or> waiting k (clk k 0) x) \<and>
    (\<forall>j. k = Suc j \<longrightarrow> 4 \<le> j \<longrightarrow> \<not> crash j \<longrightarrow> settled x)"
proof (induction k)
  case 0
  with row start show ?case by auto
next
  case (Suc k)
  then obtain x where x: "row_at i p v (delivery_run mail clk crash i k s) x" "settled x \<or> waiting k (clk k 0) x" by auto
  have step: "delivery_run mail clk crash i (Suc k) s =
      (let s' = delivery_run mail clk crash i k s in
       if crash k then snd (claim_row i (clk k 0) s') else snd (attempt mail (\<lambda>_ s. s) (clk k) i s'))" by simp
  from times [of k] Suc.prems
  have "isActiveInvite v (clk k 1)" "clk k 0 \<le> clk k 1" "clk k 1 + 7200000 \<le> clk (Suc k) 0" by simp_all
  then obtain x' where "row_at i p v (delivery_run mail clk crash i (Suc k) s) x'"
    and "settled x' \<or> waiting (Suc k) (clk (Suc k) 0) x'" and "4 \<le> k \<Longrightarrow> \<not> crash k \<Longrightarrow> settled x'"
    using delivery_run_step [where clk = clk and k = k and crash = "crash k" and mail = mail and later = "clk (Suc k) 0",
        OF x _ _ _ step [unfolded Let_def]] by metis
  then show ?case by blast
qed

end
