(* ===== verification/InviteProperties.thy ===== *)
theory InviteProperties
  imports EmailLimits LinkFacts AttemptFacts TransactionProperties
begin

text \<open>
  The properties of spaces, members and invitations: integrity of the whole program, joining, what a
  stranger learns, link tokens, and the delivery of emails.
\<close>

section \<open>A space with an invitation\<close>

definition ex_invite :: space_invite where
  "ex_invite = \<lparr>i_id = 1, i_space_id = 1, i_email = ''b'', i_code = ''7'', i_role = MEMBER, i_expires_at = 604800000,
     i_accepted_at = None, i_accepted_by_user_id = None, i_revoked_at = None, i_token_nonce = Some ''n'',
     i_email_status = EMAIL_QUEUED, i_email_attempts = 0, i_email_attempt_id = 0,
     i_email_next_attempt_at = Some 0, i_email_lease_expires_at = None, i_email_last_sent_at = None, i_created_at = 0\<rparr>"

definition ex_user :: "nat \<Rightarrow> string \<Rightarrow> user" where
  "ex_user i email = \<lparr>u_id = i, u_email = email, u_name = ''N'', u_password = ''p'', u_email_verified = True,
     u_auth_version = 0, u_created_at = 0, u_updated_at = 0\<rparr>"

definition ex_group :: db where
  "ex_group = ex_db\<lparr>spaces := ex_table 2 [\<lparr>sp_id = 1, sp_name = ''Home'', sp_type = GROUP, sp_currency_id = 1,
       sp_created_at = 0, sp_updated_at = 0\<rparr>],
     users := ex_table 4 [ex_user 1 ''a'', ex_user 2 ''B'', ex_user 3 ''c''],
     invites := ex_table 2 [ex_invite]\<rparr>"

lemma ex_group_ok: "members_ok ex_group"
  by (simp add: members_ok_def members_of_def owned_def table_ok_def ex_group_def ex_invite_def ex_tables
      MAX_MEMBERS_PER_SPACE_def)

lemma ex_group_inv: "program_inv (ex_group, {''a''})"
  using ex_space_inv ex_group_ok space_inv_cong [of ex_group ex_db] by (simp add: program_inv_def ex_group_def)

section \<open>Integrity\<close>

text \<open>C1. Every state reachable by any writes of all services and any delivery steps is consistent:
  a space has exactly one owner, at most twenty members and a user once, members belong to spaces
  that exist, and the catalog and the history stay consistent when spaces come and go.\<close>

theorem program_consistent:
  assumes "program_inv c" and "(program_step rt)\<^sup>*\<^sup>* c c'" and "p \<in> set (rows (spaces (fst c')))"
  shows "(\<exists>!m. m \<in> set (members_of (sp_id p) (fst c')) \<and> m_role m = OWNER) \<and>
    length (members_of (sp_id p) (fst c')) \<le> 20 \<and> distinct (map m_user_id (members_of (sp_id p) (fst c'))) \<and>
    m_space_id ` set (rows (members (fst c'))) = sp_id ` set (rows (spaces (fst c'))) \<and>
    catalog_ok (fst c') \<and> (\<forall>t \<in> set (transactions (fst c')). transaction_ok (fst c') t)"
proof -
  have "program_inv c'" by (rule program.reachable [OF assms(2,1)])
  then have ok: "members_ok (fst c')" and sinv: "space_inv c'" by (simp_all add: program_inv_def)
  have "sp_id p \<in> m_space_id ` set (rows (members (fst c')))" using members_okD(7) [OF ok] assms(3) by simp
  then obtain m where m: "m \<in> set (rows (members (fst c')))" "m_space_id m = sp_id p" by auto
  then obtain o' where o': "o' \<in> set (members_of (sp_id p) (fst c'))" "m_role o' = OWNER"
    using owned_of_space [OF ok m(1)] by (auto simp: members_of_def)
  have "\<exists>!m. m \<in> set (members_of (sp_id p) (fst c')) \<and> m_role m = OWNER"
  proof (rule ex1I [of _ o'])
    fix n assume "n \<in> set (members_of (sp_id p) (fst c')) \<and> m_role n = OWNER"
    with o' show "n = o'" using members_okD(5) [OF ok] unfolding owned_def members_of_def by auto
  qed (use o' in blast)
  moreover have "distinct (map m_user_id (members_of sp (fst c')))" for sp
    using members_okD(4) [OF ok] by (auto simp: members_of_def distinct_map inj_on_def)
  ultimately show ?thesis
    using members_okD(6) [OF ok, of "sp_id p"] members_okD(7) [OF ok] sinv
    by (cases c') (simp add: MAX_MEMBERS_PER_SPACE_def space_inv_def state_inv_def history_inv_def)
qed

lemma ex_revoke: "revoke 6000 1 1 1 ex_group = Inr ((), update_invite 1 (revoke_row 6000) ex_group)"
  unfolding revoke_iff [OF ex_group_ok]
  by (simp add: find_invite_def find_member_def ex_group_def ex_invite_def ex_tables)

lemma program_consistent_witness:
  "\<exists>!m. m \<in> set (members_of 1 (update_invite 1 (revoke_row 6000) ex_group)) \<and> m_role m = OWNER"
proof -
  note step = program_step.revoke [OF ex_revoke]
  show ?thesis
    using program_consistent [OF ex_group_inv r_into_rtranclp [of "program_step ex_rt", OF step],
        of "hd (rows (spaces ex_group))"]
    by (simp add: ex_group_def ex_tables update_invite_def)
qed

section \<open>Joining\<close>

text \<open>C12. Whatever is read before the locks and however requests interleave, a user joins a space only with an
  active invitation for the user's address, as its one new plain member, while the space has room;
  the invitation is then used for good. Repeating the request changes nothing.\<close>

theorem joining:
  assumes "program_inv (s, used)" and "find_user u (view 0) = Some w"
    and "acceptToken hmac clk view u token s = Inr ((p, cur), s') \<or> accept same_text clk view u code s = Inr ((p, cur), s')"
  shows "\<exists>v. find_invite (i_id v) s = Some v \<and> isInviteFor v (u_email w) \<and> find_space (i_space_id v) s = Some p \<and>
    (if is_member (i_space_id v) u s then i_accepted_by_user_id v = Some u \<and> s' = s
     else isActiveInvite v (clk 1) \<and> length (members_of (i_space_id v) s) < 20 \<and>
       s' = s\<lparr>members := insert_auto (new_member (clk 2) (i_space_id v) u MEMBER) (members s),
         invites := (invites s)\<lparr>rows := map (\<lambda>x. if x = v then accept_row (clk 2) u x else x) (rows (invites s))\<rparr>\<rparr> \<and>
       (\<forall>rt later x t. (program_step rt)\<^sup>*\<^sup>* (s', used) later \<longrightarrow> x \<in> set (rows (invites (fst later))) \<longrightarrow>
         i_id x = i_id v \<longrightarrow> \<not> isActiveInvite x t))"
proof -
  have ok: "members_ok s" using assms(1) by (simp add: program_inv_def)
  have u: "u_id w = u" using find_row_Some [OF assms(2) [unfolded find_user_def]] by simp
  from assms(2,3) obtain i cred where run: "join clk (view 2) w i cred s = Inr ((p, cur), s')"
    by (auto simp: acceptToken_def accept_def getRecipient_def and_then_eq_Inr assertFound_eq_Inr Let_def)
  from ok run show ?thesis
  proof (cases rule: join_cases)
    case (member v)
    then show ?thesis using find_invite_Some [of i s v] by (intro exI [of _ v]) (simp add: u)
  next
    case (joined v)
    have v: "v \<in> set (rows (invites s))" "i_id v = i" using find_invite_Some [OF joined(1)] by simp_all
    have dist: "distinct (map i_id (rows (invites s)))" using members_okD(3) [OF ok] by (simp add: table_ok_def)
    have role: "i_role v = MEMBER" using members_okD(8) [OF ok v(1)] .
    have "update_rows (\<lambda>x. i_id x = i_id v) (accept_row (clk 2) u) (rows (invites s)) =
        map (\<lambda>x. if x = v then accept_row (clk 2) u x else x) (rows (invites s))"
      unfolding update_rows_def using distinct_key_eq [OF dist _ v(1)] by (intro map_cong) auto
    then have s': "s' = s\<lparr>members := insert_auto (new_member (clk 2) (i_space_id v) u MEMBER) (members s),
         invites := (invites s)\<lparr>rows := map (\<lambda>x. if x = v then accept_row (clk 2) u x else x) (rows (invites s))\<rparr>\<rparr>"
      unfolding joined(7) by (simp add: joined_by_def u role)
    have inv': "program_inv (s', used)"
      using join_keeps [OF ok run] by (intro program_inv_members [OF assms(1)]) simp_all
    have "\<not> isActiveInvite x t" if later: "(program_step rt)\<^sup>*\<^sup>* (s', used) later"
      and x: "x \<in> set (rows (invites (fst later)))" "i_id x = i_id v" for rt later x t
    proof -
      define y where "y = accept_row (clk 2) u v"
      have y: "y \<in> set (rows (invites s'))" "i_id y = i_id v" using v(1) by (auto simp: s' y_def)
      have "table_ok i_id (invites s')" using inv' by (simp add: program_inv_def members_okD)
      with delivery.steps_below [OF later inv'] x y have "overtakes y x" by (intro row_overtaken [of s']) simp_all
      then show ?thesis by (auto simp: overtakes_def isActiveInvite_def y_def accept_row_def)
    qed
    with joined s' v show ?thesis by (intro exI [of _ v]) (simp add: u MAX_MEMBERS_PER_SPACE_def)
  qed
qed

lemma ex_address [simp]: "to_lower ''B'' = ''b''" "to_lower ''b'' = ''b''" "to_lower ''c'' = ''c''" "trim ''B'' = ''B''" "trim ''b'' = ''b''" "trim ''c'' = ''c''"
  by code_simp+

lemma ex_accept:
  "\<exists>r s. accept (\<lambda>a b. to_lower a = to_lower b) (\<lambda>_. 6000) (\<lambda>_. ex_group) 2 ''7'' ex_group = Inr (r, s)"
  by (simp add: accept_def getRecipient_def find_user_def join_def find_invite_def lockInvite_def lockRows_def
      assertRecipient_def isInviteFor_def normalizeInviteEmail_def isActiveInvite_def find_member_def
      insert_member_def loadSpace_def getSpace_def find_space_def find_currency_def update_invite_def
      need_def guard_def MAX_MEMBERS_PER_SPACE_def ex_group_def ex_invite_def ex_user_def ex_tables Let_def)


lemma joining_witness:
  "\<exists>r s. accept (\<lambda>a b. to_lower a = to_lower b) (\<lambda>_. 6000) (\<lambda>_. ex_group) 2 ''7'' ex_group = Inr (r, s) \<and>
    length (rows (members s)) = 2"
proof -
  obtain p cur s where run: "accept (\<lambda>a b. to_lower a = to_lower b) (\<lambda>_. 6000) (\<lambda>_. ex_group) 2 ''7'' ex_group =
      Inr ((p, cur), s)" using ex_accept by auto
  have u: "find_user 2 ex_group = Some (ex_user 2 ''B'')"
    by (simp add: find_user_def ex_group_def ex_user_def ex_tables)
  from joining [OF ex_group_inv u disjI2 [OF run]]
  have "\<exists>v. find_invite (i_id v) ex_group = Some v \<and>
      (is_member (i_space_id v) 2 ex_group \<or> length (rows (members s)) = Suc (length (rows (members ex_group))))"
    by (elim exE) (rule exI, auto split: if_splits)
  then obtain v where v: "find_invite (i_id v) ex_group = Some v"
    and "is_member (i_space_id v) 2 ex_group \<or> length (rows (members s)) = Suc (length (rows (members ex_group)))" by blast
  moreover have "i_space_id v = 1" using find_invite_Some [OF v] by (simp add: ex_group_def ex_invite_def ex_tables)
  ultimately have "length (rows (members s)) = 2" by (simp add: is_member_def ex_group_def ex_tables)
  with run show ?thesis by blast
qed

section \<open>Link tokens\<close>

text \<open>C18. A link token finds an invitation exactly when it is the token issued for that invitation, for a
  proof function that gives 43 characters of the token alphabet.\<close>

theorem token_finds_its_invitation:
  assumes "table_ok i_id (invites s)"
    and "\<And>j. length (hmac j) = 43 \<and> list_all is_token_char (hmac j)"
  shows "findByToken hmac token s = Some v \<longleftrightarrow> v \<in> set (rows (invites s)) \<and> 0 < i_id v \<and>
    i_id v \<le> 2147483647 \<and> invite_token hmac v = Inr token"
proof -
  have found: "find_invite (i_id v) s = Some v \<longleftrightarrow> v \<in> set (rows (invites s))"
    using assms(1) by (simp add: find_invite_def table_ok_def find_row_key_iff)
  have hmac: "length p = 43 \<and> list_all is_token_char p" if "invite_proof hmac v = Inr p" for p
    using that assms(2) by (auto simp: invite_proof_def split: option.splits)
  show ?thesis
    using hmac by (auto simp: findByToken_eq_Some found parseInviteToken_iff invite_token_def and_then_eq_Inr MAX_INVITE_ID_def)
qed

definition ex_hmac :: "js \<Rightarrow> string" where
  "ex_hmac j = replicate 43 (CHR ''x'')"

lemma ex_token: "invite_token ex_hmac ex_invite = Inr (''1.'' @ replicate 43 (CHR ''x''))"
proof -
  have "show_nat (Suc 0) = ''1''" by code_simp
  then show ?thesis by (simp add: invite_token_def invite_proof_def ex_invite_def ex_hmac_def)
qed

lemma ex_hmac_token: "length (ex_hmac j) = 43 \<and> list_all is_token_char (ex_hmac j)"
proof -
  have "is_token_char (CHR ''x'')" by code_simp
  then show ?thesis by (auto simp: ex_hmac_def list_all_iff)
qed

lemma token_finds_its_invitation_witness:
  "findByToken ex_hmac (''1.'' @ replicate 43 (CHR ''x'')) ex_group = Some ex_invite"
  using token_finds_its_invitation [OF members_okD(3) [OF ex_group_ok] ex_hmac_token, where v = ex_invite] ex_token
  by (simp add: ex_group_def ex_invite_def ex_tables)

lemma token_finds_example:
  "findByToken ex_hmac (''1.'' @ replicate 43 (CHR ''x'')) ex_group = Some ex_invite"
proof -
  obtain p where "''1.'' @ replicate 43 (CHR ''x'') = show_nat (i_id ex_invite) @ ''.'' @ p" "invite_proof ex_hmac ex_invite = Inr p"
    using ex_token unfolding invite_token_def and_then_eq_Inr by (metis sum.inject(2))
  moreover have "find_invite (i_id ex_invite) ex_group = Some ex_invite"
    by (simp add: find_invite_def ex_group_def ex_tables)
  ultimately show ?thesis
    using ex_hmac_token by (auto simp: findByToken_eq_Some parseInviteToken_iff invite_proof_def ex_invite_def MAX_INVITE_ID_def)
qed

text \<open>C17. An account that an invitation is not for learns no more from its link than that an active invitation
  is not theirs; of an ended one, and with any code, it learns what it would with a link or a code that
  never existed.\<close>

theorem strangers_learn_nothing:
  assumes "members_ok s" and "find_user u (view 0) = Some w" and "findByToken hmac token (view 1) = Some v"
    and "find_invite (i_id v) (view 2) \<noteq> None" and "find_invite (i_id v) s = Some v'"
    and "i_email v' = i_email v" and "\<not> isInviteFor v (u_email w)"
  shows "acceptToken hmac clk view u token s = Inl (if isActiveInvite v' (clk 0)
        then api_error SPACE_INVITE_EMAIL_MISMATCH FORBIDDEN else api_error SPACE_INVITE_UNUSABLE STATUS_NOT_FOUND) \<and>
    preview hmac clk view u token = Inl (if isActiveInvite v (clk 0)
        then api_error SPACE_INVITE_EMAIL_MISMATCH FORBIDDEN else api_error SPACE_INVITE_UNUSABLE STATUS_NOT_FOUND) \<and>
    (\<forall>unknown. findByToken hmac unknown (view 1) = None \<longrightarrow>
      acceptToken hmac clk view u unknown s = Inl (api_error SPACE_INVITE_UNUSABLE STATUS_NOT_FOUND) \<and>
      preview hmac clk view u unknown = Inl (api_error SPACE_INVITE_UNUSABLE STATUS_NOT_FOUND)) \<and>
    (\<forall>code. (\<forall>x \<in> set (rows (invites (view 1))). isInviteFor x (u_email w) \<longrightarrow> i_code x \<noteq> code) \<longrightarrow>
      accept same_text clk view u code s = Inl (api_error NOT_FOUND STATUS_NOT_FOUND))"
proof (intro conjI allI impI)
  have user: "getRecipient u (view 0) = Inr w" using assms(2) by (simp add: getRecipient_def assertFound_def)
  have other: "\<not> isInviteFor v' (u_email w)" using assms(6,7) by (simp add: isInviteFor_def)
  note found = assms(3) [unfolded One_nat_def]
  obtain x where located: "find_invite (i_id v) (view 2) = Some x" using assms(4) by blast
  show "acceptToken hmac clk view u token s = Inl (if isActiveInvite v' (clk 0)
      then api_error SPACE_INVITE_EMAIL_MISMATCH FORBIDDEN else api_error SPACE_INVITE_UNUSABLE STATUS_NOT_FOUND)"
    by (simp add: acceptToken_def user found assms(5) join_def located lockInvite_ok [OF assms(1)] assertRecipient_def
        other unusable_def)
  show "preview hmac clk view u token = Inl (if isActiveInvite v (clk 0)
      then api_error SPACE_INVITE_EMAIL_MISMATCH FORBIDDEN else api_error SPACE_INVITE_UNUSABLE STATUS_NOT_FOUND)"
    by (simp add: preview_def user found assms(7) assertRecipient_def unusable_def)
  fix unknown assume "findByToken hmac unknown (view 1) = None"
  then show "acceptToken hmac clk view u unknown s = Inl (api_error SPACE_INVITE_UNUSABLE STATUS_NOT_FOUND)"
    and "preview hmac clk view u unknown = Inl (api_error SPACE_INVITE_UNUSABLE STATUS_NOT_FOUND)"
    by (simp_all add: acceptToken_def preview_def user unusable_def)
next
  fix code assume none: "\<forall>x \<in> set (rows (invites (view 1))). isInviteFor x (u_email w) \<longrightarrow> i_code x \<noteq> code"
  let ?found = "filter (\<lambda>v. isInviteFor v (u_email w)) (rev (sort_key i_id
    (filter (\<lambda>v. same_text (i_email v) (u_email w) \<and> i_code v = code) (rows (invites (view 1))))))"
  have "?found = []" using none by (auto simp: filter_empty_conv)
  then show "accept same_text clk view u code s = Inl (api_error NOT_FOUND STATUS_NOT_FOUND)"
    using assms(2) by (simp add: accept_def getRecipient_def assertFound_def unusable_def)
qed

lemma strangers_learn_nothing_witness:
  "acceptToken ex_hmac (\<lambda>_. 6000) (\<lambda>_. ex_group) 3 (''1.'' @ replicate 43 (CHR ''x'')) ex_group =
     Inl (api_error SPACE_INVITE_EMAIL_MISMATCH FORBIDDEN)"
proof -
  have user: "find_user 3 ex_group = Some (ex_user 3 ''c'')"
    by (simp add: find_user_def ex_group_def ex_user_def ex_tables)
  have v: "find_invite (i_id ex_invite) ex_group = Some ex_invite"
    by (simp add: find_invite_def ex_group_def ex_tables)
  have "\<not> isInviteFor ex_invite (u_email (ex_user 3 ''c''))"
    by (simp add: isInviteFor_def normalizeInviteEmail_def ex_invite_def ex_user_def)
  from strangers_learn_nothing [of ex_group 3 "\<lambda>_. ex_group", OF ex_group_ok user
      token_finds_example _ v refl this, THEN conjunct1, of "\<lambda>_. 6000"]
  show ?thesis by (simp add: v) (simp add: isActiveInvite_def ex_invite_def)
qed

section \<open>Delivery\<close>

text \<open>C14. Whatever is invited, resent, purged and written over time, with a clock that does not go back: in
  any 24 hours at most thirty emails of a space and five of an invitation are scheduled, two of one
  invitation at least a minute apart, and the table keeps all of the last day.\<close>

theorem email_limits:
  assumes "program_inv c" and "rows (invite_emails (fst c)) = []"
    and "(mail_step rt)\<^sup>*\<^sup>* (c, [], T) (c', mails, T')"
  shows "length (filter (\<lambda>e. e_space_id e = sp \<and> t - 86400000 < e_scheduled_at e \<and> e_scheduled_at e \<le> t) mails) \<le> 30 \<and>
    length (filter (\<lambda>e. e_invite_id e = i \<and> t - 86400000 < e_scheduled_at e \<and> e_scheduled_at e \<le> t) mails) \<le> 5 \<and>
    sorted_wrt (\<lambda>d e. e_invite_id d = e_invite_id e \<longrightarrow> e_scheduled_at d + 60000 \<le> e_scheduled_at e) mails \<and>
    filter (\<lambda>e. T' - 86400000 < e_scheduled_at e) (rows (invite_emails (fst c'))) =
      filter (\<lambda>e. T' - 86400000 < e_scheduled_at e) mails"
proof -
  have "mail_inv (c, [], T)"
    using assms(1,2) by (simp add: mail_inv_def log_ok_def recent_def table_ok_def limits_hold_def within_limit_def
        sent_in_day_def a_minute_apart_def)
  then have inv: "mail_inv (c', mails, T')" by (rule mail.reachable [OF assms(3)])
  then have "log_ok (fst c') mails T'" "a_minute_apart mails"
    and "within_limit (\<lambda>e. e_space_id e = sp) PER_SPACE mails" "within_limit (\<lambda>e. e_invite_id e = i) PER_INVITE mails"
    by (simp_all add: mail_inv_def limits_hold_def)
  then show ?thesis
    by (simp add: log_ok_def a_minute_apart_def within_limit_def sent_in_day_def recent_def LIMIT_WINDOW_MS_def
        PER_SPACE_def PER_INVITE_def RESEND_COOLDOWN_MS_def)
qed

lemma ex_invited:
  "\<exists>r s. create_invite (\<lambda>_ _. False) (\<lambda>_. 6000) (''8'', ''m'') 1 1 ''c'' ex_group = Inr (r, s) \<and>
    rows (invite_emails s) = [log_row 6000 1 (newInvite 6000 (''8'', ''m'') 1 ''c'' 2) 1]"
  by (simp add: create_invite_def normalizeInviteEmail_def lockOwner_def lockMembership_def lockRows_def find_member_def
      getSpace_def find_space_def find_currency_def assertFound_def guard_def getActive_def isActiveInvite_def isInviteFor_def
      assertCanSchedule_def scheduleWaits_def windowOf_def limitWait_def recordScheduled_def insert_invites_def
      MAX_PENDING_INVITES_PER_SPACE_def PER_SPACE_def PER_SENDER_def PER_RECIPIENT_def ex_group_def ex_invite_def ex_tables
      Let_def)

lemma email_limits_witness:
  "\<exists>s used mails T. (mail_step ex_rt)\<^sup>*\<^sup>* ((ex_group, {''a''}), [], 0) ((s, used), mails, T) \<and> length mails = 1 \<and>
    length (filter (\<lambda>e. e_space_id e = 1 \<and> 7000 - 86400000 < e_scheduled_at e \<and> e_scheduled_at e \<le> 7000) mails) \<le> 30"
proof -
  obtain r s where run: "create_invite (\<lambda>_ _. False) (\<lambda>_. 6000) (''8'', ''m'') 1 1 ''c'' ex_group = Inr (r, s)"
    and mails: "rows (invite_emails s) = [log_row 6000 1 (newInvite 6000 (''8'', ''m'') 1 ''c'' 2) 1]"
    using ex_invited by blast
  have none: "rows (invite_emails (fst (ex_group, {''a''}))) = []" by (simp add: ex_group_def ex_tables)
  have steps: "(mail_step ex_rt)\<^sup>*\<^sup>* ((ex_group, {''a''}), [], 0) ((s, {''a''}), [] @ added_emails ex_group s, 6000)"
    by (rule r_into_rtranclp) (rule mail_step.invited [OF run], simp)
  have "length ([] @ added_emails ex_group s) = 1" using none by (simp add: added_emails_def mails)
  with steps email_limits [OF ex_group_inv none steps, of 1 7000, THEN conjunct1] show ?thesis by blast
qed

text \<open>C15. A claim takes a queued email for one attempt: while its lease runs nobody else claims it, and
  once a later claim, a revocation or the use of the invitation has overtaken the attempt, its result
  is never written, however late it comes.\<close>

theorem one_attempt_counts:
  assumes "program_inv (s0, used)" and "claim_row i now s0 = (True, s)"
    and "(program_step rt)\<^sup>*\<^sup>* (s, used) (s1, used1)"
  shows "\<exists>v. find_invite i s = Some v \<and> i_email_status v = EMAIL_SENDING \<and>
    (\<forall>now'. now' < now + 120000 \<and> find_invite i s1 = Some v \<longrightarrow> claim_row i now' s1 = (False, s1)) \<and>
    (\<forall>s2 later status retry t. superseded i s1 s2 \<and> (program_step rt)\<^sup>*\<^sup>* (s2, used1) later \<longrightarrow>
       finish v status retry t (fst later) = (False, fst later))"
proof -
  have inv: "program_inv (s, used)" by (rule program_step_keeps [OF assms(1) program_step.claim [OF assms(2)]])
  then have inv1: "program_inv (s1, used1)" by (rule program.reachable [OF assms(3)])
  have ok: "members_ok s0" "members_ok s" "members_ok s1" using assms(1) inv inv1 by (simp_all add: program_inv_def)
  note table = ok [THEN members_okD(3)]
  have "superseded i s0 s" using assms(2) by (auto simp: superseded_def)
  then obtain w where w: "find_invite i s0 = Some w" using superseded_found [OF ok(1)] by blast
  then have s: "s = update_invite i (take_lease now) s0"
    using claim_row_eq [OF table(1) w, of now] assms(2) by (simp split: if_splits)
  define v where "v = take_lease now w"
  have v: "find_invite i s = Some v" unfolding v_def s by (rule find_updated_invite [OF w]) simp
  have lease: "\<not> claimable now' v" if "now' < now + 120000" for now'
    using that by (simp add: claimable_def v_def take_lease_def LEASE_MS_def)
  have "finish v status retry t (fst later) = (False, fst later)"
    if sup: "superseded i s1 s2" and later: "(program_step rt)\<^sup>*\<^sup>* (s2, used1) later" for s2 later status retry t
  proof -
    obtain x where x: "find_invite i s1 = Some x" using superseded_found [OF ok(3) sup] .
    obtain y where y: "find_invite i s2 = Some y" "i_email_attempt_id y = Suc (i_email_attempt_id x)" "table_ok i_id (invites s2)"
      using superseded_attempt [OF ok(3) sup x] .
    have "overtakes v x"
      using delivery.steps_below [OF assms(3) inv] table x v by (intro row_overtaken [of s s1]) (auto simp: found_invite)
    with y(2) have "i_email_attempt_id v < i_email_attempt_id y" by (simp add: overtakes_def)
    moreover have "find_invite (i_id v) s2 = Some y" using v y(1) by (simp add: found_invite [OF table(2)])
    ultimately show ?thesis
      using obsolete_attempt delivery.steps_below [OF later superseded_inv [OF inv1 sup]] y(3) by auto
  qed
  moreover have "claim_row i now' s1 = (False, s1)" if "now' < now + 120000" "find_invite i s1 = Some v" for now'
    using claim_row_eq [OF table(3) that(2)] lease [OF that(1)] by simp
  moreover have "i_email_status v = EMAIL_SENDING" by (simp add: v_def take_lease_def)
  ultimately show ?thesis using v by blast
qed

lemma one_attempt_counts_witness:
  "\<exists>s v. claim_row 1 6000 ex_group = (True, s) \<and> find_invite 1 s = Some v \<and> claim_row 1 7000 s = (False, s)"
proof -
  have "\<exists>s. claim_row 1 6000 ex_group = (True, s)"
    by (simp add: claim_row_def claimable_def isActiveInvite_def ex_group_def ex_invite_def ex_tables Let_def)
  then obtain s where run: "claim_row 1 6000 ex_group = (True, s)" by blast
  from one_attempt_counts [OF ex_group_inv run rtranclp.rtrancl_refl, where rt = ex_rt]
  obtain v where "find_invite 1 s = Some v" "\<And>now'. now' < 126000 \<Longrightarrow> claim_row 1 now' s = (False, s)" by auto
  with run show ?thesis by (intro exI [of _ s] exI [of _ v]) simp
qed

text \<open>C16. A queued email of an invitation that stays active is settled: with attempts once they are due, of
  which any may be cut short by a crash, the email is sent or given up by the first attempt from the
  fifth on that runs to its end.\<close>

theorem email_settles:
  assumes "table_ok i_id (invites s)" and "find_invite i s = Some v" and "find_space (i_space_id v) s \<noteq> None"
    and "i_token_nonce v \<noteq> None" and "i_email_status v = EMAIL_QUEUED" and "i_email_attempts v = 0"
    and "i_email_next_attempt_at v = Some due" and "due \<le> clk 0 0"
    and "\<And>k. k \<le> n \<Longrightarrow> isActiveInvite v (clk k 1) \<and> clk k 0 \<le> clk k 1 \<and> clk k 1 + 7200000 \<le> clk (Suc k) 0"
    and "4 \<le> n" and "\<not> crash n"
  shows "\<exists>x. find_invite i (delivery_run mail clk crash i (Suc n) s) = Some x \<and>
    (i_email_status x = EMAIL_SENT \<or> i_email_status x = EMAIL_FAILED)"
proof -
  obtain p where "find_space (i_space_id v) s = Some p" using assms(3) by blast
  with assms have "row_at i p v s v" and "waiting 0 (clk 0 0) v" by (simp_all add: row_at_def waiting_def)
  from delivery_run_settles [OF this assms(9), of n "Suc n" mail crash] assms(10,11)
  show ?thesis by (auto simp: row_at_def settled_def)
qed

lemma email_settles_witness:
  "\<exists>x. find_invite 1 (delivery_run (\<lambda>_ _. Refused False) (\<lambda>k _. 10800000 * int k) (\<lambda>k. k = 1) 1 5 ex_group) = Some x \<and>
    (i_email_status x = EMAIL_SENT \<or> i_email_status x = EMAIL_FAILED)"
proof -
  have v: "find_invite 1 ex_group = Some ex_invite" by (simp add: find_invite_def ex_group_def ex_invite_def ex_tables)
  have space: "find_space (i_space_id ex_invite) ex_group \<noteq> None"
    by (simp add: find_space_def ex_group_def ex_invite_def ex_tables)
  have "isActiveInvite ex_invite (10800000 * int k)" if "k \<le> 4" for k
    using that by (simp add: isActiveInvite_def ex_invite_def)
  then show ?thesis
    using email_settles [OF members_okD(3) [OF ex_group_ok] v space, where n = 4 and due = 0 and
        clk = "\<lambda>k _. 10800000 * int k" and crash = "\<lambda>k. k = 1" and mail = "\<lambda>_ _. Refused False"]
    by (simp add: ex_invite_def eval_nat_numeral)
qed

section \<open>Leaving\<close>

text \<open>C13. Leaving or removing a member ends exactly that membership. The owner who leaves hands the space
  to the member who joined first; the last one takes the space along, and only with another space left.
  Nobody but the owner removes others.\<close>

theorem leaving:
  assumes "members_ok s" and "locks_held sp u (view 1) (view 2) s"
    and "leaveOrRemove restricted view sp u target s = Inr (y, s')"
  shows "\<exists>m. find_member sp u s = Some m \<and> (u = target \<or> m_role m = OWNER) \<and>
    (if u = target \<and> m_role m = OWNER then
       if members_of sp s = [m] then 1 < length (memberships u s) \<and> s' = without_space sp s
       else (\<exists>b \<in> set (members_of sp s). b \<noteq> m \<and>
         (\<forall>n \<in> set (members_of sp s). n \<noteq> m \<longrightarrow> (m_created_at b, m_id b) \<le> (m_created_at n, m_id n)) \<and>
         s' = s\<lparr>members := (members s)\<lparr>rows := map (\<lambda>n. if n = b then n\<lparr>m_role := OWNER\<rparr> else n)
           (filter (\<lambda>n. n \<noteq> m) (rows (members s)))\<rparr>\<rparr>)
     else (\<exists>x. find_member sp target s = Some x \<and>
       s' = s\<lparr>members := (members s)\<lparr>rows := filter (\<lambda>n. n \<noteq> x) (rows (members s))\<rparr>\<rparr>))"
proof -
  have key: "m_id n = m_id x \<longleftrightarrow> n = x" if "n \<in> set (rows (members s))" "x \<in> set (rows (members s))" for n x
    using distinct_key_eq [OF distinct_members [OF assms(1)] that] by blast
  have gone: "delete_rows (\<lambda>n. m_id n = m_id x) (rows (members s)) = filter (\<lambda>n. n \<noteq> x) (rows (members s))"
    if "x \<in> set (rows (members s))" for x
    unfolding delete_rows_def using key that by (intro filter_cong) auto
  have "distinct (rows (members s))" using distinct_members [OF assms(1)] by (simp add: distinct_map)
  then have dist: "distinct (members_of sp s)" by (simp add: members_of_def)
  from assms show ?thesis
  proof (cases rule: leaveOrRemove_cases)
    case (ended m x)
    have "x \<in> set (rows (members s))" using find_member_Some [OF ended(2)] by simp
    from gone [OF this] ended show ?thesis by (intro exI [of _ m]) (auto simp: delete_member_def)
  next
    case (handed_over m b)
    have m: "m \<in> set (rows (members s))" using find_member_Some [OF handed_over(1)] by simp
    have b: "b \<in> set (rows (members s))" using handed_over(4) by (simp add: members_of_def)
    have "update_rows (\<lambda>n. m_id n = m_id b) (\<lambda>n. n\<lparr>m_role := OWNER\<rparr>) (filter (\<lambda>n. n \<noteq> m) (rows (members s))) =
        map (\<lambda>n. if n = b then n\<lparr>m_role := OWNER\<rparr> else n) (filter (\<lambda>n. n \<noteq> m) (rows (members s)))"
      unfolding update_rows_def using key b by (intro map_cong) auto
    then have "s' = s\<lparr>members := (members s)\<lparr>rows := map (\<lambda>n. if n = b then n\<lparr>m_role := OWNER\<rparr> else n)
        (filter (\<lambda>n. n \<noteq> m) (rows (members s)))\<rparr>\<rparr>"
      using handed_over(7) gone [OF m] by (simp add: set_role_def delete_member_def)
    moreover have "members_of sp s \<noteq> [m]" using handed_over(4,5) by auto
    ultimately show ?thesis using handed_over by (intro exI [of _ m]) auto
  next
    case (deleted m)
    with dist have "members_of sp s = [m]" by (metis distinct_card card_1_singleton_iff length_Suc_conv
        length_0_conv list.set(1) list.set(2) is_singletonI is_singleton_altdef singleton_insert_inj_eq)
    with deleted show ?thesis by (intro exI [of _ m]) auto
  qed
qed

definition ex_member :: "nat \<Rightarrow> SpaceRole \<Rightarrow> space_member" where
  "ex_member i role = \<lparr>m_id = i, m_space_id = 1, m_user_id = i, m_role = role, m_created_at = 0\<rparr>"

definition ex_pair :: db where
  "ex_pair = ex_group\<lparr>members := ex_table 3 [ex_member 1 OWNER, ex_member 2 MEMBER]\<rparr>"

lemma ex_pair_ok: "members_ok ex_pair"
  by (simp add: members_ok_def members_of_def owned_def table_ok_def ex_pair_def ex_member_def ex_group_def
      ex_invite_def ex_tables MAX_MEMBERS_PER_SPACE_def)

lemma ex_leaves: "\<exists>s. leaveOrRemove (\<lambda>_ _. False) (\<lambda>_. ex_pair) 1 1 1 ex_pair = Inr ((), s)"
  by (simp add: leaveOrRemove_def assertMembership_def lockMembers_def memberIds_def lockRows_def find_member_def
      leave_or_remove_work_def successor_of_def ex_pair_def ex_member_def ex_tables Let_def All_less_Suc nth_Cons')

lemma leaving_witness:
  "\<exists>s. leaveOrRemove (\<lambda>_ _. False) (\<lambda>_. ex_pair) 1 1 1 ex_pair = Inr ((), s) \<and> length (rows (members s)) = 1"
proof -
  obtain s where run: "leaveOrRemove (\<lambda>_ _. False) (\<lambda>_. ex_pair) 1 1 1 ex_pair = Inr ((), s)"
    using ex_leaves by blast
  have rows: "rows (members ex_pair) = [ex_member 1 OWNER, ex_member 2 MEMBER]" and other: "ex_member 2 MEMBER \<noteq> ex_member 1 OWNER"
    and owner: "m_role (ex_member 1 OWNER) = OWNER" by (simp_all add: ex_pair_def ex_tables ex_member_def)
  have m: "find_member 1 1 ex_pair = Some (ex_member 1 OWNER)"
    unfolding find_member_def rows by (simp add: ex_member_def)
  have "members_of 1 ex_pair \<noteq> [ex_member 1 OWNER]"
    unfolding members_of_def rows by (simp add: ex_member_def)
  moreover have "locks_held 1 1 ex_pair ex_pair ex_pair" by (simp add: locks_held_def)
  ultimately obtain b where "s = ex_pair\<lparr>members := (members ex_pair)\<lparr>rows := map (\<lambda>n. if n = b then n\<lparr>m_role := OWNER\<rparr> else n)
      (filter (\<lambda>n. n \<noteq> ex_member 1 OWNER) (rows (members ex_pair)))\<rparr>\<rparr>"
    using leaving [OF ex_pair_ok _ run] m owner by auto
  then have "length (rows (members s)) = 1" using other by (simp add: rows)
  with run show ?thesis by blast
qed

end
