(* ===== verification/ResetLife.thy ===== *)
theory ResetLife
  imports AccountSteps
begin

text \<open>
  The life of accounts and of password resets over any writes: what each write does to the table of
  challenges and to the credentials of accounts, and that a token which is gone from the table does not
  come back.
\<close>

section \<open>Steps\<close>

text \<open>
  A write of accounts under the server's secrets \<open>c\<close>. \<open>moments\<close> are the moments at which codes are accepted,
  \<open>elsewhere\<close> is any write of the other tables.
\<close>

inductive account_write :: "crypto \<Rightarrow> int set \<Rightarrow> db \<Rightarrow> db \<Rightarrow> bool" for c moments where
  registered: "register bcrypt same_text now dto s = Inr (u, s') \<Longrightarrow> account_write c moments s s'"
| refreshed: "updateUnverified_work bcrypt now i dto s = Inr s' \<Longrightarrow> account_write c moments s s'"
| confirmed: "completeEmailVerification now i s = Inr s' \<Longrightarrow> account_write c moments s s'"
| send_reserved: "reserveSend clk code i ty s = Inr (r, s') \<Longrightarrow> account_write c moments s s'"
| send_done: "account_write c moments s (markSent now i a s)"
| send_failed: "account_write c moments s (markFailed i a s)"
| email_verified: "verifyEmail_work clk found code s = Inr (out, s') \<Longrightarrow> account_write c moments s s'"
| reset_requested: "reserveIn c same_text now code email h seen s = Inr (d, s') \<Longrightarrow> account_write c moments s s'"
| reset_delivered: "account_write c moments s (deliver accepted now d s)"
| reset_verified: "verifyIn c same_text now email h code s = Inr (out', s') \<Longrightarrow> now \<in> moments \<Longrightarrow>
    account_write c moments s s'"
| reset_completed: "complete c bcrypt clk before token new s = Inr (x, s') \<Longrightarrow> account_write c moments s s'"
| elsewhere: "users s' = users s \<Longrightarrow> challenges s' = challenges s \<Longrightarrow> account_write c moments s s'"

section \<open>The table of challenges\<close>

text \<open>
  Ids and token hashes are unique, as the keys of the table have it, and a stored hash is the one of the
  token derived from the challenge's moment of verification.
\<close>

definition challenges_ok :: "crypto \<Rightarrow> password_reset_challenge table \<Rightarrow> bool" where
  "challenges_ok c t \<longleftrightarrow> table_ok ch_id t \<and>
     (\<forall>ch \<in> set (rows t). \<forall>ch' \<in> set (rows t). \<forall>th.
       ch_reset_token_hash ch = Some th \<longrightarrow> ch_reset_token_hash ch' = Some th \<longrightarrow> ch = ch') \<and>
     (\<forall>ch \<in> set (rows t). \<forall>th. ch_reset_token_hash ch = Some th \<longrightarrow> (\<exists>source.
       ch_verified_at ch = Some (rs_verifiedAt source) \<and> th = hashResetToken c (deriveResetToken c source)))"

definition forgotten :: "string \<Rightarrow> password_reset_challenge table \<Rightarrow> bool" where
  "forgotten th t \<longleftrightarrow> (\<forall>ch \<in> set (rows t). ch_reset_token_hash ch \<noteq> Some th)"

text \<open>A change that keeps the id and either drops the token hash or keeps it with its moment.\<close>

definition drops_tokens :: "(password_reset_challenge \<Rightarrow> password_reset_challenge) \<Rightarrow> bool" where
  "drops_tokens f \<longleftrightarrow> (\<forall>ch. ch_id (f ch) = ch_id ch \<and> (ch_reset_token_hash (f ch) = None \<or>
     ch_reset_token_hash (f ch) = ch_reset_token_hash ch \<and> ch_verified_at (f ch) = ch_verified_at ch))"

lemma drops_tokensD:
  assumes "drops_tokens f"
  shows "ch_id (f ch) = ch_id ch"
    and "ch_reset_token_hash (f ch) = Some th \<Longrightarrow> ch_reset_token_hash ch = Some th \<and> ch_verified_at (f ch) = ch_verified_at ch"
proof -
  have f: "ch_id (f ch) = ch_id ch" "ch_reset_token_hash (f ch) = None \<or>
      ch_reset_token_hash (f ch) = ch_reset_token_hash ch \<and> ch_verified_at (f ch) = ch_verified_at ch"
    using assms unfolding drops_tokens_def by blast+
  then show "ch_id (f ch) = ch_id ch"
    and "ch_reset_token_hash (f ch) = Some th \<Longrightarrow> ch_reset_token_hash ch = Some th \<and> ch_verified_at (f ch) = ch_verified_at ch"
    by auto
qed

text \<open>A table whose rows were each rewritten.\<close>

lemma challenges_okI:
  assumes "table_ok ch_id t'" and "set (rows t') = g ` set (rows t)"
    and "\<And>x y th. x \<in> set (rows t) \<Longrightarrow> y \<in> set (rows t) \<Longrightarrow> ch_reset_token_hash (g x) = Some th \<Longrightarrow>
      ch_reset_token_hash (g y) = Some th \<Longrightarrow> g x = g y"
    and "\<And>x th. x \<in> set (rows t) \<Longrightarrow> ch_reset_token_hash (g x) = Some th \<Longrightarrow> \<exists>source.
      ch_verified_at (g x) = Some (rs_verifiedAt source) \<and> th = hashResetToken c (deriveResetToken c source)"
  shows "challenges_ok c t'"
  using assms by (auto simp: challenges_ok_def)

lemma challenges_ok_update:
  assumes ok: "challenges_ok c t" and f: "drops_tokens f"
  shows "challenges_ok c (t\<lparr>rows := update_rows p f (rows t)\<rparr>)"
proof -
  let ?g = "\<lambda>ch. if p ch then f ch else ch"
  have old: "ch_reset_token_hash ch = Some th \<and> ch_verified_at (?g ch) = ch_verified_at ch"
    if "ch_reset_token_hash (?g ch) = Some th" for ch th
    using that drops_tokensD(2) [OF f, of ch th] by (cases "p ch") simp_all
  have same: "?g x = ?g y" if "x \<in> set (rows t)" "y \<in> set (rows t)" "ch_reset_token_hash (?g x) = Some th"
    "ch_reset_token_hash (?g y) = Some th" for x y th
  proof -
    have "ch_reset_token_hash x = Some th" "ch_reset_token_hash y = Some th" using old that(3,4) by blast+
    then have "x = y" using ok that(1,2) unfolding challenges_ok_def by blast
    then show ?thesis by simp
  qed
  have origin: "\<exists>source. ch_verified_at (?g x) = Some (rs_verifiedAt source) \<and>
      th = hashResetToken c (deriveResetToken c source)"
    if "x \<in> set (rows t)" "ch_reset_token_hash (?g x) = Some th" for x th
    using ok that(1) old [OF that(2)] unfolding challenges_ok_def by auto
  have "table_ok ch_id (t\<lparr>rows := update_rows p f (rows t)\<rparr>)"
    using ok drops_tokensD(1) [OF f] by (intro table_ok_update) (simp_all add: challenges_ok_def)
  moreover have "set (rows (t\<lparr>rows := update_rows p f (rows t)\<rparr>)) = ?g ` set (rows t)"
    by (simp add: set_update_rows)
  ultimately show ?thesis using same origin by (rule challenges_okI)
qed

lemma challenges_ok_insert:
  assumes ok: "challenges_ok c t" and "ch_id (f (next_id t)) = next_id t"
    and "ch_reset_token_hash (f (next_id t)) = None"
  shows "challenges_ok c (insert_auto f t)"
proof -
  have "table_ok ch_id (insert_auto f t)"
    using ok assms(2) by (intro table_ok_insert_auto) (simp_all add: challenges_ok_def)
  then show ?thesis using ok assms(3) by (simp add: challenges_ok_def)
qed

lemma forgotten_update:
  "forgotten th t \<Longrightarrow> drops_tokens f \<Longrightarrow> forgotten th (t\<lparr>rows := update_rows p f (rows t)\<rparr>)"
  using drops_tokensD(2) [of f _ th] by (auto simp: forgotten_def set_update_rows)

lemma forgotten_insert:
  "forgotten th t \<Longrightarrow> ch_reset_token_hash (f (next_id t)) = None \<Longrightarrow> forgotten th (insert_auto f t)"
  by (auto simp: forgotten_def)

lemma store_token_ok:
  assumes "store_token i (rs_verifiedAt source) (hashResetToken c (deriveResetToken c source)) expires s = Inr s'"
    and "challenges_ok c (challenges s)"
  shows "challenges_ok c (challenges s')"
proof -
  let ?th = "hashResetToken c (deriveResetToken c source)" and ?rs = "rows (challenges s)"
  let ?f = "\<lambda>ch. ch\<lparr>ch_verified_at := Some (rs_verifiedAt source), ch_reset_token_hash := Some ?th,
    ch_reset_token_expires_at := Some expires\<rparr>"
  let ?g = "\<lambda>ch. if ch_id ch = i then ?f ch else ch"
  from assms(1) have new: "\<not> (\<exists>ch \<in> set ?rs. ch_id ch \<noteq> i \<and> ch_reset_token_hash ch = Some ?th)"
    and s': "challenges s' = (challenges s)\<lparr>rows := update_rows (\<lambda>ch. ch_id ch = i) ?f ?rs\<rparr>"
    by (auto simp: store_token_def update_challenge_def split: if_splits)
  have keys: "distinct (map ch_id ?rs)" using assms(2) by (simp add: challenges_ok_def table_ok_def)
  have same: "?g x = ?g y" if "x \<in> set ?rs" "y \<in> set ?rs" "ch_reset_token_hash (?g x) = Some th"
    "ch_reset_token_hash (?g y) = Some th" for x y th
  proof (cases "ch_id x = i \<or> ch_id y = i")
    case True
    with that new have "ch_id x = ch_id y" by (auto split: if_splits)
    then have "x = y" by (rule distinct_key_eq [OF keys that(1,2)])
    then show ?thesis by simp
  next
    case False
    then have "ch_reset_token_hash x = Some th" "ch_reset_token_hash y = Some th" using that(3,4) by simp_all
    then have "x = y" using assms(2) that(1,2) unfolding challenges_ok_def by blast
    then show ?thesis by simp
  qed
  have origin: "\<exists>source. ch_verified_at (?g x) = Some (rs_verifiedAt source) \<and>
      th = hashResetToken c (deriveResetToken c source)"
    if "x \<in> set ?rs" "ch_reset_token_hash (?g x) = Some th" for x th
    using that assms(2) by (cases "ch_id x = i") (auto simp: challenges_ok_def)
  have "table_ok ch_id (challenges s')"
    unfolding s' using assms(2) by (intro table_ok_update) (simp_all add: challenges_ok_def)
  moreover have "set (rows (challenges s')) = ?g ` set ?rs" by (simp add: s' set_update_rows)
  ultimately show ?thesis using same origin by (rule challenges_okI)
qed

lemma store_token_forgotten:
  assumes "store_token i now th' expires s = Inr s'" and "forgotten th (challenges s)" and "th' \<noteq> th"
  shows "forgotten th (challenges s')"
  using assms by (auto simp: store_token_def update_challenge_def forgotten_def set_update_rows split: if_splits)

section \<open>What the writes do to it\<close>

text \<open>A write changes challenges without storing a token hash, or stores the one of an accepted code.\<close>

inductive challenges_change :: "crypto \<Rightarrow> int set \<Rightarrow> db \<Rightarrow> db \<Rightarrow> bool" for c moments s s' where
  dropped: "drops_tokens f \<Longrightarrow> challenges s' = (challenges s)\<lparr>rows := update_rows p f (rows (challenges s))\<rparr> \<Longrightarrow>
    challenges_change c moments s s'"
| inserted: "ch_id (f (next_id (challenges s))) = next_id (challenges s) \<Longrightarrow>
    ch_reset_token_hash (f (next_id (challenges s))) = None \<Longrightarrow>
    challenges s' = insert_auto f (challenges s) \<Longrightarrow> challenges_change c moments s s'"
| stored: "rs_verifiedAt source \<in> moments \<Longrightarrow>
    store_token i (rs_verifiedAt source) (hashResetToken c (deriveResetToken c source)) expires s = Inr s' \<Longrightarrow>
    challenges_change c moments s s'"

lemma update_rows_never [simp]: "update_rows (\<lambda>_. False) f rs = rs"
  by (simp add: update_rows_def)

lemma unchanged_challenges: "challenges s' = challenges s \<Longrightarrow> challenges_change c moments s s'"
  by (rule dropped [where f = "\<lambda>ch. ch" and p = "\<lambda>_. False"]) (simp_all add: drops_tokens_def)

lemma drops_tokens_writes:
  "drops_tokens (\<lambda>ch. request_fields now account codeHash w a ch)"
  "drops_tokens (\<lambda>ch. restart_fields now (request_fields now account codeHash w a ch))"
  "drops_tokens (wrong_code n w)" "drops_tokens (completed now)"
  by (simp_all add: drops_tokens_def request_fields_def restart_fields_def wrong_code_def completed_def Let_def)

lemma update_challenge_dropped:
  "drops_tokens f \<Longrightarrow> challenges s' = challenges (update_challenge i f s) \<Longrightarrow> challenges_change c moments s s'"
  by (rule dropped [where f = f and p = "\<lambda>ch. ch_id ch = i"]) (simp_all add: update_challenge_def)

lemma reserveIn_change:
  assumes "reserveIn c same_text now code email h seen s = Inr (d, s')"
  shows "challenges_change c moments s s'"
proof (cases "lockChallenge h seen")
  case None
  let ?account = "lockAccount c same_text email h seen"
  have "challenges s' = insert_auto (\<lambda>i. restart_fields now (request_fields now ?account
      (if ?account = None then None else Some (hashCode c h code))
      \<lparr>wf_started_at = now, wf_requests = 0, wf_failed_attempts = 0\<rparr> 1 (blank_challenge h i))) (challenges s)"
    using assms None by (auto simp: reserveIn_def and_then_eq_Inr Let_def split: if_splits)
  then show ?thesis
    by (rule inserted [rotated 2]) (simp_all add: request_fields_def restart_fields_def blank_challenge_def)
next
  case (Some ch)
  let ?account = "lockAccount c same_text email h seen"
  have s': "s' = update_challenge (ch_id ch) (\<lambda>x. (if challengeState ch now = CODE_PENDING then (\<lambda>x. x) else restart_fields now)
      (request_fields now ?account (if ?account = None then None else Some (hashCode c h code))
        (currentWindow ch now) (ch_send_attempt_id ch + 1) x)) s"
    using assms Some by (auto simp: reserveIn_def and_then_eq_Inr Let_def split: option.splits)
  show ?thesis
    by (rule update_challenge_dropped [OF _ arg_cong [where f = challenges, OF s']]) (simp add: drops_tokens_writes)
qed

lemma verifyIn_change:
  assumes "verifyIn c same_text now email h code s = Inr (out, s')" and "now \<in> moments"
  shows "challenges_change c moments s s'"
proof -
  consider "s' = s" | n w i where "s' = update_challenge i (wrong_code n w) s"
    | a ch codeHash where "accept_code c now ch codeHash s = Inr (a, s')"
    using assms(1) by (auto simp: verifyIn_def refuse_code_def and_then_eq_Inr Let_def split: option.splits if_splits)
  then show ?thesis
  proof cases
    case 1
    then show ?thesis by (simp add: unchanged_challenges)
  next
    case 2
    then show ?thesis by (intro update_challenge_dropped) (simp_all add: drops_tokens_writes)
  next
    case 3
    then consider "s' = s" | u expires where "store_token (ch_id ch) now (hashResetToken c (deriveResetToken c
        \<lparr>rs_challengeId = ch_id ch, rs_userId = u, rs_codeHash = codeHash, rs_verifiedAt = now\<rparr>)) expires s = Inr s'"
      by (auto simp: accept_code_def and_then_eq_Inr Let_def split: if_splits)
    then show ?thesis
    proof cases
      case 1
      then show ?thesis by (simp add: unchanged_challenges)
    next
      case 2
      with assms(2) show ?thesis
        by (intro stored [where source = "\<lparr>rs_challengeId = ch_id ch, rs_userId = u, rs_codeHash = codeHash,
          rs_verifiedAt = now\<rparr>"]) simp_all
    qed
  qed
qed

lemma account_write_challenges:
  assumes "account_write c moments s s'"
  shows "challenges_change c moments s s'"
  using assms
proof cases
  case (registered bcrypt same_text now dto u)
  then have "challenges s' = challenges s"
    by (auto simp: register_def and_then_eq_Inr createSpaceWithOwner_def insert_space_def insert_member_def
        insert_user_def Let_def split: if_splits)
  then show ?thesis by (rule unchanged_challenges)
next
  case (refreshed bcrypt now i dto)
  then have "challenges s' = challenges s"
    by (auto simp: updateUnverified_work_def and_then_eq_Inr set_currency_def update_user_def Let_def split: if_splits)
  then show ?thesis by (rule unchanged_challenges)
next
  case (confirmed now i)
  then have "challenges s' = challenges s"
    by (auto simp: completeEmailVerification_def initializeVerifiedUser_def createDefaultCategories_def update_user_def
        and_then_eq_Inr Let_def split: if_splits)
  then show ?thesis by (rule unchanged_challenges)
next
  case (send_reserved clk code i ty r)
  then have "challenges s' = challenges s"
    by (auto simp: reserveSend_def and_then_eq_Inr update_code_def Let_def split: option.splits ResendDecision.splits)
  then show ?thesis by (rule unchanged_challenges)
next
  case (email_verified clk found code out)
  then have "challenges s' = challenges s"
    by (auto simp: verifyEmail_work_def initializeVerifiedUser_def createDefaultCategories_def update_user_def
        expire_def incrementAttempts_def update_code_def and_then_eq_Inr Let_def split: if_splits)
  then show ?thesis by (rule unchanged_challenges)
next
  case (reset_requested same_text now code email h seen d)
  then show ?thesis by (rule reserveIn_change)
next
  case (reset_delivered accepted now d)
  then show ?thesis
    by (intro dropped [where f = "\<lambda>ch. if accepted then ch\<lparr>ch_send_status := Some SENT, ch_last_sent_at := Some now\<rparr>
        else ch\<lparr>ch_send_status := Some FAILED\<rparr>"]) (simp_all add: deliver_def drops_tokens_def)
next
  case (reset_verified same_text now email h code out')
  then show ?thesis by (rule verifyIn_change)
next
  case (reset_completed bcrypt clk before token new x)
  then obtain i where "challenges s' = challenges (update_challenge i (completed (clk 1)) s)"
    by (auto simp: complete_def update_challenge_def update_user_def Let_def split: option.splits if_splits)
  then show ?thesis by (rule update_challenge_dropped [OF drops_tokens_writes(4)])
qed (auto intro!: unchanged_challenges simp: markSent_def markFailed_def update_code_def)

section \<open>A token is not derived again\<close>

text \<open>
  The two hash functions together tell messages apart. Then tokens of different moments differ, because
  the moment is what follows the last colon of the message.
\<close>

definition collision_free :: "crypto \<Rightarrow> bool" where
  "collision_free c \<longleftrightarrow> inj (\<lambda>m. cr_sha256_hex c (cr_hmac_base64url c m))"

lemma digits_no_mark:
  assumes "list_all is_digit ds"
  shows "CHR '':'' \<notin> set ds" "CHR ''-'' \<notin> set ds"
  using assms by (auto simp: list_all_iff is_digit_def)

lemma show_int_no_colon: "CHR '':'' \<notin> set (show_int t)"
  using digits_no_mark(1) [OF show_nat_digits] by (simp add: show_int_def)

lemma show_int_inject: "show_int a = show_int b \<Longrightarrow> a = b"
proof -
  assume same: "show_int a = show_int b"
  have "CHR ''-'' \<in> set (show_int t) \<longleftrightarrow> t < 0" for t
    using digits_no_mark(2) [OF show_nat_digits] by (simp add: show_int_def)
  then have sign: "a < 0 \<longleftrightarrow> b < 0" using same by metis
  have "show_nat m = show_nat n \<Longrightarrow> m = n" for m n by (metis digits_val_show_nat)
  from this [of "nat \<bar>a\<bar>" "nat \<bar>b\<bar>"] show "a = b"
    using same sign by (simp add: show_int_def split: if_splits)
qed

lemma after_last_colon:
  assumes "xs @ CHR '':'' # ds = ys @ CHR '':'' # es" and "CHR '':'' \<notin> set ds" and "CHR '':'' \<notin> set es"
  shows "ds = es"
proof -
  have "takeWhile (\<lambda>x. x \<noteq> CHR '':'') (rev (zs @ CHR '':'' # fs)) = rev fs" if "CHR '':'' \<notin> set fs" for zs fs
    using that by (simp add: takeWhile_tail takeWhile_append2) (metis takeWhile_eq_all_conv takeWhile_tail set_rev)
  with assms show ?thesis by (metis rev_rev_ident)
qed

lemma derived_at_one_moment:
  assumes "collision_free c"
    and "hashResetToken c (deriveResetToken c a) = hashResetToken c (deriveResetToken c b)"
  shows "rs_verifiedAt a = rs_verifiedAt b"
proof -
  let ?head = "\<lambda>r. ''reset-token:'' @ show_nat (rs_challengeId r) @ '':'' @ show_nat (rs_userId r) @ '':'' @ rs_codeHash r"
  let ?message = "\<lambda>r. ?head r @ CHR '':'' # show_int (rs_verifiedAt r)"
  have derived: "hashResetToken c (deriveResetToken c r) = (\<lambda>m. cr_sha256_hex c (cr_hmac_base64url c m)) (?message r)" for r
    by (simp add: hashResetToken_def deriveResetToken_def)
  have "?message a = ?message b"
    using assms(2) unfolding derived by (rule injD [OF assms(1) [unfolded collision_free_def]])
  then have "show_int (rs_verifiedAt a) = show_int (rs_verifiedAt b)"
    by (rule after_last_colon) (rule show_int_no_colon)+
  then show ?thesis by (rule show_int_inject)
qed

text \<open>Once a token is gone and no code is accepted at its moment again, it stays gone.\<close>

lemma forgotten_change:
  assumes "challenges_change c {t. t \<noteq> rs_verifiedAt source} s s'" and "collision_free c"
    and "forgotten (hashResetToken c (deriveResetToken c source)) (challenges s)"
  shows "forgotten (hashResetToken c (deriveResetToken c source)) (challenges s')"
  using assms(1)
proof cases
  case (dropped f p)
  then show ?thesis using assms(3) by (simp add: forgotten_update)
next
  case (inserted f)
  then show ?thesis using assms(3) by (simp add: forgotten_insert)
next
  case (stored source' i expires)
  have "hashResetToken c (deriveResetToken c source') \<noteq> hashResetToken c (deriveResetToken c source)"
  proof
    assume "hashResetToken c (deriveResetToken c source') = hashResetToken c (deriveResetToken c source)"
    from derived_at_one_moment [OF assms(2) this] stored(1) show False by simp
  qed
  with stored(2) assms(3) show ?thesis by (rule store_token_forgotten)
qed

lemma challenges_change_ok:
  assumes "challenges_change c moments s s'" and "challenges_ok c (challenges s)"
  shows "challenges_ok c (challenges s')"
  using assms(1)
proof cases
  case (dropped f p)
  then show ?thesis using assms(2) by (simp add: challenges_ok_update)
next
  case (inserted f)
  then show ?thesis using assms(2) by (simp add: challenges_ok_insert)
next
  case (stored source i expires)
  from stored(2) assms(2) show ?thesis by (rule store_token_ok)
qed

section \<open>Credentials\<close>

text \<open>No account is lost, none changes its version, and a verified one keeps its password.\<close>

definition keeps_credentials :: "db \<Rightarrow> db \<Rightarrow> bool" where
  "keeps_credentials s s' \<longleftrightarrow> table_ok u_id (users s') \<and> (\<forall>w \<in> set (rows (users s)). \<exists>w' \<in> set (rows (users s')).
     u_id w' = u_id w \<and> u_auth_version w' = u_auth_version w \<and>
     (u_email_verified w \<longrightarrow> u_password w' = u_password w))"

lemma same_accounts: "table_ok u_id (users s) \<Longrightarrow> users s' = users s \<Longrightarrow> keeps_credentials s s'"
  by (auto simp: keeps_credentials_def)

lemma added_account:
  assumes "table_ok u_id (users s)" and "users s' = insert_auto f (users s)" and "\<And>i. u_id (f i) = i"
  shows "keeps_credentials s s'"
  using assms table_ok_insert_auto [of u_id "users s" f] by (auto simp: keeps_credentials_def)

lemma updated_account:
  assumes "table_ok u_id (users s)"
    and "users s' = (users s)\<lparr>rows := update_rows (\<lambda>u. u_id u = i) f (rows (users s))\<rparr>"
    and "\<And>w. u_id (f w) = u_id w \<and> u_auth_version (f w) = u_auth_version w"
    and "\<And>w. w \<in> set (rows (users s)) \<Longrightarrow> u_id w = i \<Longrightarrow> u_email_verified w \<Longrightarrow> u_password (f w) = u_password w"
  shows "keeps_credentials s s'"
proof -
  have "table_ok u_id (users s')" unfolding assms(2) using assms(1,3) by (intro table_ok_update) simp_all
  moreover have "\<exists>w' \<in> set (rows (users s')). u_id w' = u_id w \<and> u_auth_version w' = u_auth_version w \<and>
      (u_email_verified w \<longrightarrow> u_password w' = u_password w)" if "w \<in> set (rows (users s))" for w
    by (rule bexI [of _ "if u_id w = i then f w else w"])
      (use that assms(3,4) in \<open>auto simp: assms(2) set_update_rows\<close>)
  ultimately show ?thesis by (simp add: keeps_credentials_def)
qed

lemma initialize_users:
  assumes "initializeVerifiedUser now i s = Inr s'" and "table_ok u_id (users s)"
  shows "keeps_credentials s s'"
proof (cases "users s' = users s")
  case False
  with assms(1) have "users s' = (users s)\<lparr>rows := update_rows (\<lambda>u. u_id u = i)
      (\<lambda>u. u\<lparr>u_email_verified := True, u_updated_at := current_second now\<rparr>) (rows (users s))\<rparr>"
    by (auto simp: initializeVerifiedUser_def createDefaultCategories_def update_user_def and_then_eq_Inr Let_def
        split: if_splits)
  then show ?thesis by (rule updated_account [OF assms(2)]) simp_all
qed (simp add: same_accounts assms(2))

lemma refresh_users:
  assumes run: "updateUnverified_work bcrypt now i dto s = Inr s'" and ok: "table_ok u_id (users s)"
  shows "keeps_credentials s s'"
proof -
  from run obtain u where u: "find_user i s = Some u" "\<not> u_email_verified u"
    and s': "users s' = (users s)\<lparr>rows := update_rows (\<lambda>u. u_id u = i) (\<lambda>u. u\<lparr>u_name := cu_name dto,
        u_password := bcrypt (cu_password dto), u_updated_at := current_second now\<rparr>) (rows (users s))\<rparr>"
    by (auto simp: updateUnverified_work_def and_then_eq_Inr set_currency_def update_user_def result_iffs Let_def
        split: if_splits)
  from s' show ?thesis
  proof (rule updated_account [OF ok])
    fix w assume w: "w \<in> set (rows (users s))" "u_id w = i" "u_email_verified w"
    have "u \<in> set (rows (users s))" "u_id u = i" using u(1) unfolding find_user_def by (auto dest: find_row_Some)
    with w ok have "w = u" by (auto simp: table_ok_def intro: distinct_key_eq [of u_id])
    with u(2) w(3) show "u_password (w\<lparr>u_name := cu_name dto, u_password := bcrypt (cu_password dto),
        u_updated_at := current_second now\<rparr>) = u_password w" by simp
  qed simp
qed

text \<open>Only the completion of a password reset changes a version, or the password of a verified account.\<close>

lemma account_write_credentials:
  assumes "account_write c moments s s'" and ok: "table_ok u_id (users s)"
  obtains (kept) "keeps_credentials s s'"
  | (changed) bcrypt clk before token new where "complete c bcrypt clk before token new s = Inr ((), s')"
  using assms(1)
proof cases
  case (registered bcrypt same_text now dto u)
  then have "users s' = insert_auto (new_user bcrypt now dto) (users s)"
    by (auto simp: register_def and_then_eq_Inr createSpaceWithOwner_def insert_space_def insert_member_def
        insert_user_def Let_def split: if_splits)
  from added_account [OF ok this] show thesis by (intro kept) (simp add: new_user_def)
next
  case (refreshed bcrypt now i dto)
  then show thesis using ok by (intro kept refresh_users)
next
  case (confirmed now i)
  then show thesis using ok unfolding completeEmailVerification_def by (intro kept initialize_users)
next
  case (send_reserved clk code i ty r)
  then have "users s' = users s"
    by (auto simp: reserveSend_def and_then_eq_Inr update_code_def Let_def split: option.splits ResendDecision.splits)
  then show thesis using ok by (intro kept same_accounts)
next
  case (email_verified clk found code out)
  have quiet: "users (expire now i s) = users s" "users (incrementAttempts i s) = users s" for now i
    by (simp_all add: expire_def incrementAttempts_def update_code_def)
  from email_verified consider "users s' = users s"
    | t i where "users t = users s" "initializeVerifiedUser (clk 2) i t = Inr s'"
    by (auto simp: verifyEmail_work_def quiet and_then_eq_Inr Let_def split: if_splits) (metis quiet(1))
  then show thesis
  proof cases
    case 1
    then show thesis using ok by (intro kept same_accounts)
  next
    case 2
    then have "keeps_credentials t s'" using ok by (intro initialize_users) simp_all
    with 2(1) show thesis by (intro kept) (simp add: keeps_credentials_def)
  qed
next
  case (reset_requested same_text now code email h seen d)
  then have "users s' = users s"
    by (auto simp: reserveIn_def and_then_eq_Inr update_challenge_def Let_def split: option.splits if_splits)
  then show thesis using ok by (intro kept same_accounts)
next
  case (reset_verified same_text now email h code out')
  then have "users s' = users s"
    by (auto simp: verifyIn_def refuse_code_def accept_code_def store_token_def update_challenge_def and_then_eq_Inr
        Let_def split: option.splits if_splits)
  then show thesis using ok by (intro kept same_accounts)
next
  case (reset_completed bcrypt clk before token new x)
  then show thesis by (intro changed) simp
qed (use ok in \<open>auto intro!: kept same_accounts simp: markSent_def markFailed_def update_code_def deliver_def\<close>)

section \<open>Completing a reset\<close>

definition reset_ok :: "crypto \<Rightarrow> db \<Rightarrow> bool" where
  "reset_ok c s \<longleftrightarrow> table_ok u_id (users s) \<and> challenges_ok c (challenges s)"

lemma find_updated_user:
  assumes "\<And>w. u_id (f w) = u_id w"
  shows "find_user i (update_user j f s) = map_option (\<lambda>w. if u_id w = j then f w else w) (find_user i s)"
proof -
  have "find_row (\<lambda>w. u_id w = i) (map (\<lambda>w. if u_id w = j then f w else w) rs) =
      map_option (\<lambda>w. if u_id w = j then f w else w) (find_row (\<lambda>w. u_id w = i) rs)" for rs
    by (induction rs) (auto simp: assms)
  then show ?thesis by (simp add: find_user_def update_user_def update_rows_def)
qed

lemma find_user_challenges [simp]: "find_user i (update_challenge j f s) = find_user i s"
  by (simp add: find_user_def update_challenge_def)

lemma completeE:
  assumes "complete c bcrypt clk before token new s = Inr (x, s')"
  obtains u ch where "find_user (u_id u) s = Some u" and "find_challenge (ch_id ch) s = Some ch"
    and "ch_user_id ch = Some (u_id u)" and "ch_email_hash ch = hashEmail c (u_email u)"
    and "canComplete ch (hashResetToken c token) (clk 1)"
    and "s' = update_challenge (ch_id ch) (completed (clk 1))
      (update_user (u_id u) (new_password (clk 1) (bcrypt new) (u_auth_version u + 1)) s)"
proof -
  from assms obtain i j u ch where u: "find_user i s = Some u" and ch: "find_challenge j s = Some ch"
    and rest: "ch_user_id ch = Some (u_id u)" "ch_email_hash ch = hashEmail c (u_email u)"
      "canComplete ch (hashResetToken c token) (clk 1)"
      "s' = update_challenge (ch_id ch) (completed (clk 1))
        (update_user (u_id u) (new_password (clk 1) (bcrypt new) (u_auth_version u + 1)) s)"
    by (auto simp: complete_def Let_def split: option.splits if_splits)
  have "u_id u = i" "ch_id ch = j"
    using u ch unfolding find_user_def find_challenge_def by (auto dest: find_row_Some)
  with u ch rest show thesis using that [of u ch] by simp
qed

text \<open>The token of a challenge that has no row any more is refused, whatever was looked up before.\<close>

lemma forgotten_refused:
  assumes "forgotten (hashResetToken c token) (challenges s)"
  shows "complete c bcrypt clk before token new s = Inl authorizationInvalid"
proof -
  have "\<not> canComplete ch (hashResetToken c token) now" if "find_challenge i s = Some ch" for i ch now
    using find_row_Some [OF that [unfolded find_challenge_def]] assms by (auto simp: canComplete_def forgotten_def)
  then show ?thesis by (auto simp: complete_def Let_def split: option.splits)
qed

text \<open>What a completion leaves of the challenge and of the account.\<close>

lemma completed_forgets:
  assumes ok: "challenges_ok c (challenges s)" and ch: "ch \<in> set (rows (challenges s))"
    and "ch_reset_token_hash ch = Some th"
    and s': "challenges s' = challenges (update_challenge (ch_id ch) (completed now) s)"
  shows "forgotten th (challenges s')"
  unfolding forgotten_def
proof
  fix x assume "x \<in> set (rows (challenges s'))"
  then obtain y where y: "y \<in> set (rows (challenges s))" "x = (if ch_id y = ch_id ch then completed now y else y)"
    by (auto simp: s' update_challenge_def set_update_rows)
  show "ch_reset_token_hash x \<noteq> Some th"
  proof
    assume th: "ch_reset_token_hash x = Some th"
    then have "ch_reset_token_hash y = Some th" and other: "ch_id y \<noteq> ch_id ch"
      using y(2) by (auto simp: completed_def split: if_splits)
    with ok y(1) ch assms(3) have "y = ch" unfolding challenges_ok_def by blast
    with other show False by simp
  qed
qed

lemma completed_accounts:
  assumes dist: "distinct (map u_id (rows (users s)))" and u: "find_user (u_id u) s = Some u"
    and s': "users s' = users (update_user (u_id u) (new_password now p (u_auth_version u + 1)) s)"
  shows "rows (users s') = map (\<lambda>w. if w = u then new_password now p (u_auth_version u + 1) w else w) (rows (users s))"
    and "findAuthVersion i s' = (if i = u_id u then Some (u_auth_version u + 1) else findAuthVersion i s)"
proof -
  let ?f = "new_password now p (u_auth_version u + 1)"
  have in_u: "u \<in> set (rows (users s))" using find_row_Some [OF u [unfolded find_user_def]] by blast
  have "rows (users s') = map (\<lambda>w. if u_id w = u_id u then ?f w else w) (rows (users s))"
    by (simp add: s' update_user_def update_rows_def)
  also have "\<dots> = map (\<lambda>w. if w = u then ?f w else w) (rows (users s))"
    using distinct_key_eq [OF dist _ in_u] by (auto intro!: map_cong)
  finally show "rows (users s') = map (\<lambda>w. if w = u then ?f w else w) (rows (users s))" .
  have found: "find_user i s' = map_option (\<lambda>w. if u_id w = u_id u then ?f w else w) (find_user i s)"
    using find_updated_user [of ?f i "u_id u" s] by (simp add: s' find_user_def new_password_def)
  have "find_user i s' = (if i = u_id u then Some (?f u) else find_user i s)"
  proof (cases "find_user i s")
    case None
    with found u show ?thesis by auto
  next
    case (Some w)
    then have "u_id w = i" using find_row_Some [OF Some [unfolded find_user_def]] by blast
    with found u Some show ?thesis by (cases "i = u_id u") simp_all
  qed
  then show "findAuthVersion i s' = (if i = u_id u then Some (u_auth_version u + 1) else findAuthVersion i s)"
    by (simp add: findAuthVersion_def new_password_def)
qed

section \<open>Every state after\<close>

text \<open>Accounts stay and their versions never go down.\<close>

definition versions_grow :: "db \<Rightarrow> db \<Rightarrow> bool" where
  "versions_grow s s' \<longleftrightarrow> (\<forall>w \<in> set (rows (users s)). \<exists>w' \<in> set (rows (users s')).
     u_id w' = u_id w \<and> u_auth_version w \<le> u_auth_version w')"

lemma versions_grow_trans:
  assumes "versions_grow s t" and "versions_grow t s'"
  shows "versions_grow s s'"
  unfolding versions_grow_def
proof
  fix w assume "w \<in> set (rows (users s))"
  with assms(1) obtain x where x: "x \<in> set (rows (users t))" "u_id x = u_id w" "u_auth_version w \<le> u_auth_version x"
    unfolding versions_grow_def by blast
  with assms(2) obtain y where "y \<in> set (rows (users s'))" "u_id y = u_id x" "u_auth_version x \<le> u_auth_version y"
    unfolding versions_grow_def by blast
  with x show "\<exists>y \<in> set (rows (users s')). u_id y = u_id w \<and> u_auth_version w \<le> u_auth_version y" by force
qed

text \<open>An access token of an older version is refused from then on.\<close>

lemma sessions_ended:
  assumes "table_ok u_id (users s2)" and "versions_grow s' s2" and "w \<in> set (rows (users s'))"
    and "findAuthVersion (u_id w) s = Some n" and "n < u_auth_version w"
    and "validate (u_id w, v) s = Inr (u_id w)"
  shows "validate (u_id w, v) s2 = Inl UnauthorizedException"
proof -
  obtain x where x: "x \<in> set (rows (users s2))" "u_id x = u_id w" "u_auth_version w \<le> u_auth_version x"
    using assms(2,3) unfolding versions_grow_def by blast
  have "find_user (u_id w) s2 = Some x"
    using find_row_key [of u_id "rows (users s2)" x] assms(1) x(1,2) by (simp add: find_user_def table_ok_def)
  with assms(4-6) x(3) show ?thesis by (auto simp: validate_def findAuthVersion_def split: if_splits)
qed

lemma complete_users:
  assumes "complete c bcrypt clk before token new s = Inr (x, s')" and ok: "table_ok u_id (users s)"
  shows "table_ok u_id (users s') \<and> versions_grow s s'"
proof -
  obtain u ch where u: "find_user (u_id u) s = Some u" and "find_challenge (ch_id ch) s = Some ch"
    and "ch_user_id ch = Some (u_id u)" and "ch_email_hash ch = hashEmail c (u_email u)"
    and "canComplete ch (hashResetToken c token) (clk 1)"
    and s': "s' = update_challenge (ch_id ch) (completed (clk 1))
      (update_user (u_id u) (new_password (clk 1) (bcrypt new) (u_auth_version u + 1)) s)"
    using completeE [OF assms(1)] .
  let ?f = "new_password (clk 1) (bcrypt new) (u_auth_version u + 1)"
  have users: "users s' = (users s)\<lparr>rows := update_rows (\<lambda>w. u_id w = u_id u) ?f (rows (users s))\<rparr>"
    by (simp add: s' update_challenge_def update_user_def)
  have "table_ok u_id (users s')" unfolding users using ok by (intro table_ok_update) (simp_all add: new_password_def)
  moreover have "rows (users s') = map (\<lambda>w. if w = u then ?f w else w) (rows (users s))"
    using ok users by (intro completed_accounts(1) [OF _ u]) (simp_all add: table_ok_def update_user_def)
  then have "versions_grow s s'"
    unfolding versions_grow_def by (intro ballI, rule_tac x = "if w = u then ?f w else w" in bexI)
      (auto simp: new_password_def)
  ultimately show ?thesis ..
qed

lemma account_write_ok:
  assumes "account_write c moments s s'" and "reset_ok c s"
  shows "reset_ok c s' \<and> versions_grow s s'"
proof -
  have ok: "table_ok u_id (users s)" "challenges_ok c (challenges s)" using assms(2) by (simp_all add: reset_ok_def)
  have "challenges_ok c (challenges s')"
    using account_write_challenges [OF assms(1)] ok(2) by (rule challenges_change_ok)
  moreover have "table_ok u_id (users s') \<and> versions_grow s s'"
    using assms(1) ok(1)
  proof (cases rule: account_write_credentials)
    case kept
    then show ?thesis by (auto simp: keeps_credentials_def versions_grow_def) (metis order_refl)
  next
    case (changed bcrypt clk before token new)
    then show ?thesis using ok(1) by (rule complete_users)
  qed
  ultimately show ?thesis by (simp add: reset_ok_def)
qed

lemma later_states:
  assumes "(account_write c {t. t \<noteq> rs_verifiedAt source})\<^sup>*\<^sup>* s s'" and "collision_free c" and "reset_ok c s"
    and "forgotten (hashResetToken c (deriveResetToken c source)) (challenges s)"
  shows "reset_ok c s' \<and> versions_grow s s' \<and> forgotten (hashResetToken c (deriveResetToken c source)) (challenges s')"
  using assms(1)
proof (induction rule: rtranclp_induct)
  case base
  show ?case using assms(3,4) by (auto simp: versions_grow_def)
next
  case (step t s')
  then show ?case
    using account_write_ok [OF step.hyps(2)] forgotten_change [OF account_write_challenges [OF step.hyps(2)] assms(2)]
      versions_grow_trans by blast
qed

end
