(* ===== verification/AccountProperties.thy ===== *)
theory AccountProperties
  imports ResetLife
begin

text \<open>
  The properties of password resets: what they tell about accounts, and how often an authorization
  works.
\<close>

section \<open>What a challenge shows\<close>

text \<open>The fields that depend on the account, which no rule reads, are left out.\<close>

definition public :: "password_reset_challenge \<Rightarrow> password_reset_challenge" where
  "public ch = ch\<lparr>ch_user_id := None, ch_code_hash := None, ch_send_status := None, ch_last_sent_at := None\<rparr>"

definition look_alike :: "db \<Rightarrow> db \<Rightarrow> bool" where
  "look_alike s s' \<longleftrightarrow> map public (rows (challenges s)) = map public (rows (challenges s')) \<and>
     next_id (challenges s) = next_id (challenges s')"

lemma public_simps [simp]:
  "ch_id (public ch) = ch_id ch" "ch_email_hash (public ch) = ch_email_hash ch"
  "challengeState (public ch) now = challengeState ch now" "currentWindow (public ch) now = currentWindow ch now"
  "requestRetryAfter (public ch) now = requestRetryAfter ch now" "verifyRetryAfter (public ch) now = verifyRetryAfter ch now"
  "ch_send_attempt_id (public ch) = ch_send_attempt_id ch" "ch_attempts (public ch) = ch_attempts ch"
  by (simp_all add: public_def challengeState_def currentWindow_def requestRetryAfter_def verifyRetryAfter_def)

lemma same_public:
  assumes "public ch = public ch'"
  shows "ch_id ch = ch_id ch'" "challengeState ch now = challengeState ch' now" "currentWindow ch now = currentWindow ch' now"
    "requestRetryAfter ch now = requestRetryAfter ch' now" "verifyRetryAfter ch now = verifyRetryAfter ch' now"
    "ch_send_attempt_id ch = ch_send_attempt_id ch'" "ch_attempts ch = ch_attempts ch'"
  using public_simps assms by metis+

lemma public_writes:
  "public (request_fields now account codeHash w a ch) = request_fields now None None w a (public ch)"
  "public (restart_fields now ch) = restart_fields now (public ch)"
  "public (wrong_code n w ch) = wrong_code n w (public ch)"
  "public (blank_challenge h i) = blank_challenge h i"
  by (simp_all add: public_def request_fields_def restart_fields_def wrong_code_def blank_challenge_def Let_def)

lemma found_public: "map_option public (lockChallenge h s) = find_row (\<lambda>ch. ch_email_hash ch = h) (map public (rows (challenges s)))"
proof -
  have "map_option public (find_row p rs) = find_row p (map public rs)"
    if "\<And>x. p (public x) = p x" for p rs
    by (induction rs) (simp_all add: that)
  then show ?thesis by (simp add: lockChallenge_def)
qed

lemma look_alike_found:
  assumes "look_alike s s'"
  shows "map_option public (lockChallenge h s) = map_option public (lockChallenge h s')"
  using assms by (simp add: found_public look_alike_def)

lemma look_alike_Some:
  assumes "look_alike s s'" and "lockChallenge h s = Some ch"
  obtains ch' where "lockChallenge h s' = Some ch'" and "public ch = public ch'"
  using look_alike_found [OF assms(1), of h] assms(2) by (cases "lockChallenge h s'") auto

lemma look_alike_update:
  assumes "look_alike s s'" and "\<And>ch. public (f ch) = g (public ch)" and "\<And>ch. public (f' ch) = g (public ch)"
  shows "look_alike (update_challenge i f s) (update_challenge i f' s')"
proof -
  have "map public (update_rows (\<lambda>ch. ch_id ch = i) f rs) = update_rows (\<lambda>ch. ch_id ch = i) g (map public rs)"
    if "\<And>ch. public (f ch) = g (public ch)" for f rs
    by (simp add: update_rows_def that)
  with assms show ?thesis by (simp add: look_alike_def update_challenge_def)
qed

section \<open>Requests and wrong codes\<close>

datatype reset_event = Ask int string string | Try int string string

text \<open>
  What somebody is answered who asks for codes (the server draws \<open>code\<close>) and tries codes, at any times
  and for any addresses.
\<close>

fun answers :: "crypto \<Rightarrow> (string \<Rightarrow> string \<Rightarrow> bool) \<Rightarrow> reset_event list \<Rightarrow> db \<Rightarrow>
    (exception + PasswordResetRequested + PasswordResetAuthorization) list" where
  "answers c same_text [] s = []"
| "answers c same_text (Ask now code email # es) s =
     (case request c same_text (\<lambda>_. now) (\<lambda>_. code) email (\<lambda>_. s) (\<lambda>_. s) of
        Inl e \<Rightarrow> Inl e # answers c same_text es s
      | Inr ((r, _), s') \<Rightarrow> Inr (Inl r) # answers c same_text es s')"
| "answers c same_text (Try now email code # es) s =
     (case verify c same_text now email code s of
        (Inl e, s') \<Rightarrow> Inl e # answers c same_text es s'
      | (Inr a, s') \<Rightarrow> Inr (Inr a) # answers c same_text es s')"

text \<open>No code that is tried is the one of a challenge then.\<close>

definition wrong :: "crypto \<Rightarrow> string \<Rightarrow> string \<Rightarrow> db \<Rightarrow> bool" where
  "wrong c email code s \<longleftrightarrow>
     list_all (\<lambda>ch. ch_code_hash ch \<noteq> Some (hashCode c (hashEmail c email) code)) (rows (challenges s))"

fun only_wrong :: "crypto \<Rightarrow> (string \<Rightarrow> string \<Rightarrow> bool) \<Rightarrow> reset_event list \<Rightarrow> db \<Rightarrow> bool" where
  "only_wrong c same_text [] s = True"
| "only_wrong c same_text (Ask now code email # es) s =
     (case request c same_text (\<lambda>_. now) (\<lambda>_. code) email (\<lambda>_. s) (\<lambda>_. s) of
        Inl e \<Rightarrow> only_wrong c same_text es s
      | Inr (_, s') \<Rightarrow> only_wrong c same_text es s')"
| "only_wrong c same_text (Try now email code # es) s =
     (wrong c email code s \<and> only_wrong c same_text es (snd (verify c same_text now email code s)))"

lemma look_alike_insert:
  assumes "look_alike s s'" and "\<And>i. public (f i) = public (f' i)"
  shows "look_alike (s\<lparr>challenges := insert_auto f (challenges s)\<rparr>) (s'\<lparr>challenges := insert_auto f' (challenges s')\<rparr>)"
  using assms by (simp add: look_alike_def)

lemma reserve_alike:
  assumes "look_alike s s'"
  shows "(\<exists>n. reserveIn c same_text now code email h s s = Inl (RetryAfterException PASSWORD_RESET_RATE_LIMITED n) \<and>
      reserveIn c same_text now code email h s' s' = Inl (RetryAfterException PASSWORD_RESET_RATE_LIMITED n)) \<or>
    (\<exists>d t d' t'. reserveIn c same_text now code email h s s = Inr (d, t) \<and>
      reserveIn c same_text now code email h s' s' = Inr (d', t') \<and> look_alike t t')"
proof (cases "lockChallenge h s")
  case None
  with look_alike_found [OF assms, of h] have none: "lockChallenge h s' = None" by simp
  let ?f = "\<lambda>s i. restart_fields now (request_fields now (lockAccount c same_text email h s)
    (if lockAccount c same_text email h s = None then None else Some (hashCode c h code))
    \<lparr>wf_started_at = now, wf_requests = 0, wf_failed_attempts = 0\<rparr> 1 (blank_challenge h i))"
  have "look_alike (s\<lparr>challenges := insert_auto (?f s) (challenges s)\<rparr>) (s'\<lparr>challenges := insert_auto (?f s') (challenges s')\<rparr>)"
    by (rule look_alike_insert [OF assms]) (simp add: public_writes)
  with None none show ?thesis by (intro disjI2) (simp add: reserveIn_def Let_def)
next
  case (Some ch)
  then obtain ch' where ch': "lockChallenge h s' = Some ch'" "public ch = public ch'" by (rule look_alike_Some [OF assms])
  note same = same_public [OF ch'(2)]
  show ?thesis
  proof (cases "requestRetryAfter ch now")
    case (Some n)
    with \<open>lockChallenge h s = Some ch\<close> ch' same(4) show ?thesis by (intro disjI1) (simp add: reserveIn_def Let_def)
  next
    case None
    let ?g = "\<lambda>x. (if challengeState ch now = CODE_PENDING then (\<lambda>x. x) else restart_fields now)
      (request_fields now None None (currentWindow ch now) (ch_send_attempt_id ch + 1) x)"
    let ?f = "\<lambda>s x. (if challengeState ch now = CODE_PENDING then (\<lambda>x. x) else restart_fields now)
      (request_fields now (lockAccount c same_text email h s)
        (if lockAccount c same_text email h s = None then None else Some (hashCode c h code))
        (currentWindow ch now) (ch_send_attempt_id ch + 1) x)"
    have "look_alike (update_challenge (ch_id ch) (?f s) s) (update_challenge (ch_id ch) (?f s') s')"
      by (rule look_alike_update [OF assms, where g = ?g]) (simp_all add: public_writes)
    with None \<open>lockChallenge h s = Some ch\<close> ch' same show ?thesis by (intro disjI2) (simp add: reserveIn_def Let_def)
  qed
qed

lemma request_alike:
  assumes "look_alike s s'"
  shows "(\<exists>e. request c same_text (\<lambda>_. now) (\<lambda>_. code) email (\<lambda>_. s) (\<lambda>_. s) = Inl e \<and>
      request c same_text (\<lambda>_. now) (\<lambda>_. code) email (\<lambda>_. s') (\<lambda>_. s') = Inl e) \<or>
    (\<exists>r d t d' t'. request c same_text (\<lambda>_. now) (\<lambda>_. code) email (\<lambda>_. s) (\<lambda>_. s) = Inr ((r, d), t) \<and>
      request c same_text (\<lambda>_. now) (\<lambda>_. code) email (\<lambda>_. s') (\<lambda>_. s') = Inr ((r, d'), t') \<and> look_alike t t')"
  using reserve_alike [OF assms, of c same_text now code email "hashEmail c email"]
  by (auto simp: request_def reserve_def Let_def)

lemma refuse_alike:
  assumes "look_alike s s'" and "public ch = public ch'"
  shows "\<exists>e t t'. refuse_code now ch s = (Inl e, t) \<and> refuse_code now ch' s' = (Inl e, t') \<and> look_alike t t'"
proof -
  note same = same_public [OF assms(2)]
  let ?f = "wrong_code (ch_attempts ch + 1) (currentWindow ch now)"
  have "look_alike (update_challenge (ch_id ch) ?f s) (update_challenge (ch_id ch) ?f s')"
    by (rule look_alike_update [OF assms(1), where g = ?f]) (simp_all add: public_writes)
  with same show ?thesis by (simp add: refuse_code_def Let_def)
qed

text \<open>A code that no challenge has is refused.\<close>

lemma verify_wrong:
  assumes "wrong c email code s"
  shows "verify c same_text now email code s = (case lockChallenge (hashEmail c email) s of
      None \<Rightarrow> (Inl (api_error PASSWORD_RESET_CODE_UNUSABLE BAD_REQUEST), s)
    | Some ch \<Rightarrow> (case verifyRetryAfter ch now of
        Some n \<Rightarrow> (Inl (RetryAfterException PASSWORD_RESET_RATE_LIMITED n), s)
      | None \<Rightarrow> if challengeState ch now = ENDED then (Inl (api_error PASSWORD_RESET_CODE_UNUSABLE BAD_REQUEST), s)
          else refuse_code now ch s))"
proof (cases "lockChallenge (hashEmail c email) s")
  case (Some ch)
  then have "ch \<in> set (rows (challenges s))" unfolding lockChallenge_def by (drule_tac find_row_Some) simp
  with assms have "ch_code_hash ch \<noteq> Some (hashCode c (hashEmail c email) code)" by (auto simp: wrong_def list_all_iff)
  with Some show ?thesis
    by (auto simp: verify_def verifyIn_def constantTimeEquals_def refuse_code_def Let_def split: option.splits if_splits)
qed (simp add: verify_def verifyIn_def)

lemma verify_alike:
  assumes "look_alike s s'" and "wrong c email code s" and "wrong c email code s'"
  shows "\<exists>e t t'. verify c same_text now email code s = (Inl e, t) \<and> verify c same_text now email code s' = (Inl e, t') \<and>
    look_alike t t'"
proof (cases "lockChallenge (hashEmail c email) s")
  case None
  with look_alike_found [OF assms(1), of "hashEmail c email"] have "lockChallenge (hashEmail c email) s' = None" by simp
  with None assms show ?thesis by (simp add: verify_wrong)
next
  case (Some ch)
  then obtain ch' where ch': "lockChallenge (hashEmail c email) s' = Some ch'" "public ch = public ch'"
    by (rule look_alike_Some [OF assms(1)])
  from Some ch' same_public [OF ch'(2)] assms refuse_alike [OF assms(1) ch'(2), of now] show ?thesis
    by (auto simp: verify_wrong split: option.split)
qed

text \<open>C11. Asking for codes and trying wrong ones, at any times and for any addresses, is answered alike
  whichever accounts exist: from states that differ in the users and in what depends on them, the
  answers are the same.\<close>

theorem reset_hides_accounts:
  assumes "look_alike s s'" and "only_wrong c same_text es s" and "only_wrong c same_text es s'"
  shows "answers c same_text es s = answers c same_text es s'"
  using assms
proof (induction es arbitrary: s s')
  case (Cons e es)
  show ?case
  proof (cases e)
    case (Ask now code email)
    with Cons.prems Cons.IH request_alike [OF Cons.prems(1), of c same_text now code email] show ?thesis
      by auto
  next
    case (Try now email code)
    with Cons.prems have "wrong c email code s" "wrong c email code s'" by simp_all
    with Try Cons.prems Cons.IH verify_alike [OF Cons.prems(1), of c email code same_text now] show ?thesis
      by auto
  qed
qed simp

definition ex_crypto :: crypto where
  "ex_crypto = \<lparr>cr_hmac_hex = (\<lambda>s. s), cr_hmac_base64url = (\<lambda>s. s), cr_sha256_hex = (\<lambda>s. s)\<rparr>"

definition ex_account :: "nat \<Rightarrow> string \<Rightarrow> user" where
  "ex_account i email = \<lparr>u_id = i, u_email = email, u_name = ''N'', u_password = ''p'', u_email_verified = True,
     u_auth_version = 1, u_created_at = 0, u_updated_at = 0\<rparr>"

definition ex_accounts :: db where
  "ex_accounts = empty_db\<lparr>users := \<lparr>rows = [ex_account 1 ''a'', ex_account 2 ''b''], next_id = 3\<rparr>\<rparr>"

lemma ex_email [simp]: "to_lower (trim ''a'') = ''a''"
  by code_simp

lemma reset_hides_accounts_witness:
  "answers ex_crypto (=) [Ask 0 ''1'' ''a'', Try 5 ''a'' ''2''] ex_accounts =
   answers ex_crypto (=) [Ask 0 ''1'' ''a'', Try 5 ''a'' ''2''] empty_db"
proof (rule reset_hides_accounts)
  show "look_alike ex_accounts empty_db" by (simp add: look_alike_def ex_accounts_def)
  show "only_wrong ex_crypto (=) [Ask 0 ''1'' ''a'', Try 5 ''a'' ''2''] ex_accounts"
    and "only_wrong ex_crypto (=) [Ask 0 ''1'' ''a'', Try 5 ''a'' ''2''] empty_db"
    by (simp_all add: request_def reserve_def reserveIn_def lockChallenge_def lockAccount_def findByEmail_def wrong_def
        request_fields_def restart_fields_def blank_challenge_def hashEmail_def hashCode_def ex_accounts_def ex_account_def
        ex_crypto_def empty_db_def empty_table_def Let_def)
qed

section \<open>An authorization works once\<close>

text \<open>C10. The password of a verified account changes only when a password reset is completed, whatever else
  is written. A completion needs the token of a verified challenge that is bound to this account and
  address, and changes this account's password alone. It ends the account's sessions and nobody else's,
  and for good: after any later writes, new requests, codes and resets for the account included, the
  access tokens from before and the reset token are still refused, whatever a retry has looked up
  before. Later codes are accepted at another moment than the one this token was derived from, and the
  hash functions do not collide.\<close>

theorem reset_completes_once:
  assumes "reset_ok c s" and "collision_free c"
  shows "(account_write c moments s s1 \<and> w \<in> set (rows (users s)) \<and> u_email_verified w \<and>
      w1 \<in> set (rows (users s1)) \<and> u_id w1 = u_id w \<and> u_password w1 \<noteq> u_password w \<longrightarrow>
      (\<exists>bcrypt clk before token new. complete c bcrypt clk before token new s = Inr ((), s1))) \<and>
    (complete c bcrypt clk before token new s = Inr (x, s') \<longrightarrow>
      (\<exists>u ch v. u \<in> set (rows (users s)) \<and> ch \<in> set (rows (challenges s)) \<and> ch_user_id ch = Some (u_id u) \<and>
        ch_email_hash ch = hashEmail c (u_email u) \<and> ch_reset_token_hash ch = Some (hashResetToken c token) \<and>
        challengeState ch (clk 1) = CODE_VERIFIED \<and> ch_verified_at ch = Some v \<and>
        rows (users s') = map (\<lambda>w. if w = u then w\<lparr>u_password := bcrypt new, u_auth_version := u_auth_version u + 1,
          u_updated_at := current_second (clk 1)\<rparr> else w) (rows (users s)) \<and>
        (\<forall>i n. i \<noteq> u_id u \<longrightarrow> validate (i, n) s' = validate (i, n) s) \<and>
        (\<forall>s2. (account_write c {t. t \<noteq> v})\<^sup>*\<^sup>* s' s2 \<longrightarrow>
          (\<forall>n. validate (u_id u, n) s = Inr (u_id u) \<longrightarrow> validate (u_id u, n) s2 = Inl UnauthorizedException) \<and>
          (\<forall>bcrypt' clk' before' new'. complete c bcrypt' clk' before' token new' s2 = Inl authorizationInvalid))))"
    (is "_ \<and> (_ \<longrightarrow> ?completed)")
proof (intro conjI impI)
  assume step: "account_write c moments s s1 \<and> w \<in> set (rows (users s)) \<and> u_email_verified w \<and>
      w1 \<in> set (rows (users s1)) \<and> u_id w1 = u_id w \<and> u_password w1 \<noteq> u_password w"
  have "table_ok u_id (users s)" using assms(1) by (simp add: reset_ok_def)
  with step [THEN conjunct1] show "\<exists>bcrypt clk before token new. complete c bcrypt clk before token new s = Inr ((), s1)"
  proof (cases rule: account_write_credentials)
    case kept
    with step obtain w' where "w' \<in> set (rows (users s1))" "u_id w' = u_id w1" "u_password w' \<noteq> u_password w1"
      and "distinct (map u_id (rows (users s1)))" by (auto simp: keeps_credentials_def table_ok_def)
    with step distinct_key_eq [of u_id "rows (users s1)" w' w1] show ?thesis by blast
  qed blast
next
  assume run: "complete c bcrypt clk before token new s = Inr (x, s')"
  have dist: "distinct (map u_id (rows (users s)))" and ok: "challenges_ok c (challenges s)"
    using assms(1) by (simp_all add: reset_ok_def table_ok_def)
  obtain u ch where u: "find_user (u_id u) s = Some u" and ch: "find_challenge (ch_id ch) s = Some ch"
    and bound: "ch_user_id ch = Some (u_id u)" "ch_email_hash ch = hashEmail c (u_email u)"
    and valid: "canComplete ch (hashResetToken c token) (clk 1)"
    and s': "s' = update_challenge (ch_id ch) (completed (clk 1))
      (update_user (u_id u) (new_password (clk 1) (bcrypt new) (u_auth_version u + 1)) s)"
    using completeE [OF run] .
  have in_u: "u \<in> set (rows (users s))" and in_ch: "ch \<in> set (rows (challenges s))"
    using u ch unfolding find_user_def find_challenge_def by (auto dest: find_row_Some)
  have token: "ch_reset_token_hash ch = Some (hashResetToken c token)" "challengeState ch (clk 1) = CODE_VERIFIED"
    using valid by (simp_all add: canComplete_def)
  obtain source where source: "ch_verified_at ch = Some (rs_verifiedAt source)"
      "hashResetToken c token = hashResetToken c (deriveResetToken c source)"
    using ok in_ch token(1) unfolding challenges_ok_def by blast
  have changed: "users s' = users (update_user (u_id u) (new_password (clk 1) (bcrypt new) (u_auth_version u + 1)) s)"
    "challenges s' = challenges (update_challenge (ch_id ch) (completed (clk 1)) s)"
    by (simp_all add: s' update_challenge_def update_user_def)
  note accounts = completed_accounts [OF dist u changed(1)]
  have "reset_ok c s'"
    using account_write_ok [OF account_write.reset_completed [OF run] assms(1)] ..
  moreover have gone: "forgotten (hashResetToken c (deriveResetToken c source)) (challenges s')"
    using completed_forgets [OF ok in_ch token(1) changed(2)] by (simp add: source(2))
  ultimately have later: "reset_ok c s2 \<and> versions_grow s' s2 \<and> forgotten (hashResetToken c token) (challenges s2)"
    if "(account_write c {t. t \<noteq> rs_verifiedAt source})\<^sup>*\<^sup>* s' s2" for s2
    using later_states [OF that assms(2)] by (simp add: source(2))
  let ?new = "new_password (clk 1) (bcrypt new) (u_auth_version u + 1) u"
  have new: "?new \<in> set (rows (users s'))" "u_id ?new = u_id u" "u_auth_version ?new = u_auth_version u + 1"
    using in_u by (auto simp: accounts(1) image_iff) (simp_all add: new_password_def)
  have ended: "validate (u_id u, n) s2 = Inl UnauthorizedException"
    if "(account_write c {t. t \<noteq> rs_verifiedAt source})\<^sup>*\<^sup>* s' s2" "validate (u_id u, n) s = Inr (u_id u)" for s2 n
    using sessions_ended [where s = s and n = "u_auth_version u", OF _ _ new(1)] later [OF that(1)] that(2) u new(2,3)
    by (simp add: reset_ok_def findAuthVersion_def)
  have refused: "complete c bcrypt' clk' before' token new' s2 = Inl authorizationInvalid"
    if "(account_write c {t. t \<noteq> rs_verifiedAt source})\<^sup>*\<^sup>* s' s2" for s2 bcrypt' clk' before' new'
    using later [OF that] by (intro forgotten_refused) blast
  have others: "validate (i, n) s' = validate (i, n) s" if "i \<noteq> u_id u" for i n
    using that by (simp add: validate_def accounts(2))
  show ?completed
    using in_u in_ch bound token source(1) accounts(1) others ended refused
    by (intro exI [of _ u] exI [of _ ch] exI [of _ "rs_verifiedAt source"]) (simp add: new_password_def)
qed

definition ex_source :: ResetTokenSource where
  "ex_source = \<lparr>rs_challengeId = 1, rs_userId = 1, rs_codeHash = ''h'', rs_verifiedAt = 50\<rparr>"

definition ex_token :: string where
  "ex_token = deriveResetToken ex_crypto ex_source"

definition ex_verified :: db where
  "ex_verified = ex_accounts\<lparr>challenges := \<lparr>rows = [(blank_challenge ''email:a'' 1)\<lparr>ch_user_id := Some 1,
     ch_verified_at := Some 50, ch_reset_token_hash := Some ex_token, ch_reset_token_expires_at := Some 600000\<rparr>],
     next_id = 2\<rparr>\<rparr>"

definition ex_completed :: db where
  "ex_completed = update_challenge 1 (completed 100) (update_user 1 (new_password 100 ''wen'' 2) ex_verified)"

lemma ex_completes: "complete ex_crypto rev (\<lambda>_. 100) ex_verified ex_token ''new'' ex_verified = Inr ((), ex_completed)"
  by (simp add: complete_def canComplete_def challengeState_def hashResetToken_def find_user_def find_challenge_def hashEmail_def
      ex_completed_def ex_verified_def ex_accounts_def ex_account_def ex_crypto_def blank_challenge_def
      PASSWORD_RESET_MAX_CODE_ATTEMPTS_def empty_db_def empty_table_def Let_def numeral_2_eq_2)

text \<open>After it, another code is requested for the account.\<close>

lemma ex_asks_again:
  "\<exists>d s. reserveIn ex_crypto (=) 4000000 ''2'' ''a'' ''email:a'' ex_completed ex_completed = Inr (d, s)"
proof -
  have ch: "lockChallenge ''email:a'' ex_completed = Some ((blank_challenge ''email:a'' 1)\<lparr>ch_user_id := Some 1,
     ch_verified_at := Some 50, ch_reset_token_hash := None, ch_reset_token_expires_at := Some 600000,
     ch_completed_at := Some 100, ch_code_hash := None\<rparr>)"
    by (simp add: lockChallenge_def ex_completed_def ex_verified_def update_challenge_def update_user_def update_rows_def
        completed_def blank_challenge_def ex_accounts_def)
  then have "case lockChallenge ''email:a'' ex_completed of None \<Rightarrow> False | Some ch \<Rightarrow> requestRetryAfter ch 4000000 = None"
    by (simp add: requestRetryAfter_def currentWindow_def blank_challenge_def PASSWORD_RESET_RESEND_COOLDOWN_MS_def
        PASSWORD_RESET_WINDOW_MS_def PASSWORD_RESET_WINDOW_MAX_REQUESTS_def Let_def)
  with ch show ?thesis by (simp add: reserveIn_def Let_def)
qed

lemma reset_completes_once_witness:
  "\<exists>d s. complete ex_crypto rev (\<lambda>_. 100) ex_verified ex_token ''new'' ex_verified = Inr ((), ex_completed) \<and>
    reserveIn ex_crypto (=) 4000000 ''2'' ''a'' ''email:a'' ex_completed ex_completed = Inr (d, s) \<and>
    complete ex_crypto rev (\<lambda>_. 4000100) ex_verified ex_token ''other'' s = Inl authorizationInvalid"
proof -
  obtain d s where again: "reserveIn ex_crypto (=) 4000000 ''2'' ''a'' ''email:a'' ex_completed ex_completed = Inr (d, s)"
    using ex_asks_again by blast
  have "hashResetToken ex_crypto ex_token = hashResetToken ex_crypto (deriveResetToken ex_crypto ex_source)"
    by (simp add: ex_token_def)
  then have "\<exists>source. 50 = rs_verifiedAt source \<and> ex_token = hashResetToken ex_crypto (deriveResetToken ex_crypto source)"
    by (intro exI [of _ ex_source]) (simp add: ex_source_def ex_token_def hashResetToken_def ex_crypto_def)
  then have "reset_ok ex_crypto ex_verified"
    by (simp add: reset_ok_def challenges_ok_def table_ok_def ex_verified_def ex_accounts_def ex_account_def blank_challenge_def)
  moreover have "collision_free ex_crypto" by (simp add: collision_free_def ex_crypto_def)
  ultimately obtain v where "\<forall>s2. (account_write ex_crypto {t. t \<noteq> v})\<^sup>*\<^sup>* ex_completed s2 \<longrightarrow>
      (\<forall>bcrypt clk before new. complete ex_crypto bcrypt clk before ex_token new s2 = Inl authorizationInvalid)"
    using reset_completes_once [THEN conjunct2, THEN mp, OF _ _ ex_completes] by blast
  moreover have "(account_write ex_crypto {t. t \<noteq> v})\<^sup>*\<^sup>* ex_completed s"
    using account_write.reset_requested [OF again] by (rule r_into_rtranclp)
  ultimately show ?thesis using again ex_completes by blast
qed

end
