(* ===== verification/StatisticsPeriods.thy ===== *)
theory StatisticsPeriods
  imports Feed
begin

text \<open>
  \<open>modules/statistics/statistics-calendar.ts\<close> and \<open>statistics-period.ts\<close>: which period a request
  asks for, the period it is compared with, and the intervals a trend cuts it into; with the request's
  DTO and \<open>shared/utils/local-dates.ts\<close>. The laws of the calendar that the code relies on are in
  \<open>calendar_laws\<close>.
\<close>

section \<open>The calendar\<close>

datatype CalendarUnit = Days | Weeks | Months | Years

datatype TimeState = Past | Current | Future

record DateRange =
  dr_start :: int
  dr_end :: int

text \<open>
  What luxon does with calendar dates, which are day numbers: \<open>cal_parse\<close> is \<open>fromISO\<close>, absent
  where the result is not valid, \<open>cal_startOf\<close> and \<open>cal_endOf\<close> are the first and the last day of
  the unit around a date, \<open>cal_plus unit date amount\<close> is \<open>plus\<close>, \<open>cal_toFormat\<close> prints with a
  format, and \<open>cal_plusInstant\<close> is \<open>plus\<close> on the wall clock of a zone.
\<close>

record unit_calendar = calendar +
  cal_parse :: "string \<Rightarrow> int option"
  cal_startOf :: "CalendarUnit \<Rightarrow> int \<Rightarrow> int"
  cal_endOf :: "CalendarUnit \<Rightarrow> int \<Rightarrow> int"
  cal_plus :: "CalendarUnit \<Rightarrow> int \<Rightarrow> int \<Rightarrow> int"
  cal_toFormat :: "string \<Rightarrow> int \<Rightarrow> string"
  cal_plusInstant :: "string \<Rightarrow> CalendarUnit \<Rightarrow> int \<Rightarrow> int \<Rightarrow> int"

fun KEY_FORMAT :: "CalendarUnit \<Rightarrow> string" where
  "KEY_FORMAT Days = ''yyyy-MM-dd''"
| "KEY_FORMAT Weeks = ''kkkk-'' @ [CHR 39] @ ''W'' @ [CHR 39] @ ''WW''"
| "KEY_FORMAT Months = ''yyyy-MM''"
| "KEY_FORMAT Years = ''yyyy''"

definition parseCalendarDate :: "unit_calendar \<Rightarrow> string \<Rightarrow> exception + int" where
  "parseCalendarDate cal value =
     need (cal_parse cal value) (JsError ''RangeError'' (''Not a calendar date: '' @ value))"

definition rangeOf :: "unit_calendar \<Rightarrow> CalendarUnit \<Rightarrow> int \<Rightarrow> DateRange" where
  "rangeOf cal unit date = \<lparr>dr_start = cal_startOf cal unit date, dr_end = cal_endOf cal unit date\<rparr>"

definition shift :: "unit_calendar \<Rightarrow> int \<Rightarrow> CalendarUnit \<Rightarrow> int \<Rightarrow> int" where
  "shift cal date unit amount = cal_plus cal unit date amount"

definition daysIn :: "DateRange \<Rightarrow> int" where
  "daysIn dates = dr_end dates - dr_start dates + 1"

text \<open>The loop of \<open>splitRange\<close> from one start on; it has no value where the loop does not end.\<close>

partial_function (option) split_from ::
  "unit_calendar \<Rightarrow> CalendarUnit \<Rightarrow> int \<Rightarrow> int \<Rightarrow> DateRange list option" where
  "split_from cal unit finish start =
     (if start \<le> finish then
        let end' = dr_end (rangeOf cal unit start);
            part = \<lparr>dr_start = start, dr_end = (if end' < finish then end' else finish)\<rparr> in
        Option.bind (split_from cal unit finish (shift cal (cal_startOf cal unit start) unit 1))
          (\<lambda>parts. Some (part # parts))
      else Some [])"

definition splitRange :: "unit_calendar \<Rightarrow> DateRange \<Rightarrow> CalendarUnit \<Rightarrow> DateRange list option" where
  "splitRange cal dates unit = split_from cal unit (dr_end dates) (dr_start dates)"

definition unitKey :: "unit_calendar \<Rightarrow> int \<Rightarrow> CalendarUnit \<Rightarrow> string" where
  "unitKey cal date unit = cal_toFormat cal (KEY_FORMAT unit) date"

definition shiftInstant :: "unit_calendar \<Rightarrow> int \<Rightarrow> string \<Rightarrow> CalendarUnit \<Rightarrow> int \<Rightarrow> int" where
  "shiftInstant cal instant timeZone unit amount = cal_plusInstant cal timeZone unit instant amount"

definition timeState :: "int \<Rightarrow> int \<Rightarrow> int \<Rightarrow> TimeState" where
  "timeState from to asOf = (if asOf < from then Future else if to < asOf then Past else Current)"

section \<open>Requests\<close>

definition isLocalDate :: "unit_calendar \<Rightarrow> string \<Rightarrow> bool" where
  "isLocalDate cal value \<longleftrightarrow> has_shape ''dddd-dd-dd'' value \<and> cal_parse cal value \<noteq> None"

text \<open>\<open>intl\<close> is the zone name that \<open>Intl.DateTimeFormat\<close> resolves to, absent where it throws.\<close>

definition resolveTimeZone :: "(string \<Rightarrow> string option) \<Rightarrow> string \<Rightarrow> string option" where
  "resolveTimeZone intl value =
     (if value \<noteq> [] \<and> (hd value = CHR ''+'' \<or> hd value = CHR ''-'') then None else intl value)"

record StatisticsQueryDto =
  sq_period :: StatisticsPeriodType
  sq_anchor_date :: "string option"
  sq_from_date :: "string option"
  sq_to_date :: "string option"
  sq_time_zone :: string
  sq_as_of :: "string option"

record StatisticsBreakdownQueryDto = StatisticsQueryDto +
  sq_transaction_type :: "TransactionType option"

definition valid_statistics_query ::
  "runtime \<Rightarrow> unit_calendar \<Rightarrow> (string \<Rightarrow> string option) \<Rightarrow> 'a StatisticsQueryDto_scheme \<Rightarrow> bool" where
  "valid_statistics_query rt cal intl query \<longleftrightarrow>
     isOptionalNonNull (isLocalDate cal) (sq_anchor_date query) \<and>
     isOptionalNonNull (isLocalDate cal) (sq_from_date query) \<and>
     isOptionalNonNull (isLocalDate cal) (sq_to_date query) \<and>
     resolveTimeZone intl (sq_time_zone query) \<noteq> None \<and>
     isOptionalNonNull (\<lambda>v. isIsoInstant rt v \<and> isInTimestampRange rt v) (sq_as_of query)"

section \<open>Periods\<close>

definition MAX_CUSTOM_PERIOD_DAYS :: int where "MAX_CUSTOM_PERIOD_DAYS = 366"
definition MAX_DAILY_CUSTOM_DAYS :: int where "MAX_DAILY_CUSTOM_DAYS = 14"
definition MAX_WEEKLY_CUSTOM_DAYS :: int where "MAX_WEEKLY_CUSTOM_DAYS = 92"
definition AS_OF_CLOCK_SKEW_MS :: int where "AS_OF_CLOCK_SKEW_MS = CLOCK_SKEW_MS"

record Bounds =
  bd_start_date :: string
  bd_end_date :: string
  bd_from :: int
  bd_to :: int

record StatisticsPeriod = Bounds +
  pd_type :: StatisticsPeriodType
  pd_time_zone :: string
  pd_as_of :: int
  pd_actual_to :: "int option"
  pd_state :: TimeState

record PreviousPeriod = Bounds +
  pp_actual_to :: int

record TrendInterval = Bounds +
  ti_key :: string
  ti_state :: TimeState

text \<open>The two tables have no entry for a custom period.\<close>

fun STANDARD_UNIT :: "StatisticsPeriodType \<Rightarrow> CalendarUnit option" where
  "STANDARD_UNIT WEEK = Some Weeks"
| "STANDARD_UNIT MONTH = Some Months"
| "STANDARD_UNIT YEAR = Some Years"
| "STANDARD_UNIT CUSTOM = None"

fun TREND_GRANULARITY :: "StatisticsPeriodType \<Rightarrow> CalendarUnit option" where
  "TREND_GRANULARITY WEEK = Some Days"
| "TREND_GRANULARITY MONTH = Some Weeks"
| "TREND_GRANULARITY YEAR = Some Months"
| "TREND_GRANULARITY CUSTOM = None"

definition boundsOf :: "unit_calendar \<Rightarrow> DateRange \<Rightarrow> string \<Rightarrow> Bounds" where
  "boundsOf cal dates timeZone =
     \<lparr>bd_start_date = cal_format cal (dr_start dates), bd_end_date = cal_format cal (dr_end dates),
      bd_from = cal_startOfDay cal (dr_start dates) timeZone, bd_to = endOfDay cal (dr_end dates) timeZone\<rparr>"

definition rangeOfPeriod :: "unit_calendar \<Rightarrow> StatisticsPeriod \<Rightarrow> exception + DateRange" where
  "rangeOfPeriod cal period =
     and_then (parseCalendarDate cal (bd_start_date period)) (\<lambda>start.
     and_then (parseCalendarDate cal (bd_end_date period)) (\<lambda>end'.
       Inr \<lparr>dr_start = start, dr_end = end'\<rparr>))"

abbreviation field_err :: "string \<Rightarrow> string \<Rightarrow> field_error" where
  "field_err f e \<equiv> \<lparr>fe_field = f, fe_error = e\<rparr>"

definition checkPeriodFields :: "'a StatisticsQueryDto_scheme \<Rightarrow> field_error list" where
  "checkPeriodFields query =
     (let fields = [(''from_date'', sq_from_date query), (''to_date'', sq_to_date query)] in
      if sq_period query = CUSTOM
      then (if sq_anchor_date query \<noteq> None
              then [field_err ''anchor_date'' ''anchor_date must not be set for a custom period''] else []) @
           map (\<lambda>(field, _). field_err field (field @ '' is required for a custom period''))
             (filter (\<lambda>(_, value). value = None) fields)
      else map (\<lambda>(field, _). field_err field (field @ '' must be set only for a custom period''))
             (filter (\<lambda>(_, value). value \<noteq> None) fields))"

text \<open>
  The date range of a request and the field an error about it names. \<open>from_date\<close> and \<open>to_date\<close> of a
  custom period are set here: \<open>checkPeriodFields\<close> has refused any other request.
\<close>

definition period_range ::
  "unit_calendar \<Rightarrow> 'a StatisticsQueryDto_scheme \<Rightarrow> string \<Rightarrow> int \<Rightarrow> exception + DateRange \<times> string" where
  "period_range cal query timeZone asOf = (case STANDARD_UNIT (sq_period query) of
     None \<Rightarrow>
       and_then (parseCalendarDate cal (the (sq_from_date query))) (\<lambda>start.
       and_then (parseCalendarDate cal (the (sq_to_date query))) (\<lambda>end'.
       let dates = \<lparr>dr_start = start, dr_end = end'\<rparr> in
       and_then (guard (\<not> dr_end dates < dr_start dates)
         (bad_field ''to_date'' ''to_date must not be before from_date'')) (\<lambda>_.
       and_then (guard (\<not> MAX_CUSTOM_PERIOD_DAYS < daysIn dates)
         (bad_field ''to_date'' ''a custom period must not exceed 366 days'')) (\<lambda>_.
         Inr (dates, ''to_date'')))))
   | Some unit \<Rightarrow>
       and_then (case sq_anchor_date query of
           None \<Rightarrow> Inr (cal_dateAt cal asOf timeZone)
         | Some date \<Rightarrow> parseCalendarDate cal date) (\<lambda>anchor.
         Inr (rangeOf cal unit anchor, ''anchor_date'')))"

definition actual_end :: "TimeState \<Rightarrow> int \<Rightarrow> int \<Rightarrow> int option" where
  "actual_end state to asOf = (case state of Future \<Rightarrow> None | Past \<Rightarrow> Some to | Current \<Rightarrow> Some asOf)"

text \<open>\<open>as_of\<close> has passed the checks of the DTO, so it is a date.\<close>

definition resolveStatisticsPeriod ::
  "runtime \<Rightarrow> unit_calendar \<Rightarrow> (string \<Rightarrow> string option) \<Rightarrow> 'a StatisticsQueryDto_scheme \<Rightarrow> int \<Rightarrow>
   exception + StatisticsPeriod" where
  "resolveStatisticsPeriod rt cal intl query serverNow =
     (let timeZone = the (resolveTimeZone intl (sq_time_zone query));
          asOf = (case sq_as_of query of None \<Rightarrow> serverNow | Some v \<Rightarrow> the (rt_Date rt v));
          errors = checkPeriodFields query @
            (if serverNow + AS_OF_CLOCK_SKEW_MS < asOf
             then [field_err ''as_of'' ''as_of must not be in the future''] else []) in
     and_then (guard (errors = []) (BadRequestException errors)) (\<lambda>_.
     and_then (period_range cal query timeZone asOf) (\<lambda>(dates, rangeField).
     let bounds = boundsOf cal dates timeZone in
     and_then (guard (\<not> (bd_from bounds < TIMESTAMP_MIN \<or> TIMESTAMP_MAX < bd_to bounds))
       (bad_field rangeField
         ''the period must be within 1970-01-01T00:00:01.000Z and 2038-01-19T03:14:07.000Z'')) (\<lambda>_.
     let state = timeState (bd_from bounds) (bd_to bounds) asOf in
       Inr (Bounds.extend bounds
         (StatisticsPeriod.fields (sq_period query) timeZone asOf
           (actual_end state (bd_to bounds) asOf) state))))))"

definition trendGranularity :: "unit_calendar \<Rightarrow> StatisticsPeriod \<Rightarrow> exception + CalendarUnit" where
  "trendGranularity cal period = (case TREND_GRANULARITY (pd_type period) of
     Some granularity \<Rightarrow> Inr granularity
   | None \<Rightarrow> and_then (rangeOfPeriod cal period) (\<lambda>dates. let days = daysIn dates in
       Inr (if days \<le> MAX_DAILY_CUSTOM_DAYS then Days
            else if days \<le> MAX_WEEKLY_CUSTOM_DAYS then Weeks else Months)))"

definition trend_interval :: "unit_calendar \<Rightarrow> StatisticsPeriod \<Rightarrow> CalendarUnit \<Rightarrow> DateRange \<Rightarrow> TrendInterval" where
  "trend_interval cal period granularity dates =
     (let bounds = boundsOf cal dates (pd_time_zone period) in
      Bounds.extend bounds (TrendInterval.fields (unitKey cal (dr_start dates) granularity)
        (timeState (bd_from bounds) (bd_to bounds) (pd_as_of period))))"

text \<open>No value where the loop of \<open>splitRange\<close> does not end.\<close>

definition resolveTrendIntervals ::
  "unit_calendar \<Rightarrow> StatisticsPeriod \<Rightarrow> CalendarUnit \<Rightarrow> (exception + TrendInterval list) option" where
  "resolveTrendIntervals cal period granularity = (case rangeOfPeriod cal period of
     Inl e \<Rightarrow> Some (Inl e)
   | Inr dates \<Rightarrow> map_option (\<lambda>parts. Inr (map (trend_interval cal period granularity) parts))
       (splitRange cal dates granularity))"

definition resolvePreviousPeriod :: "unit_calendar \<Rightarrow> StatisticsPeriod \<Rightarrow> exception + PreviousPeriod option" where
  "resolvePreviousPeriod cal period = (case STANDARD_UNIT (pd_type period) of
     None \<Rightarrow> Inr None
   | Some unit \<Rightarrow>
       if pd_state period = Future then Inr None
       else and_then (rangeOfPeriod cal period) (\<lambda>dates.
         let bounds = boundsOf cal (rangeOf cal unit (shift cal (dr_start dates) unit (- 1))) (pd_time_zone period);
             actualTo = (if pd_state period = Past then bd_to bounds
               else shiftInstant cal (pd_as_of period) (pd_time_zone period) unit (- 1)) in
         Inr (Some (Bounds.extend bounds (PreviousPeriod.fields
           (if actualTo < bd_to bounds then actualTo else bd_to bounds))))))"

end
