(* ===== verification/Statistics.thy ===== *)
theory Statistics
  imports StatisticsPeriods Wallets
begin

text \<open>
  \<open>modules/statistics/statistics.service.ts\<close> and \<open>statistics-breakdown.ts\<close>, with the queries behind
  them in \<open>transaction-queries.service.ts\<close>: the summary of a period next to the one before it, its
  trend, and its breakdown by category and by wallet.
\<close>

section \<open>Queries\<close>

text \<open>The rows every block shares; \<open>from\<close> may be absent.\<close>

definition statisticsScope :: "nat \<Rightarrow> int option \<Rightarrow> int \<Rightarrow> db \<Rightarrow> LoadedTransaction list" where
  "statisticsScope spaceId from to s = filter (\<lambda>l.
     w_space_id (lt_wallet l) = spaceId \<and> \<not> cat_is_system (lt_category l) \<and>
     (case from of None \<Rightarrow> True | Some f \<Rightarrow> f \<le> t_timestamp (lt_transaction l)) \<and>
     t_timestamp (lt_transaction l) \<le> to) (joined s)"

definition statisticsTypeScope ::
  "nat \<Rightarrow> TransactionType \<Rightarrow> int \<Rightarrow> int \<Rightarrow> db \<Rightarrow> LoadedTransaction list" where
  "statisticsTypeScope spaceId transactionType from to s =
     filter (\<lambda>l. t_transaction_type (lt_transaction l) = transactionType)
       (statisticsScope spaceId (Some from) to s)"

text \<open>A \<open>SUM\<close> over no rows is \<open>NULL\<close>.\<close>

definition sql_sum :: "'a::monoid_add list \<Rightarrow> 'a option" where
  "sql_sum xs = (if xs = [] then None else Some (sum_list xs))"

record TotalsRow =
  tr_income :: "int option"
  tr_income_count :: "nat option"
  tr_expense :: "int option"
  tr_expense_count :: "nat option"

record StatisticsTotals =
  st_income :: int
  st_incomeCount :: nat
  st_expense :: int
  st_expenseCount :: nat

definition count_of_type :: "TransactionType \<Rightarrow> transaction \<Rightarrow> nat" where
  "count_of_type ty t = (if t_transaction_type t = ty then 1 else 0)"

definition selectStatisticsTotals :: "LoadedTransaction list \<Rightarrow> TotalsRow" where
  "selectStatisticsTotals ls = (let ts = map lt_transaction ls in
     \<lparr>tr_income = sql_sum (map (amount_of_type INCOME) ts),
      tr_income_count = sql_sum (map (count_of_type INCOME) ts),
      tr_expense = sql_sum (map (amount_of_type EXPENSE) ts),
      tr_expense_count = sql_sum (map (count_of_type EXPENSE) ts)\<rparr>)"

definition or_zero :: "'a::zero option \<Rightarrow> 'a" where
  "or_zero v = (case v of None \<Rightarrow> 0 | Some x \<Rightarrow> x)"

definition toStatisticsTotals :: "TotalsRow option \<Rightarrow> StatisticsTotals" where
  "toStatisticsTotals row =
     \<lparr>st_income = or_zero (Option.bind row tr_income), st_incomeCount = or_zero (Option.bind row tr_income_count),
      st_expense = or_zero (Option.bind row tr_expense), st_expenseCount = or_zero (Option.bind row tr_expense_count)\<rparr>"

definition getStatisticsTotals :: "nat \<Rightarrow> int \<Rightarrow> int \<Rightarrow> db \<Rightarrow> StatisticsTotals" where
  "getStatisticsTotals spaceId from to s =
     toStatisticsTotals (Some (selectStatisticsTotals (statisticsScope spaceId (Some from) to s)))"

text \<open>\<open>CASE WHEN timestamp <= end0 THEN 0 ... ELSE last END\<close>: the last end is not looked at.\<close>

fun interval_of :: "int list \<Rightarrow> int \<Rightarrow> nat" where
  "interval_of [] timestamp = 0"
| "interval_of [e] timestamp = 0"
| "interval_of (e # e' # es) timestamp =
     (if timestamp \<le> e then 0 else Suc (interval_of (e' # es) timestamp))"

text \<open>\<open>xs[i] = v\<close>; no index is beyond the end by more than one.\<close>

definition set_index :: "'a list \<Rightarrow> nat \<Rightarrow> 'a \<Rightarrow> 'a list" where
  "set_index xs i v = (if i < length xs then xs[i := v] else xs @ [v])"

definition getStatisticsIntervalTotals ::
  "nat \<Rightarrow> int \<Rightarrow> int \<Rightarrow> int list \<Rightarrow> db \<Rightarrow> StatisticsTotals list" where
  "getStatisticsIntervalTotals spaceId from to intervalEnds s =
     (let rws = group_by (\<lambda>l. interval_of intervalEnds (t_timestamp (lt_transaction l))) selectStatisticsTotals
            (statisticsScope spaceId (Some from) to s);
          totals = map (\<lambda>_. toStatisticsTotals None) intervalEnds
      in fold (\<lambda>(i, row) totals. set_index totals i (toStatisticsTotals (Some row))) rws totals)"

record StatisticsCategoryGroup =
  cg_id :: nat
  cg_name :: string
  cg_icon :: CategoryIcon
  cg_color :: AppColor
  cg_isArchived :: bool
  cg_amount :: int
  cg_count :: nat

definition getStatisticsByCategory ::
  "nat \<Rightarrow> TransactionType \<Rightarrow> int \<Rightarrow> int \<Rightarrow> db \<Rightarrow> StatisticsCategoryGroup list" where
  "getStatisticsByCategory spaceId transactionType from to s =
     map snd (group_by (\<lambda>l. cat_id (lt_category l))
       (\<lambda>ls. let c = lt_category (hd ls) in
         \<lparr>cg_id = cat_id c, cg_name = cat_name c, cg_icon = cat_icon c, cg_color = cat_color c,
          cg_isArchived = (\<not> cat_is_active c),
          cg_amount = sum_list (map (\<lambda>l. t_amount (lt_transaction l)) ls), cg_count = length ls\<rparr>)
       (statisticsTypeScope spaceId transactionType from to s))"

record StatisticsWalletGroup =
  wg_id :: nat
  wg_name :: string
  wg_design :: AppColor
  wg_isDeleted :: bool
  wg_amount :: int
  wg_count :: nat

definition getStatisticsByWallet ::
  "nat \<Rightarrow> TransactionType \<Rightarrow> int \<Rightarrow> int \<Rightarrow> db \<Rightarrow> StatisticsWalletGroup list" where
  "getStatisticsByWallet spaceId transactionType from to s =
     map snd (group_by (\<lambda>l. w_id (lt_wallet l))
       (\<lambda>ls. let w = lt_wallet (hd ls) in
         \<lparr>wg_id = w_id w, wg_name = w_wallet_name w, wg_design = w_design w, wg_isDeleted = w_is_deleted w,
          wg_amount = sum_list (map (\<lambda>l. t_amount (lt_transaction l)) ls), wg_count = length ls\<rparr>)
       (statisticsTypeScope spaceId transactionType from to s))"

definition getLastStatisticsTimestamp :: "nat \<Rightarrow> int \<Rightarrow> db \<Rightarrow> int option" where
  "getLastStatisticsTimestamp spaceId to s =
     head_opt (rev (sort (map (\<lambda>l. t_timestamp (lt_transaction l)) (statisticsScope spaceId None to s))))"

section \<open>Breakdowns\<close>

definition MAX_PRIMARY_GROUPS :: nat where "MAX_PRIMARY_GROUPS = 6"
definition OTHER_THRESHOLD_PERCENT :: int where "OTHER_THRESHOLD_PERCENT = 3"

datatype BreakdownItemKind = CategoryKind | WalletKind | DeletedWalletsKind | OtherKind

record BreakdownItem =
  bi_kind :: BreakdownItemKind
  bi_key :: string
  bi_id :: "nat option"
  bi_name :: "string option"
  bi_icon :: "CategoryIcon option"
  bi_color :: "AppColor option"
  bi_amount :: string
  bi_percent :: int
  bi_is_archived :: bool
  bi_opens_history :: bool

record DeletedWalletsItem = BreakdownItem +
  dw_wallets_count :: nat

record OtherItem = BreakdownItem +
  oi_children :: "BreakdownItem list"

record CategoryBreakdown =
  cb_total_amount :: string
  cb_source_count :: nat
  cb_primary_items :: "BreakdownItem list"
  cb_other :: "OtherItem option"

record WalletBreakdown =
  wd_total_amount :: string
  wd_source_count :: nat
  wd_primary_items :: "BreakdownItem list"
  wd_deleted_wallets :: "DeletedWalletsItem option"
  wd_other :: "OtherItem option"

text \<open>The loop that counts the groups of at least the threshold share of the total.\<close>

fun primary_count :: "('g \<Rightarrow> int) \<Rightarrow> int \<Rightarrow> nat \<Rightarrow> 'g list \<Rightarrow> nat" where
  "primary_count amount whole (Suc limit) (g # gs) =
     (if whole * OTHER_THRESHOLD_PERCENT \<le> amount g * 100
      then Suc (primary_count amount whole limit gs) else 0)"
| "primary_count amount whole limit gs = 0"

definition foldGroups ::
  "('g \<Rightarrow> nat) \<Rightarrow> ('g \<Rightarrow> int) \<Rightarrow> 'g list \<Rightarrow> int \<Rightarrow> nat \<Rightarrow> 'g list \<times> 'g list" where
  "foldGroups gid amount groups whole maxPrimary =
     (let ordered = sort_key (\<lambda>g. (- amount g, gid g)) (filter (\<lambda>g. 0 < amount g) groups);
          limit = min maxPrimary (length ordered);
          primaryCount = primary_count amount whole limit ordered;
          primaryCount = (if primaryCount = 0 \<and> 0 < limit then 1 else primaryCount)
      in (take primaryCount ordered, drop primaryCount ordered))"

definition kind_text :: "BreakdownItemKind \<Rightarrow> string" where
  "kind_text kind = (case kind of CategoryKind \<Rightarrow> ''category'' | WalletKind \<Rightarrow> ''wallet''
     | DeletedWalletsKind \<Rightarrow> ''deleted_wallets'' | OtherKind \<Rightarrow> ''other'')"

definition serviceItem :: "BreakdownItemKind \<Rightarrow> int \<Rightarrow> int \<Rightarrow> BreakdownItem" where
  "serviceItem kind amount whole =
     \<lparr>bi_kind = kind, bi_key = kind_text kind, bi_id = None, bi_name = None, bi_icon = None, bi_color = None,
      bi_amount = formatMoney amount, bi_percent = roundPercentToTenth amount whole,
      bi_is_archived = False, bi_opens_history = False\<rparr>"

definition sumOf :: "('g \<Rightarrow> int) \<Rightarrow> 'g list \<Rightarrow> int" where
  "sumOf amount groups = fold (\<lambda>g sum. sum + amount g) groups 0"

definition otherOf :: "('g \<Rightarrow> int) \<Rightarrow> 'g list \<Rightarrow> BreakdownItem list \<Rightarrow> int \<Rightarrow> OtherItem option" where
  "otherOf amount folded children whole =
     (if folded \<noteq> [] then Some (BreakdownItem.extend (serviceItem OtherKind (sumOf amount folded) whole)
        (OtherItem.fields children)) else None)"

definition category_item :: "int \<Rightarrow> StatisticsCategoryGroup \<Rightarrow> BreakdownItem" where
  "category_item whole category =
     \<lparr>bi_kind = CategoryKind, bi_key = ''category:'' @ show_nat (cg_id category), bi_id = Some (cg_id category),
      bi_name = Some (cg_name category), bi_icon = Some (cg_icon category), bi_color = Some (cg_color category),
      bi_amount = formatMoney (cg_amount category), bi_percent = roundPercentToTenth (cg_amount category) whole,
      bi_is_archived = cg_isArchived category, bi_opens_history = True\<rparr>"

definition buildCategoryBreakdown :: "StatisticsCategoryGroup list \<Rightarrow> CategoryBreakdown" where
  "buildCategoryBreakdown groups =
     (let whole = sumOf cg_amount groups;
          (primary, folded) = foldGroups cg_id cg_amount groups whole MAX_PRIMARY_GROUPS
      in \<lparr>cb_total_amount = formatMoney whole, cb_source_count = length primary + length folded,
          cb_primary_items = map (category_item whole) primary,
          cb_other = otherOf cg_amount folded (map (category_item whole) folded) whole\<rparr>)"

definition wallet_item :: "int \<Rightarrow> StatisticsWalletGroup \<Rightarrow> BreakdownItem" where
  "wallet_item whole wallet =
     \<lparr>bi_kind = WalletKind, bi_key = ''wallet:'' @ show_nat (wg_id wallet), bi_id = Some (wg_id wallet),
      bi_name = Some (wg_name wallet), bi_icon = None, bi_color = Some (wg_design wallet),
      bi_amount = formatMoney (wg_amount wallet), bi_percent = roundPercentToTenth (wg_amount wallet) whole,
      bi_is_archived = False, bi_opens_history = True\<rparr>"

definition buildWalletBreakdown :: "StatisticsWalletGroup list \<Rightarrow> WalletBreakdown" where
  "buildWalletBreakdown groups =
     (let whole = sumOf wg_amount groups;
          deleted = filter (\<lambda>w. wg_isDeleted w \<and> 0 < wg_amount w) groups;
          (primary, folded) = foldGroups wg_id wg_amount (filter (\<lambda>w. \<not> wg_isDeleted w) groups) whole
            (if deleted \<noteq> [] then MAX_PRIMARY_GROUPS - 1 else MAX_PRIMARY_GROUPS)
      in \<lparr>wd_total_amount = formatMoney whole,
          wd_source_count = length primary + length folded + length deleted,
          wd_primary_items = map (wallet_item whole) primary,
          wd_deleted_wallets = (if deleted \<noteq> []
            then Some (BreakdownItem.extend (serviceItem DeletedWalletsKind (sumOf wg_amount deleted) whole)
              (DeletedWalletsItem.fields (length deleted))) else None),
          wd_other = otherOf wg_amount folded (map (wallet_item whole) folded) whole\<rparr>)"

section \<open>The three blocks\<close>

record MoneyCount =
  mc_amount :: string
  mc_count :: nat

record Change =
  cn_delta :: string
  cn_percent :: "int option"

record Figures =
  fi_income :: MoneyCount
  fi_expense :: MoneyCount
  fi_net :: string
  fi_transactions_count :: nat

record StatisticsBlock =
  sb_period :: StatisticsPeriod
  sb_currency :: string

record StatisticsSummary = StatisticsBlock +
  ss_figures :: Figures
  ss_previous :: "(PreviousPeriod \<times> Figures) option"
  ss_change :: "(Change \<times> Change \<times> Change) option"
  ss_has_any_transactions :: bool
  ss_last_transaction_date :: "string option"

record TrendBucket = TrendInterval +
  tb_income :: "string option"
  tb_expense :: "string option"

record StatisticsTrend = StatisticsBlock +
  sn_totals :: "MoneyCount \<times> MoneyCount"
  sn_granularity :: CalendarUnit
  sn_buckets :: "TrendBucket list"

record StatisticsBreakdown = StatisticsBlock +
  sk_transaction_type :: TransactionType
  sk_total :: MoneyCount
  sk_by_category :: CategoryBreakdown
  sk_by_wallet :: WalletBreakdown

definition EMPTY_TOTALS :: StatisticsTotals where
  "EMPTY_TOTALS = \<lparr>st_income = 0, st_incomeCount = 0, st_expense = 0, st_expenseCount = 0\<rparr>"

definition figuresOf :: "StatisticsTotals \<Rightarrow> Figures" where
  "figuresOf totals =
     \<lparr>fi_income = \<lparr>mc_amount = formatMoney (st_income totals), mc_count = st_incomeCount totals\<rparr>,
      fi_expense = \<lparr>mc_amount = formatMoney (st_expense totals), mc_count = st_expenseCount totals\<rparr>,
      fi_net = formatMoney (st_income totals - st_expense totals),
      fi_transactions_count = st_incomeCount totals + st_expenseCount totals\<rparr>"

definition changeOf :: "int \<Rightarrow> int \<Rightarrow> Change" where
  "changeOf current previous =
     (let delta = current - previous; base = (if previous < 0 then - previous else previous) in
      \<lparr>cn_delta = formatMoney delta,
       cn_percent = (if base = 0 then None else Some (roundPercentToTenth delta base))\<rparr>)"

definition addTotals :: "StatisticsTotals \<Rightarrow> StatisticsTotals \<Rightarrow> StatisticsTotals" where
  "addTotals a b =
     \<lparr>st_income = st_income a + st_income b, st_incomeCount = st_incomeCount a + st_incomeCount b,
      st_expense = st_expense a + st_expense b, st_expenseCount = st_expenseCount a + st_expenseCount b\<rparr>"

definition openBlock ::
  "runtime \<Rightarrow> unit_calendar \<Rightarrow> (string \<Rightarrow> string option) \<Rightarrow> nat \<Rightarrow> nat \<Rightarrow> 'a StatisticsQueryDto_scheme \<Rightarrow>
   int \<Rightarrow> db \<Rightarrow> exception + StatisticsBlock" where
  "openBlock rt cal intl userId spaceId query now s =
     and_then (assertMembership spaceId userId None s) (\<lambda>_.
     and_then (resolveStatisticsPeriod rt cal intl query now) (\<lambda>period.
     and_then (getSpace spaceId s) (\<lambda>space.
     and_then (assertFound space NOT_FOUND) (\<lambda>(_, currency).
       Inr \<lparr>sb_period = period, sb_currency = cur_code currency\<rparr>))))"

definition getStatisticsSummary ::
  "runtime \<Rightarrow> unit_calendar \<Rightarrow> (string \<Rightarrow> string option) \<Rightarrow> nat \<Rightarrow> nat \<Rightarrow> 'a StatisticsQueryDto_scheme \<Rightarrow>
   int \<Rightarrow> db \<Rightarrow> exception + StatisticsSummary" where
  "getStatisticsSummary rt cal intl userId spaceId query now s =
     and_then (openBlock rt cal intl userId spaceId query now s) (\<lambda>block.
     let period = sb_period block in
     and_then (resolvePreviousPeriod cal period) (\<lambda>previousPeriod.
     let totals = (case pd_actual_to period of None \<Rightarrow> EMPTY_TOTALS
           | Some to \<Rightarrow> getStatisticsTotals spaceId (bd_from period) to s);
         previousTotals = map_option (\<lambda>p. getStatisticsTotals spaceId (bd_from p) (pp_actual_to p) s) previousPeriod;
         lastTimestamp = getLastStatisticsTimestamp spaceId (pd_as_of period) s in
     Inr (StatisticsBlock.extend block (StatisticsSummary.fields
       (figuresOf totals)
       (map_option (\<lambda>p. (p, figuresOf (the previousTotals))) previousPeriod)
       (map_option (\<lambda>previous.
          (changeOf (st_income totals) (st_income previous),
           changeOf (st_expense totals) (st_expense previous),
           changeOf (st_income totals - st_expense totals) (st_income previous - st_expense previous)))
         previousTotals)
       (lastTimestamp \<noteq> None)
       (map_option (\<lambda>t. cal_format cal (cal_dateAt cal t (pd_time_zone period))) lastTimestamp)))))"

text \<open>The \<open>i\<close>-th sum, as a bucket shows it.\<close>

definition bucket_amount :: "(StatisticsTotals \<Rightarrow> int) \<Rightarrow> StatisticsTotals list \<Rightarrow> nat \<Rightarrow> string option" where
  "bucket_amount amount amounts i = (if i < length amounts then Some (formatMoney (amount (amounts ! i))) else None)"

definition trend_bucket :: "StatisticsTotals list \<Rightarrow> nat \<times> TrendInterval \<Rightarrow> TrendBucket" where
  "trend_bucket amounts = (\<lambda>(i, interval). TrendInterval.extend interval
     (TrendBucket.fields (bucket_amount st_income amounts i) (bucket_amount st_expense amounts i)))"

definition build_trend ::
  "nat \<Rightarrow> StatisticsBlock \<Rightarrow> CalendarUnit \<Rightarrow> TrendInterval list \<Rightarrow> db \<Rightarrow> StatisticsTrend" where
  "build_trend spaceId block granularity intervals s =
     (let period = sb_period block;
          started = filter (\<lambda>interval. ti_state interval \<noteq> Future) intervals;
          amounts = (case pd_actual_to period of None \<Rightarrow> []
            | Some to \<Rightarrow> getStatisticsIntervalTotals spaceId (bd_from period) to (map bd_to started) s);
          totals = fold (\<lambda>b a. addTotals a b) amounts EMPTY_TOTALS;
          figures = figuresOf totals
      in StatisticsBlock.extend block (StatisticsTrend.fields
           (fi_income figures, fi_expense figures) granularity
           (map (trend_bucket amounts) (zip [0..<length intervals] intervals))))"

definition getTrend ::
  "runtime \<Rightarrow> unit_calendar \<Rightarrow> (string \<Rightarrow> string option) \<Rightarrow> nat \<Rightarrow> nat \<Rightarrow> 'a StatisticsQueryDto_scheme \<Rightarrow>
   int \<Rightarrow> db \<Rightarrow> (exception + StatisticsTrend) option" where
  "getTrend rt cal intl userId spaceId query now s =
     (case openBlock rt cal intl userId spaceId query now s of
        Inl e \<Rightarrow> Some (Inl e)
      | Inr block \<Rightarrow>
          let period = sb_period block in
          (case trendGranularity cal period of
             Inl e \<Rightarrow> Some (Inl e)
           | Inr granularity \<Rightarrow>
               map_option (\<lambda>r. and_then r (\<lambda>intervals. Inr (build_trend spaceId block granularity intervals s)))
                 (resolveTrendIntervals cal period granularity)))"

definition getBreakdown ::
  "runtime \<Rightarrow> unit_calendar \<Rightarrow> (string \<Rightarrow> string option) \<Rightarrow> nat \<Rightarrow> nat \<Rightarrow> StatisticsBreakdownQueryDto \<Rightarrow>
   int \<Rightarrow> db \<Rightarrow> exception + StatisticsBreakdown" where
  "getBreakdown rt cal intl userId spaceId query now s =
     and_then (openBlock rt cal intl userId spaceId query now s) (\<lambda>block.
     let period = sb_period block;
         transactionType = (case sq_transaction_type query of None \<Rightarrow> EXPENSE | Some ty \<Rightarrow> ty);
         (categories, wallets) = (case pd_actual_to period of None \<Rightarrow> ([], [])
           | Some to \<Rightarrow> (getStatisticsByCategory spaceId transactionType (bd_from period) to s,
                        getStatisticsByWallet spaceId transactionType (bd_from period) to s)) in
     Inr (StatisticsBlock.extend block (StatisticsBreakdown.fields transactionType
       \<lparr>mc_amount = formatMoney (sumOf cg_amount categories),
        mc_count = fold (\<lambda>category sum. sum + cg_count category) categories 0\<rparr>
       (buildCategoryBreakdown categories) (buildWalletBreakdown wallets))))"

end
