(* ===== verification/StatisticsFacts.thy ===== *)
theory StatisticsFacts
  imports Statistics
begin

text \<open>
  Facts behind the statistics: the laws of the calendar, the loop that splits a period into calendar
  units, sums over a period and over its intervals as sums over the history, and the folding of small
  groups.
\<close>

section \<open>The laws of the calendar\<close>

text \<open>
  What luxon documents: dates are printed and read back; a unit is a stretch of days, \<open>plus\<close> with 1
  and -1 leads from the first day of a unit to those of its neighbours; local days follow each other
  without gaps, each instant lies in the day of its date.
\<close>

definition units_tile :: "unit_calendar \<Rightarrow> CalendarUnit \<Rightarrow> int \<Rightarrow> bool" where
  "units_tile cal unit d \<longleftrightarrow> (let a = cal_startOf cal unit d; b = cal_endOf cal unit d in
     a \<le> d \<and> d \<le> b \<and> cal_startOf cal unit a = a \<and> cal_endOf cal unit a = b \<and>
     cal_plus cal unit a 1 = b + 1 \<and> cal_startOf cal unit (b + 1) = b + 1 \<and>
     cal_startOf cal unit (cal_plus cal unit a (- 1)) = cal_plus cal unit a (- 1) \<and>
     cal_endOf cal unit (cal_plus cal unit a (- 1)) = a - 1)"

definition days_tile :: "unit_calendar \<Rightarrow> string \<Rightarrow> bool" where
  "days_tile cal timeZone \<longleftrightarrow>
     (\<forall>d. cal_startOfDay cal d timeZone \<le> cal_startOfDay cal (d + 1) timeZone) \<and>
     (\<forall>t. cal_startOfDay cal (cal_dateAt cal t timeZone) timeZone \<le> t \<and>
        t < cal_startOfDay cal (cal_dateAt cal t timeZone + 1) timeZone)"

definition calendar_laws :: "unit_calendar \<Rightarrow> string \<Rightarrow> bool" where
  "calendar_laws cal timeZone \<longleftrightarrow> (\<forall>d. cal_parse cal (cal_format cal d) = Some d) \<and>
     (\<forall>unit d. units_tile cal unit d) \<and> days_tile cal timeZone"

lemma parse_format: "calendar_laws cal timeZone \<Longrightarrow> parseCalendarDate cal (cal_format cal d) = Inr d"
  by (simp add: calendar_laws_def parseCalendarDate_def need_def)

lemma unit_around:
  assumes "calendar_laws cal timeZone"
  shows "cal_startOf cal u d \<le> d" "d \<le> cal_endOf cal u d"
    "cal_startOf cal u (cal_startOf cal u d) = cal_startOf cal u d"
    "cal_endOf cal u (cal_startOf cal u d) = cal_endOf cal u d"
    "cal_plus cal u (cal_startOf cal u d) 1 = cal_endOf cal u d + 1"
    "cal_startOf cal u (cal_plus cal u (cal_startOf cal u d) (- 1)) = cal_plus cal u (cal_startOf cal u d) (- 1)"
    "cal_endOf cal u (cal_plus cal u (cal_startOf cal u d) (- 1)) = cal_startOf cal u d - 1"
proof -
  have "units_tile cal u d" using assms by (simp add: calendar_laws_def)
  then show "cal_startOf cal u d \<le> d" "d \<le> cal_endOf cal u d"
    "cal_startOf cal u (cal_startOf cal u d) = cal_startOf cal u d"
    "cal_endOf cal u (cal_startOf cal u d) = cal_endOf cal u d"
    "cal_plus cal u (cal_startOf cal u d) 1 = cal_endOf cal u d + 1"
    "cal_startOf cal u (cal_plus cal u (cal_startOf cal u d) (- 1)) = cal_plus cal u (cal_startOf cal u d) (- 1)"
    "cal_endOf cal u (cal_plus cal u (cal_startOf cal u d) (- 1)) = cal_startOf cal u d - 1"
    by (simp_all add: units_tile_def Let_def)
qed

lemma days_follow:
  assumes "calendar_laws cal timeZone" and "d \<le> d'"
  shows "cal_startOfDay cal d timeZone \<le> cal_startOfDay cal d' timeZone"
  using assms(2)
proof (induction d' rule: int_ge_induct)
  case (step i)
  moreover have "cal_startOfDay cal i timeZone \<le> cal_startOfDay cal (i + 1) timeZone"
    using assms(1) by (simp add: calendar_laws_def days_tile_def)
  ultimately show ?case by simp
qed simp

section \<open>Splitting a period\<close>

text \<open>The parts follow each other from \<open>a\<close> to \<open>b\<close>, and each is a calendar unit cut to these days.\<close>

fun covers :: "unit_calendar \<Rightarrow> CalendarUnit \<Rightarrow> int \<Rightarrow> int \<Rightarrow> DateRange list \<Rightarrow> bool" where
  "covers cal u a b [] \<longleftrightarrow> a = b + 1"
| "covers cal u a b (p # ps) \<longleftrightarrow> dr_start p = a \<and> a \<le> dr_end p \<and>
     dr_end p = min b (cal_endOf cal u a) \<and> covers cal u (dr_end p + 1) b ps"

lemma split_from_covers:
  assumes laws: "calendar_laws cal timeZone" and "a \<le> b"
  shows "\<exists>ps. split_from cal u b a = Some ps \<and> covers cal u a b ps"
  using assms(2)
proof (induction "nat (b - a)" arbitrary: a rule: less_induct)
  case less
  let ?e = "cal_endOf cal u a"
  have next': "shift cal (cal_startOf cal u a) u 1 = ?e + 1" and "a \<le> ?e"
    using unit_around [OF laws, where u = u and d = a] by (simp_all add: shift_def)
  show ?case
  proof (cases "?e < b")
    case True
    then have "nat (b - (?e + 1)) < nat (b - a)" and "?e + 1 \<le> b" using \<open>a \<le> ?e\<close> by auto
    from less.hyps [OF this] obtain ps
      where "split_from cal u b (?e + 1) = Some ps" "covers cal u (?e + 1) b ps" by blast
    with True less.prems \<open>a \<le> ?e\<close> show ?thesis
      by (subst split_from.simps) (simp add: next' rangeOf_def Let_def)
  next
    case False
    then have "split_from cal u b (?e + 1) = Some []" by (subst split_from.simps) simp
    with False less.prems \<open>a \<le> ?e\<close> show ?thesis
      by (subst split_from.simps) (simp add: next' rangeOf_def Let_def)
  qed
qed

lemma covers_within:
  "covers cal u a b ps \<Longrightarrow> p \<in> set ps \<Longrightarrow> a \<le> dr_start p \<and> dr_start p \<le> dr_end p \<and> dr_end p \<le> b"
  by (induction ps arbitrary: a) fastforce+

section \<open>Sums over the history\<close>

text \<open>The transactions that statistics of a space count, of one type and between two instants.\<close>

definition statistic_records :: "TransactionType \<Rightarrow> nat \<Rightarrow> int \<Rightarrow> int \<Rightarrow> db \<Rightarrow> transaction list" where
  "statistic_records ty spaceId from to s = filter (\<lambda>t.
     t_transaction_type t = ty \<and> from \<le> t_timestamp t \<and> t_timestamp t \<le> to \<and>
     (case (find_wallet (t_wallet_id t) s, find_category (t_category_id t) s) of
        (Some w, Some c) \<Rightarrow> w_space_id w = spaceId \<and> \<not> cat_is_system c | _ \<Rightarrow> False)) (transactions s)"

definition recorded :: "TransactionType \<Rightarrow> nat \<Rightarrow> int \<Rightarrow> int \<Rightarrow> db \<Rightarrow> int" where
  "recorded ty spaceId from to s = sum_list (map t_amount (statistic_records ty spaceId from to s))"

lemma map_lt_map_filter:
  "map lt_transaction (filter P (List.map_filter (load s) ts)) =
    filter (\<lambda>t. case load s t of None \<Rightarrow> False | Some l \<Rightarrow> P l) ts"
proof (induction ts)
  case (Cons t ts)
  show ?case
  proof (cases "load s t")
    case (Some l)
    then have "lt_transaction l = t" by (auto simp: load_def split: option.splits)
    with Cons Some show ?thesis by (simp add: List.map_filter_def)
  qed (use Cons in \<open>simp add: List.map_filter_def\<close>)
qed (simp add: List.map_filter_def)

lemma scope_records:
  "map lt_transaction (filter (\<lambda>l. t_transaction_type (lt_transaction l) = ty) (statisticsScope spaceId (Some a) b s)) =
    statistic_records ty spaceId a b s"
  unfolding statisticsScope_def filter_filter joined_def map_lt_map_filter statistic_records_def
  by (rule filter_cong) (auto simp: load_def split: option.split)

lemma or_zero_sql_sum [simp]: "or_zero (sql_sum xs) = sum_list xs"
  by (simp add: or_zero_def sql_sum_def)

abbreviation totals_of :: "LoadedTransaction list \<Rightarrow> StatisticsTotals" where
  "totals_of ls \<equiv> toStatisticsTotals (Some (selectStatisticsTotals ls))"

lemma totals_of_eq: "totals_of ls =
    (let amounts = (\<lambda>ty. sum_list (map (\<lambda>l. amount_of_type ty (lt_transaction l)) ls));
         counts = (\<lambda>ty. sum_list (map (\<lambda>l. count_of_type ty (lt_transaction l)) ls)) in
     \<lparr>st_income = amounts INCOME, st_incomeCount = counts INCOME,
      st_expense = amounts EXPENSE, st_expenseCount = counts EXPENSE\<rparr>)"
  by (simp add: toStatisticsTotals_def selectStatisticsTotals_def Let_def comp_def)

lemma totals_of_Nil: "totals_of [] = EMPTY_TOTALS" and toStatisticsTotals_None: "toStatisticsTotals None = EMPTY_TOTALS"
  by (simp_all add: totals_of_eq EMPTY_TOTALS_def) (simp add: toStatisticsTotals_def or_zero_def)

lemma amount_of_type_sum:
  "sum_list (map (\<lambda>l. amount_of_type ty (lt_transaction l)) ls) =
    sum_list (map t_amount (map lt_transaction (filter (\<lambda>l. t_transaction_type (lt_transaction l) = ty) ls)))"
  by (induction ls) (auto simp: amount_of_type_def)

lemma count_of_type_sum:
  "sum_list (map (\<lambda>l. count_of_type ty (lt_transaction l)) ls) =
    length (map lt_transaction (filter (\<lambda>l. t_transaction_type (lt_transaction l) = ty) ls))"
  by (induction ls) (auto simp: count_of_type_def)

lemma totals_of_scope: "totals_of (statisticsScope spaceId (Some a) b s) =
    \<lparr>st_income = recorded INCOME spaceId a b s, st_incomeCount = length (statistic_records INCOME spaceId a b s),
     st_expense = recorded EXPENSE spaceId a b s, st_expenseCount = length (statistic_records EXPENSE spaceId a b s)\<rparr>"
  unfolding totals_of_eq Let_def amount_of_type_sum count_of_type_sum scope_records recorded_def ..

lemma addTotals_filter:
  assumes "\<And>l. \<not> (p l \<and> q l)"
  shows "addTotals (totals_of (filter p ls)) (totals_of (filter q ls)) = totals_of (filter (\<lambda>l. p l \<or> q l) ls)"
proof (induction ls)
  case (Cons l ls)
  with assms [of l] show ?case
    by (cases "p l"; cases "q l") (simp_all add: addTotals_def totals_of_eq Let_def)
qed (simp add: addTotals_def totals_of_eq)

lemma sum_totals_by_key:
  assumes "\<forall>l \<in> set ls. key l < n"
  shows "fold (\<lambda>b a. addTotals a b) (map (\<lambda>i. totals_of (filter (\<lambda>l. key l = i) ls)) [0..<n]) EMPTY_TOTALS =
    totals_of ls"
proof -
  have "fold (\<lambda>b a. addTotals a b) (map (\<lambda>i. totals_of (filter (\<lambda>l. key l = i) ls)) [0..<n]) EMPTY_TOTALS =
      totals_of (filter (\<lambda>l. key l < n) ls)" for n :: nat
  proof (induction n)
    case (Suc n)
    then show ?case using addTotals_filter [of "\<lambda>l. key l < n" "\<lambda>l. key l = n" ls]
      by (simp add: less_Suc_eq)
  qed (simp add: totals_of_Nil)
  moreover have "filter (\<lambda>l. key l < n) ls = ls" using assms by simp
  ultimately show ?thesis by simp
qed

section \<open>Sums over intervals\<close>

lemma fold_set_index:
  assumes "distinct (map fst rws)" and "\<forall>(i, r) \<in> set rws. i < length xs"
  shows "fold (\<lambda>(i, r) xs. set_index xs i (f r)) rws xs =
    map (\<lambda>i. case map_of rws i of None \<Rightarrow> xs ! i | Some r \<Rightarrow> f r) [0..<length xs]"
  using assms
proof (induction rws arbitrary: xs)
  case Nil
  then show ?case by (simp add: map_nth)
next
  case (Cons e rws)
  obtain i r where e: "e = (i, r)" by (cases e)
  with Cons.prems have "i < length xs" and "map_of rws i = None"
    by (auto simp: map_of_eq_None_iff)
  with Cons e show ?case
    by (auto simp: set_index_def nth_list_update split: option.split intro!: map_cong)
qed

lemma interval_of_less: "es \<noteq> [] \<Longrightarrow> interval_of es t < length es"
  by (induction es t rule: interval_of.induct) auto

lemma interval_totals_eq:
  assumes "ends \<noteq> []"
  shows "getStatisticsIntervalTotals spaceId a b ends s =
    map (\<lambda>i. totals_of (filter (\<lambda>l. interval_of ends (t_timestamp (lt_transaction l)) = i)
      (statisticsScope spaceId (Some a) b s))) [0..<length ends]"
proof -
  let ?ls = "statisticsScope spaceId (Some a) b s"
  let ?key = "\<lambda>l. interval_of ends (t_timestamp (lt_transaction l))"
  let ?rws = "group_by ?key selectStatisticsTotals ?ls"
  have "fst e < length ends" if "e \<in> set ?rws" for e
    using that interval_of_less [OF assms] by (auto simp: group_by_def)
  then have bound: "\<forall>(i, r) \<in> set ?rws. i < length (map (\<lambda>_. toStatisticsTotals None) ends)" by auto
  have none: "filter (\<lambda>l. ?key l = i) ?ls = []" if "i \<notin> ?key ` set ?ls" for i
    using that by (auto simp: filter_empty_conv)
  show ?thesis
    unfolding getStatisticsIntervalTotals_def Let_def fold_set_index [where f = "\<lambda>r. toStatisticsTotals (Some r)",
        OF distinct_group_by bound]
    using none by (auto simp: map_of_group_by toStatisticsTotals_None totals_of_Nil simp del: map_of_filter_in)
qed

lemma interval_totals_no_ends:
  "getStatisticsIntervalTotals spaceId a b [] s =
    (let ls = statisticsScope spaceId (Some a) b s in if ls = [] then [] else [totals_of ls])"
proof -
  have "dedup (map (\<lambda>l. 0::nat) ls) = (if ls = [] then [] else [0])" for ls :: "LoadedTransaction list"
    by (induction ls) auto
  then show ?thesis by (simp add: getStatisticsIntervalTotals_def group_by_def Let_def set_index_def)
qed

lemma sum_of_interval_totals:
  "fold (\<lambda>b a. addTotals a b) (getStatisticsIntervalTotals spaceId a b ends s) EMPTY_TOTALS =
    totals_of (statisticsScope spaceId (Some a) b s)"
proof (cases "ends = []")
  case True
  then show ?thesis
    by (simp add: interval_totals_no_ends Let_def totals_of_Nil) (simp add: addTotals_def EMPTY_TOTALS_def)
next
  case False
  then show ?thesis
    unfolding interval_totals_eq [OF False] by (intro sum_totals_by_key) (simp add: interval_of_less)
qed

end
