(* ===== verification/TrendFacts.thy ===== *)
theory TrendFacts
  imports StatisticsFacts
begin

text \<open>
  Facts about periods and trends: the bounds of an accepted period, the intervals that tile it, and
  which records the bucket of an interval counts.
\<close>

section \<open>Intervals\<close>

text \<open>The intervals follow each other from the instant \<open>a\<close> to \<open>b\<close>; one may be empty.\<close>

fun intervals_tile :: "int \<Rightarrow> int \<Rightarrow> 'a TrendInterval_scheme list \<Rightarrow> bool" where
  "intervals_tile a b [] \<longleftrightarrow> a = b + 1"
| "intervals_tile a b (i # is) \<longleftrightarrow> bd_from i = a \<and> a \<le> bd_to i + 1 \<and> intervals_tile (bd_to i + 1) b is"

definition states_at :: "int \<Rightarrow> 'a TrendInterval_scheme list \<Rightarrow> bool" where
  "states_at asOf is \<longleftrightarrow> (\<forall>i \<in> set is. ti_state i = timeState (bd_from i) (bd_to i) asOf)"

abbreviation started :: "'a TrendInterval_scheme list \<Rightarrow> 'a TrendInterval_scheme list" where
  "started is \<equiv> filter (\<lambda>i. ti_state i \<noteq> Future) is"

lemma timeState_Future [simp]: "timeState a b t = Future \<longleftrightarrow> t < a"
  by (simp add: timeState_def)

lemma tile_from: "intervals_tile a b is \<Longrightarrow> i \<in> set is \<Longrightarrow> a \<le> bd_from i"
  by (induction "is" arbitrary: a) fastforce+

lemma none_started: "intervals_tile a b is \<Longrightarrow> states_at asOf is \<Longrightarrow> asOf < a \<Longrightarrow> started is = []"
  using tile_from by (fastforce simp: states_at_def filter_empty_conv)

lemma started_prefix:
  assumes "intervals_tile a b is" and "states_at asOf is" and "k < length is"
  shows "(ti_state (is ! k) \<noteq> Future \<longleftrightarrow> k < length (started is)) \<and>
    (k < length (started is) \<longrightarrow> started is ! k = is ! k)"
  using assms
proof (induction "is" arbitrary: a k)
  case (Cons i "is")
  have state: "ti_state i = timeState a (bd_to i) asOf" and rest: "states_at asOf is"
    using Cons.prems by (auto simp: states_at_def)
  show ?case
  proof (cases "asOf < a")
    case True
    then have none: "started (i # is) = []" using Cons.prems none_started by blast
    then have "ti_state ((i # is) ! k) = Future"
      using Cons.prems(3) by (metis (mono_tags, lifting) filter_empty_conv nth_mem)
    with none show ?thesis by simp
  next
    case False
    with Cons state rest show ?thesis by (cases k) auto
  qed
qed simp

lemma started_index:
  assumes "intervals_tile a b is" and "states_at asOf is" and "a \<le> t" "t \<le> asOf" "t \<le> b"
    and "k < length (started is)"
  shows "interval_of (map bd_to (started is)) t = k \<longleftrightarrow> bd_from (is ! k) \<le> t \<and> t \<le> bd_to (is ! k)"
  using assms
proof (induction "is" arbitrary: a k)
  case (Cons i "is")
  have from_i: "bd_from i = a" and "ti_state i \<noteq> Future" and rest: "states_at asOf is"
    and tile: "intervals_tile (bd_to i + 1) b is"
    using Cons.prems by (auto simp: states_at_def)
  then have split: "started (i # is) = i # started is" by simp
  show ?case
  proof (cases "started is")
    case Nil
    have "t \<le> bd_to i"
    proof (cases "is")
      case (Cons j js)
      with Nil tile rest have "asOf < bd_to i + 1" by (auto simp: states_at_def split: if_splits)
      with \<open>t \<le> asOf\<close> show ?thesis by simp
    qed (use tile \<open>t \<le> b\<close> in simp)
    with Nil split from_i Cons.prems show ?thesis by simp
  next
    case (Cons j js)
    then have index: "interval_of (map bd_to (started (i # is))) t =
        (if t \<le> bd_to i then 0 else Suc (interval_of (map bd_to (started is)) t))"
      using split by simp
    have later: "bd_to i + 1 \<le> bd_from (is ! m)" if "m < length is" for m
      using that tile tile_from nth_mem by blast
    show ?thesis
    proof (cases k)
      case 0
      with index from_i \<open>a \<le> t\<close> show ?thesis by simp
    next
      case (Suc m)
      then have m: "m < length (started is)" using Cons.prems(6) split by simp
      then have "m < length is" using length_filter_le [of _ "is"] by (meson less_le_trans)
      with later have "bd_to i + 1 \<le> bd_from (is ! m)" by blast
      moreover have "interval_of (map bd_to (started is)) t = m \<longleftrightarrow> bd_from (is ! m) \<le> t \<and> t \<le> bd_to (is ! m)"
        if "\<not> t \<le> bd_to i"
        using that Cons.IH [OF tile rest _ \<open>t \<le> asOf\<close> \<open>t \<le> b\<close> m] by simp
      ultimately show ?thesis using index Suc by auto
    qed
  qed
qed simp

lemma tile_le: "intervals_tile a b is \<Longrightarrow> a \<le> b + 1"
  by (induction "is" arbitrary: a) fastforce+

lemma tile_to: "intervals_tile a b is \<Longrightarrow> i \<in> set is \<Longrightarrow> bd_to i \<le> b"
  by (induction "is" arbitrary: a) (use tile_le in fastforce)+

section \<open>Buckets\<close>

text \<open>The sums of the intervals of a period that have started.\<close>

definition interval_amounts ::
  "nat \<Rightarrow> StatisticsPeriod \<Rightarrow> TrendInterval list \<Rightarrow> db \<Rightarrow> StatisticsTotals list" where
  "interval_amounts spaceId period is s = (case pd_actual_to period of None \<Rightarrow> []
     | Some to \<Rightarrow> getStatisticsIntervalTotals spaceId (bd_from period) to (map bd_to (started is)) s)"

definition period_ok :: "StatisticsPeriod \<Rightarrow> bool" where
  "period_ok p \<longleftrightarrow> pd_state p = timeState (bd_from p) (bd_to p) (pd_as_of p) \<and>
     pd_actual_to p = actual_end (pd_state p) (bd_to p) (pd_as_of p)"

lemma actual_to:
  assumes "period_ok p"
  shows "pd_actual_to p = (if pd_as_of p < bd_from p then None else Some (min (bd_to p) (pd_as_of p)))"
  using assms by (auto simp: period_ok_def actual_end_def timeState_def)

lemma interval_records:
  assumes tile: "intervals_tile (bd_from p) (bd_to p) is" and states: "states_at (pd_as_of p) is"
    and k: "k < length (started is)" "k < length is"
  shows "filter (\<lambda>l. interval_of (map bd_to (started is)) (t_timestamp (lt_transaction l)) = k)
      (statisticsScope spaceId (Some (bd_from p)) (min (bd_to p) (pd_as_of p)) s) =
    statisticsScope spaceId (Some (bd_from (is ! k))) (min (bd_to (is ! k)) (pd_as_of p)) s"
proof -
  have "bd_from p \<le> bd_from (is ! k)" and "bd_to (is ! k) \<le> bd_to p"
    using tile_from [OF tile] tile_to [OF tile] nth_mem [OF k(2)] by blast+
  moreover have "interval_of (map bd_to (started is)) t = k \<longleftrightarrow> bd_from (is ! k) \<le> t \<and> t \<le> bd_to (is ! k)"
    if "bd_from p \<le> t" "t \<le> min (bd_to p) (pd_as_of p)" for t
    using that by (intro started_index [OF tile states _ _ _ k(1)]) auto
  ultimately show ?thesis
    unfolding statisticsScope_def filter_filter by (intro filter_cong refl) auto
qed

lemma amounts_of_interval:
  assumes p: "period_ok p" and tile: "intervals_tile (bd_from p) (bd_to p) is"
    and states: "states_at (pd_as_of p) is" and k: "k < length is"
  shows "k < length (interval_amounts spaceId p is s) \<longleftrightarrow> ti_state (is ! k) \<noteq> Future" (is ?bound)
    and "ti_state (is ! k) \<noteq> Future \<Longrightarrow> interval_amounts spaceId p is s ! k =
      totals_of (statisticsScope spaceId (Some (bd_from (is ! k))) (min (bd_to (is ! k)) (pd_as_of p)) s)"
proof -
  have future: "ti_state (is ! k) \<noteq> Future \<longleftrightarrow> k < length (started is)"
    using started_prefix [OF tile states k] by blast
  have before: "interval_amounts spaceId p is s = []" if "started is = []"
  proof -
    obtain i js where "is = i # js" using k by (cases "is") auto
    with that tile states have "pd_as_of p < bd_from p" by (auto simp: states_at_def split: if_splits)
    then show ?thesis by (simp add: interval_amounts_def actual_to [OF p])
  qed
  have after: "interval_amounts spaceId p is s = map (\<lambda>i. totals_of (filter
      (\<lambda>l. interval_of (map bd_to (started is)) (t_timestamp (lt_transaction l)) = i)
      (statisticsScope spaceId (Some (bd_from p)) (min (bd_to p) (pd_as_of p)) s))) [0..<length (started is)]"
    if "started is \<noteq> []"
  proof -
    have "\<not> pd_as_of p < bd_from p" using none_started [OF tile states] that by blast
    with that show ?thesis by (simp add: interval_amounts_def actual_to [OF p] interval_totals_eq)
  qed
  show ?bound using future before after by (cases "started is = []") auto
  assume "ti_state (is ! k) \<noteq> Future"
  with future have started_k: "k < length (started is)" by blast
  then have "started is \<noteq> []" by auto
  with after started_k interval_records [OF tile states started_k k]
  show "interval_amounts spaceId p is s ! k =
      totals_of (statisticsScope spaceId (Some (bd_from (is ! k))) (min (bd_to (is ! k)) (pd_as_of p)) s)"
    by simp
qed

section \<open>Accepted periods\<close>

lemmas bounds_simps [simp] = Bounds.defs StatisticsPeriod.defs TrendInterval.defs PreviousPeriod.defs boundsOf_def

lemma period_range_ordered:
  assumes laws: "calendar_laws cal timeZone" and "period_range cal query zone asOf = Inr (dates, field)"
  shows "dr_start dates \<le> dr_end dates"
  using assms(2) order_trans [OF unit_around(1) [OF laws] unit_around(2) [OF laws]]
  by (auto simp: period_range_def and_then_eq_Inr guard_eq_Inr rangeOf_def Let_def split: option.splits)

lemma resolved_period:
  assumes "resolveStatisticsPeriod rt cal intl query now = Inr p"
  obtains dates field where
    "period_range cal query (pd_time_zone p) (pd_as_of p) = Inr (dates, field)"
    "Bounds.truncate p = boundsOf cal dates (pd_time_zone p)"
    "pd_type p = sq_period query" "pd_time_zone p = the (resolveTimeZone intl (sq_time_zone query))"
    "pd_as_of p = (case sq_as_of query of None \<Rightarrow> now | Some v \<Rightarrow> the (rt_Date rt v))"
    "period_ok p"
  using assms
  by (auto simp: resolveStatisticsPeriod_def and_then_eq_Inr Let_def period_ok_def intro: that)

lemma resolved_dates:
  assumes "resolveStatisticsPeriod rt cal intl query now = Inr p"
    and laws: "calendar_laws cal (pd_time_zone p)"
  obtains dates where "dr_start dates \<le> dr_end dates" "rangeOfPeriod cal p = Inr dates"
    "bd_from p = cal_startOfDay cal (dr_start dates) (pd_time_zone p)"
    "bd_to p = endOfDay cal (dr_end dates) (pd_time_zone p)"
proof -
  obtain dates field where dates: "period_range cal query (pd_time_zone p) (pd_as_of p) = Inr (dates, field)"
    and bounds: "Bounds.truncate p = boundsOf cal dates (pd_time_zone p)"
    by (rule resolved_period [OF assms(1)])
  have "rangeOfPeriod cal p = Inr dates"
    using bounds by (simp add: Bounds.truncate_def rangeOfPeriod_def parse_format [OF laws])
  with period_range_ordered [OF laws dates] bounds show ?thesis
    by (intro that) (simp_all add: Bounds.truncate_def)
qed

lemma trend_interval_simps [simp]:
  "bd_from (trend_interval cal p u r) = cal_startOfDay cal (dr_start r) (pd_time_zone p)"
  "bd_to (trend_interval cal p u r) = endOfDay cal (dr_end r) (pd_time_zone p)"
  "ti_state (trend_interval cal p u r) =
     timeState (cal_startOfDay cal (dr_start r) (pd_time_zone p)) (endOfDay cal (dr_end r) (pd_time_zone p)) (pd_as_of p)"
  by (simp_all add: trend_interval_def Let_def)

lemma covers_tile:
  assumes laws: "calendar_laws cal (pd_time_zone p)" and "covers cal u a b ps"
  shows "intervals_tile (cal_startOfDay cal a (pd_time_zone p)) (endOfDay cal b (pd_time_zone p))
    (map (trend_interval cal p u) ps)"
  using assms(2)
proof (induction ps arbitrary: a)
  case (Cons r ps)
  then have start: "dr_start r = a" and rest: "covers cal u (dr_end r + 1) b ps" and "a \<le> dr_end r + 1"
    unfolding covers.simps by (blast, blast, linarith)
  from Cons.IH [OF rest] days_follow [OF laws this(3)] start show ?case by (simp add: endOfDay_def)
qed (simp add: endOfDay_def)

lemma trend_intervals:
  assumes "resolveStatisticsPeriod rt cal intl query now = Inr p"
    and laws: "calendar_laws cal (pd_time_zone p)"
  obtains u dates ps where "trendGranularity cal p = Inr u" "rangeOfPeriod cal p = Inr dates"
    "covers cal u (dr_start dates) (dr_end dates) ps"
    "resolveTrendIntervals cal p u = Some (Inr (map (trend_interval cal p u) ps))"
    "intervals_tile (bd_from p) (bd_to p) (map (trend_interval cal p u) ps)"
    "states_at (pd_as_of p) (map (trend_interval cal p u) ps)"
proof -
  obtain dates where dates: "dr_start dates \<le> dr_end dates" "rangeOfPeriod cal p = Inr dates"
    "bd_from p = cal_startOfDay cal (dr_start dates) (pd_time_zone p)"
    "bd_to p = endOfDay cal (dr_end dates) (pd_time_zone p)"
    by (rule resolved_dates [OF assms])
  then obtain u where u: "trendGranularity cal p = Inr u"
    by (cases "TREND_GRANULARITY (pd_type p)") (auto simp: trendGranularity_def Let_def)
  obtain ps where ps: "split_from cal u (dr_end dates) (dr_start dates) = Some ps"
    "covers cal u (dr_start dates) (dr_end dates) ps"
    using split_from_covers [OF laws dates(1)] by blast
  show ?thesis
  proof (rule that [OF u dates(2) ps(2)])
    show "resolveTrendIntervals cal p u = Some (Inr (map (trend_interval cal p u) ps))"
      using dates(2) ps(1) by (simp add: resolveTrendIntervals_def splitRange_def)
    show "intervals_tile (bd_from p) (bd_to p) (map (trend_interval cal p u) ps)"
      using covers_tile [OF laws ps(2)] dates(3,4) by simp
    show "states_at (pd_as_of p) (map (trend_interval cal p u) ps)"
      by (simp add: states_at_def)
  qed
qed

section \<open>The buckets of a trend\<close>

lemma trend_bucket_simps [simp]:
  "bd_from (trend_bucket amounts (k, i)) = bd_from i" "bd_to (trend_bucket amounts (k, i)) = bd_to i"
  "ti_state (trend_bucket amounts (k, i)) = ti_state i"
  "bd_start_date (trend_bucket amounts (k, i)) = bd_start_date i"
  "bd_end_date (trend_bucket amounts (k, i)) = bd_end_date i"
  "tb_income (trend_bucket amounts (k, i)) = bucket_amount st_income amounts k"
  "tb_expense (trend_bucket amounts (k, i)) = bucket_amount st_expense amounts k"
  by (simp_all add: trend_bucket_def TrendInterval.extend_def TrendBucket.fields_def)

lemma buckets_tile:
  "length ks = length is \<Longrightarrow>
    intervals_tile a b (map (trend_bucket amounts) (zip ks is)) = intervals_tile a b is"
  by (induction ks "is" arbitrary: a rule: list_induct2) simp_all

lemma buckets_bounds:
  "length ks = length is \<Longrightarrow>
    map Bounds.truncate (map (trend_bucket amounts) (zip ks is)) = map Bounds.truncate is"
  by (induction ks "is" rule: list_induct2) simp_all

lemma trend_interval_bounds: "Bounds.truncate (trend_interval cal p u r) = boundsOf cal r (pd_time_zone p)"
  by (simp add: trend_interval_def Let_def Bounds.truncate_def)

text \<open>What a bucket shows of the history: nothing before its interval starts, then what is recorded so far.\<close>

definition bucket_figures :: "nat \<Rightarrow> int \<Rightarrow> db \<Rightarrow> TrendBucket \<Rightarrow> string option \<times> string option" where
  "bucket_figures spaceId asOf s bucket =
     (if asOf < bd_from bucket then (None, None)
      else let to = min (bd_to bucket) asOf in
        (Some (formatMoney (recorded INCOME spaceId (bd_from bucket) to s)),
         Some (formatMoney (recorded EXPENSE spaceId (bd_from bucket) to s))))"

lemma buckets_of_history:
  assumes p: "period_ok p" and tile: "intervals_tile (bd_from p) (bd_to p) is"
    and states: "states_at (pd_as_of p) is"
    and "bucket \<in> set (map (trend_bucket (interval_amounts spaceId p is s)) (zip [0..<length is] is))"
  shows "(tb_income bucket, tb_expense bucket) = bucket_figures spaceId (pd_as_of p) s bucket"
proof -
  obtain k where k: "k < length is"
    and bucket: "bucket = trend_bucket (interval_amounts spaceId p is s) (k, is ! k)"
    using assms(4) by (auto simp: set_zip)
  have "ti_state (is ! k) = Future \<longleftrightarrow> pd_as_of p < bd_from (is ! k)"
    using states k by (simp add: states_at_def)
  with amounts_of_interval [OF p tile states k, of spaceId s] show ?thesis
    by (auto simp: bucket bucket_figures_def bucket_amount_def totals_of_scope Let_def)
qed

end
