(* ===== verification/BreakdownFacts.thy ===== *)
theory BreakdownFacts
  imports StatisticsFacts
begin

text \<open>
  Facts about breakdowns: which groups stay and which are folded, that none is lost, and that the
  order in which the database returns the groups does not matter.
\<close>

section \<open>Folding groups\<close>

lemma sumOf_eq: "sumOf amount gs = sum_list (map amount gs)"
proof -
  have "fold (\<lambda>g sum. sum + amount g) gs n = n + sum_list (map amount gs)" for n
    by (induction gs arbitrary: n) simp_all
  then show ?thesis by (simp add: sumOf_def)
qed

lemma primary_count_le: "primary_count amount whole n gs \<le> min n (length gs)"
  by (induction amount whole n gs rule: primary_count.induct) auto

lemma primary_count_reach:
  "g \<in> set (take (primary_count amount whole n gs) gs) \<Longrightarrow> whole * OTHER_THRESHOLD_PERCENT \<le> amount g * 100"
  by (induction amount whole n gs rule: primary_count.induct) (auto split: if_splits)

text \<open>The loop stops at the first group below the threshold; in descending order all after it are.\<close>

lemma primary_count_stop:
  assumes "sorted (map (\<lambda>g. - amount g) gs)" and "primary_count amount whole n gs < n"
    and "g \<in> set (drop (primary_count amount whole n gs) gs)"
  shows "amount g * 100 < whole * OTHER_THRESHOLD_PERCENT"
  using assms
proof (induction amount whole n gs rule: primary_count.induct)
  case (1 amount whole limit g' gs)
  show ?case
  proof (cases "whole * OTHER_THRESHOLD_PERCENT \<le> amount g' * 100")
    case True
    with 1 show ?thesis by simp
  next
    case False
    with 1 have "g \<in> set (g' # gs)" and "\<forall>x \<in> set gs. amount x \<le> amount g'" by auto
    then have "amount g \<le> amount g'" by auto
    with False show ?thesis by simp
  qed
qed auto

definition group_order :: "('g \<Rightarrow> nat) \<Rightarrow> ('g \<Rightarrow> int) \<Rightarrow> 'g \<Rightarrow> int \<times> nat" where
  "group_order gid amount g = (- amount g, gid g)"

text \<open>What a folding promises: nothing lost, the order, the room, and the share of each part.\<close>

definition folds ::
  "('g \<Rightarrow> nat) \<Rightarrow> ('g \<Rightarrow> int) \<Rightarrow> 'g list \<Rightarrow> int \<Rightarrow> nat \<Rightarrow> 'g list \<Rightarrow> 'g list \<Rightarrow> bool" where
  "folds gid amount groups whole room primary folded \<longleftrightarrow>
     mset (primary @ folded) = mset (filter (\<lambda>g. 0 < amount g) groups) \<and>
     sorted (map (group_order gid amount) (primary @ folded)) \<and>
     length primary \<le> room \<and> (primary = [] \<longrightarrow> folded = []) \<and>
     (length primary = 1 \<or> (\<forall>g \<in> set primary. whole * 3 \<le> amount g * 100)) \<and>
     (length primary = room \<or> (\<forall>g \<in> set folded. amount g * 100 < whole * 3))"

lemma sorted_amounts:
  "sorted (map (group_order gid amount) gs) \<Longrightarrow> sorted (map (\<lambda>g. - amount g) gs)"
  by (induction gs) (auto simp: group_order_def less_eq_prod_def)

lemma foldGroups_folds:
  assumes "0 < room" and "foldGroups gid amount groups whole room = (primary, folded)"
  shows "folds gid amount groups whole room primary folded"
proof -
  define gs where "gs = sort_key (group_order gid amount) (filter (\<lambda>g. 0 < amount g) groups)"
  define limit where "limit = min room (length gs)"
  define n where "n = primary_count amount whole limit gs"
  define m where "m = (if n = 0 \<and> 0 < limit then 1 else n)"
  have "foldGroups gid amount groups whole room = (take m gs, drop m gs)"
    by (simp only: foldGroups_def Let_def m_def n_def limit_def gs_def group_order_def [abs_def])
  with assms(2) have parts: "primary = take m gs" "folded = drop m gs" by simp_all
  have "n \<le> limit" using primary_count_le [of amount whole limit gs] by (simp add: n_def)
  then have "m \<le> limit" by (simp add: m_def)
  then have m: "m \<le> room" "m \<le> length gs" by (simp_all add: limit_def)
  have "sorted (map (group_order gid amount) gs)" by (simp add: gs_def)
  then have desc: "sorted (map (\<lambda>g. - amount g) gs)" by (rule sorted_amounts)
  have stop: "amount g * 100 < whole * 3" if "n < limit" "g \<in> set (drop n gs)" for g
    using that primary_count_stop [OF desc, of whole limit g] by (simp add: n_def OTHER_THRESHOLD_PERCENT_def)
  have reach: "whole * 3 \<le> amount g * 100" if "g \<in> set (take n gs)" for g
    using that primary_count_reach [of g amount whole limit gs] by (simp add: n_def OTHER_THRESHOLD_PERCENT_def)
  have "length primary = room \<or> (\<forall>g \<in> set folded. amount g * 100 < whole * 3)"
  proof (cases "n < limit")
    case True
    moreover have "set (drop m gs) \<subseteq> set (drop n gs)"
      by (auto simp: m_def dest: in_set_dropD)
    ultimately show ?thesis using stop parts by blast
  next
    case False
    with \<open>n \<le> limit\<close> have "n = limit" by simp
    then show ?thesis using m parts assms(1) by (cases "room \<le> length gs") (auto simp: m_def limit_def dest: in_set_dropD)
  qed
  moreover have "length primary = 1 \<or> (\<forall>g \<in> set primary. whole * 3 \<le> amount g * 100)"
  proof (cases "n = 0")
    case True
    then show ?thesis using m by (cases "0 < limit") (auto simp: parts m_def limit_def)
  next
    case False
    then show ?thesis using reach by (auto simp: parts m_def)
  qed
  moreover have "primary = [] \<Longrightarrow> folded = []"
    using assms(1) by (auto simp: parts m_def limit_def split: if_splits)
  ultimately show ?thesis
    using m \<open>sorted (map (group_order gid amount) gs)\<close> by (simp add: folds_def parts) (simp add: gs_def)
qed

text \<open>The order of the groups is total on different ids, so their order does not matter.\<close>

lemma foldGroups_mset:
  assumes "mset groups' = mset groups" and "distinct (map gid groups)"
  shows "foldGroups gid amount groups' whole room = foldGroups gid amount groups whole room"
proof -
  let ?f = "filter (\<lambda>g. 0 < amount g)"
  have "sort_key (group_order gid amount) (?f groups') = sort_key (group_order gid amount) (?f groups)"
  proof (rule sort_key_inj_key_eq)
    show "mset (?f groups') = mset (sort_key (group_order gid amount) (?f groups))" using assms(1) by simp
    have "inj_on gid (set groups')" using assms mset_eq_setD by (metis distinct_map)
    then show "inj_on (group_order gid amount) (set (?f groups'))" by (auto simp: inj_on_def group_order_def)
  qed simp
  then show ?thesis by (simp add: foldGroups_def Let_def group_order_def [abs_def])
qed

section \<open>Breakdowns\<close>

definition deleted_groups :: "StatisticsWalletGroup list \<Rightarrow> StatisticsWalletGroup list" where
  "deleted_groups ws = filter (\<lambda>w. wg_isDeleted w \<and> 0 < wg_amount w) ws"

lemma sum_positive:
  "\<forall>g \<in> set gs. 0 \<le> amount g \<Longrightarrow> sum_list (map amount (filter (\<lambda>g. 0 < amount g) gs)) = (sum_list (map amount gs) :: int)"
  by (induction gs) (auto simp: order_le_less)

lemma sumOf_mset: "mset gs' = mset gs \<Longrightarrow> sumOf amount gs' = sumOf amount gs"
proof -
  have "sumOf amount gs = sum_mset (image_mset amount (mset gs))" for gs
    by (simp add: sumOf_eq sum_mset_sum_list flip: mset_map)
  then show "mset gs' = mset gs \<Longrightarrow> sumOf amount gs' = sumOf amount gs" by simp
qed

lemma folds_sum:
  assumes "folds gid amount gs whole room primary folded" and "\<forall>g \<in> set gs. 0 \<le> amount g"
  shows "sumOf amount primary + sumOf amount folded = sumOf amount gs"
proof -
  have "mset (primary @ folded) = mset (filter (\<lambda>g. 0 < amount g) gs)"
    using assms(1) unfolding folds_def by blast
  from sumOf_mset [OF this, of amount] assms(2) show ?thesis by (simp add: sumOf_eq sum_positive)
qed

lemma wallet_parts:
  obtains primary folded where
    "folds wg_id wg_amount (filter (\<lambda>w. \<not> wg_isDeleted w) ws) (sumOf wg_amount ws)
       (if deleted_groups ws \<noteq> [] then 5 else 6) primary folded"
    "wd_primary_items (buildWalletBreakdown ws) = map (wallet_item (sumOf wg_amount ws)) primary"
    "wd_other (buildWalletBreakdown ws) =
       otherOf wg_amount folded (map (wallet_item (sumOf wg_amount ws)) folded) (sumOf wg_amount ws)"
    "wd_source_count (buildWalletBreakdown ws) = length primary + length folded + length (deleted_groups ws)"
proof -
  let ?room = "if deleted_groups ws \<noteq> [] then 5 else 6 :: nat"
  obtain primary folded where f:
    "foldGroups wg_id wg_amount (filter (\<lambda>w. \<not> wg_isDeleted w) ws) (sumOf wg_amount ws) ?room = (primary, folded)"
    by (rule prod.exhaust)
  have room: "(if deleted_groups ws \<noteq> [] then MAX_PRIMARY_GROUPS - 1 else MAX_PRIMARY_GROUPS) = ?room"
    by (simp add: MAX_PRIMARY_GROUPS_def)
  have "folds wg_id wg_amount (filter (\<lambda>w. \<not> wg_isDeleted w) ws) (sumOf wg_amount ws) ?room primary folded"
    by (rule foldGroups_folds [OF _ f]) simp
  then show ?thesis
    by (rule that) (simp_all only: buildWalletBreakdown_def deleted_groups_def [symmetric] Let_def room f
      prod.case WalletBreakdown.simps)
qed

lemma category_parts:
  obtains primary folded where
    "folds cg_id cg_amount cs (sumOf cg_amount cs) 6 primary folded"
    "cb_primary_items (buildCategoryBreakdown cs) = map (category_item (sumOf cg_amount cs)) primary"
    "cb_other (buildCategoryBreakdown cs) =
       otherOf cg_amount folded (map (category_item (sumOf cg_amount cs)) folded) (sumOf cg_amount cs)"
    "cb_source_count (buildCategoryBreakdown cs) = length primary + length folded"
proof -
  obtain primary folded where f: "foldGroups cg_id cg_amount cs (sumOf cg_amount cs) 6 = (primary, folded)"
    by (rule prod.exhaust)
  have "folds cg_id cg_amount cs (sumOf cg_amount cs) 6 primary folded"
    by (rule foldGroups_folds [OF _ f]) simp
  then show ?thesis
    by (rule that) (simp_all add: buildCategoryBreakdown_def Let_def MAX_PRIMARY_GROUPS_def f)
qed

lemma wallet_breakdown_mset:
  assumes "mset ws' = mset ws" and "distinct (map wg_id ws)"
  shows "buildWalletBreakdown ws' = buildWalletBreakdown ws"
proof -
  let ?kept = "filter (\<lambda>w. \<not> wg_isDeleted w)"
  have whole: "sumOf wg_amount ws' = sumOf wg_amount ws"
    using assms(1) by (rule sumOf_mset)
  have mdel: "mset (deleted_groups ws') = mset (deleted_groups ws)"
    using assms(1) by (simp add: deleted_groups_def)
  have del: "length (deleted_groups ws') = length (deleted_groups ws)"
    "sumOf wg_amount (deleted_groups ws') = sumOf wg_amount (deleted_groups ws)"
    "deleted_groups ws' = [] \<longleftrightarrow> deleted_groups ws = []"
    using mset_eq_length [OF mdel] sumOf_mset [OF mdel] by auto
  have fold: "foldGroups wg_id wg_amount (?kept ws') n r = foldGroups wg_id wg_amount (?kept ws) n r" for n r
    using assms by (intro foldGroups_mset) (simp_all add: distinct_map_filter)
  show ?thesis
    unfolding buildWalletBreakdown_def deleted_groups_def [symmetric] Let_def whole fold del ..
qed

lemma category_breakdown_mset:
  assumes "mset cs' = mset cs" and "distinct (map cg_id cs)"
  shows "buildCategoryBreakdown cs' = buildCategoryBreakdown cs"
proof -
  have "sumOf cg_amount cs' = sumOf cg_amount cs"
    using assms(1) by (rule sumOf_mset)
  with foldGroups_mset [OF assms] show ?thesis by (simp add: buildCategoryBreakdown_def Let_def)
qed

lemma kept_and_deleted:
  "\<forall>w \<in> set ws. 0 \<le> wg_amount w \<Longrightarrow>
    sumOf wg_amount (filter (\<lambda>w. \<not> wg_isDeleted w) ws) + sumOf wg_amount (deleted_groups ws) = sumOf wg_amount ws"
  unfolding sumOf_eq deleted_groups_def by (induction ws) auto

lemma other_simps:
  "map_option oi_children (otherOf amount folded children whole) = (if folded = [] then None else Some children)"
  "map_option bi_amount (otherOf amount folded children whole) =
     (if folded = [] then None else Some (formatMoney (sumOf amount folded)))"
  "otherOf amount folded children whole = None \<longleftrightarrow> folded = []"
  by (simp_all add: otherOf_def serviceItem_def BreakdownItem.defs OtherItem.defs)

lemma deleted_item:
  "map_option (\<lambda>d. (dw_wallets_count d, bi_amount d)) (wd_deleted_wallets (buildWalletBreakdown ws)) =
    (if deleted_groups ws = [] then None
     else Some (length (deleted_groups ws), formatMoney (sumOf wg_amount (deleted_groups ws))))"
  "wd_deleted_wallets (buildWalletBreakdown ws) = None \<longleftrightarrow> deleted_groups ws = []"
  by (simp_all add: buildWalletBreakdown_def deleted_groups_def [symmetric] Let_def serviceItem_def
      BreakdownItem.defs DeletedWalletsItem.defs split: prod.split)

end
