(* ===== verification/StatisticsBlocks.thy ===== *)
theory StatisticsBlocks
  imports TrendFacts BreakdownFacts
begin

text \<open>
  What each of the three blocks answers, in terms of the history: the figures of a summary, the totals
  and buckets of a trend, the total of a breakdown; and the period a summary is compared with.
\<close>

section \<open>One load, three blocks\<close>

definition period_records :: "TransactionType \<Rightarrow> nat \<Rightarrow> StatisticsPeriod \<Rightarrow> db \<Rightarrow> transaction list" where
  "period_records ty spaceId p s = (case pd_actual_to p of None \<Rightarrow> []
     | Some to \<Rightarrow> statistic_records ty spaceId (bd_from p) to s)"

definition history_count :: "TransactionType \<Rightarrow> nat \<Rightarrow> StatisticsPeriod \<Rightarrow> db \<Rightarrow> MoneyCount" where
  "history_count ty spaceId p s = (let ts = period_records ty spaceId p s in
     \<lparr>mc_amount = formatMoney (sum_list (map t_amount ts)), mc_count = length ts\<rparr>)"

lemma query_truncate [simp]:
  "sq_period (StatisticsQueryDto.truncate q) = sq_period q"
  "sq_anchor_date (StatisticsQueryDto.truncate q) = sq_anchor_date q"
  "sq_from_date (StatisticsQueryDto.truncate q) = sq_from_date q"
  "sq_to_date (StatisticsQueryDto.truncate q) = sq_to_date q"
  "sq_time_zone (StatisticsQueryDto.truncate q) = sq_time_zone q"
  "sq_as_of (StatisticsQueryDto.truncate q) = sq_as_of q"
  by (simp_all add: StatisticsQueryDto.truncate_def)

lemma openBlock_truncate:
  "openBlock rt cal intl u sp (StatisticsQueryDto.truncate q) now s = openBlock rt cal intl u sp q now s"
  unfolding openBlock_def resolveStatisticsPeriod_def period_range_def checkPeriodFields_def query_truncate ..

lemma openBlock_resolved:
  assumes "openBlock rt cal intl u sp q now s = Inr block"
  shows "resolveStatisticsPeriod rt cal intl q now = Inr (sb_period block)"
  using assms by (auto simp: openBlock_def and_then_eq_Inr)

text \<open>With the same \<open>as_of\<close>, the time of the request only decides whether it is accepted.\<close>

lemma openBlock_same:
  assumes "sq_as_of q \<noteq> None"
    and "openBlock rt cal intl u sp q now s = Inr block" "openBlock rt cal intl u sp q now' s = Inr block'"
  shows "block' = block"
  using assms by (auto simp: openBlock_def resolveStatisticsPeriod_def and_then_eq_Inr Let_def split: option.splits)

lemma block_truncate [simp]:
  "StatisticsBlock.truncate (StatisticsBlock.extend block x) = block"
  "sb_period (StatisticsBlock.extend block x) = sb_period block"
  by (cases block; simp add: StatisticsBlock.defs)+

lemma scope_totals:
  "(case pd_actual_to p of None \<Rightarrow> EMPTY_TOTALS | Some to \<Rightarrow> getStatisticsTotals sp (bd_from p) to s) =
    \<lparr>st_income = sum_list (map t_amount (period_records INCOME sp p s)),
     st_incomeCount = length (period_records INCOME sp p s),
     st_expense = sum_list (map t_amount (period_records EXPENSE sp p s)),
     st_expenseCount = length (period_records EXPENSE sp p s)\<rparr>"
  by (simp add: period_records_def getStatisticsTotals_def totals_of_scope EMPTY_TOTALS_def recorded_def split: option.split)

lemma summary_figures:
  assumes "getStatisticsSummary rt cal intl u sp q now s = Inr r"
  obtains block where "openBlock rt cal intl u sp q now s = Inr block" "StatisticsBlock.truncate r = block"
    "fi_income (ss_figures r) = history_count INCOME sp (sb_period block) s"
    "fi_expense (ss_figures r) = history_count EXPENSE sp (sb_period block) s"
proof -
  obtain block where block: "openBlock rt cal intl u sp q now s = Inr block"
    using assms by (auto simp: getStatisticsSummary_def and_then_eq_Inr)
  with assms show ?thesis
    by (intro that [OF block])
      (auto simp: getStatisticsSummary_def and_then_eq_Inr Let_def scope_totals figuresOf_def
        history_count_def StatisticsBlock.defs StatisticsSummary.defs)
qed

lemma trend_totals:
  "sn_totals (build_trend sp block g is s) =
    (history_count INCOME sp (sb_period block) s, history_count EXPENSE sp (sb_period block) s)"
proof -
  let ?p = "sb_period block"
  have "fold (\<lambda>b a. addTotals a b) (case pd_actual_to ?p of None \<Rightarrow> []
      | Some to \<Rightarrow> getStatisticsIntervalTotals sp (bd_from ?p) to (map bd_to (started is)) s) EMPTY_TOTALS =
    (case pd_actual_to ?p of None \<Rightarrow> EMPTY_TOTALS | Some to \<Rightarrow> getStatisticsTotals sp (bd_from ?p) to s)"
    by (simp add: getStatisticsTotals_def sum_of_interval_totals split: option.split)
  then show ?thesis
    by (simp add: build_trend_def Let_def scope_totals figuresOf_def history_count_def StatisticsBlock.defs
        StatisticsTrend.defs)
qed

lemma build_trend_truncate: "StatisticsBlock.truncate (build_trend sp block g is s) = block"
  by (simp add: build_trend_def Let_def)

lemma group_sums:
  fixes h :: "'g \<Rightarrow> int"
  assumes "\<And>ls. h (agg ls) = sum_list (map f ls)"
  shows "sum_list (map h (map snd (group_by key agg rs))) = sum_list (map f rs)"
proof -
  have "map h (map snd (group_by key agg rs)) = map snd (group_by key (\<lambda>ls. sum_list (map f ls)) rs)"
    by (simp add: group_by_def assms)
  then show ?thesis by (simp only: sum_group_by)
qed

lemma type_scope_records:
  "map lt_transaction (statisticsTypeScope sp ty a b s) = statistic_records ty sp a b s"
  by (simp add: statisticsTypeScope_def scope_records)

lemma category_sums:
  "sumOf cg_amount (getStatisticsByCategory sp ty a b s) = sum_list (map t_amount (statistic_records ty sp a b s))"
  "sum_list (map (\<lambda>g. int (cg_count g)) (getStatisticsByCategory sp ty a b s)) = int (length (statistic_records ty sp a b s))"
proof -
  show "sumOf cg_amount (getStatisticsByCategory sp ty a b s) = sum_list (map t_amount (statistic_records ty sp a b s))"
    unfolding sumOf_eq getStatisticsByCategory_def type_scope_records [symmetric]
    by (subst group_sums [where f = "\<lambda>l. t_amount (lt_transaction l)"]) (simp_all add: Let_def comp_def)
  have "int (length ls) = (\<Sum>l\<leftarrow>ls. 1)" for ls :: "LoadedTransaction list"
    by (induction ls) simp_all
  then show "sum_list (map (\<lambda>g. int (cg_count g)) (getStatisticsByCategory sp ty a b s)) =
      int (length (statistic_records ty sp a b s))"
    unfolding getStatisticsByCategory_def type_scope_records [symmetric]
    by (subst group_sums [where f = "\<lambda>_. 1"]) (simp_all add: Let_def)
qed

lemma category_count:
  "fold (\<lambda>category n. n + cg_count category) (getStatisticsByCategory sp ty a b s) 0 =
    length (statistic_records ty sp a b s)"
proof -
  have "int (fold (\<lambda>g n. n + cg_count g) gs m) = int m + sum_list (map (\<lambda>g. int (cg_count g)) gs)" for gs m
    by (induction gs arbitrary: m) simp_all
  from this [of "getStatisticsByCategory sp ty a b s" 0] category_sums(2) [of sp ty a b s] show ?thesis by simp
qed

lemma wallet_sums:
  "sumOf wg_amount (getStatisticsByWallet sp ty a b s) = sum_list (map t_amount (statistic_records ty sp a b s))"
  unfolding sumOf_eq getStatisticsByWallet_def type_scope_records [symmetric]
  by (subst group_sums [where f = "\<lambda>l. t_amount (lt_transaction l)"]) (simp_all add: Let_def comp_def)

lemma breakdown_total:
  assumes "getBreakdown rt cal intl u sp q now s = Inr r"
  obtains block where "openBlock rt cal intl u sp q now s = Inr block" "StatisticsBlock.truncate r = block"
    "sk_total r = history_count (sk_transaction_type r) sp (sb_period block) s"
    "cb_total_amount (sk_by_category r) = mc_amount (sk_total r)"
    "wd_total_amount (sk_by_wallet r) = mc_amount (sk_total r)"
proof -
  obtain block where block: "openBlock rt cal intl u sp q now s = Inr block"
    using assms by (auto simp: getBreakdown_def and_then_eq_Inr)
  show ?thesis
  proof (cases "pd_actual_to (sb_period block)")
    case None
    with block assms show ?thesis
      by (intro that [OF block])
        (auto simp: getBreakdown_def Let_def history_count_def period_records_def buildCategoryBreakdown_def
          buildWalletBreakdown_def sumOf_def StatisticsBlock.defs StatisticsBreakdown.defs split: prod.splits)
  next
    case (Some to)
    with block assms show ?thesis
      by (intro that [OF block])
        (auto simp: getBreakdown_def Let_def history_count_def period_records_def buildCategoryBreakdown_def
          buildWalletBreakdown_def category_sums category_count wallet_sums StatisticsBlock.defs
          StatisticsBreakdown.defs split: prod.splits)
  qed
qed

text \<open>The buckets are the calendar units of the trend's granularity, cut to the days of the period.\<close>

definition unit_buckets :: "unit_calendar \<Rightarrow> StatisticsPeriod \<Rightarrow> StatisticsTrend \<Rightarrow> bool" where
  "unit_buckets cal p trend \<longleftrightarrow> trendGranularity cal p = Inr (sn_granularity trend) \<and>
     (\<exists>dates parts. rangeOfPeriod cal p = Inr dates \<and>
        covers cal (sn_granularity trend) (dr_start dates) (dr_end dates) parts \<and>
        map Bounds.truncate (sn_buckets trend) = map (\<lambda>r. boundsOf cal r (pd_time_zone p)) parts)"

lemma trend_answer:
  assumes laws: "calendar_laws cal (the (resolveTimeZone intl (sq_time_zone q)))"
    and block: "openBlock rt cal intl u sp q now s = Inr block"
  obtains trend where "getTrend rt cal intl u sp q now s = Some (Inr trend)"
    "StatisticsBlock.truncate trend = block" "unit_buckets cal (sb_period block) trend"
    "intervals_tile (bd_from (sb_period block)) (bd_to (sb_period block)) (sn_buckets trend)"
    "\<forall>bucket \<in> set (sn_buckets trend). (tb_income bucket, tb_expense bucket) =
       bucket_figures sp (pd_as_of (sb_period block)) s bucket"
proof -
  let ?p = "sb_period block"
  have resolved: "resolveStatisticsPeriod rt cal intl q now = Inr ?p"
    using block by (rule openBlock_resolved)
  obtain zone: "pd_time_zone ?p = the (resolveTimeZone intl (sq_time_zone q))" and ok: "period_ok ?p"
    using resolved by (rule resolved_period)
  have zone_laws: "calendar_laws cal (pd_time_zone ?p)" using laws zone by simp
  obtain g dates ps where g: "trendGranularity cal ?p = Inr g" and dates: "rangeOfPeriod cal ?p = Inr dates"
    "covers cal g (dr_start dates) (dr_end dates) ps"
    and answer: "resolveTrendIntervals cal ?p g = Some (Inr (map (trend_interval cal ?p g) ps))"
    and tile: "intervals_tile (bd_from ?p) (bd_to ?p) (map (trend_interval cal ?p g) ps)"
    and states: "states_at (pd_as_of ?p) (map (trend_interval cal ?p g) ps)"
    by (rule trend_intervals [OF resolved zone_laws])
  let ?is = "map (trend_interval cal ?p g) ps"
  let ?trend = "build_trend sp block g ?is s"
  have trend: "sn_buckets ?trend = map (trend_bucket (interval_amounts sp ?p ?is s)) (zip [0..<length ?is] ?is)"
    "sn_granularity ?trend = g"
    by (simp_all add: build_trend_def Let_def interval_amounts_def StatisticsBlock.defs StatisticsTrend.defs)
  have bounds: "map Bounds.truncate (sn_buckets ?trend) = map (\<lambda>r. boundsOf cal r (pd_time_zone ?p)) ps"
    unfolding trend by (subst buckets_bounds) (simp_all only: length_map length_upt minus_nat.diff_0 map_map comp_def trend_interval_bounds)
  show ?thesis
  proof (rule that)
    show "getTrend rt cal intl u sp q now s = Some (Inr ?trend)"
      using block g answer by (simp add: getTrend_def Let_def)
    show "StatisticsBlock.truncate ?trend = block" by (rule build_trend_truncate)
    show "unit_buckets cal ?p ?trend" unfolding unit_buckets_def trend(2) using g dates bounds by blast
    show "intervals_tile (bd_from ?p) (bd_to ?p) (sn_buckets ?trend)"
      unfolding trend using buckets_tile [of "[0..<length ?is]" ?is] tile by simp
    show "\<forall>bucket \<in> set (sn_buckets ?trend). (tb_income bucket, tb_expense bucket) =
       bucket_figures sp (pd_as_of ?p) s bucket"
      unfolding trend using buckets_of_history [OF ok tile states] by blast
  qed
qed

section \<open>A period and the one before it\<close>

lemma standard_period:
  assumes resolved: "resolveStatisticsPeriod rt cal intl q now = Inr p"
    and laws: "calendar_laws cal (pd_time_zone p)" and "STANDARD_UNIT (sq_period q) = Some unit"
  obtains anchor where "rangeOfPeriod cal p = Inr (rangeOf cal unit anchor)"
    "bd_from p = cal_startOfDay cal (cal_startOf cal unit anchor) (pd_time_zone p)"
    "bd_to p = endOfDay cal (cal_endOf cal unit anchor) (pd_time_zone p)"
    "sq_anchor_date q = None \<Longrightarrow> anchor = cal_dateAt cal (pd_as_of p) (pd_time_zone p)"
proof -
  obtain dates field where dates: "period_range cal q (pd_time_zone p) (pd_as_of p) = Inr (dates, field)"
    and bounds: "Bounds.truncate p = boundsOf cal dates (pd_time_zone p)"
    by (rule resolved_period [OF resolved])
  obtain anchor where anchor: "dates = rangeOf cal unit anchor"
    "sq_anchor_date q = None \<Longrightarrow> anchor = cal_dateAt cal (pd_as_of p) (pd_time_zone p)"
    using dates assms(3) by (auto simp: period_range_def and_then_eq_Inr split: option.splits)
  have "rangeOfPeriod cal p = Inr dates"
    using bounds by (simp add: Bounds.truncate_def rangeOfPeriod_def parse_format [OF laws])
  with anchor bounds show ?thesis
    by (intro that [of anchor]) (simp_all add: Bounds.truncate_def rangeOf_def)
qed

lemma current_period:
  assumes resolved: "resolveStatisticsPeriod rt cal intl q now = Inr p"
    and laws: "calendar_laws cal (pd_time_zone p)"
    and "sq_period q \<noteq> CUSTOM" and "sq_anchor_date q = None"
  shows "pd_state p = Current"
proof -
  obtain u where unit: "STANDARD_UNIT (sq_period q) = Some u" using assms(3) by (cases "sq_period q") auto
  let ?tz = "pd_time_zone p" and ?d = "cal_dateAt cal (pd_as_of p) (pd_time_zone p)"
  obtain anchor where "bd_from p = cal_startOfDay cal (cal_startOf cal u anchor) ?tz"
    "bd_to p = endOfDay cal (cal_endOf cal u anchor) ?tz" "sq_anchor_date q = None \<Longrightarrow> anchor = ?d"
    using standard_period [OF resolved laws unit] by metis
  then have bounds: "bd_from p = cal_startOfDay cal (cal_startOf cal u ?d) ?tz"
    "bd_to p = cal_startOfDay cal (cal_endOf cal u ?d + 1) ?tz - 1" using assms(4) by (simp_all add: endOfDay_def)
  have "cal_startOfDay cal ?d ?tz \<le> pd_as_of p" "pd_as_of p < cal_startOfDay cal (?d + 1) ?tz"
    using laws by (simp_all add: calendar_laws_def days_tile_def)
  moreover have "cal_startOfDay cal (cal_startOf cal u ?d) ?tz \<le> cal_startOfDay cal ?d ?tz"
    "cal_startOfDay cal (?d + 1) ?tz \<le> cal_startOfDay cal (cal_endOf cal u ?d + 1) ?tz"
    using unit_around(1,2) [OF laws] by (intro days_follow [OF laws]; simp)+
  moreover have "period_ok p" by (rule resolved_period [OF resolved])
  ultimately show ?thesis using bounds by (simp add: period_ok_def timeState_def)
qed

text \<open>
  \<open>q\<close> is the calendar unit before the one of \<open>p\<close>: the whole unit around a day \<open>d\<close>, whose last day is the one
  before the first day of \<open>p\<close>, so that one unit added to its first day gives the first day of \<open>p\<close>.
\<close>

definition unit_before :: "unit_calendar \<Rightarrow> StatisticsPeriod \<Rightarrow> PreviousPeriod \<Rightarrow> bool" where
  "unit_before cal p q \<longleftrightarrow> (\<exists>unit dates d. STANDARD_UNIT (pd_type p) = Some unit \<and>
     rangeOfPeriod cal p = Inr dates \<and>
     cal_endOf cal unit d + 1 = dr_start dates \<and> cal_plus cal unit (cal_startOf cal unit d) 1 = dr_start dates \<and>
     bd_start_date q = cal_format cal (cal_startOf cal unit d) \<and> bd_end_date q = cal_format cal (cal_endOf cal unit d) \<and>
     bd_from q = cal_startOfDay cal (cal_startOf cal unit d) (pd_time_zone p) \<and>
     bd_to q + 1 = cal_startOfDay cal (cal_endOf cal unit d + 1) (pd_time_zone p))"

definition right_before :: "unit_calendar \<Rightarrow> StatisticsPeriod \<Rightarrow> PreviousPeriod \<Rightarrow> bool" where
  "right_before cal p q \<longleftrightarrow> unit_before cal p q \<and> bd_to q + 1 = bd_from p \<and> bd_from q \<le> bd_to q + 1 \<and>
     pp_actual_to q = (if pd_state p = Past then bd_to q
       else min (bd_to q) (cal_plusInstant cal (pd_time_zone p) (the (STANDARD_UNIT (pd_type p))) (pd_as_of p) (- 1)))"

lemma previous_resolved:
  assumes resolved: "resolveStatisticsPeriod rt cal intl q now = Inr p"
    and laws: "calendar_laws cal (pd_time_zone p)"
  obtains prev where "resolvePreviousPeriod cal p = Inr prev"
    "prev = None \<longleftrightarrow> pd_type p = CUSTOM \<or> pd_state p = Future" "\<forall>r. prev = Some r \<longrightarrow> right_before cal p r"
proof (cases "STANDARD_UNIT (sq_period q)")
  case None
  moreover have "pd_type p = sq_period q" by (rule resolved_period [OF resolved])
  ultimately show ?thesis by (cases "sq_period q") (auto simp: resolvePreviousPeriod_def intro: that)
next
  case (Some u)
  have type: "pd_type p = sq_period q" by (rule resolved_period [OF resolved])
  then have "pd_type p \<noteq> CUSTOM" using Some by auto
  obtain anchor where dates: "rangeOfPeriod cal p = Inr (rangeOf cal u anchor)"
    "bd_from p = cal_startOfDay cal (cal_startOf cal u anchor) (pd_time_zone p)"
    using standard_period [OF resolved laws Some] by metis
  let ?x = "cal_plus cal u (cal_startOf cal u anchor) (- 1)" and ?tz = "pd_time_zone p"
  have x: "cal_startOf cal u ?x = ?x" "cal_endOf cal u ?x = cal_startOf cal u anchor - 1"
    by (rule unit_around [OF laws])+
  moreover have "?x \<le> cal_endOf cal u ?x" by (rule unit_around(2) [OF laws])
  ultimately have order: "cal_startOfDay cal ?x ?tz \<le> cal_startOfDay cal (cal_startOf cal u anchor) ?tz"
    by (intro days_follow [OF laws]) simp
  show ?thesis
  proof (cases "pd_state p = Future")
    case True
    with Some type show ?thesis by (intro that [of None]) (simp_all add: resolvePreviousPeriod_def)
  next
    case False
    define r where "r = Bounds.extend (boundsOf cal (rangeOf cal u ?x) ?tz) (PreviousPeriod.fields
      (let actualTo = (if pd_state p = Past then endOfDay cal (cal_endOf cal u ?x) ?tz
           else cal_plusInstant cal ?tz u (pd_as_of p) (- 1)) in
       if actualTo < endOfDay cal (cal_endOf cal u ?x) ?tz then actualTo else endOfDay cal (cal_endOf cal u ?x) ?tz))"
    have "resolvePreviousPeriod cal p = Inr (Some r)"
      using False Some type dates(1)
      by (simp add: resolvePreviousPeriod_def Let_def r_def rangeOf_def shift_def shiftInstant_def)
    moreover have "unit_before cal p r"
      unfolding unit_before_def
    proof (intro exI conjI)
      show "STANDARD_UNIT (pd_type p) = Some u" using Some type by simp
      show "cal_plus cal u (cal_startOf cal u ?x) 1 = dr_start (rangeOf cal u anchor)"
        unfolding unit_around(5) [OF laws] x(2) by (simp add: rangeOf_def)
    qed (use dates(1) x in \<open>simp_all add: r_def rangeOf_def endOfDay_def\<close>)
    then have "right_before cal p r"
      using x order dates(2) Some type by (simp add: right_before_def r_def Let_def rangeOf_def endOfDay_def min_def)
    ultimately show ?thesis using False \<open>pd_type p \<noteq> CUSTOM\<close> by (intro that [of "Some r"]) simp_all
  qed
qed

end
