(* ===== verification/StatisticsProperties.thy ===== *)
theory StatisticsProperties
  imports StatisticsBlocks Examples
begin

text \<open>
  The properties of the statistics: a trend tiles its period and shows what the history holds, the
  three blocks of one load agree with each other and with the history, a breakdown loses nothing, and
  a period is compared with the one right before it.
\<close>

section \<open>An example\<close>

text \<open>A calendar of days of 24 hours, months of thirty days and years of twelve months, in one zone.\<close>

fun ex_days :: "CalendarUnit \<Rightarrow> int" where
  "ex_days Days = 1" | "ex_days Weeks = 7" | "ex_days Months = 30" | "ex_days Years = 360"

definition ex_day_ms :: int where "ex_day_ms = 86400000"

definition ex_cal :: unit_calendar where
  "ex_cal = \<lparr>cal_dateAt = (\<lambda>t _. t div ex_day_ms), cal_startOfDay = (\<lambda>d _. d * ex_day_ms), cal_format = formatMoney,
     cal_parse = matchMoney, cal_startOf = (\<lambda>u d. d - d mod ex_days u),
     cal_endOf = (\<lambda>u d. d - d mod ex_days u + ex_days u - 1), cal_plus = (\<lambda>u d n. d + n * ex_days u),
     cal_toFormat = (\<lambda>_. formatMoney), cal_plusInstant = (\<lambda>_ u t n. t + n * ex_days u * ex_day_ms)\<rparr>"

lemma ex_cal_simps [simp]:
  "cal_dateAt ex_cal t z = t div ex_day_ms" "cal_startOfDay ex_cal d z = d * ex_day_ms"
  "cal_startOf ex_cal u d = d - d mod ex_days u" "cal_endOf ex_cal u d = d - d mod ex_days u + ex_days u - 1"
  "cal_plus ex_cal u d n = d + n * ex_days u" "cal_plusInstant ex_cal z u t n = t + n * ex_days u * ex_day_ms"
  "cal_parse ex_cal = matchMoney" "cal_format ex_cal = formatMoney"
  by (simp_all add: ex_cal_def)

lemma ex_cal_laws: "calendar_laws ex_cal zone"
proof -
  have "units_tile ex_cal u d" for u d
  proof -
    define n where "n = ex_days u"
    have "0 < n" unfolding n_def by (cases u) simp_all
    moreover have "d - d mod n = n * (d div n)" by (simp add: minus_mod_eq_mult_div)
    moreover have "n * (d div n) \<le> d" "d \<le> n * (d div n) + n - 1"
      using \<open>0 < n\<close> pos_mod_bound [of n d] mult_div_mod_eq [of n d] pos_mod_sign [of n d] by linarith+
    moreover have "(n * (d div n) - n) mod n = 0" by (metis minus_mod_self2 mod_mult_self1_is_0)
    ultimately show ?thesis by (simp add: units_tile_def Let_def flip: n_def)
  qed
  moreover have "days_tile ex_cal zone"
    by (simp add: days_tile_def ex_day_ms_def) presburger
  ultimately show ?thesis by (simp add: calendar_laws_def matchMoney_formatMoney)
qed

text \<open>Two expenses and an income on days 95, 99 and 100, and a record of the month before.\<close>

definition ex_records :: "transaction list" where
  "ex_records = [ex_transaction ''a'' (95 * ex_day_ms) 250, ex_transaction ''b'' (99 * ex_day_ms) 750,
     (ex_transaction ''c'' (100 * ex_day_ms) 5000)\<lparr>t_category_id := 1, t_transaction_type := INCOME\<rparr>,
     ex_transaction ''d'' (80 * ex_day_ms) 400]"

definition ex_stat_db :: db where
  "ex_stat_db = ex_db\<lparr>transactions := ex_records\<rparr>"

definition ex_stat_rt :: runtime where
  "ex_stat_rt = ex_rt\<lparr>rt_Date := (\<lambda>_. Some (100 * ex_day_ms + 5))\<rparr>"

definition ex_month :: StatisticsBreakdownQueryDto where
  "ex_month = \<lparr>sq_period = MONTH, sq_anchor_date = None, sq_from_date = None, sq_to_date = None,
     sq_time_zone = ''Europe/Moscow'', sq_as_of = Some ''now'', sq_transaction_type = None\<rparr>"

definition ex_period :: StatisticsPeriod where
  "ex_period = \<lparr>bd_start_date = formatMoney 90, bd_end_date = formatMoney 119, bd_from = 90 * ex_day_ms,
     bd_to = 120 * ex_day_ms - 1, pd_type = MONTH, pd_time_zone = ''Europe/Moscow'',
     pd_as_of = 100 * ex_day_ms + 5, pd_actual_to = Some (100 * ex_day_ms + 5), pd_state = Current\<rparr>"

lemma ex_zone [simp]: "resolveTimeZone Some ''Europe/Moscow'' = Some ''Europe/Moscow''"
  by (simp add: resolveTimeZone_def)

lemma ex_resolved: "resolveStatisticsPeriod ex_stat_rt ex_cal Some ex_month (100 * ex_day_ms) = Inr ex_period"
  by (simp add: resolveStatisticsPeriod_def ex_month_def checkPeriodFields_def period_range_def Let_def
      AS_OF_CLOCK_SKEW_MS_def CLOCK_SKEW_MS_def ex_stat_rt_def rangeOf_def endOfDay_def TIMESTAMP_MIN_def
      TIMESTAMP_MAX_def timeState_def actual_end_def ex_period_def ex_day_ms_def)

lemma ex_block: "openBlock ex_stat_rt ex_cal Some 1 1 ex_month (100 * ex_day_ms) ex_stat_db =
    Inr \<lparr>sb_period = ex_period, sb_currency = ''EUR''\<rparr>"
  by (simp add: openBlock_def ex_resolved)
    (simp add: assertMembership_def getSpace_def find_space_def find_currency_def find_member_def ex_stat_db_def
      ex_tables)

lemma ex_positive_ms [simp]: "0 < ex_day_ms" by (simp add: ex_day_ms_def)

section \<open>Properties\<close>

text \<open>C21. A trend is always answered, with the calendar units of its granularity as buckets: they tile
  the period, from its first instant to its last, and a bucket shows exactly the sums of the history in
  its interval up to \<open>as_of\<close>, or nothing when it has not started.\<close>

theorem trend_of_history:
  assumes "calendar_laws cal (the (resolveTimeZone intl (sq_time_zone query)))"
    and "openBlock rt cal intl userId spaceId query now s = Inr block"
  shows "\<exists>trend. getTrend rt cal intl userId spaceId query now s = Some (Inr trend) \<and>
    StatisticsBlock.truncate trend = block \<and> unit_buckets cal (sb_period block) trend \<and>
    intervals_tile (bd_from (sb_period block)) (bd_to (sb_period block)) (sn_buckets trend) \<and>
    (\<forall>bucket \<in> set (sn_buckets trend). (tb_income bucket, tb_expense bucket) =
       bucket_figures spaceId (pd_as_of (sb_period block)) s bucket)"
  by (rule trend_answer [OF assms]) blast

theorem trend_of_history_witness:
  "\<exists>trend. getTrend ex_stat_rt ex_cal Some 1 1 ex_month (100 * ex_day_ms) ex_stat_db = Some (Inr trend) \<and>
    intervals_tile (90 * ex_day_ms) (120 * ex_day_ms - 1) (sn_buckets trend)"
  using trend_of_history [OF ex_cal_laws ex_block] by (auto simp: ex_period_def)

text \<open>C20. Whenever they are asked, the summary, the trend and the breakdown of one load have the same
  period and currency, and their control sums agree: each is the sum and the number of the records
  of the space in the period up to \<open>as_of\<close>, of all wallets and without initial balances.\<close>

theorem blocks_agree:
  assumes "sq_as_of query \<noteq> None"
    and "getStatisticsSummary rt cal intl userId spaceId (StatisticsQueryDto.truncate query) now1 s = Inr summary"
    and "getTrend rt cal intl userId spaceId (StatisticsQueryDto.truncate query) now2 s = Some (Inr trend)"
    and "getBreakdown rt cal intl userId spaceId query now3 s = Inr breakdown"
  shows "StatisticsBlock.truncate trend = StatisticsBlock.truncate summary \<and>
    StatisticsBlock.truncate breakdown = StatisticsBlock.truncate summary \<and>
    sn_totals trend = (fi_income (ss_figures summary), fi_expense (ss_figures summary)) \<and>
    fi_income (ss_figures summary) = history_count INCOME spaceId (sb_period summary) s \<and>
    fi_expense (ss_figures summary) = history_count EXPENSE spaceId (sb_period summary) s \<and>
    sk_total breakdown = history_count (sk_transaction_type breakdown) spaceId (sb_period summary) s \<and>
    cb_total_amount (sk_by_category breakdown) = mc_amount (sk_total breakdown) \<and>
    wd_total_amount (sk_by_wallet breakdown) = mc_amount (sk_total breakdown)"
proof -
  obtain block where block: "openBlock rt cal intl userId spaceId query now1 s = Inr block"
    and summary: "StatisticsBlock.truncate summary = block"
      "fi_income (ss_figures summary) = history_count INCOME spaceId (sb_period block) s"
      "fi_expense (ss_figures summary) = history_count EXPENSE spaceId (sb_period block) s"
    using summary_figures [OF assms(2)] unfolding openBlock_truncate by blast
  have same: "block' = block" if "openBlock rt cal intl userId spaceId query now' s = Inr block'" for block' now'
    using openBlock_same [OF assms(1) block that] .
  obtain block2 where block2: "openBlock rt cal intl userId spaceId query now2 s = Inr block2"
    and trend: "StatisticsBlock.truncate trend = block2" "sn_totals trend =
      (history_count INCOME spaceId (sb_period block2) s, history_count EXPENSE spaceId (sb_period block2) s)"
    using assms(3) by (auto simp: getTrend_def Let_def openBlock_truncate and_then_eq_Inr trend_totals
        build_trend_truncate split: sum.splits)
  obtain block3 where block3: "openBlock rt cal intl userId spaceId query now3 s = Inr block3"
    and breakdown: "StatisticsBlock.truncate breakdown = block3"
      "sk_total breakdown = history_count (sk_transaction_type breakdown) spaceId (sb_period block3) s"
      "cb_total_amount (sk_by_category breakdown) = mc_amount (sk_total breakdown)"
      "wd_total_amount (sk_by_wallet breakdown) = mc_amount (sk_total breakdown)"
    by (rule breakdown_total [OF assms(4)])
  have "sb_period summary = sb_period block" using summary(1) by (auto simp: StatisticsBlock.truncate_def)
  with summary trend breakdown same [OF block2] same [OF block3] show ?thesis by simp
qed

lemma ex_answers:
  "\<exists>r. getStatisticsSummary ex_stat_rt ex_cal Some 1 1 (StatisticsQueryDto.truncate ex_month) (100 * ex_day_ms) ex_stat_db = Inr r"
  "\<exists>r. getTrend ex_stat_rt ex_cal Some 1 1 (StatisticsQueryDto.truncate ex_month) (100 * ex_day_ms) ex_stat_db = Some (Inr r)"
  "\<exists>r. getBreakdown ex_stat_rt ex_cal Some 1 1 ex_month (100 * ex_day_ms) ex_stat_db = Inr r"
proof -
  obtain prev where "resolvePreviousPeriod ex_cal ex_period = Inr prev"
    by (rule previous_resolved [OF ex_resolved ex_cal_laws])
  then show "\<exists>r. getStatisticsSummary ex_stat_rt ex_cal Some 1 1 (StatisticsQueryDto.truncate ex_month) (100 * ex_day_ms) ex_stat_db = Inr r"
    by (simp add: getStatisticsSummary_def openBlock_truncate ex_block [unfolded One_nat_def] Let_def)
  show "\<exists>r. getTrend ex_stat_rt ex_cal Some 1 1 (StatisticsQueryDto.truncate ex_month) (100 * ex_day_ms) ex_stat_db = Some (Inr r)"
    by (rule trend_answer [where q = "StatisticsQueryDto.truncate ex_month", OF ex_cal_laws])
      (auto simp: openBlock_truncate ex_block [unfolded One_nat_def])
  show "\<exists>r. getBreakdown ex_stat_rt ex_cal Some 1 1 ex_month (100 * ex_day_ms) ex_stat_db = Inr r"
    by (simp add: getBreakdown_def ex_block [unfolded One_nat_def] Let_def split: prod.split)
qed

lemma ex_expenses: "history_count EXPENSE 1 ex_period ex_stat_db = \<lparr>mc_amount = formatMoney 1000, mc_count = 2\<rparr>"
  by (simp add: history_count_def period_records_def ex_period_def statistic_records_def Let_def find_wallet_def
      find_category_def ex_stat_db_def ex_records_def ex_tables ex_day_ms_def)

theorem blocks_agree_witness:
  "\<exists>summary trend breakdown.
    getStatisticsSummary ex_stat_rt ex_cal Some 1 1 (StatisticsQueryDto.truncate ex_month) (100 * ex_day_ms) ex_stat_db
      = Inr summary \<and>
    getTrend ex_stat_rt ex_cal Some 1 1 (StatisticsQueryDto.truncate ex_month) (100 * ex_day_ms) ex_stat_db
      = Some (Inr trend) \<and>
    getBreakdown ex_stat_rt ex_cal Some 1 1 ex_month (100 * ex_day_ms) ex_stat_db = Inr breakdown \<and>
    snd (sn_totals trend) = fi_expense (ss_figures summary) \<and>
    sk_total breakdown = history_count (sk_transaction_type breakdown) 1 (sb_period summary) ex_stat_db"
proof -
  have "sq_as_of ex_month \<noteq> None" by (simp add: ex_month_def)
  from blocks_agree [OF this, of ex_stat_rt ex_cal Some 1 1] ex_answers show ?thesis by (metis snd_conv)
qed

text \<open>C23. The breakdown by wallet loses nothing: every active wallet with a sum is an item or a child of
  Other, in descending order, deleted wallets are one item, and the sums add up to the total. At most
  seven segments are shown, the small ones only when there is no other; and the order in which the
  database returns the wallets does not matter.\<close>

theorem breakdown_keeps_all:
  assumes "\<forall>w \<in> set ws. 0 \<le> wg_amount w" and "distinct (map wg_id ws)"
  shows "\<exists>primary folded.
    folds wg_id wg_amount (filter (\<lambda>w. \<not> wg_isDeleted w) ws) (sumOf wg_amount ws)
      (if deleted_groups ws \<noteq> [] then 5 else 6) primary folded \<and>
    wd_primary_items (buildWalletBreakdown ws) = map (wallet_item (sumOf wg_amount ws)) primary \<and>
    map_option oi_children (wd_other (buildWalletBreakdown ws)) =
      (if folded = [] then None else Some (map (wallet_item (sumOf wg_amount ws)) folded)) \<and>
    map_option bi_amount (wd_other (buildWalletBreakdown ws)) =
      (if folded = [] then None else Some (formatMoney (sumOf wg_amount folded))) \<and>
    map_option (\<lambda>d. (dw_wallets_count d, bi_amount d)) (wd_deleted_wallets (buildWalletBreakdown ws)) =
      (if deleted_groups ws = [] then None
       else Some (length (deleted_groups ws), formatMoney (sumOf wg_amount (deleted_groups ws)))) \<and>
    sumOf wg_amount primary + sumOf wg_amount folded + sumOf wg_amount (deleted_groups ws) = sumOf wg_amount ws \<and>
    length primary + (if wd_other (buildWalletBreakdown ws) = None then 0 else 1) +
      (if wd_deleted_wallets (buildWalletBreakdown ws) = None then 0 else 1) \<le> 7 \<and>
    (\<forall>ws'. mset ws' = mset ws \<longrightarrow> buildWalletBreakdown ws' = buildWalletBreakdown ws)"
proof -
  let ?kept = "filter (\<lambda>w. \<not> wg_isDeleted w) ws"
  obtain primary folded where parts:
    "folds wg_id wg_amount ?kept (sumOf wg_amount ws) (if deleted_groups ws \<noteq> [] then 5 else 6) primary folded"
    "wd_primary_items (buildWalletBreakdown ws) = map (wallet_item (sumOf wg_amount ws)) primary"
    "wd_other (buildWalletBreakdown ws) =
       otherOf wg_amount folded (map (wallet_item (sumOf wg_amount ws)) folded) (sumOf wg_amount ws)"
    by (rule wallet_parts)
  have room: "length primary \<le> (if deleted_groups ws \<noteq> [] then 5 else 6)"
    using parts(1) unfolding folds_def by blast
  have kept: "sumOf wg_amount primary + sumOf wg_amount folded = sumOf wg_amount ?kept"
    using assms(1) by (intro folds_sum [OF parts(1)]) simp
  show ?thesis
  proof (rule exI [of _ primary], rule exI [of _ folded], intro conjI allI impI)
    show "sumOf wg_amount primary + sumOf wg_amount folded + sumOf wg_amount (deleted_groups ws) = sumOf wg_amount ws"
      unfolding kept using assms(1) by (rule kept_and_deleted)
    show "length primary + (if wd_other (buildWalletBreakdown ws) = None then 0 else 1) +
        (if wd_deleted_wallets (buildWalletBreakdown ws) = None then 0 else 1) \<le> 7"
      unfolding parts(3) other_simps(3) deleted_item(2) using room by (cases "deleted_groups ws = []") simp_all
    show "buildWalletBreakdown ws' = buildWalletBreakdown ws" if "mset ws' = mset ws" for ws'
      using that assms(2) by (rule wallet_breakdown_mset)
  qed (use parts in \<open>simp_all only: other_simps deleted_item\<close>)
qed

definition ex_groups :: "StatisticsWalletGroup list" where
  "ex_groups = [\<lparr>wg_id = 7, wg_name = ''Cash'', wg_design = AMBER, wg_isDeleted = False, wg_amount = 9900, wg_count = 3\<rparr>,
     \<lparr>wg_id = 8, wg_name = ''Card'', wg_design = CLAY, wg_isDeleted = False, wg_amount = 40, wg_count = 1\<rparr>,
     \<lparr>wg_id = 9, wg_name = ''Old'', wg_design = PLUM, wg_isDeleted = True, wg_amount = 60, wg_count = 1\<rparr>]"

theorem breakdown_keeps_all_witness:
  "map_option (\<lambda>d. (dw_wallets_count d, bi_amount d)) (wd_deleted_wallets (buildWalletBreakdown ex_groups)) =
     Some (1, formatMoney 60) \<and>
   buildWalletBreakdown (rev ex_groups) = buildWalletBreakdown ex_groups"
proof -
  have ok: "\<forall>w \<in> set ex_groups. 0 \<le> wg_amount w" "distinct (map wg_id ex_groups)"
    by (simp_all add: ex_groups_def)
  have deleted: "deleted_groups ex_groups = [ex_groups ! 2]" "wg_amount (ex_groups ! 2) = 60"
    by (simp_all add: ex_groups_def deleted_groups_def)
  from breakdown_keeps_all [OF ok] show ?thesis
  proof (elim exE conjE, goal_cases)
    case 1
    from 1(8) have "buildWalletBreakdown (rev ex_groups) = buildWalletBreakdown ex_groups"
      by (rule allE [where x = "rev ex_groups"]) (simp only: mset_rev)
    with 1(5) show ?case by (simp add: deleted sumOf_def)
  qed
qed

text \<open>C22. Without a date, a week, a month or a year is the current one. It is compared with the whole
  calendar unit right before it: from the start of the first day of that unit to the instant before the
  period starts, with the dates of that unit. The comparison goes up to the end of that unit when the
  period is over, else up to the same moment of it but never beyond its end; custom and future periods
  are compared with nothing.\<close>

theorem period_compared:
  assumes "resolveStatisticsPeriod rt cal intl query now = Inr p" and "calendar_laws cal (pd_time_zone p)"
  shows "(sq_period query \<noteq> CUSTOM \<and> sq_anchor_date query = None \<longrightarrow> pd_state p = Current) \<and>
    pd_actual_to p = (if pd_as_of p < bd_from p then None else Some (min (bd_to p) (pd_as_of p))) \<and>
    (\<exists>previous. resolvePreviousPeriod cal p = Inr previous \<and>
      (previous = None \<longleftrightarrow> pd_type p = CUSTOM \<or> pd_state p = Future) \<and>
      (\<forall>q. previous = Some q \<longrightarrow> right_before cal p q))"
proof (intro conjI impI)
  show "pd_state p = Current" if "sq_period query \<noteq> CUSTOM \<and> sq_anchor_date query = None"
    using current_period [OF assms] that by simp
  have "period_ok p" by (rule resolved_period [OF assms(1)])
  then show "pd_actual_to p = (if pd_as_of p < bd_from p then None else Some (min (bd_to p) (pd_as_of p)))"
    by (rule actual_to)
  show "\<exists>previous. resolvePreviousPeriod cal p = Inr previous \<and>
      (previous = None \<longleftrightarrow> pd_type p = CUSTOM \<or> pd_state p = Future) \<and>
      (\<forall>q. previous = Some q \<longrightarrow> right_before cal p q)"
    by (rule previous_resolved [OF assms]) blast
qed

theorem period_compared_witness:
  "\<exists>q. resolvePreviousPeriod ex_cal ex_period = Inr (Some q) \<and> bd_from q = 60 * ex_day_ms \<and>
    bd_to q = 90 * ex_day_ms - 1 \<and> pp_actual_to q = 70 * ex_day_ms + 5"
proof -
  have "pd_type ex_period \<noteq> CUSTOM" "pd_state ex_period = Current" "bd_from ex_period = 90 * ex_day_ms"
    by (simp_all add: ex_period_def)
  with period_compared [OF ex_resolved ex_cal_laws] obtain q
    where q: "resolvePreviousPeriod ex_cal ex_period = Inr (Some q)" "right_before ex_cal ex_period q" by force
  then have to: "bd_to q = 90 * ex_day_ms - 1" by (simp add: right_before_def ex_period_def)
  from q(2) obtain unit dates d where "STANDARD_UNIT (pd_type ex_period) = Some unit"
    "rangeOfPeriod ex_cal ex_period = Inr dates" "cal_endOf ex_cal unit d + 1 = dr_start dates"
    and "bd_from q = cal_startOfDay ex_cal (cal_startOf ex_cal unit d) (pd_time_zone ex_period)"
    unfolding right_before_def unit_before_def by blast
  moreover have "rangeOfPeriod ex_cal ex_period = Inr \<lparr>dr_start = 90, dr_end = 119\<rparr>"
    by (simp add: rangeOfPeriod_def parseCalendarDate_def need_def ex_period_def matchMoney_formatMoney)
  ultimately have "bd_from q = 60 * ex_day_ms" by (auto simp: ex_period_def)
  with q to show ?thesis by (simp add: right_before_def ex_period_def ex_day_ms_def)
qed

end
