(* ===== verification/Requests.thy ===== *)
theory Requests
  imports SpendingLimits StatisticsPeriods LinkFacts
begin

text \<open>
  Request parameters on their way to the services: the optional query pipes of \<open>shared/pipes\<close> and
  \<open>parse-optional-search.pipe.ts\<close>, the rules of a new password, the DTOs of password resets, and the
  two handlers that combine pipes with defaults, the count of transactions and the wallets overview.
  A parameter is a JSON value, \<open>JUndefined\<close> when it is absent; \<open>field\<close> is its name, if it has one.
\<close>

section \<open>Optional parameters\<close>

definition field_name :: "string option \<Rightarrow> string" where
  "field_name field = (case field of None \<Rightarrow> ''value'' | Some f \<Rightarrow> f)"

definition parse_optional_date :: "runtime \<Rightarrow> string option \<Rightarrow> js \<Rightarrow> exception + int option" where
  "parse_optional_date rt field value =
     (if value = JUndefined then Inr None
      else case (case value of JString s \<Rightarrow> parseIsoDate rt s | _ \<Rightarrow> None) of
        None \<Rightarrow> Inl (bad_field (field_name field) (field_name field @ '' must be a valid ISO 8601 date''))
      | Some date \<Rightarrow> Inr (Some date))"

text \<open>\<open>values\<close> are the members of the enumeration with their texts.\<close>

fun join_texts :: "string list \<Rightarrow> string" where
  "join_texts [] = []"
| "join_texts [s] = s"
| "join_texts (s # t # ts) = s @ '', '' @ join_texts (t # ts)"

definition parse_optional_enum :: "(string \<times> 'e) list \<Rightarrow> string option \<Rightarrow> js \<Rightarrow> exception + 'e option" where
  "parse_optional_enum values field value =
     (if value = JUndefined then Inr None
      else case (case value of JString s \<Rightarrow> map_of values s | _ \<Rightarrow> None) of
        None \<Rightarrow> Inl (bad_field (field_name field)
          (field_name field @ '' must be one of: '' @ join_texts (map fst values)))
      | Some member \<Rightarrow> Inr (Some member))"

definition MAX_ID :: nat where "MAX_ID = 2147483647"

text \<open>\<open>/^[1-9]\d{0,9}$/\<close> is the pattern of versions too; \<open>String(n)\<close> prints like \<open>JSON.stringify\<close>.\<close>

definition parse_optional_id :: "runtime \<Rightarrow> string option \<Rightarrow> js \<Rightarrow> exception + nat option" where
  "parse_optional_id rt field value =
     (if value = JUndefined then Inr None
      else let text = (case value of JNumber n \<Rightarrow> Some (rt_json rt n) | JString s \<Rightarrow> Some s | _ \<Rightarrow> None);
               i = (case text of None \<Rightarrow> None
                      | Some s \<Rightarrow> if is_version_digits s then Some (digits_val s) else None)
           in case i of
                None \<Rightarrow> Inl (bad_field (field_name field) (field_name field @ '' must be a positive integer id''))
              | Some n \<Rightarrow> if n \<le> MAX_ID then Inr (Some n)
                  else Inl (bad_field (field_name field) (field_name field @ '' must be a positive integer id'')))"

text \<open>An empty zone name is refused like an unknown one.\<close>

definition parse_optional_time_zone ::
  "(string \<Rightarrow> string option) \<Rightarrow> string option \<Rightarrow> js \<Rightarrow> exception + string option" where
  "parse_optional_time_zone intl field value =
     (if value = JUndefined then Inr None
      else let timeZone = (case value of JString s \<Rightarrow> resolveTimeZone intl s | _ \<Rightarrow> None)
           in if timeZone = None \<or> timeZone = Some []
              then Inl (bad_field (field_name field) (field_name field @ '' must be an IANA time zone name''))
              else Inr timeZone)"

definition SEARCH_TOO_LONG :: string where
  "SEARCH_TOO_LONG = ''q must be at most 255 characters''"

definition parse_optional_search :: "js \<Rightarrow> exception + string option" where
  "parse_optional_search value = (case value of
     JUndefined \<Rightarrow> Inr None
   | JString s \<Rightarrow> (case normalizeSearch s of
         None \<Rightarrow> Inr None
       | Some search \<Rightarrow> if isSearchWithinLimit search then Inr (Some search)
           else Inl (bad_field ''q'' SEARCH_TOO_LONG))
   | _ \<Rightarrow> Inl (bad_field ''q'' ''q must be a string''))"

section \<open>New passwords and password resets\<close>

definition NEW_PASSWORD_MIN_LENGTH :: nat where "NEW_PASSWORD_MIN_LENGTH = 8"
definition NEW_PASSWORD_MAX_BYTES :: nat where "NEW_PASSWORD_MAX_BYTES = 72"

definition is_letter :: "char \<Rightarrow> bool" where
  "is_letter c \<longleftrightarrow> (let n = (of_char c :: nat) in 65 \<le> n \<and> n \<le> 90 \<or> 97 \<le> n \<and> n \<le> 122)"

text \<open>\<open>utf8_bytes\<close> is the length of a string in UTF-8.\<close>

definition isNewPassword :: "(string \<Rightarrow> nat) \<Rightarrow> string \<Rightarrow> bool" where
  "isNewPassword utf8_bytes value \<longleftrightarrow> NEW_PASSWORD_MIN_LENGTH \<le> length value \<and>
     utf8_bytes value \<le> NEW_PASSWORD_MAX_BYTES \<and> list_ex is_letter value \<and> list_ex is_digit value"

definition valid_reset_request :: "(string \<Rightarrow> bool) \<Rightarrow> string \<Rightarrow> bool" where
  "valid_reset_request is_email email \<longleftrightarrow> email \<noteq> [] \<and> is_email email \<and> length email \<le> 255"

definition valid_reset_verification :: "(string \<Rightarrow> bool) \<Rightarrow> string \<Rightarrow> string \<Rightarrow> bool" where
  "valid_reset_verification is_email email code \<longleftrightarrow>
     email \<noteq> [] \<and> is_email email \<and> length email \<le> 255 \<and> length code = 6 \<and> list_all is_digit code"

definition valid_reset_completion :: "(string \<Rightarrow> nat) \<Rightarrow> string \<Rightarrow> string \<Rightarrow> bool" where
  "valid_reset_completion utf8_bytes reset_token password \<longleftrightarrow>
     reset_token \<noteq> [] \<and> length reset_token \<le> 255 \<and> isNewPassword utf8_bytes password"

section \<open>Handlers with defaults\<close>

text \<open>
  \<open>month_now\<close> are the year and the month of the present in the server's zone, \<open>local_time y m d\<close> is
  \<open>new Date(y, m - 1, d, 23, 59, 59, 999)\<close>, where day 0 is the last one of the month before.
\<close>

record server_clock =
  sc_month_now :: "nat \<times> nat"
  sc_end_of_day :: "nat \<Rightarrow> nat \<Rightarrow> nat \<Rightarrow> int"

definition getStartOfMonth :: "runtime \<Rightarrow> server_clock \<Rightarrow> int" where
  "getStartOfMonth rt clock = (let (y, m) = sc_month_now clock in rt_local_date rt y m 1)"

definition getEndOfMonth :: "server_clock \<Rightarrow> int" where
  "getEndOfMonth clock = (let (y, m) = sc_month_now clock in sc_end_of_day clock y (m + 1) 0)"

definition default_to :: "'a \<Rightarrow> 'a option \<Rightarrow> 'a" where
  "default_to d value = (case value of None \<Rightarrow> d | Some v \<Rightarrow> v)"

definition transaction_types :: "(string \<times> TransactionType) list" where
  "transaction_types = [(''income'', INCOME), (''expense'', EXPENSE)]"

definition transaction_kinds :: "(string \<times> TransactionKind) list" where
  "transaction_kinds = [(''regular'', REGULAR), (''initial_balance'', INITIAL_BALANCE)]"

record CountQuery =
  qc_from :: js
  qc_to :: js
  qc_transaction_type :: js
  qc_kind :: js
  qc_category_id :: js
  qc_wallet_id :: js
  qc_q :: js

definition count_endpoint ::
  "runtime \<Rightarrow> server_clock \<Rightarrow> (string \<Rightarrow> string \<Rightarrow> bool) \<Rightarrow> nat \<Rightarrow> nat \<Rightarrow> CountQuery \<Rightarrow> db \<Rightarrow> exception + nat" where
  "count_endpoint rt clock like userId spaceId query s =
     and_then (parse_optional_date rt (Some ''from'') (qc_from query)) (\<lambda>from.
     and_then (parse_optional_date rt (Some ''to'') (qc_to query)) (\<lambda>to.
     and_then (parse_optional_enum transaction_types (Some ''transaction_type'') (qc_transaction_type query)) (\<lambda>ty.
     and_then (parse_optional_enum transaction_kinds (Some ''kind'') (qc_kind query)) (\<lambda>kind.
     and_then (parse_optional_id rt (Some ''category_id'') (qc_category_id query)) (\<lambda>categoryId.
     and_then (parse_optional_id rt (Some ''wallet_id'') (qc_wallet_id query)) (\<lambda>walletId.
     and_then (parse_optional_search (qc_q query)) (\<lambda>search.
       count_transactions like userId spaceId (default_to (getStartOfMonth rt clock) from)
         (default_to (getEndOfMonth clock) to)
         \<lparr>tf_transactionType = ty, tf_kind = kind, tf_categoryId = categoryId, tf_walletId = walletId,
          tf_search = search\<rparr> s)))))))"

definition wallets_endpoint ::
  "runtime \<Rightarrow> server_clock \<Rightarrow> nat \<Rightarrow> nat \<Rightarrow> js \<Rightarrow> js \<Rightarrow> db \<Rightarrow> exception + WalletsOverview" where
  "wallets_endpoint rt clock userId spaceId from to s =
     and_then (parse_optional_date rt (Some ''from'') from) (\<lambda>from.
     and_then (parse_optional_date rt (Some ''to'') to) (\<lambda>to.
       getOverview rt userId spaceId (default_to (getStartOfMonth rt clock) from)
         (default_to (getEndOfMonth clock) to) s))"

definition limits_endpoint ::
  "runtime \<Rightarrow> calendar \<Rightarrow> (int \<Rightarrow> string \<Rightarrow> int \<times> int) \<Rightarrow> (string \<Rightarrow> string option) \<Rightarrow> string \<Rightarrow>
   nat \<Rightarrow> nat \<Rightarrow> js \<Rightarrow> int \<Rightarrow> db \<Rightarrow> exception + MonthPeriod \<times> Spending" where
  "limits_endpoint rt cal month_of intl serverTimeZone userId spaceId timeZone now s =
     and_then (parse_optional_time_zone intl (Some ''time_zone'') timeZone) (\<lambda>zone.
       getSummary rt cal month_of userId spaceId (default_to serverTimeZone zone) now s)"

section \<open>Facts\<close>

text \<open>An accepted id is one a column can hold, and every such id is accepted as it is printed.\<close>

lemma parse_optional_id_range:
  assumes "parse_optional_id rt field value = Inr (Some i)"
  shows "1 \<le> i \<and> i \<le> MAX_ID"
proof -
  obtain s where "is_version_digits s" and i: "i = digits_val s" "i \<le> MAX_ID"
    using assms by (auto simp: parse_optional_id_def Let_def split: if_splits option.splits js.splits)
  then have "s \<noteq> []" "list_all is_digit s" "hd s \<noteq> CHR ''0''"
    by (auto simp: is_version_digits_def split: list.splits)
  then have "0 < digits_val s" by (rule digits_val_pos)
  with i show ?thesis by simp
qed

lemma parse_optional_id_printed:
  assumes "1 \<le> i" and "i \<le> MAX_ID"
  shows "parse_optional_id rt field (JString (show_nat i)) = Inr (Some i)"
proof -
  have "length (show_nat i) \<le> Suc 9" using assms(2) by (intro length_show_nat) (simp add: MAX_ID_def)
  moreover have "hd (show_nat i) \<noteq> CHR ''0''" using assms(1) by (intro hd_show_nat) simp
  ultimately have "is_version_digits (show_nat i)"
    using show_nat_digits [of i] show_nat_nonempty [of i] by (auto simp: is_version_digits_def split: list.splits)
  with assms(2) show ?thesis by (simp add: parse_optional_id_def Let_def)
qed

text \<open>Without parameters the handlers use the current month and every filter is off.\<close>

lemma absent_parameters [simp]:
  "parse_optional_date rt f JUndefined = Inr None" "parse_optional_enum vs f JUndefined = Inr None"
  "parse_optional_id rt f JUndefined = Inr None" "parse_optional_time_zone intl f JUndefined = Inr None"
  "parse_optional_search JUndefined = Inr None"
  by (simp_all add: parse_optional_date_def parse_optional_enum_def parse_optional_id_def
      parse_optional_time_zone_def parse_optional_search_def)

lemma count_this_month:
  "count_endpoint rt clock like u sp \<lparr>qc_from = JUndefined, qc_to = JUndefined, qc_transaction_type = JUndefined,
     qc_kind = JUndefined, qc_category_id = JUndefined, qc_wallet_id = JUndefined, qc_q = JUndefined\<rparr> s =
   count_transactions like u sp (getStartOfMonth rt clock) (getEndOfMonth clock) no_filters s"
  by (simp add: count_endpoint_def default_to_def no_filters_def)

end
