(* ===== verification/Emails.thy ===== *)
theory Emails
  imports Money
begin

text \<open>
  The texts of \<open>modules/mail\<close>: the emails with a confirmation code, a password reset code
  (\<open>mail.service.ts\<close>) and a space invitation (\<open>space-invite-email.ts\<close>). Sending them is the
  parameter \<open>mail\<close> of the services. Shown: whatever a space is called, the subject is one line of bounded
  length and the markup of the email is the template's.
\<close>

section \<open>Texts from users\<close>

definition html_escape :: "char \<Rightarrow> string" where
  "html_escape c =
     (if c = CHR ''&'' then ''&amp;'' else if c = CHR ''<'' then ''&lt;'' else if c = CHR ''>'' then ''&gt;''
      else if c = CHR 34 then ''&quot;'' else if c = CHR 39 then ''&#39;'' else [c])"

definition escapeHtml :: "string \<Rightarrow> string" where
  "escapeHtml value = concat (map html_escape value)"

text \<open>The classes \<open>\p{Cc}\<close>, \<open>\p{Cf}\<close>, \<open>\p{Zl}\<close> and \<open>\p{Zp}\<close> among the characters below 256.\<close>

definition is_control :: "char \<Rightarrow> bool" where
  "is_control c \<longleftrightarrow> (let n = (of_char c :: nat) in n < 32 \<or> 127 \<le> n \<and> n \<le> 159 \<or> n = 173)"

text \<open>\<open>replace(/[...]+/g, ' ')\<close>: each run of control characters becomes one space.\<close>

fun flatten_controls :: "bool \<Rightarrow> string \<Rightarrow> string" where
  "flatten_controls in_run [] = []"
| "flatten_controls in_run (c # s) =
     (if is_control c then (if in_run then flatten_controls True s else CHR '' '' # flatten_controls True s)
      else c # flatten_controls False s)"

text \<open>\<open>dots\<close> stands for the ellipsis, which is not among these characters.\<close>

definition plainName :: "char \<Rightarrow> nat \<Rightarrow> string \<Rightarrow> string" where
  "plainName dots maxLength value = (let flat = trim (flatten_controls False value) in
     if maxLength < length flat then take (maxLength - 1) flat @ [dots] else flat)"

section \<open>Time left\<close>

definition minutes_left :: "int \<Rightarrow> int \<Rightarrow> nat" where
  "minutes_left expiresAt now = nat (max 1 \<lceil>(of_int (expiresAt - now) :: rat) / 60000\<rceil>)"

definition plural :: "nat \<Rightarrow> string \<Rightarrow> string" where
  "plural amount unit = show_nat amount @ '' '' @ unit @ (if amount = 1 then [] else ''s'')"

definition time_left :: "int \<Rightarrow> int \<Rightarrow> nat \<times> string" where
  "time_left expiresAt now = (let minutes = minutes_left expiresAt now in
     if 48 * 60 \<le> minutes then (minutes div (24 * 60), ''day'')
     else if 120 \<le> minutes then (minutes div 60, ''hour'') else (minutes, ''minute''))"

definition expiresInText :: "int \<Rightarrow> int \<Rightarrow> string" where
  "expiresInText expiresAt now = (let (amount, unit) = time_left expiresAt now in plural amount unit)"

definition expiryText :: "int \<Rightarrow> int \<Rightarrow> string" where
  "expiryText expiresAt now = plural (minutes_left expiresAt now) ''minute''"

section \<open>Emails\<close>

record SpaceInviteEmailDetails =
  sd_to :: string
  sd_spaceName :: string
  sd_link :: string
  sd_code :: string
  sd_expiresAt :: int

record RenderedEmail =
  re_subject :: string
  re_text :: string
  re_html :: string

abbreviation newline :: string where "newline \<equiv> [CHR 10]"
abbreviation quoted :: "string \<Rightarrow> string" where "quoted s \<equiv> [CHR 34] @ s @ [CHR 34]"

definition account_note :: "string \<Rightarrow> string" where
  "account_note to = ''Join with the account of this email address, '' @ to @
     ''. The invitation does not work with another account.''"

definition ignore_note :: string where
  "ignore_note = ''If you did not expect this invitation, you can ignore this email.''"

definition invite_subject :: "char \<Rightarrow> string \<Rightarrow> string" where
  "invite_subject dots name = ''You are invited to '' @ quoted (plainName dots 80 name) @ '' in Success Budget''"

definition invite_html :: "string \<Rightarrow> string \<Rightarrow> string \<Rightarrow> string \<Rightarrow> string \<Rightarrow> string" where
  "invite_html spaceName link code expiresIn note =
     ''<p>You are invited to join the shared space <strong>'' @ escapeHtml spaceName @
     ''</strong> in Success Budget.</p>'' @
     ''<p><a href='' @ quoted (escapeHtml link) @ '' style='' @
     quoted (''display:inline-block;padding:12px 20px;background:#1f6feb;color:#ffffff;'' @
       ''text-decoration:none;border-radius:6px;font-weight:600'') @ ''>Open invitation</a></p>'' @
     ''<p>Or enter this code in the app: <strong>'' @ escapeHtml code @ ''</strong></p>'' @
     ''<p>The invitation expires in '' @ expiresIn @ ''. '' @ escapeHtml note @ ''</p>'' @
     ''<p>'' @ escapeHtml ignore_note @ ''</p>''"

definition renderSpaceInviteEmail :: "char \<Rightarrow> SpaceInviteEmailDetails \<Rightarrow> int \<Rightarrow> RenderedEmail" where
  "renderSpaceInviteEmail dots details now =
     (let spaceName = plainName dots 255 (sd_spaceName details);
          expiresIn = expiresInText (sd_expiresAt details) now;
          note = account_note (sd_to details)
      in \<lparr>re_subject = invite_subject dots (sd_spaceName details),
          re_text =
            ''You are invited to join the shared space '' @ quoted spaceName @ '' in Success Budget.'' @ newline @ newline @
            ''Open the invitation: '' @ sd_link details @ newline @ newline @
            ''Or enter this code in the app: '' @ sd_code details @ newline @ newline @
            ''The invitation expires in '' @ expiresIn @ ''. '' @ note @ newline @ newline @ ignore_note,
          re_html = invite_html spaceName (sd_link details) (sd_code details) expiresIn note\<rparr>)"

definition confirmation_email :: "string \<Rightarrow> int \<Rightarrow> int \<Rightarrow> RenderedEmail" where
  "confirmation_email code expiresAt now = (let expiry = expiryText expiresAt now in
     \<lparr>re_subject = ''Confirm your Success Budget account'',
      re_text = ''Your confirmation code is '' @ code @ ''. It expires in '' @ expiry @ ''.'',
      re_html = ''<p>Your confirmation code is <strong>'' @ code @ ''</strong>.</p><p>It expires in '' @ expiry @ ''.</p>''\<rparr>)"

definition password_reset_email :: "string \<Rightarrow> int \<Rightarrow> int \<Rightarrow> RenderedEmail" where
  "password_reset_email code expiresAt now =
     (let expiry = expiryText expiresAt now;
          latestOnly = ''Only the code from the most recent email works.'';
          ignore = ''If you did not ask to reset your password, ignore this email; your password stays the same.''
      in \<lparr>re_subject = ''Reset your Success Budget password'',
          re_text = ''Your password reset code is '' @ code @ ''. It expires in '' @ expiry @ ''. '' @ latestOnly @
            newline @ newline @ ignore,
          re_html = ''<p>Your password reset code is <strong>'' @ code @ ''</strong>.</p>'' @
            ''<p>It expires in '' @ expiry @ ''. '' @ latestOnly @ ''</p><p>'' @ ignore @ ''</p>''\<rparr>)"

section \<open>Facts\<close>

definition is_markup :: "char \<Rightarrow> bool" where
  "is_markup c \<longleftrightarrow> c \<in> {CHR ''<'', CHR ''>'', CHR 34, CHR 39}"

lemma escapeHtml_no_markup: "c \<in> set (escapeHtml s) \<Longrightarrow> \<not> is_markup c"
  by (auto simp: escapeHtml_def html_escape_def is_markup_def split: if_splits)

text \<open>What a reader's program shows for escaped text is the text.\<close>

fun unescapeHtml :: "nat \<Rightarrow> string \<Rightarrow> string" where
  "unescapeHtml 0 s = []"
| "unescapeHtml (Suc n) [] = []"
| "unescapeHtml (Suc n) (c # s) =
     (if take 4 s = ''amp;'' \<and> c = CHR ''&'' then CHR ''&'' # unescapeHtml n (drop 4 s)
      else if take 3 s = ''lt;'' \<and> c = CHR ''&'' then CHR ''<'' # unescapeHtml n (drop 3 s)
      else if take 3 s = ''gt;'' \<and> c = CHR ''&'' then CHR ''>'' # unescapeHtml n (drop 3 s)
      else if take 5 s = ''quot;'' \<and> c = CHR ''&'' then CHR 34 # unescapeHtml n (drop 5 s)
      else if take 4 s = ''#39;'' \<and> c = CHR ''&'' then CHR 39 # unescapeHtml n (drop 4 s)
      else c # unescapeHtml n s)"

lemma unescape_char: "unescapeHtml (Suc n) (html_escape c @ s) = c # unescapeHtml n s"
  by (simp add: html_escape_def)

lemma unescape_escape: "length s < n \<Longrightarrow> unescapeHtml n (escapeHtml s) = s"
proof (induction s arbitrary: n)
  case Nil
  then show ?case by (cases n) (simp_all add: escapeHtml_def)
next
  case (Cons c s)
  then obtain m where "n = Suc m" "length s < m" by (cases n) auto
  with Cons.IH [of m] show ?case by (simp add: escapeHtml_def unescape_char)
qed

lemma flatten_no_controls: "c \<in> set (flatten_controls r s) \<Longrightarrow> \<not> is_control c"
  by (induction r s rule: flatten_controls.induct) (auto simp: is_control_def Let_def split: if_splits)

lemma set_trim: "set (trim s) \<subseteq> set s"
proof -
  have "set (dropWhile is_space u) \<subseteq> set u" for u by (auto dest: set_dropWhileD)
  from this [of s] this [of "rev (dropWhile is_space s)"] show ?thesis by (simp add: trim_def)
qed

lemma plainName_plain:
  assumes "c \<in> set (plainName dots n s)" and "\<not> is_control dots"
  shows "\<not> is_control c"
proof -
  have "c = dots \<or> c \<in> set (flatten_controls False s)"
    using assms(1) set_trim [of "flatten_controls False s"]
    by (auto simp: plainName_def Let_def dest: in_set_takeD split: if_splits)
  with assms(2) flatten_no_controls show ?thesis by blast
qed

lemma plainName_length: "0 < n \<Longrightarrow> length (plainName dots n s) \<le> n"
  by (simp add: plainName_def Let_def)

text \<open>The subject of an invitation is one line, whatever the space is called, and not long.\<close>

theorem invite_subject_safe:
  assumes "\<not> is_control dots"
  shows "(\<forall>c \<in> set (invite_subject dots name). \<not> is_control c) \<and> length (invite_subject dots name) \<le> 119"
proof
  show "\<forall>c \<in> set (invite_subject dots name). \<not> is_control c"
  proof
    fix c assume "c \<in> set (invite_subject dots name)"
    then have "c \<in> set (plainName dots 80 name) \<or> c \<in> set (''You are invited to '' @ [CHR 34] @ '' in Success Budget'')"
      by (auto simp: invite_subject_def)
    then show "\<not> is_control c" using plainName_plain [OF _ assms] by (auto simp: is_control_def)
  qed
  show "length (invite_subject dots name) \<le> 119"
    using plainName_length [of 80 dots name] by (simp add: invite_subject_def)
qed

text \<open>The time left is never shown as nothing, and is not shown longer than it is by a minute or more.\<close>

lemma minutes_left_bounds:
  "1 \<le> minutes_left expiresAt now \<and>
   (now < expiresAt \<longrightarrow> expiresAt - now \<le> int (minutes_left expiresAt now) * 60000 \<and>
      int (minutes_left expiresAt now) * 60000 < expiresAt - now + 60000)"
proof -
  define d where "d = expiresAt - now"
  define q where "q = \<lceil>(of_int d :: rat) / 60000\<rceil>"
  have "(of_int d :: rat) / 60000 \<le> of_int q" "of_int q < (of_int d :: rat) / 60000 + 1"
    unfolding q_def by linarith+
  then have "(of_int d :: rat) \<le> of_int (q * 60000)" "of_int (q * 60000) < (of_int (d + 60000) :: rat)"
    by (simp_all add: field_simps)
  then have "d \<le> q * 60000" "q * 60000 < d + 60000" by (simp_all only: of_int_le_iff of_int_less_iff)
  moreover have "minutes_left expiresAt now = nat (max 1 q)" by (simp add: minutes_left_def q_def d_def)
  ultimately show ?thesis by (auto simp: d_def max_def)
qed

lemma time_left_positive: "1 \<le> fst (time_left expiresAt now)"
proof -
  have "1 \<le> minutes_left expiresAt now" using minutes_left_bounds by blast
  then show ?thesis by (simp add: time_left_def Let_def) linarith
qed

end
