(* ===== verification/CatalogMigration.thy ===== *)
theory CatalogMigration
  imports Spaces
begin

text \<open>
  \<open>migrations/1790900000000-ReplaceCategoryCatalog.ts\<close>: the one migration that rewrites the data of
  users. It replaces the ordinary categories of every initialized space by the starter catalog;
  transactions and limits move to the category that the old one maps to. It stops before the first
  write when the move would merge or reshape a limit.
\<close>

section \<open>The catalog\<close>

record CatalogEntry =
  ce_type :: TransactionType
  ce_name :: string
  ce_icon :: CategoryIcon
  ce_color :: AppColor

definition entry :: "TransactionType \<Rightarrow> string \<Rightarrow> CategoryIcon \<Rightarrow> AppColor \<Rightarrow> CatalogEntry" where
  "entry ty name icon color = \<lparr>ce_type = ty, ce_name = name, ce_icon = icon, ce_color = color\<rparr>"

definition CATALOG :: "CatalogEntry list" where
  "CATALOG =
    [entry INCOME ''Salary'' SALARY EVERGREEN, entry INCOME ''Freelance'' FREELANCE INDIGO,
     entry INCOME ''Gifts'' GIFTS CLAY, entry INCOME ''Other income'' OTHER SLATE,
     entry EXPENSE ''Groceries'' GROCERY EVERGREEN, entry EXPENSE ''Eating out'' RESTAURANT CLAY,
     entry EXPENSE ''Housing'' HOUSING SLATE, entry EXPENSE ''Utilities'' UTILITIES AMBER,
     entry EXPENSE ''Transport'' TRANSPORT INDIGO, entry EXPENSE ''Car'' CAR SLATE,
     entry EXPENSE ''Health'' HEALTH CLAY, entry EXPENSE ''Personal care'' BEAUTY AMBER,
     entry EXPENSE ''Clothes'' CLOTHES PLUM, entry EXPENSE ''Home goods'' HOME_GOODS EVERGREEN,
     entry EXPENSE ''Entertainment'' ENTERTAINMENT AMBER, entry EXPENSE ''Subscriptions'' SUBSCRIPTIONS INDIGO,
     entry EXPENSE ''Education'' EDUCATION SLATE, entry EXPENSE ''Travel'' TRAVEL INDIGO,
     entry EXPENSE ''Gifts'' GIFTS CLAY, entry EXPENSE ''Other expenses'' OTHER SLATE]"

fun FALLBACK :: "TransactionType \<Rightarrow> string" where
  "FALLBACK INCOME = ''Other income''"
| "FALLBACK EXPENSE = ''Other expenses''"

fun SORT_PREFIX :: "TransactionType \<Rightarrow> nat" where
  "SORT_PREFIX INCOME = 100"
| "SORT_PREFIX EXPENSE = 200"

fun NAME_ALIASES :: "TransactionType \<Rightarrow> (string \<times> string) list" where
  "NAME_ALIASES INCOME =
    [(''bonus'', ''Salary''), (''wage'', ''Salary''), (''wages'', ''Salary''), (''paycheck'', ''Salary''),
     (''gift'', ''Gifts''), (''other'', ''Other income''), (''others'', ''Other income''),
     (''misc'', ''Other income'')]"
| "NAME_ALIASES EXPENSE =
    [(''grocery'', ''Groceries''), (''supermarket'', ''Groceries''), (''restaurant'', ''Eating out''),
     (''restaurants'', ''Eating out''), (''cafe'', ''Eating out''), (''cafes'', ''Eating out''),
     (''coffee'', ''Eating out''), (''dining'', ''Eating out''), (''dining out'', ''Eating out''),
     (''rent'', ''Housing''), (''mortgage'', ''Housing''), (''utility'', ''Utilities''),
     (''internet'', ''Utilities''), (''taxi'', ''Transport''), (''transportation'', ''Transport''),
     (''public transport'', ''Transport''), (''fuel'', ''Car''), (''petrol'', ''Car''), (''parking'', ''Car''),
     (''pharmacy'', ''Health''), (''medicine'', ''Health''), (''fitness'', ''Health''), (''gym'', ''Health''),
     (''beauty'', ''Personal care''), (''clothing'', ''Clothes''), (''electronics'', ''Home goods''),
     (''household'', ''Home goods''), (''subscription'', ''Subscriptions''), (''vacation'', ''Travel''),
     (''gift'', ''Gifts''), (''other'', ''Other expenses''), (''others'', ''Other expenses''),
     (''misc'', ''Other expenses'')]"

fun ICON_ALIASES :: "TransactionType \<Rightarrow> (CategoryIcon \<times> string) list" where
  "ICON_ALIASES INCOME =
    [(SALARY, ''Salary''), (BONUS, ''Salary''), (FREELANCE, ''Freelance''), (GIFTS, ''Gifts'')]"
| "ICON_ALIASES EXPENSE =
    [(GROCERY, ''Groceries''), (RESTAURANT, ''Eating out''), (CAFE, ''Eating out''), (HOUSING, ''Housing''),
     (UTILITIES, ''Utilities''), (INTERNET, ''Utilities''), (TRANSPORT, ''Transport''), (TAXI, ''Transport''),
     (CAR, ''Car''), (FUEL, ''Car''), (HEALTH, ''Health''), (PHARMACY, ''Health''), (FITNESS, ''Health''),
     (BEAUTY, ''Personal care''), (CLOTHES, ''Clothes''), (ELECTRONICS, ''Home goods''),
     (HOME_GOODS, ''Home goods''), (ENTERTAINMENT, ''Entertainment''), (SUBSCRIPTIONS, ''Subscriptions''),
     (EDUCATION, ''Education''), (TRAVEL, ''Travel''), (GIFTS, ''Gifts'')]"

section \<open>Where a category goes\<close>

text \<open>
  \<open>normalize('NFKD')\<close> with the combining marks removed, on the code points up to 255: a letter loses
  its accent, a spacing accent becomes the space it is built on, a superscript becomes its digit or
  letter. The four code points whose decomposition leaves this range (the micro sign and the three
  fractions) stay themselves; with either spelling no name of the catalog or of an alias has them.
\<close>

definition decompose_char :: "char \<Rightarrow> char" where
  "decompose_char c = (let n = (of_char c :: nat) in
     if n \<in> {160, 168, 175, 180, 184} then CHR '' ''
     else if n = 170 then CHR ''a'' else if n = 186 then CHR ''o''
     else if n = 178 then CHR ''2'' else if n = 179 then CHR ''3'' else if n = 185 then CHR ''1''
     else if 192 \<le> n \<and> n \<le> 197 then CHR ''A'' else if n = 199 then CHR ''C''
     else if 200 \<le> n \<and> n \<le> 203 then CHR ''E'' else if 204 \<le> n \<and> n \<le> 207 then CHR ''I''
     else if n = 209 then CHR ''N'' else if 210 \<le> n \<and> n \<le> 214 then CHR ''O''
     else if 217 \<le> n \<and> n \<le> 220 then CHR ''U'' else if n = 221 then CHR ''Y''
     else if 224 \<le> n \<and> n \<le> 229 then CHR ''a'' else if n = 231 then CHR ''c''
     else if 232 \<le> n \<and> n \<le> 235 then CHR ''e'' else if 236 \<le> n \<and> n \<le> 239 then CHR ''i''
     else if n = 241 then CHR ''n'' else if 242 \<le> n \<and> n \<le> 246 then CHR ''o''
     else if 249 \<le> n \<and> n \<le> 252 then CHR ''u'' else if n = 253 \<or> n = 255 then CHR ''y''
     else c)"

text \<open>\<open>replace(/\s+/g, ' ')\<close>.\<close>

function collapse_spaces :: "string \<Rightarrow> string" where
  "collapse_spaces [] = []"
| "collapse_spaces (c # cs) =
     (if is_space c then CHR '' '' # collapse_spaces (dropWhile is_space cs) else c # collapse_spaces cs)"
  by pat_completeness auto
termination
  by (relation "measure length") (auto simp: le_imp_less_Suc length_dropWhile_le)

definition normalize :: "string \<Rightarrow> string" where
  "normalize name = trim (collapse_spaces (to_lower (map decompose_char name)))"

record CategoryMapping =
  mp_target :: string
  mp_rank :: nat

definition mapCategory :: "category \<Rightarrow> CategoryMapping" where
  "mapCategory category =
     (let ty = cat_transaction_type category; name = normalize (cat_name category) in
      case find_row (\<lambda>e. ce_type e = ty \<and> normalize (ce_name e) = name) CATALOG of
        Some same \<Rightarrow> \<lparr>mp_target = ce_name same, mp_rank = 0\<rparr>
      | None \<Rightarrow> (case map_of (NAME_ALIASES ty) name of
          Some renamed \<Rightarrow> \<lparr>mp_target = renamed, mp_rank = 1\<rparr>
        | None \<Rightarrow> \<lparr>mp_target = (case map_of (ICON_ALIASES ty) (cat_icon category) of
              Some by_icon \<Rightarrow> by_icon
            | None \<Rightarrow> FALLBACK ty), mp_rank = 2\<rparr>))"

text \<open>\<open>targetKey\<close> of the category's type and the name it maps to.\<close>

definition target_key :: "category \<Rightarrow> TransactionType \<times> string" where
  "target_key category = (cat_transaction_type category, mp_target (mapCategory category))"

section \<open>What is read\<close>

definition eligible_space :: "db \<Rightarrow> space \<Rightarrow> bool" where
  "eligible_space s p \<longleftrightarrow> sp_type p = GROUP \<or>
     (\<exists>m \<in> set (rows (members s)). m_space_id m = sp_id p \<and> m_role m = OWNER \<and>
        (\<exists>u \<in> set (rows (users s)). u_id u = m_user_id m \<and> u_email_verified u))"

definition eligible :: "db \<Rightarrow> nat list" where
  "eligible s = sort (map sp_id (filter (eligible_space s) (rows (spaces s))))"

definition stored_categories :: "db \<Rightarrow> category list" where
  "stored_categories s = sort_key cat_id
     (filter (\<lambda>c. \<not> cat_is_system c \<and> cat_space_id c \<in> set (eligible s)) (rows (categories s)))"

record LimitLink =
  lk_limit_id :: nat
  lk_limit_space_id :: nat
  lk_limit_name :: "string option"
  lk_category_id :: nat
  lk_category_space_id :: nat

text \<open>The rows of \<open>limit_categories\<close> joined with both sides, in the order of both ids.\<close>

definition links_of :: "db \<Rightarrow> limit \<Rightarrow> LimitLink list" where
  "links_of s l = List.map_filter (\<lambda>c. map_option (\<lambda>cat. \<lparr>lk_limit_id = l_id l, lk_limit_space_id = l_space_id l,
       lk_limit_name = l_name l, lk_category_id = c, lk_category_space_id = cat_space_id cat\<rparr>)
     (find_category c s)) (sort (l_categories l))"

definition limit_links :: "db \<Rightarrow> LimitLink list" where
  "limit_links s = filter (\<lambda>k. lk_limit_space_id k \<in> set (eligible s) \<or> lk_category_space_id k \<in> set (eligible s))
     (concat (map (links_of s) (sort_key l_id (rows (limits s)))))"

definition category_by_id :: "category list \<Rightarrow> nat \<Rightarrow> category option" where
  "category_by_id cats i = find_row (\<lambda>c. cat_id c = i) cats"

section \<open>Conflicts of limits\<close>

text \<open>
  What a link becomes: the catalog category its category maps to, or its own category when another
  space owns it or it is the system one.
\<close>

datatype target = Mapped TransactionType string | Itself nat

definition targetOf :: "category list \<Rightarrow> LimitLink \<Rightarrow> target" where
  "targetOf cats k = (case category_by_id cats (lk_category_id k) of
       None \<Rightarrow> Itself (lk_category_id k)
     | Some c \<Rightarrow> if cat_space_id c = lk_limit_space_id k then Mapped (cat_transaction_type c) (mp_target (mapCategory c))
         else Itself (lk_category_id k))"

fun join_with :: "string \<Rightarrow> string list \<Rightarrow> string" where
  "join_with separator [] = []"
| "join_with separator [s] = s"
| "join_with separator (s # t # ts) = s @ separator @ join_with separator (t # ts)"

definition in_quotes :: "string \<Rightarrow> string" where
  "in_quotes s = CHR 0x22 # s @ [CHR 0x22]"

fun type_text :: "TransactionType \<Rightarrow> string" where
  "type_text INCOME = ''income''"
| "type_text EXPENSE = ''expense''"

definition label :: "category list \<Rightarrow> nat \<Rightarrow> string" where
  "label cats i = (case category_by_id cats i of
       None \<Rightarrow> ''#'' @ show_nat i
     | Some c \<Rightarrow> in_quotes (cat_name c) @ '' #'' @ show_nat i)"

fun describeTarget :: "target \<Rightarrow> string" where
  "describeTarget (Itself i) = ''category #'' @ show_nat i"
| "describeTarget (Mapped ty name) = type_text ty @ '' category '' @ in_quotes name"

definition foreign_conflicts :: "category list \<Rightarrow> nat \<times> LimitLink list \<Rightarrow> string list" where
  "foreign_conflicts cats = (\<lambda>(limitId, limitLinks). let spaceId = lk_limit_space_id (hd limitLinks) in
     map (\<lambda>k. ''space '' @ show_nat spaceId @ '': limit #'' @ show_nat limitId @ '' covers category '' @
         label cats (lk_category_id k) @ '' of space '' @ show_nat (lk_category_space_id k))
       (filter (\<lambda>k. lk_category_space_id k \<noteq> spaceId) limitLinks))"

definition group_conflict :: "category list \<Rightarrow> nat \<times> LimitLink list \<Rightarrow> string list" where
  "group_conflict cats = (\<lambda>(limitId, limitLinks). let targets = dedup (map (targetOf cats) limitLinks) in
     if 1 < length limitLinks \<and> length targets = 1
     then [''space '' @ show_nat (lk_limit_space_id (hd limitLinks)) @ '': group limit #'' @ show_nat limitId @
         (case lk_limit_name (hd limitLinks) of None \<Rightarrow> [] | Some name \<Rightarrow> if name = [] then [] else '' '' @ in_quotes name) @
         '' would cover only '' @ describeTarget (hd targets) @ '', as all of '' @
         join_with '', '' (map (\<lambda>k. label cats (lk_category_id k)) limitLinks) @ '' map to it'']
     else [])"

text \<open>The claims on one target: the limits that would hold it, each with the categories it comes from.\<close>

definition claims_of :: "category list \<Rightarrow> nat \<times> LimitLink list \<Rightarrow> ((nat \<times> target) \<times> nat \<times> nat) list" where
  "claims_of cats = (\<lambda>(limitId, limitLinks).
     map (\<lambda>k. ((lk_limit_space_id (hd limitLinks), targetOf cats k), limitId, lk_category_id k)) limitLinks)"

definition shared_conflict :: "category list \<Rightarrow> (nat \<times> target) \<times> (nat \<times> nat list) list \<Rightarrow> string list" where
  "shared_conflict cats = (\<lambda>((spaceId, t), byLimit).
     if 1 < length byLimit
     then [''space '' @ show_nat spaceId @ '': '' @ describeTarget t @ '' would be in '' @ show_nat (length byLimit) @
         '' limits: '' @ join_with ''; '' (map (\<lambda>(limitId, ids). ''limit #'' @ show_nat limitId @ '' via '' @
            join_with '', '' (map (label cats) ids)) byLimit)]
     else [])"

definition findLimitConflicts :: "category list \<Rightarrow> LimitLink list \<Rightarrow> string list" where
  "findLimitConflicts cats ks =
     (let grouped = group_by lk_limit_id id ks;
          claims = group_by fst (\<lambda>cs. group_by fst (map snd) (map snd cs)) (concat (map (claims_of cats) grouped)) in
      concat (map (\<lambda>g. foreign_conflicts cats g @ group_conflict cats g) grouped) @
      concat (map (shared_conflict cats) claims))"

definition conflict_error :: "string list \<Rightarrow> exception" where
  "conflict_error conflicts = JsError ''Error''
     (''Category catalog replacement stopped before changing any data: '' @ show_nat (length conflicts) @
      '' limit conflict(s). Edit or delete these limits, then run the migrations again.'' @ [CHR 0x0A] @
      join_with [CHR 0x0A] (map (\<lambda>conflict. ''- '' @ conflict) conflicts))"

section \<open>One space\<close>

text \<open>
  The category that keeps its id as an entry of the catalog: of those with its name or a known
  rename, by rank, active ones first, then by id.
\<close>

definition keeper :: "category list \<Rightarrow> CatalogEntry \<Rightarrow> category option" where
  "keeper cats e = head_opt (sort_key (\<lambda>c. (mp_rank (mapCategory c), \<not> cat_is_active c, cat_id c))
     (filter (\<lambda>c. target_key c = (ce_type e, ce_name e) \<and> mp_rank (mapCategory c) < 2) cats))"

text \<open>The row of an entry; the update date moves when a column changes.\<close>

definition adopt :: "int \<Rightarrow> CatalogEntry \<Rightarrow> nat \<Rightarrow> category \<Rightarrow> category" where
  "adopt now e sort' c = (let c' = c\<lparr>cat_name := ce_name e, cat_icon := ce_icon e, cat_color := ce_color e,
       cat_is_active := True, cat_archived_at := None, cat_sort := sort'\<rparr>
     in if c' = c then c else c'\<lparr>cat_updated_at := current_second now\<rparr>)"

definition catalog_row :: "int \<Rightarrow> nat \<Rightarrow> CatalogEntry \<Rightarrow> nat \<Rightarrow> nat \<Rightarrow> category" where
  "catalog_row now spaceId e sort' i = (new_category now spaceId
     (default_category (ce_name e) (ce_type e) (ce_icon e) (ce_color e)) False i)\<lparr>cat_sort := sort'\<rparr>"

record Placed =
  pl_position :: "TransactionType \<Rightarrow> nat"
  pl_targets :: "(TransactionType \<times> string) \<Rightarrow> nat option"
  pl_table :: "category table"

definition place_entry :: "int \<Rightarrow> nat \<Rightarrow> category list \<Rightarrow> CatalogEntry \<Rightarrow> Placed \<Rightarrow> Placed" where
  "place_entry now spaceId cats e p =
     (let position = pl_position p (ce_type e) + 1;
          sort' = SORT_PREFIX (ce_type e) + position;
          p1 = p\<lparr>pl_position := (pl_position p)(ce_type e := position)\<rparr> in
      case keeper cats e of
        Some c \<Rightarrow> p1\<lparr>pl_targets := (pl_targets p)((ce_type e, ce_name e) \<mapsto> cat_id c),
            pl_table := (pl_table p)\<lparr>rows := update_rows (\<lambda>r. cat_id r = cat_id c) (adopt now e sort') (rows (pl_table p))\<rparr>\<rparr>
      | None \<Rightarrow> p1\<lparr>pl_targets := (pl_targets p)((ce_type e, ce_name e) \<mapsto> next_id (pl_table p)),
            pl_table := insert_auto (catalog_row now spaceId e sort') (pl_table p)\<rparr>)"

definition place_catalog :: "int \<Rightarrow> nat \<Rightarrow> category list \<Rightarrow> category table \<Rightarrow> Placed" where
  "place_catalog now spaceId cats t = fold (place_entry now spaceId cats) CATALOG
     \<lparr>pl_position = (\<lambda>_. 0), pl_targets = Map.empty, pl_table = t\<rparr>"

text \<open>The categories that go, each with the one that takes its place.\<close>

definition replacements :: "((TransactionType \<times> string) \<Rightarrow> nat option) \<Rightarrow> category list \<Rightarrow> (nat \<times> nat) list" where
  "replacements targetIds cats = List.map_filter (\<lambda>c. let targetId = the (targetIds (target_key c)) in
     if targetId \<noteq> cat_id c then Some (cat_id c, targetId) else None) cats"

definition move_transactions :: "nat \<times> nat \<Rightarrow> transaction list \<Rightarrow> transaction list" where
  "move_transactions = (\<lambda>(old, new). map (\<lambda>t. if t_category_id t = old
     then t\<lparr>t_category_id := new, t_version := t_version t + 1\<rparr> else t))"

definition relink :: "(nat \<times> nat) list \<Rightarrow> nat \<times> LimitLink list \<Rightarrow> limit list \<Rightarrow> limit list" where
  "relink replacement = (\<lambda>(limitId, limitLinks) ls.
     (let current = map lk_category_id limitLinks;
          wanted = dedup (map (\<lambda>i. case map_of replacement i of None \<Rightarrow> i | Some n \<Rightarrow> n) current);
          removed = filter (\<lambda>i. i \<notin> set wanted) current;
          added = filter (\<lambda>i. i \<notin> set current) wanted in
      set_categories (\<lambda>cs. filter (\<lambda>i. i \<notin> set removed) cs @ added) limitId ls))"

text \<open>The database refuses to delete a category that is still referenced.\<close>

definition delete_categories :: "nat list \<Rightarrow> db \<Rightarrow> exception + db" where
  "delete_categories ids s =
     (if (\<exists>t \<in> set (transactions s). t_category_id t \<in> set ids) \<or>
         (\<exists>l \<in> set (rows (limits s)). \<exists>i \<in> set (l_categories l). i \<in> set ids)
      then Inl row_is_referenced
      else Inr (s\<lparr>categories := (categories s)\<lparr>rows := delete_rows (\<lambda>c. cat_id c \<in> set ids) (rows (categories s))\<rparr>\<rparr>))"

definition replaceInSpace :: "int \<Rightarrow> nat \<Rightarrow> category list \<Rightarrow> LimitLink list \<Rightarrow> db \<Rightarrow> exception + db" where
  "replaceInSpace now spaceId cats ks s =
     (let placed = place_catalog now spaceId cats (categories s);
          replacement = replacements (pl_targets placed) cats;
          s1 = s\<lparr>categories := pl_table placed, transactions := fold move_transactions replacement (transactions s),
            limits := (limits s)\<lparr>rows := fold (relink replacement) (group_by lk_limit_id id ks) (rows (limits s))\<rparr>\<rparr> in
      if replacement = [] then Inr s1 else delete_categories (map fst replacement) s1)"

section \<open>The whole replacement\<close>

definition of_space :: "('a \<Rightarrow> nat) \<Rightarrow> 'a list \<Rightarrow> nat \<Rightarrow> 'a list" where
  "of_space key xs spaceId = (case map_of (group_by key id xs) spaceId of None \<Rightarrow> [] | Some g \<Rightarrow> g)"

fun replace_each :: "int \<Rightarrow> category list \<Rightarrow> LimitLink list \<Rightarrow> nat list \<Rightarrow> db \<Rightarrow> exception + db" where
  "replace_each now cats ks [] s = Inr s"
| "replace_each now cats ks (sp # sps) s =
     and_then (replaceInSpace now sp (of_space cat_space_id cats sp) (of_space lk_limit_space_id ks sp) s)
       (replace_each now cats ks sps)"

definition replace_catalog :: "int \<Rightarrow> db \<Rightarrow> exception + db" where
  "replace_catalog now s =
     (if eligible s = [] then Inr s
      else let cats = stored_categories s; ks = limit_links s; conflicts = findLimitConflicts cats ks in
        if conflicts \<noteq> [] then Inl (conflict_error conflicts)
        else replace_each now cats ks (eligible s) s)"

text \<open>
  A connection: what is committed, and the state of its open transaction if it has one. \<open>START
  TRANSACTION\<close> commits an open transaction; the one opened then is left to the runner of the
  migrations, which commits it, or rolls it back after an error.
\<close>

record connection =
  committed :: db
  open_transaction :: "db option"

definition inOwnTransaction :: "(db \<Rightarrow> exception + db) \<Rightarrow> connection \<Rightarrow> exception option \<times> connection" where
  "inOwnTransaction work c = (case open_transaction c of
       Some s \<Rightarrow> (case work s of
           Inr s' \<Rightarrow> (None, \<lparr>committed = s, open_transaction = Some s'\<rparr>)
         | Inl e \<Rightarrow> (Some e, \<lparr>committed = s, open_transaction = None\<rparr>))
     | None \<Rightarrow> (case work (committed c) of
           Inr s' \<Rightarrow> (None, \<lparr>committed = s', open_transaction = None\<rparr>)
         | Inl e \<Rightarrow> (Some e, \<lparr>committed = committed c, open_transaction = None\<rparr>)))"

definition up :: "int \<Rightarrow> connection \<Rightarrow> exception option \<times> connection" where
  "up now = inOwnTransaction (replace_catalog now)"

definition down :: "connection \<Rightarrow> connection" where
  "down c = c"

end
