(* ===== verification/CatalogEntries.thy ===== *)
theory CatalogEntries
  imports CatalogMigration
begin

text \<open>
  The starter catalog: its entries have different names within a type and ascending order numbers, every
  category maps to one of them, and a category with the name of an entry maps to that entry.
\<close>

section \<open>The catalog\<close>

definition entry_key :: "CatalogEntry \<Rightarrow> TransactionType \<times> string" where
  "entry_key e = (ce_type e, ce_name e)"

text \<open>The entries with the order numbers they get.\<close>

fun numbered_from :: "(TransactionType \<Rightarrow> nat) \<Rightarrow> CatalogEntry list \<Rightarrow> (CatalogEntry \<times> nat) list" where
  "numbered_from f [] = []"
| "numbered_from f (e # es) =
     (e, SORT_PREFIX (ce_type e) + (f (ce_type e) + 1)) # numbered_from (f(ce_type e := f (ce_type e) + 1)) es"

definition catalog_order :: "(CatalogEntry \<times> nat) list" where
  "catalog_order = numbered_from (\<lambda>_. 0) CATALOG"

lemma catalog_keys: "distinct (map entry_key CATALOG)"
  by (simp add: CATALOG_def entry_def entry_key_def)

lemma fst_numbered: "map fst (numbered_from f es) = es"
  by (induction es arbitrary: f) simp_all

lemma fst_catalog_order [simp]: "map fst catalog_order = CATALOG"
  by (simp add: catalog_order_def fst_numbered)

lemma catalog_order_keys: "distinct (map (entry_key \<circ> fst) catalog_order)"
  using catalog_keys by (metis fst_catalog_order map_map)

lemma catalog_order_numbers: "map snd catalog_order = [101..<105] @ [201..<217]"
  by (simp add: catalog_order_def CATALOG_def entry_def upt_rec)

lemma sorted_catalog_order: "sorted_wrt (<) (map snd catalog_order)"
  by (simp add: catalog_order_def CATALOG_def entry_def)

lemma alias_targets:
  "\<forall>(k, name) \<in> set (NAME_ALIASES ty). (ty, name) \<in> entry_key ` set CATALOG"
  "\<forall>(i, name) \<in> set (ICON_ALIASES ty). (ty, name) \<in> entry_key ` set CATALOG"
  "(ty, FALLBACK ty) \<in> entry_key ` set CATALOG"
  by (cases ty; simp add: CATALOG_def entry_def entry_key_def)+

lemma target_in_catalog: "target_key c \<in> entry_key ` set CATALOG"
proof -
  let ?ty = "cat_transaction_type c" and ?n = "normalize (cat_name c)"
  have "(?ty, mp_target (mapCategory c)) \<in> entry_key ` set CATALOG"
  proof (cases "find_row (\<lambda>e. ce_type e = ?ty \<and> normalize (ce_name e) = ?n) CATALOG")
    case (Some e)
    with find_row_Some [OF Some] show ?thesis
      by (auto simp: mapCategory_def entry_key_def intro!: image_eqI [of _ _ e])
  next
    case None
    show ?thesis
    proof (cases "map_of (NAME_ALIASES ?ty) ?n")
      case (Some name)
      with None map_of_SomeD [OF Some] alias_targets(1) [of ?ty] show ?thesis
        by (auto simp: mapCategory_def)
    next
      case no_name: None
      show ?thesis
      proof (cases "map_of (ICON_ALIASES ?ty) (cat_icon c)")
        case (Some name)
        with None no_name map_of_SomeD [OF Some] alias_targets(2) [of ?ty] show ?thesis
          by (auto simp: mapCategory_def)
      qed (use None no_name alias_targets(3) [of ?ty] in \<open>simp add: mapCategory_def\<close>)
    qed
  qed
  then show ?thesis by (simp add: target_key_def)
qed

text \<open>A category with the type and name of an entry maps to it, by name.\<close>

lemma normalized_names:
  "map (normalize \<circ> ce_name) CATALOG =
    [''salary'', ''freelance'', ''gifts'', ''other income'', ''groceries'', ''eating out'', ''housing'',
     ''utilities'', ''transport'', ''car'', ''health'', ''personal care'', ''clothes'', ''home goods'',
     ''entertainment'', ''subscriptions'', ''education'', ''travel'', ''gifts'', ''other expenses'']"
  by code_simp

lemma names_distinct: "inj_on (\<lambda>e. (ce_type e, normalize (ce_name e))) (set CATALOG)"
proof -
  have types: "map ce_type CATALOG = replicate 4 INCOME @ replicate 16 EXPENSE"
    by (simp add: CATALOG_def entry_def numeral_eq_Suc)
  have zipped: "map (\<lambda>e. (f e, g e)) es = zip (map f es) (map g es)" for f g and es :: "CatalogEntry list"
    by (induction es) simp_all
  have "map (\<lambda>e. (ce_type e, normalize (ce_name e))) CATALOG =
      zip (map ce_type CATALOG) (map (normalize \<circ> ce_name) CATALOG)"
    by (simp add: zipped comp_def)
  also have "\<dots> = zip (replicate 4 INCOME @ replicate 16 EXPENSE) (map (normalize \<circ> ce_name) CATALOG)"
    by (simp only: types)
  finally have "distinct (map (\<lambda>e. (ce_type e, normalize (ce_name e))) CATALOG)"
    unfolding normalized_names by (simp only:) (simp add: numeral_eq_Suc)
  then show ?thesis by (simp add: distinct_map)
qed

lemma mapCategory_same_name:
  assumes "e \<in> set CATALOG" and "(cat_transaction_type c, cat_name c) = entry_key e"
  shows "mapCategory c = \<lparr>mp_target = ce_name e, mp_rank = 0\<rparr>"
proof -
  let ?p = "\<lambda>e'. ce_type e' = ce_type e \<and> normalize (ce_name e') = normalize (ce_name e)"
  obtain e' where found: "find_row ?p CATALOG = Some e'"
    using assms(1) by (cases "find_row ?p CATALOG") (auto simp: find_row_None)
  have "e' = e"
    using find_row_Some [OF found] assms(1) by (intro inj_onD [OF names_distinct]) auto
  with found assms(2) show ?thesis by (simp add: mapCategory_def entry_key_def)
qed

end
