(* ===== verification/ReplacementFacts.thy ===== *)
theory ReplacementFacts
  imports CatalogEntries SpaceCatalog
begin

text \<open>
  One space under the replacement of its catalog: different entries get different categories, and what
  \<open>replaceInSpace\<close> does is one rewriting of the categories, the transactions and the limits of the
  space, which the database never refuses.
\<close>

section \<open>Placing the catalog\<close>

text \<open>The step of one entry, its order number given.\<close>

definition place_at :: "int \<Rightarrow> nat \<Rightarrow> category list \<Rightarrow> CatalogEntry \<times> nat \<Rightarrow>
    ((TransactionType \<times> string) \<Rightarrow> nat option) \<times> category table \<Rightarrow>
    ((TransactionType \<times> string) \<Rightarrow> nat option) \<times> category table" where
  "place_at now sp cats = (\<lambda>(e, n) (tg, tb). case keeper cats e of
       Some c \<Rightarrow> (tg(entry_key e \<mapsto> cat_id c),
         tb\<lparr>rows := update_rows (\<lambda>r. cat_id r = cat_id c) (adopt now e n) (rows tb)\<rparr>)
     | None \<Rightarrow> (tg(entry_key e \<mapsto> next_id tb), insert_auto (catalog_row now sp e n) tb))"

lemma fold_place_entry:
  "(pl_targets p', pl_table p') = fold (place_at now sp cats) (numbered_from (pl_position p) es) (pl_targets p, pl_table p)"
  if "p' = fold (place_entry now sp cats) es p"
  using that
proof (induction es arbitrary: p)
  case (Cons e es)
  let ?q = "place_entry now sp cats e p"
  have "pl_position ?q = (pl_position p)(ce_type e := pl_position p (ce_type e) + 1)"
    "(pl_targets ?q, pl_table ?q) =
      place_at now sp cats (e, SORT_PREFIX (ce_type e) + (pl_position p (ce_type e) + 1)) (pl_targets p, pl_table p)"
    by (auto simp: place_entry_def place_at_def entry_key_def Let_def split: option.splits)
  with Cons.IH [of ?q] Cons.prems show ?case by (simp add: fun_upd_def)
qed simp

lemma place_catalog_eq:
  "(pl_targets (place_catalog now sp cats t), pl_table (place_catalog now sp cats t)) =
    fold (place_at now sp cats) catalog_order (Map.empty, t)"
  by (subst fold_place_entry [OF place_catalog_def]) (simp add: catalog_order_def)

text \<open>The entries that keep a category, and those that get a new one.\<close>

definition kept :: "category list \<Rightarrow> (CatalogEntry \<times> nat) list \<Rightarrow> nat \<Rightarrow> (CatalogEntry \<times> nat) option" where
  "kept cats ns i = find_row (\<lambda>(e, n). map_option cat_id (keeper cats e) = Some i) ns"

definition adopted :: "int \<Rightarrow> category list \<Rightarrow> (CatalogEntry \<times> nat) list \<Rightarrow> category \<Rightarrow> category" where
  "adopted now cats ns r = (case kept cats ns (cat_id r) of None \<Rightarrow> r | Some (e, n) \<Rightarrow> adopt now e n r)"

definition unkept :: "category list \<Rightarrow> (CatalogEntry \<times> nat) list \<Rightarrow> (CatalogEntry \<times> nat) list" where
  "unkept cats ns = filter (\<lambda>(e, n). keeper cats e = None) ns"

fun added :: "int \<Rightarrow> nat \<Rightarrow> (CatalogEntry \<times> nat) list \<Rightarrow> nat \<Rightarrow> category list" where
  "added now sp [] k = []"
| "added now sp ((e, n) # ns) k = catalog_row now sp e n k # added now sp ns (Suc k)"

lemma keeper_Some:
  assumes "keeper cats e = Some c"
  shows "c \<in> set cats" and "target_key c = entry_key e"
proof -
  have "c \<in> set (filter (\<lambda>c. target_key c = (ce_type e, ce_name e) \<and> mp_rank (mapCategory c) < 2) cats)"
    using head_opt_Some [OF assms [unfolded keeper_def]] by simp
  then show "c \<in> set cats" "target_key c = entry_key e" by (simp_all add: entry_key_def)
qed

lemma adopt_simps [simp]:
  "cat_id (adopt now e n c) = cat_id c" "cat_space_id (adopt now e n c) = cat_space_id c"
  "cat_is_system (adopt now e n c) = cat_is_system c"
  "cat_transaction_type (adopt now e n c) = cat_transaction_type c"
  "cat_name (adopt now e n c) = ce_name e" "cat_icon (adopt now e n c) = ce_icon e"
  "cat_color (adopt now e n c) = ce_color e" "cat_is_active (adopt now e n c)"
  "cat_archived_at (adopt now e n c) = None" "cat_sort (adopt now e n c) = n"
  unfolding adopt_def Let_def by (cases c; auto)+

lemma catalog_row_simps [simp]:
  "cat_id (catalog_row now sp e n i) = i" "cat_space_id (catalog_row now sp e n i) = sp"
  "\<not> cat_is_system (catalog_row now sp e n i)"
  "cat_transaction_type (catalog_row now sp e n i) = ce_type e"
  "cat_name (catalog_row now sp e n i) = ce_name e" "cat_icon (catalog_row now sp e n i) = ce_icon e"
  "cat_color (catalog_row now sp e n i) = ce_color e" "cat_is_active (catalog_row now sp e n i)"
  "cat_archived_at (catalog_row now sp e n i) = None" "cat_sort (catalog_row now sp e n i) = n"
  by (simp_all add: catalog_row_def new_category_def default_category_def)

lemma adopted_simps [simp]:
  "cat_id (adopted now cats ns c) = cat_id c" "cat_space_id (adopted now cats ns c) = cat_space_id c"
  "cat_is_system (adopted now cats ns c) = cat_is_system c"
  "cat_transaction_type (adopted now cats ns c) = cat_transaction_type c"
  by (auto simp: adopted_def split: option.split)

lemma set_added: "r \<in> set (added now sp ns k) \<longleftrightarrow>
    (\<exists>i < length ns. r = catalog_row now sp (fst (ns ! i)) (snd (ns ! i)) (k + i))"
proof (induction ns arbitrary: k)
  case (Cons p ns)
  obtain e n where p: "p = (e, n)" by (cases p)
  show ?case
    by (auto simp: p Cons less_Suc_eq_0_disj)
qed simp

lemma map_id_added: "map cat_id (added now sp ns k) = [k..<k + length ns]"
  by (induction now sp ns k rule: added.induct) (simp_all add: upt_rec)

lemma length_added [simp]: "length (added now sp ns k) = length ns"
  by (induction now sp ns k rule: added.induct) simp_all

text \<open>What placing comes to: adopted rows, followed by the new ones.\<close>

lemma kept_None:
  "(\<And>e n. (e, n) \<in> set ns \<Longrightarrow> map_option cat_id (keeper cats e) \<noteq> Some i) \<Longrightarrow> kept cats ns i = None"
  by (auto simp: kept_def find_row_None)

lemma kept_Some: "kept cats ns i = Some (e, n) \<Longrightarrow> (e, n) \<in> set ns \<and> (\<exists>c. keeper cats e = Some c \<and> cat_id c = i)"
  unfolding kept_def by (drule find_row_Some) auto

lemma place_rows:
  assumes "distinct (map (entry_key \<circ> fst) ns)" and "distinct (map cat_id cats)"
    and "\<forall>c \<in> set cats. cat_id c < next_id t"
  shows "rows (snd (fold (place_at now sp cats) ns (tg, t))) =
      map (adopted now cats ns) (rows t) @ added now sp (unkept cats ns) (next_id t) \<and>
    next_id (snd (fold (place_at now sp cats) ns (tg, t))) = next_id t + length (unkept cats ns)"
  using assms(1,3)
proof (induction ns arbitrary: tg t)
  case Nil
  then show ?case by (simp add: adopted_def kept_def unkept_def)
next
  case (Cons p ns)
  obtain e n where p: "p = (e, n)" by (cases p)
  have other: "entry_key e' \<noteq> entry_key e" if "(e', n') \<in> set ns" for e' n'
    using Cons.prems(1) that by (force simp: p)
  show ?case
  proof (cases "keeper cats e")
    case (Some c)
    have free: "kept cats ns (cat_id c) = None"
    proof (rule kept_None, rule notI)
      fix e' n' assume e': "(e', n') \<in> set ns" and "map_option cat_id (keeper cats e') = Some (cat_id c)"
      then obtain c' where c': "keeper cats e' = Some c'" "cat_id c' = cat_id c" by auto
      have "c' = c"
        using distinct_key_eq [OF assms(2)] keeper_Some(1) [OF c'(1)] keeper_Some(1) [OF Some] c'(2) by blast
      with keeper_Some(2) [OF c'(1)] keeper_Some(2) [OF Some] other [OF e'] show False by simp
    qed
    let ?t = "t\<lparr>rows := update_rows (\<lambda>r. cat_id r = cat_id c) (adopt now e n) (rows t)\<rparr>"
    have step: "place_at now sp cats (e, n) (tg, t) = (tg(entry_key e \<mapsto> cat_id c), ?t)"
      by (simp add: place_at_def p Some)
    have "adopted now cats ns (if cat_id r = cat_id c then adopt now e n r else r) = adopted now cats (p # ns) r" for r
      using free by (auto simp: adopted_def p kept_def Some split: option.split)
    then have "map (adopted now cats ns) (rows ?t) = map (adopted now cats (p # ns)) (rows t)"
      by (simp add: update_rows_def)
    moreover have "unkept cats (p # ns) = unkept cats ns" by (simp add: unkept_def p Some)
    ultimately show ?thesis
      using Cons.IH [of ?t "tg(entry_key e \<mapsto> cat_id c)"] Cons.prems by (simp add: step p fun_upd_def)
  next
    case None
    let ?t = "insert_auto (catalog_row now sp e n) t"
    have step: "place_at now sp cats (e, n) (tg, t) = (tg(entry_key e \<mapsto> next_id t), ?t)"
      by (simp add: place_at_def p None)
    have "kept cats ns (next_id t) = None"
      using Cons.prems(2) by (intro kept_None) (auto dest!: keeper_Some(1))
    then have new: "adopted now cats ns (catalog_row now sp e n (next_id t)) = catalog_row now sp e n (next_id t)"
      by (simp add: adopted_def)
    have "adopted now cats (p # ns) = adopted now cats ns"
      by (simp add: fun_eq_iff adopted_def kept_def p None)
    moreover have "unkept cats (p # ns) = (e, n) # unkept cats ns" by (simp add: unkept_def p None)
    moreover have "\<forall>c \<in> set cats. cat_id c < next_id ?t" using Cons.prems(2) by auto
    ultimately show ?thesis
      using Cons.IH [of ?t "tg(entry_key e \<mapsto> next_id t)"] Cons.prems(1) new by (simp add: step p fun_upd_def)
  qed
qed

text \<open>The target of an entry is its kept category or its new one.\<close>

lemma place_other_targets:
  "k \<notin> (entry_key \<circ> fst) ` set ns \<Longrightarrow> fst (fold (place_at now sp cats) ns (tg, t)) k = tg k"
proof (induction ns arbitrary: tg t)
  case (Cons p ns)
  obtain e n where p: "p = (e, n)" by (cases p)
  from Cons.prems have k: "k \<noteq> entry_key e" "k \<notin> (entry_key \<circ> fst) ` set ns" by (auto simp: p)
  obtain tg' t' where step: "place_at now sp cats (e, n) (tg, t) = (tg', t')" and "tg' k = tg k"
    using k(1) by (cases "keeper cats e") (auto simp: place_at_def)
  with Cons.IH [OF k(2), of tg' t'] show ?case by (simp add: p)
qed simp

lemma place_targets:
  assumes "distinct (map (entry_key \<circ> fst) ns)" and "(e, n) \<in> set ns"
  shows "\<exists>i. fst (fold (place_at now sp cats) ns (tg, t)) (entry_key e) = Some i \<and>
    (case keeper cats e of Some c \<Rightarrow> i = cat_id c
     | None \<Rightarrow> next_id t \<le> i \<and> catalog_row now sp e n i \<in> set (added now sp (unkept cats ns) (next_id t)))"
  using assms
proof (induction ns arbitrary: tg t)
  case (Cons p ns)
  obtain e' n' where p: "p = (e', n')" by (cases p)
  define tg1 where "tg1 = tg(entry_key e' \<mapsto> (case keeper cats e' of Some c \<Rightarrow> cat_id c | None \<Rightarrow> next_id t))"
  define t1 where "t1 = snd (place_at now sp cats (e', n') (tg, t))"
  have step: "place_at now sp cats (e', n') (tg, t) = (tg1, t1)"
    by (simp add: t1_def tg1_def place_at_def split: option.split)
  have next1: "next_id t1 = next_id t + (if keeper cats e' = None then 1 else 0)"
    by (simp add: t1_def place_at_def split: option.split)
  show ?case
  proof (cases "(e, n) = (e', n')")
    case True
    then have "entry_key e \<notin> (entry_key \<circ> fst) ` set ns" using Cons.prems(1) by (simp add: p)
    then have "fst (fold (place_at now sp cats) (p # ns) (tg, t)) (entry_key e) = tg1 (entry_key e)"
      by (simp add: p step place_other_targets)
    with True show ?thesis by (auto simp: p unkept_def tg1_def split: option.split)
  next
    case False
    with Cons.prems have "(e, n) \<in> set ns" "distinct (map (entry_key \<circ> fst) ns)" by (auto simp: p comp_def)
    from Cons.IH [OF this(2,1), of tg1 t1] obtain i where
      i: "fst (fold (place_at now sp cats) (p # ns) (tg, t)) (entry_key e) = Some i"
      and case_i: "case keeper cats e of Some c \<Rightarrow> i = cat_id c
        | None \<Rightarrow> next_id t1 \<le> i \<and> catalog_row now sp e n i \<in> set (added now sp (unkept cats ns) (next_id t1))"
      by (auto simp: p step)
    have "set (added now sp (unkept cats ns) (next_id t1)) \<subseteq> set (added now sp (unkept cats (p # ns)) (next_id t))"
      by (auto simp: unkept_def p next1)
    with i case_i next1 show ?thesis
      by (intro exI [of _ i]) (auto split: option.splits if_splits)
  qed
qed simp

section \<open>The catalog of one space\<close>

definition ordinary :: "nat \<Rightarrow> db \<Rightarrow> category list" where
  "ordinary sp s = sort_key cat_id (filter (\<lambda>c. \<not> cat_is_system c \<and> cat_space_id c = sp) (rows (categories s)))"

text \<open>A row that is an entry of the catalog of a space.\<close>

definition is_entry :: "nat \<Rightarrow> CatalogEntry \<times> nat \<Rightarrow> category \<Rightarrow> bool" where
  "is_entry sp = (\<lambda>(e, n) r. cat_space_id r = sp \<and> \<not> cat_is_system r \<and> cat_is_active r \<and> cat_archived_at r = None \<and>
     cat_transaction_type r = ce_type e \<and> cat_name r = ce_name e \<and> cat_icon r = ce_icon e \<and>
     cat_color r = ce_color e \<and> cat_sort r = n)"

definition placed :: "int \<Rightarrow> nat \<Rightarrow> db \<Rightarrow> Placed" where
  "placed now sp s = place_catalog now sp (ordinary sp s) (categories s)"

definition catalog_target :: "int \<Rightarrow> nat \<Rightarrow> db \<Rightarrow> TransactionType \<times> string \<Rightarrow> nat" where
  "catalog_target now sp s k = the (pl_targets (placed now sp s) k)"

lemma set_ordinary [simp]:
  "c \<in> set (ordinary sp s) \<longleftrightarrow> c \<in> set (rows (categories s)) \<and> \<not> cat_is_system c \<and> cat_space_id c = sp"
  by (auto simp: ordinary_def)

lemma distinct_ordinary: "distinct (map cat_id (rows (categories s))) \<Longrightarrow> distinct (map cat_id (ordinary sp s))"
  by (auto simp: ordinary_def distinct_map inj_on_def)

lemma placed_rows:
  assumes "table_ok cat_id (categories s)"
  shows "rows (pl_table (placed now sp s)) = map (adopted now (ordinary sp s) catalog_order) (rows (categories s)) @
      added now sp (unkept (ordinary sp s) catalog_order) (next_id (categories s))"
    and "next_id (pl_table (placed now sp s)) =
      next_id (categories s) + length (unkept (ordinary sp s) catalog_order)"
proof -
  have "pl_table (placed now sp s) = snd (fold (place_at now sp (ordinary sp s)) catalog_order (Map.empty, categories s))"
    by (metis place_catalog_eq placed_def snd_conv)
  moreover have "\<forall>c \<in> set (ordinary sp s). cat_id c < next_id (categories s)"
    using assms by (auto simp: table_ok_def)
  ultimately show "rows (pl_table (placed now sp s)) = map (adopted now (ordinary sp s) catalog_order) (rows (categories s)) @
      added now sp (unkept (ordinary sp s) catalog_order) (next_id (categories s))"
    and "next_id (pl_table (placed now sp s)) =
      next_id (categories s) + length (unkept (ordinary sp s) catalog_order)"
    using place_rows [OF catalog_order_keys distinct_ordinary, of s sp "categories s" now sp Map.empty] assms
    by (auto simp: table_ok_def)
qed

lemma placed_table_ok:
  assumes "table_ok cat_id (categories s)"
  shows "table_ok cat_id (pl_table (placed now sp s))"
proof -
  have "map cat_id (rows (pl_table (placed now sp s))) = map cat_id (rows (categories s)) @
      [next_id (categories s)..<next_id (categories s) + length (unkept (ordinary sp s) catalog_order)]"
    by (simp add: placed_rows(1) [OF assms] map_id_added comp_def)
  moreover have "\<forall>r \<in> set (rows (pl_table (placed now sp s))). cat_id r < next_id (pl_table (placed now sp s))"
    using assms by (auto simp: placed_rows [OF assms] set_added table_ok_def)
  ultimately show ?thesis using assms by (auto simp: table_ok_def)
qed

lemma adopted_keeper:
  assumes "table_ok cat_id (categories s)" and "(e, n) \<in> set catalog_order" and "keeper (ordinary sp s) e = Some c"
  shows "adopted now (ordinary sp s) catalog_order c = adopt now e n c"
proof (cases "kept (ordinary sp s) catalog_order (cat_id c)")
  case None
  with assms(2,3) show ?thesis by (auto simp: kept_def find_row_None)
next
  case (Some p)
  obtain e' n' where p: "p = (e', n')" by (cases p)
  from kept_Some [OF Some [unfolded p]] obtain c' where
    c': "(e', n') \<in> set catalog_order" "keeper (ordinary sp s) e' = Some c'" "cat_id c' = cat_id c" by blast
  have "c' = c"
    using distinct_key_eq [OF distinct_ordinary, of s c' sp c] keeper_Some(1) [OF c'(2)] keeper_Some(1) [OF assms(3)]
      c'(3) assms(1) by (simp add: table_ok_def)
  then have "entry_key e' = entry_key e" using keeper_Some(2) [OF c'(2)] keeper_Some(2) [OF assms(3)] by simp
  then have "(e', n') = (e, n)"
    using distinct_key_eq [OF catalog_order_keys c'(1) assms(2)] by simp
  then show ?thesis by (simp add: adopted_def Some p)
qed

lemma entry_of_order: "e \<in> set CATALOG \<Longrightarrow> \<exists>n. (e, n) \<in> set catalog_order"
  by (metis fst_catalog_order image_iff list.set_map prod.collapse)

text \<open>Every entry has its row, which is the target of its key.\<close>

lemma target_row:
  assumes ok: "table_ok cat_id (categories s)" and e: "(e, n) \<in> set catalog_order"
  shows "\<exists>r \<in> set (rows (pl_table (placed now sp s))). is_entry sp (e, n) r \<and>
    cat_id r = catalog_target now sp s (entry_key e) \<and>
    (\<forall>c \<in> set (ordinary sp s). cat_id c = cat_id r \<longrightarrow> target_key c = entry_key e)"
proof -
  have tg: "pl_targets (placed now sp s) = fst (fold (place_at now sp (ordinary sp s)) catalog_order (Map.empty, categories s))"
    by (metis place_catalog_eq placed_def fst_conv)
  from place_targets [OF catalog_order_keys e, of now sp "ordinary sp s" Map.empty "categories s"]
  obtain i where "pl_targets (placed now sp s) (entry_key e) = Some i"
    and from': "case keeper (ordinary sp s) e of Some c \<Rightarrow> i = cat_id c
      | None \<Rightarrow> next_id (categories s) \<le> i \<and>
          catalog_row now sp e n i \<in> set (added now sp (unkept (ordinary sp s) catalog_order) (next_id (categories s)))"
    unfolding tg by blast
  then have i: "catalog_target now sp s (entry_key e) = i" by (simp add: catalog_target_def)
  show ?thesis
  proof (cases "keeper (ordinary sp s) e")
    case (Some c)
    have c: "c \<in> set (ordinary sp s)" "target_key c = entry_key e" using keeper_Some [OF Some] by simp_all
    have unique: "c' = c" if "c' \<in> set (ordinary sp s)" "cat_id c' = cat_id c" for c'
      using distinct_key_eq [OF distinct_ordinary that(1) c(1) that(2)] ok by (simp add: table_ok_def)
    have "adopted now (ordinary sp s) catalog_order c = adopt now e n c" by (rule adopted_keeper [OF ok e Some])
    then have "adopt now e n c \<in> set (rows (pl_table (placed now sp s)))"
      using c(1) by (auto simp: placed_rows(1) [OF ok] intro!: image_eqI [of _ _ c])
    moreover have "is_entry sp (e, n) (adopt now e n c)"
      using c by (simp add: is_entry_def target_key_def entry_key_def)
    moreover have "\<forall>c' \<in> set (ordinary sp s). cat_id c' = cat_id c \<longrightarrow> target_key c' = entry_key e"
      using unique c(2) by blast
    ultimately show ?thesis
      using from' i Some by (intro bexI [of _ "adopt now e n c"]) simp_all
  next
    case None
    with from' have new: "next_id (categories s) \<le> i"
      "catalog_row now sp e n i \<in> set (rows (pl_table (placed now sp s)))"
      by (simp_all add: placed_rows(1) [OF ok])
    have "cat_id c \<noteq> i" if "c \<in> set (ordinary sp s)" for c
      using that ok new(1) by (auto simp: table_ok_def)
    then show ?thesis
      using new(2) i by (intro bexI [of _ "catalog_row now sp e n i"]) (simp_all add: is_entry_def)
  qed
qed

section \<open>What moves\<close>

text \<open>Where a category of the space goes; any other stays itself.\<close>

definition goes :: "int \<Rightarrow> nat \<Rightarrow> db \<Rightarrow> nat \<Rightarrow> nat" where
  "goes now sp s i = (case category_by_id (ordinary sp s) i of
     None \<Rightarrow> i | Some c \<Rightarrow> catalog_target now sp s (target_key c))"

definition moved :: "(nat \<Rightarrow> nat) \<Rightarrow> transaction \<Rightarrow> transaction" where
  "moved f t = (if f (t_category_id t) = t_category_id t then t
     else t\<lparr>t_category_id := f (t_category_id t), t_version := t_version t + 1\<rparr>)"

definition followed :: "(nat \<Rightarrow> nat) \<Rightarrow> nat list \<Rightarrow> nat list" where
  "followed f cs = (let wanted = dedup (map f (sort cs)) in
     filter (\<lambda>i. i \<in> set wanted) cs @ filter (\<lambda>i. i \<notin> set cs) wanted)"

lemma set_followed [simp]: "set (followed f cs) = f ` set cs"
  by (auto simp: followed_def Let_def)

lemma distinct_followed: "distinct cs \<Longrightarrow> distinct (followed f cs)"
  by (auto simp: followed_def Let_def)

lemma followed_same: "(\<And>i. i \<in> set cs \<Longrightarrow> f i = i) \<Longrightarrow> followed f cs = cs"
proof -
  assume "\<And>i. i \<in> set cs \<Longrightarrow> f i = i"
  then have "set (dedup (map f (sort cs))) = set cs" by (force simp: image_iff)
  then show ?thesis by (simp add: followed_def Let_def filter_True filter_empty_conv)
qed

lemma fst_replacements: "fst ` set (replacements tg cats) \<subseteq> cat_id ` set cats"
  by (auto simp: replacements_def map_filter_def Let_def split: if_splits)

lemma map_of_replacements:
  assumes "distinct (map cat_id cats)"
  shows "map_of (replacements tg cats) i = (case category_by_id cats i of None \<Rightarrow> None
     | Some c \<Rightarrow> if the (tg (target_key c)) = i then None else Some (the (tg (target_key c))))"
  using assms
proof (induction cats)
  case (Cons c cats)
  have "map_of (replacements tg cats) (cat_id c) = None"
    using Cons.prems fst_replacements [of tg cats] by (auto simp: map_of_eq_None_iff)
  with Cons show ?case
    by (auto simp: replacements_def map_filter_def category_by_id_def Let_def)
qed (simp add: replacements_def map_filter_def category_by_id_def)

lemma distinct_replacements: "distinct (map cat_id cats) \<Longrightarrow> distinct (map fst (replacements tg cats))"
proof (induction cats)
  case (Cons c cats)
  with fst_replacements [of tg cats] show ?case by (auto simp: replacements_def map_filter_def Let_def)
qed (simp add: replacements_def map_filter_def)

lemma fold_move:
  assumes "distinct (map fst rep)" and "\<forall>(i, n) \<in> set rep. n \<notin> fst ` set rep"
  shows "fold move_transactions rep ts =
    map (moved (\<lambda>i. case map_of rep i of None \<Rightarrow> i | Some n \<Rightarrow> n)) ts"
  using assms
proof (induction rep arbitrary: ts)
  case Nil
  then show ?case by (simp add: moved_def)
next
  case (Cons p rep)
  obtain i n where p: "p = (i, n)" by (cases p)
  let ?f = "\<lambda>rep i. case map_of rep i of None \<Rightarrow> i | Some n \<Rightarrow> n"
  have n: "n \<noteq> i" "map_of rep n = None" and i: "map_of rep i = None"
    using Cons.prems by (auto simp: p map_of_eq_None_iff)
  have "fold move_transactions (p # rep) ts = map (moved (?f rep)) (move_transactions (i, n) ts)"
  proof -
    have "distinct (map fst rep)" "\<forall>(i, n) \<in> set rep. n \<notin> fst ` set rep" using Cons.prems by auto
    from Cons.IH [OF this] show ?thesis by (simp add: p)
  qed
  also have "\<dots> = map (moved (?f (p # rep))) ts"
    using n i by (auto simp: move_transactions_def moved_def p)
  finally show ?case .
qed

text \<open>The links of a space, limit by limit.\<close>

definition links_ok :: "nat \<Rightarrow> LimitLink list \<Rightarrow> db \<Rightarrow> bool" where
  "links_ok sp ks s \<longleftrightarrow> (\<forall>l \<in> set (rows (limits s)).
     map lk_category_id (filter (\<lambda>k. lk_limit_id k = l_id l) ks) = (if l_space_id l = sp then sort (l_categories l) else []))"

lemma relink_update:
  "relink rep (i, ks) ls = update_rows (\<lambda>l. l_id l = i) (\<lambda>l. l\<lparr>l_categories :=
     (let current = map lk_category_id ks; wanted = dedup (map (\<lambda>i. case map_of rep i of None \<Rightarrow> i | Some n \<Rightarrow> n) current) in
      filter (\<lambda>i. i \<notin> set current \<or> i \<in> set wanted) (l_categories l) @ filter (\<lambda>i. i \<notin> set current) wanted)\<rparr>) ls"
proof -
  have "filter (\<lambda>i. i \<notin> set (filter (\<lambda>i. i \<notin> set wanted) current)) xs =
      filter (\<lambda>i. i \<notin> set current \<or> i \<in> set wanted) xs" for wanted current :: "nat list" and xs
    by (rule filter_cong) auto
  then show ?thesis by (simp add: relink_def set_categories_def Let_def)
qed

lemma fold_relink:
  assumes "distinct (map fst gs)"
    and "\<forall>(i, ks) \<in> set gs. \<forall>l \<in> set ls. l_id l = i \<longrightarrow> map lk_category_id ks = sort (l_categories l)"
  shows "fold (relink rep) gs ls = map (\<lambda>l. if l_id l \<in> fst ` set gs
    then l\<lparr>l_categories := followed (\<lambda>i. case map_of rep i of None \<Rightarrow> i | Some n \<Rightarrow> n) (l_categories l)\<rparr> else l) ls"
  using assms
proof (induction gs arbitrary: ls)
  case (Cons g gs)
  obtain i ks where g: "g = (i, ks)" by (cases g)
  let ?f = "\<lambda>i. case map_of rep i of None \<Rightarrow> i | Some n \<Rightarrow> n"
  have first: "relink rep (i, ks) ls =
      map (\<lambda>l. if l_id l = i then l\<lparr>l_categories := followed ?f (l_categories l)\<rparr> else l) ls"
    unfolding relink_update update_rows_def
  proof (rule map_cong [OF refl])
    fix l assume l: "l \<in> set ls"
    show "(if l_id l = i then l\<lparr>l_categories := (let current = map lk_category_id ks; wanted = dedup (map ?f current) in
        filter (\<lambda>i. i \<notin> set current \<or> i \<in> set wanted) (l_categories l) @ filter (\<lambda>i. i \<notin> set current) wanted)\<rparr> else l) =
      (if l_id l = i then l\<lparr>l_categories := followed ?f (l_categories l)\<rparr> else l)"
    proof (cases "l_id l = i")
      case True
      with Cons.prems(2) l have ks: "map lk_category_id ks = sort (l_categories l)" by (auto simp: g)
      have "filter (\<lambda>i. i \<in> set (l_categories l) \<longrightarrow> P i) (l_categories l) = filter P (l_categories l)" for P
        by (rule filter_cong) auto
      then show ?thesis by (simp add: True followed_def Let_def ks)
    qed simp
  qed
  have fresh: "i \<notin> fst ` set gs" using Cons.prems(1) by (auto simp: g)
  have "fold (relink rep) gs (relink rep (i, ks) ls) = map (\<lambda>l. if l_id l \<in> fst ` set gs
      then l\<lparr>l_categories := followed ?f (l_categories l)\<rparr> else l) (relink rep (i, ks) ls)"
  proof (rule Cons.IH)
    show "distinct (map fst gs)" using Cons.prems(1) by simp
    show "\<forall>(j, ks') \<in> set gs. \<forall>l \<in> set (relink rep (i, ks) ls). l_id l = j \<longrightarrow> map lk_category_id ks' = sort (l_categories l)"
    proof (intro ballI, clarify)
      fix ks' l assume j: "(l_id l, ks') \<in> set gs" and l: "l \<in> set (relink rep (i, ks) ls)"
      have "l_id l \<noteq> i" using j fresh by (metis fst_conv image_eqI)
      with l have "l \<in> set ls" by (auto simp: first split: if_splits)
      with Cons.prems(2) j show "map lk_category_id ks' = sort (l_categories l)" by auto
    qed
  qed
  also have "\<dots> = map (\<lambda>l. if l_id l \<in> fst ` set (g # gs)
      then l\<lparr>l_categories := followed ?f (l_categories l)\<rparr> else l) ls"
    using fresh unfolding first map_map by (intro map_cong refl) (simp add: g)
  finally show ?case by (simp add: g)
qed simp

section \<open>One space, in one rewriting\<close>

lemma category_by_id_ordinary:
  assumes "table_ok cat_id (categories s)" and "c \<in> set (ordinary sp s)"
  shows "category_by_id (ordinary sp s) (cat_id c) = Some c"
  unfolding category_by_id_def
  by (rule find_row_key [OF distinct_ordinary]) (use assms in \<open>simp_all add: table_ok_def\<close>)

lemma goes_target:
  assumes "table_ok cat_id (categories s)" and "c \<in> set (ordinary sp s)"
  shows "goes now sp s (cat_id c) = catalog_target now sp s (target_key c)"
  by (simp add: goes_def category_by_id_ordinary [OF assms])

lemma goes_other: "goes now sp s i \<noteq> i \<Longrightarrow> \<exists>c \<in> set (ordinary sp s). cat_id c = i"
  by (auto simp: goes_def category_by_id_def dest!: find_row_Some split: option.splits)

text \<open>What a category goes to is the row of its entry, and stays.\<close>

lemma goes_row:
  assumes ok: "table_ok cat_id (categories s)" and c: "c \<in> set (ordinary sp s)"
  obtains e n r where "(e, n) \<in> set catalog_order" and "r \<in> set (rows (pl_table (placed now sp s)))"
    and "is_entry sp (e, n) r" and "target_key c = entry_key e" and "cat_id r = goes now sp s (cat_id c)"
    and "goes now sp s (cat_id r) = cat_id r"
proof -
  obtain e where e: "e \<in> set CATALOG" "target_key c = entry_key e"
    using target_in_catalog [of c] by auto
  obtain n where n: "(e, n) \<in> set catalog_order" using entry_of_order [OF e(1)] ..
  obtain r where r: "r \<in> set (rows (pl_table (placed now sp s)))" "is_entry sp (e, n) r"
    "cat_id r = catalog_target now sp s (entry_key e)"
    and same: "\<And>c. c \<in> set (ordinary sp s) \<Longrightarrow> cat_id c = cat_id r \<Longrightarrow> target_key c = entry_key e"
    using target_row [OF ok n, where now = now and sp = sp] by blast
  have "goes now sp s (cat_id r) = cat_id r"
  proof (rule ccontr)
    assume moves: "goes now sp s (cat_id r) \<noteq> cat_id r"
    then obtain c' where c': "c' \<in> set (ordinary sp s)" "cat_id c' = cat_id r" using goes_other by blast
    then have "goes now sp s (cat_id r) = catalog_target now sp s (entry_key e)"
      using goes_target [OF ok c'(1), of now] same [OF c'] by simp
    with moves r(3) show False by simp
  qed
  with that [OF n r(1,2) e(2)] show thesis
    using goes_target [OF ok c, of now] r(3) e(2) by simp
qed

lemma goes_goes:
  assumes ok: "table_ok cat_id (categories s)"
  shows "goes now sp s (goes now sp s i) = goes now sp s i"
proof (cases "goes now sp s i = i")
  case False
  then obtain c where "c \<in> set (ordinary sp s)" "cat_id c = i" using goes_other by blast
  with goes_row [OF ok this(1), of now] show ?thesis by metis
qed simp

definition space_replacements :: "int \<Rightarrow> nat \<Rightarrow> db \<Rightarrow> (nat \<times> nat) list" where
  "space_replacements now sp s = replacements (pl_targets (placed now sp s)) (ordinary sp s)"

lemma map_of_space_replacements:
  assumes "table_ok cat_id (categories s)"
  shows "map_of (space_replacements now sp s) i =
    (if goes now sp s i = i then None else Some (goes now sp s i))"
  using map_of_replacements [OF distinct_ordinary, of s "pl_targets (placed now sp s)" sp i] assms
  by (auto simp: table_ok_def space_replacements_def goes_def catalog_target_def split: option.split)

lemma fst_space_replacements:
  assumes "table_ok cat_id (categories s)"
  shows "fst ` set (space_replacements now sp s) = {i. goes now sp s i \<noteq> i}"
proof -
  have "i \<in> fst ` set (space_replacements now sp s) \<longleftrightarrow> goes now sp s i \<noteq> i" for i
    using map_of_eq_None_iff [of "space_replacements now sp s" i]
    by (simp only: map_of_space_replacements [OF assms]) (simp split: if_splits)
  then show ?thesis by blast
qed

definition replaced :: "int \<Rightarrow> nat \<Rightarrow> db \<Rightarrow> db" where
  "replaced now sp s = s
     \<lparr>categories := (pl_table (placed now sp s))\<lparr>rows :=
        delete_rows (\<lambda>c. goes now sp s (cat_id c) \<noteq> cat_id c) (rows (pl_table (placed now sp s)))\<rparr>,
      transactions := map (moved (goes now sp s)) (transactions s),
      limits := (limits s)\<lparr>rows := map (\<lambda>l. if l_space_id l = sp
        then l\<lparr>l_categories := followed (goes now sp s) (l_categories l)\<rparr> else l) (rows (limits s))\<rparr>\<rparr>"

lemma followed_Nil [simp]: "followed f [] = []"
  by (simp add: followed_def)

lemma followed_total:
  assumes "[] = sort (l_categories l)"
  shows "l\<lparr>l_categories := followed f (l_categories l)\<rparr> = l"
proof -
  have "set (l_categories l) = {}" using assms by (metis set_sort list.set(1))
  then show ?thesis by (cases l) simp
qed

lemma replaced_limits:
  assumes ok: "table_ok cat_id (categories s)" and links: "links_ok sp ks s"
  shows "fold (relink (space_replacements now sp s)) (group_by lk_limit_id id ks) (rows (limits s)) =
    map (\<lambda>l. if l_space_id l = sp then l\<lparr>l_categories := followed (goes now sp s) (l_categories l)\<rparr> else l)
      (rows (limits s))"
proof -
  have subst_goes: "(\<lambda>i. case map_of (space_replacements now sp s) i of None \<Rightarrow> i | Some n \<Rightarrow> n) = goes now sp s"
    by (auto simp: map_of_space_replacements [OF ok] split: option.split)
  have groups: "fst ` set (group_by lk_limit_id id ks) = lk_limit_id ` set ks"
    by (simp add: group_by_def image_image)
  have ks_of: "map lk_category_id (filter (\<lambda>k. lk_limit_id k = l_id l) ks) =
      (if l_space_id l = sp then sort (l_categories l) else [])" if "l \<in> set (rows (limits s))" for l
    using links that by (simp add: links_ok_def)
  have member: "l_id l \<in> lk_limit_id ` set ks \<longleftrightarrow> filter (\<lambda>k. lk_limit_id k = l_id l) ks \<noteq> []" for l
    unfolding filter_empty_conv image_iff by metis
  have "fold (relink (space_replacements now sp s)) (group_by lk_limit_id id ks) (rows (limits s)) =
      map (\<lambda>l. if l_id l \<in> lk_limit_id ` set ks
        then l\<lparr>l_categories := followed (goes now sp s) (l_categories l)\<rparr> else l) (rows (limits s))"
    unfolding groups [symmetric] subst_goes [symmetric]
  proof (rule fold_relink [OF distinct_group_by], clarify)
    fix ks' l assume l: "l \<in> set (rows (limits s))" and ks': "(l_id l, ks') \<in> set (group_by lk_limit_id id ks)"
    then have eq: "ks' = filter (\<lambda>k. lk_limit_id k = l_id l) ks" and "ks' \<noteq> []"
      by (auto simp: group_by_def filter_empty_conv)
    with ks_of [OF l] show "map lk_category_id ks' = sort (l_categories l)" by (auto split: if_splits)
  qed
  also have "\<dots> = map (\<lambda>l. if l_space_id l = sp
      then l\<lparr>l_categories := followed (goes now sp s) (l_categories l)\<rparr> else l) (rows (limits s))"
  proof (rule map_cong [OF refl])
    fix l assume l: "l \<in> set (rows (limits s))"
    show "(if l_id l \<in> lk_limit_id ` set ks then l\<lparr>l_categories := followed (goes now sp s) (l_categories l)\<rparr> else l) =
      (if l_space_id l = sp then l\<lparr>l_categories := followed (goes now sp s) (l_categories l)\<rparr> else l)"
      using ks_of [OF l] by (auto simp: member followed_total)
  qed
  finally show ?thesis .
qed

lemma replaced_transactions:
  assumes "table_ok cat_id (categories s)"
  shows "fold move_transactions (space_replacements now sp s) (transactions s) = map (moved (goes now sp s)) (transactions s)"
proof -
  have d: "distinct (map fst (space_replacements now sp s))"
    unfolding space_replacements_def
    by (rule distinct_replacements [OF distinct_ordinary]) (use assms in \<open>simp add: table_ok_def\<close>)
  have "n \<notin> fst ` set (space_replacements now sp s)" if "(i, n) \<in> set (space_replacements now sp s)" for i n
    using map_of_is_SomeI [OF d that] goes_goes [OF assms, of now sp i]
    by (auto simp: map_of_space_replacements [OF assms] fst_space_replacements [OF assms] split: if_splits)
  moreover have "(\<lambda>i. case map_of (space_replacements now sp s) i of None \<Rightarrow> i | Some n \<Rightarrow> n) = goes now sp s"
    by (auto simp: map_of_space_replacements [OF assms] split: option.split)
  ultimately show ?thesis using fold_move [OF d, of "transactions s"] by auto
qed

text \<open>No category that goes is in a limit of another space.\<close>

lemma foreign_limit:
  assumes ok: "catalog_ok s" and l: "l \<in> set (rows (limits s))" "i \<in> set (l_categories l)" and sp: "l_space_id l \<noteq> sp"
  shows "goes now sp s i = i"
proof (rule ccontr)
  assume "goes now sp s i \<noteq> i"
  then obtain c where c: "c \<in> set (ordinary sp s)" "cat_id c = i" using goes_other by blast
  then have "lookup_category s i = Some c"
    using find_row_key [OF catalog_distinct(2) [OF ok], of c] by (auto simp: lookup_category_def find_category_def)
  moreover obtain cat where "lookup_category s i = Some cat" "cat_space_id cat = l_space_id l"
    using ok l unfolding catalog_ok_def limits_ok_def limit_ok_def by blast
  ultimately show False using c(1) sp by simp
qed

lemma replaceInSpace_eq:
  assumes ok: "catalog_ok s" and links: "links_ok sp ks s"
  shows "replaceInSpace now sp (ordinary sp s) ks s = Inr (replaced now sp s)"
proof -
  have table: "table_ok cat_id (categories s)" using ok by (simp add: catalog_ok_def)
  let ?rep = "space_replacements now sp s" and ?t = "pl_table (placed now sp s)"
  let ?s1 = "s\<lparr>categories := ?t, transactions := map (moved (goes now sp s)) (transactions s),
      limits := (limits s)\<lparr>rows := map (\<lambda>l. if l_space_id l = sp
        then l\<lparr>l_categories := followed (goes now sp s) (l_categories l)\<rparr> else l) (rows (limits s))\<rparr>\<rparr>"
  have "replaceInSpace now sp (ordinary sp s) ks s = (if ?rep = [] then Inr ?s1 else delete_categories (map fst ?rep) ?s1)"
    unfolding replaceInSpace_def Let_def placed_def [symmetric] space_replacements_def [symmetric]
    by (simp only: replaced_limits [OF table links, of now] replaced_transactions [OF table, of now sp])
  moreover have "replaced now sp s = ?s1" if "?rep = []"
  proof -
    have "goes now sp s i = i" for i using fst_space_replacements [OF table, of now sp] that by auto
    then show ?thesis by (simp add: replaced_def delete_rows_def)
  qed
  moreover have "delete_categories (map fst ?rep) ?s1 = Inr (replaced now sp s)"
  proof -
    have "goes now sp s (t_category_id t) = t_category_id t" if "t \<in> set (transactions ?s1)" for t
      using that goes_goes [OF table, of now sp] by (auto simp: moved_def)
    moreover have "goes now sp s i = i" if "l \<in> set (rows (limits ?s1))" "i \<in> set (l_categories l)" for l i
      using that goes_goes [OF table, of now sp] foreign_limit [OF ok, of _ i sp now] by (auto split: if_splits)
    ultimately have "\<not> ((\<exists>t \<in> set (transactions ?s1). t_category_id t \<in> set (map fst ?rep)) \<or>
        (\<exists>l \<in> set (rows (limits ?s1)). \<exists>i \<in> set (l_categories l). i \<in> set (map fst ?rep)))"
      by (simp only: set_map fst_space_replacements [OF table]) blast
    then have "delete_categories (map fst ?rep) ?s1 = Inr (?s1\<lparr>categories := ?t\<lparr>rows :=
        delete_rows (\<lambda>c. cat_id c \<in> set (map fst ?rep)) (rows ?t)\<rparr>\<rparr>)"
      unfolding delete_categories_def by (simp only: if_False) simp
    then show ?thesis
      by (simp only: set_map fst_space_replacements [OF table]) (simp add: replaced_def)
  qed
  ultimately show ?thesis by simp
qed

end
