(* ===== verification/ReplacementEffect.thy ===== *)
theory ReplacementEffect
  imports ReplacementFacts ProgramHistory
begin

text \<open>
  What the replacement comes to: the ordinary categories of a space become exactly the catalog, every
  transaction and limit follows its categories, other spaces and system categories keep their rows,
  and, when no limits would merge, the integrity of the catalog and of the history is kept.
\<close>

section \<open>The rows of a space\<close>

text \<open>Neither system categories nor those of other spaces change.\<close>

lemma adopted_other:
  assumes "table_ok cat_id (categories s)" and "c \<in> set (rows (categories s))" and "c \<notin> set (ordinary sp s)"
  shows "adopted now (ordinary sp s) catalog_order c = c" and "goes now sp s (cat_id c) = cat_id c"
proof -
  have other: "cat_id c' \<noteq> cat_id c" if "c' \<in> set (ordinary sp s)" for c'
    using distinct_key_eq [of cat_id "rows (categories s)" c' c] that assms by (auto simp: table_ok_def)
  show "goes now sp s (cat_id c) = cat_id c"
    using goes_other [of now sp s "cat_id c"] other by blast
  have "kept (ordinary sp s) catalog_order (cat_id c) = None"
  proof (rule kept_None, rule notI)
    fix e n assume "map_option cat_id (keeper (ordinary sp s) e) = Some (cat_id c)"
    then obtain c' where "keeper (ordinary sp s) e = Some c'" "cat_id c' = cat_id c" by auto
    then show False using other keeper_Some(1) by blast
  qed
  then show "adopted now (ordinary sp s) catalog_order c = c" by (simp add: adopted_def)
qed

lemma replaced_categories [simp]:
  "rows (categories (replaced now sp s)) =
    delete_rows (\<lambda>c. goes now sp s (cat_id c) \<noteq> cat_id c) (rows (pl_table (placed now sp s)))"
  "transactions (replaced now sp s) = map (moved (goes now sp s)) (transactions s)"
  "rows (limits (replaced now sp s)) = map (\<lambda>l. if l_space_id l = sp
     then l\<lparr>l_categories := followed (goes now sp s) (l_categories l)\<rparr> else l) (rows (limits s))"
  by (simp_all add: replaced_def)

lemma added_stay:
  assumes "table_ok cat_id (categories s)" and "r \<in> set (added now sp ns (next_id (categories s)))"
  shows "goes now sp s (cat_id r) = cat_id r"
proof -
  have "next_id (categories s) \<le> cat_id r" using assms(2) by (auto simp: set_added)
  moreover have "cat_id c < next_id (categories s)" if "c \<in> set (ordinary sp s)" for c
    using assms(1) that by (simp add: table_ok_def)
  ultimately have "\<forall>c \<in> set (ordinary sp s). cat_id c \<noteq> cat_id r" by fastforce
  then show ?thesis using goes_other by blast
qed

lemma other_rows_kept:
  assumes ok: "table_ok cat_id (categories s)" and p: "\<And>c. p c \<Longrightarrow> cat_space_id c \<noteq> sp \<or> cat_is_system c"
    and adopt: "\<And>c. p (adopted now (ordinary sp s) catalog_order c) = p c"
  shows "filter p (rows (categories (replaced now sp s))) = filter p (rows (categories s))"
proof -
  let ?g = "\<lambda>c. \<not> goes now sp s (cat_id c) \<noteq> cat_id c" and ?a = "adopted now (ordinary sp s) catalog_order"
  let ?new = "added now sp (unkept (ordinary sp s) catalog_order) (next_id (categories s))"
  have "filter p (filter ?g ?new) = []"
    by (auto simp: filter_empty_conv set_added dest!: p)
  moreover have "filter p (filter ?g (map ?a (rows (categories s)))) = filter p (rows (categories s))"
  proof -
    have "filter p (filter ?g (map ?a (rows (categories s)))) = map ?a (filter (\<lambda>c. ?g c \<and> p c) (rows (categories s)))"
      by (simp add: filter_map comp_def adopt conj_commute)
    also have "filter (\<lambda>c. ?g c \<and> p c) (rows (categories s)) = filter p (rows (categories s))"
      using p adopted_other(2) [OF ok, of _ sp now] by (intro filter_cong refl) auto
    also have "map ?a (filter p (rows (categories s))) = filter p (rows (categories s))"
      using p adopted_other(1) [OF ok, of _ sp now] by (intro map_idI) auto
    finally show ?thesis .
  qed
  ultimately show ?thesis by (simp add: placed_rows(1) [OF ok] delete_rows_def)
qed

lemma other_space_kept:
  assumes "table_ok cat_id (categories s)" and "sp' \<noteq> sp"
  shows "filter (\<lambda>c. cat_space_id c = sp') (rows (categories (replaced now sp s))) =
    filter (\<lambda>c. cat_space_id c = sp') (rows (categories s))"
  using assms by (intro other_rows_kept) auto

lemma system_kept:
  assumes "table_ok cat_id (categories s)"
  shows "filter cat_is_system (rows (categories (replaced now sp s))) = filter cat_is_system (rows (categories s))"
  using assms by (intro other_rows_kept) auto

lemma table_ok_replaced:
  assumes "table_ok cat_id (categories s)"
  shows "table_ok cat_id (categories (replaced now sp s))"
  using table_ok_delete [OF placed_table_ok [OF assms]] by (simp add: replaced_def)

text \<open>The ordinary categories are the rows of the entries.\<close>

lemma added_unique:
  assumes "distinct (map (entry_key \<circ> fst) ns)"
    and "catalog_row now sp e n i \<in> set (added now sp ns k)" and "catalog_row now sp e n' j \<in> set (added now sp ns k)"
  shows "i = j"
proof -
  from assms(2) obtain a where a: "a < length ns"
    "catalog_row now sp e n i = catalog_row now sp (fst (ns ! a)) (snd (ns ! a)) (k + a)" unfolding set_added by blast
  from assms(3) obtain b where b: "b < length ns"
    "catalog_row now sp e n' j = catalog_row now sp (fst (ns ! b)) (snd (ns ! b)) (k + b)" unfolding set_added by blast
  have "entry_key (fst (ns ! a)) = entry_key (fst (ns ! b))"
    using arg_cong [OF a(2), of "\<lambda>r. (cat_transaction_type r, cat_name r)"]
      arg_cong [OF b(2), of "\<lambda>r. (cat_transaction_type r, cat_name r)"] by (simp add: entry_key_def)
  then have "a = b"
    using nth_eq_iff_index_eq [OF assms(1), of a b] a(1) b(1) by simp
  then show ?thesis using arg_cong [OF a(2), of cat_id] arg_cong [OF b(2), of cat_id] by simp
qed

lemma new_target:
  assumes "(e, n) \<in> set catalog_order" and "keeper (ordinary sp s) e = None"
  shows "catalog_row now sp e n (catalog_target now sp s (entry_key e)) \<in>
    set (added now sp (unkept (ordinary sp s) catalog_order) (next_id (categories s)))"
proof -
  have tg: "pl_targets (placed now sp s) = fst (fold (place_at now sp (ordinary sp s)) catalog_order (Map.empty, categories s))"
    by (metis place_catalog_eq placed_def fst_conv)
  from place_targets [OF catalog_order_keys assms(1), of now sp "ordinary sp s" Map.empty "categories s"] assms(2)
  show ?thesis by (auto simp: catalog_target_def tg)
qed

lemma ordinary_replaced:
  assumes ok: "table_ok cat_id (categories s)"
  shows "r \<in> set (ordinary sp (replaced now sp s)) \<longleftrightarrow> r \<in> set (rows (pl_table (placed now sp s))) \<and>
    (\<exists>(e, n) \<in> set catalog_order. is_entry sp (e, n) r \<and> cat_id r = catalog_target now sp s (entry_key e))"
    (is "?in \<longleftrightarrow> ?row")
proof
  let ?cats = "ordinary sp s"
  assume ?in
  then have r: "r \<in> set (rows (pl_table (placed now sp s)))" "cat_space_id r = sp" "\<not> cat_is_system r"
    and stays: "goes now sp s (cat_id r) = cat_id r" by auto
  from r(1) consider (old) c where "c \<in> set (rows (categories s))" "r = adopted now ?cats catalog_order c"
    | (new) "r \<in> set (added now sp (unkept ?cats catalog_order) (next_id (categories s)))"
    by (auto simp: placed_rows(1) [OF ok])
  then show ?row
  proof cases
    case old
    then have c: "c \<in> set ?cats" "cat_id c = cat_id r" using r by auto
    show ?thesis
    proof (rule goes_row [OF ok c(1), of now])
      fix e n r' assume e: "(e, n) \<in> set catalog_order" and r': "r' \<in> set (rows (pl_table (placed now sp s)))"
        "is_entry sp (e, n) r'" "target_key c = entry_key e" "cat_id r' = goes now sp s (cat_id c)"
      have "r' = r"
        using distinct_key_eq [of cat_id, OF _ r'(1) r(1)] placed_table_ok [OF ok, of now sp] r'(4) stays c(2)
        by (simp add: table_ok_def)
      with r' e show ?thesis using r(1) goes_target [OF ok c(1), of now] by auto
    qed
  next
    case new
    then obtain a where a: "a < length (unkept ?cats catalog_order)"
      "r = catalog_row now sp (fst (unkept ?cats catalog_order ! a)) (snd (unkept ?cats catalog_order ! a))
         (next_id (categories s) + a)" unfolding set_added by blast
    obtain e n where en: "unkept ?cats catalog_order ! a = (e, n)" by (cases "unkept ?cats catalog_order ! a")
    have "(e, n) \<in> set (unkept ?cats catalog_order)" using a(1) en by (metis nth_mem)
    then have e: "(e, n) \<in> set catalog_order" "keeper ?cats e = None" by (auto simp: unkept_def)
    have keys: "distinct (map (entry_key \<circ> fst) (unkept ?cats catalog_order))"
      unfolding unkept_def by (rule distinct_map_filter [OF catalog_order_keys])
    have "catalog_row now sp e n (cat_id r) = r" by (simp add: a(2) en)
    then have "cat_id r = catalog_target now sp s (entry_key e)"
      using added_unique [OF keys, of now sp e n "cat_id r" "next_id (categories s)" n] new new_target [OF e, of now]
      by simp
    moreover have "is_entry sp (e, n) r" by (simp add: a(2) en is_entry_def)
    ultimately show ?thesis using e(1) r(1) by blast
  qed
next
  assume ?row
  then obtain e n where e: "(e, n) \<in> set catalog_order" "is_entry sp (e, n) r"
    "cat_id r = catalog_target now sp s (entry_key e)" and r: "r \<in> set (rows (pl_table (placed now sp s)))" by blast
  obtain r' :: category where r': "cat_id r' = catalog_target now sp s (entry_key e)"
    and same: "\<And>c. c \<in> set (ordinary sp s) \<Longrightarrow> cat_id c = cat_id r' \<Longrightarrow> target_key c = entry_key e"
    using target_row [OF ok e(1), where now = now and sp = sp] by blast
  have "goes now sp s (cat_id r) = cat_id r"
  proof (rule ccontr)
    assume "goes now sp s (cat_id r) \<noteq> cat_id r"
    then obtain c where c: "c \<in> set (ordinary sp s)" "cat_id c = cat_id r"
      and moves: "goes now sp s (cat_id r) \<noteq> cat_id r" using goes_other by blast
    with goes_target [OF ok c(1), of now] same [OF c(1)] r' e(3) show False by simp
  qed
  with r e(2) show ?in by (simp add: is_entry_def)
qed

text \<open>Every entry has one, and the listing of the space is the catalog in order.\<close>

lemma is_entry_number: "is_entry sp en r \<Longrightarrow> cat_sort r = snd en"
  by (cases en) (simp add: is_entry_def)

lemma distinct_numbers: "distinct (map snd catalog_order)"
  using sorted_catalog_order strict_sorted_iff by blast

lemma listed_replaced:
  assumes ok: "table_ok cat_id (categories s)"
  shows "list_all2 (is_entry sp) catalog_order (listed sp (replaced now sp s))"
proof -
  let ?s' = "replaced now sp s"
  let ?ls = "listed sp ?s'"
  have mem: "r \<in> set ?ls \<longleftrightarrow> r \<in> set (ordinary sp ?s')" for r
    by (auto simp: listed_def)
  have entry: "\<exists>en \<in> set catalog_order. is_entry sp en r" if "r \<in> set ?ls" for r
    using that ordinary_replaced [OF ok, of r sp now] by (auto simp: mem)
  have row: "\<exists>r \<in> set ?ls. is_entry sp (e, n) r \<and> cat_id r = catalog_target now sp s (entry_key e)"
    if "(e, n) \<in> set catalog_order" for e n
  proof -
    obtain r where r: "r \<in> set (rows (pl_table (placed now sp s)))" "is_entry sp (e, n) r"
      "cat_id r = catalog_target now sp s (entry_key e)"
      using target_row [OF ok \<open>(e, n) \<in> set catalog_order\<close>, where now = now and sp = sp] by blast
    then have "r \<in> set ?ls"
      unfolding mem ordinary_replaced [OF ok] using \<open>(e, n) \<in> set catalog_order\<close> by blast
    with r show ?thesis by blast
  qed
  have numbers: "sorted (map cat_sort ?ls)"
  proof -
    have "sorted (map (\<lambda>c. (cat_sort c, cat_id c)) ?ls)" by (simp add: listed_def)
    then show ?thesis unfolding sorted_map by (rule sorted_wrt_mono_rel [rotated]) (auto simp: less_eq_prod_def)
  qed
  have inj: "inj_on cat_sort (set ?ls)"
  proof (rule inj_onI)
    fix r r' assume r: "r \<in> set ?ls" "r' \<in> set ?ls" "cat_sort r = cat_sort r'"
    from r(1) obtain e n where e: "(e, n) \<in> set catalog_order" "is_entry sp (e, n) r"
      "cat_id r = catalog_target now sp s (entry_key e)" using ordinary_replaced [OF ok, of r sp now] by (auto simp: mem)
    from r(2) obtain e' n' where e': "(e', n') \<in> set catalog_order" "is_entry sp (e', n') r'"
      "cat_id r' = catalog_target now sp s (entry_key e')" using ordinary_replaced [OF ok, of r' sp now] by (auto simp: mem)
    have "(e, n) = (e', n')"
      using distinct_key_eq [OF distinct_numbers e(1) e'(1)] is_entry_number [OF e(2)] is_entry_number [OF e'(2)] r(3)
      by simp
    then have "cat_id r = cat_id r'" using e e' by simp
    then show "r = r'"
      using distinct_key_eq [of cat_id "rows (categories ?s')" r r'] table_ok_replaced [OF ok, of now sp] r(1,2)
      by (simp add: mem table_ok_def)
  qed
  have "distinct (map cat_id ?ls)"
    using table_ok_replaced [OF ok, of now sp] unfolding listed_def distinct_map table_ok_def
    by (auto simp: inj_on_def)
  then have distinct: "distinct (map cat_sort ?ls)" using inj by (auto simp: distinct_map)
  have "set (map cat_sort ?ls) = set (map snd catalog_order)"
  proof (intro set_eqI iffI)
    fix n assume "n \<in> set (map cat_sort ?ls)"
    then obtain r where r: "r \<in> set ?ls" "n = cat_sort r" by auto
    with entry obtain en where "en \<in> set catalog_order" "is_entry sp en r" by blast
    with r(2) show "n \<in> set (map snd catalog_order)" using is_entry_number by (metis image_eqI list.set_map)
  next
    fix n assume "n \<in> set (map snd catalog_order)"
    then obtain e where "(e, n) \<in> set catalog_order" by auto
    with row obtain r where "r \<in> set ?ls" "is_entry sp (e, n) r" by blast
    then show "n \<in> set (map cat_sort ?ls)" using is_entry_number by (metis image_eqI list.set_map snd_conv)
  qed
  then have sorts: "map cat_sort ?ls = map snd catalog_order"
    using sorted_distinct_set_unique [OF numbers distinct _ distinct_numbers] sorted_catalog_order strict_sorted_iff
    by blast
  show ?thesis
  proof (rule list_all2_all_nthI)
    show "length catalog_order = length ?ls" using arg_cong [OF sorts, of length] by simp
    fix j assume j: "j < length catalog_order"
    then have lj: "j < length ?ls" using arg_cong [OF sorts, of length] by simp
    obtain en where en: "en \<in> set catalog_order" "is_entry sp en (?ls ! j)" using entry nth_mem [OF lj] by blast
    have "snd en = snd (catalog_order ! j)"
      using is_entry_number [OF en(2)] sorts j lj by (metis nth_map)
    then have "en = catalog_order ! j"
      by (rule distinct_key_eq [OF distinct_numbers en(1) nth_mem [OF j]])
    with en(2) show "is_entry sp (catalog_order ! j) (?ls ! j)" by simp
  qed
qed

section \<open>Lookups\<close>

lemma find_category_row:
  assumes "table_ok cat_id (categories s)"
  shows "find_category i s = Some c \<longleftrightarrow> c \<in> set (rows (categories s)) \<and> cat_id c = i"
  using find_row_key [of cat_id "rows (categories s)" c] find_category_in [of i s c] assms
  by (auto simp: find_category_def table_ok_def)

lemma find_category_replaced_other:
  assumes ok: "table_ok cat_id (categories s)" and "find_category i s = Some c" and "cat_space_id c \<noteq> sp \<or> cat_is_system c"
  shows "find_category i (replaced now sp s) = Some c"
proof -
  have c: "c \<in> set (rows (categories s))" "cat_id c = i" using assms(2) find_category_row [OF ok] by auto
  have kept: "set (filter p (rows (categories (replaced now sp s)))) = set (filter p (rows (categories s)))"
    if "p = cat_is_system \<or> (\<exists>sp'. sp' \<noteq> sp \<and> p = (\<lambda>c. cat_space_id c = sp'))" for p
    using that system_kept [OF ok, of now sp] other_space_kept [OF ok, of _ sp now] by metis
  have "\<exists>p. (p = cat_is_system \<or> (\<exists>sp'. sp' \<noteq> sp \<and> p = (\<lambda>c. cat_space_id c = sp'))) \<and> p c"
    using assms(3) by auto
  then obtain p where p: "p = cat_is_system \<or> (\<exists>sp'. sp' \<noteq> sp \<and> p = (\<lambda>c. cat_space_id c = sp'))" "p c" by blast
  from p(2) c(1) have "c \<in> set (filter p (rows (categories s)))" by simp
  then have "c \<in> set (filter p (rows (categories (replaced now sp s))))" by (simp only: kept [OF p(1)])
  then have "c \<in> set (rows (categories (replaced now sp s)))" by (simp only: set_filter mem_Collect_eq)
  with c(2) show ?thesis using find_category_row [OF table_ok_replaced [OF ok]] by blast
qed

lemma find_category_goes:
  assumes ok: "table_ok cat_id (categories s)" and c: "c \<in> set (ordinary sp s)"
  obtains r where "find_category (goes now sp s (cat_id c)) (replaced now sp s) = Some r"
    and "r \<in> set (ordinary sp (replaced now sp s))" and "cat_is_active r"
    and "(cat_transaction_type r, cat_name r) = target_key c"
proof -
  obtain e n r where r: "r \<in> set (rows (pl_table (placed now sp s)))" "is_entry sp (e, n) r"
    "target_key c = entry_key e" "cat_id r = goes now sp s (cat_id c)" "goes now sp s (cat_id r) = cat_id r"
    using goes_row [OF ok c, of now] by metis
  then have "r \<in> set (rows (categories (replaced now sp s)))" by simp
  moreover from this have "find_category (goes now sp s (cat_id c)) (replaced now sp s) = Some r"
    using find_category_row [OF table_ok_replaced [OF ok]] r(4) by simp
  ultimately show thesis
    using that [of r] r(2,3) by (simp add: is_entry_def entry_key_def)
qed

lemma goes_same_key:
  assumes ok: "table_ok cat_id (categories s)" and c: "c \<in> set (ordinary sp s)" "c' \<in> set (ordinary sp s)"
    and "goes now sp s (cat_id c) = goes now sp s (cat_id c')"
  shows "target_key c = target_key c'"
proof -
  obtain r where "find_category (goes now sp s (cat_id c)) (replaced now sp s) = Some r"
    "(cat_transaction_type r, cat_name r) = target_key c" by (rule find_category_goes [OF ok c(1)])
  moreover obtain r' where "find_category (goes now sp s (cat_id c')) (replaced now sp s) = Some r'"
    "(cat_transaction_type r', cat_name r') = target_key c'" by (rule find_category_goes [OF ok c(2)])
  ultimately show ?thesis using assms(4) by simp
qed

section \<open>Limits that would merge\<close>

definition key_of :: "db \<Rightarrow> nat \<Rightarrow> (TransactionType \<times> string) option" where
  "key_of s i = map_option target_key (find_category i s)"

text \<open>No two limits of the space map to one category, and no group maps to a single one.\<close>

definition unmerged :: "nat \<Rightarrow> db \<Rightarrow> bool" where
  "unmerged sp s \<longleftrightarrow>
     (\<forall>l \<in> set (rows (limits s)). \<forall>l' \<in> set (rows (limits s)). l_space_id l = sp \<longrightarrow> l_space_id l' = sp \<longrightarrow>
        l_id l \<noteq> l_id l' \<longrightarrow> key_of s ` set (l_categories l) \<inter> key_of s ` set (l_categories l') = {}) \<and>
     (\<forall>l \<in> set (rows (limits s)). l_space_id l = sp \<longrightarrow> 1 < length (l_categories l) \<longrightarrow>
        (\<exists>i \<in> set (l_categories l). \<exists>j \<in> set (l_categories l). key_of s i \<noteq> key_of s j))"

lemma limit_category:
  assumes "catalog_ok s" and "l \<in> set (rows (limits s))" and "i \<in> set (l_categories l)"
  obtains c where "find_category i s = Some c" and "c \<in> set (ordinary (l_space_id l) s)" and "cat_id c = i"
    and "cat_is_active c"
proof -
  from assms obtain c where "lookup_category s i = Some c" "cat_space_id c = l_space_id l" "cat_is_active c" "\<not> cat_is_system c"
    unfolding catalog_ok_def limits_ok_def limit_ok_def by blast
  then show thesis using that [of c] find_category_in [of i s c] by (simp add: lookup_category_def)
qed

lemma limit_ok_replaced:
  assumes ok: "catalog_ok s" and l: "l \<in> set (rows (limits s))"
  shows "limit_ok (lookup_category (replaced now sp s))
    (if l_space_id l = sp then l\<lparr>l_categories := followed (goes now sp s) (l_categories l)\<rparr> else l)"
proof -
  have table: "table_ok cat_id (categories s)" using ok by (simp add: catalog_ok_def)
  have l_ok: "limit_ok (lookup_category s) l" using ok l by (simp add: catalog_ok_def limits_ok_def)
  show ?thesis
  proof (cases "l_space_id l = sp")
    case True
    let ?cs = "followed (goes now sp s) (l_categories l)"
    have d: "distinct (l_categories l)" using l_ok by (simp add: limit_ok_def)
    have "length ?cs = card (goes now sp s ` set (l_categories l))"
      using distinct_card [OF distinct_followed [OF d], of "goes now sp s"] by simp
    also have "\<dots> \<le> length (l_categories l)"
      using card_image_le [of "set (l_categories l)" "goes now sp s"] card_length [of "l_categories l"] by simp
    finally have shorter: "length ?cs \<le> length (l_categories l)" .
    have empty: "?cs = [] \<longleftrightarrow> l_categories l = []"
      by (metis set_followed image_is_empty set_empty)
    have each: "\<exists>cat. lookup_category (replaced now sp s) i = Some cat \<and> cat_space_id cat = sp \<and> cat_is_active cat \<and>
        \<not> cat_is_system cat" if "i \<in> set ?cs" for i
    proof -
      from that obtain j where j: "j \<in> set (l_categories l)" "i = goes now sp s j" by auto
      obtain c where c: "c \<in> set (ordinary sp s)" "cat_id c = j"
        using limit_category [OF ok l j(1)] True by metis
      obtain r where "find_category (goes now sp s (cat_id c)) (replaced now sp s) = Some r"
        "r \<in> set (ordinary sp (replaced now sp s))" "cat_is_active r" by (rule find_category_goes [OF table c(1)])
      then show ?thesis using j(2) c(2) by (simp add: lookup_category_def)
    qed
    show ?thesis
      using l_ok shorter empty each distinct_followed [OF d] True by (auto simp: limit_ok_def)
  next
    case False
    have "\<exists>cat. lookup_category (replaced now sp s) i = Some cat \<and> cat_space_id cat = l_space_id l \<and> cat_is_active cat \<and>
        \<not> cat_is_system cat" if i: "i \<in> set (l_categories l)" for i
    proof -
      obtain c where c: "find_category i s = Some c" "c \<in> set (ordinary (l_space_id l) s)" "cat_is_active c"
        using limit_category [OF ok l i] by metis
      then have "find_category i (replaced now sp s) = Some c"
        using False by (intro find_category_replaced_other [OF table]) auto
      with c show ?thesis by (simp add: lookup_category_def)
    qed
    then show ?thesis using l_ok False by (simp add: limit_ok_def)
  qed
qed

lemma limits_ok_replaced:
  assumes ok: "catalog_ok s" and apart: "unmerged sp s"
  shows "limits_ok (lookup_category (replaced now sp s)) (rows (limits (replaced now sp s)))"
proof -
  let ?f = "\<lambda>l. if l_space_id l = sp then l\<lparr>l_categories := followed (goes now sp s) (l_categories l)\<rparr> else l"
  have table: "table_ok cat_id (categories s)" using ok by (simp add: catalog_ok_def)
  have f: "l_id (?f l) = l_id l" "l_space_id (?f l) = l_space_id l" "l_limit_type (?f l) = l_limit_type l" for l by auto
  have compatible': "compatible (?f l) (?f l')"
    if l: "l \<in> set (rows (limits s))" "l' \<in> set (rows (limits s))" "l_id l \<noteq> l_id l'" for l l'
  proof -
    have before: "compatible l l'" using ok l unfolding catalog_ok_def limits_ok_def by blast
    have "set (l_categories (?f l)) \<inter> set (l_categories (?f l')) = {}"
    proof (rule ccontr)
      assume "set (l_categories (?f l)) \<inter> set (l_categories (?f l')) \<noteq> {}"
      then obtain i where i: "i \<in> set (l_categories (?f l))" "i \<in> set (l_categories (?f l'))" by blast
      have "l_space_id l = l_space_id l'"
        using limit_ok_replaced [OF ok l(1), of now sp] limit_ok_replaced [OF ok l(2), of now sp] i f(2)
        unfolding limit_ok_def by (metis option.inject)
      show False
      proof (cases "l_space_id l = sp")
        case True
        with i \<open>l_space_id l = l_space_id l'\<close> obtain j j' where j: "j \<in> set (l_categories l)" "i = goes now sp s j"
          and j': "j' \<in> set (l_categories l')" "i = goes now sp s j'" by auto
        obtain c where c: "find_category j s = Some c" "c \<in> set (ordinary sp s)" "cat_id c = j"
          using limit_category [OF ok l(1) j(1)] True by metis
        obtain c' where c': "find_category j' s = Some c'" "c' \<in> set (ordinary sp s)" "cat_id c' = j'"
          using limit_category [OF ok l(2) j'(1)] True \<open>l_space_id l = l_space_id l'\<close> by metis
        have "goes now sp s (cat_id c) = goes now sp s (cat_id c')" using j(2) j'(2) c(3) c'(3) by simp
        from goes_same_key [OF table c(2) c'(2) this] have "key_of s j = key_of s j'" using c(1) c'(1) by (simp add: key_of_def)
        then have "key_of s ` set (l_categories l) \<inter> key_of s ` set (l_categories l') \<noteq> {}"
          using j(1) j'(1) by (metis IntI empty_iff image_eqI)
        with apart l True \<open>l_space_id l = l_space_id l'\<close> show False unfolding unmerged_def by metis
      next
        case False
        with i \<open>l_space_id l = l_space_id l'\<close> before show False by (auto simp: compatible_def)
      qed
    qed
    with before show ?thesis using f(2,3) [of l] f(2,3) [of l'] unfolding compatible_def by metis
  qed
  show ?thesis
    unfolding limits_ok_def replaced_categories(3) set_map
  proof (intro conjI ballI impI)
    fix x assume "x \<in> ?f ` set (rows (limits s))"
    then show "limit_ok (lookup_category (replaced now sp s)) x" using limit_ok_replaced [OF ok, of _ now sp] by blast
  next
    fix x y assume "x \<in> ?f ` set (rows (limits s))" "y \<in> ?f ` set (rows (limits s))" "l_id x \<noteq> l_id y"
    then obtain l l' where "l \<in> set (rows (limits s))" "x = ?f l" "l' \<in> set (rows (limits s))" "y = ?f l'" by blast
    with \<open>l_id x \<noteq> l_id y\<close> f(1) [of l] f(1) [of l'] compatible' [of l l'] show "compatible x y" by simp
  qed
qed

lemma catalog_ok_replaced:
  assumes ok: "catalog_ok s" and apart: "unmerged sp s"
  shows "catalog_ok (replaced now sp s)"
proof -
  have table: "table_ok cat_id (categories s)" using ok by (simp add: catalog_ok_def)
  have active: "cat_is_active c \<longleftrightarrow> cat_archived_at c = None" if "c \<in> set (rows (categories (replaced now sp s)))" for c
  proof -
    from that consider (old) c0 where "c0 \<in> set (rows (categories s))" "c = adopted now (ordinary sp s) catalog_order c0"
      | (new) "c \<in> set (added now sp (unkept (ordinary sp s) catalog_order) (next_id (categories s)))"
      by (auto simp: placed_rows(1) [OF table])
    then show ?thesis
    proof cases
      case old
      then show ?thesis using ok by (auto simp: catalog_ok_def adopted_def split: option.split)
    qed (auto simp: set_added)
  qed
  have "table_ok l_id (limits (replaced now sp s))"
    using ok by (auto simp: catalog_ok_def table_ok_def replaced_def comp_def if_distrib cong: if_cong)
  then show ?thesis
    using ok active table_ok_replaced [OF table] limits_ok_replaced [OF ok apart]
    by (simp add: catalog_ok_def replaced_def)
qed

section \<open>The history\<close>

lemma moved_simps [simp]:
  "t_id (moved f t) = t_id t" "t_wallet_id (moved f t) = t_wallet_id t" "t_amount (moved f t) = t_amount t"
  "t_transaction_type (moved f t) = t_transaction_type t" "t_timestamp (moved f t) = t_timestamp t"
  "t_description (moved f t) = t_description t" "t_category_id (moved f t) = f (t_category_id t)"
  by (simp_all add: moved_def)

lemma find_moved: "find_row (\<lambda>t. t_id t = i) (map (moved f) ts) = map_option (moved f) (find_row (\<lambda>t. t_id t = i) ts)"
  by (rule find_row_map_key) simp

lemma replaced_frame [simp]:
  "wallets (replaced now sp s) = wallets s" "operations (replaced now sp s) = operations s"
  "users (replaced now sp s) = users s" "members (replaced now sp s) = members s"
  "spaces (replaced now sp s) = spaces s" "invites (replaced now sp s) = invites s"
  by (simp_all add: replaced_def)

lemma goes_in_space:
  assumes ok: "table_ok cat_id (categories s)" and c: "find_category i s = Some c"
  shows "\<exists>c'. find_category (goes now sp s i) (replaced now sp s) = Some c' \<and> cat_space_id c' = cat_space_id c"
proof (cases "c \<in> set (ordinary sp s)")
  case True
  moreover have "cat_id c = i" using find_category_in [OF c] by simp
  ultimately show ?thesis by (metis find_category_goes [OF ok True] set_ordinary)
next
  case False
  have row: "c \<in> set (rows (categories s))" "cat_id c = i" using find_category_in [OF c] by simp_all
  with False have "find_category i (replaced now sp s) = Some c"
    by (intro find_category_replaced_other [OF ok c]) auto
  with adopted_other(2) [OF ok row(1) False, of now] row(2) show ?thesis by simp
qed

lemma history_inv_replaced:
  assumes inv: "history_inv s" and ok: "catalog_ok s"
  shows "history_inv (replaced now sp s)"
proof -
  let ?s' = "replaced now sp s"
  have table: "table_ok cat_id (categories s)" using ok by (simp add: catalog_ok_def)
  have wallet: "find_wallet i ?s' = find_wallet i s" for i by (simp add: find_wallet_def)
  have trans: "transaction_ok ?s' (moved (goes now sp s) t)" if "t \<in> set (transactions s)" for t
  proof -
    from inv that obtain w c where "find_wallet (t_wallet_id t) s = Some w"
      "find_category (t_category_id t) s = Some c" "w_space_id w = cat_space_id c"
      and "0 \<le> t_amount t \<and> t_amount t \<le> MAX_MONEY_INPUT_CENTS"
      by (auto simp: history_inv_def transaction_ok_def)
    with goes_in_space [OF table, of "t_category_id t" c now sp] show ?thesis
      by (auto simp: transaction_ok_def wallet)
  qed
  have ops: "operation_ok ?s' o'" if "o' \<in> set (rows (operations s))" for o'
    using inv that by (auto simp: history_inv_def operation_ok_def find_transaction_def find_moved wallet
        split: option.splits)
  have "map t_id (map (moved (goes now sp s)) (transactions s)) = map t_id (transactions s)" by simp
  moreover have "distinct (map cat_id (rows (categories ?s')))"
    using table_ok_replaced [OF table, of now sp] unfolding table_ok_def by blast
  ultimately show ?thesis
    unfolding history_inv_def replaced_frame replaced_categories(2) set_map
    using inv trans ops by (simp add: history_inv_def comp_def del: replaced_categories)
qed

section \<open>Other spaces\<close>

lemma listed_cong:
  assumes "filter (\<lambda>c. cat_space_id c = sp) (rows (categories s')) = filter (\<lambda>c. cat_space_id c = sp) (rows (categories s))"
  shows "listed sp s' = listed sp s" and "ordinary sp s' = ordinary sp s"
proof -
  have "listed sp s = sort_key (\<lambda>c. (cat_sort c, cat_id c))
      (filter (\<lambda>c. \<not> cat_is_system c) (filter (\<lambda>c. cat_space_id c = sp) (rows (categories s))))"
    "ordinary sp s = sort_key cat_id
      (filter (\<lambda>c. \<not> cat_is_system c) (filter (\<lambda>c. cat_space_id c = sp) (rows (categories s))))" for s
    by (simp_all add: listed_def ordinary_def conj_commute)
  then show "listed sp s' = listed sp s" "ordinary sp s' = ordinary sp s" by (simp_all only: assms)
qed

lemma ordinary_other:
  "table_ok cat_id (categories s) \<Longrightarrow> sp' \<noteq> sp \<Longrightarrow> ordinary sp' (replaced now sp s) = ordinary sp' s"
  by (rule listed_cong(2) [OF other_space_kept])

lemma links_ok_other:
  assumes "links_ok sp' ks s" and "sp' \<noteq> sp"
  shows "links_ok sp' ks (replaced now sp s)"
  using assms by (auto simp: links_ok_def)

lemma unmerged_other:
  assumes ok: "catalog_ok s" and "unmerged sp' s" and other: "sp' \<noteq> sp"
  shows "unmerged sp' (replaced now sp s)"
proof -
  have table: "table_ok cat_id (categories s)" using ok by (simp add: catalog_ok_def)
  let ?f = "\<lambda>l. if l_space_id l = sp then l\<lparr>l_categories := followed (goes now sp s) (l_categories l)\<rparr> else l"
  have key: "key_of (replaced now sp s) i = key_of s i"
    if l: "l \<in> set (rows (limits s))" "l_space_id l = sp'" "i \<in> set (l_categories l)" for l i
  proof -
    obtain c where c: "find_category i s = Some c" "c \<in> set (ordinary (l_space_id l) s)"
      using limit_category [OF ok l(1,3)] by metis
    then have "find_category i (replaced now sp s) = Some c"
      using l(2) other by (intro find_category_replaced_other [OF table]) auto
    with c(1) show ?thesis by (simp add: key_of_def)
  qed
  have same: "l \<in> set (rows (limits (replaced now sp s))) \<and> l_space_id l = sp' \<longleftrightarrow>
      l \<in> set (rows (limits s)) \<and> l_space_id l = sp'" for l
    using other by (auto simp: image_iff intro: bexI [of _ l])
  have image: "key_of (replaced now sp s) ` set (l_categories l) = key_of s ` set (l_categories l)"
    if "l \<in> set (rows (limits s))" "l_space_id l = sp'" for l
    using key that by (intro image_cong) auto
  show ?thesis
    unfolding unmerged_def
  proof (intro conjI ballI impI)
    fix l l' assume l: "l \<in> set (rows (limits (replaced now sp s)))" "l' \<in> set (rows (limits (replaced now sp s)))"
      "l_space_id l = sp'" "l_space_id l' = sp'" "l_id l \<noteq> l_id l'"
    then have "l \<in> set (rows (limits s))" "l' \<in> set (rows (limits s))" using same by blast+
    with l(3-5) assms(2) image
    show "key_of (replaced now sp s) ` set (l_categories l) \<inter> key_of (replaced now sp s) ` set (l_categories l') = {}"
      unfolding unmerged_def by metis
  next
    fix l assume l: "l \<in> set (rows (limits (replaced now sp s)))" "l_space_id l = sp'" "1 < length (l_categories l)"
    then have row: "l \<in> set (rows (limits s))" using same by blast
    with l(2,3) assms(2) obtain i j where "i \<in> set (l_categories l)" "j \<in> set (l_categories l)" "key_of s i \<noteq> key_of s j"
      unfolding unmerged_def by metis
    with key [OF row l(2)] show "\<exists>i \<in> set (l_categories l). \<exists>j \<in> set (l_categories l).
        key_of (replaced now sp s) i \<noteq> key_of (replaced now sp s) j" by metis
  qed
qed

end
