(* ===== verification/ReplacementRuns.thy ===== *)
theory ReplacementRuns
  imports ReplacementEffect
begin

text \<open>
  The whole replacement, space by space: its effects on the spaces add up, it is refused exactly when
  some limits would merge, and a second run changes nothing.
\<close>

section \<open>The effect on a set of spaces\<close>

text \<open>
  Where a category goes: an ordinary category of one of the spaces to the one of its space with the
  type and name it maps to, any other nowhere.
\<close>

definition category_sent :: "nat set \<Rightarrow> db \<Rightarrow> db \<Rightarrow> nat \<Rightarrow> nat \<Rightarrow> bool" where
  "category_sent A s s' i i' \<longleftrightarrow> (case find_category i s of
     None \<Rightarrow> i' = i
   | Some c \<Rightarrow> if cat_space_id c \<in> A \<and> \<not> cat_is_system c
       then \<exists>c'. find_category i' s' = Some c' \<and> cat_space_id c' = cat_space_id c \<and> \<not> cat_is_system c' \<and>
         (cat_transaction_type c', cat_name c') = target_key c
       else i' = i \<and> find_category i s' = Some c)"

text \<open>A limit that follows its categories.\<close>

definition limit_followed :: "(nat \<Rightarrow> nat) \<Rightarrow> limit \<Rightarrow> limit \<Rightarrow> bool" where
  "limit_followed f l l' \<longleftrightarrow> l' = l\<lparr>l_categories := l_categories l'\<rparr> \<and> set (l_categories l') = f ` set (l_categories l)"

definition follows :: "nat set \<Rightarrow> (nat \<Rightarrow> nat) \<Rightarrow> db \<Rightarrow> db \<Rightarrow> bool" where
  "follows A f s s' \<longleftrightarrow> (\<forall>i. category_sent A s s' i (f i)) \<and> transactions s' = map (moved f) (transactions s) \<and>
     list_all2 (limit_followed f) (rows (limits s)) (rows (limits s'))"

definition same_elsewhere :: "nat set \<Rightarrow> db \<Rightarrow> db \<Rightarrow> bool" where
  "same_elsewhere A s s' \<longleftrightarrow>
     (\<forall>sp. sp \<notin> A \<longrightarrow> filter (\<lambda>c. cat_space_id c = sp) (rows (categories s')) = filter (\<lambda>c. cat_space_id c = sp) (rows (categories s))) \<and>
     filter cat_is_system (rows (categories s')) = filter cat_is_system (rows (categories s)) \<and>
     s' = s\<lparr>categories := categories s', transactions := transactions s', limits := limits s'\<rparr>"

definition catalog_replaced :: "nat set \<Rightarrow> db \<Rightarrow> db \<Rightarrow> bool" where
  "catalog_replaced A s s' \<longleftrightarrow> (\<exists>f. follows A f s s') \<and> same_elsewhere A s s' \<and>
     (\<forall>sp \<in> A. list_all2 (is_entry sp) catalog_order (listed sp s'))"

lemma follows_replaced:
  assumes ok: "catalog_ok s"
  shows "follows {sp} (goes now sp s) s (replaced now sp s)"
proof -
  have table: "table_ok cat_id (categories s)" using ok by (simp add: catalog_ok_def)
  have "category_sent {sp} s (replaced now sp s) i (goes now sp s i)" for i
  proof (cases "find_category i s")
    case None
    have "goes now sp s i = i"
    proof (rule ccontr)
      assume "goes now sp s i \<noteq> i"
      then obtain c where "c \<in> set (ordinary sp s)" "cat_id c = i" using goes_other by blast
      with None find_category_row [OF table, of i c] show False by simp
    qed
    with None show ?thesis by (simp add: category_sent_def)
  next
    case (Some c)
    have row: "c \<in> set (rows (categories s))" "cat_id c = i" using find_category_in [OF Some] by simp_all
    show ?thesis
    proof (cases "c \<in> set (ordinary sp s)")
      case True
      obtain r where "find_category (goes now sp s (cat_id c)) (replaced now sp s) = Some r"
        "r \<in> set (ordinary sp (replaced now sp s))" "(cat_transaction_type r, cat_name r) = target_key c"
        by (rule find_category_goes [OF table True])
      with True Some row(2) show ?thesis by (simp add: category_sent_def)
    next
      case False
      with row have other: "cat_space_id c \<noteq> sp \<or> cat_is_system c" by auto
      from find_category_replaced_other [OF table Some other, of now] adopted_other(2) [OF table row(1) False, of now]
      show ?thesis using Some other row(2) by (auto simp: category_sent_def)
    qed
  qed
  moreover have "list_all2 (limit_followed (goes now sp s)) (rows (limits s)) (rows (limits (replaced now sp s)))"
  proof -
    have "limit_followed (goes now sp s) l (if l_space_id l = sp
        then l\<lparr>l_categories := followed (goes now sp s) (l_categories l)\<rparr> else l)" if l: "l \<in> set (rows (limits s))" for l
    proof (cases "l_space_id l = sp")
      case False
      then have "goes now sp s ` set (l_categories l) = set (l_categories l)"
        using foreign_limit [OF ok l _ False, of _ now] by force
      with False show ?thesis by (simp add: limit_followed_def)
    qed (simp add: limit_followed_def)
    then show ?thesis by (simp add: list_all2_map2 list_all2_same)
  qed
  ultimately show ?thesis by (simp add: follows_def)
qed

lemma catalog_replaced_one:
  assumes ok: "catalog_ok s"
  shows "catalog_replaced {sp} s (replaced now sp s)"
proof -
  have table: "table_ok cat_id (categories s)" using ok by (simp add: catalog_ok_def)
  have "same_elsewhere {sp} s (replaced now sp s)"
    unfolding same_elsewhere_def
    using other_space_kept [OF table, of _ sp now] system_kept [OF table, of now sp]
    by (simp add: replaced_def)
  then show ?thesis
    using follows_replaced [OF ok] listed_replaced [OF table] unfolding catalog_replaced_def by blast
qed

section \<open>One set after another\<close>

lemma category_sent_trans:
  assumes apart: "A \<inter> B = {}" and first: "\<And>i. category_sent A s s1 i (f i)"
    and second: "\<And>i. category_sent B s1 s' i (g i)"
    and new: "\<And>i c. find_category i s = None \<Longrightarrow> find_category i s1 = Some c \<Longrightarrow> cat_space_id c \<in> A"
  shows "category_sent (A \<union> B) s s' i (g (f i))" and "f i \<noteq> i \<Longrightarrow> g (f i) = f i"
proof -
  show moves: "g (f i) = f i" if "f i \<noteq> i"
  proof -
    from first [of i] that obtain c c' where "find_category i s = Some c" "cat_space_id c \<in> A"
      "find_category (f i) s1 = Some c'" "cat_space_id c' = cat_space_id c"
      by (auto simp: category_sent_def split: option.splits if_splits)
    moreover from this apart have "cat_space_id c' \<notin> B" by auto
    ultimately show ?thesis using second [of "f i"] by (simp add: category_sent_def)
  qed
  show "category_sent (A \<union> B) s s' i (g (f i))"
  proof (cases "find_category i s")
    case None
    then have "f i = i" using first [of i] by (simp add: category_sent_def)
    have "g i = i"
    proof (cases "find_category i s1")
      case (Some c)
      with new [OF None Some] apart have "cat_space_id c \<notin> B" by auto
      with second [of i] Some show ?thesis by (simp add: category_sent_def)
    qed (use second [of i] in \<open>simp add: category_sent_def\<close>)
    with None \<open>f i = i\<close> show ?thesis by (simp add: category_sent_def)
  next
    case (Some c)
    show ?thesis
    proof (cases "cat_space_id c \<in> A \<and> \<not> cat_is_system c")
      case True
      with Some first [of i] obtain c' where c': "find_category (f i) s1 = Some c'" "cat_space_id c' = cat_space_id c"
        "\<not> cat_is_system c'" "(cat_transaction_type c', cat_name c') = target_key c"
        by (auto simp: category_sent_def)
      moreover from this True apart have "cat_space_id c' \<notin> B" by auto
      ultimately have "g (f i) = f i \<and> find_category (f i) s' = Some c'"
        using second [of "f i"] by (simp add: category_sent_def)
      with Some True c' show ?thesis by (simp add: category_sent_def)
    next
      case False
      with Some first [of i] have "f i = i" "find_category i s1 = Some c" by (auto simp: category_sent_def)
      with Some False second [of i] show ?thesis by (auto simp: category_sent_def)
    qed
  qed
qed

lemma limit_followed_trans:
  assumes "list_all2 (limit_followed f) ls ls1" and "list_all2 (limit_followed g) ls1 ls'"
  shows "list_all2 (limit_followed (g \<circ> f)) ls ls'"
proof (rule list_all2_trans [OF _ assms])
  fix l l1 l' assume "limit_followed f l l1" "limit_followed g l1 l'"
  then show "limit_followed (g \<circ> f) l l'"
    unfolding limit_followed_def by (metis image_comp limit.select_convs limit.surjective limit.update_convs(6))
qed

lemma new_in_space:
  assumes "table_ok cat_id (categories s)" and "table_ok cat_id (categories s1)"
    and same: "same_elsewhere A s s1" and "find_category i s = None" and "find_category i s1 = Some c"
  shows "cat_space_id c \<in> A"
proof (rule ccontr)
  assume "cat_space_id c \<notin> A"
  with same have rows_eq: "filter (\<lambda>x. cat_space_id x = cat_space_id c) (rows (categories s1)) =
      filter (\<lambda>x. cat_space_id x = cat_space_id c) (rows (categories s))"
    by (simp add: same_elsewhere_def)
  have "c \<in> set (rows (categories s1))" "cat_id c = i" using find_category_in [OF assms(5)] by simp_all
  then have "c \<in> set (filter (\<lambda>x. cat_space_id x = cat_space_id c) (rows (categories s1)))" by simp
  then have "c \<in> set (rows (categories s))" unfolding rows_eq by simp
  with \<open>cat_id c = i\<close> assms(4) find_category_row [OF assms(1), of i c] show False by simp
qed

lemma catalog_replaced_trans:
  assumes tables: "table_ok cat_id (categories s)" "table_ok cat_id (categories s1)"
    and first: "catalog_replaced A s s1" and second: "catalog_replaced B s1 s'" and apart: "A \<inter> B = {}"
  shows "catalog_replaced (A \<union> B) s s'"
proof -
  from first obtain f where f: "follows A f s s1" and e1: "same_elsewhere A s s1"
    and l1: "\<forall>sp \<in> A. list_all2 (is_entry sp) catalog_order (listed sp s1)" by (auto simp: catalog_replaced_def)
  from second obtain g where g: "follows B g s1 s'" and e2: "same_elsewhere B s1 s'"
    and l2: "\<forall>sp \<in> B. list_all2 (is_entry sp) catalog_order (listed sp s')" by (auto simp: catalog_replaced_def)
  have sent_f: "\<And>i. category_sent A s s1 i (f i)" and sent_g: "\<And>i. category_sent B s1 s' i (g i)"
    using f g by (simp_all add: follows_def)
  note compose = category_sent_trans [OF apart sent_f sent_g new_in_space [OF tables e1]]
  have "transactions s' = map (moved (g \<circ> f)) (transactions s)"
  proof -
    have "moved g (moved f t) = moved (g \<circ> f) t" for t
      using compose(2) [where i = "t_category_id t"] by (auto simp: moved_def)
    then show ?thesis using f g by (simp add: follows_def)
  qed
  moreover have "list_all2 (limit_followed (g \<circ> f)) (rows (limits s)) (rows (limits s'))"
    using f g by (auto simp: follows_def intro: limit_followed_trans)
  ultimately have "follows (A \<union> B) (g \<circ> f) s s'"
    using compose(1) by (simp add: follows_def)
  moreover have "same_elsewhere (A \<union> B) s s'"
  proof -
    obtain c1 t1 ls1 where s1: "s1 = s\<lparr>categories := c1, transactions := t1, limits := ls1\<rparr>"
      using e1 unfolding same_elsewhere_def by blast
    obtain c2 t2 ls2 where "s' = s1\<lparr>categories := c2, transactions := t2, limits := ls2\<rparr>"
      using e2 unfolding same_elsewhere_def by blast
    then have "s' = s\<lparr>categories := categories s', transactions := transactions s', limits := limits s'\<rparr>"
      by (simp add: s1)
    then show ?thesis using e1 e2 by (simp add: same_elsewhere_def)
  qed
  moreover have "list_all2 (is_entry sp) catalog_order (listed sp s')" if "sp \<in> A \<union> B" for sp
  proof (cases "sp \<in> B")
    case False
    then have "listed sp s' = listed sp s1"
      using e2 by (intro listed_cong) (simp add: same_elsewhere_def)
    with False that l1 show ?thesis by simp
  qed (use l2 in simp)
  ultimately show ?thesis unfolding catalog_replaced_def by blast
qed

section \<open>Every space in turn\<close>

lemma of_space_eq: "of_space key xs sp = filter (\<lambda>x. key x = sp) xs"
proof (cases "sp \<in> key ` set xs")
  case False
  then have "filter (\<lambda>x. key x = sp) xs = []" by (auto simp: filter_empty_conv)
  with False show ?thesis by (simp add: of_space_def map_of_group_by)
qed (simp add: of_space_def map_of_group_by)

lemma replace_each_runs:
  assumes "distinct sps" and "catalog_ok s" and "history_inv s"
    and "\<forall>sp \<in> set sps. of_space cat_space_id cats sp = ordinary sp s \<and>
      links_ok sp (of_space lk_limit_space_id ks sp) s \<and> unmerged sp s"
  shows "\<exists>s'. replace_each now cats ks sps s = Inr s' \<and> catalog_ok s' \<and> history_inv s' \<and>
    catalog_replaced (set sps) s s'"
  using assms
proof (induction sps arbitrary: s)
  case Nil
  have "follows {} id s s"
    by (auto simp: follows_def category_sent_def moved_def limit_followed_def list_all2_same map_idI [symmetric]
        split: option.split)
  then have "catalog_replaced {} s s" by (auto simp: catalog_replaced_def same_elsewhere_def)
  with Nil show ?case by simp
next
  case (Cons sp sps)
  let ?s1 = "replaced now sp s"
  have table: "table_ok cat_id (categories s)" using Cons.prems(2) by (simp add: catalog_ok_def)
  have head: "of_space cat_space_id cats sp = ordinary sp s" "links_ok sp (of_space lk_limit_space_id ks sp) s"
    "unmerged sp s" using Cons.prems(4) by simp_all
  have run: "replaceInSpace now sp (of_space cat_space_id cats sp) (of_space lk_limit_space_id ks sp) s = Inr ?s1"
    unfolding head(1) by (rule replaceInSpace_eq [OF Cons.prems(2) head(2)])
  have ok1: "catalog_ok ?s1" by (rule catalog_ok_replaced [OF Cons.prems(2) head(3)])
  have "\<exists>s'. replace_each now cats ks sps ?s1 = Inr s' \<and> catalog_ok s' \<and> history_inv s' \<and> catalog_replaced (set sps) ?s1 s'"
  proof (rule Cons.IH [OF _ ok1 history_inv_replaced [OF Cons.prems(3,2)]])
    show "distinct sps" using Cons.prems(1) by simp
    show "\<forall>sp' \<in> set sps. of_space cat_space_id cats sp' = ordinary sp' ?s1 \<and>
        links_ok sp' (of_space lk_limit_space_id ks sp') ?s1 \<and> unmerged sp' ?s1"
    proof (intro ballI conjI)
      fix sp' assume "sp' \<in> set sps"
      then have other: "sp' \<noteq> sp" and here: "of_space cat_space_id cats sp' = ordinary sp' s"
        "links_ok sp' (of_space lk_limit_space_id ks sp') s" "unmerged sp' s" using Cons.prems(1,4) by auto
      show "of_space cat_space_id cats sp' = ordinary sp' ?s1" by (simp only: here(1) ordinary_other [OF table other])
      show "links_ok sp' (of_space lk_limit_space_id ks sp') ?s1" by (rule links_ok_other [OF here(2) other])
      show "unmerged sp' ?s1" by (rule unmerged_other [OF Cons.prems(2) here(3) other])
    qed
  qed
  then obtain s' where s': "replace_each now cats ks sps ?s1 = Inr s'" "catalog_ok s'" "history_inv s'"
    "catalog_replaced (set sps) ?s1 s'" by blast
  have "catalog_replaced ({sp} \<union> set sps) s s'"
  proof (rule catalog_replaced_trans [OF table _ catalog_replaced_one [OF Cons.prems(2)] s'(4)])
    show "table_ok cat_id (categories ?s1)" using ok1 by (simp add: catalog_ok_def)
    show "{sp} \<inter> set sps = {}" using Cons.prems(1) by auto
  qed
  with s' run show ?case by simp
qed

section \<open>What is read at the start\<close>

lemma set_eligible: "sp \<in> set (eligible s) \<longleftrightarrow> (\<exists>p \<in> set (rows (spaces s)). sp_id p = sp \<and> eligible_space s p)"
  by (auto simp: eligible_def)

lemma distinct_eligible: "distinct (map sp_id (rows (spaces s))) \<Longrightarrow> distinct (eligible s)"
  by (simp add: eligible_def distinct_map_filter)

lemma stored_ordinary:
  assumes "sp \<in> set (eligible s)"
  shows "of_space cat_space_id (stored_categories s) sp = ordinary sp s"
proof -
  have "filter (\<lambda>c. cat_space_id c = sp) (filter (\<lambda>c. \<not> cat_is_system c \<and> cat_space_id c \<in> set (eligible s)) (rows (categories s))) =
      filter (\<lambda>c. \<not> cat_is_system c \<and> cat_space_id c = sp) (rows (categories s))"
    using assms unfolding filter_filter by (intro filter_cong) auto
  then show ?thesis
    by (simp only: of_space_eq stored_categories_def ordinary_def filter_sort)
qed

lemma links_of_limit:
  assumes ok: "catalog_ok s" and l: "l \<in> set (rows (limits s))"
  shows "links_of s l = map (\<lambda>c. \<lparr>lk_limit_id = l_id l, lk_limit_space_id = l_space_id l, lk_limit_name = l_name l,
    lk_category_id = c, lk_category_space_id = l_space_id l\<rparr>) (sort (l_categories l))"
proof -
  let ?link = "\<lambda>c. \<lparr>lk_limit_id = l_id l, lk_limit_space_id = l_space_id l, lk_limit_name = l_name l,
    lk_category_id = c, lk_category_space_id = l_space_id l\<rparr>"
  have found: "\<exists>c. find_category i s = Some c \<and> cat_space_id c = l_space_id l" if "i \<in> set (l_categories l)" for i
    using limit_category [OF ok l that] by (metis set_ordinary)
  have "List.map_filter (\<lambda>i. map_option (\<lambda>cat. \<lparr>lk_limit_id = l_id l, lk_limit_space_id = l_space_id l,
      lk_limit_name = l_name l, lk_category_id = i, lk_category_space_id = cat_space_id cat\<rparr>) (find_category i s)) is =
      map ?link is" if "set is \<subseteq> set (l_categories l)" for "is"
    using that found by (induction "is") (fastforce simp: List.map_filter_simps)+
  then show ?thesis by (simp add: links_of_def)
qed

lemma filter_links:
  assumes "distinct (map l_id ls)" and "\<forall>l \<in> set ls. \<forall>k \<in> set (f l). lk_limit_id k = l_id l" and "l \<in> set ls"
  shows "filter (\<lambda>k. lk_limit_id k = l_id l) (concat (map f ls)) = f l"
  using assms
proof (induction ls)
  case (Cons l' ls)
  show ?case
  proof (cases "l = l'")
    case True
    have "filter (\<lambda>k. lk_limit_id k = l_id l) (concat (map f ls)) = []"
      using Cons.prems(1,2) True by (auto simp: filter_empty_conv) (metis image_eqI)
    with True Cons.prems(2) show ?thesis by (simp add: filter_True)
  next
    case False
    then have l: "l \<in> set ls" using Cons.prems(3) by simp
    then have "l_id l' \<noteq> l_id l" using Cons.prems(1) by (metis distinct.simps(2) image_eqI list.set_map list.simps(9))
    then have "filter (\<lambda>k. lk_limit_id k = l_id l) (f l') = []" using Cons.prems(2) by (auto simp: filter_empty_conv)
    with Cons l show ?thesis by simp
  qed
qed simp

lemma all_links:
  assumes ok: "catalog_ok s" and l: "l \<in> set (rows (limits s))"
  shows "filter (\<lambda>k. lk_limit_id k = l_id l) (limit_links s) = (if l_space_id l \<in> set (eligible s) then links_of s l else [])"
proof -
  let ?ls = "sort_key l_id (rows (limits s))"
  have links: "\<forall>l \<in> set ?ls. \<forall>k \<in> set (links_of s l). lk_limit_id k = l_id l"
    using links_of_limit [OF ok] by auto
  have "distinct (map l_id ?ls)" using catalog_distinct(3) [OF ok] by (auto simp: distinct_map)
  from filter_links [OF this links] l
  have "filter (\<lambda>k. lk_limit_id k = l_id l) (concat (map (links_of s) ?ls)) = links_of s l" by simp
  then have "filter (\<lambda>k. lk_limit_id k = l_id l) (limit_links s) =
      filter (\<lambda>k. lk_limit_space_id k \<in> set (eligible s) \<or> lk_category_space_id k \<in> set (eligible s)) (links_of s l)"
    unfolding limit_links_def filter_filter by (metis (no_types, lifting) filter_filter filter_cong)
  then show ?thesis by (simp add: links_of_limit [OF ok l] filter_map comp_def)
qed

lemma stored_links:
  assumes ok: "catalog_ok s" and sp: "sp \<in> set (eligible s)"
  shows "links_ok sp (of_space lk_limit_space_id (limit_links s) sp) s"
  unfolding links_ok_def
proof
  fix l assume l: "l \<in> set (rows (limits s))"
  have "filter (\<lambda>k. lk_limit_id k = l_id l) (of_space lk_limit_space_id (limit_links s) sp) =
      filter (\<lambda>k. lk_limit_space_id k = sp) (filter (\<lambda>k. lk_limit_id k = l_id l) (limit_links s))"
    by (simp add: of_space_eq conj_commute)
  then show "map lk_category_id (filter (\<lambda>k. lk_limit_id k = l_id l) (of_space lk_limit_space_id (limit_links s) sp)) =
      (if l_space_id l = sp then sort (l_categories l) else [])"
    using sp by (simp add: all_links [OF ok l] links_of_limit [OF ok l] filter_map comp_def)
qed

section \<open>Conflicts\<close>

lemma length_dedup: "length (dedup xs) = card (set xs)"
  by (metis distinct_card distinct_dedup set_dedup)

lemma group_by_pairs: "(k, g) \<in> set (group_by key id xs) \<longleftrightarrow> k \<in> key ` set xs \<and> g = filter (\<lambda>x. key x = k) xs"
  by (auto simp: group_by_def)

lemma no_shared_conflict:
  "(\<forall>c \<in> set (group_by fst (\<lambda>cs. group_by fst (map snd) (map snd cs)) claims). shared_conflict cats c = []) \<longleftrightarrow>
    (\<forall>k a b a' b'. (k, a, b) \<in> set claims \<longrightarrow> (k, a', b') \<in> set claims \<longrightarrow> a = a')"
proof -
  have one: "shared_conflict cats (k, group_by fst (map snd) (map snd (filter (\<lambda>c. fst c = k) claims))) = [] \<longleftrightarrow>
      (\<forall>a b a' b'. (k, a, b) \<in> set claims \<longrightarrow> (k, a', b') \<in> set claims \<longrightarrow> a = a')" for k
  proof -
    let ?as = "map fst (map snd (filter (\<lambda>c. fst c = k) claims))"
    have mem: "a \<in> set ?as \<longleftrightarrow> (\<exists>b. (k, a, b) \<in> set claims)" for a by force
    have "shared_conflict cats (k, group_by fst (map snd) (map snd (filter (\<lambda>c. fst c = k) claims))) = [] \<longleftrightarrow>
        card (set ?as) \<le> 1"
      by (cases k) (simp add: shared_conflict_def group_by_def length_dedup)
    also have "\<dots> \<longleftrightarrow> (\<forall>a \<in> set ?as. \<forall>a' \<in> set ?as. a = a')"
      using card_le_Suc0_iff_eq [of "set ?as"] by simp
    also have "\<dots> \<longleftrightarrow> (\<forall>a b a' b'. (k, a, b) \<in> set claims \<longrightarrow> (k, a', b') \<in> set claims \<longrightarrow> a = a')"
      unfolding Ball_def mem by blast
    finally show ?thesis .
  qed
  have "(\<forall>c \<in> set (group_by fst (\<lambda>cs. group_by fst (map snd) (map snd cs)) claims). shared_conflict cats c = []) \<longleftrightarrow>
      (\<forall>k \<in> fst ` set claims. shared_conflict cats (k, group_by fst (map snd) (map snd (filter (\<lambda>c. fst c = k) claims))) = [])"
    unfolding group_by_def [of fst "\<lambda>cs. group_by fst (map snd) (map snd cs)" claims] by simp
  also have "\<dots> \<longleftrightarrow> (\<forall>k a b a' b'. (k, a, b) \<in> set claims \<longrightarrow> (k, a', b') \<in> set claims \<longrightarrow> a = a')"
  proof -
    have "k \<in> fst ` set claims" if "(k, a, b) \<in> set claims" for k a b
      using that by (metis fst_conv image_eqI)
    then show ?thesis unfolding one by blast
  qed
  finally show ?thesis .
qed

text \<open>The groups are the limits of the spaces, without the total ones.\<close>

lemma limit_groups:
  assumes ok: "catalog_ok s"
  shows "set (group_by lk_limit_id id (limit_links s)) =
    {(l_id l, links_of s l) | l. l \<in> set (rows (limits s)) \<and> l_space_id l \<in> set (eligible s) \<and> l_categories l \<noteq> []}"
proof (intro set_eqI iffI)
  fix g assume "g \<in> set (group_by lk_limit_id id (limit_links s))"
  moreover obtain i ks where "g = (i, ks)" by (cases g)
  ultimately have i: "i \<in> lk_limit_id ` set (limit_links s)" "g = (i, filter (\<lambda>k. lk_limit_id k = i) (limit_links s))"
    by (simp_all add: group_by_pairs)
  then obtain l where l: "l \<in> set (rows (limits s))" "i = l_id l"
    using links_of_limit [OF ok] by (auto simp: limit_links_def)
  have "filter (\<lambda>k. lk_limit_id k = i) (limit_links s) \<noteq> []" using i(1) by (auto simp: filter_empty_conv)
  then have "l_space_id l \<in> set (eligible s)" "links_of s l \<noteq> []"
    using all_links [OF ok l(1)] l(2) by (auto split: if_splits)
  moreover from this have "l_categories l \<noteq> []" using links_of_limit [OF ok l(1)] by auto
  ultimately show "g \<in> {(l_id l, links_of s l) | l. l \<in> set (rows (limits s)) \<and> l_space_id l \<in> set (eligible s) \<and> l_categories l \<noteq> []}"
    using i(2) l all_links [OF ok l(1)] by auto
next
  fix g assume "g \<in> {(l_id l, links_of s l) | l. l \<in> set (rows (limits s)) \<and> l_space_id l \<in> set (eligible s) \<and> l_categories l \<noteq> []}"
  then obtain l where g: "g = (l_id l, links_of s l)" and l: "l \<in> set (rows (limits s))"
    "l_space_id l \<in> set (eligible s)" "l_categories l \<noteq> []" by blast
  have links: "filter (\<lambda>k. lk_limit_id k = l_id l) (limit_links s) = links_of s l" using all_links [OF ok l(1)] l(2) by simp
  have "links_of s l \<noteq> []" using l(3) by (metis links_of_limit [OF ok l(1)] map_is_Nil_conv set_empty set_sort)
  then have "hd (links_of s l) \<in> set (filter (\<lambda>k. lk_limit_id k = l_id l) (limit_links s))" unfolding links by (rule hd_in_set)
  then have "l_id l \<in> lk_limit_id ` set (limit_links s)" by (auto intro!: image_eqI [of _ _ "hd (links_of s l)"])
  with links show "g \<in> set (group_by lk_limit_id id (limit_links s))" by (simp add: g group_by_pairs)
qed

lemma targetOf_link:
  assumes ok: "catalog_ok s" and l: "l \<in> set (rows (limits s))" "l_space_id l \<in> set (eligible s)" and i: "i \<in> set (l_categories l)"
    and k: "lk_category_id k = i" "lk_limit_space_id k = l_space_id l"
  shows "\<exists>ty name. targetOf (stored_categories s) k = Mapped ty name \<and> key_of s i = Some (ty, name)"
proof -
  obtain c where c: "find_category i s = Some c" "c \<in> set (ordinary (l_space_id l) s)" "cat_id c = i"
    using limit_category [OF ok l(1) i] by metis
  have "distinct (map cat_id (stored_categories s))"
    using catalog_distinct(2) [OF ok] by (auto simp: stored_categories_def distinct_map inj_on_def)
  moreover have "c \<in> set (stored_categories s)" using c(2) l(2) by (simp add: stored_categories_def)
  ultimately have "category_by_id (stored_categories s) i = Some c"
    using find_row_key [of cat_id "stored_categories s" c] c(3) by (simp add: category_by_id_def)
  with c k show ?thesis by (simp add: targetOf_def key_of_def target_key_def)
qed

definition eligible_limit :: "db \<Rightarrow> limit \<Rightarrow> bool" where
  "eligible_limit s l \<longleftrightarrow> l \<in> set (rows (limits s)) \<and> l_space_id l \<in> set (eligible s)"

lemma unmerged_eligible:
  "(\<forall>sp \<in> set (eligible s). unmerged sp s) \<longleftrightarrow>
    (\<forall>l l' i j. eligible_limit s l \<longrightarrow> eligible_limit s l' \<longrightarrow> l_space_id l = l_space_id l' \<longrightarrow> i \<in> set (l_categories l) \<longrightarrow>
       j \<in> set (l_categories l') \<longrightarrow> key_of s i = key_of s j \<longrightarrow> l_id l = l_id l') \<and>
    (\<forall>l. eligible_limit s l \<longrightarrow> 1 < length (l_categories l) \<longrightarrow>
       (\<exists>i \<in> set (l_categories l). \<exists>j \<in> set (l_categories l). key_of s i \<noteq> key_of s j))"
  (is "_ \<longleftrightarrow> ?apart \<and> ?groups")
proof (intro iffI conjI)
  assume u: "\<forall>sp \<in> set (eligible s). unmerged sp s"
  show ?groups using u unfolding unmerged_def eligible_limit_def by blast
  show ?apart
  proof (intro allI impI, rule ccontr)
    fix l l' i j assume *: "eligible_limit s l" "eligible_limit s l'" "l_space_id l = l_space_id l'"
      "i \<in> set (l_categories l)" "j \<in> set (l_categories l')" "key_of s i = key_of s j" "l_id l \<noteq> l_id l'"
    with u have "key_of s ` set (l_categories l) \<inter> key_of s ` set (l_categories l') = {}"
      unfolding unmerged_def eligible_limit_def by metis
    with *(4-6) show False by (metis IntI empty_iff image_eqI)
  qed
next
  assume *: "?apart \<and> ?groups"
  show "\<forall>sp \<in> set (eligible s). unmerged sp s"
    unfolding unmerged_def
  proof (intro ballI conjI impI)
    fix sp l l' assume "sp \<in> set (eligible s)" "l \<in> set (rows (limits s))" "l' \<in> set (rows (limits s))"
      "l_space_id l = sp" "l_space_id l' = sp" "l_id l \<noteq> l_id l'"
    then have "eligible_limit s l" "eligible_limit s l'" "l_space_id l = l_space_id l'" "l_id l \<noteq> l_id l'"
      by (simp_all add: eligible_limit_def)
    with * show "key_of s ` set (l_categories l) \<inter> key_of s ` set (l_categories l') = {}" by blast
  next
    fix sp l assume "sp \<in> set (eligible s)" "l \<in> set (rows (limits s))" "l_space_id l = sp" "1 < length (l_categories l)"
    with * show "\<exists>i \<in> set (l_categories l). \<exists>j \<in> set (l_categories l). key_of s i \<noteq> key_of s j"
      unfolding eligible_limit_def by blast
  qed
qed

definition link_of :: "limit \<Rightarrow> nat \<Rightarrow> LimitLink" where
  "link_of l i = \<lparr>lk_limit_id = l_id l, lk_limit_space_id = l_space_id l, lk_limit_name = l_name l,
     lk_category_id = i, lk_category_space_id = l_space_id l\<rparr>"

lemma link_of_simps [simp]:
  "lk_limit_id (link_of l i) = l_id l" "lk_limit_space_id (link_of l i) = l_space_id l"
  "lk_category_id (link_of l i) = i" "lk_category_space_id (link_of l i) = l_space_id l"
  by (simp_all add: link_of_def)

lemma links_of_eq:
  assumes "catalog_ok s" and "eligible_limit s l"
  shows "links_of s l = map (link_of l) (sort (l_categories l))"
  using links_of_limit [OF assms(1)] assms(2) by (simp add: eligible_limit_def link_of_def [abs_def])

lemma targetOf_eq_iff:
  assumes ok: "catalog_ok s" and l: "eligible_limit s l" "eligible_limit s l'"
    and i: "i \<in> set (l_categories l)" "i' \<in> set (l_categories l')"
  shows "targetOf (stored_categories s) (link_of l i) = targetOf (stored_categories s) (link_of l' i') \<longleftrightarrow>
    key_of s i = key_of s i'"
  using targetOf_link [OF ok, of l i "link_of l i"] targetOf_link [OF ok, of l' i' "link_of l' i'"] l i
  by (auto simp: eligible_limit_def)

lemma group_conflict_iff:
  assumes ok: "catalog_ok s" and l: "eligible_limit s l"
  shows "group_conflict (stored_categories s) (l_id l, links_of s l) = [] \<longleftrightarrow>
    (1 < length (l_categories l) \<longrightarrow> (\<exists>i \<in> set (l_categories l). \<exists>j \<in> set (l_categories l). key_of s i \<noteq> key_of s j))"
proof -
  let ?t = "\<lambda>i. targetOf (stored_categories s) (link_of l i)"
  have "group_conflict (stored_categories s) (l_id l, links_of s l) = [] \<longleftrightarrow>
      (1 < length (l_categories l) \<longrightarrow> card (?t ` set (l_categories l)) \<noteq> 1)"
    by (simp add: group_conflict_def Let_def links_of_eq [OF ok l] length_dedup image_image)
  also have "\<dots> \<longleftrightarrow> (1 < length (l_categories l) \<longrightarrow> \<not> (\<forall>x \<in> ?t ` set (l_categories l). \<forall>y \<in> ?t ` set (l_categories l). x = y))"
  proof (rule imp_cong [OF refl])
    assume "1 < length (l_categories l)"
    then have "set (l_categories l) \<noteq> {}" by auto
    then have "card (?t ` set (l_categories l)) \<noteq> 0" by simp
    then have "(card (?t ` set (l_categories l)) \<noteq> 1) = (\<not> card (?t ` set (l_categories l)) \<le> Suc 0)" by linarith
    also have "\<dots> = (\<not> (\<forall>x \<in> ?t ` set (l_categories l). \<forall>y \<in> ?t ` set (l_categories l). x = y))"
      by (subst card_le_Suc0_iff_eq) simp_all
    finally show "(card (?t ` set (l_categories l)) \<noteq> 1) =
        (\<not> (\<forall>x \<in> ?t ` set (l_categories l). \<forall>y \<in> ?t ` set (l_categories l). x = y))" .
  qed
  also have "\<dots> \<longleftrightarrow> (1 < length (l_categories l) \<longrightarrow>
      (\<exists>i \<in> set (l_categories l). \<exists>j \<in> set (l_categories l). key_of s i \<noteq> key_of s j))"
    using targetOf_eq_iff [OF ok l l] by auto
  finally show ?thesis .
qed

lemma set_claims:
  assumes ok: "catalog_ok s"
  shows "(k, a, b) \<in> set (concat (map (claims_of (stored_categories s)) (group_by lk_limit_id id (limit_links s)))) \<longleftrightarrow>
    (\<exists>l. eligible_limit s l \<and> b \<in> set (l_categories l) \<and> a = l_id l \<and>
      k = (l_space_id l, targetOf (stored_categories s) (link_of l b)))"
proof -
  have one: "(k, a, b) \<in> set (claims_of (stored_categories s) (l_id l, links_of s l)) \<longleftrightarrow>
      b \<in> set (l_categories l) \<and> a = l_id l \<and> k = (l_space_id l, targetOf (stored_categories s) (link_of l b))"
    if l: "eligible_limit s l" "l_categories l \<noteq> []" for l
  proof -
    have "sort (l_categories l) \<noteq> []" using l(2) by (metis set_empty set_sort)
    then have "hd (links_of s l) = link_of l (hd (sort (l_categories l)))"
      by (simp add: links_of_eq [OF ok l(1)] hd_map)
    then show ?thesis by (auto simp: claims_of_def links_of_eq [OF ok l(1)])
  qed
  have "(k, a, b) \<in> set (concat (map (claims_of (stored_categories s)) (group_by lk_limit_id id (limit_links s)))) \<longleftrightarrow>
      (\<exists>l. eligible_limit s l \<and> l_categories l \<noteq> [] \<and> (k, a, b) \<in> set (claims_of (stored_categories s) (l_id l, links_of s l)))"
    unfolding set_concat set_map limit_groups [OF ok] eligible_limit_def by blast
  also have "\<dots> \<longleftrightarrow> (\<exists>l. eligible_limit s l \<and> b \<in> set (l_categories l) \<and> a = l_id l \<and>
      k = (l_space_id l, targetOf (stored_categories s) (link_of l b)))"
    using one by (metis empty_iff list.set(1))
  finally show ?thesis .
qed

lemma foreign_conflicts_none:
  assumes ok: "catalog_ok s" and l: "eligible_limit s l" "l_categories l \<noteq> []"
  shows "foreign_conflicts (stored_categories s) (l_id l, links_of s l) = []"
proof -
  have "sort (l_categories l) \<noteq> []" using l(2) by (metis set_empty set_sort)
  then have "hd (links_of s l) = link_of l (hd (sort (l_categories l)))"
    by (simp add: links_of_eq [OF ok l(1)] hd_map)
  then show ?thesis
    by (simp add: foreign_conflicts_def Let_def filter_empty_conv) (simp add: links_of_eq [OF ok l(1)])
qed

lemma no_conflicts:
  assumes ok: "catalog_ok s"
  shows "findLimitConflicts (stored_categories s) (limit_links s) = [] \<longleftrightarrow> (\<forall>sp \<in> set (eligible s). unmerged sp s)"
proof -
  let ?cats = "stored_categories s"
  have groups: "(\<forall>g \<in> set (group_by lk_limit_id id (limit_links s)). foreign_conflicts ?cats g @ group_conflict ?cats g = []) \<longleftrightarrow>
      (\<forall>l. eligible_limit s l \<longrightarrow> 1 < length (l_categories l) \<longrightarrow>
        (\<exists>i \<in> set (l_categories l). \<exists>j \<in> set (l_categories l). key_of s i \<noteq> key_of s j))"
  proof -
    have "(\<forall>g \<in> set (group_by lk_limit_id id (limit_links s)). foreign_conflicts ?cats g @ group_conflict ?cats g = []) \<longleftrightarrow>
        (\<forall>l. eligible_limit s l \<longrightarrow> l_categories l \<noteq> [] \<longrightarrow>
          foreign_conflicts ?cats (l_id l, links_of s l) @ group_conflict ?cats (l_id l, links_of s l) = [])"
      unfolding limit_groups [OF ok] eligible_limit_def by blast
    moreover have "foreign_conflicts ?cats (l_id l, links_of s l) @ group_conflict ?cats (l_id l, links_of s l) = [] \<longleftrightarrow>
        (1 < length (l_categories l) \<longrightarrow> (\<exists>i \<in> set (l_categories l). \<exists>j \<in> set (l_categories l). key_of s i \<noteq> key_of s j))"
      if "eligible_limit s l" "l_categories l \<noteq> []" for l
      using foreign_conflicts_none [OF ok that] group_conflict_iff [OF ok that(1)] by (simp only: append_Nil)
    moreover have "1 < length (l_categories l) \<Longrightarrow> l_categories l \<noteq> []" for l :: limit by auto
    ultimately show ?thesis by blast
  qed
  have claims: "(\<forall>k a b a' b'. (k, a, b) \<in> set (concat (map (claims_of ?cats) (group_by lk_limit_id id (limit_links s)))) \<longrightarrow>
        (k, a', b') \<in> set (concat (map (claims_of ?cats) (group_by lk_limit_id id (limit_links s)))) \<longrightarrow> a = a') \<longleftrightarrow>
      (\<forall>l l' i j. eligible_limit s l \<longrightarrow> eligible_limit s l' \<longrightarrow> l_space_id l = l_space_id l' \<longrightarrow> i \<in> set (l_categories l) \<longrightarrow>
         j \<in> set (l_categories l') \<longrightarrow> key_of s i = key_of s j \<longrightarrow> l_id l = l_id l')"
    unfolding set_claims [OF ok]
  proof (intro iffI allI impI)
    fix l l' i j
    assume one: "\<forall>k a b a' b'.
        (\<exists>l. eligible_limit s l \<and> b \<in> set (l_categories l) \<and> a = l_id l \<and> k = (l_space_id l, targetOf ?cats (link_of l b))) \<longrightarrow>
        (\<exists>l. eligible_limit s l \<and> b' \<in> set (l_categories l) \<and> a' = l_id l \<and> k = (l_space_id l, targetOf ?cats (link_of l b'))) \<longrightarrow>
        a = a'"
      and l: "eligible_limit s l" "eligible_limit s l'" "l_space_id l = l_space_id l'"
      and i: "i \<in> set (l_categories l)" "j \<in> set (l_categories l')" "key_of s i = key_of s j"
    have "targetOf ?cats (link_of l i) = targetOf ?cats (link_of l' j)"
      using targetOf_eq_iff [OF ok l(1,2) i(1,2)] i(3) by blast
    with l i show "l_id l = l_id l'"
      using one [rule_format, of i "l_id l" "(l_space_id l, targetOf ?cats (link_of l i))" j "l_id l'"] by blast
  next
    fix k a b a' b'
    assume apart: "\<forall>l l' i j. eligible_limit s l \<longrightarrow> eligible_limit s l' \<longrightarrow> l_space_id l = l_space_id l' \<longrightarrow>
        i \<in> set (l_categories l) \<longrightarrow> j \<in> set (l_categories l') \<longrightarrow> key_of s i = key_of s j \<longrightarrow> l_id l = l_id l'"
      and "\<exists>l. eligible_limit s l \<and> b \<in> set (l_categories l) \<and> a = l_id l \<and> k = (l_space_id l, targetOf ?cats (link_of l b))"
      and "\<exists>l. eligible_limit s l \<and> b' \<in> set (l_categories l) \<and> a' = l_id l \<and> k = (l_space_id l, targetOf ?cats (link_of l b'))"
    then obtain l l' where l: "eligible_limit s l" "b \<in> set (l_categories l)" "a = l_id l"
      and l': "eligible_limit s l'" "b' \<in> set (l_categories l')" "a' = l_id l'"
      and k: "l_space_id l = l_space_id l'" "targetOf ?cats (link_of l b) = targetOf ?cats (link_of l' b')"
      by (metis prod.inject)
    have "key_of s b = key_of s b'" using targetOf_eq_iff [OF ok l(1) l'(1) l(2) l'(2)] k(2) by blast
    with apart l l' k(1) show "a = a'" by blast
  qed
  have "findLimitConflicts ?cats (limit_links s) = [] \<longleftrightarrow>
      (\<forall>g \<in> set (group_by lk_limit_id id (limit_links s)). foreign_conflicts ?cats g @ group_conflict ?cats g = []) \<and>
      (\<forall>k a b a' b'. (k, a, b) \<in> set (concat (map (claims_of ?cats) (group_by lk_limit_id id (limit_links s)))) \<longrightarrow>
        (k, a', b') \<in> set (concat (map (claims_of ?cats) (group_by lk_limit_id id (limit_links s)))) \<longrightarrow> a = a')"
    unfolding findLimitConflicts_def Let_def append_is_Nil_conv [of "concat _"] concat_eq_Nil_conv set_map ball_simps
      no_shared_conflict by blast
  then show ?thesis unfolding unmerged_eligible groups claims by blast
qed

end
