(* ===== verification/ReplacementRepeat.thy ===== *)
theory ReplacementRepeat
  imports ReplacementRuns
begin

text \<open>
  When the replacement runs and what then holds, and why a second run changes nothing: a space whose
  ordinary categories are the catalog is replaced by itself.
\<close>

section \<open>The whole replacement\<close>

lemma replace_catalog_runs:
  assumes ok: "catalog_ok s" and inv: "history_inv s" and spaces: "distinct (map sp_id (rows (spaces s)))"
    and apart: "\<forall>sp \<in> set (eligible s). unmerged sp s"
  shows "\<exists>s'. replace_catalog now s = Inr s' \<and> catalog_ok s' \<and> history_inv s' \<and> catalog_replaced (set (eligible s)) s s'"
proof -
  have "replace_catalog now s = replace_each now (stored_categories s) (limit_links s) (eligible s) s"
    using no_conflicts [OF ok] apart by (simp add: replace_catalog_def Let_def)
  moreover have "\<exists>s'. replace_each now (stored_categories s) (limit_links s) (eligible s) s = Inr s' \<and>
      catalog_ok s' \<and> history_inv s' \<and> catalog_replaced (set (eligible s)) s s'"
    by (rule replace_each_runs [OF distinct_eligible [OF spaces] ok inv])
      (use stored_ordinary stored_links [OF ok] apart in blast)
  ultimately show ?thesis by simp
qed

lemma replace_catalog_refuses:
  assumes ok: "catalog_ok s" and merged: "\<not> (\<forall>sp \<in> set (eligible s). unmerged sp s)"
  shows "replace_catalog now s = Inl (conflict_error (findLimitConflicts (stored_categories s) (limit_links s)))"
    and "findLimitConflicts (stored_categories s) (limit_links s) \<noteq> []"
proof -
  show conflicts: "findLimitConflicts (stored_categories s) (limit_links s) \<noteq> []"
    using no_conflicts [OF ok] merged by blast
  moreover have "eligible s \<noteq> []" using merged by auto
  ultimately show "replace_catalog now s = Inl (conflict_error (findLimitConflicts (stored_categories s) (limit_links s)))"
    by (simp add: replace_catalog_def Let_def)
qed

section \<open>A space that has the catalog\<close>

definition settled :: "nat \<Rightarrow> db \<Rightarrow> bool" where
  "settled sp s \<longleftrightarrow> table_ok cat_id (categories s) \<and> list_all2 (is_entry sp) catalog_order (listed sp s)"

lemma set_listed: "c \<in> set (listed sp s) \<longleftrightarrow> c \<in> set (ordinary sp s)"
  by (auto simp: listed_def)

lemma settled_entry:
  assumes "settled sp s" and "c \<in> set (ordinary sp s)"
  obtains e n where "(e, n) \<in> set catalog_order" and "is_entry sp (e, n) c"
proof -
  from assms obtain j where j: "j < length (listed sp s)" "c = listed sp s ! j"
    unfolding set_listed [symmetric] by (metis in_set_conv_nth)
  with assms(1) have "j < length catalog_order" "is_entry sp (catalog_order ! j) c"
    by (auto simp: settled_def list_all2_conv_all_nth)
  then show thesis using that by (metis nth_mem prod.collapse)
qed

lemma settled_unique:
  assumes s: "settled sp s" and c: "c \<in> set (ordinary sp s)" "c' \<in> set (ordinary sp s)"
    and en: "is_entry sp en c" "is_entry sp en c'"
  shows "c = c'"
proof -
  from c obtain j j' where j: "j < length (listed sp s)" "c = listed sp s ! j"
    and j': "j' < length (listed sp s)" "c' = listed sp s ! j'"
    unfolding set_listed [symmetric] by (metis in_set_conv_nth)
  have same: "list_all2 (is_entry sp) catalog_order (listed sp s)" using s by (simp add: settled_def)
  then have len: "length catalog_order = length (listed sp s)" by (rule list_all2_lengthD)
  have "snd (catalog_order ! j) = snd en" "snd (catalog_order ! j') = snd en"
    using list_all2_nthD2 [OF same j(1)] list_all2_nthD2 [OF same j'(1)] j(2) j'(2) en is_entry_number by metis+
  then have "j = j'"
    using nth_eq_iff_index_eq [OF distinct_numbers, of j j'] j(1) j'(1) len by simp
  with j j' show ?thesis by simp
qed

lemma settled_key:
  assumes "(e, n) \<in> set catalog_order" and "is_entry sp (e, n) c"
  shows "target_key c = entry_key e" and "mp_rank (mapCategory c) = 0"
proof -
  have e: "e \<in> set CATALOG" using assms(1) by (metis fst_catalog_order fst_conv image_eqI list.set_map)
  have "(cat_transaction_type c, cat_name c) = entry_key e" using assms(2) by (simp add: is_entry_def entry_key_def)
  from mapCategory_same_name [OF e this] this show "target_key c = entry_key e" "mp_rank (mapCategory c) = 0"
    by (simp_all add: target_key_def entry_key_def)
qed

lemma same_entry:
  assumes "(e, n) \<in> set catalog_order" and "(e', n') \<in> set catalog_order" and "entry_key e = entry_key e'"
  shows "(e, n) = (e', n')"
  using distinct_key_eq [OF catalog_order_keys assms(1,2)] assms(3) by simp

lemma settled_keeper:
  assumes s: "settled sp s" and e: "(e, n) \<in> set catalog_order"
  obtains c where "keeper (ordinary sp s) e = Some c" and "c \<in> set (ordinary sp s)" and "is_entry sp (e, n) c"
proof -
  have same: "list_all2 (is_entry sp) catalog_order (listed sp s)" using s by (simp add: settled_def)
  obtain j where j: "j < length catalog_order" "catalog_order ! j = (e, n)" using e by (metis in_set_conv_nth)
  then have row: "listed sp s ! j \<in> set (ordinary sp s)" "is_entry sp (e, n) (listed sp s ! j)"
    using list_all2_nthD [OF same j(1)] list_all2_lengthD [OF same] set_listed by (metis nth_mem)+
  let ?c = "listed sp s ! j"
  have "target_key ?c = (ce_type e, ce_name e)" "mp_rank (mapCategory ?c) < 2"
    using settled_key [OF e row(2)] by (simp_all add: entry_key_def)
  with row(1) have "filter (\<lambda>c. target_key c = (ce_type e, ce_name e) \<and> mp_rank (mapCategory c) < 2) (ordinary sp s) \<noteq> []"
    by (auto simp: filter_empty_conv)
  then have "keeper (ordinary sp s) e \<noteq> None"
    unfolding keeper_def head_opt_eq_None sort_key_Nil .
  then obtain c where c: "keeper (ordinary sp s) e = Some c" by blast
  note facts = keeper_Some [OF c]
  from settled_entry [OF s facts(1)] obtain e' n' where e': "(e', n') \<in> set catalog_order" "is_entry sp (e', n') c" .
  have "(e', n') = (e, n)"
    using same_entry [OF e'(1) e] settled_key(1) [OF e'] facts(2) by simp
  with e'(2) facts(1) c show thesis by (intro that) simp_all
qed

lemma adopt_entry: "is_entry sp (e, n) c \<Longrightarrow> adopt now e n c = c"
  by (cases c) (simp add: adopt_def Let_def is_entry_def)

lemma settled_placed:
  assumes s: "settled sp s"
  shows "pl_table (placed now sp s) = categories s"
proof -
  have table: "table_ok cat_id (categories s)" using s by (simp add: settled_def)
  have "unkept (ordinary sp s) catalog_order = []"
  proof -
    have "keeper (ordinary sp s) e \<noteq> None" if "(e, n) \<in> set catalog_order" for e n
      by (rule settled_keeper [OF s that]) simp
    then show ?thesis by (auto simp: unkept_def filter_empty_conv)
  qed
  moreover have "adopted now (ordinary sp s) catalog_order r = r" if r: "r \<in> set (rows (categories s))" for r
  proof (cases "kept (ordinary sp s) catalog_order (cat_id r)")
    case (Some en)
    obtain e n where en: "en = (e, n)" by (cases en)
    from kept_Some [OF Some [unfolded en]] obtain c where
      c: "(e, n) \<in> set catalog_order" "keeper (ordinary sp s) e = Some c" "cat_id c = cat_id r" by blast
    obtain c' where "keeper (ordinary sp s) e = Some c'" "c' \<in> set (ordinary sp s)" "is_entry sp (e, n) c'"
      by (rule settled_keeper [OF s c(1)])
    with c(2) have "c \<in> set (ordinary sp s)" "is_entry sp (e, n) c" by simp_all
    moreover from this have "c = r"
      using distinct_key_eq [of cat_id "rows (categories s)" c r] table r c(3) by (simp add: table_ok_def)
    ultimately show ?thesis using adopt_entry by (simp add: adopted_def Some en)
  qed (simp add: adopted_def)
  ultimately show ?thesis
    using placed_rows [OF table, of now sp] by (simp add: map_idI)
qed

lemma settled_goes:
  assumes s: "settled sp s"
  shows "goes now sp s i = i"
proof (rule ccontr)
  have table: "table_ok cat_id (categories s)" using s by (simp add: settled_def)
  assume moves: "goes now sp s i \<noteq> i"
  then obtain c where c: "c \<in> set (ordinary sp s)" "cat_id c = i" using goes_other by blast
  obtain e n r where r: "(e, n) \<in> set catalog_order" "r \<in> set (rows (pl_table (placed now sp s)))"
    "is_entry sp (e, n) r" "target_key c = entry_key e" "cat_id r = goes now sp s (cat_id c)"
    by (rule goes_row [OF table c(1), of now])
  have in_space: "r \<in> set (ordinary sp s)"
    using r(2,3) by (simp add: settled_placed [OF s] is_entry_def)
  from settled_entry [OF s c(1)] obtain e' n' where e': "(e', n') \<in> set catalog_order" "is_entry sp (e', n') c" .
  have "(e', n') = (e, n)" using same_entry [OF e'(1) r(1)] settled_key(1) [OF e'] r(4) by simp
  then have "c = r" using settled_unique [OF s c(1) in_space] e'(2) r(3) by simp
  with r(5) c(2) moves show False by simp
qed

lemma settled_replaced:
  assumes s: "settled sp s"
  shows "replaced now sp s = s"
proof -
  have "map (moved (goes now sp s)) (transactions s) = transactions s"
    by (rule map_idI) (simp add: moved_def settled_goes [OF s])
  moreover have "map (\<lambda>l. if l_space_id l = sp then l\<lparr>l_categories := followed (goes now sp s) (l_categories l)\<rparr> else l)
      (rows (limits s)) = rows (limits s)"
    by (rule map_idI) (simp add: followed_same settled_goes [OF s])
  moreover have "delete_rows (\<lambda>c. goes now sp s (cat_id c) \<noteq> cat_id c) (rows (categories s)) = rows (categories s)"
    by (simp add: delete_rows_def settled_goes [OF s])
  ultimately show ?thesis
    by (simp only: replaced_def settled_placed [OF s]) simp
qed

text \<open>Different categories of such a space map to different ones, so no limits merge.\<close>

lemma settled_unmerged:
  assumes s: "settled sp s" and ok: "catalog_ok s"
  shows "unmerged sp s"
proof -
  have inj: "i = j"
    if i: "l \<in> set (rows (limits s))" "l_space_id l = sp" "i \<in> set (l_categories l)"
      and j: "l' \<in> set (rows (limits s))" "l_space_id l' = sp" "j \<in> set (l_categories l')"
      and key: "key_of s i = key_of s j" for l l' i j
  proof -
    obtain c where c: "find_category i s = Some c" "c \<in> set (ordinary sp s)" "cat_id c = i"
      using limit_category [OF ok i(1,3)] i(2) by metis
    obtain d where d: "find_category j s = Some d" "d \<in> set (ordinary sp s)" "cat_id d = j"
      using limit_category [OF ok j(1,3)] j(2) by metis
    from settled_entry [OF s c(2)] obtain e n where e: "(e, n) \<in> set catalog_order" "is_entry sp (e, n) c" .
    from settled_entry [OF s d(2)] obtain e' n' where e': "(e', n') \<in> set catalog_order" "is_entry sp (e', n') d" .
    have "entry_key e = entry_key e'"
      using key c(1) d(1) settled_key(1) [OF e] settled_key(1) [OF e'] by (simp add: key_of_def)
    then have "(e, n) = (e', n')" by (rule same_entry [OF e(1) e'(1)])
    then have "c = d" using settled_unique [OF s c(2) d(2) e(2)] e'(2) by simp
    with c(3) d(3) show ?thesis by simp
  qed
  have compatible': "set (l_categories l) \<inter> set (l_categories l') = {}"
    if "l \<in> set (rows (limits s))" "l' \<in> set (rows (limits s))" "l_id l \<noteq> l_id l'" for l l'
    using ok that unfolding catalog_ok_def limits_ok_def compatible_def by blast
  have distinct': "distinct (l_categories l)" if "l \<in> set (rows (limits s))" for l
    using ok that unfolding catalog_ok_def limits_ok_def limit_ok_def by blast
  show ?thesis
    unfolding unmerged_def
  proof (intro conjI ballI impI)
    fix l l' assume "l \<in> set (rows (limits s))" "l' \<in> set (rows (limits s))" "l_space_id l = sp" "l_space_id l' = sp"
      "l_id l \<noteq> l_id l'"
    with inj [of l _ l'] compatible' [of l l'] show "key_of s ` set (l_categories l) \<inter> key_of s ` set (l_categories l') = {}"
      by (auto simp: disjoint_iff)
  next
    fix l assume l: "l \<in> set (rows (limits s))" "l_space_id l = sp" "1 < length (l_categories l)"
    then have "l_categories l ! 0 \<in> set (l_categories l)" "l_categories l ! 1 \<in> set (l_categories l)"
      by (auto intro!: nth_mem)
    moreover have "0 < length (l_categories l)" using l(3) by linarith
    then have "l_categories l ! 0 \<noteq> l_categories l ! 1"
      using nth_eq_iff_index_eq [OF distinct' [OF l(1)] _ l(3), of 0] by simp
    ultimately
    show "\<exists>i \<in> set (l_categories l). \<exists>j \<in> set (l_categories l). key_of s i \<noteq> key_of s j"
      using inj [OF l(1,2) _ l(1,2)] by metis
  qed
qed

text \<open>So a run on spaces that have the catalog answers the database it was given.\<close>

lemma replace_each_settled:
  assumes "catalog_ok s"
    and "\<forall>sp \<in> set sps. settled sp s \<and> of_space cat_space_id cats sp = ordinary sp s \<and>
      links_ok sp (of_space lk_limit_space_id ks sp) s"
  shows "replace_each now cats ks sps s = Inr s"
  using assms(2)
proof (induction sps)
  case (Cons sp sps)
  then have "replaceInSpace now sp (of_space cat_space_id cats sp) (of_space lk_limit_space_id ks sp) s = Inr s"
    using replaceInSpace_eq [OF assms(1), of sp "of_space lk_limit_space_id ks sp" now] settled_replaced by simp
  with Cons show ?case by simp
qed simp

lemma replace_catalog_settled:
  assumes ok: "catalog_ok s" and all: "\<forall>sp \<in> set (eligible s). settled sp s"
  shows "replace_catalog now s = Inr s"
proof -
  have "findLimitConflicts (stored_categories s) (limit_links s) = []"
    using no_conflicts [OF ok] settled_unmerged [OF _ ok] all by blast
  moreover have "replace_each now (stored_categories s) (limit_links s) (eligible s) s = Inr s"
    by (rule replace_each_settled [OF ok]) (use all stored_ordinary stored_links [OF ok] in blast)
  ultimately show ?thesis by (simp add: replace_catalog_def Let_def)
qed

lemma eligible_same: "users s' = users s \<Longrightarrow> members s' = members s \<Longrightarrow> spaces s' = spaces s \<Longrightarrow> eligible s' = eligible s"
  by (simp add: eligible_def eligible_space_def [abs_def])

lemma same_elsewhere_people:
  assumes "same_elsewhere A s s'"
  shows "users s' = users s" "members s' = members s" "spaces s' = spaces s" "wallets s' = wallets s"
    "invites s' = invites s" "operations s' = operations s"
proof -
  obtain c t l where "s' = s\<lparr>categories := c, transactions := t, limits := l\<rparr>"
    using assms unfolding same_elsewhere_def by blast
  then show "users s' = users s" "members s' = members s" "spaces s' = spaces s" "wallets s' = wallets s"
    "invites s' = invites s" "operations s' = operations s" by simp_all
qed

lemma replaced_settled:
  assumes "catalog_replaced (set (eligible s)) s s'" and "catalog_ok s'"
  shows "replace_catalog now s' = Inr s'"
proof (rule replace_catalog_settled [OF assms(2)])
  have "same_elsewhere (set (eligible s)) s s'" using assms(1) by (simp add: catalog_replaced_def)
  then have "eligible s' = eligible s"
    by (intro eligible_same) (simp_all only: same_elsewhere_people)
  moreover have "\<forall>sp \<in> set (eligible s). list_all2 (is_entry sp) catalog_order (listed sp s')"
    using assms(1) unfolding catalog_replaced_def by blast
  moreover have "table_ok cat_id (categories s')" using assms(2) by (simp add: catalog_ok_def)
  ultimately show "\<forall>sp \<in> set (eligible s'). settled sp s'" by (simp add: settled_def)
qed

end
