(* ===== verification/ReplacementProperties.thy ===== *)
theory ReplacementProperties
  imports ReplacementRepeat InviteProperties CatalogProperties
begin

text \<open>
  The properties of the replacement of the category catalog: what it does to every category,
  transaction and limit, when it is refused, and that it keeps the integrity of the program.
\<close>

section \<open>A legacy space\<close>

definition ex_legacy :: "string \<Rightarrow> db" where
  "ex_legacy name = ex_group
     \<lparr>categories := ex_table 5 [ex_category 1 ''Salary'' INCOME False, ex_category 2 ''Groceries'' EXPENSE False,
         ex_category 3 ''Initial balance'' INCOME True, ex_category 4 name EXPENSE False],
      limits := ex_table 3 [ex_limit 1 CATEGORY [2], ex_limit 2 CATEGORY [4]]\<rparr>"

lemmas ex_legacy_tables = ex_legacy_def ex_group_def ex_limit_def ex_tables

lemma ex_legacy_inv: "program_inv (ex_legacy name, {''a''})"
proof -
  have "catalog_ok (ex_legacy name)"
    by (simp add: catalog_ok_def table_ok_def limits_ok_def limit_ok_def compatible_def lookup_category_def
        find_category_def ex_legacy_tables MAX_MONEY_INPUT_CENTS_def)
  moreover have "history_inv (ex_legacy name)"
    by (simp add: history_inv_def transaction_ok_def lookup_eval ex_legacy_tables MAX_MONEY_INPUT_CENTS_def)
  moreover have "ids_used (ex_legacy name) {''a''}"
    by (simp add: ids_used_def ex_legacy_tables)
  moreover have "members_ok (ex_legacy name)"
    using ex_group_ok members_ok_cong [of "ex_legacy name" ex_group] by (simp add: ex_legacy_def)
  ultimately show ?thesis by (simp add: program_inv_def space_inv_def state_inv_def)
qed

lemma ex_legacy_eligible: "eligible (ex_legacy name) = [1]"
  by (simp add: eligible_def eligible_space_def ex_legacy_tables)

lemma ex_keys:
  "key_of (ex_legacy name) 2 = Some (EXPENSE, ''Groceries'')"
  "key_of (ex_legacy ''Transport'') 4 = Some (EXPENSE, ''Transport'')"
  "key_of (ex_legacy ''Groceries'') 4 = Some (EXPENSE, ''Groceries'')"
proof -
  have by_name: "mapCategory (ex_category i (ce_name e) (ce_type e) False) = \<lparr>mp_target = ce_name e, mp_rank = 0\<rparr>"
    if "e \<in> set CATALOG" for i e
    by (rule mapCategory_same_name [OF that]) (simp add: ex_category_def entry_key_def)
  have "entry EXPENSE ''Groceries'' GROCERY EVERGREEN \<in> set CATALOG" "entry EXPENSE ''Transport'' TRANSPORT INDIGO \<in> set CATALOG"
    by (simp_all add: CATALOG_def entry_def)
  from this [THEN by_name] show
    "key_of (ex_legacy name) 2 = Some (EXPENSE, ''Groceries'')"
    "key_of (ex_legacy ''Transport'') 4 = Some (EXPENSE, ''Transport'')"
    "key_of (ex_legacy ''Groceries'') 4 = Some (EXPENSE, ''Groceries'')"
    by (simp_all add: key_of_def target_key_def find_category_def ex_legacy_def ex_table_def entry_def ex_category_def)
qed

lemma ex_legacy_limits: "rows (limits (ex_legacy name)) = [ex_limit 1 CATEGORY [2], ex_limit 2 CATEGORY [4]]"
  by (simp add: ex_legacy_def ex_table_def)

lemma ex_legacy_unmerged: "unmerged 1 (ex_legacy ''Transport'')" and ex_legacy_merged: "\<not> unmerged 1 (ex_legacy ''Groceries'')"
  by (simp_all add: unmerged_def ex_legacy_limits ex_keys ex_limit_def)

section \<open>What the replacement does\<close>

text \<open>C24. After the replacement, the ordinary categories of every initialized space are exactly the starter
  catalog, active and in its order, while other spaces and system categories keep their rows. There is one
  place where each category went, of the same space and type and with the name it maps to: every transaction
  is there, with a version one higher exactly when it moved and nothing else changed, and every limit covers
  exactly the places of its categories. Balances stay.\<close>

theorem replacement_effect:
  assumes "program_inv (s, used)" and "replace_catalog now s = Inr s'"
  shows "(\<forall>sp \<in> set (eligible s). list_all2 (is_entry sp) catalog_order (listed sp s')) \<and>
    same_elsewhere (set (eligible s)) s s' \<and>
    (\<exists>f. (\<forall>i. category_sent (set (eligible s)) s s' i (f i)) \<and>
      transactions s' = map (\<lambda>t. if f (t_category_id t) = t_category_id t then t
        else t\<lparr>t_category_id := f (t_category_id t), t_version := t_version t + 1\<rparr>) (transactions s) \<and>
      list_all2 (\<lambda>l l'. l' = l\<lparr>l_categories := l_categories l'\<rparr> \<and> set (l_categories l') = f ` set (l_categories l))
        (rows (limits s)) (rows (limits s'))) \<and>
    getBalances ids s' = getBalances ids s"
proof -
  have inv: "catalog_ok s" "history_inv s" "members_ok s"
    using assms(1) by (simp_all add: program_inv_def space_inv_def state_inv_def)
  have "\<forall>sp \<in> set (eligible s). unmerged sp s"
    using replace_catalog_refuses(1) [OF inv(1), of now] assms(2) by force
  then have replaced: "catalog_replaced (set (eligible s)) s s'"
    using replace_catalog_runs [OF inv(1,2), of now] members_okD(2) [OF inv(3)] assms(2) by (auto simp: table_ok_def)
  then obtain f where f: "follows (set (eligible s)) f s s'" by (auto simp: catalog_replaced_def)
  have "getBalances ids s' = getBalances ids s"
  proof -
    have "filter p (map (moved f) ts) = map (moved f) (filter p ts)" if "\<And>t. p (moved f t) = p t" for p ts
      by (simp add: filter_map comp_def that)
    moreover have "transactions s' = map (moved f) (transactions s)" using f by (simp add: follows_def)
    moreover have "signed_amount (moved f t) = signed_amount t" for t by (simp add: signed_amount_def)
    ultimately show ?thesis
      by (simp add: getBalances_def group_by_def comp_def filter_map cong: if_cong)
  qed
  then show ?thesis
    using replaced f unfolding catalog_replaced_def follows_def moved_def [abs_def] limit_followed_def [abs_def] by blast
qed

lemma replacement_effect_witness:
  "\<exists>s'. replace_catalog 6000 (ex_legacy ''Transport'') = Inr s' \<and> length (listed 1 s') = 20 \<and>
    getBalances [7] s' 7 = Some (- 250)"
proof -
  have inv: "catalog_ok (ex_legacy ''Transport'')" "history_inv (ex_legacy ''Transport'')"
    using ex_legacy_inv [of "''Transport''"] by (simp_all add: program_inv_def space_inv_def state_inv_def)
  have "distinct (map sp_id (rows (spaces (ex_legacy ''Transport''))))" by (simp add: ex_legacy_tables)
  then obtain s' where s': "replace_catalog 6000 (ex_legacy ''Transport'') = Inr s'"
    using replace_catalog_runs [OF inv] ex_legacy_unmerged ex_legacy_eligible by auto
  note effect = replacement_effect [OF ex_legacy_inv s', where ids = "[7]"]
  have "list_all2 (is_entry 1) catalog_order (listed 1 s')" using effect by (simp add: ex_legacy_eligible)
  then have "length (listed 1 s') = length (map snd catalog_order)" by (simp add: list_all2_lengthD)
  moreover have "getBalances [7] (ex_legacy ''Transport'') 7 = Some (- 250)"
    by (simp add: getBalances_def group_by_def signed_amount_def ex_legacy_tables)
  ultimately show ?thesis using s' effect by (simp add: catalog_order_numbers)
qed

section \<open>When it is refused\<close>

definition before_run :: "connection \<Rightarrow> db" where
  "before_run c = (case open_transaction c of Some s \<Rightarrow> s | None \<Rightarrow> committed c)"

text \<open>C26. The migration runs exactly when no two limits of a space map to a common category and no group of
  a space maps to a single one; it never fails halfway. Otherwise it throws with a list of the
  conflicts, and what is committed is what the run had committed or still open before it.\<close>

theorem replacement_refused:
  assumes "program_inv (s, used)" and "before_run c = s"
  shows "if \<forall>sp \<in> set (eligible s). unmerged sp s
    then \<exists>s'. replace_catalog now s = Inr s' \<and> up now c = (None,
      if open_transaction c = None then \<lparr>committed = s', open_transaction = None\<rparr>
      else \<lparr>committed = s, open_transaction = Some s'\<rparr>)
    else \<exists>conflicts. conflicts \<noteq> [] \<and> up now c = (Some (conflict_error conflicts), \<lparr>committed = s, open_transaction = None\<rparr>)"
proof -
  have inv: "catalog_ok s" "history_inv s" "distinct (map sp_id (rows (spaces s)))"
    using assms(1) members_okD(2) [of s] by (simp_all add: program_inv_def space_inv_def state_inv_def table_ok_def)
  show ?thesis
  proof (cases "\<forall>sp \<in> set (eligible s). unmerged sp s")
    case True
    with replace_catalog_runs [OF inv] obtain s' where "replace_catalog now s = Inr s'" by blast
    with True show ?thesis by (auto simp: up_def inOwnTransaction_def assms(2) [symmetric] before_run_def split: option.split)
  next
    case False
    with replace_catalog_refuses(1) [OF inv(1) False, of now] replace_catalog_refuses(2) [OF inv(1) False] show ?thesis
      by (auto simp: up_def inOwnTransaction_def assms(2) [symmetric] before_run_def split: option.splits)
  qed
qed

lemma replacement_refused_witness:
  "fst (up 6000 \<lparr>committed = ex_legacy ''Transport'', open_transaction = None\<rparr>) = None \<and>
   (\<exists>conflicts. conflicts \<noteq> [] \<and> up 6000 \<lparr>committed = empty_db, open_transaction = Some (ex_legacy ''Groceries'')\<rparr> =
     (Some (conflict_error conflicts), \<lparr>committed = ex_legacy ''Groceries'', open_transaction = None\<rparr>))"
proof
  show "fst (up 6000 \<lparr>committed = ex_legacy ''Transport'', open_transaction = None\<rparr>) = None"
    using replacement_refused [OF ex_legacy_inv, of "\<lparr>committed = ex_legacy ''Transport'', open_transaction = None\<rparr>" "''Transport''" 6000]
      ex_legacy_unmerged by (auto simp: before_run_def ex_legacy_eligible)
  show "\<exists>conflicts. conflicts \<noteq> [] \<and> up 6000 \<lparr>committed = empty_db, open_transaction = Some (ex_legacy ''Groceries'')\<rparr> =
     (Some (conflict_error conflicts), \<lparr>committed = ex_legacy ''Groceries'', open_transaction = None\<rparr>)"
    using replacement_refused [OF ex_legacy_inv, of "\<lparr>committed = empty_db, open_transaction = Some (ex_legacy ''Groceries'')\<rparr>" "''Groceries''" 6000]
      ex_legacy_merged by (auto simp: before_run_def ex_legacy_eligible)
qed

section \<open>What it keeps\<close>

text \<open>C25. The replacement keeps the integrity of the whole program: no two limits share a category, limits
  hold active categories of their space, links of the history stay within spaces. Run again, it
  changes nothing.\<close>

theorem replacement_keeps_integrity:
  assumes "program_inv (s, used)" and "replace_catalog now s = Inr s'"
  shows "program_inv (s', used) \<and> replace_catalog again s' = Inr s'"
proof -
  have inv: "catalog_ok s" "history_inv s" "members_ok s" "ids_used s used"
    using assms(1) by (simp_all add: program_inv_def space_inv_def state_inv_def)
  have "\<forall>sp \<in> set (eligible s). unmerged sp s"
    using replace_catalog_refuses(1) [OF inv(1), of now] assms(2) by force
  then have s': "catalog_ok s'" "history_inv s'" "catalog_replaced (set (eligible s)) s s'"
    using replace_catalog_runs [OF inv(1,2), of now] members_okD(2) [OF inv(3)] assms(2) by (auto simp: table_ok_def)
  then obtain f where f: "transactions s' = map (moved f) (transactions s)" and same: "same_elsewhere (set (eligible s)) s s'"
    by (auto simp: catalog_replaced_def follows_def)
  note people = same_elsewhere_people [OF same]
  have "ids_used s' used" using inv(4) by (auto simp: ids_used_def f people(6))
  moreover have "members_ok s'" using inv(3) members_ok_cong [OF people(2,3,5)] by simp
  ultimately show ?thesis
    using s' replaced_settled [OF s'(3,1)] by (simp add: program_inv_def space_inv_def state_inv_def)
qed

lemma replacement_keeps_integrity_witness:
  "\<exists>s'. replace_catalog 6000 (ex_legacy ''Transport'') = Inr s' \<and> replace_catalog 9000 s' = Inr s' \<and>
    program_inv (s', {''a''})"
proof -
  have inv: "catalog_ok (ex_legacy ''Transport'')" "history_inv (ex_legacy ''Transport'')"
    using ex_legacy_inv [of "''Transport''"] by (simp_all add: program_inv_def space_inv_def state_inv_def)
  have "distinct (map sp_id (rows (spaces (ex_legacy ''Transport''))))" by (simp add: ex_legacy_tables)
  then obtain s' where s': "replace_catalog 6000 (ex_legacy ''Transport'') = Inr s'"
    using replace_catalog_runs [OF inv] ex_legacy_unmerged ex_legacy_eligible by auto
  with replacement_keeps_integrity [OF ex_legacy_inv s'] show ?thesis by blast
qed

end
