(* ===== verification/Spec2Isabelle.thy ===== *)
theory Spec2Isabelle
  imports FeedProperties CatalogProperties CoreProperties InviteProperties AccountProperties
    StatisticsProperties Requests Emails ReplacementProperties
begin

text \<open>
  A verification development for the Success Budget backend, a NestJS service that keeps the budgets
  of spaces shared by several members: wallets, transactions, categories and monthly limits, with
  accounts, invitations by email and password resets around them.

  \<^bold>\<open>The program and its model.\<close> Controllers pass each request to one operation of a service;
  the services read and write a MySQL database through TypeORM, most writes in one transaction that
  locks the membership of the caller first. Paths below are under \<open>src/\<close> of the repository.
  The state is the record \<open>db\<close> of \<open>Entities\<close>: one table for each entity of
  \<open>entities/*.entity.ts\<close>, a list of rows with the next value of the auto-increment key, and
  transactions, whose keys are UUIDs, as a list. An operation is a function from its arguments and the
  state to a sum: \<open>Inl\<close> with the exception thrown, or \<open>Inr\<close> with the answer and the
  next state; an exception of a unit of work rolls it back, so no state comes with it. Money is an
  integer number of cents, an instant the number of its milliseconds, an id a natural number.

  \<^bold>\<open>Components.\<close>

    \<^item> \<open>Prelude\<close>, \<open>Reachability\<close>: sequencing of calls that throw, tables and their
      lookups, updates and deletes, string and list operations; the interfaces of step relations.

    \<^item> \<open>Errors\<close>, \<open>Entities\<close>: \<open>shared/error-messages.ts\<close>,
      \<open>api.exception.ts\<close>, \<open>retry-after.exception.ts\<close>, \<open>http-exception.filter.ts\<close>,
      \<open>shared/utils/*\<close> for assertions and driver errors; enumerations, entities, row locks.

    \<^item> \<open>Money\<close>, \<open>Runtime\<close>: \<open>shared/utils/money.ts\<close>, dates, decorators and header
      pipes. \<open>WriteTransaction\<close>: the retried unit of work. \<open>Idempotency\<close>:
      \<open>modules/idempotency\<close>. \<open>SpaceAccess\<close>: membership checks and locks.

    \<^item> \<open>TransactionQueries\<close>, \<open>Transactions\<close>, \<open>Feed\<close>: \<open>modules/transaction-queries\<close>
      and \<open>modules/transactions\<close>, the writes with versions, client operation ids and idempotency
      keys, and the feed with its cursors. \<open>Wallets\<close>, \<open>Categories\<close>, \<open>SpendingLimits\<close>: the
      services of the same names.

    \<^item> \<open>Spaces\<close>, \<open>Invites\<close>, \<open>InviteDelivery\<close>: \<open>modules/spaces\<close>: creation and deletion
      of spaces, invitations by link and by code, members, and the queue that delivers the emails.

    \<^item> \<open>Users\<close>, \<open>ConfirmationCodes\<close>, \<open>PasswordReset\<close>: accounts and access tokens
      (\<open>modules/users\<close>, \<open>shared/strategies\<close>), the codes that confirm an address, and
      \<open>modules/password-reset\<close>.

    \<^item> \<open>Statistics\<close>, \<open>StatisticsPeriods\<close>: \<open>modules/statistics\<close> and the queries behind it:
      periods of a request, trend intervals, breakdowns by category and wallet, and the three answers.

    \<^item> \<open>Requests\<close>: the optional query pipes, the rules of new passwords, and the handlers that
      combine pipes with defaults. \<open>Emails\<close>: the texts of \<open>modules/mail\<close>.

    \<^item> \<open>CatalogMigration\<close>: \<open>migrations/1790900000000-ReplaceCategoryCatalog.ts\<close>, the migration
      that rewrites the categories of users, with its report of conflicts and its transaction.

  \<^bold>\<open>How the parts interact.\<close> Every write to a space goes through the lock of
  \<open>SpaceAccess\<close>; its contract is the locale \<open>space_write\<close>, interpreted on each write of
  transactions, wallets, categories and limits. \<open>keyed_work\<close> is what \<open>Idempotency\<close> asks of the
  work it guards. The lock of all members, retried by \<open>WriteTransaction\<close> when their set changed,
  serves the operations of \<open>Spaces\<close> and \<open>Invites\<close> that end a membership. Registration,
  confirmation and the creation of a space share \<open>space-setup.ts\<close>. \<open>TransactionHistory\<close>,
  \<open>SpaceHistory\<close>, \<open>AccountSteps\<close> and \<open>ProgramHistory\<close> put the writes together as inductive
  step relations: the last one, \<open>program_step\<close>, has every successful write of spaces, their
  catalog and transactions, of accounts and of the delivery of emails as a step, in any order. The
  migration runs while the API is stopped; it is shown to keep the invariant of \<open>program_step\<close>.

  \<^bold>\<open>Parameters.\<close> What is not in the repository is an argument: the record \<open>runtime\<close> (numbers,
  JSON, validators, local dates, digests, and what other transactions do to idempotency keys),
  \<open>calendar\<close> (time zones), \<open>cursor_runtime\<close> (base64url and JSON), \<open>crypto\<close> and the arguments
  for HMAC, bcrypt, random codes and tokens, the collation \<open>like\<close> and \<open>same_text\<close> of the
  database, \<open>mail\<close> for what an attempt to send comes to, and \<open>scan\<close> for the order in which an
  unordered query returns rows. Each theorem names the laws it needs of them as hypotheses.
  Where a request uses several transactions or reads outside one, other requests may come in between:
  \<open>view k\<close>, \<open>env k\<close> and \<open>clk k\<close> are the state, the interference and the clock at the
  \<open>k\<close>-th such point, so that the statements hold for every interleaving. Where a read
  response is computed from several plain reads, they are taken to see one state.

  \<^bold>\<open>Fuel and bounds.\<close> \<open>runWriteTransaction\<close> has the five attempts of the source,
  \<open>claim\<close> the bound of the source on its rounds; both are proved to end with an answer or an error
  within them, so no fuel is added. Runs of the delivery recurse on the list of due invitations, which
  is finite. The loop of \<open>splitRange\<close> runs on an arbitrary calendar, so it is a partial function
  into an option, and it is proved to return for calendars with the documented laws of luxon. All
  other recursions are structural or, as the hash of nested payloads and the collapsing of spaces, have a
  measure. Column ranges are written out where code relies on them: amounts up to ten digits,
  timestamps of 32-bit seconds, 32-bit ids and the versions of requests. The version of a stored transaction counts without the
  bound of its unsigned 32-bit column: no property depends on the overflow, which takes four thousand
  million edits of one record.

  \<^bold>\<open>What is shown.\<close>

    \<^item> \<open>TransactionProperties\<close>: the invariant of the history and effects, refusals, undo and
      idempotency of transactions (from \<open>TransactionFacts\<close>, \<open>TransactionHistory\<close>).

    \<^item> \<open>FeedProperties\<close>: pages built from per-wallet branches are pages of the whole selection in
      order, following the cursors of \<open>getFeed\<close> reads everything once, totals agree, cursors round trip
      (from \<open>FeedPages\<close>).

    \<^item> \<open>CatalogProperties\<close>: the invariant of limits and categories, and the effects and
      conditions of writes of wallets, categories and limits (from \<open>SpaceCatalog\<close>, \<open>SpaceHistory\<close>,
      \<open>LimitFacts\<close>).

    \<^item> \<open>CoreProperties\<close>: money, retried units of work, idempotency keys.

    \<^item> \<open>InviteProperties\<close>: integrity of the whole program in all reachable states, joining and
      leaving under any interleaving, what strangers learn, link tokens, sending limits over any day and
      the delivery of emails (from \<open>Membership\<close>, \<open>SpaceLife\<close>, \<open>ProgramHistory\<close>,
      \<open>DeliveryFacts\<close>, \<open>AttemptFacts\<close>, \<open>EmailLimits\<close>, \<open>LinkFacts\<close>).

    \<^item> \<open>AccountProperties\<close>: password resets hide which accounts exist; only a completed reset
      changes the password of a verified account, and its token and the older sessions are refused in
      every later state. \<open>ResetLife\<close> has the steps, \<open>account_write\<close>: the writes of accounts under one
      set of secrets and any write of the other tables. The hypothesis \<open>collision_free\<close> idealizes the
      two hash functions, and later codes are accepted at other milliseconds than the used token's.

    \<^item> \<open>StatisticsProperties\<close>: the intervals of a trend tile their period, the three blocks of
      statistics agree, and breakdowns lose nothing (from \<open>StatisticsFacts\<close>, \<open>TrendFacts\<close>,
      \<open>BreakdownFacts\<close>, \<open>StatisticsBlocks\<close>).

    \<^item> \<open>ReplacementProperties\<close>: the migration gives every initialized space the starter catalog,
      moves history and limits along, is refused exactly when limits would merge, keeps the integrity of
      the program and is idempotent (from \<open>CatalogEntries\<close>, \<open>ReplacementFacts\<close> for one space,
      \<open>ReplacementEffect\<close>, \<open>ReplacementRuns\<close> for all spaces, \<open>ReplacementRepeat\<close>).

  \<open>Examples\<close> holds the small database on which concrete instances are evaluated.

  \<^bold>\<open>Not modelled.\<close> Controllers, modules, guards and the OpenAPI description (routing and
  documentation: a handler but those of \<open>Requests\<close> calls one operation); configuration, logging and
  start-up; the other migrations, seeds and benchmarks (SQL and tools run by hand, whose result is the
  schema of the entities); the SMTP client; the list of currencies, health answers and the static
  invitation page, which have no logic of their own; timers and the sets of running promises awaited at
  shutdown; message texts of errors other than field errors and the conflicts of the migration.
\<close>

end
